(* ===== verification/Prelude.thy ===== *)
theory Prelude
  imports Main "HOL-Library.Word"
begin

section \<open>Shared vocabulary and lemmas\<close>

text \<open>
  The integer types of \<^verbatim>\<open>rt-thread/include/rtdef.h\<close> at their width, the kernel's error
  codes, the collections of rewrite rules the component theories fill, and the generic facts on
  lists and words that several of them use.
\<close>

unbundle bit_operations_syntax

type_synonym u8 = "8 word"
type_synonym u16 = "16 word"
type_synonym u32 = "32 word"

text \<open>
  \<open>rt_err_t\<close> is a signed \<^verbatim>\<open>long\<close>; the code only stores the constants below and their
  negations in it, so it is an \<open>int\<close>.
\<close>

type_synonym rt_err_t = int

abbreviation (input) RT_EOK :: rt_err_t where "RT_EOK \<equiv> 0"
abbreviation (input) RT_ERROR :: rt_err_t where "RT_ERROR \<equiv> 1"
abbreviation (input) RT_ETIMEOUT :: rt_err_t where "RT_ETIMEOUT \<equiv> 2"
abbreviation (input) RT_EFULL :: rt_err_t where "RT_EFULL \<equiv> 3"
abbreviation (input) RT_EEMPTY :: rt_err_t where "RT_EEMPTY \<equiv> 4"
abbreviation (input) RT_ENOMEM :: rt_err_t where "RT_ENOMEM \<equiv> 5"
abbreviation (input) RT_ENOSYS :: rt_err_t where "RT_ENOSYS \<equiv> 6"
abbreviation (input) RT_EINVAL :: rt_err_t where "RT_EINVAL \<equiv> 10"

text \<open>\<open>kfield\<close>: how each kernel operation acts on the fields of the kernel state.
  \<open>kframe\<close>: what an operation leaves alone.\<close>

named_theorems kfield \<open>effect of the kernel operations on the state's fields\<close>
named_theorems kframe \<open>fields a kernel operation does not touch\<close>

subsection \<open>Lists\<close>

lemma hd_removeAll_other:
  "xs \<noteq> [] \<Longrightarrow> hd xs \<noteq> x \<Longrightarrow> hd (removeAll x xs) = hd xs"
  by (cases xs) auto

lemma removeAll_hd_distinct: "distinct (x # xs) \<Longrightarrow> removeAll x (x # xs) = xs"
  by simp

lemma removeAll_id_iff: "removeAll x xs = xs \<longleftrightarrow> x \<notin> set xs"
  by (metis Diff_iff insertI1 removeAll_id set_removeAll)

lemma distinct_hd_tl: "distinct xs \<Longrightarrow> xs \<noteq> [] \<Longrightarrow> removeAll (hd xs) xs = tl xs"
  by (cases xs) auto

lemma sorted_wrt_removeAll: "sorted_wrt R xs \<Longrightarrow> sorted_wrt R (removeAll x xs)"
  by (induction xs) auto

subsection \<open>Words\<close>

text \<open>Subtraction of two ticks, as a number: the wrap-around of the 32-bit tick counter.\<close>

lemma unat_diff32:
  fixes a b :: u32
  shows "unat (a - b) = (if unat b \<le> unat a then unat a - unat b else unat a + 4294967296 - unat b)"
  by (simp add: unat_sub_if')

lemma unat_add32:
  fixes a b :: u32
  shows "unat (a + b) = (unat a + unat b) mod 4294967296"
  by (simp add: unat_word_ariths)

lemma unat32_bound: "unat (a :: u32) < 4294967296"
  using unsigned_less [of a] by simp

text \<open>A signed word that is not negative, read as a number; the times of the blocking calls.\<close>

lemma uint_nonneg:
  fixes w :: "32 word"
  assumes "0 \<le> sint w"
  shows "uint w = sint w"
proof -
  have "uint w = take_bit 32 (sint w)" by (simp add: uint_sint)
  moreover have "sint w < 2 ^ 31" using sint_lt [of w] by simp
  ultimately show ?thesis using assms by (simp add: take_bit_int_eq_self)
qed

lemma time_bound:
  fixes w :: "32 word"
  assumes "0 < sint w" "w \<noteq> 0x7fffffff"
  shows "w < 0x7fffffff"
proof -
  have "unat w \<noteq> unat (0x7fffffff :: 32 word)" using assms(2) word_unat_eq_iff by blast
  moreover have "0 \<le> sint w" using assms(1) by linarith
  then have eq: "uint w = sint w" by (rule uint_nonneg)
  have "sint w < 2 ^ 31" using sint_lt [of w] by simp
  then have "uint w < 2 ^ 31" unfolding eq .
  then have "int (unat w) < 2 ^ 31" by (simp only: uint_nat [symmetric])
  then have "unat w < 2 ^ 31" by (metis of_nat_less_numeral_power_cancel_iff)
  ultimately show ?thesis by (simp add: word_less_nat_alt)
qed

end
