(* ===== verification/Kernel_State.thy ===== *)
theory Kernel_State
  imports Prelude
begin

section \<open>The data of the kernel\<close>

text \<open>
  The structures of \<^verbatim>\<open>rt-thread/include/rtdef.h\<close> in the configuration of
  \<^verbatim>\<open>rtconfig.h\<close> (one CPU, 32 priorities, no signals, asserts compiled out) and the
  global variables of the kernel's files, gathered in one record.

  Objects are identified by numbers, one name space per class (they stand for the addresses).
  Every \<open>rt_list_t\<close> head that links threads through their \<open>tlist\<close> node is a constructor of
  \<open>tqueue\<close>; the field \<open>tq\<close> gives the threads linked there, in order. A node sits in one list,
  so \<open>rt_list_remove(&thread->tlist)\<close> takes the thread out of whichever list holds it.
\<close>

datatype rt_object_class_type =
    RT_Object_Class_Null | RT_Object_Class_Thread | RT_Object_Class_Semaphore
  | RT_Object_Class_Mutex | RT_Object_Class_Event | RT_Object_Class_MailBox
  | RT_Object_Class_MessageQueue | RT_Object_Class_MemHeap | RT_Object_Class_MemPool
  | RT_Object_Class_Device | RT_Object_Class_Timer | RT_Object_Class_Module
  | RT_Object_Class_Unknown

text \<open>The numbers of the enumeration; \<open>RT_Object_Class_Static\<close> is a bit of the type byte.\<close>

fun class_code :: "rt_object_class_type \<Rightarrow> u8" where
  "class_code RT_Object_Class_Null = 0x00"
| "class_code RT_Object_Class_Thread = 0x01"
| "class_code RT_Object_Class_Semaphore = 0x02"
| "class_code RT_Object_Class_Mutex = 0x03"
| "class_code RT_Object_Class_Event = 0x04"
| "class_code RT_Object_Class_MailBox = 0x05"
| "class_code RT_Object_Class_MessageQueue = 0x06"
| "class_code RT_Object_Class_MemHeap = 0x07"
| "class_code RT_Object_Class_MemPool = 0x08"
| "class_code RT_Object_Class_Device = 0x09"
| "class_code RT_Object_Class_Timer = 0x0a"
| "class_code RT_Object_Class_Module = 0x0b"
| "class_code RT_Object_Class_Unknown = 0x0c"

definition RT_Object_Class_Static :: u8 where "RT_Object_Class_Static = 0x80"

datatype tmid = ThreadTimer nat | UserTimer nat

datatype objref = OThread nat | OSem nat | OMutex nat | OEvent nat | OMailbox nat
  | OMessageQueue nat | ODevice nat | OTimer tmid

text \<open>\<open>struct rt_object\<close>: the list node is the membership in \<open>object_list\<close>.\<close>

record rt_object =
  obj_name :: string
  obj_type :: u8
  obj_flag :: u8

text \<open>The \<open>timeout_func\<close> and \<open>parameter\<close> of a timer: the kernel's own timeout of a thread, or a
  function of the application with its argument.\<close>

datatype timeout_action = Thread_timeout nat | User_timeout nat nat

record rt_timer =
  tm_action :: timeout_action
  tm_init_tick :: u32
  tm_timeout_tick :: u32

record rt_thread =
  th_entry :: nat
  th_parameter :: nat
  th_stack_addr :: nat
  th_stack_size :: u32
  th_error :: rt_err_t
  th_stat :: u8
  th_current_priority :: u8
  th_init_priority :: u8
  th_number_mask :: u32
  th_event_set :: u32
  th_event_info :: u8
  th_init_tick :: u32
  th_remaining_tick :: u32
  th_cleanup :: "nat option"
  th_user_data :: u32

record rt_semaphore =
  sem_value :: u16

record rt_mutex =
  mtx_value :: u16
  mtx_original_priority :: u8
  mtx_hold :: u8
  mtx_owner :: "nat option"

record rt_event =
  evt_set :: u32

record rt_mailbox =
  mb_msg_pool :: "u32 list"
  mb_size :: u16
  mb_entry :: u16
  mb_in_offset :: u16
  mb_out_offset :: u16

text \<open>
  The message blocks of a queue are numbered in the order of the pool: \<open>mq_msg_queue\<close> is the
  chain from \<open>msg_queue_head\<close> (\<open>msg_queue_tail\<close> is its last block), \<open>mq_msg_queue_free\<close> the
  chain of free blocks, \<open>mq_pool\<close> the bytes of each block.
\<close>

record rt_messagequeue =
  mq_pool :: "nat \<Rightarrow> u8 list"
  mq_msg_size :: u16
  mq_max_msgs :: u16
  mq_entry :: u16
  mq_msg_queue :: "nat list"
  mq_msg_queue_free :: "nat list"

datatype tqueue = ReadyQ nat | SemQ nat | MutexQ nat | EventQ nat | MbRecvQ nat | MbSendQ nat
  | MqRecvQ nat | MqSendQ nat | CompletionQ nat | DataPushQ nat | DataPopQ nat | DefunctQ

text \<open>Calls out of the kernel's files: of a cleanup function, and of the heap.\<close>

datatype kcall = Call_cleanup nat nat | Free_stack nat | Free_object objref | Free_pool objref

record kernel =
  threads :: "nat \<Rightarrow> rt_thread"
  tq :: "tqueue \<Rightarrow> nat list"
  rt_thread_ready_priority_group :: u32
  rt_scheduler_lock_nest :: u16
  rt_current_thread :: "nat option"
  rt_current_priority :: u8
  rt_interrupt_nest :: u8
  rt_tick :: u32
  timers :: "tmid \<Rightarrow> rt_timer"
  rt_timer_list :: "tmid list"
  timer_pending :: "tmid list"
  random_nr :: u32
  objects :: "objref \<Rightarrow> rt_object"
  object_list :: "rt_object_class_type \<Rightarrow> objref list"
  semaphores :: "nat \<Rightarrow> rt_semaphore"
  mutexes :: "nat \<Rightarrow> rt_mutex"
  events :: "nat \<Rightarrow> rt_event"
  mailboxes :: "nat \<Rightarrow> rt_mailbox"
  messagequeues :: "nat \<Rightarrow> rt_messagequeue"
  kernel_calls :: "kcall list"

text \<open>
  \<open>rt_scheduler_lock_nest\<close> is a signed 16-bit counter (read with \<open>sint\<close>). \<open>timer_pending\<close> is the
  local list of \<^verbatim>\<open>rt_timer_check\<close>, which holds the timer whose function is running: a
  timer's row node is in that list or in \<open>rt_timer_list\<close>. \<open>kernel_calls\<close> records, newest first, the
  calls of the threads' cleanup functions, which belong to the application, and of
  \<open>RT_KERNEL_FREE\<close> by the operations that delete an object.
\<close>

abbreviation rt_thread_priority_table :: "kernel \<Rightarrow> nat \<Rightarrow> nat list" where
  "rt_thread_priority_table k p \<equiv> tq k (ReadyQ p)"

subsection \<open>Writing one object\<close>

definition set_thread :: "nat \<Rightarrow> (rt_thread \<Rightarrow> rt_thread) \<Rightarrow> kernel \<Rightarrow> kernel" where
  "set_thread t f k = k\<lparr>threads := (threads k)(t := f (threads k t))\<rparr>"

definition set_timer :: "tmid \<Rightarrow> (rt_timer \<Rightarrow> rt_timer) \<Rightarrow> kernel \<Rightarrow> kernel" where
  "set_timer tm f k = k\<lparr>timers := (timers k)(tm := f (timers k tm))\<rparr>"

definition set_object :: "objref \<Rightarrow> (rt_object \<Rightarrow> rt_object) \<Rightarrow> kernel \<Rightarrow> kernel" where
  "set_object ob f k = k\<lparr>objects := (objects k)(ob := f (objects k ob))\<rparr>"

definition set_sem :: "nat \<Rightarrow> (rt_semaphore \<Rightarrow> rt_semaphore) \<Rightarrow> kernel \<Rightarrow> kernel" where
  "set_sem s f k = k\<lparr>semaphores := (semaphores k)(s := f (semaphores k s))\<rparr>"

definition set_mutex :: "nat \<Rightarrow> (rt_mutex \<Rightarrow> rt_mutex) \<Rightarrow> kernel \<Rightarrow> kernel" where
  "set_mutex m f k = k\<lparr>mutexes := (mutexes k)(m := f (mutexes k m))\<rparr>"

definition set_event :: "nat \<Rightarrow> (rt_event \<Rightarrow> rt_event) \<Rightarrow> kernel \<Rightarrow> kernel" where
  "set_event e f k = k\<lparr>events := (events k)(e := f (events k e))\<rparr>"

definition set_mailbox :: "nat \<Rightarrow> (rt_mailbox \<Rightarrow> rt_mailbox) \<Rightarrow> kernel \<Rightarrow> kernel" where
  "set_mailbox b f k = k\<lparr>mailboxes := (mailboxes k)(b := f (mailboxes k b))\<rparr>"

definition set_mq :: "nat \<Rightarrow> (rt_messagequeue \<Rightarrow> rt_messagequeue) \<Rightarrow> kernel \<Rightarrow> kernel" where
  "set_mq b f k = k\<lparr>messagequeues := (messagequeues k)(b := f (messagequeues k b))\<rparr>"

lemmas kernel_setters =
  set_thread_def set_timer_def set_object_def set_sem_def set_mutex_def set_event_def
  set_mailbox_def set_mq_def

subsection \<open>The lists of threads\<close>

text \<open>The \<open>rt_list_t\<close> operations of \<^verbatim>\<open>rtservice.h\<close> on the node \<open>tlist\<close>.\<close>

definition tlist_remove :: "nat \<Rightarrow> kernel \<Rightarrow> kernel" where
  "tlist_remove t k = k\<lparr>tq := (\<lambda>q. removeAll t (tq k q))\<rparr>"

definition tlist_insert_tail :: "tqueue \<Rightarrow> nat \<Rightarrow> kernel \<Rightarrow> kernel" where
  "tlist_insert_tail q t k = k\<lparr>tq := (tq k)(q := tq k q @ [t])\<rparr>"

definition tlist_insert_head :: "tqueue \<Rightarrow> nat \<Rightarrow> kernel \<Rightarrow> kernel" where
  "tlist_insert_head q t k = k\<lparr>tq := (tq k)(q := t # tq k q)\<rparr>"

subsection \<open>The status byte of a thread\<close>

definition RT_THREAD_INIT :: u8 where "RT_THREAD_INIT = 0x00"
definition RT_THREAD_READY :: u8 where "RT_THREAD_READY = 0x01"
definition RT_THREAD_SUSPEND :: u8 where "RT_THREAD_SUSPEND = 0x02"
definition RT_THREAD_RUNNING :: u8 where "RT_THREAD_RUNNING = 0x03"
definition RT_THREAD_CLOSE :: u8 where "RT_THREAD_CLOSE = 0x04"
definition RT_THREAD_STAT_MASK :: u8 where "RT_THREAD_STAT_MASK = 0x07"
definition RT_THREAD_STAT_YIELD :: u8 where "RT_THREAD_STAT_YIELD = 0x08"

lemmas stat_defs = RT_THREAD_INIT_def RT_THREAD_READY_def RT_THREAD_SUSPEND_def
  RT_THREAD_RUNNING_def RT_THREAD_CLOSE_def RT_THREAD_STAT_MASK_def RT_THREAD_STAT_YIELD_def

text \<open>\<open>thread->stat & RT_THREAD_STAT_MASK\<close>, and \<open>s | (thread->stat & ~RT_THREAD_STAT_MASK)\<close>.\<close>

definition th_state :: "rt_thread \<Rightarrow> u8" where
  "th_state th = th_stat th AND RT_THREAD_STAT_MASK"

definition with_state :: "u8 \<Rightarrow> rt_thread \<Rightarrow> rt_thread" where
  "with_state s th = th\<lparr>th_stat := s OR (th_stat th AND NOT RT_THREAD_STAT_MASK)\<rparr>"

definition yielding :: "rt_thread \<Rightarrow> bool" where
  "yielding th \<longleftrightarrow> th_stat th AND RT_THREAD_STAT_YIELD \<noteq> 0"

subsection \<open>How the setters act on the fields\<close>

lemma threads_set_thread [simp]: "threads (set_thread t f k) = (threads k)(t := f (threads k t))"
  by (simp add: set_thread_def)

lemma set_thread_frame [simp]:
  "tq (set_thread t f k) = tq k"
  "rt_thread_ready_priority_group (set_thread t f k) = rt_thread_ready_priority_group k"
  "rt_scheduler_lock_nest (set_thread t f k) = rt_scheduler_lock_nest k"
  "rt_current_thread (set_thread t f k) = rt_current_thread k"
  "rt_current_priority (set_thread t f k) = rt_current_priority k"
  "rt_interrupt_nest (set_thread t f k) = rt_interrupt_nest k"
  "rt_tick (set_thread t f k) = rt_tick k"
  "timers (set_thread t f k) = timers k"
  "rt_timer_list (set_thread t f k) = rt_timer_list k"
  "timer_pending (set_thread t f k) = timer_pending k"
  "random_nr (set_thread t f k) = random_nr k"
  "objects (set_thread t f k) = objects k"
  "object_list (set_thread t f k) = object_list k"
  "semaphores (set_thread t f k) = semaphores k"
  "mutexes (set_thread t f k) = mutexes k"
  "events (set_thread t f k) = events k"
  "mailboxes (set_thread t f k) = mailboxes k"
  "messagequeues (set_thread t f k) = messagequeues k"
  "kernel_calls (set_thread t f k) = kernel_calls k"
  by (simp_all add: set_thread_def)

lemma timers_set_timer [simp]: "timers (set_timer t f k) = (timers k)(t := f (timers k t))"
  by (simp add: set_timer_def)

lemma set_timer_frame [simp]:
  "threads (set_timer t f k) = threads k"
  "tq (set_timer t f k) = tq k"
  "rt_thread_ready_priority_group (set_timer t f k) = rt_thread_ready_priority_group k"
  "rt_scheduler_lock_nest (set_timer t f k) = rt_scheduler_lock_nest k"
  "rt_current_thread (set_timer t f k) = rt_current_thread k"
  "rt_current_priority (set_timer t f k) = rt_current_priority k"
  "rt_interrupt_nest (set_timer t f k) = rt_interrupt_nest k"
  "rt_tick (set_timer t f k) = rt_tick k"
  "rt_timer_list (set_timer t f k) = rt_timer_list k"
  "timer_pending (set_timer t f k) = timer_pending k"
  "random_nr (set_timer t f k) = random_nr k"
  "objects (set_timer t f k) = objects k"
  "object_list (set_timer t f k) = object_list k"
  "semaphores (set_timer t f k) = semaphores k"
  "mutexes (set_timer t f k) = mutexes k"
  "events (set_timer t f k) = events k"
  "mailboxes (set_timer t f k) = mailboxes k"
  "messagequeues (set_timer t f k) = messagequeues k"
  "kernel_calls (set_timer t f k) = kernel_calls k"
  by (simp_all add: set_timer_def)

lemma objects_set_object [simp]: "objects (set_object ob f k) = (objects k)(ob := f (objects k ob))"
  by (simp add: set_object_def)

lemma set_object_frame [simp]:
  "threads (set_object ob f k) = threads k"
  "tq (set_object ob f k) = tq k"
  "rt_thread_ready_priority_group (set_object ob f k) = rt_thread_ready_priority_group k"
  "rt_scheduler_lock_nest (set_object ob f k) = rt_scheduler_lock_nest k"
  "rt_current_thread (set_object ob f k) = rt_current_thread k"
  "rt_current_priority (set_object ob f k) = rt_current_priority k"
  "rt_interrupt_nest (set_object ob f k) = rt_interrupt_nest k"
  "rt_tick (set_object ob f k) = rt_tick k"
  "timers (set_object ob f k) = timers k"
  "rt_timer_list (set_object ob f k) = rt_timer_list k"
  "timer_pending (set_object ob f k) = timer_pending k"
  "random_nr (set_object ob f k) = random_nr k"
  "object_list (set_object ob f k) = object_list k"
  "semaphores (set_object ob f k) = semaphores k"
  "mutexes (set_object ob f k) = mutexes k"
  "events (set_object ob f k) = events k"
  "mailboxes (set_object ob f k) = mailboxes k"
  "messagequeues (set_object ob f k) = messagequeues k"
  "kernel_calls (set_object ob f k) = kernel_calls k"
  by (simp_all add: set_object_def)

lemma semaphores_set_sem [simp]: "semaphores (set_sem s f k) = (semaphores k)(s := f (semaphores k s))"
  by (simp add: set_sem_def)

lemma set_sem_frame [simp]:
  "threads (set_sem s f k) = threads k"
  "tq (set_sem s f k) = tq k"
  "rt_thread_ready_priority_group (set_sem s f k) = rt_thread_ready_priority_group k"
  "rt_scheduler_lock_nest (set_sem s f k) = rt_scheduler_lock_nest k"
  "rt_current_thread (set_sem s f k) = rt_current_thread k"
  "rt_current_priority (set_sem s f k) = rt_current_priority k"
  "rt_interrupt_nest (set_sem s f k) = rt_interrupt_nest k"
  "rt_tick (set_sem s f k) = rt_tick k"
  "timers (set_sem s f k) = timers k"
  "rt_timer_list (set_sem s f k) = rt_timer_list k"
  "timer_pending (set_sem s f k) = timer_pending k"
  "random_nr (set_sem s f k) = random_nr k"
  "objects (set_sem s f k) = objects k"
  "object_list (set_sem s f k) = object_list k"
  "mutexes (set_sem s f k) = mutexes k"
  "events (set_sem s f k) = events k"
  "mailboxes (set_sem s f k) = mailboxes k"
  "messagequeues (set_sem s f k) = messagequeues k"
  "kernel_calls (set_sem s f k) = kernel_calls k"
  by (simp_all add: set_sem_def)

lemma mutexes_set_mutex [simp]: "mutexes (set_mutex m f k) = (mutexes k)(m := f (mutexes k m))"
  by (simp add: set_mutex_def)

lemma set_mutex_frame [simp]:
  "threads (set_mutex m f k) = threads k"
  "tq (set_mutex m f k) = tq k"
  "rt_thread_ready_priority_group (set_mutex m f k) = rt_thread_ready_priority_group k"
  "rt_scheduler_lock_nest (set_mutex m f k) = rt_scheduler_lock_nest k"
  "rt_current_thread (set_mutex m f k) = rt_current_thread k"
  "rt_current_priority (set_mutex m f k) = rt_current_priority k"
  "rt_interrupt_nest (set_mutex m f k) = rt_interrupt_nest k"
  "rt_tick (set_mutex m f k) = rt_tick k"
  "timers (set_mutex m f k) = timers k"
  "rt_timer_list (set_mutex m f k) = rt_timer_list k"
  "timer_pending (set_mutex m f k) = timer_pending k"
  "random_nr (set_mutex m f k) = random_nr k"
  "objects (set_mutex m f k) = objects k"
  "object_list (set_mutex m f k) = object_list k"
  "semaphores (set_mutex m f k) = semaphores k"
  "events (set_mutex m f k) = events k"
  "mailboxes (set_mutex m f k) = mailboxes k"
  "messagequeues (set_mutex m f k) = messagequeues k"
  "kernel_calls (set_mutex m f k) = kernel_calls k"
  by (simp_all add: set_mutex_def)

lemma events_set_event [simp]: "events (set_event e f k) = (events k)(e := f (events k e))"
  by (simp add: set_event_def)

lemma set_event_frame [simp]:
  "threads (set_event e f k) = threads k"
  "tq (set_event e f k) = tq k"
  "rt_thread_ready_priority_group (set_event e f k) = rt_thread_ready_priority_group k"
  "rt_scheduler_lock_nest (set_event e f k) = rt_scheduler_lock_nest k"
  "rt_current_thread (set_event e f k) = rt_current_thread k"
  "rt_current_priority (set_event e f k) = rt_current_priority k"
  "rt_interrupt_nest (set_event e f k) = rt_interrupt_nest k"
  "rt_tick (set_event e f k) = rt_tick k"
  "timers (set_event e f k) = timers k"
  "rt_timer_list (set_event e f k) = rt_timer_list k"
  "timer_pending (set_event e f k) = timer_pending k"
  "random_nr (set_event e f k) = random_nr k"
  "objects (set_event e f k) = objects k"
  "object_list (set_event e f k) = object_list k"
  "semaphores (set_event e f k) = semaphores k"
  "mutexes (set_event e f k) = mutexes k"
  "mailboxes (set_event e f k) = mailboxes k"
  "messagequeues (set_event e f k) = messagequeues k"
  "kernel_calls (set_event e f k) = kernel_calls k"
  by (simp_all add: set_event_def)

lemma mailboxes_set_mailbox [simp]: "mailboxes (set_mailbox b f k) = (mailboxes k)(b := f (mailboxes k b))"
  by (simp add: set_mailbox_def)

lemma set_mailbox_frame [simp]:
  "threads (set_mailbox b f k) = threads k"
  "tq (set_mailbox b f k) = tq k"
  "rt_thread_ready_priority_group (set_mailbox b f k) = rt_thread_ready_priority_group k"
  "rt_scheduler_lock_nest (set_mailbox b f k) = rt_scheduler_lock_nest k"
  "rt_current_thread (set_mailbox b f k) = rt_current_thread k"
  "rt_current_priority (set_mailbox b f k) = rt_current_priority k"
  "rt_interrupt_nest (set_mailbox b f k) = rt_interrupt_nest k"
  "rt_tick (set_mailbox b f k) = rt_tick k"
  "timers (set_mailbox b f k) = timers k"
  "rt_timer_list (set_mailbox b f k) = rt_timer_list k"
  "timer_pending (set_mailbox b f k) = timer_pending k"
  "random_nr (set_mailbox b f k) = random_nr k"
  "objects (set_mailbox b f k) = objects k"
  "object_list (set_mailbox b f k) = object_list k"
  "semaphores (set_mailbox b f k) = semaphores k"
  "mutexes (set_mailbox b f k) = mutexes k"
  "events (set_mailbox b f k) = events k"
  "kernel_calls (set_mailbox b f k) = kernel_calls k"
  by (simp_all add: set_mailbox_def)

lemma messagequeues_set_mq [simp]: "messagequeues (set_mq b f k) = (messagequeues k)(b := f (messagequeues k b))"
  by (simp add: set_mq_def)

lemma set_mq_frame [simp]:
  "threads (set_mq b f k) = threads k"
  "tq (set_mq b f k) = tq k"
  "rt_thread_ready_priority_group (set_mq b f k) = rt_thread_ready_priority_group k"
  "rt_scheduler_lock_nest (set_mq b f k) = rt_scheduler_lock_nest k"
  "rt_current_thread (set_mq b f k) = rt_current_thread k"
  "rt_current_priority (set_mq b f k) = rt_current_priority k"
  "rt_interrupt_nest (set_mq b f k) = rt_interrupt_nest k"
  "rt_tick (set_mq b f k) = rt_tick k"
  "timers (set_mq b f k) = timers k"
  "rt_timer_list (set_mq b f k) = rt_timer_list k"
  "timer_pending (set_mq b f k) = timer_pending k"
  "random_nr (set_mq b f k) = random_nr k"
  "objects (set_mq b f k) = objects k"
  "object_list (set_mq b f k) = object_list k"
  "semaphores (set_mq b f k) = semaphores k"
  "mutexes (set_mq b f k) = mutexes k"
  "events (set_mq b f k) = events k"
  "kernel_calls (set_mq b f k) = kernel_calls k"
  by (simp_all add: set_mq_def)

lemma tq_tlist_remove [simp]: "tq (tlist_remove t k) = (\<lambda>q. removeAll t (tq k q))"
  by (simp add: tlist_remove_def)

lemma tlist_remove_frame [simp]:
  "threads (tlist_remove t k) = threads k"
  "rt_thread_ready_priority_group (tlist_remove t k) = rt_thread_ready_priority_group k"
  "rt_scheduler_lock_nest (tlist_remove t k) = rt_scheduler_lock_nest k"
  "rt_current_thread (tlist_remove t k) = rt_current_thread k"
  "rt_current_priority (tlist_remove t k) = rt_current_priority k"
  "rt_interrupt_nest (tlist_remove t k) = rt_interrupt_nest k"
  "rt_tick (tlist_remove t k) = rt_tick k"
  "timers (tlist_remove t k) = timers k"
  "rt_timer_list (tlist_remove t k) = rt_timer_list k"
  "timer_pending (tlist_remove t k) = timer_pending k"
  "random_nr (tlist_remove t k) = random_nr k"
  "objects (tlist_remove t k) = objects k"
  "object_list (tlist_remove t k) = object_list k"
  "semaphores (tlist_remove t k) = semaphores k"
  "mutexes (tlist_remove t k) = mutexes k"
  "events (tlist_remove t k) = events k"
  "mailboxes (tlist_remove t k) = mailboxes k"
  "messagequeues (tlist_remove t k) = messagequeues k"
  "kernel_calls (tlist_remove t k) = kernel_calls k"
  by (simp_all add: tlist_remove_def)

lemma tq_tlist_insert_tail [simp]: "tq (tlist_insert_tail q t k) = (tq k)(q := tq k q @ [t])"
  by (simp add: tlist_insert_tail_def)

lemma tlist_insert_tail_frame [simp]:
  "threads (tlist_insert_tail q t k) = threads k"
  "rt_thread_ready_priority_group (tlist_insert_tail q t k) = rt_thread_ready_priority_group k"
  "rt_scheduler_lock_nest (tlist_insert_tail q t k) = rt_scheduler_lock_nest k"
  "rt_current_thread (tlist_insert_tail q t k) = rt_current_thread k"
  "rt_current_priority (tlist_insert_tail q t k) = rt_current_priority k"
  "rt_interrupt_nest (tlist_insert_tail q t k) = rt_interrupt_nest k"
  "rt_tick (tlist_insert_tail q t k) = rt_tick k"
  "timers (tlist_insert_tail q t k) = timers k"
  "rt_timer_list (tlist_insert_tail q t k) = rt_timer_list k"
  "timer_pending (tlist_insert_tail q t k) = timer_pending k"
  "random_nr (tlist_insert_tail q t k) = random_nr k"
  "objects (tlist_insert_tail q t k) = objects k"
  "object_list (tlist_insert_tail q t k) = object_list k"
  "semaphores (tlist_insert_tail q t k) = semaphores k"
  "mutexes (tlist_insert_tail q t k) = mutexes k"
  "events (tlist_insert_tail q t k) = events k"
  "mailboxes (tlist_insert_tail q t k) = mailboxes k"
  "messagequeues (tlist_insert_tail q t k) = messagequeues k"
  "kernel_calls (tlist_insert_tail q t k) = kernel_calls k"
  by (simp_all add: tlist_insert_tail_def)

lemma tq_tlist_insert_head [simp]: "tq (tlist_insert_head q t k) = (tq k)(q := t # tq k q)"
  by (simp add: tlist_insert_head_def)

lemma tlist_insert_head_frame [simp]:
  "threads (tlist_insert_head q t k) = threads k"
  "rt_thread_ready_priority_group (tlist_insert_head q t k) = rt_thread_ready_priority_group k"
  "rt_scheduler_lock_nest (tlist_insert_head q t k) = rt_scheduler_lock_nest k"
  "rt_current_thread (tlist_insert_head q t k) = rt_current_thread k"
  "rt_current_priority (tlist_insert_head q t k) = rt_current_priority k"
  "rt_interrupt_nest (tlist_insert_head q t k) = rt_interrupt_nest k"
  "rt_tick (tlist_insert_head q t k) = rt_tick k"
  "timers (tlist_insert_head q t k) = timers k"
  "rt_timer_list (tlist_insert_head q t k) = rt_timer_list k"
  "timer_pending (tlist_insert_head q t k) = timer_pending k"
  "random_nr (tlist_insert_head q t k) = random_nr k"
  "objects (tlist_insert_head q t k) = objects k"
  "object_list (tlist_insert_head q t k) = object_list k"
  "semaphores (tlist_insert_head q t k) = semaphores k"
  "mutexes (tlist_insert_head q t k) = mutexes k"
  "events (tlist_insert_head q t k) = events k"
  "mailboxes (tlist_insert_head q t k) = mailboxes k"
  "messagequeues (tlist_insert_head q t k) = messagequeues k"
  "kernel_calls (tlist_insert_head q t k) = kernel_calls k"
  by (simp_all add: tlist_insert_head_def)

text \<open>The state bits of the status byte, after each way the code writes it.\<close>

lemma th_state_with_state [simp]:
  "th_state (with_state RT_THREAD_READY th) = RT_THREAD_READY"
  "th_state (with_state RT_THREAD_RUNNING th) = RT_THREAD_RUNNING"
  "th_state (with_state RT_THREAD_SUSPEND th) = RT_THREAD_SUSPEND"
  by (auto simp: th_state_def with_state_def stat_defs bit.conj_disj_distrib2 and.assoc)

lemma with_state_fields [simp]:
  "th_current_priority (with_state s th) = th_current_priority th"
  "th_number_mask (with_state s th) = th_number_mask th"
  "th_error (with_state s th) = th_error th"
  "th_init_priority (with_state s th) = th_init_priority th"
  "th_event_set (with_state s th) = th_event_set th"
  "th_event_info (with_state s th) = th_event_info th"
  "th_init_tick (with_state s th) = th_init_tick th"
  "th_remaining_tick (with_state s th) = th_remaining_tick th"
  "th_cleanup (with_state s th) = th_cleanup th"
  by (simp_all add: with_state_def)

lemma th_state_distinct [simp]:
  "RT_THREAD_READY \<noteq> RT_THREAD_SUSPEND" "RT_THREAD_SUSPEND \<noteq> RT_THREAD_READY"
  "RT_THREAD_READY \<noteq> RT_THREAD_RUNNING" "RT_THREAD_RUNNING \<noteq> RT_THREAD_READY"
  "RT_THREAD_SUSPEND \<noteq> RT_THREAD_RUNNING" "RT_THREAD_RUNNING \<noteq> RT_THREAD_SUSPEND"
  "RT_THREAD_CLOSE \<noteq> RT_THREAD_READY" "RT_THREAD_READY \<noteq> RT_THREAD_CLOSE"
  "RT_THREAD_CLOSE \<noteq> RT_THREAD_SUSPEND" "RT_THREAD_SUSPEND \<noteq> RT_THREAD_CLOSE"
  "RT_THREAD_CLOSE \<noteq> RT_THREAD_RUNNING" "RT_THREAD_RUNNING \<noteq> RT_THREAD_CLOSE"
  "RT_THREAD_INIT \<noteq> RT_THREAD_READY" "RT_THREAD_READY \<noteq> RT_THREAD_INIT"
  "RT_THREAD_INIT \<noteq> RT_THREAD_SUSPEND" "RT_THREAD_SUSPEND \<noteq> RT_THREAD_INIT"
  "RT_THREAD_INIT \<noteq> RT_THREAD_RUNNING" "RT_THREAD_RUNNING \<noteq> RT_THREAD_INIT"
  "RT_THREAD_INIT \<noteq> RT_THREAD_CLOSE" "RT_THREAD_CLOSE \<noteq> RT_THREAD_INIT"
  by (simp_all add: stat_defs)

lemma th_state_updates [simp]:
  "th_state (th\<lparr>th_entry := x_entry\<rparr>) = th_state th"
  "th_state (th\<lparr>th_parameter := x_parameter\<rparr>) = th_state th"
  "th_state (th\<lparr>th_stack_addr := x_stack_addr\<rparr>) = th_state th"
  "th_state (th\<lparr>th_stack_size := x_stack_size\<rparr>) = th_state th"
  "th_state (th\<lparr>th_error := x_error\<rparr>) = th_state th"
  "th_state (th\<lparr>th_current_priority := x_current_priority\<rparr>) = th_state th"
  "th_state (th\<lparr>th_init_priority := x_init_priority\<rparr>) = th_state th"
  "th_state (th\<lparr>th_number_mask := x_number_mask\<rparr>) = th_state th"
  "th_state (th\<lparr>th_event_set := x_event_set\<rparr>) = th_state th"
  "th_state (th\<lparr>th_event_info := x_event_info\<rparr>) = th_state th"
  "th_state (th\<lparr>th_init_tick := x_init_tick\<rparr>) = th_state th"
  "th_state (th\<lparr>th_remaining_tick := x_remaining_tick\<rparr>) = th_state th"
  "th_state (th\<lparr>th_cleanup := x_cleanup\<rparr>) = th_state th"
  "th_state (th\<lparr>th_user_data := x_user_data\<rparr>) = th_state th"
  by (simp_all add: th_state_def)

lemma th_state_const [simp]:
  "th_state (th\<lparr>th_stat := RT_THREAD_INIT\<rparr>) = RT_THREAD_INIT"
  "th_state (th\<lparr>th_stat := RT_THREAD_SUSPEND\<rparr>) = RT_THREAD_SUSPEND"
  "th_state (th\<lparr>th_stat := RT_THREAD_RUNNING\<rparr>) = RT_THREAD_RUNNING"
  "th_state (th\<lparr>th_stat := RT_THREAD_CLOSE\<rparr>) = RT_THREAD_CLOSE"
  "th_state (th\<lparr>th_stat := th_stat th OR RT_THREAD_STAT_YIELD\<rparr>) = th_state th"
  "th_state (th\<lparr>th_stat := th_stat th AND NOT RT_THREAD_STAT_YIELD\<rparr>) = th_state th"
proof -
  have "(a AND NOT 8) AND 7 = a AND (7 :: u8)" for a
    by (simp add: and.assoc)
  then show "th_state (th\<lparr>th_stat := th_stat th AND NOT RT_THREAD_STAT_YIELD\<rparr>) = th_state th"
    by (simp add: th_state_def stat_defs)
qed (simp_all add: th_state_def stat_defs bit.conj_disj_distrib2)

end
