(* ===== verification/Bitmap.thy ===== *)
theory Bitmap
  imports Prelude
begin

section \<open>Finding the first set bit (\<open>rt-thread/src/kservice.c\<close>)\<close>

text \<open>
  \<^verbatim>\<open>__rt_ffs\<close> and its byte table \<^verbatim>\<open>__lowest_bit_bitmap\<close>, by which the scheduler reads the
  highest priority (the lowest number) out of the ready bitmap; the table is checked against a
  recursive definition, and the function against the position of the lowest set bit.
\<close>

definition lowest_bit_bitmap :: "nat list" where
  "lowest_bit_bitmap = [
    0, 0, 1, 0, 2, 0, 1, 0, 3, 0, 1, 0, 2, 0, 1, 0,
    4, 0, 1, 0, 2, 0, 1, 0, 3, 0, 1, 0, 2, 0, 1, 0,
    5, 0, 1, 0, 2, 0, 1, 0, 3, 0, 1, 0, 2, 0, 1, 0,
    4, 0, 1, 0, 2, 0, 1, 0, 3, 0, 1, 0, 2, 0, 1, 0,
    6, 0, 1, 0, 2, 0, 1, 0, 3, 0, 1, 0, 2, 0, 1, 0,
    4, 0, 1, 0, 2, 0, 1, 0, 3, 0, 1, 0, 2, 0, 1, 0,
    5, 0, 1, 0, 2, 0, 1, 0, 3, 0, 1, 0, 2, 0, 1, 0,
    4, 0, 1, 0, 2, 0, 1, 0, 3, 0, 1, 0, 2, 0, 1, 0,
    7, 0, 1, 0, 2, 0, 1, 0, 3, 0, 1, 0, 2, 0, 1, 0,
    4, 0, 1, 0, 2, 0, 1, 0, 3, 0, 1, 0, 2, 0, 1, 0,
    5, 0, 1, 0, 2, 0, 1, 0, 3, 0, 1, 0, 2, 0, 1, 0,
    4, 0, 1, 0, 2, 0, 1, 0, 3, 0, 1, 0, 2, 0, 1, 0,
    6, 0, 1, 0, 2, 0, 1, 0, 3, 0, 1, 0, 2, 0, 1, 0,
    4, 0, 1, 0, 2, 0, 1, 0, 3, 0, 1, 0, 2, 0, 1, 0,
    5, 0, 1, 0, 2, 0, 1, 0, 3, 0, 1, 0, 2, 0, 1, 0,
    4, 0, 1, 0, 2, 0, 1, 0, 3, 0, 1, 0, 2, 0, 1, 0]"

definition rt_ffs :: "u32 \<Rightarrow> nat" where
  "rt_ffs v =
    (if v = 0 then 0
     else if v AND 0xff \<noteq> 0 then lowest_bit_bitmap ! unat (v AND 0xff) + 1
     else if v AND 0xff00 \<noteq> 0 then lowest_bit_bitmap ! unat (drop_bit 8 (v AND 0xff00)) + 9
     else if v AND 0xff0000 \<noteq> 0 then lowest_bit_bitmap ! unat (drop_bit 16 (v AND 0xff0000)) + 17
     else lowest_bit_bitmap ! unat (drop_bit 24 (v AND 0xff000000)) + 25)"

text \<open>The table against a definition: the position of the lowest set bit of a byte.\<close>

fun low_bit :: "nat \<Rightarrow> nat" where
  "low_bit n = (if n = 0 \<or> odd n then 0 else Suc (low_bit (n div 2)))"

declare low_bit.simps [simp del]

lemma lowest_bit_bitmap_eq: "lowest_bit_bitmap = map low_bit [0..<256]"
  by code_simp

lemma low_bit_spec: "n \<noteq> 0 \<Longrightarrow> bit n (low_bit n) \<and> (\<forall>j<low_bit n. \<not> bit n j)"
proof (induction n rule: low_bit.induct)
  case (1 n)
  show ?case
  proof (cases "odd n")
    case True
    then show ?thesis by (simp add: low_bit.simps [of n] bit_0)
  next
    case False
    with "1.prems" have half: "n div 2 \<noteq> 0" by auto
    have IH: "bit (n div 2) (low_bit (n div 2)) \<and> (\<forall>j<low_bit (n div 2). \<not> bit (n div 2) j)"
      using "1.IH" "1.prems" False half by blast
    have eq: "low_bit n = Suc (low_bit (n div 2))"
      using False "1.prems" by (simp add: low_bit.simps [of n])
    show ?thesis
      using IH False by (auto simp: eq bit_Suc less_Suc_eq_0_disj bit_0)
  qed
qed

lemma lowest_bit_bitmap_nth:
  "n < 256 \<Longrightarrow> lowest_bit_bitmap ! n = low_bit n"
  by (simp add: lowest_bit_bitmap_eq)

lemma bytemask:
  "(0xff::u32) = mask 8"
  "(0xff00::u32) = push_bit 8 (mask 8)"
  "(0xff0000::u32) = push_bit 16 (mask 8)"
  "(0xff000000::u32) = push_bit 24 (mask 8)"
  by (simp_all add: mask_eq_exp_minus_1 push_bit_eq_mult)

lemma byte_at:
  fixes v :: u32
  assumes "s \<le> 24"
  shows "drop_bit s (v AND push_bit s (mask 8)) = take_bit 8 (drop_bit s v)"
  using assms by (intro bit_eqI) (auto simp: bit_simps)

lemma byte_zero:
  fixes v :: u32
  assumes "s \<le> 24"
  shows "v AND push_bit s (mask 8) = 0 \<longleftrightarrow> (\<forall>j<8. \<not> bit v (s + j))"
proof
  assume a: "v AND push_bit s (mask 8) = 0"
  show "\<forall>j<8. \<not> bit v (s + j)"
  proof (intro allI impI)
    fix j :: nat assume "j < 8"
    have "\<not> bit (v AND push_bit s (mask 8)) (s + j)" using a by simp
    then show "\<not> bit v (s + j)" using \<open>j < 8\<close> assms by (simp add: bit_simps)
  qed
next
  assume a: "\<forall>j<8. \<not> bit v (s + j)"
  show "v AND push_bit s (mask 8) = 0"
  proof (rule bit_word_eqI)
    fix n assume "n < LENGTH(32)"
    show "bit (v AND push_bit s (mask 8)) n = bit (0 :: u32) n"
      using a [rule_format, of "n - s"] by (auto simp: bit_simps)
  qed
qed

lemma byte_bit:
  fixes v :: u32
  shows "bit (unat (take_bit 8 (drop_bit s v))) j \<longleftrightarrow> j < 8 \<and> bit v (s + j)"
  by (auto simp: bit_simps dest: bit_imp_le_length)

lemma byte_lt: "unat (take_bit 8 (w :: u32)) < 256"
  using take_bit_nat_less_exp [of 8 "unat w"] by (simp only: unsigned_take_bit_eq) simp

definition is_lowest_bit :: "u32 \<Rightarrow> nat \<Rightarrow> bool" where
  "is_lowest_bit v i \<longleftrightarrow> i < 32 \<and> bit v i \<and> (\<forall>j<i. \<not> bit v j)"

lemma lowest_in_byte:
  assumes s: "s \<le> 24" and nz: "v AND push_bit s (mask 8) \<noteq> 0"
    and below: "\<forall>j < s. \<not> bit v j"
  shows "is_lowest_bit v (lowest_bit_bitmap ! unat (drop_bit s (v AND push_bit s (mask 8))) + s)"
proof -
  define b where "b = unat (take_bit 8 (drop_bit s v))"
  have bits: "bit b j \<longleftrightarrow> j < 8 \<and> bit v (s + j)" for j
    by (simp add: b_def byte_bit)
  obtain j where "j < 8" "bit v (s + j)"
    using nz byte_zero [OF s] by blast
  then have "bit b j" by (simp add: bits)
  then have "b \<noteq> 0" by (metis bit_0_eq bot_apply bot_bool_def)
  then have low: "bit b (low_bit b)" "\<forall>j<low_bit b. \<not> bit b j"
    using low_bit_spec by auto
  have "\<not> bit v j" if "j < low_bit b + s" for j
  proof (cases "j < s")
    case False
    then have "\<not> bit b (j - s)" using that low by auto
    moreover have "j - s < 8" using that low(1) False by (auto simp: bits)
    ultimately show ?thesis using False by (simp add: bits)
  qed (use below in auto)
  moreover have "b < 256" unfolding b_def by (rule byte_lt)
  then have "lowest_bit_bitmap ! unat (drop_bit s (v AND push_bit s (mask 8))) = low_bit b"
    unfolding byte_at [OF s] b_def [symmetric] by (rule lowest_bit_bitmap_nth)
  ultimately show ?thesis
    using low(1) s by (simp only: is_lowest_bit_def) (auto simp: bits add.commute)
qed

lemma below_bytes:
  fixes v :: u32
  shows "v AND mask 8 = 0 \<Longrightarrow> j < 8 \<Longrightarrow> \<not> bit v j"
    and "v AND push_bit 8 (mask 8) = 0 \<Longrightarrow> 8 \<le> j \<Longrightarrow> j < 16 \<Longrightarrow> \<not> bit v j"
    and "v AND push_bit 16 (mask 8) = 0 \<Longrightarrow> 16 \<le> j \<Longrightarrow> j < 24 \<Longrightarrow> \<not> bit v j"
    and "v AND push_bit 24 (mask 8) = 0 \<Longrightarrow> 24 \<le> j \<Longrightarrow> j < 32 \<Longrightarrow> \<not> bit v j"
  using byte_zero [of 0 v] byte_zero [of 8 v] byte_zero [of 16 v] byte_zero [of 24 v]
  by (auto dest: le_Suc_ex)

lemma all_bytes_zero:
  fixes v :: u32
  assumes "v AND mask 8 = 0" "v AND push_bit 8 (mask 8) = 0" "v AND push_bit 16 (mask 8) = 0" "v AND push_bit 24 (mask 8) = 0"
  shows "v = 0"
proof (rule bit_word_eqI)
  fix j assume "j < LENGTH(32)"
  then have "j < 8 \<or> (8 \<le> j \<and> j < 16) \<or> (16 \<le> j \<and> j < 24) \<or> (24 \<le> j \<and> j < 32)" by auto
  then show "bit v j = bit (0 :: u32) j"
    using assms below_bytes by auto
qed

lemma rt_ffs_lowest: 
  assumes nz: "v \<noteq> 0"
  shows "rt_ffs v \<noteq> 0 \<and> is_lowest_bit v (rt_ffs v - 1)"
proof -
  note below = below_bytes [of v]
  consider (b0) "v AND mask 8 \<noteq> 0" | (b1) "v AND mask 8 = 0" "v AND push_bit 8 (mask 8) \<noteq> 0"
   | (b2) "v AND mask 8 = 0" "v AND push_bit 8 (mask 8) = 0" "v AND push_bit 16 (mask 8) \<noteq> 0"
   | (b3) "v AND mask 8 = 0" "v AND push_bit 8 (mask 8) = 0" "v AND push_bit 16 (mask 8) = 0" 
    "v AND push_bit 24 (mask 8) \<noteq> 0"
    using all_bytes_zero nz by blast
  then show ?thesis
  proof cases
    case b0
    then show ?thesis using lowest_in_byte [of 0 v] nz by (simp add: rt_ffs_def bytemask add.commute)
  next
    case b1
    have "\<forall>j < 8. \<not> bit v j" using below(1) b1 by blast
    then show ?thesis using lowest_in_byte [of 8 v] b1 nz by (simp add: rt_ffs_def bytemask add.commute)
  next
    case b2
    have "\<forall>j < 16. \<not> bit v j" using below(1,2) b2 by (meson not_less)
    then show ?thesis using lowest_in_byte [of 16 v] b2 nz by (simp add: rt_ffs_def bytemask add.commute)
  next
    case b3
    have "\<forall>j < 24. \<not> bit v j" using below(1,2,3) b3 by (meson not_less)
    then show ?thesis using lowest_in_byte [of 24 v] b3 nz by (simp add: rt_ffs_def bytemask add.commute)
  qed
qed

end
