(* ===== verification/Scheduler.thy ===== *)
theory Scheduler
  imports Kernel_State Bitmap
begin

section \<open>The scheduler (\<open>rt-thread/src/scheduler.c\<close>)\<close>

text \<open>
  The ready table: one list of threads per priority and a bitmap with the priorities whose list
  is not empty. A thread switch by the assembly of \<^verbatim>\<open>libcpu\<close> is the change of
  \<open>rt_current_thread\<close>; the hooks are tracing callbacks and have no counterpart, and disabling
  interrupts is the atomicity of each definition.
\<close>

definition RT_THREAD_PRIORITY_MAX :: nat where "RT_THREAD_PRIORITY_MAX = 32"

definition get_highest_priority_thread :: "kernel \<Rightarrow> nat \<times> nat" where
  "get_highest_priority_thread k =
    (let highest_ready_priority = rt_ffs (rt_thread_ready_priority_group k) - 1
     in (hd (rt_thread_priority_table k highest_ready_priority), highest_ready_priority))"

definition rt_system_scheduler_init :: "kernel \<Rightarrow> kernel" where
  "rt_system_scheduler_init k = k\<lparr>
     rt_scheduler_lock_nest := 0,
     tq := (\<lambda>q. case q of ReadyQ offset \<Rightarrow> if offset < RT_THREAD_PRIORITY_MAX then [] else tq k q
                        | _ \<Rightarrow> tq k q),
     rt_thread_ready_priority_group := 0\<rparr>"

definition rt_schedule_insert_thread :: "nat \<Rightarrow> kernel \<Rightarrow> kernel" where
  "rt_schedule_insert_thread t k =
    (if rt_current_thread k = Some t then set_thread t (with_state RT_THREAD_RUNNING) k
     else let k = set_thread t (with_state RT_THREAD_READY) k;
              k = tlist_insert_tail (ReadyQ (unat (th_current_priority (threads k t)))) t k
          in k\<lparr>rt_thread_ready_priority_group :=
                 rt_thread_ready_priority_group k OR th_number_mask (threads k t)\<rparr>)"

definition rt_schedule_remove_thread :: "nat \<Rightarrow> kernel \<Rightarrow> kernel" where
  "rt_schedule_remove_thread t k =
    (let k = tlist_remove t k
     in if rt_thread_priority_table k (unat (th_current_priority (threads k t))) = []
        then k\<lparr>rt_thread_ready_priority_group :=
                 rt_thread_ready_priority_group k AND NOT (th_number_mask (threads k t))\<rparr>
        else k)"

definition rt_system_scheduler_start :: "kernel \<Rightarrow> kernel" where
  "rt_system_scheduler_start k =
    (let (to_thread, highest_ready_priority) = get_highest_priority_thread k;
         k = k\<lparr>rt_current_thread := Some to_thread\<rparr>;
         k = rt_schedule_remove_thread to_thread k
     in set_thread to_thread (th_stat_update (\<lambda>_. RT_THREAD_RUNNING)) k)"

text \<open>
  \<open>rt_schedule\<close> without a current thread (before \<open>rt_system_scheduler_start\<close>) would follow a
  null pointer; the callers test for it or run after the start, and the model leaves the state.
\<close>

definition clear_yield :: "rt_thread \<Rightarrow> rt_thread" where
  "clear_yield th = th\<lparr>th_stat := th_stat th AND NOT RT_THREAD_STAT_YIELD\<rparr>"

definition rt_schedule :: "kernel \<Rightarrow> kernel" where
  "rt_schedule k =
    (if rt_scheduler_lock_nest k = 0 \<and> rt_thread_ready_priority_group k \<noteq> 0 then
       (case rt_current_thread k of
          None \<Rightarrow> k
        | Some self \<Rightarrow>
           let (highest, highest_ready_priority) = get_highest_priority_thread k;
               cur = threads k self;
               running = (th_state cur = RT_THREAD_RUNNING);
               keep = (running \<and>
                        (unat (th_current_priority cur) < highest_ready_priority
                         \<or> unat (th_current_priority cur) = highest_ready_priority \<and> \<not> yielding cur));
               need_insert_from_thread = (running \<and> \<not> keep);
               to_thread = (if keep then self else highest);
               k = (if running then set_thread self clear_yield k else k)
           in if to_thread \<noteq> self then
                let k = k\<lparr>rt_current_priority := of_nat highest_ready_priority,
                          rt_current_thread := Some to_thread\<rparr>;
                    k = (if need_insert_from_thread then rt_schedule_insert_thread self k else k);
                    k = rt_schedule_remove_thread to_thread k
                in set_thread to_thread (with_state RT_THREAD_RUNNING) k
              else
                set_thread self (with_state RT_THREAD_RUNNING) (rt_schedule_remove_thread self k))
     else k)"

definition rt_enter_critical :: "kernel \<Rightarrow> kernel" where
  "rt_enter_critical k = k\<lparr>rt_scheduler_lock_nest := rt_scheduler_lock_nest k + 1\<rparr>"

definition rt_exit_critical :: "kernel \<Rightarrow> kernel" where
  "rt_exit_critical k =
    (let k = k\<lparr>rt_scheduler_lock_nest := rt_scheduler_lock_nest k - 1\<rparr>
     in if sint (rt_scheduler_lock_nest k) \<le> 0 then
          let k = k\<lparr>rt_scheduler_lock_nest := 0\<rparr>
          in if rt_current_thread k \<noteq> None then rt_schedule k else k
        else k)"

definition rt_critical_level :: "kernel \<Rightarrow> u16" where
  "rt_critical_level k = rt_scheduler_lock_nest k"

subsection \<open>Fields the scheduler leaves alone\<close>

lemma insert_thread_frame [simp]:
  "rt_scheduler_lock_nest (rt_schedule_insert_thread t k) = rt_scheduler_lock_nest k"
  "rt_current_thread (rt_schedule_insert_thread t k) = rt_current_thread k"
  "rt_current_priority (rt_schedule_insert_thread t k) = rt_current_priority k"
  "rt_interrupt_nest (rt_schedule_insert_thread t k) = rt_interrupt_nest k"
  "rt_tick (rt_schedule_insert_thread t k) = rt_tick k"
  "timers (rt_schedule_insert_thread t k) = timers k"
  "rt_timer_list (rt_schedule_insert_thread t k) = rt_timer_list k"
  "timer_pending (rt_schedule_insert_thread t k) = timer_pending k"
  "random_nr (rt_schedule_insert_thread t k) = random_nr k"
  "objects (rt_schedule_insert_thread t k) = objects k"
  "object_list (rt_schedule_insert_thread t k) = object_list k"
  "semaphores (rt_schedule_insert_thread t k) = semaphores k"
  "mutexes (rt_schedule_insert_thread t k) = mutexes k"
  "events (rt_schedule_insert_thread t k) = events k"
  "mailboxes (rt_schedule_insert_thread t k) = mailboxes k"
  "messagequeues (rt_schedule_insert_thread t k) = messagequeues k"
  "kernel_calls (rt_schedule_insert_thread t k) = kernel_calls k"
  by (simp_all add: rt_schedule_insert_thread_def Let_def)

lemma remove_thread_frame [simp]:
  "threads (rt_schedule_remove_thread t k) = threads k"
  "rt_scheduler_lock_nest (rt_schedule_remove_thread t k) = rt_scheduler_lock_nest k"
  "rt_current_thread (rt_schedule_remove_thread t k) = rt_current_thread k"
  "rt_current_priority (rt_schedule_remove_thread t k) = rt_current_priority k"
  "rt_interrupt_nest (rt_schedule_remove_thread t k) = rt_interrupt_nest k"
  "rt_tick (rt_schedule_remove_thread t k) = rt_tick k"
  "timers (rt_schedule_remove_thread t k) = timers k"
  "rt_timer_list (rt_schedule_remove_thread t k) = rt_timer_list k"
  "timer_pending (rt_schedule_remove_thread t k) = timer_pending k"
  "random_nr (rt_schedule_remove_thread t k) = random_nr k"
  "objects (rt_schedule_remove_thread t k) = objects k"
  "object_list (rt_schedule_remove_thread t k) = object_list k"
  "semaphores (rt_schedule_remove_thread t k) = semaphores k"
  "mutexes (rt_schedule_remove_thread t k) = mutexes k"
  "events (rt_schedule_remove_thread t k) = events k"
  "mailboxes (rt_schedule_remove_thread t k) = mailboxes k"
  "messagequeues (rt_schedule_remove_thread t k) = messagequeues k"
  "kernel_calls (rt_schedule_remove_thread t k) = kernel_calls k"
  by (simp_all add: rt_schedule_remove_thread_def Let_def)

lemma rt_schedule_frame [simp]:
  "rt_scheduler_lock_nest (rt_schedule k) = rt_scheduler_lock_nest k"
  "rt_interrupt_nest (rt_schedule k) = rt_interrupt_nest k"
  "rt_tick (rt_schedule k) = rt_tick k"
  "timers (rt_schedule k) = timers k"
  "rt_timer_list (rt_schedule k) = rt_timer_list k"
  "timer_pending (rt_schedule k) = timer_pending k"
  "random_nr (rt_schedule k) = random_nr k"
  "objects (rt_schedule k) = objects k"
  "object_list (rt_schedule k) = object_list k"
  "semaphores (rt_schedule k) = semaphores k"
  "mutexes (rt_schedule k) = mutexes k"
  "events (rt_schedule k) = events k"
  "mailboxes (rt_schedule k) = mailboxes k"
  "messagequeues (rt_schedule k) = messagequeues k"
  "kernel_calls (rt_schedule k) = kernel_calls k"
  by (simp_all add: rt_schedule_def Let_def split: option.split prod.split)

subsection \<open>The invariant of the ready table\<close>

text \<open>
  A thread is linked where its status byte says: a ready thread in the list of its priority, a
  thread of a wait list is suspended, a thread of the defunct list closed, the running thread in
  no list; the bitmap has exactly the bits of the lists that are not empty. The set \<open>X\<close> of
  \<open>kinv_but\<close> exempts threads an operation has taken out of the lists and not yet put back.
\<close>

fun queue_fits :: "tqueue \<Rightarrow> rt_thread \<Rightarrow> bool" where
  "queue_fits (ReadyQ p) th \<longleftrightarrow>
     th_state th = RT_THREAD_READY \<and> unat (th_current_priority th) = p"
| "queue_fits DefunctQ th \<longleftrightarrow> th_state th = RT_THREAD_CLOSE"
| "queue_fits _ th \<longleftrightarrow> th_state th = RT_THREAD_SUSPEND"

definition prio_ok :: "rt_thread \<Rightarrow> bool" where
  "prio_ok th \<longleftrightarrow> unat (th_current_priority th) < RT_THREAD_PRIORITY_MAX
     \<and> th_number_mask th = push_bit (unat (th_current_priority th)) 1"

definition is_active :: "rt_thread \<Rightarrow> bool" where
  "is_active th \<longleftrightarrow> th_state th = RT_THREAD_READY \<or> th_state th = RT_THREAD_SUSPEND
     \<or> th_state th = RT_THREAD_RUNNING"

definition thread_ok :: "kernel \<Rightarrow> nat \<Rightarrow> bool" where
  "thread_ok k t \<longleftrightarrow>
     (th_state (threads k t) = RT_THREAD_READY \<longrightarrow>
        t \<in> set (tq k (ReadyQ (unat (th_current_priority (threads k t))))))
   \<and> (th_state (threads k t) = RT_THREAD_RUNNING \<longrightarrow> rt_current_thread k = Some t)
   \<and> (is_active (threads k t) \<longrightarrow> prio_ok (threads k t))"

definition kinv_but :: "nat set \<Rightarrow> kernel \<Rightarrow> bool" where
  "kinv_but X k \<longleftrightarrow>
     (\<forall>q. distinct (tq k q))
   \<and> (\<forall>q q' t. t \<in> set (tq k q) \<longrightarrow> t \<in> set (tq k q') \<longrightarrow> q = q')
   \<and> (\<forall>q t. t \<in> set (tq k q) \<longrightarrow> t \<notin> X \<and> queue_fits q (threads k t))
   \<and> (\<forall>t. t \<notin> X \<longrightarrow> thread_ok k t)
   \<and> (\<forall>p<32. bit (rt_thread_ready_priority_group k) p \<longleftrightarrow> tq k (ReadyQ p) \<noteq> [])"

definition kinv :: "kernel \<Rightarrow> bool" where
  "kinv k \<longleftrightarrow> kinv_but {} k
   \<and> (\<forall>t. rt_current_thread k = Some t \<longrightarrow> th_state (threads k t) \<noteq> RT_THREAD_READY)"

lemma kinv_butD:
  assumes "kinv_but X k"
  shows kinv_distinct: "distinct (tq k q)"
    and kinv_one_queue: "t \<in> set (tq k q) \<Longrightarrow> t \<in> set (tq k q') \<Longrightarrow> q = q'"
    and kinv_exempt: "t \<in> set (tq k q) \<Longrightarrow> t \<notin> X"
    and kinv_fits: "t \<in> set (tq k q) \<Longrightarrow> queue_fits q (threads k t)"
    and kinv_thread: "t \<notin> X \<Longrightarrow> thread_ok k t"
    and kinv_group: "p < 32 \<Longrightarrow> bit (rt_thread_ready_priority_group k) p \<longleftrightarrow> tq k (ReadyQ p) \<noteq> []"
  using assms unfolding kinv_but_def by blast+

lemma kinvD [dest]: "kinv k \<Longrightarrow> kinv_but {} k"
  by (simp add: kinv_def)

lemma queue_fits_cong:
  "th_state th = th_state th' \<Longrightarrow> th_current_priority th = th_current_priority th'
   \<Longrightarrow> queue_fits q th = queue_fits q th'"
  by (cases q) auto

lemma thread_ok_cong:
  "th_state (threads k t) = th_state (threads k' t)
   \<Longrightarrow> th_current_priority (threads k t) = th_current_priority (threads k' t)
   \<Longrightarrow> th_number_mask (threads k t) = th_number_mask (threads k' t)
   \<Longrightarrow> (\<And>p. t \<in> set (tq k (ReadyQ p)) \<longleftrightarrow> t \<in> set (tq k' (ReadyQ p)))
   \<Longrightarrow> (rt_current_thread k = Some t \<longleftrightarrow> rt_current_thread k' = Some t)
   \<Longrightarrow> thread_ok k t \<longleftrightarrow> thread_ok k' t"
  by (simp add: thread_ok_def is_active_def prio_ok_def)

text \<open>Only the threads, their lists, the bitmap and the current thread matter.\<close>

lemma kinv_but_cong:
  "threads k = threads k' \<Longrightarrow> tq k = tq k'
   \<Longrightarrow> rt_thread_ready_priority_group k = rt_thread_ready_priority_group k'
   \<Longrightarrow> rt_current_thread k = rt_current_thread k' \<Longrightarrow> kinv_but X k = kinv_but X k'"
  by (simp add: kinv_but_def thread_ok_def)

lemma kinv_cong:
  "threads k = threads k' \<Longrightarrow> tq k = tq k'
   \<Longrightarrow> rt_thread_ready_priority_group k = rt_thread_ready_priority_group k'
   \<Longrightarrow> rt_current_thread k = rt_current_thread k' \<Longrightarrow> kinv k = kinv k'"
  by (simp add: kinv_def kinv_but_cong [of k k'])

lemma kinv_but_set_exempt [simp]:
  assumes "t \<in> X" shows "kinv_but X (set_thread t f k) \<longleftrightarrow> kinv_but X k"
proof -
  have "queue_fits q (threads (set_thread t f k) s) = queue_fits q (threads k s)" if "s \<noteq> t" for q s
    using that by simp
  moreover have "thread_ok (set_thread t f k) s = thread_ok k s" if "s \<noteq> t" for s
    using that by (intro thread_ok_cong) auto
  ultimately show ?thesis
    using assms unfolding kinv_but_def
    by (smt (verit) set_thread_frame(1,2))
qed

text \<open>Writing fields the invariant does not read.\<close>

lemma kinv_but_set_other:
  assumes "\<And>th. th_state (f th) = th_state th"
    and "\<And>th. th_current_priority (f th) = th_current_priority th"
    and "\<And>th. th_number_mask (f th) = th_number_mask th"
  shows "kinv_but X (set_thread t f k) \<longleftrightarrow> kinv_but X k"
proof -
  have "queue_fits q (threads (set_thread t f k) s) = queue_fits q (threads k s)" for q s
    using assms by (intro queue_fits_cong) auto
  moreover have "thread_ok (set_thread t f k) s = thread_ok k s" for s
    using assms by (intro thread_ok_cong) auto
  ultimately show ?thesis by (simp add: kinv_but_def)
qed

lemma kinv_set_other:
  assumes "\<And>th. th_state (f th) = th_state th"
    and "\<And>th. th_current_priority (f th) = th_current_priority th"
    and "\<And>th. th_number_mask (f th) = th_number_mask th"
  shows "kinv (set_thread t f k) \<longleftrightarrow> kinv k"
  using assms by (auto simp: kinv_def kinv_but_set_other)

text \<open>Exempting a thread that is in no list, and taking the exemption back.\<close>

lemma kinv_but_insert:
  "kinv_but X k \<Longrightarrow> \<forall>q. t \<notin> set (tq k q) \<Longrightarrow> kinv_but (insert t X) k"
  unfolding kinv_but_def by blast

lemma kinv_but_release:
  "kinv_but (insert t X) k \<Longrightarrow> thread_ok k t \<Longrightarrow> kinv_but (X - {t}) k"
  unfolding kinv_but_def by auto

lemma kinv_but_current:
  assumes "kinv_but X k" "\<And>t. t \<notin> X \<Longrightarrow> th_state (threads k t) \<noteq> RT_THREAD_RUNNING"
  shows "kinv_but X (k\<lparr>rt_current_thread := c\<rparr>)"
  using assms unfolding kinv_but_def thread_ok_def by simp

lemma running_no_queue:
  "kinv_but X k \<Longrightarrow> th_state (threads k t) = RT_THREAD_RUNNING \<Longrightarrow> t \<notin> set (tq k q)"
  using kinv_fits [of X k t q] by (cases q) auto

lemma bit_group_set:
  "p < 32 \<Longrightarrow> i < 32 \<Longrightarrow> bit ((g :: u32) OR 2 ^ p) i \<longleftrightarrow> bit g i \<or> i = p"
  by (auto simp: bit_simps)

lemma bit_group_clear:
  "p < 32 \<Longrightarrow> i < 32 \<Longrightarrow> bit ((g :: u32) AND NOT (2 ^ p)) i \<longleftrightarrow> bit g i \<and> i \<noteq> p"
  by (auto simp: bit_simps)

text \<open>The three moves of a thread: out of its list, into the ready table, into a wait list.\<close>

lemma tq_remove_thread [simp]: "tq (rt_schedule_remove_thread t k) q = removeAll t (tq k q)"
  by (simp add: rt_schedule_remove_thread_def Let_def)

lemma kinv_remove_thread:
  assumes inv: "kinv_but X k" and prio: "prio_ok (threads k t)"
  shows "kinv_but (insert t X) (rt_schedule_remove_thread t k)"
proof -
  let ?k = "rt_schedule_remove_thread t k" and ?p = "unat (th_current_priority (threads k t))"
  have "thread_ok ?k s" if "s \<notin> insert t X" for s
    using kinv_thread [OF inv, of s] that thread_ok_cong [of ?k s k] by auto
  moreover have "bit (rt_thread_ready_priority_group ?k) p \<longleftrightarrow> tq ?k (ReadyQ p) \<noteq> []" if "p < 32" for p
  proof (cases "p = ?p")
    case True
    have "t \<notin> set (tq k (ReadyQ p)) \<or> tq k (ReadyQ p) \<noteq> []" by auto
    with True that prio kinv_group [OF inv that] show ?thesis
      by (auto simp: rt_schedule_remove_thread_def Let_def prio_ok_def RT_THREAD_PRIORITY_MAX_def
          bit_group_clear removeAll_id_iff)
  next
    case False
    then have "t \<notin> set (tq k (ReadyQ p))" using kinv_fits [OF inv, of t "ReadyQ p"] by auto
    with False that prio kinv_group [OF inv that] show ?thesis
      by (auto simp: rt_schedule_remove_thread_def Let_def prio_ok_def RT_THREAD_PRIORITY_MAX_def
          bit_group_clear removeAll_id_iff)
  qed
  ultimately show ?thesis
    using kinv_butD [OF inv] unfolding kinv_but_def
    by (auto simp: distinct_removeAll)
qed

lemma kinv_tlist_remove:
  assumes inv: "kinv_but X k" and nr: "th_state (threads k t) \<noteq> RT_THREAD_READY"
  shows "kinv_but (insert t X) (tlist_remove t k)"
proof -
  let ?k = "tlist_remove t k"
  have "thread_ok ?k s" if "s \<notin> insert t X" for s
    using kinv_thread [OF inv, of s] that thread_ok_cong [of ?k s k] by auto
  moreover have "tq ?k (ReadyQ p) = tq k (ReadyQ p)" for p
    using kinv_fits [OF inv, of t "ReadyQ p"] nr by (auto simp: removeAll_id_iff)
  ultimately show ?thesis
    using kinv_butD [OF inv] unfolding kinv_but_def
    by (auto simp: distinct_removeAll)
qed

lemma kinv_insert_thread:
  assumes inv: "kinv_but (insert t X) k" and prio: "prio_ok (threads k t)" and tX: "t \<notin> X"
  shows "kinv_but X (rt_schedule_insert_thread t k)"
proof -
  let ?k = "rt_schedule_insert_thread t k" and ?p = "unat (th_current_priority (threads k t))"
  have out: "t \<notin> set (tq k q)" for q using kinv_exempt [OF inv] by blast
  show ?thesis
  proof (cases "rt_current_thread k = Some t")
    case True
    then have "?k = set_thread t (with_state RT_THREAD_RUNNING) k"
      by (simp add: rt_schedule_insert_thread_def)
    moreover have "thread_ok (set_thread t (with_state RT_THREAD_RUNNING) k) t"
      using True prio by (simp add: thread_ok_def prio_ok_def)
    ultimately show ?thesis
      using kinv_but_release [of t X ?k] inv tX by simp
  next
    case False
    have tq: "tq ?k = (tq k)(ReadyQ ?p := tq k (ReadyQ ?p) @ [t])"
      using False by (simp add: rt_schedule_insert_thread_def Let_def)
    have th: "threads ?k = (threads k)(t := with_state RT_THREAD_READY (threads k t))"
      using False by (simp add: rt_schedule_insert_thread_def Let_def)
    have cur: "rt_current_thread ?k = rt_current_thread k"
      using False by (simp add: rt_schedule_insert_thread_def Let_def)
    have gr: "rt_thread_ready_priority_group ?k = rt_thread_ready_priority_group k OR push_bit ?p 1"
      using False prio by (simp add: rt_schedule_insert_thread_def Let_def prio_ok_def)
    have "thread_ok ?k s" if "s \<notin> X" for s
    proof (cases "s = t")
      case True
      then show ?thesis using prio tq th by (simp add: thread_ok_def prio_ok_def)
    next
      case False
      then show ?thesis
        using kinv_thread [OF inv, of s] that thread_ok_cong [of ?k s k] by (auto simp: tq th cur)
    qed
    moreover have "bit (rt_thread_ready_priority_group ?k) p \<longleftrightarrow> tq ?k (ReadyQ p) \<noteq> []" if "p < 32" for p
      using kinv_group [OF inv that] prio that
      by (auto simp: tq gr bit_group_set prio_ok_def RT_THREAD_PRIORITY_MAX_def)
    moreover have "distinct (tq ?k q)" for q
      using kinv_distinct [OF inv] out by (auto simp: tq)
    moreover have "s \<notin> X \<and> queue_fits q (threads ?k s)" if "s \<in> set (tq ?k q)" for q s
      using that kinv_exempt [OF inv, of s q] kinv_fits [OF inv, of s q] out tX
      by (auto simp: tq th split: if_splits)
    moreover have "q = q'" if "s \<in> set (tq ?k q)" "s \<in> set (tq ?k q')" for q q' s
      using that kinv_one_queue [OF inv, of s q q'] out by (auto simp: tq split: if_splits)
    ultimately show ?thesis unfolding kinv_but_def by blast
  qed
qed

lemma kinv_wait_insert:
  assumes inv: "kinv_but (insert t X) k" and prio: "is_active (threads k t) \<longrightarrow> prio_ok (threads k t)"
    and q: "\<And>p. q \<noteq> ReadyQ p" and st: "queue_fits q (threads k t)" and tX: "t \<notin> X"
    and new: "tq k' = (tq k)(q := xs @ t # ys)" "xs @ ys = tq k q"
    and same: "threads k' = threads k" "rt_current_thread k' = rt_current_thread k"
      "rt_thread_ready_priority_group k' = rt_thread_ready_priority_group k"
  shows "kinv_but X k'"
proof -
  have out: "t \<notin> set (tq k q)" for q using kinv_exempt [OF inv] by blast
  have set_q: "set (tq k' q) = insert t (set (tq k q))"
    by (simp add: new(1)) (simp add: new(2) [symmetric])
  have other: "q' \<noteq> q \<Longrightarrow> tq k' q' = tq k q'" for q' by (simp add: new(1))
  have nr: "th_state (threads k t) \<noteq> RT_THREAD_READY \<and> th_state (threads k t) \<noteq> RT_THREAD_RUNNING"
    using st q by (cases q) auto
  have "thread_ok k' s" if "s \<notin> X" for s
  proof (cases "s = t")
    case True
    then show ?thesis using prio nr by (simp add: thread_ok_def same)
  next
    case False
    have "s \<in> set (tq k' (ReadyQ p)) \<longleftrightarrow> s \<in> set (tq k (ReadyQ p))" for p
      using other q by metis
    with False show ?thesis
      using kinv_thread [OF inv, of s] that thread_ok_cong [of k' s k] by (auto simp: same)
  qed
  moreover have "tq k' (ReadyQ p) = tq k (ReadyQ p)" for p
    using other q by metis
  moreover have "distinct (tq k' q')" for q'
    using kinv_distinct [OF inv, of q'] kinv_distinct [OF inv, of q] out [of q]
    by (cases "q' = q") (auto simp: new(1) simp flip: new(2))
  moreover have "s \<notin> X \<and> queue_fits q' (threads k' s)" if "s \<in> set (tq k' q')" for q' s
    using that kinv_exempt [OF inv, of s q'] kinv_fits [OF inv, of s q'] st tX set_q other
    by (cases "q' = q") (auto simp: same)
  moreover have "q1 = q2" if "s \<in> set (tq k' q1)" "s \<in> set (tq k' q2)" for q1 q2 s
    using that kinv_one_queue [OF inv, of s q1 q2] out set_q other
    by (cases "q1 = q"; cases "q2 = q") auto
  ultimately show ?thesis
    using kinv_group [OF inv] unfolding kinv_but_def by (auto simp: same)
qed

subsection \<open>What \<open>rt_schedule\<close> does\<close>

lemma highest_ready:
  assumes inv: "kinv_but X k" and gr: "rt_thread_ready_priority_group k \<noteq> 0"
    and hp: "get_highest_priority_thread k = (t, p)"
  shows "p < 32 \<and> tq k (ReadyQ p) \<noteq> [] \<and> t = hd (tq k (ReadyQ p)) \<and> t \<in> set (tq k (ReadyQ p))
    \<and> (\<forall>i<p. tq k (ReadyQ i) = []) \<and> th_state (threads k t) = RT_THREAD_READY
    \<and> unat (th_current_priority (threads k t)) = p \<and> prio_ok (threads k t) \<and> t \<notin> X"
proof -
  have p: "is_lowest_bit (rt_thread_ready_priority_group k) p" and t: "t = hd (tq k (ReadyQ p))"
    using rt_ffs_lowest [OF gr] hp by (auto simp: get_highest_priority_thread_def Let_def)
  have ne: "p < 32" "tq k (ReadyQ p) \<noteq> []" "\<forall>i<p. tq k (ReadyQ i) = []"
    using p kinv_group [OF inv] by (auto simp: is_lowest_bit_def)
  then have "t \<in> set (tq k (ReadyQ p))" by (simp add: t)
  moreover from this have "t \<notin> X" "th_state (threads k t) = RT_THREAD_READY"
      "unat (th_current_priority (threads k t)) = p"
    using kinv_exempt [OF inv] kinv_fits [OF inv] by fastforce+
  moreover from this have "prio_ok (threads k t)"
    using kinv_thread [OF inv, of t] by (simp add: thread_ok_def is_active_def)
  ultimately show ?thesis using ne t by simp
qed

text \<open>
  The running thread keeps the CPU when no ready thread has a smaller number, and its equals only
  wait until its time slice is used up.
\<close>

definition keeps_cpu :: "kernel \<Rightarrow> nat \<Rightarrow> bool" where
  "keeps_cpu k c \<longleftrightarrow> th_state (threads k c) = RT_THREAD_RUNNING
    \<and> (\<forall>p < unat (th_current_priority (threads k c)). tq k (ReadyQ p) = [])
    \<and> (tq k (ReadyQ (unat (th_current_priority (threads k c)))) = [] \<or> \<not> yielding (threads k c))"

lemma keeps_cpu_iff:
  assumes inv: "kinv_but X k" and gr: "rt_thread_ready_priority_group k \<noteq> 0"
    and hp: "get_highest_priority_thread k = (t, p)" and run: "th_state (threads k c) = RT_THREAD_RUNNING"
  shows "keeps_cpu k c \<longleftrightarrow> unat (th_current_priority (threads k c)) < p
     \<or> unat (th_current_priority (threads k c)) = p \<and> \<not> yielding (threads k c)"
proof -
  let ?q = "unat (th_current_priority (threads k c))"
  have ne: "tq k (ReadyQ p) \<noteq> []" and below: "\<And>i. i < p \<Longrightarrow> tq k (ReadyQ i) = []"
    using highest_ready [OF inv gr hp] by blast+
  consider "?q < p" | "?q = p" | "p < ?q" by linarith
  then show ?thesis
  proof cases
    case 1
    then show ?thesis using run below by (simp add: keeps_cpu_def)
  next
    case 2
    then show ?thesis using run below ne by (simp add: keeps_cpu_def)
  next
    case 3
    then show ?thesis using ne by (auto simp: keeps_cpu_def)
  qed
qed

lemma clear_yield_fields [simp]:
  "th_state (clear_yield th) = th_state th"
  "th_current_priority (clear_yield th) = th_current_priority th"
  "th_number_mask (clear_yield th) = th_number_mask th"
  by (simp_all add: clear_yield_def)

lemma rt_schedule_idle:
  "rt_scheduler_lock_nest k \<noteq> 0 \<or> rt_thread_ready_priority_group k = 0 \<or> rt_current_thread k = None
   \<Longrightarrow> rt_schedule k = k"
  by (auto simp: rt_schedule_def)

lemma rt_schedule_keep_eq:
  assumes inv: "kinv k" and cur: "rt_current_thread k = Some c"
    and go: "rt_scheduler_lock_nest k = 0" "rt_thread_ready_priority_group k \<noteq> 0"
    and keep: "keeps_cpu k c"
  shows "rt_schedule k = set_thread c (with_state RT_THREAD_RUNNING)
           (rt_schedule_remove_thread c (set_thread c clear_yield k))"
proof -
  obtain t p where hp: "get_highest_priority_thread k = (t, p)" by fastforce
  have "th_state (threads k c) = RT_THREAD_RUNNING" using keep by (simp add: keeps_cpu_def)
  with keeps_cpu_iff [OF kinvD [OF inv] go(2) hp] keep cur go hp show ?thesis
    by (simp add: rt_schedule_def Let_def)
qed

lemma rt_schedule_switch_eq:
  assumes inv: "kinv k" and cur: "rt_current_thread k = Some c"
    and go: "rt_scheduler_lock_nest k = 0" "rt_thread_ready_priority_group k \<noteq> 0"
    and keep: "\<not> keeps_cpu k c" and hp: "get_highest_priority_thread k = (t, p)"
  shows "rt_schedule k =
     (let running = (th_state (threads k c) = RT_THREAD_RUNNING);
          k = (if running then set_thread c clear_yield k else k);
          k = k\<lparr>rt_current_priority := of_nat p, rt_current_thread := Some t\<rparr>;
          k = (if running then rt_schedule_insert_thread c k else k)
      in set_thread t (with_state RT_THREAD_RUNNING) (rt_schedule_remove_thread t k))"
    and "t \<noteq> c"
proof -
  have hr: "th_state (threads k t) = RT_THREAD_READY"
    using highest_ready [OF kinvD [OF inv] go(2) hp] by blast
  then show tc: "t \<noteq> c" using inv cur by (auto simp: kinv_def)
  show "rt_schedule k =
     (let running = (th_state (threads k c) = RT_THREAD_RUNNING);
          k = (if running then set_thread c clear_yield k else k);
          k = k\<lparr>rt_current_priority := of_nat p, rt_current_thread := Some t\<rparr>;
          k = (if running then rt_schedule_insert_thread c k else k)
      in set_thread t (with_state RT_THREAD_RUNNING) (rt_schedule_remove_thread t k))"
    using keeps_cpu_iff [OF kinvD [OF inv] go(2) hp, of c] keep cur go hp tc
    by (auto simp: rt_schedule_def Let_def)
qed

lemma kinv_but_running:
  assumes inv: "kinv_but (insert t X) k" and cur: "rt_current_thread k = Some t" and "t \<notin> X"
    and prio: "prio_ok (threads k t)"
  shows "kinv_but X (set_thread t (with_state RT_THREAD_RUNNING) k)"
proof -
  let ?k = "set_thread t (with_state RT_THREAD_RUNNING) k"
  have "kinv_but (insert t X) ?k" using inv by simp
  moreover have "thread_ok ?k t" using cur prio by (simp add: thread_ok_def prio_ok_def)
  ultimately show ?thesis using kinv_but_release [of t X ?k] \<open>t \<notin> X\<close> by simp
qed

lemma active_prio: "kinv_but X k \<Longrightarrow> t \<notin> X \<Longrightarrow> is_active (threads k t) \<Longrightarrow> prio_ok (threads k t)"
  using kinv_thread [of X k t] by (simp add: thread_ok_def)

lemma prio_ok_cong:
  "th_current_priority th = th_current_priority th' \<Longrightarrow> th_number_mask th = th_number_mask th'
   \<Longrightarrow> prio_ok th = prio_ok th'"
  by (simp add: prio_ok_def)

lemma threads_insert_thread:
  "threads (rt_schedule_insert_thread t k) = (threads k)(t :=
     with_state (if rt_current_thread k = Some t then RT_THREAD_RUNNING else RT_THREAD_READY) (threads k t))"
  by (simp add: rt_schedule_insert_thread_def Let_def)

lemma kinv_rt_schedule:
  assumes inv: "kinv k"
  shows "kinv (rt_schedule k)"
proof (cases "rt_scheduler_lock_nest k \<noteq> 0 \<or> rt_thread_ready_priority_group k = 0
    \<or> rt_current_thread k = None")
  case True
  then show ?thesis using inv rt_schedule_idle by simp
next
  case False
  then obtain c where cur: "rt_current_thread k = Some c"
    and go: "rt_scheduler_lock_nest k = 0" "rt_thread_ready_priority_group k \<noteq> 0" by auto
  have ib: "kinv_but {} k" using inv by blast
  show ?thesis
  proof (cases "keeps_cpu k c")
    case True
    then have run: "th_state (threads k c) = RT_THREAD_RUNNING" by (simp add: keeps_cpu_def)
    let ?k = "set_thread c clear_yield k"
    have "prio_ok (threads k c)" using active_prio [OF ib] run by (simp add: is_active_def)
    then have p: "prio_ok (threads ?k c)" by (simp add: prio_ok_def)
    have "kinv_but {} ?k" using ib by (simp add: kinv_but_set_other)
    then have "kinv_but {c} (rt_schedule_remove_thread c ?k)" using p by (rule kinv_remove_thread)
    then have "kinv_but {} (set_thread c (with_state RT_THREAD_RUNNING) (rt_schedule_remove_thread c ?k))"
      using p cur by (intro kinv_but_running) auto
    then show ?thesis
      using rt_schedule_keep_eq [OF inv cur go True] cur by (simp add: kinv_def)
  next
    case False
    obtain t p where hp: "get_highest_priority_thread k = (t, p)" by fastforce
    note hr = highest_ready [OF ib go(2) hp]
    note eq = rt_schedule_switch_eq [OF inv cur go False hp]
    define run where "run \<longleftrightarrow> th_state (threads k c) = RT_THREAD_RUNNING"
    define k1 where "k1 = (if run then set_thread c clear_yield k else k)"
    define k2 where "k2 = k1\<lparr>rt_current_priority := of_nat p, rt_current_thread := Some t\<rparr>"
    define k3 where "k3 = (if run then rt_schedule_insert_thread c k2 else k2)"
    have res: "rt_schedule k = set_thread t (with_state RT_THREAD_RUNNING) (rt_schedule_remove_thread t k3)"
      unfolding eq(1) by (simp add: Let_def k1_def k2_def k3_def run_def)
    have only: "th_state (threads k s) = RT_THREAD_RUNNING \<Longrightarrow> s = c" for s
      using kinv_thread [OF ib, of s] cur by (simp add: thread_ok_def)
    have k2_but: "kinv_but (if run then {c} else {}) k2"
    proof -
      have "kinv_but (if run then {c} else {}) k"
        using ib running_no_queue [OF ib, of c] kinv_but_insert [of "{}" k c] by (auto simp: run_def)
      then have "kinv_but (if run then {c} else {}) k1" by (cases run) (simp_all add: k1_def)
      then have "kinv_but (if run then {c} else {}) (k1\<lparr>rt_current_thread := Some t\<rparr>)"
      proof (rule kinv_but_current)
        fix s assume s: "s \<notin> (if run then {c} else {})"
        show "th_state (threads k1 s) \<noteq> RT_THREAD_RUNNING"
        proof (cases "s = c")
          case True
          then show ?thesis using s by (cases run) (simp_all add: k1_def run_def)
        next
          case False
          then show ?thesis using only [of s] by (auto simp: k1_def)
        qed
      qed
      then show ?thesis
        using kinv_but_cong [of "k1\<lparr>rt_current_thread := Some t\<rparr>" k2] by (simp add: k2_def)
    qed
    have k3_inv: "kinv_but {} k3"
    proof (cases run)
      case True
      then have "prio_ok (threads k c)" using active_prio [OF ib] by (simp add: is_active_def run_def)
      then have "prio_ok (threads k2 c)" using True by (simp add: k2_def k1_def prio_ok_def)
      then show ?thesis
        using True k2_but kinv_insert_thread [of c "{}" k2] by (simp add: k3_def)
    qed (use k2_but in \<open>simp add: k3_def\<close>)
    have th_t: "threads k3 t = threads k t"
      using eq(2) by (simp add: k3_def k2_def k1_def threads_insert_thread)
    have "kinv_but {t} (rt_schedule_remove_thread t k3)"
      using k3_inv hr th_t by (intro kinv_remove_thread) auto
    moreover have "rt_current_thread (rt_schedule_remove_thread t k3) = Some t"
      by (simp add: k3_def k2_def)
    ultimately have "kinv_but {} (rt_schedule k)"
      unfolding res using th_t hr by (intro kinv_but_running) auto
    moreover have "rt_current_thread (rt_schedule k) = Some t"
      by (simp add: res k3_def k2_def)
    ultimately show ?thesis by (simp add: kinv_def res)
  qed
qed

lemma rt_schedule_keep:
  assumes inv: "kinv k" and cur: "rt_current_thread k = Some c"
    and lock: "rt_scheduler_lock_nest k = 0" and keep: "keeps_cpu k c"
  shows "rt_current_thread (rt_schedule k) = Some c \<and> tq (rt_schedule k) = tq k
    \<and> th_state (threads (rt_schedule k) c) = RT_THREAD_RUNNING
    \<and> (\<forall>s. s \<noteq> c \<longrightarrow> threads (rt_schedule k) s = threads k s)"
proof (cases "rt_thread_ready_priority_group k = 0")
  case True
  then show ?thesis using cur keep by (simp add: rt_schedule_idle keeps_cpu_def)
next
  case False
  have "c \<notin> set (tq k q)" for q
    using running_no_queue kinvD [OF inv] keep by (auto simp: keeps_cpu_def)
  then show ?thesis
    using rt_schedule_keep_eq [OF inv cur lock False keep] cur
    by (auto simp: fun_eq_iff)
qed

lemma rt_schedule_switch:
  assumes inv: "kinv k" and cur: "rt_current_thread k = Some c"
    and go: "rt_scheduler_lock_nest k = 0" "rt_thread_ready_priority_group k \<noteq> 0"
    and keep: "\<not> keeps_cpu k c" and hp: "get_highest_priority_thread k = (t, p)"
  shows "rt_current_thread (rt_schedule k) = Some t"
    and "tq (rt_schedule k) q = (if q = ReadyQ p then tl (tq k q) else tq k q)
       @ (if th_state (threads k c) = RT_THREAD_RUNNING
             \<and> q = ReadyQ (unat (th_current_priority (threads k c))) then [c] else [])"
    and "threads (rt_schedule k) t = with_state RT_THREAD_RUNNING (threads k t)"
    and "threads (rt_schedule k) c = (if th_state (threads k c) = RT_THREAD_RUNNING
           then with_state RT_THREAD_READY (clear_yield (threads k c)) else threads k c)"
    and "s \<noteq> t \<Longrightarrow> s \<noteq> c \<Longrightarrow> threads (rt_schedule k) s = threads k s"
proof -
  have ib: "kinv_but {} k" using inv by blast
  note hr = highest_ready [OF ib go(2) hp]
  note eq = rt_schedule_switch_eq [OF inv cur go keep hp]
  show "rt_current_thread (rt_schedule k) = Some t"
    unfolding eq(1) by (simp add: Let_def)
  show "threads (rt_schedule k) t = with_state RT_THREAD_RUNNING (threads k t)"
    unfolding eq(1) using eq(2) by (simp add: Let_def threads_insert_thread)
  show "threads (rt_schedule k) c = (if th_state (threads k c) = RT_THREAD_RUNNING
           then with_state RT_THREAD_READY (clear_yield (threads k c)) else threads k c)"
    unfolding eq(1) using eq(2) by (simp add: Let_def threads_insert_thread)
  show "s \<noteq> t \<Longrightarrow> s \<noteq> c \<Longrightarrow> threads (rt_schedule k) s = threads k s"
    unfolding eq(1) by (simp add: Let_def threads_insert_thread)
  have rm: "removeAll t (tq k q) = (if q = ReadyQ p then tl (tq k q) else tq k q)"
  proof (cases "q = ReadyQ p")
    case True
    then show ?thesis using hr distinct_hd_tl kinv_distinct [OF ib, of q] by metis
  next
    case False
    then have "t \<notin> set (tq k q)" using hr kinv_one_queue [OF ib, of t q "ReadyQ p"] by blast
    then show ?thesis using False by simp
  qed
  show "tq (rt_schedule k) q = (if q = ReadyQ p then tl (tq k q) else tq k q)
       @ (if th_state (threads k c) = RT_THREAD_RUNNING
             \<and> q = ReadyQ (unat (th_current_priority (threads k c))) then [c] else [])"
    unfolding eq(1) rm [symmetric] using eq(2)
    by (auto simp: Let_def rt_schedule_insert_thread_def)
qed

text \<open>
  The kernel's variables at reset (zeroed memory), before \<open>rtthread_startup\<close>.
\<close>

definition zero_thread :: rt_thread where
  "zero_thread = \<lparr>th_entry = 0, th_parameter = 0, th_stack_addr = 0, th_stack_size = 0,
     th_error = 0, th_stat = 0, th_current_priority = 0, th_init_priority = 0,
     th_number_mask = 0, th_event_set = 0, th_event_info = 0, th_init_tick = 0,
     th_remaining_tick = 0, th_cleanup = None, th_user_data = 0\<rparr>"

definition reset_kernel :: kernel where
  "reset_kernel = \<lparr>threads = (\<lambda>_. zero_thread), tq = (\<lambda>_. []),
     rt_thread_ready_priority_group = 0, rt_scheduler_lock_nest = 0, rt_current_thread = None,
     rt_current_priority = 0, rt_interrupt_nest = 0, rt_tick = 0,
     timers = (\<lambda>_. \<lparr>tm_action = User_timeout 0 0, tm_init_tick = 0, tm_timeout_tick = 0\<rparr>),
     rt_timer_list = [], timer_pending = [], random_nr = 0,
     objects = (\<lambda>_. \<lparr>obj_name = [], obj_type = 0, obj_flag = 0\<rparr>), object_list = (\<lambda>_. []),
     semaphores = (\<lambda>_. \<lparr>sem_value = 0\<rparr>),
     mutexes = (\<lambda>_. \<lparr>mtx_value = 0, mtx_original_priority = 0, mtx_hold = 0, mtx_owner = None\<rparr>),
     events = (\<lambda>_. \<lparr>evt_set = 0\<rparr>),
     mailboxes = (\<lambda>_. \<lparr>mb_msg_pool = [], mb_size = 0, mb_entry = 0, mb_in_offset = 0, mb_out_offset = 0\<rparr>),
     messagequeues = (\<lambda>_. \<lparr>mq_pool = (\<lambda>_. []), mq_msg_size = 0, mq_max_msgs = 0, mq_entry = 0,
       mq_msg_queue = [], mq_msg_queue_free = []\<rparr>),
     kernel_calls = []\<rparr>"

lemma zero_thread_state [simp]: "th_state zero_thread = RT_THREAD_INIT"
  by (simp add: zero_thread_def th_state_def stat_defs)

lemma kinv_reset: "kinv reset_kernel"
  by (simp add: kinv_def kinv_but_def thread_ok_def is_active_def reset_kernel_def)

subsection \<open>Critical sections\<close>

lemma enter_critical_frame [simp]:
  "threads (rt_enter_critical k) = threads k"
  "tq (rt_enter_critical k) = tq k"
  "rt_thread_ready_priority_group (rt_enter_critical k) = rt_thread_ready_priority_group k"
  "rt_current_thread (rt_enter_critical k) = rt_current_thread k"
  "rt_current_priority (rt_enter_critical k) = rt_current_priority k"
  "rt_interrupt_nest (rt_enter_critical k) = rt_interrupt_nest k"
  "rt_tick (rt_enter_critical k) = rt_tick k"
  "timers (rt_enter_critical k) = timers k"
  "rt_timer_list (rt_enter_critical k) = rt_timer_list k"
  "timer_pending (rt_enter_critical k) = timer_pending k"
  "random_nr (rt_enter_critical k) = random_nr k"
  "objects (rt_enter_critical k) = objects k"
  "object_list (rt_enter_critical k) = object_list k"
  "semaphores (rt_enter_critical k) = semaphores k"
  "mutexes (rt_enter_critical k) = mutexes k"
  "events (rt_enter_critical k) = events k"
  "mailboxes (rt_enter_critical k) = mailboxes k"
  "messagequeues (rt_enter_critical k) = messagequeues k"
  "kernel_calls (rt_enter_critical k) = kernel_calls k"
  by (simp_all add: rt_enter_critical_def)

lemma exit_critical_frame [simp]:
  "rt_interrupt_nest (rt_exit_critical k) = rt_interrupt_nest k"
  "rt_tick (rt_exit_critical k) = rt_tick k"
  "timers (rt_exit_critical k) = timers k"
  "rt_timer_list (rt_exit_critical k) = rt_timer_list k"
  "timer_pending (rt_exit_critical k) = timer_pending k"
  "random_nr (rt_exit_critical k) = random_nr k"
  "objects (rt_exit_critical k) = objects k"
  "object_list (rt_exit_critical k) = object_list k"
  "semaphores (rt_exit_critical k) = semaphores k"
  "mutexes (rt_exit_critical k) = mutexes k"
  "events (rt_exit_critical k) = events k"
  "mailboxes (rt_exit_critical k) = mailboxes k"
  "messagequeues (rt_exit_critical k) = messagequeues k"
  "kernel_calls (rt_exit_critical k) = kernel_calls k"
  by (simp_all add: rt_exit_critical_def Let_def)

lemma exit_enter_critical:
  "rt_exit_critical (rt_enter_critical k) =
    (if sint (rt_scheduler_lock_nest k) \<le> 0 then
       (let k = k\<lparr>rt_scheduler_lock_nest := 0\<rparr>
        in if rt_current_thread k \<noteq> None then rt_schedule k else k)
     else k)"
  by (simp add: rt_exit_critical_def rt_enter_critical_def Let_def)

lemma kinv_lock_nest [simp]: "kinv (k\<lparr>rt_scheduler_lock_nest := n\<rparr>) = kinv k"
  by (rule kinv_cong) simp_all

lemma kinv_enter_critical: "kinv k \<Longrightarrow> kinv (rt_enter_critical k)"
  by (simp add: rt_enter_critical_def)

lemma kinv_exit_critical: "kinv k \<Longrightarrow> kinv (rt_exit_critical k)"
  by (simp add: rt_exit_critical_def Let_def kinv_rt_schedule)

end
