(* ===== verification/Kernel_Object.thy ===== *)
theory Kernel_Object
  imports Scheduler
begin

section \<open>Kernel objects (\<open>rt-thread/src/object.c\<close>)\<close>

text \<open>
  The container keeps one list of objects per class; a static object carries a bit of its type
  byte. Looking an object up and initialising one walk the list with the scheduler locked, so both
  end in \<open>rt_exit_critical\<close>, which may switch threads. Of \<open>rt_object_allocate\<close> the argument
  \<open>mem\<close> is what \<^verbatim>\<open>RT_KERNEL_MALLOC\<close> returned.
\<close>

definition rt_object_container :: "rt_object_class_type list" where
  "rt_object_container = [RT_Object_Class_Thread, RT_Object_Class_Semaphore, RT_Object_Class_Mutex,
     RT_Object_Class_Event, RT_Object_Class_MailBox, RT_Object_Class_MessageQueue,
     RT_Object_Class_Device, RT_Object_Class_Timer]"

definition RT_NAME_MAX :: nat where "RT_NAME_MAX = 8"

definition rt_object_get_information :: "rt_object_class_type \<Rightarrow> rt_object_class_type option" where
  "rt_object_get_information ty = List.find (\<lambda>c. c = ty) rt_object_container"

definition rt_object_get_length :: "rt_object_class_type \<Rightarrow> kernel \<Rightarrow> nat" where
  "rt_object_get_length ty k =
    (case rt_object_get_information ty of
       None \<Rightarrow> 0
     | Some c \<Rightarrow> length (object_list k c))"

text \<open>The objects written to the array \<open>pointers\<close>; the function returns their number.\<close>

definition rt_object_get_pointers :: "rt_object_class_type \<Rightarrow> int \<Rightarrow> kernel \<Rightarrow> objref list" where
  "rt_object_get_pointers ty maxlen k =
    (if maxlen \<le> 0 then []
     else (case rt_object_get_information ty of
             None \<Rightarrow> []
           | Some c \<Rightarrow> take (nat maxlen) (object_list k c)))"

definition rt_object_init :: "objref \<Rightarrow> rt_object_class_type \<Rightarrow> string \<Rightarrow> kernel \<Rightarrow> kernel" where
  "rt_object_init ob ty name k =
    (let k = rt_enter_critical k;
         k = rt_exit_critical k;
         k = set_object ob (\<lambda>o1. o1\<lparr>obj_type := class_code ty OR RT_Object_Class_Static,
                                    obj_name := take RT_NAME_MAX name\<rparr>) k
     in k\<lparr>object_list := (object_list k)(ty := ob # object_list k ty)\<rparr>)"

definition rt_object_detach :: "objref \<Rightarrow> kernel \<Rightarrow> kernel" where
  "rt_object_detach ob k =
    (let k = set_object ob (obj_type_update (\<lambda>_. 0)) k
     in k\<lparr>object_list := (\<lambda>c. removeAll ob (object_list k c))\<rparr>)"

definition rt_object_allocate ::
  "objref option \<Rightarrow> rt_object_class_type \<Rightarrow> string \<Rightarrow> kernel \<Rightarrow> objref option \<times> kernel" where
  "rt_object_allocate mem ty name k =
    (case mem of
       None \<Rightarrow> (None, k)
     | Some ob \<Rightarrow>
        let k = set_object ob (\<lambda>_. \<lparr>obj_name = take RT_NAME_MAX name, obj_type = class_code ty,
                                    obj_flag = 0\<rparr>) k
        in (Some ob, k\<lparr>object_list := (object_list k)(ty := ob # object_list k ty)\<rparr>))"

definition rt_object_delete :: "objref \<Rightarrow> kernel \<Rightarrow> kernel" where
  "rt_object_delete ob k =
    (let k = set_object ob (obj_type_update (\<lambda>_. class_code RT_Object_Class_Null)) k;
         k = k\<lparr>object_list := (\<lambda>c. removeAll ob (object_list k c))\<rparr>
     in k\<lparr>kernel_calls := Free_object ob # kernel_calls k\<rparr>)"

definition rt_object_is_systemobject :: "objref \<Rightarrow> kernel \<Rightarrow> bool" where
  "rt_object_is_systemobject ob k \<longleftrightarrow> obj_type (objects k ob) AND RT_Object_Class_Static \<noteq> 0"

definition rt_object_get_type :: "objref \<Rightarrow> kernel \<Rightarrow> u8" where
  "rt_object_get_type ob k = obj_type (objects k ob) AND NOT RT_Object_Class_Static"

definition rt_object_find ::
  "string \<Rightarrow> rt_object_class_type \<Rightarrow> kernel \<Rightarrow> objref option \<times> kernel" where
  "rt_object_find name ty k =
    (case rt_object_get_information ty of
       None \<Rightarrow> (None, k)
     | Some c \<Rightarrow>
        let k = rt_enter_critical k;
            found = List.find (\<lambda>ob. take RT_NAME_MAX (obj_name (objects k ob)) = take RT_NAME_MAX name)
                      (object_list k c)
        in (found, rt_exit_critical k))"

subsection \<open>The container as a list of the objects attached\<close>

lemma object_init_frame [simp]:
  "rt_interrupt_nest (rt_object_init ob ty name k) = rt_interrupt_nest k"
  "rt_tick (rt_object_init ob ty name k) = rt_tick k"
  "timers (rt_object_init ob ty name k) = timers k"
  "rt_timer_list (rt_object_init ob ty name k) = rt_timer_list k"
  "timer_pending (rt_object_init ob ty name k) = timer_pending k"
  "random_nr (rt_object_init ob ty name k) = random_nr k"
  "semaphores (rt_object_init ob ty name k) = semaphores k"
  "mutexes (rt_object_init ob ty name k) = mutexes k"
  "events (rt_object_init ob ty name k) = events k"
  "mailboxes (rt_object_init ob ty name k) = mailboxes k"
  "messagequeues (rt_object_init ob ty name k) = messagequeues k"
  "kernel_calls (rt_object_init ob ty name k) = kernel_calls k"
  by (simp_all add: rt_object_init_def Let_def)

lemma object_detach_frame [simp]:
  "threads (rt_object_detach ob k) = threads k"
  "tq (rt_object_detach ob k) = tq k"
  "rt_thread_ready_priority_group (rt_object_detach ob k) = rt_thread_ready_priority_group k"
  "rt_scheduler_lock_nest (rt_object_detach ob k) = rt_scheduler_lock_nest k"
  "rt_current_thread (rt_object_detach ob k) = rt_current_thread k"
  "rt_current_priority (rt_object_detach ob k) = rt_current_priority k"
  "rt_interrupt_nest (rt_object_detach ob k) = rt_interrupt_nest k"
  "rt_tick (rt_object_detach ob k) = rt_tick k"
  "timers (rt_object_detach ob k) = timers k"
  "rt_timer_list (rt_object_detach ob k) = rt_timer_list k"
  "timer_pending (rt_object_detach ob k) = timer_pending k"
  "random_nr (rt_object_detach ob k) = random_nr k"
  "semaphores (rt_object_detach ob k) = semaphores k"
  "mutexes (rt_object_detach ob k) = mutexes k"
  "events (rt_object_detach ob k) = events k"
  "mailboxes (rt_object_detach ob k) = mailboxes k"
  "messagequeues (rt_object_detach ob k) = messagequeues k"
  "kernel_calls (rt_object_detach ob k) = kernel_calls k"
  by (simp_all add: rt_object_detach_def Let_def)

lemma object_delete_frame [simp]:
  "threads (rt_object_delete ob k) = threads k"
  "tq (rt_object_delete ob k) = tq k"
  "rt_thread_ready_priority_group (rt_object_delete ob k) = rt_thread_ready_priority_group k"
  "rt_scheduler_lock_nest (rt_object_delete ob k) = rt_scheduler_lock_nest k"
  "rt_current_thread (rt_object_delete ob k) = rt_current_thread k"
  "rt_current_priority (rt_object_delete ob k) = rt_current_priority k"
  "rt_interrupt_nest (rt_object_delete ob k) = rt_interrupt_nest k"
  "rt_tick (rt_object_delete ob k) = rt_tick k"
  "timers (rt_object_delete ob k) = timers k"
  "rt_timer_list (rt_object_delete ob k) = rt_timer_list k"
  "timer_pending (rt_object_delete ob k) = timer_pending k"
  "random_nr (rt_object_delete ob k) = random_nr k"
  "semaphores (rt_object_delete ob k) = semaphores k"
  "mutexes (rt_object_delete ob k) = mutexes k"
  "events (rt_object_delete ob k) = events k"
  "mailboxes (rt_object_delete ob k) = mailboxes k"
  "messagequeues (rt_object_delete ob k) = messagequeues k"
  by (simp_all add: rt_object_delete_def Let_def)

lemma object_init_list [simp]:
  "object_list (rt_object_init ob ty name k) = (object_list k)(ty := ob # object_list k ty)"
  "objects (rt_object_init ob ty name k) = (objects k)(ob := (objects k ob)
     \<lparr>obj_type := class_code ty OR RT_Object_Class_Static, obj_name := take RT_NAME_MAX name\<rparr>)"
  by (simp_all add: rt_object_init_def Let_def)

lemma object_detach_list [simp]:
  "object_list (rt_object_detach ob k) = (\<lambda>c. removeAll ob (object_list k c))"
  "objects (rt_object_detach ob k) = (objects k)(ob := (objects k ob)\<lparr>obj_type := 0\<rparr>)"
  by (simp_all add: rt_object_detach_def Let_def)

lemma kinv_object_init: "kinv k \<Longrightarrow> kinv (rt_object_init ob ty name k)"
  by (rule kinv_cong [THEN iffD1, OF _ _ _ _ kinv_exit_critical [OF kinv_enter_critical]])
    (simp_all add: rt_object_init_def Let_def)

lemma kinv_object_detach [simp]: "kinv (rt_object_detach ob k) = kinv k"
  by (rule kinv_cong) simp_all

lemma kinv_object_delete [simp]: "kinv (rt_object_delete ob k) = kinv k"
  by (rule kinv_cong) simp_all

lemma object_find_spec:
  "fst (rt_object_find name ty k) = Some ob \<Longrightarrow>
     ob \<in> set (object_list k ty) \<and> take RT_NAME_MAX (obj_name (objects k ob)) = take RT_NAME_MAX name"
  by (auto simp: rt_object_find_def rt_object_get_information_def Let_def find_Some_iff
      split: option.splits dest: nth_mem)

lemma systemobject_codes:
  "(class_code ty OR RT_Object_Class_Static) AND RT_Object_Class_Static \<noteq> 0"
  "class_code ty AND RT_Object_Class_Static = 0"
  "(class_code ty OR RT_Object_Class_Static) AND NOT RT_Object_Class_Static = class_code ty"
  by (cases ty; simp add: RT_Object_Class_Static_def)+

end
