(* ===== verification/Timer.thy ===== *)
theory Timer
  imports Kernel_Object
begin

section \<open>Timers (\<open>rt-thread/src/timer.c\<close>)\<close>

text \<open>
  One list of active timers (the skip list has a single level), kept in the order of expiry.
  Ticks are 32-bit and wrap; two ticks are compared through their difference. The flag byte of a
  timer is that of its kernel object. \<^verbatim>\<open>rt_timer_check\<close>, which runs the timeout functions, is in
  the theory \<open>Clock\<close>, after the threads it wakes.
\<close>

definition RT_TIMER_FLAG_DEACTIVATED :: u8 where "RT_TIMER_FLAG_DEACTIVATED = 0x0"
definition RT_TIMER_FLAG_ACTIVATED :: u8 where "RT_TIMER_FLAG_ACTIVATED = 0x1"
definition RT_TIMER_FLAG_ONE_SHOT :: u8 where "RT_TIMER_FLAG_ONE_SHOT = 0x0"
definition RT_TIMER_FLAG_PERIODIC :: u8 where "RT_TIMER_FLAG_PERIODIC = 0x2"

definition RT_TICK_MAX :: u32 where "RT_TICK_MAX = 0xffffffff"

definition timer_flag :: "kernel \<Rightarrow> tmid \<Rightarrow> u8" where
  "timer_flag k tm = obj_flag (objects k (OTimer tm))"

definition set_timer_flag :: "tmid \<Rightarrow> (u8 \<Rightarrow> u8) \<Rightarrow> kernel \<Rightarrow> kernel" where
  "set_timer_flag tm f = set_object (OTimer tm) (obj_flag_update f)"

definition timer_active :: "kernel \<Rightarrow> tmid \<Rightarrow> bool" where
  "timer_active k tm \<longleftrightarrow> timer_flag k tm AND RT_TIMER_FLAG_ACTIVATED \<noteq> 0"

definition timer_periodic :: "kernel \<Rightarrow> tmid \<Rightarrow> bool" where
  "timer_periodic k tm \<longleftrightarrow> timer_flag k tm AND RT_TIMER_FLAG_PERIODIC \<noteq> 0"

text \<open>\<^verbatim>\<open>_rt_timer_init\<close>; the node it initialises is in no list.\<close>

definition rt_timer_init_fields :: "tmid \<Rightarrow> timeout_action \<Rightarrow> u32 \<Rightarrow> u8 \<Rightarrow> kernel \<Rightarrow> kernel" where
  "rt_timer_init_fields tm timeout time flag k =
    (let k = set_timer_flag tm (\<lambda>_. flag) k;
         k = set_timer_flag tm (\<lambda>fl. fl AND NOT RT_TIMER_FLAG_ACTIVATED) k
     in set_timer tm (\<lambda>_. \<lparr>tm_action = timeout, tm_init_tick = time, tm_timeout_tick = 0\<rparr>) k)"

definition rt_timer_list_next_timeout :: "kernel \<Rightarrow> u32" where
  "rt_timer_list_next_timeout k =
    (case rt_timer_list k of
       [] \<Rightarrow> RT_TICK_MAX
     | timer # _ \<Rightarrow> tm_timeout_tick (timers k timer))"

definition rt_timer_remove :: "tmid \<Rightarrow> kernel \<Rightarrow> kernel" where
  "rt_timer_remove tm k = k\<lparr>rt_timer_list := removeAll tm (rt_timer_list k),
                            timer_pending := removeAll tm (timer_pending k)\<rparr>"

definition rt_timer_init ::
  "tmid \<Rightarrow> string \<Rightarrow> timeout_action \<Rightarrow> u32 \<Rightarrow> u8 \<Rightarrow> kernel \<Rightarrow> kernel" where
  "rt_timer_init tm name timeout time flag k =
     rt_timer_init_fields tm timeout time flag
       (rt_object_init (OTimer tm) RT_Object_Class_Timer name k)"

definition rt_timer_detach :: "tmid \<Rightarrow> kernel \<Rightarrow> rt_err_t \<times> kernel" where
  "rt_timer_detach tm k =
    (let k = rt_timer_remove tm k;
         k = set_timer_flag tm (\<lambda>fl. fl AND NOT RT_TIMER_FLAG_ACTIVATED) k
     in (RT_EOK, rt_object_detach (OTimer tm) k))"

definition rt_timer_create ::
  "tmid option \<Rightarrow> string \<Rightarrow> timeout_action \<Rightarrow> u32 \<Rightarrow> u8 \<Rightarrow> kernel \<Rightarrow> tmid option \<times> kernel" where
  "rt_timer_create mem name timeout time flag k =
    (case mem of
       None \<Rightarrow> (None, snd (rt_object_allocate None RT_Object_Class_Timer name k))
     | Some tm \<Rightarrow>
        (Some tm, rt_timer_init_fields tm timeout time flag
                    (snd (rt_object_allocate (Some (OTimer tm)) RT_Object_Class_Timer name k))))"

definition rt_timer_delete :: "tmid \<Rightarrow> kernel \<Rightarrow> rt_err_t \<times> kernel" where
  "rt_timer_delete tm k =
    (let k = rt_timer_remove tm k;
         k = set_timer_flag tm (\<lambda>fl. fl AND NOT RT_TIMER_FLAG_ACTIVATED) k
     in (RT_EOK, rt_object_delete (OTimer tm) k))"

text \<open>
  The search of \<open>rt_timer_start\<close> for the place of \<open>timer\<close>: before the first timer that expires
  strictly later; timers of the same tick stay in the order they were started.
\<close>

fun timer_insert :: "(tmid \<Rightarrow> rt_timer) \<Rightarrow> tmid \<Rightarrow> tmid list \<Rightarrow> tmid list" where
  "timer_insert tab timer [] = [timer]"
| "timer_insert tab timer (t # ts) =
    (if tm_timeout_tick (tab t) - tm_timeout_tick (tab timer) = 0
     then t # timer_insert tab timer ts
     else if tm_timeout_tick (tab t) - tm_timeout_tick (tab timer) < RT_TICK_MAX div 2
     then timer # t # ts
     else t # timer_insert tab timer ts)"

definition rt_timer_start :: "tmid \<Rightarrow> kernel \<Rightarrow> rt_err_t \<times> kernel" where
  "rt_timer_start tm k =
    (let k = rt_timer_remove tm k;
         k = set_timer_flag tm (\<lambda>fl. fl AND NOT RT_TIMER_FLAG_ACTIVATED) k;
         k = set_timer tm (\<lambda>x. x\<lparr>tm_timeout_tick := rt_tick k + tm_init_tick x\<rparr>) k;
         k = k\<lparr>random_nr := random_nr k + 1\<rparr>;
         k = k\<lparr>rt_timer_list := timer_insert (timers k) tm (rt_timer_list k)\<rparr>
     in (RT_EOK, set_timer_flag tm (\<lambda>fl. fl OR RT_TIMER_FLAG_ACTIVATED) k))"

definition rt_timer_stop :: "tmid \<Rightarrow> kernel \<Rightarrow> rt_err_t \<times> kernel" where
  "rt_timer_stop tm k =
    (if \<not> timer_active k tm then (- RT_ERROR, k)
     else (RT_EOK, set_timer_flag tm (\<lambda>fl. fl AND NOT RT_TIMER_FLAG_ACTIVATED) (rt_timer_remove tm k)))"

text \<open>The commands of \<open>rt_timer_control\<close>; \<open>arg\<close> is the tick the pointer leads to, returned as the
  call leaves it.\<close>

definition rt_timer_control :: "tmid \<Rightarrow> int \<Rightarrow> u32 \<Rightarrow> kernel \<Rightarrow> rt_err_t \<times> u32 \<times> kernel" where
  "rt_timer_control tm cmd arg k = (RT_EOK,
    (if cmd = 0x1 then (tm_init_tick (timers k tm), k)
     else if cmd = 0x0 then (arg, set_timer tm (tm_init_tick_update (\<lambda>_. arg)) k)
     else if cmd = 0x2 then (arg, set_timer_flag tm (\<lambda>fl. fl AND NOT RT_TIMER_FLAG_PERIODIC) k)
     else if cmd = 0x3 then (arg, set_timer_flag tm (\<lambda>fl. fl OR RT_TIMER_FLAG_PERIODIC) k)
     else if cmd = 0x4 then
       (if timer_active k tm then ucast RT_TIMER_FLAG_ACTIVATED else ucast RT_TIMER_FLAG_DEACTIVATED, k)
     else (arg, k)))"

abbreviation (input) RT_TIMER_CTRL_SET_TIME :: int where "RT_TIMER_CTRL_SET_TIME \<equiv> 0x0"

subsection \<open>Fields the timer operations leave alone\<close>

lemma set_timer_flag_frame [simp]:
  "threads (set_timer_flag tm f k) = threads k"
  "tq (set_timer_flag tm f k) = tq k"
  "rt_thread_ready_priority_group (set_timer_flag tm f k) = rt_thread_ready_priority_group k"
  "rt_scheduler_lock_nest (set_timer_flag tm f k) = rt_scheduler_lock_nest k"
  "rt_current_thread (set_timer_flag tm f k) = rt_current_thread k"
  "rt_current_priority (set_timer_flag tm f k) = rt_current_priority k"
  "rt_interrupt_nest (set_timer_flag tm f k) = rt_interrupt_nest k"
  "rt_tick (set_timer_flag tm f k) = rt_tick k"
  "timers (set_timer_flag tm f k) = timers k"
  "rt_timer_list (set_timer_flag tm f k) = rt_timer_list k"
  "timer_pending (set_timer_flag tm f k) = timer_pending k"
  "random_nr (set_timer_flag tm f k) = random_nr k"
  "object_list (set_timer_flag tm f k) = object_list k"
  "semaphores (set_timer_flag tm f k) = semaphores k"
  "mutexes (set_timer_flag tm f k) = mutexes k"
  "events (set_timer_flag tm f k) = events k"
  "mailboxes (set_timer_flag tm f k) = mailboxes k"
  "messagequeues (set_timer_flag tm f k) = messagequeues k"
  "kernel_calls (set_timer_flag tm f k) = kernel_calls k"
  by (simp_all add: set_timer_flag_def Let_def)

lemma timer_init_fields_frame [simp]:
  "threads (rt_timer_init_fields tm a n fl k) = threads k"
  "tq (rt_timer_init_fields tm a n fl k) = tq k"
  "rt_thread_ready_priority_group (rt_timer_init_fields tm a n fl k) = rt_thread_ready_priority_group k"
  "rt_scheduler_lock_nest (rt_timer_init_fields tm a n fl k) = rt_scheduler_lock_nest k"
  "rt_current_thread (rt_timer_init_fields tm a n fl k) = rt_current_thread k"
  "rt_current_priority (rt_timer_init_fields tm a n fl k) = rt_current_priority k"
  "rt_interrupt_nest (rt_timer_init_fields tm a n fl k) = rt_interrupt_nest k"
  "rt_tick (rt_timer_init_fields tm a n fl k) = rt_tick k"
  "rt_timer_list (rt_timer_init_fields tm a n fl k) = rt_timer_list k"
  "timer_pending (rt_timer_init_fields tm a n fl k) = timer_pending k"
  "random_nr (rt_timer_init_fields tm a n fl k) = random_nr k"
  "object_list (rt_timer_init_fields tm a n fl k) = object_list k"
  "semaphores (rt_timer_init_fields tm a n fl k) = semaphores k"
  "mutexes (rt_timer_init_fields tm a n fl k) = mutexes k"
  "events (rt_timer_init_fields tm a n fl k) = events k"
  "mailboxes (rt_timer_init_fields tm a n fl k) = mailboxes k"
  "messagequeues (rt_timer_init_fields tm a n fl k) = messagequeues k"
  "kernel_calls (rt_timer_init_fields tm a n fl k) = kernel_calls k"
  by (simp_all add: rt_timer_init_fields_def Let_def)

lemma timer_remove_frame [simp]:
  "threads (rt_timer_remove tm k) = threads k"
  "tq (rt_timer_remove tm k) = tq k"
  "rt_thread_ready_priority_group (rt_timer_remove tm k) = rt_thread_ready_priority_group k"
  "rt_scheduler_lock_nest (rt_timer_remove tm k) = rt_scheduler_lock_nest k"
  "rt_current_thread (rt_timer_remove tm k) = rt_current_thread k"
  "rt_current_priority (rt_timer_remove tm k) = rt_current_priority k"
  "rt_interrupt_nest (rt_timer_remove tm k) = rt_interrupt_nest k"
  "rt_tick (rt_timer_remove tm k) = rt_tick k"
  "timers (rt_timer_remove tm k) = timers k"
  "random_nr (rt_timer_remove tm k) = random_nr k"
  "objects (rt_timer_remove tm k) = objects k"
  "object_list (rt_timer_remove tm k) = object_list k"
  "semaphores (rt_timer_remove tm k) = semaphores k"
  "mutexes (rt_timer_remove tm k) = mutexes k"
  "events (rt_timer_remove tm k) = events k"
  "mailboxes (rt_timer_remove tm k) = mailboxes k"
  "messagequeues (rt_timer_remove tm k) = messagequeues k"
  "kernel_calls (rt_timer_remove tm k) = kernel_calls k"
  by (simp_all add: rt_timer_remove_def Let_def)

lemma timer_detach_frame [simp]:
  "threads (snd (rt_timer_detach tm k)) = threads k"
  "tq (snd (rt_timer_detach tm k)) = tq k"
  "rt_thread_ready_priority_group (snd (rt_timer_detach tm k)) = rt_thread_ready_priority_group k"
  "rt_scheduler_lock_nest (snd (rt_timer_detach tm k)) = rt_scheduler_lock_nest k"
  "rt_current_thread (snd (rt_timer_detach tm k)) = rt_current_thread k"
  "rt_current_priority (snd (rt_timer_detach tm k)) = rt_current_priority k"
  "rt_interrupt_nest (snd (rt_timer_detach tm k)) = rt_interrupt_nest k"
  "rt_tick (snd (rt_timer_detach tm k)) = rt_tick k"
  "timers (snd (rt_timer_detach tm k)) = timers k"
  "random_nr (snd (rt_timer_detach tm k)) = random_nr k"
  "semaphores (snd (rt_timer_detach tm k)) = semaphores k"
  "mutexes (snd (rt_timer_detach tm k)) = mutexes k"
  "events (snd (rt_timer_detach tm k)) = events k"
  "mailboxes (snd (rt_timer_detach tm k)) = mailboxes k"
  "messagequeues (snd (rt_timer_detach tm k)) = messagequeues k"
  "kernel_calls (snd (rt_timer_detach tm k)) = kernel_calls k"
  by (simp_all add: rt_timer_detach_def Let_def)

lemma timer_start_frame [simp]:
  "threads (snd (rt_timer_start tm k)) = threads k"
  "tq (snd (rt_timer_start tm k)) = tq k"
  "rt_thread_ready_priority_group (snd (rt_timer_start tm k)) = rt_thread_ready_priority_group k"
  "rt_scheduler_lock_nest (snd (rt_timer_start tm k)) = rt_scheduler_lock_nest k"
  "rt_current_thread (snd (rt_timer_start tm k)) = rt_current_thread k"
  "rt_current_priority (snd (rt_timer_start tm k)) = rt_current_priority k"
  "rt_interrupt_nest (snd (rt_timer_start tm k)) = rt_interrupt_nest k"
  "rt_tick (snd (rt_timer_start tm k)) = rt_tick k"
  "object_list (snd (rt_timer_start tm k)) = object_list k"
  "semaphores (snd (rt_timer_start tm k)) = semaphores k"
  "mutexes (snd (rt_timer_start tm k)) = mutexes k"
  "events (snd (rt_timer_start tm k)) = events k"
  "mailboxes (snd (rt_timer_start tm k)) = mailboxes k"
  "messagequeues (snd (rt_timer_start tm k)) = messagequeues k"
  "kernel_calls (snd (rt_timer_start tm k)) = kernel_calls k"
  by (simp_all add: rt_timer_start_def Let_def)

lemma timer_stop_frame [simp]:
  "threads (snd (rt_timer_stop tm k)) = threads k"
  "tq (snd (rt_timer_stop tm k)) = tq k"
  "rt_thread_ready_priority_group (snd (rt_timer_stop tm k)) = rt_thread_ready_priority_group k"
  "rt_scheduler_lock_nest (snd (rt_timer_stop tm k)) = rt_scheduler_lock_nest k"
  "rt_current_thread (snd (rt_timer_stop tm k)) = rt_current_thread k"
  "rt_current_priority (snd (rt_timer_stop tm k)) = rt_current_priority k"
  "rt_interrupt_nest (snd (rt_timer_stop tm k)) = rt_interrupt_nest k"
  "rt_tick (snd (rt_timer_stop tm k)) = rt_tick k"
  "timers (snd (rt_timer_stop tm k)) = timers k"
  "random_nr (snd (rt_timer_stop tm k)) = random_nr k"
  "object_list (snd (rt_timer_stop tm k)) = object_list k"
  "semaphores (snd (rt_timer_stop tm k)) = semaphores k"
  "mutexes (snd (rt_timer_stop tm k)) = mutexes k"
  "events (snd (rt_timer_stop tm k)) = events k"
  "mailboxes (snd (rt_timer_stop tm k)) = mailboxes k"
  "messagequeues (snd (rt_timer_stop tm k)) = messagequeues k"
  "kernel_calls (snd (rt_timer_stop tm k)) = kernel_calls k"
  by (simp_all add: rt_timer_stop_def Let_def)

lemma timer_control_frame [simp]:
  "threads (snd (snd (rt_timer_control tm cmd arg k))) = threads k"
  "tq (snd (snd (rt_timer_control tm cmd arg k))) = tq k"
  "rt_thread_ready_priority_group (snd (snd (rt_timer_control tm cmd arg k))) = rt_thread_ready_priority_group k"
  "rt_scheduler_lock_nest (snd (snd (rt_timer_control tm cmd arg k))) = rt_scheduler_lock_nest k"
  "rt_current_thread (snd (snd (rt_timer_control tm cmd arg k))) = rt_current_thread k"
  "rt_current_priority (snd (snd (rt_timer_control tm cmd arg k))) = rt_current_priority k"
  "rt_interrupt_nest (snd (snd (rt_timer_control tm cmd arg k))) = rt_interrupt_nest k"
  "rt_tick (snd (snd (rt_timer_control tm cmd arg k))) = rt_tick k"
  "rt_timer_list (snd (snd (rt_timer_control tm cmd arg k))) = rt_timer_list k"
  "timer_pending (snd (snd (rt_timer_control tm cmd arg k))) = timer_pending k"
  "random_nr (snd (snd (rt_timer_control tm cmd arg k))) = random_nr k"
  "object_list (snd (snd (rt_timer_control tm cmd arg k))) = object_list k"
  "semaphores (snd (snd (rt_timer_control tm cmd arg k))) = semaphores k"
  "mutexes (snd (snd (rt_timer_control tm cmd arg k))) = mutexes k"
  "events (snd (snd (rt_timer_control tm cmd arg k))) = events k"
  "mailboxes (snd (snd (rt_timer_control tm cmd arg k))) = mailboxes k"
  "messagequeues (snd (snd (rt_timer_control tm cmd arg k))) = messagequeues k"
  "kernel_calls (snd (snd (rt_timer_control tm cmd arg k))) = kernel_calls k"
  by (simp_all add: rt_timer_control_def Let_def)

lemma timer_flag_set [simp]:
  "timer_flag (set_timer_flag tm f k) tm' = (if tm' = tm then f (timer_flag k tm) else timer_flag k tm')"
  "timer_flag (set_timer tm g k) tm' = timer_flag k tm'"
  "timer_flag (rt_timer_remove tm k) tm' = timer_flag k tm'"
  by (simp_all add: timer_flag_def set_timer_flag_def rt_timer_remove_def)

lemma flag_bits [simp]:
  "(fl AND NOT RT_TIMER_FLAG_ACTIVATED) AND RT_TIMER_FLAG_ACTIVATED = 0"
  "(fl OR RT_TIMER_FLAG_ACTIVATED) AND RT_TIMER_FLAG_ACTIVATED = RT_TIMER_FLAG_ACTIVATED"
  "(fl AND NOT RT_TIMER_FLAG_ACTIVATED) AND RT_TIMER_FLAG_PERIODIC = fl AND RT_TIMER_FLAG_PERIODIC"
  "(fl OR RT_TIMER_FLAG_ACTIVATED) AND RT_TIMER_FLAG_PERIODIC = fl AND RT_TIMER_FLAG_PERIODIC"
  "RT_TIMER_FLAG_ACTIVATED \<noteq> 0"
proof -
  have "(fl AND NOT RT_TIMER_FLAG_ACTIVATED) AND RT_TIMER_FLAG_PERIODIC
      = fl AND (NOT RT_TIMER_FLAG_ACTIVATED AND RT_TIMER_FLAG_PERIODIC)"
    by (simp only: and.assoc)
  then show "(fl AND NOT RT_TIMER_FLAG_ACTIVATED) AND RT_TIMER_FLAG_PERIODIC = fl AND RT_TIMER_FLAG_PERIODIC"
    by (simp add: RT_TIMER_FLAG_ACTIVATED_def RT_TIMER_FLAG_PERIODIC_def)
  have "(fl AND NOT RT_TIMER_FLAG_ACTIVATED) AND RT_TIMER_FLAG_ACTIVATED
      = fl AND (NOT RT_TIMER_FLAG_ACTIVATED AND RT_TIMER_FLAG_ACTIVATED)"
    by (simp only: and.assoc)
  then show "(fl AND NOT RT_TIMER_FLAG_ACTIVATED) AND RT_TIMER_FLAG_ACTIVATED = 0"
    by simp
qed (simp_all add: RT_TIMER_FLAG_ACTIVATED_def RT_TIMER_FLAG_PERIODIC_def bit.conj_disj_distrib2)

text \<open>The timer operations do not touch what the scheduler's invariant speaks of.\<close>

lemma kinv_timer_ops [simp]:
  "kinv (snd (rt_timer_start tm k)) = kinv k"
  "kinv (snd (rt_timer_stop tm k)) = kinv k"
  "kinv (snd (rt_timer_detach tm k)) = kinv k"
  "kinv (snd (snd (rt_timer_control tm cmd arg k))) = kinv k"
  "kinv (rt_timer_init_fields tm a n fl k) = kinv k"
  "kinv_but X (snd (rt_timer_start tm k)) = kinv_but X k"
  "kinv_but X (snd (rt_timer_stop tm k)) = kinv_but X k"
  "kinv_but X (snd (rt_timer_detach tm k)) = kinv_but X k"
  "kinv_but X (snd (snd (rt_timer_control tm cmd arg k))) = kinv_but X k"
  "kinv_but X (rt_timer_init_fields tm a n fl k) = kinv_but X k"
  by (rule kinv_cong kinv_but_cong; simp)+

subsection \<open>The order of the list\<close>

text \<open>
  The ticks a timer has to go, and the invariant of the list between two checks: at most
  \<open>RT_TICK_MAX / 2\<close> ticks to go, in increasing order, and the flag says who is in it.
\<close>

definition ticks_left :: "kernel \<Rightarrow> tmid \<Rightarrow> nat" where
  "ticks_left k tm = unat (tm_timeout_tick (timers k tm) - rt_tick k)"

definition timers_ok :: "kernel \<Rightarrow> bool" where
  "timers_ok k \<longleftrightarrow> distinct (rt_timer_list k)
   \<and> (\<forall>tm \<in> set (rt_timer_list k). ticks_left k tm < 0x7fffffff \<and> timer_active k tm)
   \<and> sorted_wrt (\<lambda>a b. ticks_left k a \<le> ticks_left k b) (rt_timer_list k)
   \<and> (\<forall>tm. timer_active k tm \<longrightarrow> tm \<in> set (rt_timer_list k) \<union> set (timer_pending k))"

lemma tick_compare:
  fixes a b now :: u32
  assumes "unat (a - now) < 0x7fffffff" "unat (b - now) < 0x7fffffff"
  shows "a - b = 0 \<longleftrightarrow> unat (a - now) = unat (b - now)"
    and "a - b \<noteq> 0 \<and> a - b < RT_TICK_MAX div 2 \<longleftrightarrow> unat (b - now) < unat (a - now)"
proof -
  have eq: "a - b = (a - now) - (b - now)" by simp
  show "a - b = 0 \<longleftrightarrow> unat (a - now) = unat (b - now)"
    unfolding eq by (metis eq_iff_diff_eq_0 word_unat_eq_iff)
  have "unat (RT_TICK_MAX div 2) = 0x7fffffff" by (simp add: RT_TICK_MAX_def unat_div)
  then have "a - b < RT_TICK_MAX div 2 \<longleftrightarrow> unat ((a - now) - (b - now)) < 0x7fffffff"
    by (simp only: word_less_nat_alt eq)
  moreover have "a - b \<noteq> 0 \<longleftrightarrow> unat ((a - now) - (b - now)) \<noteq> 0"
    by (simp only: eq unat_eq_0)
  ultimately show "a - b \<noteq> 0 \<and> a - b < RT_TICK_MAX div 2 \<longleftrightarrow> unat (b - now) < unat (a - now)"
    using assms unat_diff32 [of "a - now" "b - now"] by (auto split: if_splits)
qed

lemma timer_insert_place:
  assumes "\<And>t. t \<in> set ts \<Longrightarrow> unat (tm_timeout_tick (tab t) - now) < 0x7fffffff"
    and "unat (tm_timeout_tick (tab x) - now) < 0x7fffffff"
  shows "timer_insert tab x ts =
     takeWhile (\<lambda>t. unat (tm_timeout_tick (tab t) - now) \<le> unat (tm_timeout_tick (tab x) - now)) ts
     @ x # dropWhile (\<lambda>t. unat (tm_timeout_tick (tab t) - now) \<le> unat (tm_timeout_tick (tab x) - now)) ts"
  using assms(1)
proof (induction ts)
  case (Cons t ts)
  have t: "unat (tm_timeout_tick (tab t) - now) < 0x7fffffff" using Cons.prems by simp
  note cmp = tick_compare [OF t assms(2)]
  show ?case
    using Cons.IH Cons.prems cmp by (auto simp: not_le)
qed simp

lemma sorted_wrt_insert_place:
  fixes d :: "'a \<Rightarrow> nat"
  assumes "sorted_wrt (\<lambda>a b. d a \<le> d b) ts"
  shows "sorted_wrt (\<lambda>a b. d a \<le> d b)
    (takeWhile (\<lambda>t. d t \<le> d x) ts @ x # dropWhile (\<lambda>t. d t \<le> d x) ts)"
  using assms
proof (induction ts)
  case (Cons t ts)
  then show ?case
    by (auto dest: set_takeWhileD set_dropWhileD intro: order_trans less_imp_le simp: not_le)
qed simp

lemma ticks_left_frame [simp]:
  "ticks_left (set_timer_flag tm f k) = ticks_left k"
  "ticks_left (rt_timer_remove tm k) = ticks_left k"
  by (simp_all add: ticks_left_def fun_eq_iff)

lemma timer_remove_lists [simp]:
  "rt_timer_list (rt_timer_remove tm k) = removeAll tm (rt_timer_list k)"
  "timer_pending (rt_timer_remove tm k) = removeAll tm (timer_pending k)"
  by (simp_all add: rt_timer_remove_def)

text \<open>\<open>rt_timer_start\<close> as its effect on each field.\<close>

lemma timer_start_fields:
  fixes k tm
  defines "k' \<equiv> snd (rt_timer_start tm k)"
  shows "timers k' = (timers k)(tm := (timers k tm)
           \<lparr>tm_timeout_tick := rt_tick k + tm_init_tick (timers k tm)\<rparr>)"
    and "rt_timer_list k' = timer_insert (timers k') tm (removeAll tm (rt_timer_list k))"
    and "timer_pending k' = removeAll tm (timer_pending k)"
    and "timer_active k' tm' \<longleftrightarrow> tm' = tm \<or> timer_active k tm'"
    and "timer_periodic k' tm' \<longleftrightarrow> timer_periodic k tm'"
  by (simp_all add: k'_def rt_timer_start_def Let_def timer_active_def timer_periodic_def
      timer_flag_def set_timer_flag_def rt_timer_remove_def)

lemma ticks_left_start:
  "ticks_left (snd (rt_timer_start tm k)) tm' =
     (if tm' = tm then unat (tm_init_tick (timers k tm)) else ticks_left k tm')"
  by (simp add: ticks_left_def timer_start_fields(1))

text \<open>The place of a started timer: after all that expire no later.\<close>

lemma timer_start_place:
  assumes ok: "timers_ok k" and init: "tm_init_tick (timers k tm) < 0x7fffffff"
  defines "due \<equiv> (\<lambda>t. ticks_left k t \<le> unat (tm_init_tick (timers k tm)))"
  shows "rt_timer_list (snd (rt_timer_start tm k)) =
    (let rest = removeAll tm (rt_timer_list k) in takeWhile due rest @ tm # dropWhile due rest)"
proof -
  let ?tab = "timers (snd (rt_timer_start tm k))" and ?rest = "removeAll tm (rt_timer_list k)"
  have d: "unat (tm_timeout_tick (?tab t) - rt_tick k) =
      (if t = tm then unat (tm_init_tick (timers k tm)) else ticks_left k t)" for t
    by (simp add: ticks_left_def timer_start_fields(1))
  have "timer_insert ?tab tm ?rest =
     takeWhile (\<lambda>t. unat (tm_timeout_tick (?tab t) - rt_tick k) \<le> unat (tm_timeout_tick (?tab tm) - rt_tick k)) ?rest
     @ tm # dropWhile (\<lambda>t. unat (tm_timeout_tick (?tab t) - rt_tick k) \<le> unat (tm_timeout_tick (?tab tm) - rt_tick k)) ?rest"
    using ok init by (intro timer_insert_place) (auto simp: d timers_ok_def word_less_nat_alt)
  also have "\<dots> = takeWhile due ?rest @ tm # dropWhile due ?rest"
    by (intro arg_cong2 [where f = "(@)"] arg_cong [where f = "(#) tm"] takeWhile_cong dropWhile_cong)
      (auto simp: d due_def)
  finally show ?thesis by (simp add: timer_start_fields(2) Let_def)
qed

lemma distinct_insert_place:
  assumes "distinct xs" "x \<notin> set xs"
  shows "distinct (takeWhile P xs @ x # dropWhile P xs)"
proof -
  have "distinct (takeWhile P xs @ dropWhile P xs)" using assms(1) by simp
  moreover have "x \<notin> set (takeWhile P xs)" "x \<notin> set (dropWhile P xs)"
    using assms(2) by (auto dest: set_takeWhileD set_dropWhileD)
  ultimately show ?thesis by (simp del: takeWhile_dropWhile_id)
qed

lemma timers_ok_start:
  assumes ok: "timers_ok k" and init: "tm_init_tick (timers k tm) < 0x7fffffff"
  shows "timers_ok (snd (rt_timer_start tm k))"
proof -
  let ?k = "snd (rt_timer_start tm k)" and ?rest = "removeAll tm (rt_timer_list k)"
  let ?d = "(ticks_left k)(tm := unat (tm_init_tick (timers k tm)))"
  have list: "rt_timer_list ?k = takeWhile (\<lambda>t. ?d t \<le> ?d tm) ?rest @ tm # dropWhile (\<lambda>t. ?d t \<le> ?d tm) ?rest"
    unfolding timer_start_place [OF ok init] Let_def
    by (intro arg_cong2 [where f = "(@)"] arg_cong [where f = "(#) tm"] takeWhile_cong dropWhile_cong) auto
  have set_list: "set (rt_timer_list ?k) = insert tm (set (rt_timer_list k))"
  proof -
    have "set (takeWhile P ?rest) \<union> set (dropWhile P ?rest) = set ?rest" for P
      by (metis set_append takeWhile_dropWhile_id)
    from this [of "\<lambda>t. ?d t \<le> ?d tm"] show ?thesis unfolding list by (auto simp del: fun_upd_apply)
  qed
  have tl: "ticks_left ?k = ?d" by (simp add: fun_eq_iff ticks_left_start)
  have "sorted_wrt (\<lambda>a b. ticks_left k a \<le> ticks_left k b) ?rest"
    using ok by (simp add: timers_ok_def sorted_wrt_removeAll)
  then have "sorted_wrt (\<lambda>a b. ?d a \<le> ?d b) ?rest"
    by (rule sorted_wrt_mono_rel [rotated]) auto
  then have "sorted_wrt (\<lambda>a b. ticks_left ?k a \<le> ticks_left ?k b) (rt_timer_list ?k)"
    unfolding list tl by (rule sorted_wrt_insert_place)
  moreover have "distinct (rt_timer_list ?k)"
    unfolding list using ok by (intro distinct_insert_place) (simp_all add: timers_ok_def distinct_removeAll)
  moreover have "\<forall>t \<in> set (rt_timer_list ?k). ticks_left ?k t < 0x7fffffff \<and> timer_active ?k t"
    using ok init unfolding set_list by (auto simp: timers_ok_def ticks_left_start timer_start_fields(4) word_less_nat_alt)
  moreover have "\<forall>t. timer_active ?k t \<longrightarrow> t \<in> set (rt_timer_list ?k) \<union> set (timer_pending ?k)"
    using ok unfolding set_list by (auto simp: timers_ok_def timer_start_fields)
  ultimately show ?thesis by (simp add: timers_ok_def)
qed

lemma timers_ok_unlink:
  assumes ok: "timers_ok k"
    and "rt_timer_list k' = removeAll tm (rt_timer_list k)"
    and "timer_pending k' = removeAll tm (timer_pending k)"
    and "timers k' = timers k" and "rt_tick k' = rt_tick k"
    and "\<And>t. timer_active k' t \<longleftrightarrow> t \<noteq> tm \<and> timer_active k t"
  shows "timers_ok k'"
proof -
  have "ticks_left k' = ticks_left k" by (simp add: fun_eq_iff ticks_left_def assms)
  then show ?thesis
    using ok unfolding timers_ok_def
    by (auto simp: assms sorted_wrt_removeAll distinct_removeAll)
qed

lemma timer_stop_fields:
  assumes "timer_active k tm"
  defines "k' \<equiv> snd (rt_timer_stop tm k)"
  shows "rt_timer_list k' = removeAll tm (rt_timer_list k)"
    and "timer_pending k' = removeAll tm (timer_pending k)"
    and "timer_active k' t \<longleftrightarrow> t \<noteq> tm \<and> timer_active k t"
  using assms(1) by (auto simp: k'_def rt_timer_stop_def timer_active_def)

lemma timer_stop_inactive: "\<not> timer_active k tm \<Longrightarrow> rt_timer_stop tm k = (- RT_ERROR, k)"
  by (simp add: rt_timer_stop_def)

lemma timers_ok_stop: "timers_ok k \<Longrightarrow> timers_ok (snd (rt_timer_stop tm k))"
  by (cases "timer_active k tm")
    (auto simp: timer_stop_inactive intro: timers_ok_unlink [OF _ timer_stop_fields(1,2) _ _ timer_stop_fields(3)])

lemma timer_detach_fields:
  fixes k tm
  defines "k' \<equiv> snd (rt_timer_detach tm k)"
  shows "rt_timer_list k' = removeAll tm (rt_timer_list k)"
    and "timer_pending k' = removeAll tm (timer_pending k)"
    and "timer_active k' t \<longleftrightarrow> t \<noteq> tm \<and> timer_active k t"
  by (auto simp: k'_def rt_timer_detach_def timer_active_def Let_def timer_flag_def set_timer_flag_def)

lemma timers_ok_detach: "timers_ok k \<Longrightarrow> timers_ok (snd (rt_timer_detach tm k))"
  by (auto intro: timers_ok_unlink [OF _ timer_detach_fields(1,2) _ _ timer_detach_fields(3)])

lemma timers_ok_cong:
  "rt_timer_list k = rt_timer_list k' \<Longrightarrow> timer_pending k = timer_pending k'
   \<Longrightarrow> (\<And>tm. tm_timeout_tick (timers k tm) = tm_timeout_tick (timers k' tm))
   \<Longrightarrow> (\<And>tm. timer_active k tm = timer_active k' tm)
   \<Longrightarrow> rt_tick k = rt_tick k' \<Longrightarrow> timers_ok k = timers_ok k'"
  by (simp add: timers_ok_def ticks_left_def)

lemma timers_ok_set_time [simp]:
  "timers_ok (snd (snd (rt_timer_control tm RT_TIMER_CTRL_SET_TIME n k))) = timers_ok k"
  by (rule timers_ok_cong) (auto simp: rt_timer_control_def timer_active_def)

text \<open>The next tick, when no timer of the list is due now.\<close>

lemma timers_ok_tick:
  assumes ok: "timers_ok k" and none: "\<forall>tm \<in> set (rt_timer_list k). ticks_left k tm \<noteq> 0"
  shows "timers_ok (k\<lparr>rt_tick := rt_tick k + 1\<rparr>)"
    and "tm \<in> set (rt_timer_list k) \<Longrightarrow> ticks_left (k\<lparr>rt_tick := rt_tick k + 1\<rparr>) tm = ticks_left k tm - 1"
proof -
  let ?k = "k\<lparr>rt_tick := rt_tick k + 1\<rparr>"
  have step: "ticks_left ?k tm = ticks_left k tm - 1" if "tm \<in> set (rt_timer_list k)" for tm
  proof -
    have "ticks_left k tm \<noteq> 0" using none that by blast
    moreover have "tm_timeout_tick (timers k tm) - (rt_tick k + 1) = (tm_timeout_tick (timers k tm) - rt_tick k) - 1"
      by simp
    moreover have "tm_timeout_tick (timers k tm) - rt_tick k \<noteq> 0"
      using \<open>ticks_left k tm \<noteq> 0\<close> by (simp only: ticks_left_def unat_eq_0) simp
    then have "unat ((tm_timeout_tick (timers k tm) - rt_tick k) - 1) = ticks_left k tm - 1"
      unfolding ticks_left_def by (rule unat_minus_one)
    moreover have "ticks_left ?k tm = unat (tm_timeout_tick (timers k tm) - (rt_tick k + 1))"
      by (simp add: ticks_left_def)
    ultimately show ?thesis by (simp only:)
  qed
  then show "tm \<in> set (rt_timer_list k) \<Longrightarrow> ticks_left ?k tm = ticks_left k tm - 1" by simp
  have "sorted_wrt (\<lambda>a b. ticks_left ?k a \<le> ticks_left ?k b) (rt_timer_list k)"
    using ok by (auto simp: timers_ok_def step intro: sorted_wrt_mono_rel [rotated] dest: diff_le_mono)
  then show "timers_ok ?k"
    using ok step by (auto simp: timers_ok_def timer_active_def timer_flag_def)
qed

end
