(* ===== verification/Thread.thy ===== *)
theory Thread
  imports Timer
begin

section \<open>Threads (\<open>rt-thread/src/thread.c\<close>, \<open>rt-thread/src/idle.c\<close>)\<close>

text \<open>
  The life of a thread: initialised, started, suspended and resumed, sleeping on its own timer,
  closed and collected by the idle thread. A function that may give the CPU away ends, for the
  model, at \<open>rt_schedule\<close>: it returns at once when the caller still runs (or an interrupt handler
  called it, where the switch is only pended), otherwise the rest of its body is a definition of
  its own, named \<open>_resume\<close>, that runs when the scheduler has come back to the thread.
\<close>

datatype 'a outcome = Returned 'a kernel | Blocked kernel

primrec outcome_state :: "'a outcome \<Rightarrow> kernel" where
  "outcome_state (Returned r k) = k"
| "outcome_state (Blocked k) = k"

definition reschedule_then :: "nat \<Rightarrow> (kernel \<Rightarrow> 'a \<times> kernel) \<Rightarrow> kernel \<Rightarrow> 'a outcome" where
  "reschedule_then self rest k =
    (let k = rt_schedule k
     in if rt_interrupt_nest k \<noteq> 0 \<or> rt_current_thread k = Some self
        then (case rest k of (r, k) \<Rightarrow> Returned r k)
        else Blocked k)"

definition rt_thread_self :: "kernel \<Rightarrow> nat option" where
  "rt_thread_self k = rt_current_thread k"

subsection \<open>The list of closed threads (\<open>idle.c\<close>)\<close>

definition rt_thread_defunct_enqueue :: "nat \<Rightarrow> kernel \<Rightarrow> kernel" where
  "rt_thread_defunct_enqueue t k = tlist_insert_head DefunctQ t k"

definition rt_thread_defunct_dequeue :: "kernel \<Rightarrow> nat option \<times> kernel" where
  "rt_thread_defunct_dequeue k =
    (case tq k DefunctQ of
       [] \<Rightarrow> (None, k)
     | thread # _ \<Rightarrow> (Some thread, tlist_remove thread k))"

subsection \<open>Suspending and resuming\<close>

definition rt_thread_suspend :: "nat \<Rightarrow> kernel \<Rightarrow> rt_err_t \<times> kernel" where
  "rt_thread_suspend t k =
    (let stat = th_state (threads k t)
     in if stat \<noteq> RT_THREAD_READY \<and> stat \<noteq> RT_THREAD_RUNNING then (- RT_ERROR, k)
        else
          let k = rt_schedule_remove_thread t k;
              k = set_thread t (with_state RT_THREAD_SUSPEND) k;
              k = snd (rt_timer_stop (ThreadTimer t) k)
          in (RT_EOK, k))"

definition rt_thread_resume :: "nat \<Rightarrow> kernel \<Rightarrow> rt_err_t \<times> kernel" where
  "rt_thread_resume t k =
    (if th_state (threads k t) \<noteq> RT_THREAD_SUSPEND then (- RT_ERROR, k)
     else
       let k = tlist_remove t k;
           k = snd (rt_timer_stop (ThreadTimer t) k);
           k = rt_schedule_insert_thread t k
       in (RT_EOK, k))"

definition rt_thread_timeout :: "nat \<Rightarrow> kernel \<Rightarrow> kernel" where
  "rt_thread_timeout t k =
    (let k = set_thread t (th_error_update (\<lambda>_. - RT_ETIMEOUT)) k;
         k = tlist_remove t k;
         k = rt_schedule_insert_thread t k
     in rt_schedule k)"

subsection \<open>Initialising, starting and closing\<close>

text \<open>
  \<^verbatim>\<open>_rt_thread_init\<close>. The contents of the stack (the fill pattern and the first frame) are not
  part of the state.
\<close>

definition rt_thread_init_fields ::
  "nat \<Rightarrow> nat \<Rightarrow> nat \<Rightarrow> nat \<Rightarrow> u32 \<Rightarrow> u8 \<Rightarrow> u32 \<Rightarrow> kernel \<Rightarrow> rt_err_t \<times> kernel" where
  "rt_thread_init_fields t entry parameter stack_start stack_size priority tick k =
    (let k = set_thread t (\<lambda>th. th\<lparr>
           th_entry := entry, th_parameter := parameter,
           th_stack_addr := stack_start, th_stack_size := stack_size,
           th_init_priority := priority, th_current_priority := priority,
           th_number_mask := 0,
           th_init_tick := tick, th_remaining_tick := tick,
           th_error := RT_EOK, th_stat := RT_THREAD_INIT,
           th_cleanup := None, th_user_data := 0\<rparr>) k
     in (RT_EOK, rt_timer_init (ThreadTimer t) (obj_name (objects k (OThread t))) (Thread_timeout t)
                   0 RT_TIMER_FLAG_ONE_SHOT k))"

definition rt_thread_init ::
  "nat \<Rightarrow> string \<Rightarrow> nat \<Rightarrow> nat \<Rightarrow> nat \<Rightarrow> u32 \<Rightarrow> u8 \<Rightarrow> u32 \<Rightarrow> kernel \<Rightarrow> rt_err_t \<times> kernel" where
  "rt_thread_init t name entry parameter stack_start stack_size priority tick k =
     rt_thread_init_fields t entry parameter stack_start stack_size priority tick
       (rt_object_init (OThread t) RT_Object_Class_Thread name k)"

definition rt_thread_startup :: "nat \<Rightarrow> kernel \<Rightarrow> rt_err_t \<times> kernel" where
  "rt_thread_startup t k =
    (let k = set_thread t (\<lambda>th. th\<lparr>th_current_priority := th_init_priority th\<rparr>) k;
         k = set_thread t (\<lambda>th. th\<lparr>th_number_mask := push_bit (unat (th_current_priority th)) 1\<rparr>) k;
         k = set_thread t (th_stat_update (\<lambda>_. RT_THREAD_SUSPEND)) k;
         k = snd (rt_thread_resume t k)
     in (RT_EOK, if rt_thread_self k \<noteq> None then rt_schedule k else k))"

definition rt_thread_cleanup_execute :: "nat \<Rightarrow> kernel \<Rightarrow> kernel" where
  "rt_thread_cleanup_execute t k =
    (case th_cleanup (threads k t) of
       None \<Rightarrow> k
     | Some f \<Rightarrow> k\<lparr>kernel_calls := Call_cleanup f t # kernel_calls k\<rparr>)"

definition rt_thread_exit :: "kernel \<Rightarrow> kernel" where
  "rt_thread_exit k =
    (let t = the (rt_thread_self k);
         k = rt_thread_cleanup_execute t k;
         k = rt_schedule_remove_thread t k;
         k = set_thread t (th_stat_update (\<lambda>_. RT_THREAD_CLOSE)) k;
         k = snd (rt_timer_detach (ThreadTimer t) k);
         k = (if rt_object_is_systemobject (OThread t) k
              then rt_object_detach (OThread t) k
              else rt_thread_defunct_enqueue t k)
     in rt_schedule k)"

definition rt_thread_detach :: "nat \<Rightarrow> kernel \<Rightarrow> rt_err_t \<times> kernel" where
  "rt_thread_detach t k =
    (if th_state (threads k t) = RT_THREAD_CLOSE then (RT_EOK, k)
     else
       let k = (if th_state (threads k t) \<noteq> RT_THREAD_INIT then rt_schedule_remove_thread t k else k);
           k = rt_thread_cleanup_execute t k;
           k = snd (rt_timer_detach (ThreadTimer t) k);
           k = set_thread t (th_stat_update (\<lambda>_. RT_THREAD_CLOSE)) k;
           k = (if rt_object_is_systemobject (OThread t) k
                then rt_object_detach (OThread t) k
                else rt_thread_defunct_enqueue t k)
       in (RT_EOK, k))"

text \<open>Of \<open>rt_thread_create\<close> the first two arguments are the results of its two allocations.\<close>

definition rt_thread_create ::
  "nat option \<Rightarrow> nat option \<Rightarrow> string \<Rightarrow> nat \<Rightarrow> nat \<Rightarrow> u32 \<Rightarrow> u8 \<Rightarrow> u32 \<Rightarrow> kernel
   \<Rightarrow> nat option \<times> kernel" where
  "rt_thread_create obj_mem stack_mem name entry parameter stack_size priority tick k =
    (case obj_mem of
       None \<Rightarrow> (None, snd (rt_object_allocate None RT_Object_Class_Thread name k))
     | Some t \<Rightarrow>
        let k = snd (rt_object_allocate (Some (OThread t)) RT_Object_Class_Thread name k);
            k = set_thread t (\<lambda>_. zero_thread) k
        in (case stack_mem of
              None \<Rightarrow> (None, rt_object_delete (OThread t) k)
            | Some stack_start \<Rightarrow>
               (Some t, snd (rt_thread_init_fields t entry parameter stack_start stack_size priority tick k))))"

definition rt_thread_delete :: "nat \<Rightarrow> kernel \<Rightarrow> rt_err_t \<times> kernel" where
  "rt_thread_delete t k =
    (if th_state (threads k t) = RT_THREAD_CLOSE then (RT_EOK, k)
     else
       let k = (if th_state (threads k t) \<noteq> RT_THREAD_INIT then rt_schedule_remove_thread t k else k);
           k = rt_thread_cleanup_execute t k;
           k = snd (rt_timer_detach (ThreadTimer t) k);
           k = set_thread t (th_stat_update (\<lambda>_. RT_THREAD_CLOSE)) k
       in (RT_EOK, rt_thread_defunct_enqueue t k))"

subsection \<open>Yielding and sleeping\<close>

definition rt_thread_yield :: "kernel \<Rightarrow> rt_err_t \<times> kernel" where
  "rt_thread_yield k =
    (let t = the (rt_thread_self k);
         k = set_thread t (\<lambda>th. th\<lparr>th_remaining_tick := th_init_tick th\<rparr>) k;
         k = set_thread t (\<lambda>th. th\<lparr>th_stat := th_stat th OR RT_THREAD_STAT_YIELD\<rparr>) k
     in (RT_EOK, rt_schedule k))"

definition clear_timeout_error :: "nat \<Rightarrow> kernel \<Rightarrow> kernel" where
  "clear_timeout_error t k =
    (if th_error (threads k t) = - RT_ETIMEOUT
     then set_thread t (th_error_update (\<lambda>_. RT_EOK)) k else k)"

definition rt_thread_sleep_resume :: "nat \<Rightarrow> kernel \<Rightarrow> rt_err_t \<times> kernel" where
  "rt_thread_sleep_resume t k = (RT_EOK, clear_timeout_error t k)"

definition arm_thread_timer :: "nat \<Rightarrow> u32 \<Rightarrow> kernel \<Rightarrow> kernel" where
  "arm_thread_timer t tick k =
    snd (rt_timer_start (ThreadTimer t)
      (snd (snd (rt_timer_control (ThreadTimer t) RT_TIMER_CTRL_SET_TIME tick k))))"

definition rt_thread_sleep :: "u32 \<Rightarrow> kernel \<Rightarrow> rt_err_t outcome" where
  "rt_thread_sleep tick k =
    (let t = the (rt_thread_self k);
         k = snd (rt_thread_suspend t k);
         k = arm_thread_timer t tick k
     in reschedule_then t (rt_thread_sleep_resume t) k)"

definition rt_thread_delay :: "u32 \<Rightarrow> kernel \<Rightarrow> rt_err_t outcome" where
  "rt_thread_delay tick k = rt_thread_sleep tick k"

text \<open>\<open>rt_thread_delay_until\<close> returns the new value of the tick it was given by reference.\<close>

definition rt_thread_delay_until :: "u32 \<Rightarrow> u32 \<Rightarrow> kernel \<Rightarrow> (rt_err_t \<times> u32) outcome" where
  "rt_thread_delay_until tick inc_tick k =
    (let t = the (rt_thread_self k);
         cur_tick = rt_tick k
     in if cur_tick - tick < inc_tick then
          let tick = tick + inc_tick;
              left_tick = tick - cur_tick;
              k = snd (rt_thread_suspend t k);
              k = arm_thread_timer t left_tick k
          in reschedule_then t (\<lambda>k. ((RT_EOK, tick), clear_timeout_error t k)) k
        else Returned (RT_EOK, cur_tick) k)"

subsection \<open>Control\<close>

definition rt_thread_change_priority :: "nat \<Rightarrow> u8 \<Rightarrow> kernel \<Rightarrow> kernel" where
  "rt_thread_change_priority t arg k =
    (let write = set_thread t (\<lambda>th. th\<lparr>th_current_priority := arg,
                                       th_number_mask := push_bit (unat arg) 1\<rparr>)
     in if th_state (threads k t) = RT_THREAD_READY
        then rt_schedule_insert_thread t (write (rt_schedule_remove_thread t k))
        else write k)"

datatype thread_cmd = RT_THREAD_CTRL_STARTUP | RT_THREAD_CTRL_CLOSE
  | RT_THREAD_CTRL_CHANGE_PRIORITY u8 | Other_thread_cmd

definition rt_thread_control :: "nat \<Rightarrow> thread_cmd \<Rightarrow> kernel \<Rightarrow> rt_err_t \<times> kernel" where
  "rt_thread_control t cmd k =
    (case cmd of
       RT_THREAD_CTRL_CHANGE_PRIORITY arg \<Rightarrow> (RT_EOK, rt_thread_change_priority t arg k)
     | RT_THREAD_CTRL_STARTUP \<Rightarrow> rt_thread_startup t k
     | RT_THREAD_CTRL_CLOSE \<Rightarrow>
        let (rt_err, k) = (if rt_object_is_systemobject (OThread t) k
                           then rt_thread_detach t k else rt_thread_delete t k)
        in (rt_err, rt_schedule k)
     | Other_thread_cmd \<Rightarrow> (RT_EOK, k))"

definition rt_thread_find :: "string \<Rightarrow> kernel \<Rightarrow> objref option \<times> kernel" where
  "rt_thread_find name k = rt_object_find name RT_Object_Class_Thread k"

subsection \<open>Fields the thread operations leave alone\<close>

lemma defunct_enqueue_frame [simp]:
  "threads (rt_thread_defunct_enqueue t k) = threads k"
  "rt_thread_ready_priority_group (rt_thread_defunct_enqueue t k) = rt_thread_ready_priority_group k"
  "rt_scheduler_lock_nest (rt_thread_defunct_enqueue t k) = rt_scheduler_lock_nest k"
  "rt_current_thread (rt_thread_defunct_enqueue t k) = rt_current_thread k"
  "rt_current_priority (rt_thread_defunct_enqueue t k) = rt_current_priority k"
  "rt_interrupt_nest (rt_thread_defunct_enqueue t k) = rt_interrupt_nest k"
  "rt_tick (rt_thread_defunct_enqueue t k) = rt_tick k"
  "timers (rt_thread_defunct_enqueue t k) = timers k"
  "rt_timer_list (rt_thread_defunct_enqueue t k) = rt_timer_list k"
  "timer_pending (rt_thread_defunct_enqueue t k) = timer_pending k"
  "random_nr (rt_thread_defunct_enqueue t k) = random_nr k"
  "objects (rt_thread_defunct_enqueue t k) = objects k"
  "object_list (rt_thread_defunct_enqueue t k) = object_list k"
  "semaphores (rt_thread_defunct_enqueue t k) = semaphores k"
  "mutexes (rt_thread_defunct_enqueue t k) = mutexes k"
  "events (rt_thread_defunct_enqueue t k) = events k"
  "mailboxes (rt_thread_defunct_enqueue t k) = mailboxes k"
  "messagequeues (rt_thread_defunct_enqueue t k) = messagequeues k"
  "kernel_calls (rt_thread_defunct_enqueue t k) = kernel_calls k"
  by (simp_all add: rt_thread_defunct_enqueue_def Let_def split: option.split)

lemma thread_suspend_frame [simp]:
  "rt_scheduler_lock_nest (snd (rt_thread_suspend t k)) = rt_scheduler_lock_nest k"
  "rt_current_thread (snd (rt_thread_suspend t k)) = rt_current_thread k"
  "rt_current_priority (snd (rt_thread_suspend t k)) = rt_current_priority k"
  "rt_interrupt_nest (snd (rt_thread_suspend t k)) = rt_interrupt_nest k"
  "rt_tick (snd (rt_thread_suspend t k)) = rt_tick k"
  "timers (snd (rt_thread_suspend t k)) = timers k"
  "random_nr (snd (rt_thread_suspend t k)) = random_nr k"
  "object_list (snd (rt_thread_suspend t k)) = object_list k"
  "semaphores (snd (rt_thread_suspend t k)) = semaphores k"
  "mutexes (snd (rt_thread_suspend t k)) = mutexes k"
  "events (snd (rt_thread_suspend t k)) = events k"
  "mailboxes (snd (rt_thread_suspend t k)) = mailboxes k"
  "messagequeues (snd (rt_thread_suspend t k)) = messagequeues k"
  "kernel_calls (snd (rt_thread_suspend t k)) = kernel_calls k"
  by (simp_all add: rt_thread_suspend_def Let_def split: option.split)

lemma thread_resume_frame [simp]:
  "rt_scheduler_lock_nest (snd (rt_thread_resume t k)) = rt_scheduler_lock_nest k"
  "rt_current_thread (snd (rt_thread_resume t k)) = rt_current_thread k"
  "rt_current_priority (snd (rt_thread_resume t k)) = rt_current_priority k"
  "rt_interrupt_nest (snd (rt_thread_resume t k)) = rt_interrupt_nest k"
  "rt_tick (snd (rt_thread_resume t k)) = rt_tick k"
  "timers (snd (rt_thread_resume t k)) = timers k"
  "random_nr (snd (rt_thread_resume t k)) = random_nr k"
  "object_list (snd (rt_thread_resume t k)) = object_list k"
  "semaphores (snd (rt_thread_resume t k)) = semaphores k"
  "mutexes (snd (rt_thread_resume t k)) = mutexes k"
  "events (snd (rt_thread_resume t k)) = events k"
  "mailboxes (snd (rt_thread_resume t k)) = mailboxes k"
  "messagequeues (snd (rt_thread_resume t k)) = messagequeues k"
  "kernel_calls (snd (rt_thread_resume t k)) = kernel_calls k"
  by (simp_all add: rt_thread_resume_def Let_def split: option.split)

lemma cleanup_execute_frame [simp]:
  "threads (rt_thread_cleanup_execute t k) = threads k"
  "tq (rt_thread_cleanup_execute t k) = tq k"
  "rt_thread_ready_priority_group (rt_thread_cleanup_execute t k) = rt_thread_ready_priority_group k"
  "rt_scheduler_lock_nest (rt_thread_cleanup_execute t k) = rt_scheduler_lock_nest k"
  "rt_current_thread (rt_thread_cleanup_execute t k) = rt_current_thread k"
  "rt_current_priority (rt_thread_cleanup_execute t k) = rt_current_priority k"
  "rt_interrupt_nest (rt_thread_cleanup_execute t k) = rt_interrupt_nest k"
  "rt_tick (rt_thread_cleanup_execute t k) = rt_tick k"
  "timers (rt_thread_cleanup_execute t k) = timers k"
  "rt_timer_list (rt_thread_cleanup_execute t k) = rt_timer_list k"
  "timer_pending (rt_thread_cleanup_execute t k) = timer_pending k"
  "random_nr (rt_thread_cleanup_execute t k) = random_nr k"
  "objects (rt_thread_cleanup_execute t k) = objects k"
  "object_list (rt_thread_cleanup_execute t k) = object_list k"
  "semaphores (rt_thread_cleanup_execute t k) = semaphores k"
  "mutexes (rt_thread_cleanup_execute t k) = mutexes k"
  "events (rt_thread_cleanup_execute t k) = events k"
  "mailboxes (rt_thread_cleanup_execute t k) = mailboxes k"
  "messagequeues (rt_thread_cleanup_execute t k) = messagequeues k"
  by (simp_all add: rt_thread_cleanup_execute_def Let_def split: option.split)

lemma arm_thread_timer_frame [simp]:
  "threads (arm_thread_timer t n k) = threads k"
  "tq (arm_thread_timer t n k) = tq k"
  "rt_thread_ready_priority_group (arm_thread_timer t n k) = rt_thread_ready_priority_group k"
  "rt_scheduler_lock_nest (arm_thread_timer t n k) = rt_scheduler_lock_nest k"
  "rt_current_thread (arm_thread_timer t n k) = rt_current_thread k"
  "rt_current_priority (arm_thread_timer t n k) = rt_current_priority k"
  "rt_interrupt_nest (arm_thread_timer t n k) = rt_interrupt_nest k"
  "rt_tick (arm_thread_timer t n k) = rt_tick k"
  "object_list (arm_thread_timer t n k) = object_list k"
  "semaphores (arm_thread_timer t n k) = semaphores k"
  "mutexes (arm_thread_timer t n k) = mutexes k"
  "events (arm_thread_timer t n k) = events k"
  "mailboxes (arm_thread_timer t n k) = mailboxes k"
  "messagequeues (arm_thread_timer t n k) = messagequeues k"
  "kernel_calls (arm_thread_timer t n k) = kernel_calls k"
  by (simp_all add: arm_thread_timer_def Let_def split: option.split)

lemma thread_timeout_frame [simp]:
  "rt_scheduler_lock_nest (rt_thread_timeout t k) = rt_scheduler_lock_nest k"
  "rt_interrupt_nest (rt_thread_timeout t k) = rt_interrupt_nest k"
  "rt_tick (rt_thread_timeout t k) = rt_tick k"
  "timers (rt_thread_timeout t k) = timers k"
  "rt_timer_list (rt_thread_timeout t k) = rt_timer_list k"
  "timer_pending (rt_thread_timeout t k) = timer_pending k"
  "random_nr (rt_thread_timeout t k) = random_nr k"
  "objects (rt_thread_timeout t k) = objects k"
  "object_list (rt_thread_timeout t k) = object_list k"
  "semaphores (rt_thread_timeout t k) = semaphores k"
  "mutexes (rt_thread_timeout t k) = mutexes k"
  "events (rt_thread_timeout t k) = events k"
  "mailboxes (rt_thread_timeout t k) = mailboxes k"
  "messagequeues (rt_thread_timeout t k) = messagequeues k"
  "kernel_calls (rt_thread_timeout t k) = kernel_calls k"
  by (simp_all add: rt_thread_timeout_def Let_def split: option.split)

lemma clear_timeout_error_frame [simp]:
  "tq (clear_timeout_error t k) = tq k"
  "rt_thread_ready_priority_group (clear_timeout_error t k) = rt_thread_ready_priority_group k"
  "rt_scheduler_lock_nest (clear_timeout_error t k) = rt_scheduler_lock_nest k"
  "rt_current_thread (clear_timeout_error t k) = rt_current_thread k"
  "rt_current_priority (clear_timeout_error t k) = rt_current_priority k"
  "rt_interrupt_nest (clear_timeout_error t k) = rt_interrupt_nest k"
  "rt_tick (clear_timeout_error t k) = rt_tick k"
  "timers (clear_timeout_error t k) = timers k"
  "rt_timer_list (clear_timeout_error t k) = rt_timer_list k"
  "timer_pending (clear_timeout_error t k) = timer_pending k"
  "random_nr (clear_timeout_error t k) = random_nr k"
  "objects (clear_timeout_error t k) = objects k"
  "object_list (clear_timeout_error t k) = object_list k"
  "semaphores (clear_timeout_error t k) = semaphores k"
  "mutexes (clear_timeout_error t k) = mutexes k"
  "events (clear_timeout_error t k) = events k"
  "mailboxes (clear_timeout_error t k) = mailboxes k"
  "messagequeues (clear_timeout_error t k) = messagequeues k"
  "kernel_calls (clear_timeout_error t k) = kernel_calls k"
  by (simp_all add: clear_timeout_error_def Let_def split: option.split)

subsection \<open>The invariant is kept\<close>

lemma kinv_move:
  assumes "kinv_but {} k" "\<And>c. rt_current_thread k = Some c \<Longrightarrow> th_state (threads k c) \<noteq> RT_THREAD_READY"
  shows "kinv k"
  using assms by (simp add: kinv_def)

lemma kinv_current_not_ready:
  "kinv k \<Longrightarrow> rt_current_thread k = Some c \<Longrightarrow> th_state (threads k c) \<noteq> RT_THREAD_READY"
  by (simp add: kinv_def)

lemma kinv_settle:
  assumes "kinv_but {t} k" "th_state (threads k t) \<noteq> RT_THREAD_READY"
    "th_state (threads k t) = RT_THREAD_RUNNING \<longrightarrow> rt_current_thread k = Some t"
    "is_active (threads k t) \<longrightarrow> prio_ok (threads k t)"
  shows "kinv_but {} k"
  using kinv_but_release [of t "{}" k] assms by (simp add: thread_ok_def)

lemma kinv_set_stat_out:
  assumes inv: "kinv_but {t} k"
    and st: "th_state (f (threads k t)) \<noteq> RT_THREAD_READY" "th_state (f (threads k t)) \<noteq> RT_THREAD_RUNNING"
    and pr: "is_active (f (threads k t)) \<longrightarrow> prio_ok (f (threads k t))"
  shows "kinv_but {} (set_thread t f k)"
  using assms by (intro kinv_settle) auto

lemma kinv_thread_suspend:
  assumes inv: "kinv k" shows "kinv (snd (rt_thread_suspend t k))"
proof (cases "th_state (threads k t) = RT_THREAD_READY \<or> th_state (threads k t) = RT_THREAD_RUNNING")
  case True
  have ib: "kinv_but {} k" using inv by blast
  have prio: "prio_ok (threads k t)"
    using True active_prio [OF ib, of t] by (auto simp: is_active_def)
  let ?k = "set_thread t (with_state RT_THREAD_SUSPEND) (rt_schedule_remove_thread t k)"
  have "kinv_but {} ?k"
    using kinv_remove_thread [OF ib prio] prio by (intro kinv_set_stat_out) (simp_all add: prio_ok_def)
  moreover have "rt_current_thread ?k = Some c \<Longrightarrow> th_state (threads ?k c) \<noteq> RT_THREAD_READY" for c
    using kinv_current_not_ready [OF inv] by simp
  ultimately have "kinv ?k" by (rule kinv_move)
  then show ?thesis using True by (auto simp: rt_thread_suspend_def Let_def)
qed (use inv in \<open>simp add: rt_thread_suspend_def Let_def\<close>)

lemma kinv_tlist_insert_ready:
  assumes inv: "kinv_but {} k" and st: "th_state (threads k t) \<noteq> RT_THREAD_READY"
    and prio: "prio_ok (threads k t)"
    and cur: "\<And>c. rt_current_thread k = Some c \<Longrightarrow> th_state (threads k c) \<noteq> RT_THREAD_READY"
    and same: "kinv_but {t} k' \<longleftrightarrow> kinv_but {t} (tlist_remove t k)"
      "threads k' = threads k" "rt_current_thread k' = rt_current_thread k"
  shows "kinv (rt_schedule_insert_thread t k')"
proof (rule kinv_move)
  have "kinv_but {t} k'" using kinv_tlist_remove [OF inv st] same by simp
  then show "kinv_but {} (rt_schedule_insert_thread t k')"
    using prio same by (intro kinv_insert_thread) simp_all
next
  fix c assume "rt_current_thread (rt_schedule_insert_thread t k') = Some c"
  then have "rt_current_thread k = Some c" by (simp add: same)
  then show "th_state (threads (rt_schedule_insert_thread t k') c) \<noteq> RT_THREAD_READY"
    using cur by (auto simp: threads_insert_thread same)
qed

lemma kinv_thread_resume:
  assumes inv: "kinv k" shows "kinv (snd (rt_thread_resume t k))"
proof (cases "th_state (threads k t) = RT_THREAD_SUSPEND")
  case True
  have ib: "kinv_but {} k" using inv by blast
  have "prio_ok (threads k t)" using True active_prio [OF ib, of t] by (auto simp: is_active_def)
  then have "kinv (rt_schedule_insert_thread t (snd (rt_timer_stop (ThreadTimer t) (tlist_remove t k))))"
    using True kinv_current_not_ready [OF inv] by (intro kinv_tlist_insert_ready [OF ib]) auto
  then show ?thesis using True by (simp add: rt_thread_resume_def Let_def)
qed (use inv in \<open>simp add: rt_thread_resume_def\<close>)

lemma kinv_thread_timeout:
  assumes inv: "kinv k" and st: "th_state (threads k t) = RT_THREAD_SUSPEND"
  shows "kinv (rt_thread_timeout t k)"
proof -
  let ?k = "set_thread t (th_error_update (\<lambda>_. - RT_ETIMEOUT)) k"
  have k: "kinv ?k" using inv by (simp add: kinv_set_other)
  have ib: "kinv_but {} ?k" using k by blast
  have "prio_ok (threads ?k t)" using st active_prio [OF ib, of t] by (auto simp: is_active_def)
  then have "kinv (rt_schedule_insert_thread t (tlist_remove t ?k))"
    using st kinv_current_not_ready [OF k] by (intro kinv_tlist_insert_ready [OF ib]) auto
  then show ?thesis by (simp add: rt_thread_timeout_def Let_def kinv_rt_schedule)
qed

lemma idle_no_queue:
  assumes "kinv_but X k" "th_state (threads k t) = RT_THREAD_INIT"
  shows "t \<notin> set (tq k q)"
  using kinv_fits [OF assms(1), of t q] assms(2) by (cases q) auto

lemma kinv_thread_init_fields:
  assumes inv: "kinv k" and out: "\<And>q. t \<notin> set (tq k q)"
  shows "kinv (snd (rt_thread_init_fields t entry par stk sz prio tick k))"
proof -
  let ?f = "\<lambda>th. th\<lparr>th_entry := entry, th_parameter := par, th_stack_addr := stk, th_stack_size := sz,
     th_init_priority := prio, th_current_priority := prio, th_number_mask := 0, th_init_tick := tick,
     th_remaining_tick := tick, th_error := RT_EOK, th_stat := RT_THREAD_INIT, th_cleanup := None,
     th_user_data := 0\<rparr>"
  have st: "th_state (?f th) = RT_THREAD_INIT" for th by (simp add: th_state_def stat_defs)
  have "kinv_but {t} k" using inv out by (auto intro: kinv_but_insert)
  then have "kinv_but {} (set_thread t ?f k)"
    by (rule kinv_set_stat_out) (simp_all add: st is_active_def)
  then have "kinv (set_thread t ?f k)"
    using kinv_current_not_ready [OF inv] by (auto simp: st split: if_splits intro!: kinv_move)
  then show ?thesis
    by (simp add: rt_thread_init_fields_def Let_def rt_timer_init_def kinv_object_init)
qed

lemma kinv_thread_startup:
  assumes inv: "kinv k" and st: "th_state (threads k t) = RT_THREAD_INIT"
    and prio: "unat (th_init_priority (threads k t)) < RT_THREAD_PRIORITY_MAX"
  shows "kinv (snd (rt_thread_startup t k))"
proof -
  let ?k = "set_thread t (th_stat_update (\<lambda>_. RT_THREAD_SUSPEND))
     (set_thread t (\<lambda>th. th\<lparr>th_number_mask := push_bit (unat (th_current_priority th)) 1\<rparr>)
       (set_thread t (\<lambda>th. th\<lparr>th_current_priority := th_init_priority th\<rparr>) k))"
  have th: "threads ?k t = (threads k t)\<lparr>th_current_priority := th_init_priority (threads k t),
      th_number_mask := push_bit (unat (th_init_priority (threads k t))) 1, th_stat := RT_THREAD_SUSPEND\<rparr>"
    by simp
  have "kinv_but {t} k"
    using inv idle_no_queue [OF _ st] by (blast intro: kinv_but_insert)
  then have "kinv_but {t} ?k" by simp
  then have "kinv_but {} ?k"
    by (rule kinv_settle) (use prio in \<open>simp_all add: th prio_ok_def\<close>)
  then have "kinv ?k"
    using kinv_current_not_ready [OF inv] by (auto split: if_splits intro!: kinv_move)
  then have "kinv (snd (rt_thread_resume t ?k))" by (rule kinv_thread_resume)
  then show ?thesis by (simp add: rt_thread_startup_def Let_def kinv_rt_schedule)
qed

text \<open>Closing: out of the list, the state, and into the list of closed threads.\<close>

lemma kinv_close:
  assumes inv: "kinv_but {t} k" and cur: "\<And>c. rt_current_thread k = Some c \<Longrightarrow> c \<noteq> t \<Longrightarrow>
      th_state (threads k c) \<noteq> RT_THREAD_READY"
    and st: "th_state (threads k t) = RT_THREAD_CLOSE"
  shows "kinv k" "kinv (rt_thread_defunct_enqueue t k)"
proof -
  have na: "\<not> is_active (threads k t)" using st by (simp add: is_active_def)
  then show "kinv k"
    using inv cur st by (intro kinv_move kinv_settle [of t]) (auto, metis th_state_distinct(7))
  have "kinv_but {} (rt_thread_defunct_enqueue t k)"
    by (rule kinv_wait_insert [of t "{}" k DefunctQ _ "[]" "tq k DefunctQ"])
      (use inv st na in \<open>simp_all add: rt_thread_defunct_enqueue_def\<close>)
  then show "kinv (rt_thread_defunct_enqueue t k)"
    using cur st by (intro kinv_move) (auto simp: rt_thread_defunct_enqueue_def, metis th_state_distinct(7))
qed

lemma kinv_cleanup_execute [simp]:
  "kinv (rt_thread_cleanup_execute t k) = kinv k"
  "kinv_but X (rt_thread_cleanup_execute t k) = kinv_but X k"
  by (rule kinv_cong kinv_but_cong; simp)+

lemma kinv_object_detach_but [simp]: "kinv_but X (rt_object_detach ob k) = kinv_but X k"
  by (rule kinv_but_cong) simp_all

lemma kinv_take_out:
  assumes inv: "kinv k" and st: "th_state (threads k t) \<noteq> RT_THREAD_CLOSE"
    and known: "is_active (threads k t) \<or> th_state (threads k t) = RT_THREAD_INIT"
  shows "kinv_but {t} (if th_state (threads k t) \<noteq> RT_THREAD_INIT then rt_schedule_remove_thread t k else k)"
proof (cases "th_state (threads k t) = RT_THREAD_INIT")
  case True
  then show ?thesis using inv idle_no_queue [of "{}" k t] by (auto intro: kinv_but_insert)
next
  case False
  then have "prio_ok (threads k t)" using known active_prio [of "{}" k t] inv by auto
  with False show ?thesis using kinv_remove_thread [of "{}" k t] inv by auto
qed

lemma kinv_thread_delete:
  assumes inv: "kinv k"
    and known: "is_active (threads k t) \<or> th_state (threads k t) = RT_THREAD_INIT
                \<or> th_state (threads k t) = RT_THREAD_CLOSE"
  shows "kinv (snd (rt_thread_delete t k))"
proof (cases "th_state (threads k t) = RT_THREAD_CLOSE")
  case False
  let ?k = "if th_state (threads k t) \<noteq> RT_THREAD_INIT then rt_schedule_remove_thread t k else k"
  let ?k1 = "set_thread t (th_stat_update (\<lambda>_. RT_THREAD_CLOSE))
     (snd (rt_timer_detach (ThreadTimer t) (rt_thread_cleanup_execute t ?k)))"
  have "kinv_but {t} ?k1" using kinv_take_out [OF inv False] known False by simp
  moreover have "rt_current_thread ?k1 = Some c \<Longrightarrow> c \<noteq> t \<Longrightarrow> th_state (threads ?k1 c) \<noteq> RT_THREAD_READY" for c
    using kinv_current_not_ready [OF inv] by (auto split: if_splits)
  moreover have "th_state (threads ?k1 t) = RT_THREAD_CLOSE" by simp
  ultimately have "kinv (rt_thread_defunct_enqueue t ?k1)"
    by (rule kinv_close(2))
  then show ?thesis using False by (simp add: rt_thread_delete_def Let_def)
qed (use inv in \<open>simp add: rt_thread_delete_def\<close>)

lemma kinv_thread_detach:
  assumes inv: "kinv k"
    and known: "is_active (threads k t) \<or> th_state (threads k t) = RT_THREAD_INIT
                \<or> th_state (threads k t) = RT_THREAD_CLOSE"
  shows "kinv (snd (rt_thread_detach t k))"
proof (cases "th_state (threads k t) = RT_THREAD_CLOSE")
  case False
  let ?k = "if th_state (threads k t) \<noteq> RT_THREAD_INIT then rt_schedule_remove_thread t k else k"
  let ?k1 = "set_thread t (th_stat_update (\<lambda>_. RT_THREAD_CLOSE))
     (snd (rt_timer_detach (ThreadTimer t) (rt_thread_cleanup_execute t ?k)))"
  have inv1: "kinv_but {t} ?k1" using kinv_take_out [OF inv False] known False by simp
  have cur1: "rt_current_thread ?k1 = Some c \<Longrightarrow> c \<noteq> t \<Longrightarrow> th_state (threads ?k1 c) \<noteq> RT_THREAD_READY" for c
    using kinv_current_not_ready [OF inv] by (auto split: if_splits)
  have st1: "th_state (threads ?k1 t) = RT_THREAD_CLOSE" by simp
  note cl = kinv_close [OF inv1 cur1 st1]
  show ?thesis using False cl by (simp add: rt_thread_detach_def Let_def)
qed (use inv in \<open>simp add: rt_thread_detach_def\<close>)

lemma kinv_thread_exit:
  assumes inv: "kinv k" and cur: "rt_current_thread k = Some t" and act: "is_active (threads k t)"
  shows "kinv (rt_thread_exit k)"
proof -
  have ib: "kinv_but {} k" using inv by blast
  let ?k1 = "snd (rt_timer_detach (ThreadTimer t) (set_thread t (th_stat_update (\<lambda>_. RT_THREAD_CLOSE))
     (rt_schedule_remove_thread t (rt_thread_cleanup_execute t k))))"
  have "kinv_but {t} (rt_schedule_remove_thread t (rt_thread_cleanup_execute t k))"
    using ib active_prio [OF ib _ act] by (intro kinv_remove_thread) simp_all
  then have inv1: "kinv_but {t} ?k1" by simp
  have cur1: "rt_current_thread ?k1 = Some c \<Longrightarrow> c \<noteq> t \<Longrightarrow> th_state (threads ?k1 c) \<noteq> RT_THREAD_READY" for c
    using cur by simp
  have st1: "th_state (threads ?k1 t) = RT_THREAD_CLOSE" by simp
  note cl = kinv_close [OF inv1 cur1 st1]
  show ?thesis
    using cl by (simp add: rt_thread_exit_def Let_def rt_thread_self_def cur kinv_rt_schedule)
qed

lemma kinv_change_priority:
  assumes inv: "kinv k" and p: "unat arg < RT_THREAD_PRIORITY_MAX"
  shows "kinv (rt_thread_change_priority t arg k)"
proof -
  have ib: "kinv_but {} k" using inv by blast
  let ?w = "set_thread t (\<lambda>th. th\<lparr>th_current_priority := arg, th_number_mask := push_bit (unat arg) 1\<rparr>)"
  show ?thesis
  proof (cases "th_state (threads k t) = RT_THREAD_READY")
    case True
    then have "prio_ok (threads k t)" using active_prio [OF ib] by (simp add: is_active_def)
    from kinv_remove_thread [OF ib this]
    have "kinv_but {} (rt_schedule_insert_thread t (?w (rt_schedule_remove_thread t k)))"
      using p by (intro kinv_insert_thread) (simp_all add: prio_ok_def)
    moreover have "rt_current_thread k \<noteq> Some t" using True inv by (auto simp: kinv_def)
    ultimately show ?thesis
      using True kinv_current_not_ready [OF inv]
      by (auto simp: rt_thread_change_priority_def Let_def threads_insert_thread intro!: kinv_move)
  next
    case False
    have fits: "queue_fits q (threads (?w k) s)" if "s \<in> set (tq k q)" for q s
      using kinv_fits [OF ib that] False by (cases "s = t"; cases q) auto
    have "thread_ok (?w k) s" for s
    proof (cases "s = t")
      case True
      then show ?thesis
        using kinv_thread [OF ib, of t] False p by (simp add: thread_ok_def is_active_def prio_ok_def)
    next
      case ne: False
      then show ?thesis using kinv_thread [OF ib, of s] thread_ok_cong [of "?w k" s k] by simp
    qed
    then have "kinv_but {} (?w k)"
      using ib fits unfolding kinv_but_def by simp
    then show ?thesis
      using False kinv_current_not_ready [OF inv]
      by (auto simp: rt_thread_change_priority_def Let_def split: if_splits intro!: kinv_move)
  qed
qed

lemma kinv_thread_yield: "kinv k \<Longrightarrow> kinv (snd (rt_thread_yield k))"
  by (simp add: rt_thread_yield_def Let_def kinv_rt_schedule kinv_set_other)

lemma kinv_arm_thread_timer [simp]:
  "kinv (arm_thread_timer t n k) = kinv k" "kinv_but X (arm_thread_timer t n k) = kinv_but X k"
  by (simp_all add: arm_thread_timer_def)

lemma kinv_clear_timeout_error: "kinv (clear_timeout_error t k) = kinv k"
  by (simp add: clear_timeout_error_def kinv_set_other)

lemma kinv_reschedule_then:
  assumes "kinv k" "\<And>k. kinv k \<Longrightarrow> kinv (snd (rest k))"
  shows "kinv (outcome_state (reschedule_then t rest k))"
  using assms kinv_rt_schedule [of k]
  by (cases "rest (rt_schedule k)") (auto simp: reschedule_then_def Let_def dest: assms(2) [of "rt_schedule k"])

lemma kinv_thread_sleep: "kinv k \<Longrightarrow> kinv (outcome_state (rt_thread_sleep n k))"
  by (auto simp: rt_thread_sleep_def Let_def rt_thread_sleep_resume_def kinv_clear_timeout_error
      intro!: kinv_reschedule_then kinv_thread_suspend)

lemma kinv_thread_delay_until: "kinv k \<Longrightarrow> kinv (outcome_state (rt_thread_delay_until tick n k))"
  by (auto simp: rt_thread_delay_until_def Let_def kinv_clear_timeout_error
      intro!: kinv_reschedule_then kinv_thread_suspend)

end
