(* ===== verification/Clock.thy ===== *)
theory Clock
  imports Thread
begin

section \<open>Ticks, expiry and the idle thread (\<open>clock.c\<close>, \<open>timer.c\<close>, \<open>irq.c\<close>, \<open>idle.c\<close>)\<close>

text \<open>
  The tick interrupt: it counts the time slice of the running thread and expires timers. The
  timeout functions of the application are the parameter \<open>user\<close>: function, argument, state. The
  loop of \<^verbatim>\<open>rt_timer_check\<close> may run for ever (a periodic timer of zero ticks), so it is a partial
  function.
\<close>

definition RT_TICK_PER_SECOND :: int where "RT_TICK_PER_SECOND = 1000"

definition rt_interrupt_enter :: "kernel \<Rightarrow> kernel" where
  "rt_interrupt_enter k = k\<lparr>rt_interrupt_nest := rt_interrupt_nest k + 1\<rparr>"

definition rt_interrupt_leave :: "kernel \<Rightarrow> kernel" where
  "rt_interrupt_leave k = k\<lparr>rt_interrupt_nest := rt_interrupt_nest k - 1\<rparr>"

definition rt_interrupt_get_nest :: "kernel \<Rightarrow> u8" where
  "rt_interrupt_get_nest k = rt_interrupt_nest k"

definition rt_tick_get :: "kernel \<Rightarrow> u32" where
  "rt_tick_get k = rt_tick k"

definition rt_tick_set :: "u32 \<Rightarrow> kernel \<Rightarrow> kernel" where
  "rt_tick_set tick k = k\<lparr>rt_tick := tick\<rparr>"

definition RT_WAITING_FOREVER :: "32 word" where "RT_WAITING_FOREVER = -1"

definition rt_tick_from_millisecond :: "32 word \<Rightarrow> u32" where
  "rt_tick_from_millisecond ms =
    (if sint ms < 0 then RT_WAITING_FOREVER
     else word_of_int (RT_TICK_PER_SECOND * (sint ms div 1000))
        + word_of_int ((RT_TICK_PER_SECOND * (sint ms mod 1000) + 999) div 1000))"

definition rt_tick_get_millisecond :: "kernel \<Rightarrow> u32" where
  "rt_tick_get_millisecond k = rt_tick k * (1000 div word_of_int RT_TICK_PER_SECOND)"

definition rt_thread_mdelay :: "32 word \<Rightarrow> kernel \<Rightarrow> rt_err_t outcome" where
  "rt_thread_mdelay ms k = rt_thread_sleep (rt_tick_from_millisecond ms) k"

subsection \<open>Expiry\<close>

definition run_timeout :: "(nat \<Rightarrow> nat \<Rightarrow> kernel \<Rightarrow> kernel) \<Rightarrow> timeout_action \<Rightarrow> kernel \<Rightarrow> kernel" where
  "run_timeout user act k =
    (case act of Thread_timeout t \<Rightarrow> rt_thread_timeout t k | User_timeout f p \<Rightarrow> user f p k)"

text \<open>The body of the loop, for an expired timer \<open>t\<close> at the head of the list: the state in which
  its function runs, and the whole round.\<close>

definition timer_unlink :: "tmid \<Rightarrow> kernel \<Rightarrow> kernel" where
  "timer_unlink t k =
    (let k = rt_timer_remove t k;
         k = (if timer_periodic k t then k
              else set_timer_flag t (\<lambda>fl. fl AND NOT RT_TIMER_FLAG_ACTIVATED) k)
     in k\<lparr>timer_pending := t # timer_pending k\<rparr>)"

definition timer_expire :: "(nat \<Rightarrow> nat \<Rightarrow> kernel \<Rightarrow> kernel) \<Rightarrow> tmid \<Rightarrow> kernel \<Rightarrow> kernel" where
  "timer_expire user t k =
    (let k = timer_unlink t k;
         k = run_timeout user (tm_action (timers k t)) k
     in if timer_pending k = [] then k
        else
          let k = rt_timer_remove t k
          in if timer_periodic k t \<and> timer_active k t
             then snd (rt_timer_start t
                    (set_timer_flag t (\<lambda>fl. fl AND NOT RT_TIMER_FLAG_ACTIVATED) k))
             else k)"

partial_function (option) timer_check_loop ::
  "(nat \<Rightarrow> nat \<Rightarrow> kernel \<Rightarrow> kernel) \<Rightarrow> u32 \<Rightarrow> kernel \<Rightarrow> kernel option" where
  "timer_check_loop user current_tick k =
    (case rt_timer_list k of
       [] \<Rightarrow> Some k
     | t # _ \<Rightarrow>
        if current_tick - tm_timeout_tick (timers k t) < RT_TICK_MAX div 2
        then timer_check_loop user (rt_tick (timer_expire user t k)) (timer_expire user t k)
        else Some k)"

definition rt_timer_check :: "(nat \<Rightarrow> nat \<Rightarrow> kernel \<Rightarrow> kernel) \<Rightarrow> kernel \<Rightarrow> kernel option" where
  "rt_timer_check user k = timer_check_loop user (rt_tick k) (k\<lparr>timer_pending := []\<rparr>)"

definition tick_slice :: "kernel \<Rightarrow> kernel" where
  "tick_slice k =
    (let k = k\<lparr>rt_tick := rt_tick k + 1\<rparr>;
         t = the (rt_thread_self k);
         k = set_thread t (\<lambda>th. th\<lparr>th_remaining_tick := th_remaining_tick th - 1\<rparr>) k
     in if th_remaining_tick (threads k t) = 0 then
          let k = set_thread t (\<lambda>th. th\<lparr>th_remaining_tick := th_init_tick th\<rparr>) k;
              k = set_thread t (\<lambda>th. th\<lparr>th_stat := th_stat th OR RT_THREAD_STAT_YIELD\<rparr>) k
          in rt_schedule k
        else k)"

definition rt_tick_increase :: "(nat \<Rightarrow> nat \<Rightarrow> kernel \<Rightarrow> kernel) \<Rightarrow> kernel \<Rightarrow> kernel option" where
  "rt_tick_increase user k = rt_timer_check user (tick_slice k)"

subsection \<open>The idle thread's collection of closed threads\<close>

text \<open>One round of the loop, for the thread taken from the list.\<close>

definition defunct_collect :: "nat \<Rightarrow> kernel \<Rightarrow> kernel" where
  "defunct_collect t k =
    (let k = (case th_cleanup (threads k t) of
                None \<Rightarrow> k
              | Some f \<Rightarrow> k\<lparr>kernel_calls := Call_cleanup f t # kernel_calls k\<rparr>)
     in if rt_object_is_systemobject (OThread t) k then rt_object_detach (OThread t) k
        else
          let k = k\<lparr>kernel_calls := Free_stack (th_stack_addr (threads k t)) # kernel_calls k\<rparr>
          in rt_object_delete (OThread t) k)"

lemma defunct_collect_tq: "tq (defunct_collect t k) = tq k"
  by (simp add: defunct_collect_def Let_def split: option.split)

function rt_defunct_execute :: "kernel \<Rightarrow> kernel" where
  "rt_defunct_execute k =
    (case rt_thread_defunct_dequeue k of
       (None, k) \<Rightarrow> k
     | (Some thread, k) \<Rightarrow> rt_defunct_execute (defunct_collect thread k))"
  by pat_completeness auto
termination
  by (relation "measure (\<lambda>k. length (tq k DefunctQ))")
    (auto simp: rt_thread_defunct_dequeue_def defunct_collect_tq less_Suc_eq_le
      intro: length_removeAll_less_eq split: list.splits)

declare rt_defunct_execute.simps [simp del]

end
