(* ===== verification/Startup.thy ===== *)
theory Startup
  imports Clock
begin

section \<open>Starting the system (\<open>rt-thread/src/components.c\<close>, \<open>idle.c\<close>)\<close>

text \<open>
  From reset to the first switch: the timer list and the ready table are emptied, the main thread
  is created on the heap and the idle thread in static memory, and the scheduler starts. The
  threads are numbered 0 (idle) and 1 (main); the heap is taken to have room for the second, and
  the initialisation of the board, which writes device registers, is the parameter \<open>board\<close>.
\<close>

definition idle_thread :: nat where "idle_thread = 0"
definition main_thread :: nat where "main_thread = 1"

definition rt_system_timer_init :: "kernel \<Rightarrow> kernel" where
  "rt_system_timer_init k = k\<lparr>rt_timer_list := []\<rparr>"

definition rt_application_init :: "kernel \<Rightarrow> kernel" where
  "rt_application_init k =
    (let (tid, k) = rt_thread_create (Some main_thread) (Some 0x20001000) ''main'' 0 0 2048 5 20 k
     in snd (rt_thread_startup (the tid) k))"

definition rt_thread_idle_init :: "kernel \<Rightarrow> kernel" where
  "rt_thread_idle_init k =
    (let k = snd (rt_thread_init idle_thread ''tidle0'' 1 0 0x20000000 512
                    (of_nat RT_THREAD_PRIORITY_MAX - 1) 32 k)
     in snd (rt_thread_startup idle_thread k))"

definition rtthread_startup :: "(kernel \<Rightarrow> kernel) \<Rightarrow> kernel \<Rightarrow> kernel" where
  "rtthread_startup board k =
    (let k = board k;
         k = rt_system_timer_init k;
         k = rt_system_scheduler_init k;
         k = rt_application_init k;
         k = rt_thread_idle_init k
     in rt_system_scheduler_start k)"

text \<open>The running system of the witnesses: started from reset.\<close>

definition booted :: kernel where
  "booted = rtthread_startup (\<lambda>k. k) reset_kernel"

subsection \<open>Starting establishes the invariant\<close>

lemma kinv_no_current:
  "kinv_but {} k \<Longrightarrow> rt_current_thread k = None \<Longrightarrow> kinv k"
  by (simp add: kinv_def)

lemma kinv_scheduler_start:
  assumes inv: "kinv k" and cur: "rt_current_thread k = None"
    and gr: "rt_thread_ready_priority_group k \<noteq> 0"
  shows "kinv (rt_system_scheduler_start k)"
    and "rt_current_thread (rt_system_scheduler_start k) = Some (fst (get_highest_priority_thread k))"
    and "th_state (threads (rt_system_scheduler_start k) (fst (get_highest_priority_thread k))) = RT_THREAD_RUNNING"
proof -
  obtain t p where hp: "get_highest_priority_thread k = (t, p)" by fastforce
  have ib: "kinv_but {} k" using inv by blast
  have pr: "prio_ok (threads k t)" using highest_ready [OF ib gr hp] by blast
  let ?k1 = "k\<lparr>rt_current_thread := Some t\<rparr>"
  have none: "th_state (threads k s) \<noteq> RT_THREAD_RUNNING" for s
    using kinv_thread [OF ib, of s] cur by (auto simp: thread_ok_def)
  then have "kinv_but {} ?k1" using ib by (intro kinv_but_current)
  then have "kinv_but {t} (rt_schedule_remove_thread t ?k1)"
    using pr by (intro kinv_remove_thread) simp_all
  then have "kinv_but {t} (set_thread t (th_stat_update (\<lambda>_. RT_THREAD_RUNNING)) (rt_schedule_remove_thread t ?k1))"
    by simp
  then have "kinv_but {} (set_thread t (th_stat_update (\<lambda>_. RT_THREAD_RUNNING)) (rt_schedule_remove_thread t ?k1))"
    by (rule kinv_settle) (use pr in \<open>simp_all add: prio_ok_def\<close>)
  then have "kinv (set_thread t (th_stat_update (\<lambda>_. RT_THREAD_RUNNING)) (rt_schedule_remove_thread t ?k1))"
    by (rule kinv_move) simp
  then show "kinv (rt_system_scheduler_start k)"
    by (simp add: rt_system_scheduler_start_def hp Let_def)
  show "rt_current_thread (rt_system_scheduler_start k) = Some (fst (get_highest_priority_thread k))"
    by (simp add: rt_system_scheduler_start_def hp Let_def)
  show "th_state (threads (rt_system_scheduler_start k) (fst (get_highest_priority_thread k))) = RT_THREAD_RUNNING"
    by (simp add: rt_system_scheduler_start_def hp Let_def)
qed

lemma no_schedule_before_start [simp]:
  "rt_current_thread k = None \<Longrightarrow> rt_exit_critical (rt_enter_critical k) =
     (if sint (rt_scheduler_lock_nest k) \<le> 0 then k\<lparr>rt_scheduler_lock_nest := 0\<rparr> else k)"
  by (simp add: exit_enter_critical Let_def)

text \<open>Before the scheduler starts, starting a thread appends it to the list of its priority.\<close>

lemma startup_before_start:
  assumes cur: "rt_current_thread k = None" and inv: "kinv k"
    and st: "th_state (threads k t) = RT_THREAD_INIT"
    and p: "p = unat (th_init_priority (threads k t))"
  shows "rt_current_thread (snd (rt_thread_startup t k)) = None"
    and "th_state (threads (snd (rt_thread_startup t k)) t) = RT_THREAD_READY"
    and "tq (snd (rt_thread_startup t k)) = (tq k)(ReadyQ p := tq k (ReadyQ p) @ [t])"
    and "s \<noteq> t \<Longrightarrow> threads (snd (rt_thread_startup t k)) s = threads k s"
    and "rt_scheduler_lock_nest (snd (rt_thread_startup t k)) = rt_scheduler_lock_nest k"
proof -
  have out: "removeAll t (tq k q) = tq k q" for q
    using idle_no_queue [OF kinvD [OF inv] st] by (simp add: removeAll_id_iff)
  show "rt_current_thread (snd (rt_thread_startup t k)) = None"
    "th_state (threads (snd (rt_thread_startup t k)) t) = RT_THREAD_READY"
    "tq (snd (rt_thread_startup t k)) = (tq k)(ReadyQ p := tq k (ReadyQ p) @ [t])"
    "s \<noteq> t \<Longrightarrow> threads (snd (rt_thread_startup t k)) s = threads k s"
    "rt_scheduler_lock_nest (snd (rt_thread_startup t k)) = rt_scheduler_lock_nest k"
    using cur p by (simp_all add: rt_thread_startup_def rt_thread_self_def Let_def rt_thread_resume_def
        rt_schedule_insert_thread_def out)
qed

lemma init_fields_before_start:
  assumes cur: "rt_current_thread k = None"
  shows "rt_current_thread (snd (rt_thread_init_fields t entry par stk sz prio tick k)) = None"
    and "th_state (threads (snd (rt_thread_init_fields t entry par stk sz prio tick k)) t) = RT_THREAD_INIT"
    and "th_init_priority (threads (snd (rt_thread_init_fields t entry par stk sz prio tick k)) t) = prio"
    and "s \<noteq> t \<Longrightarrow> threads (snd (rt_thread_init_fields t entry par stk sz prio tick k)) s = threads k s"
    and "tq (snd (rt_thread_init_fields t entry par stk sz prio tick k)) = tq k"
  using cur by (simp_all add: rt_thread_init_fields_def rt_timer_init_def rt_object_init_def Let_def th_state_def stat_defs)

lemma kinv_scheduler_init:
  assumes th: "\<And>t. th_state (threads k t) = RT_THREAD_INIT" and cur: "rt_current_thread k = None"
    and tq: "\<And>q. (\<forall>p. q \<noteq> ReadyQ p) \<or> (\<exists>p\<ge>32. q = ReadyQ p) \<Longrightarrow> tq k q = []"
  shows "kinv (rt_system_scheduler_init k)" "tq (rt_system_scheduler_init k) = (\<lambda>_. [])"
proof -
  show nil: "tq (rt_system_scheduler_init k) = (\<lambda>_. [])"
    using tq by (auto simp: rt_system_scheduler_init_def fun_eq_iff RT_THREAD_PRIORITY_MAX_def split: tqueue.split)
  have "threads (rt_system_scheduler_init k) = threads k"
    "rt_current_thread (rt_system_scheduler_init k) = None"
    "rt_thread_ready_priority_group (rt_system_scheduler_init k) = 0"
    by (simp_all add: rt_system_scheduler_init_def cur)
  then show "kinv (rt_system_scheduler_init k)"
    using th nil by (simp add: kinv_def kinv_but_def thread_ok_def is_active_def)
qed

lemma application_init_state:
  assumes inv: "kinv k" and nil: "tq k = (\<lambda>_. [])" and cur: "rt_current_thread k = None"
  shows "kinv (rt_application_init k)"
    and "rt_current_thread (rt_application_init k) = None"
    and "tq (rt_application_init k) = (\<lambda>_. [])(ReadyQ 5 := [main_thread])"
    and "th_state (threads (rt_application_init k) main_thread) = RT_THREAD_READY"
proof -
  let ?k1 = "set_thread main_thread (\<lambda>_. zero_thread)
     (snd (rt_object_allocate (Some (OThread main_thread)) RT_Object_Class_Thread ''main'' k))"
  let ?k2 = "snd (rt_thread_init_fields main_thread 0 0 0x20001000 2048 5 20 ?k1)"
  have eq: "rt_application_init k = snd (rt_thread_startup main_thread ?k2)"
    by (simp add: rt_application_init_def rt_thread_create_def Let_def)
  have frame: "tq ?k1 = tq k" "rt_current_thread ?k1 = None"
    by (simp_all add: rt_object_allocate_def Let_def cur)
  have "kinv_but {main_thread} k" using inv nil by (auto intro: kinv_but_insert)
  moreover have "kinv_but {main_thread} (snd (rt_object_allocate (Some (OThread main_thread)) RT_Object_Class_Thread ''main'' k))
      = kinv_but {main_thread} k"
    by (rule kinv_but_cong) (simp_all add: rt_object_allocate_def Let_def)
  ultimately have "kinv_but {} ?k1"
    by (intro kinv_set_stat_out) (simp_all add: is_active_def)
  then have "kinv ?k1" using frame(2) by (rule kinv_no_current)
  then have k2: "kinv ?k2" by (rule kinv_thread_init_fields) (simp only: frame nil, simp)
  note init = init_fields_before_start [OF frame(2), of main_thread 0 0 "0x20001000" 2048 5 20]
  note start = startup_before_start [OF init(1) k2 init(2) refl]
  show "kinv (rt_application_init k)"
    unfolding eq using k2 init by (intro kinv_thread_startup) (simp_all add: RT_THREAD_PRIORITY_MAX_def)
  show "rt_current_thread (rt_application_init k) = None"
    "th_state (threads (rt_application_init k) main_thread) = RT_THREAD_READY"
    unfolding eq using start by simp_all
  show "tq (rt_application_init k) = (\<lambda>_. [])(ReadyQ 5 := [main_thread])"
    unfolding eq start(3) init(3,5) frame nil by simp
qed

lemma idle_init_state:
  assumes inv: "kinv k" and tq: "tq k = (\<lambda>_. [])(ReadyQ 5 := [main_thread])" and cur: "rt_current_thread k = None"
  shows "kinv (rt_thread_idle_init k)"
    and "rt_current_thread (rt_thread_idle_init k) = None"
    and "tq (rt_thread_idle_init k) = (\<lambda>_. [])(ReadyQ 5 := [main_thread], ReadyQ 31 := [idle_thread])"
proof -
  let ?k1 = "rt_object_init (OThread idle_thread) RT_Object_Class_Thread ''tidle0'' k"
  let ?k2 = "snd (rt_thread_init_fields idle_thread 1 0 0x20000000 512 (of_nat RT_THREAD_PRIORITY_MAX - 1) 32 ?k1)"
  have eq: "rt_thread_idle_init k = snd (rt_thread_startup idle_thread ?k2)"
    by (simp add: rt_thread_idle_init_def rt_thread_init_def Let_def)
  have frame: "tq ?k1 = tq k" "rt_current_thread ?k1 = None"
    by (simp_all add: rt_object_init_def Let_def cur)
  have "kinv ?k1" using inv by (rule kinv_object_init)
  then have k2: "kinv ?k2"
    by (rule kinv_thread_init_fields) (simp only: frame tq, simp add: idle_thread_def main_thread_def)
  note init = init_fields_before_start [OF frame(2), of idle_thread 1 0 "0x20000000" 512 "of_nat RT_THREAD_PRIORITY_MAX - 1" 32]
  note start = startup_before_start [OF init(1) k2 init(2) refl]
  show "kinv (rt_thread_idle_init k)"
    unfolding eq using k2 init by (intro kinv_thread_startup) (simp_all add: RT_THREAD_PRIORITY_MAX_def)
  show "rt_current_thread (rt_thread_idle_init k) = None"
    unfolding eq using start by simp
  show "tq (rt_thread_idle_init k) = (\<lambda>_. [])(ReadyQ 5 := [main_thread], ReadyQ 31 := [idle_thread])"
    unfolding eq start(3) init(3,5) frame tq by (simp add: RT_THREAD_PRIORITY_MAX_def)
qed

lemma highest_of_two:
  assumes inv: "kinv k" and tq: "tq k = (\<lambda>_. [])(ReadyQ 5 := [main_thread], ReadyQ 31 := [idle_thread])"
  shows "rt_thread_ready_priority_group k \<noteq> 0" "get_highest_priority_thread k = (main_thread, 5)"
proof -
  have ib: "kinv_but {} k" using inv by blast
  have "bit (rt_thread_ready_priority_group k) 5" using kinv_group [OF ib, of 5] tq by simp
  then show ne: "rt_thread_ready_priority_group k \<noteq> 0" by auto
  obtain t p where hp: "get_highest_priority_thread k = (t, p)" by fastforce
  have p: "tq k (ReadyQ p) \<noteq> []" and below: "\<And>i. i < p \<Longrightarrow> tq k (ReadyQ i) = []"
    and t: "t = hd (tq k (ReadyQ p))"
    using highest_ready [OF ib ne hp] by blast+
  have "\<not> 5 < p" using below [of 5] tq by auto
  moreover have "p = 5 \<or> p = 31" using p tq by (simp split: if_splits)
  ultimately have "p = 5 \<and> t = main_thread" using t tq by auto
  then show "get_highest_priority_thread k = (main_thread, 5)" using hp by simp
qed

lemma startup_state:
  assumes "\<And>t. th_state (threads (board k) t) = RT_THREAD_INIT"
    and "rt_current_thread (board k) = None"
    and "\<And>q. (\<forall>p. q \<noteq> ReadyQ p) \<or> (\<exists>p\<ge>32. q = ReadyQ p) \<Longrightarrow> tq (board k) q = []"
  shows "kinv (rtthread_startup board k)
    \<and> rt_current_thread (rtthread_startup board k) = Some main_thread
    \<and> th_state (threads (rtthread_startup board k) main_thread) = RT_THREAD_RUNNING
    \<and> tq (rtthread_startup board k) = (\<lambda>_. [])(ReadyQ 31 := [idle_thread])"
proof -
  let ?k1 = "rt_system_scheduler_init (rt_system_timer_init (board k))"
  have timer: "threads (rt_system_timer_init (board k)) = threads (board k)"
    "tq (rt_system_timer_init (board k)) = tq (board k)"
    "rt_current_thread (rt_system_timer_init (board k)) = None"
    by (simp_all add: rt_system_timer_init_def assms(2))
  have init: "kinv ?k1" "tq ?k1 = (\<lambda>_. [])"
    using kinv_scheduler_init [of "rt_system_timer_init (board k)"] assms(1,3) timer by auto
  have cur: "rt_current_thread ?k1 = None" by (simp add: rt_system_scheduler_init_def timer)
  note app = application_init_state [OF init cur]
  note idle = idle_init_state [OF app(1,3,2)]
  note two = highest_of_two [OF idle(1,3)]
  note start = kinv_scheduler_start [OF idle(1,2) two(1), unfolded two(2) fst_conv]
  have "tq (rt_system_scheduler_start (rt_thread_idle_init (rt_application_init ?k1)))
      = (\<lambda>_. [])(ReadyQ 31 := [idle_thread])"
    by (simp add: rt_system_scheduler_start_def two(2) Let_def)
      (simp add: idle(3) fun_eq_iff idle_thread_def main_thread_def)
  then show ?thesis
    using start by (simp add: rtthread_startup_def Let_def)
qed

lemma booted_state:
  "kinv booted \<and> rt_current_thread booted = Some main_thread
   \<and> th_state (threads booted main_thread) = RT_THREAD_RUNNING
   \<and> tq booted = (\<lambda>_. [])(ReadyQ 31 := [idle_thread])"
  unfolding booted_def by (rule startup_state) (auto simp: reset_kernel_def)

text \<open>
  C4. Starting the system from any state whose threads are unused gives a state that satisfies the
  invariant of the ready table, in which the main thread runs and the idle thread is the one other
  ready thread, provided the board's initialisation leaves the kernel's threads alone.
\<close>

theorem startup_runs_main:
  assumes "\<And>t. th_state (threads (board k) t) = RT_THREAD_INIT"
    and "rt_current_thread (board k) = None"
    and "\<And>q. (\<forall>p. q \<noteq> ReadyQ p) \<or> (\<exists>p\<ge>32. q = ReadyQ p) \<Longrightarrow> tq (board k) q = []"
  shows "kinv (rtthread_startup board k)
    \<and> rt_current_thread (rtthread_startup board k) = Some main_thread
    \<and> th_state (threads (rtthread_startup board k) main_thread) = RT_THREAD_RUNNING
    \<and> tq (rtthread_startup board k) = (\<lambda>_. [])(ReadyQ 31 := [idle_thread])"
  using assms by (rule startup_state)

theorem startup_runs_main_witness:
  "kinv booted \<and> rt_current_thread booted = Some main_thread
   \<and> th_state (threads booted main_thread) = RT_THREAD_RUNNING
   \<and> tq booted = (\<lambda>_. [])(ReadyQ 31 := [idle_thread])"
  unfolding booted_def by (rule startup_runs_main) (auto simp: reset_kernel_def)

end
