(* ===== verification/Expiry.thy ===== *)
theory Expiry
  imports Startup
begin

section \<open>Expiry: which timers fire at a tick\<close>

text \<open>A suspended thread is not touched by the scheduler.\<close>

lemma rt_schedule_suspended:
  assumes inv: "kinv k" and st: "th_state (threads k s) = RT_THREAD_SUSPEND"
  shows "threads (rt_schedule k) s = threads k s"
proof (cases "rt_scheduler_lock_nest k \<noteq> 0 \<or> rt_thread_ready_priority_group k = 0
    \<or> rt_current_thread k = None")
  case True
  then show ?thesis by (simp add: rt_schedule_idle)
next
  case False
  then obtain c where cur: "rt_current_thread k = Some c"
    and go: "rt_scheduler_lock_nest k = 0" "rt_thread_ready_priority_group k \<noteq> 0" by auto
  obtain t p where hp: "get_highest_priority_thread k = (t, p)" by fastforce
  have ready: "th_state (threads k t) = RT_THREAD_READY"
    using highest_ready [OF kinvD [OF inv] go(2) hp] by blast
  show ?thesis
  proof (cases "keeps_cpu k c")
    case True
    then have "s \<noteq> c" using st by (auto simp: keeps_cpu_def)
    then show ?thesis using rt_schedule_keep [OF inv cur go(1) True] by blast
  next
    case False
    note sw = rt_schedule_switch [OF inv cur go False hp]
    show ?thesis
    proof (cases "s = c")
      case True
      then show ?thesis using sw(4) st by simp
    next
      case False
      then show ?thesis using sw(5) st ready by (metis th_state_distinct(1))
    qed
  qed
qed

text \<open>A thread made ready is, after the scheduler ran, ready or running.\<close>

definition is_runnable :: "rt_thread \<Rightarrow> bool" where
  "is_runnable th \<longleftrightarrow> th_state th = RT_THREAD_READY \<or> th_state th = RT_THREAD_RUNNING"

lemma rt_schedule_runnable:
  assumes inv: "kinv k" and st: "is_runnable (threads k s)"
  shows "is_runnable (threads (rt_schedule k) s) \<and> th_error (threads (rt_schedule k) s) = th_error (threads k s)"
proof (cases "rt_scheduler_lock_nest k \<noteq> 0 \<or> rt_thread_ready_priority_group k = 0
    \<or> rt_current_thread k = None")
  case True
  then show ?thesis using st by (simp add: rt_schedule_idle)
next
  case False
  then obtain c where cur: "rt_current_thread k = Some c"
    and go: "rt_scheduler_lock_nest k = 0" "rt_thread_ready_priority_group k \<noteq> 0" by auto
  obtain t p where hp: "get_highest_priority_thread k = (t, p)" by fastforce
  show ?thesis
  proof (cases "keeps_cpu k c")
    case True
    note keep = rt_schedule_keep_eq [OF inv cur go True]
    show ?thesis
      using st unfolding keep by (cases "s = c") (auto simp: is_runnable_def clear_yield_def)
  next
    case False
    note sw = rt_schedule_switch [OF inv cur go False hp]
    show ?thesis
      using st sw(3,4,5) by (cases "s = t"; cases "s = c") (auto simp: is_runnable_def clear_yield_def)
  qed
qed

lemma rt_schedule_active:
  assumes inv: "kinv k"
  shows "is_active (threads (rt_schedule k) s) = is_active (threads k s)"
proof (cases "rt_scheduler_lock_nest k \<noteq> 0 \<or> rt_thread_ready_priority_group k = 0
    \<or> rt_current_thread k = None")
  case True
  then show ?thesis by (simp add: rt_schedule_idle)
next
  case False
  then obtain c where cur: "rt_current_thread k = Some c"
    and go: "rt_scheduler_lock_nest k = 0" "rt_thread_ready_priority_group k \<noteq> 0" by auto
  obtain t p where hp: "get_highest_priority_thread k = (t, p)" by fastforce
  have ready: "th_state (threads k t) = RT_THREAD_READY"
    using highest_ready [OF kinvD [OF inv] go(2) hp] by blast
  show ?thesis
  proof (cases "keeps_cpu k c")
    case True
    then have "th_state (threads k c) = RT_THREAD_RUNNING" by (simp add: keeps_cpu_def)
    then show ?thesis
      using rt_schedule_keep [OF inv cur go(1) True] by (cases "s = c") (simp_all add: is_active_def)
  next
    case False
    note sw = rt_schedule_switch [OF inv cur go False hp]
    show ?thesis
      using ready sw(3,4,5) by (cases "s = t"; cases "s = c") (simp_all add: is_active_def)
  qed
qed

lemma thread_timeout_effect:
  assumes inv: "kinv k" and st: "th_state (threads k t) = RT_THREAD_SUSPEND"
  shows "is_runnable (threads (rt_thread_timeout t k) t)"
    and "th_error (threads (rt_thread_timeout t k) t) = - RT_ETIMEOUT"
    and "s \<noteq> t \<Longrightarrow> th_state (threads k s) = RT_THREAD_SUSPEND \<Longrightarrow>
           threads (rt_thread_timeout t k) s = threads k s"
    and "s \<noteq> t \<Longrightarrow> is_runnable (threads k s) \<Longrightarrow> is_runnable (threads (rt_thread_timeout t k) s)
           \<and> th_error (threads (rt_thread_timeout t k) s) = th_error (threads k s)"
    and "is_active (threads (rt_thread_timeout t k) s) = is_active (threads k s)"
proof -
  let ?k0 = "set_thread t (th_error_update (\<lambda>_. - RT_ETIMEOUT)) k"
  let ?k1 = "rt_schedule_insert_thread t (tlist_remove t ?k0)"
  have k0: "kinv ?k0" using inv by (simp add: kinv_set_other)
  have ib: "kinv_but {} ?k0" using k0 by blast
  have "prio_ok (threads ?k0 t)" using st active_prio [OF ib, of t] by (auto simp: is_active_def)
  then have k1: "kinv ?k1"
    using st kinv_current_not_ready [OF k0] by (intro kinv_tlist_insert_ready [OF ib]) auto
  have eq: "rt_thread_timeout t k = rt_schedule ?k1" by (simp add: rt_thread_timeout_def Let_def)
  have t1: "is_runnable (threads ?k1 t)" "th_error (threads ?k1 t) = - RT_ETIMEOUT"
    and s1: "s \<noteq> t \<Longrightarrow> threads ?k1 s = threads k s" for s
    by (auto simp: is_runnable_def threads_insert_thread)
  have "is_active (threads ?k1 s) = is_active (threads k s)"
    using st by (cases "s = t") (simp_all add: threads_insert_thread is_active_def)
  then show "is_active (threads (rt_thread_timeout t k) s) = is_active (threads k s)"
    using rt_schedule_active [OF k1] by (simp add: eq)
  show "is_runnable (threads (rt_thread_timeout t k) t)"
    "th_error (threads (rt_thread_timeout t k) t) = - RT_ETIMEOUT"
    using rt_schedule_runnable [OF k1 t1(1)] t1(2) by (simp_all add: eq)
  show "threads (rt_thread_timeout t k) s = threads k s"
    if "s \<noteq> t" "th_state (threads k s) = RT_THREAD_SUSPEND"
    using rt_schedule_suspended [OF k1, of s] s1 [OF that(1)] that(2) by (simp add: eq)
  show "is_runnable (threads (rt_thread_timeout t k) s)
        \<and> th_error (threads (rt_thread_timeout t k) s) = th_error (threads k s)"
    if "s \<noteq> t" "is_runnable (threads k s)"
    using rt_schedule_runnable [OF k1, of s] s1 [OF that(1)] that(2) by (simp add: eq)
qed

subsection \<open>The invariant of the timers with their threads\<close>

text \<open>
  A thread whose timer is in the list is suspended; a timer of the application runs a function of
  the application, and again only after at least one tick. The timer of a started thread is the one
  \<open>rt_thread_init\<close> set up.
\<close>

definition timer_bound :: "kernel \<Rightarrow> tmid \<Rightarrow> bool" where
  "timer_bound k tm \<longleftrightarrow> (case tm of
      ThreadTimer t \<Rightarrow> tm_action (timers k tm) = Thread_timeout t \<and> \<not> timer_periodic k tm
        \<and> th_state (threads k t) = RT_THREAD_SUSPEND
    | UserTimer _ \<Rightarrow> (\<exists>f p. tm_action (timers k tm) = User_timeout f p)
        \<and> (timer_periodic k tm \<longrightarrow> tm_init_tick (timers k tm) \<noteq> 0
             \<and> tm_init_tick (timers k tm) < 0x7fffffff))"

definition own_timer :: "kernel \<Rightarrow> nat \<Rightarrow> bool" where
  "own_timer k t \<longleftrightarrow> tm_action (timers k (ThreadTimer t)) = Thread_timeout t
     \<and> \<not> timer_periodic k (ThreadTimer t)"

definition system_ok :: "kernel \<Rightarrow> bool" where
  "system_ok k \<longleftrightarrow> kinv k \<and> timers_ok k \<and> (\<forall>tm \<in> set (rt_timer_list k). timer_bound k tm)
     \<and> (\<forall>t. is_active (threads k t) \<longrightarrow> own_timer k t)"

text \<open>A function of the application that leaves the timers and the suspended threads alone.\<close>

definition leaves_timers :: "(nat \<Rightarrow> nat \<Rightarrow> kernel \<Rightarrow> kernel) \<Rightarrow> bool" where
  "leaves_timers user \<longleftrightarrow> (\<forall>f p k.
      rt_timer_list (user f p k) = rt_timer_list k \<and> timer_pending (user f p k) = timer_pending k
    \<and> timers (user f p k) = timers k \<and> rt_tick (user f p k) = rt_tick k
    \<and> (\<forall>tm. timer_flag (user f p k) tm = timer_flag k tm)
    \<and> (kinv k \<longrightarrow> kinv (user f p k))
    \<and> (\<forall>s. is_active (threads (user f p k) s) \<longrightarrow> is_active (threads k s))
    \<and> (\<forall>s. th_state (threads k s) = RT_THREAD_SUSPEND \<longrightarrow> threads (user f p k) s = threads k s))"

lemma leaves_timersD:
  assumes "leaves_timers user"
  shows "rt_timer_list (user f p k) = rt_timer_list k" "timer_pending (user f p k) = timer_pending k"
    "timers (user f p k) = timers k" "rt_tick (user f p k) = rt_tick k"
    "timer_flag (user f p k) tm = timer_flag k tm" "kinv k \<Longrightarrow> kinv (user f p k)"
    "th_state (threads k s) = RT_THREAD_SUSPEND \<Longrightarrow> threads (user f p k) s = threads k s"
    "is_active (threads (user f p k) s) \<Longrightarrow> is_active (threads k s)"
  using assms by (simp_all add: leaves_timers_def)

definition due_timers :: "kernel \<Rightarrow> tmid list" where
  "due_timers k = takeWhile (\<lambda>tm. ticks_left k tm = 0) (rt_timer_list k)"

lemma timer_bound_cong:
  assumes "timers k' tm = timers k tm" "timer_flag k' tm = timer_flag k tm"
    and "\<And>t. tm = ThreadTimer t \<Longrightarrow> th_state (threads k t) = RT_THREAD_SUSPEND \<Longrightarrow>
           th_state (threads k' t) = RT_THREAD_SUSPEND"
    and "timer_bound k tm"
  shows "timer_bound k' tm"
  using assms by (auto simp: timer_bound_def timer_periodic_def split: tmid.splits)

lemma run_timeout_effect:
  assumes kinv: "kinv k" and bound: "timer_bound k tm" and user: "leaves_timers user"
  defines "k' \<equiv> run_timeout user (tm_action (timers k tm)) k"
  shows "rt_timer_list k' = rt_timer_list k" "timer_pending k' = timer_pending k"
    "timers k' = timers k" "rt_tick k' = rt_tick k" "\<And>tm'. timer_flag k' tm' = timer_flag k tm'" "kinv k'"
    "\<And>s. tm \<noteq> ThreadTimer s \<Longrightarrow> th_state (threads k s) = RT_THREAD_SUSPEND \<Longrightarrow> threads k' s = threads k s"
    "\<And>t. tm = ThreadTimer t \<Longrightarrow> k' = rt_thread_timeout t k"
    "\<And>s. is_active (threads k' s) \<Longrightarrow> is_active (threads k s)"
proof -
  consider (th) t where "tm = ThreadTimer t" "tm_action (timers k tm) = Thread_timeout t"
      "th_state (threads k t) = RT_THREAD_SUSPEND"
    | (us) n f p where "tm = UserTimer n" "tm_action (timers k tm) = User_timeout f p"
    using bound by (auto simp: timer_bound_def split: tmid.splits)
  then have "rt_timer_list k' = rt_timer_list k \<and> timer_pending k' = timer_pending k
      \<and> timers k' = timers k \<and> rt_tick k' = rt_tick k \<and> (\<forall>tm'. timer_flag k' tm' = timer_flag k tm') \<and> kinv k'
      \<and> (\<forall>s. tm \<noteq> ThreadTimer s \<longrightarrow> th_state (threads k s) = RT_THREAD_SUSPEND \<longrightarrow> threads k' s = threads k s)
      \<and> (\<forall>t. tm = ThreadTimer t \<longrightarrow> k' = rt_thread_timeout t k)
      \<and> (\<forall>s. is_active (threads k' s) \<longrightarrow> is_active (threads k s))"
  proof cases
    case th
    then show ?thesis
      using kinv thread_timeout_effect(3,5) [OF kinv th(3)]
      by (auto simp: k'_def run_timeout_def timer_flag_def kinv_thread_timeout)
  next
    case us
    then show ?thesis
      using kinv leaves_timersD [OF user] by (simp add: k'_def run_timeout_def)
  qed
  then show "rt_timer_list k' = rt_timer_list k" "timer_pending k' = timer_pending k"
    "timers k' = timers k" "rt_tick k' = rt_tick k" "\<And>tm'. timer_flag k' tm' = timer_flag k tm'" "kinv k'"
    "\<And>s. tm \<noteq> ThreadTimer s \<Longrightarrow> th_state (threads k s) = RT_THREAD_SUSPEND \<Longrightarrow> threads k' s = threads k s"
    "\<And>t. tm = ThreadTimer t \<Longrightarrow> k' = rt_thread_timeout t k"
    "\<And>s. is_active (threads k' s) \<Longrightarrow> is_active (threads k s)"
    by blast+
qed

lemma unlinked_fields:
  "rt_timer_list (timer_unlink tm k) = removeAll tm (rt_timer_list k)"
  "timer_pending (timer_unlink tm k) = tm # removeAll tm (timer_pending k)"
  "timers (timer_unlink tm k) = timers k" "rt_tick (timer_unlink tm k) = rt_tick k"
  "threads (timer_unlink tm k) = threads k"
  "timer_periodic (timer_unlink tm k) t = timer_periodic k t"
  "timer_active (timer_unlink tm k) t = (timer_active k t \<and> (t = tm \<longrightarrow> timer_periodic k tm))"
  by (auto simp: timer_unlink_def Let_def timer_periodic_def timer_active_def timer_flag_def set_timer_flag_def
      split: if_splits)

lemma kinv_timer_unlink: "kinv (timer_unlink tm k) = kinv k"
  by (rule kinv_cong) (simp_all add: timer_unlink_def Let_def)

lemma timer_bound_unlinked: "timer_bound (timer_unlink tm k) tm' = timer_bound k tm'"
  by (simp add: timer_bound_def unlinked_fields split: tmid.split)

lemma timer_expire_eq:
  assumes ok: "system_ok k" and pend: "timer_pending k = []" and tm: "tm \<in> set (rt_timer_list k)"
    and user: "leaves_timers user"
  defines "k2 \<equiv> run_timeout user (tm_action (timers k tm)) (timer_unlink tm k)"
  shows "timer_expire user tm k =
    (if timer_periodic k tm
     then snd (rt_timer_start tm (set_timer_flag tm (\<lambda>fl. fl AND NOT RT_TIMER_FLAG_ACTIVATED) (rt_timer_remove tm k2)))
     else rt_timer_remove tm k2)"
proof -
  have bound: "timer_bound (timer_unlink tm k) tm" and act: "timer_active k tm"
    using ok tm by (auto simp: system_ok_def timers_ok_def timer_bound_unlinked)
  have "kinv (timer_unlink tm k)" using ok by (simp add: system_ok_def kinv_timer_unlink)
  note eff = run_timeout_effect [OF this bound user, unfolded unlinked_fields(3), folded k2_def]
  have "timer_pending k2 = [tm]" by (simp add: eff unlinked_fields pend)
  moreover have "timer_periodic k2 tm = timer_periodic k tm" "timer_periodic k tm \<Longrightarrow> timer_active k2 tm"
    using act eff(5) unlinked_fields(6,7) [of tm k tm] by (simp_all add: timer_periodic_def timer_active_def)
  ultimately show ?thesis
    by (auto simp: timer_expire_def Let_def k2_def timer_periodic_def timer_active_def
        unlinked_fields(3) split: if_splits)
qed

lemma timer_bound_cong2:
  assumes "tm_action (timers k' tm) = tm_action (timers k tm)"
    "tm_init_tick (timers k' tm) = tm_init_tick (timers k tm)"
    "timer_periodic k' tm = timer_periodic k tm"
    and "\<And>t. tm = ThreadTimer t \<Longrightarrow> th_state (threads k t) = RT_THREAD_SUSPEND \<Longrightarrow>
           th_state (threads k' t) = RT_THREAD_SUSPEND"
    and "timer_bound k tm"
  shows "timer_bound k' tm"
  using assms by (auto simp: timer_bound_def split: tmid.splits)

lemma takeWhile_insert_place:
  assumes "\<not> P x" "\<And>t. t \<in> set ts \<Longrightarrow> P t \<Longrightarrow> D t"
  shows "takeWhile P (takeWhile D ts @ x # dropWhile D ts) = takeWhile P ts"
  using assms by (induction ts) auto

lemma timer_expire_step:
  assumes ok: "system_ok k" and pend: "timer_pending k = []" and user: "leaves_timers user"
    and list: "rt_timer_list k = tm # ts" and due: "ticks_left k tm = 0"
  defines "k' \<equiv> timer_expire user tm k"
  shows "system_ok k'" "timer_pending k' = []" "rt_tick k' = rt_tick k"
    "due_timers k' = takeWhile (\<lambda>t. ticks_left k t = 0) ts"
    "\<And>s. tm \<noteq> ThreadTimer s \<Longrightarrow> th_state (threads k s) = RT_THREAD_SUSPEND \<Longrightarrow> threads k' s = threads k s"
    "\<And>t. tm = ThreadTimer t \<Longrightarrow> is_runnable (threads k' t) \<and> th_error (threads k' t) = - RT_ETIMEOUT"
proof -
  define k2 where "k2 = run_timeout user (tm_action (timers k tm)) (timer_unlink tm k)"
  have tin: "tm \<in> set (rt_timer_list k)" and dist: "tm \<notin> set ts" "distinct ts"
    using ok list by (auto simp: system_ok_def timers_ok_def)
  have kok: "kinv k" "timers_ok k" and bound_all: "t \<in> set (rt_timer_list k) \<Longrightarrow> timer_bound k t" for t
    using ok by (simp_all add: system_ok_def)
  have bound: "timer_bound k tm" using bound_all [OF tin] .
  have rm: "removeAll tm ts = ts" using dist by simp
  have "kinv (timer_unlink tm k)" "timer_bound (timer_unlink tm k) tm"
    using kok bound by (simp_all add: kinv_timer_unlink timer_bound_unlinked)
  note eff = run_timeout_effect [OF this user, unfolded unlinked_fields(3), folded k2_def]
  note eff' = eff(1-4) [unfolded unlinked_fields(1-4)]
  have flag2: "timer_periodic k2 t = timer_periodic k t"
    "timer_active k2 t \<longleftrightarrow> timer_active k t \<and> (t = tm \<longrightarrow> timer_periodic k tm)" for t
    using eff(5) [of t] unlinked_fields(6,7) [of tm k t] by (simp_all add: timer_periodic_def timer_active_def)
  define k3 where "k3 = set_timer_flag tm (\<lambda>fl. fl AND NOT RT_TIMER_FLAG_ACTIVATED) (rt_timer_remove tm k2)"
  have k': "k' = (if timer_periodic k tm then snd (rt_timer_start tm k3) else rt_timer_remove tm k2)"
    unfolding k'_def k3_def k2_def by (rule timer_expire_eq [OF ok pend tin user])
  have thr: "threads k' s = threads k s" if "tm \<noteq> ThreadTimer s" "th_state (threads k s) = RT_THREAD_SUSPEND" for s
    using eff(7) [OF that(1)] that(2) by (simp add: k' k3_def unlinked_fields)
  then show "\<And>s. tm \<noteq> ThreadTimer s \<Longrightarrow> th_state (threads k s) = RT_THREAD_SUSPEND \<Longrightarrow> threads k' s = threads k s" .
  show "is_runnable (threads k' t) \<and> th_error (threads k' t) = - RT_ETIMEOUT" if "tm = ThreadTimer t" for t
  proof -
    have "th_state (threads k t) = RT_THREAD_SUSPEND" "\<not> timer_periodic k tm"
      using bound that by (simp_all add: timer_bound_def)
    then show ?thesis
      using eff(8) [OF that] thread_timeout_effect(1,2) [of "timer_unlink tm k" t] kok
      by (simp add: k' kinv_timer_unlink unlinked_fields)
  qed
  show tick: "rt_tick k' = rt_tick k" by (simp add: k' k3_def eff')
  show "timer_pending k' = []" by (simp add: k' k3_def eff' pend timer_start_fields)
  have "timers_ok k' \<and> due_timers k' = takeWhile (\<lambda>t. ticks_left k t = 0) ts
     \<and> set (rt_timer_list k') \<subseteq> set (rt_timer_list k) \<and> (tm \<in> set (rt_timer_list k') \<longrightarrow> timer_periodic k tm)
     \<and> (\<forall>t. timer_periodic k' t = timer_periodic k t)"
  proof (cases "timer_periodic k tm")
    case False
    have lk: "rt_timer_list k' = ts" "timers k' = timers k" using False by (simp_all add: k' eff' list rm)
    have "timers_ok k'"
    proof (rule timers_ok_unlink [OF kok(2)])
      show "rt_timer_list k' = removeAll tm (rt_timer_list k)" "timer_pending k' = removeAll tm (timer_pending k)"
        "timers k' = timers k" "rt_tick k' = rt_tick k"
        using lk tick by (simp_all add: list rm pend k' eff' False)
      show "timer_active k' t \<longleftrightarrow> t \<noteq> tm \<and> timer_active k t" for t
        using False flag2(2) [of t] by (auto simp: k' timer_active_def)
    qed
    moreover have "ticks_left k' = ticks_left k" by (simp add: ticks_left_def lk tick fun_eq_iff)
    then have "due_timers k' = takeWhile (\<lambda>t. ticks_left k t = 0) ts" by (simp add: due_timers_def lk)
    moreover have "timer_periodic k' t = timer_periodic k t" for t
      using False flag2(1) [of t] by (simp add: k' timer_periodic_def)
    ultimately show ?thesis using dist(1) by (auto simp: lk list)
  next
    case True
    then have init: "tm_init_tick (timers k tm) \<noteq> 0" "tm_init_tick (timers k tm) < 0x7fffffff"
      using bound by (auto simp: timer_bound_def split: tmid.splits)
    have f3: "rt_timer_list k3 = ts" "timer_pending k3 = []" "timers k3 = timers k" "rt_tick k3 = rt_tick k"
      by (simp_all add: k3_def eff' list rm pend)
    have p3: "timer_periodic k3 t = timer_periodic k t" for t
      using flag2(1) [of t] by (auto simp: k3_def timer_periodic_def)
    have "timers_ok k3"
    proof (rule timers_ok_unlink [OF kok(2)])
      show "rt_timer_list k3 = removeAll tm (rt_timer_list k)" "timer_pending k3 = removeAll tm (timer_pending k)"
        "timers k3 = timers k" "rt_tick k3 = rt_tick k"
        using f3 by (simp_all add: list rm pend)
      show "timer_active k3 t \<longleftrightarrow> t \<noteq> tm \<and> timer_active k t" for t
        using flag2(2) [of t] by (auto simp: k3_def timer_active_def)
    qed
    moreover have init3: "tm_init_tick (timers k3 tm) < 0x7fffffff" using init f3 by simp
    ultimately have "timers_ok k'" using True by (simp add: k' timers_ok_start)
    moreover have tl3: "ticks_left k3 = ticks_left k" by (simp add: ticks_left_def f3 fun_eq_iff)
    let ?D = "\<lambda>t. ticks_left k t \<le> unat (tm_init_tick (timers k tm))"
    have lk: "rt_timer_list k' = takeWhile ?D ts @ tm # dropWhile ?D ts"
      using timer_start_place [OF \<open>timers_ok k3\<close> init3] True
      by (simp add: k' f3 rm tl3 Let_def)
    have tl: "ticks_left k' t = (if t = tm then unat (tm_init_tick (timers k tm)) else ticks_left k t)" for t
      using True by (simp add: k' ticks_left_start f3 tl3)
    have d1: "due_timers k' = takeWhile (\<lambda>t. ticks_left k' t = 0) ts"
      unfolding due_timers_def lk using init dist by (intro takeWhile_insert_place) (auto simp: tl unat_eq_0 split: if_splits)
    have d2: "takeWhile (\<lambda>t. ticks_left k' t = 0) ts = takeWhile (\<lambda>t. ticks_left k t = 0) ts"
      using dist by (intro takeWhile_cong) (auto simp: tl)
    have "due_timers k' = takeWhile (\<lambda>t. ticks_left k t = 0) ts" using d1 d2 by (rule trans)
    moreover have "set (rt_timer_list k') \<subseteq> set (rt_timer_list k)"
      by (auto simp: lk list dest: set_takeWhileD set_dropWhileD)
    moreover have "timer_periodic k' t = timer_periodic k t" for t
      using True p3 by (simp add: k' timer_start_fields(5))
    ultimately show ?thesis using True by blast
  qed
  note main = this
  then show "due_timers k' = takeWhile (\<lambda>t. ticks_left k t = 0) ts" by blast
  have timers': "tm_action (timers k' t) = tm_action (timers k t)" "tm_init_tick (timers k' t) = tm_init_tick (timers k t)" for t
    by (auto simp: k' k3_def eff' timer_start_fields(1))
  have "timer_bound k' t" if "t \<in> set (rt_timer_list k')" for t
  proof (rule timer_bound_cong2 [OF timers'])
    show "timer_periodic k' t = timer_periodic k t" using main by blast
    show "timer_bound k t" using that main bound_all by blast
    fix s assume t: "t = ThreadTimer s" and st: "th_state (threads k s) = RT_THREAD_SUSPEND"
    then have "\<not> timer_periodic k t" using \<open>timer_bound k t\<close> by (simp add: timer_bound_def)
    then have "tm \<noteq> t" using that main by blast
    then show "th_state (threads k' s) = RT_THREAD_SUSPEND" using thr [of s] t st by simp
  qed
  moreover have "kinv k'"
  proof -
    have "kinv (rt_timer_remove tm k2) = kinv k2" "kinv k3 = kinv k2"
      by (rule kinv_cong; simp add: k3_def)+
    then show ?thesis using eff(6) by (simp add: k')
  qed
  moreover have "own_timer k' t" if "is_active (threads k' t)" for t
  proof -
    have "is_active (threads k t)"
      using that eff(9) [of t] by (simp add: k' k3_def unlinked_fields split: if_splits)
    then have "own_timer k t" using ok by (simp add: system_ok_def)
    then show ?thesis using main timers' by (simp add: own_timer_def)
  qed
  ultimately show "system_ok k'" using main by (simp add: system_ok_def)
qed

lemma expired_iff:
  assumes "ticks_left k tm < 0x7fffffff"
  shows "rt_tick k - tm_timeout_tick (timers k tm) < RT_TICK_MAX div 2 \<longleftrightarrow> ticks_left k tm = 0"
proof -
  have "unat (RT_TICK_MAX div 2) = 0x7fffffff" by (simp add: RT_TICK_MAX_def unat_div)
  then have "rt_tick k - tm_timeout_tick (timers k tm) < RT_TICK_MAX div 2
      \<longleftrightarrow> unat (0 - (tm_timeout_tick (timers k tm) - rt_tick k)) < 0x7fffffff"
    by (simp only: word_less_nat_alt) simp
  also have "\<dots> \<longleftrightarrow> ticks_left k tm = 0"
    using assms unat_diff32 [of 0 "tm_timeout_tick (timers k tm) - rt_tick k"]
    by (auto simp: ticks_left_def split: if_splits)
  finally show ?thesis .
qed

lemma timer_check_loop_due:
  assumes "system_ok k" "timer_pending k = []" "leaves_timers user"
  shows "timer_check_loop user (rt_tick k) k = Some (fold (timer_expire user) (due_timers k) k)
    \<and> system_ok (fold (timer_expire user) (due_timers k) k)
    \<and> due_timers (fold (timer_expire user) (due_timers k) k) = []
    \<and> rt_tick (fold (timer_expire user) (due_timers k) k) = rt_tick k"
  using assms(1,2)
proof (induction "due_timers k" arbitrary: k)
  case Nil
  show ?case
  proof (cases "rt_timer_list k")
    case (Cons tm ts)
    then have "ticks_left k tm \<noteq> 0" using Nil(1) by (simp add: due_timers_def split: if_splits)
    moreover have "ticks_left k tm < 0x7fffffff" using Nil(2) Cons by (simp add: system_ok_def timers_ok_def)
    ultimately show ?thesis
      using Cons Nil expired_iff [of k tm] by (subst timer_check_loop.simps) simp
  qed (use Nil in \<open>subst timer_check_loop.simps, simp\<close>)
next
  case (Cons tm due)
  obtain ts where list: "rt_timer_list k = tm # ts" and zero: "ticks_left k tm = 0"
    and due: "due = takeWhile (\<lambda>t. ticks_left k t = 0) ts"
    using Cons(2) by (cases "rt_timer_list k") (auto simp: due_timers_def split: if_splits)
  note step = timer_expire_step [OF Cons(3,4) assms(3) list zero]
  have due': "due_timers (timer_expire user tm k) = due" using step(4) due by simp
  note IH = Cons(1) [OF due' [symmetric] step(1,2), unfolded step(3) due']
  have "rt_tick k - tm_timeout_tick (timers k tm) < RT_TICK_MAX div 2"
    using zero by (subst expired_iff) simp_all
  then show ?case
    using IH list step(3) by (subst timer_check_loop.simps) (simp flip: Cons(2))
qed

text \<open>What the expiry of the due timers means for the threads.\<close>

lemma fold_expire_threads:
  assumes "system_ok k" "timer_pending k = []" "leaves_timers user"
  shows "th_state (threads k s) = RT_THREAD_SUSPEND \<Longrightarrow> ThreadTimer s \<notin> set (due_timers k) \<Longrightarrow>
      threads (fold (timer_expire user) (due_timers k) k) s = threads k s"
  using assms(1,2)
proof (induction "due_timers k" arbitrary: k)
  case (Cons tm due)
  obtain ts where list: "rt_timer_list k = tm # ts" and zero: "ticks_left k tm = 0"
    and due: "due = takeWhile (\<lambda>t. ticks_left k t = 0) ts"
    using Cons(2) by (cases "rt_timer_list k") (auto simp: due_timers_def split: if_splits)
  note step = timer_expire_step [OF Cons(5,6) assms(3) list zero]
  have due': "due_timers (timer_expire user tm k) = due" using step(4) due by simp
  have ne: "tm \<noteq> ThreadTimer s" "ThreadTimer s \<notin> set due" using Cons(4) by (auto simp flip: Cons(2))
  have same: "threads (timer_expire user tm k) s = threads k s" using step(5) ne(1) Cons(3) by simp
  then show ?case
    using Cons(1) [OF due' [symmetric] _ _ step(1,2)] Cons(3) ne(2) due' by (simp flip: Cons(2))
qed simp

lemma fold_expire_wakes:
  assumes "system_ok k" "timer_pending k = []" "leaves_timers user"
    and "\<forall>tm \<in> set (due_timers k). \<exists>t. tm = ThreadTimer t"
  shows "ThreadTimer s \<in> set (due_timers k)
      \<or> is_runnable (threads k s) \<and> th_error (threads k s) = - RT_ETIMEOUT \<Longrightarrow>
    is_runnable (threads (fold (timer_expire user) (due_timers k) k) s)
    \<and> th_error (threads (fold (timer_expire user) (due_timers k) k) s) = - RT_ETIMEOUT"
  using assms(1,2,4)
proof (induction "due_timers k" arbitrary: k)
  case (Cons tm due)
  obtain ts where list: "rt_timer_list k = tm # ts" and zero: "ticks_left k tm = 0"
    and due: "due = takeWhile (\<lambda>t. ticks_left k t = 0) ts"
    using Cons(2) by (cases "rt_timer_list k") (auto simp: due_timers_def split: if_splits)
  note step = timer_expire_step [OF Cons(4,5) assms(3) list zero]
  have due': "due_timers (timer_expire user tm k) = due" using step(4) due by simp
  obtain t where t: "tm = ThreadTimer t" using Cons(2,6) by (metis list.set_intros(1))
  have st: "th_state (threads k t) = RT_THREAD_SUSPEND" and np: "\<not> timer_periodic k tm"
    and kk: "kinv (timer_unlink tm k)"
    using Cons(4) list t by (auto simp: system_ok_def timer_bound_def kinv_timer_unlink)
  have tin: "tm \<in> set (rt_timer_list k)" using list by simp
  have "threads (timer_expire user tm k) = threads (rt_thread_timeout t (timer_unlink tm k))"
    using timer_expire_eq [OF Cons(4,5) tin assms(3)] np Cons(4) list t
    by (simp add: run_timeout_def system_ok_def timer_bound_def)
  moreover have "th_state (threads (timer_unlink tm k) t) = RT_THREAD_SUSPEND"
    using st by (simp add: unlinked_fields)
  ultimately have stay: "is_runnable (threads k s) \<Longrightarrow> s \<noteq> t \<Longrightarrow>
      is_runnable (threads (timer_expire user tm k) s)
      \<and> th_error (threads (timer_expire user tm k) s) = th_error (threads k s)"
    using thread_timeout_effect(4) [OF kk, of t s] by (simp add: unlinked_fields)
  have "ThreadTimer s \<in> set due \<or> is_runnable (threads (timer_expire user tm k) s)
      \<and> th_error (threads (timer_expire user tm k) s) = - RT_ETIMEOUT"
  proof (cases "s = t")
    case True
    then show ?thesis using step(6) t by blast
  next
    case False
    then show ?thesis using Cons(3) stay t by (auto simp flip: Cons(2))
  qed
  moreover have "\<forall>tm \<in> set due. \<exists>t. tm = ThreadTimer t" using Cons(2,6) by (metis list.set_intros(2))
  ultimately show ?case
    using Cons(1) [OF due' [symmetric] _ step(1,2)] due' by (simp flip: Cons(2))
qed simp

text \<open>In a sorted list the due timers are all those with no ticks to go.\<close>

lemma due_timers_iff:
  assumes "timers_ok k"
  shows "tm \<in> set (due_timers k) \<longleftrightarrow> tm \<in> set (rt_timer_list k) \<and> ticks_left k tm = 0"
proof -
  have "tm \<in> set (takeWhile (\<lambda>tm. ticks_left k tm = 0) xs) \<longleftrightarrow> tm \<in> set xs \<and> ticks_left k tm = 0"
    if "sorted_wrt (\<lambda>a b. ticks_left k a \<le> ticks_left k b) xs" for xs
    using that by (induction xs) auto
  then show ?thesis using assms by (simp add: due_timers_def timers_ok_def)
qed

lemma tick_slice_cases:
  assumes cur: "rt_current_thread k = Some c"
  obtains f where "\<And>th. th_state (f th) = th_state th" "\<And>th. th_current_priority (f th) = th_current_priority th"
    "\<And>th. th_number_mask (f th) = th_number_mask th"
    "tick_slice k = set_thread c f (k\<lparr>rt_tick := rt_tick k + 1\<rparr>)
     \<or> tick_slice k = rt_schedule (set_thread c f (k\<lparr>rt_tick := rt_tick k + 1\<rparr>))"
proof (cases "th_remaining_tick (threads k c) - 1 = 0")
  case True
  show thesis
  proof (rule that [of "\<lambda>th. th\<lparr>th_remaining_tick := th_init_tick th, th_stat := th_stat th OR RT_THREAD_STAT_YIELD\<rparr>"])
    show "tick_slice k = set_thread c (\<lambda>th. th\<lparr>th_remaining_tick := th_init_tick th, th_stat := th_stat th OR RT_THREAD_STAT_YIELD\<rparr>) (k\<lparr>rt_tick := rt_tick k + 1\<rparr>)
     \<or> tick_slice k = rt_schedule (set_thread c (\<lambda>th. th\<lparr>th_remaining_tick := th_init_tick th, th_stat := th_stat th OR RT_THREAD_STAT_YIELD\<rparr>) (k\<lparr>rt_tick := rt_tick k + 1\<rparr>))"
      using True cur by (simp add: tick_slice_def rt_thread_self_def Let_def set_thread_def)
  qed (simp_all add: th_state_def stat_defs bit.conj_disj_distrib2)
next
  case False
  then show thesis
    using cur by (intro that [of "\<lambda>th. th\<lparr>th_remaining_tick := th_remaining_tick th - 1\<rparr>"])
      (simp_all add: tick_slice_def rt_thread_self_def Let_def)
qed

lemma tick_slice_ok:
  assumes ok: "system_ok k" and cur: "rt_current_thread k = Some c" and none: "due_timers k = []"
  shows "system_ok (tick_slice k)" "rt_tick (tick_slice k) = rt_tick k + 1"
    "timer_pending (tick_slice k) = timer_pending k" "rt_timer_list (tick_slice k) = rt_timer_list k"
    "\<And>tm. tm \<in> set (rt_timer_list k) \<Longrightarrow> ticks_left (tick_slice k) tm = ticks_left k tm - 1"
    "\<And>s. s \<noteq> c \<Longrightarrow> th_state (threads k s) = RT_THREAD_SUSPEND \<Longrightarrow> threads (tick_slice k) s = threads k s"
    "\<And>s. th_state (threads k s) = RT_THREAD_SUSPEND \<Longrightarrow> th_state (threads (tick_slice k) s) = RT_THREAD_SUSPEND"
proof -
  obtain f where f: "\<And>th. th_state (f th) = th_state th" "\<And>th. th_current_priority (f th) = th_current_priority th"
    "\<And>th. th_number_mask (f th) = th_number_mask th"
    and cases: "tick_slice k = set_thread c f (k\<lparr>rt_tick := rt_tick k + 1\<rparr>)
     \<or> tick_slice k = rt_schedule (set_thread c f (k\<lparr>rt_tick := rt_tick k + 1\<rparr>))"
    using tick_slice_cases [OF cur] by blast
  let ?kt = "k\<lparr>rt_tick := rt_tick k + 1\<rparr>"
  let ?k = "set_thread c f ?kt"
  have "kinv ?kt = kinv k" by (rule kinv_cong) simp_all
  then have kk: "kinv ?k" using ok kinv_set_other [of f c ?kt] f by (simp add: system_ok_def)
  have fields: "rt_tick (tick_slice k) = rt_tick k + 1" "timer_pending (tick_slice k) = timer_pending k"
    "rt_timer_list (tick_slice k) = rt_timer_list k" "timers (tick_slice k) = timers k"
    "objects (tick_slice k) = objects k"
    using cases by (elim disjE; simp)+
  show "rt_tick (tick_slice k) = rt_tick k + 1" "timer_pending (tick_slice k) = timer_pending k"
    "rt_timer_list (tick_slice k) = rt_timer_list k"
    using fields by simp_all
  have sus: "threads (tick_slice k) s = threads ?k s" if "th_state (threads ?k s) = RT_THREAD_SUSPEND" for s
    using cases rt_schedule_suspended [OF kk that] by auto
  show thr: "\<And>s. s \<noteq> c \<Longrightarrow> th_state (threads k s) = RT_THREAD_SUSPEND \<Longrightarrow> threads (tick_slice k) s = threads k s"
    using sus by simp
  show st: "\<And>s. th_state (threads k s) = RT_THREAD_SUSPEND \<Longrightarrow> th_state (threads (tick_slice k) s) = RT_THREAD_SUSPEND"
  proof -
    fix s assume "th_state (threads k s) = RT_THREAD_SUSPEND"
    then have "th_state (threads ?k s) = RT_THREAD_SUSPEND" using f(1) by (cases "s = c") simp_all
    then show "th_state (threads (tick_slice k) s) = RT_THREAD_SUSPEND" using sus by simp
  qed
  have tok: "timers_ok k" using ok by (simp add: system_ok_def)
  have nz: "\<forall>tm \<in> set (rt_timer_list k). ticks_left k tm \<noteq> 0"
    using due_timers_iff [OF tok] none by auto
  note tick = timers_ok_tick [OF tok nz]
  have tl: "ticks_left (tick_slice k) = ticks_left ?kt" by (simp add: ticks_left_def fun_eq_iff fields)
  then show "\<And>tm. tm \<in> set (rt_timer_list k) \<Longrightarrow> ticks_left (tick_slice k) tm = ticks_left k tm - 1"
    using tick(2) by simp
  have "timers_ok (tick_slice k) = timers_ok ?kt"
    by (rule timers_ok_cong) (simp_all add: fields timer_active_def timer_flag_def)
  then have "timers_ok (tick_slice k)" using tick(1) by simp
  moreover have "kinv (tick_slice k)" using cases kk kinv_rt_schedule [OF kk] by (elim disjE) simp_all
  moreover have "timer_bound (tick_slice k) tm" if "tm \<in> set (rt_timer_list k)" for tm
  proof (rule timer_bound_cong [of _ tm k])
    show "timers (tick_slice k) tm = timers k tm" "timer_flag (tick_slice k) tm = timer_flag k tm"
      by (simp_all add: fields timer_flag_def)
    show "timer_bound k tm" using ok that by (simp add: system_ok_def)
  qed (rule st)
  moreover have "own_timer (tick_slice k) t" if "is_active (threads (tick_slice k) t)" for t
  proof -
    have "is_active (threads ?k t)" using that cases rt_schedule_active [OF kk, of t] by (elim disjE) simp_all
    then have "is_active (threads k t)" using f(1) by (cases "t = c") (simp_all add: is_active_def)
    then have "own_timer k t" using ok by (simp add: system_ok_def)
    then show ?thesis by (simp add: own_timer_def fields timer_periodic_def timer_flag_def)
  qed
  ultimately show "system_ok (tick_slice k)" by (simp add: system_ok_def fields)
qed

lemma tick_increase_spec:
  assumes ok: "system_ok k" and pend: "timer_pending k = []" and none: "due_timers k = []"
    and cur: "rt_current_thread k = Some c" and user: "leaves_timers user"
  shows "\<exists>k'. rt_tick_increase user k = Some k' \<and> system_ok k' \<and> due_timers k' = []
    \<and> rt_tick k' = rt_tick k + 1
    \<and> (\<forall>s. s \<noteq> c \<and> th_state (threads k s) = RT_THREAD_SUSPEND
           \<and> (ThreadTimer s \<in> set (rt_timer_list k) \<longrightarrow> ticks_left k (ThreadTimer s) \<noteq> 1)
         \<longrightarrow> threads k' s = threads k s)
    \<and> ((\<forall>n. UserTimer n \<in> set (rt_timer_list k) \<longrightarrow> ticks_left k (UserTimer n) \<noteq> 1) \<longrightarrow>
        (\<forall>s. ThreadTimer s \<in> set (rt_timer_list k) \<and> ticks_left k (ThreadTimer s) = 1
          \<longrightarrow> is_runnable (threads k' s) \<and> th_error (threads k' s) = - RT_ETIMEOUT))"
proof -
  note slice = tick_slice_ok [OF ok cur none]
  let ?k1 = "tick_slice k"
  have p1: "timer_pending ?k1 = []" "?k1\<lparr>timer_pending := []\<rparr> = ?k1" using slice(3) pend by simp_all
  note check = timer_check_loop_due [OF slice(1) p1(1) user]
  let ?k' = "fold (timer_expire user) (due_timers ?k1) ?k1"
  have tok: "timers_ok k" "timers_ok ?k1" using ok slice(1) by (simp_all add: system_ok_def)
  have nz: "tm \<in> set (rt_timer_list k) \<Longrightarrow> ticks_left k tm \<noteq> 0" for tm
    using due_timers_iff [OF tok(1)] none by auto
  have due: "tm \<in> set (due_timers ?k1) \<longleftrightarrow> tm \<in> set (rt_timer_list k) \<and> ticks_left k tm = 1" for tm
    using nz [of tm] slice(4) slice(5) [of tm] by (auto simp: due_timers_iff [OF tok(2)])
  have "threads ?k' s = threads k s"
    if "s \<noteq> c" "th_state (threads k s) = RT_THREAD_SUSPEND"
      "ThreadTimer s \<in> set (rt_timer_list k) \<longrightarrow> ticks_left k (ThreadTimer s) \<noteq> 1" for s
    using fold_expire_threads [OF slice(1) p1(1) user slice(7) [OF that(2)]] slice(6) [OF that(1,2)] that(3)
    by (auto simp: due)
  moreover have "is_runnable (threads ?k' s) \<and> th_error (threads ?k' s) = - RT_ETIMEOUT"
    if "\<forall>n. UserTimer n \<in> set (rt_timer_list k) \<longrightarrow> ticks_left k (UserTimer n) \<noteq> 1"
      "ThreadTimer s \<in> set (rt_timer_list k)" "ticks_left k (ThreadTimer s) = 1" for s
  proof -
    have "\<forall>tm \<in> set (due_timers ?k1). \<exists>t. tm = ThreadTimer t"
    proof
      fix tm assume "tm \<in> set (due_timers ?k1)"
      then show "\<exists>t. tm = ThreadTimer t" using that(1) due [of tm] by (cases tm rule: tmid.exhaust) blast+
    qed
    then show ?thesis
      using fold_expire_wakes [OF slice(1) p1(1) user] that(2,3) by (simp add: due)
  qed
  ultimately show ?thesis
    using check slice(2) by (auto simp: rt_tick_increase_def rt_timer_check_def p1(2))
qed

subsection \<open>The building blocks keep the invariant of the system\<close>

lemma system_okD:
  "system_ok k \<Longrightarrow> kinv k" "system_ok k \<Longrightarrow> timers_ok k"
  "system_ok k \<Longrightarrow> tm \<in> set (rt_timer_list k) \<Longrightarrow> timer_bound k tm"
  "system_ok k \<Longrightarrow> is_active (threads k t) \<Longrightarrow> own_timer k t"
  by (simp_all add: system_ok_def)

lemma system_ok_threads:
  assumes ok: "system_ok k" and kinv: "kinv k'"
    and same: "rt_timer_list k' = rt_timer_list k" "timer_pending k' = timer_pending k"
      "timers k' = timers k" "rt_tick k' = rt_tick k" "\<And>tm. timer_flag k' tm = timer_flag k tm"
    and sus: "\<And>s. ThreadTimer s \<in> set (rt_timer_list k) \<Longrightarrow> th_state (threads k s) = RT_THREAD_SUSPEND \<Longrightarrow>
        th_state (threads k' s) = RT_THREAD_SUSPEND"
    and act: "\<And>s. is_active (threads k' s) \<Longrightarrow> is_active (threads k s)"
  shows "system_ok k'"
proof -
  have "timers_ok k' = timers_ok k"
    by (rule timers_ok_cong) (simp_all add: same timer_active_def)
  moreover have "timer_bound k' tm" if "tm \<in> set (rt_timer_list k)" for tm
    using that sus system_okD(3) [OF ok that] by (intro timer_bound_cong [of k' tm k]) (auto simp: same)
  moreover have "own_timer k' t" if "is_active (threads k' t)" for t
    using system_okD(4) [OF ok act [OF that]] by (simp add: own_timer_def same timer_periodic_def)
  ultimately show ?thesis using kinv system_okD(2) [OF ok] by (simp add: system_ok_def same)
qed

lemma system_ok_cong:
  assumes "threads k = threads k'" "tq k = tq k'"
    "rt_thread_ready_priority_group k = rt_thread_ready_priority_group k'"
    "rt_current_thread k = rt_current_thread k'" "rt_timer_list k = rt_timer_list k'"
    "timer_pending k = timer_pending k'" "timers k = timers k'" "rt_tick k = rt_tick k'"
    "\<And>tm. timer_flag k tm = timer_flag k' tm"
  shows "system_ok k = system_ok k'"
proof -
  have "kinv k = kinv k'" using assms(1-4) by (rule kinv_cong)
  moreover have "timers_ok k = timers_ok k'"
    by (rule timers_ok_cong) (simp_all add: assms timer_active_def)
  moreover have "timer_bound k tm = timer_bound k' tm" for tm
    by (simp add: timer_bound_def timer_periodic_def assms split: tmid.split)
  moreover have "own_timer k t = own_timer k' t" for t
    by (simp add: own_timer_def timer_periodic_def assms)
  ultimately show ?thesis by (simp add: system_ok_def assms)
qed

lemma system_ok_schedule:
  assumes ok: "system_ok k" shows "system_ok (rt_schedule k)"
  by (rule system_ok_threads [OF ok])
    (use system_okD(1) [OF ok] in \<open>simp_all add: kinv_rt_schedule rt_schedule_suspended rt_schedule_active timer_flag_def\<close>)

lemma system_ok_stop:
  assumes ok: "system_ok k"
  shows "system_ok (snd (rt_timer_stop tm k))" "tm \<notin> set (rt_timer_list (snd (rt_timer_stop tm k)))"
proof -
  let ?j = "snd (rt_timer_stop tm k)"
  have "set (rt_timer_list ?j) \<subseteq> set (rt_timer_list k) - {tm}"
    using system_okD(2) [OF ok] timer_stop_fields(1) [of k tm]
    by (cases "timer_active k tm") (auto simp: timer_stop_inactive timers_ok_def)
  then show "tm \<notin> set (rt_timer_list ?j)" by blast
  have per: "timer_periodic ?j t = timer_periodic k t" for t
    by (auto simp: rt_timer_stop_def timer_periodic_def)
  have "timer_bound ?j t" if "timer_bound k t" for t
    using that by (simp add: timer_bound_def per split: tmid.splits)
  moreover have "own_timer ?j t = own_timer k t" for t by (simp add: own_timer_def per)
  ultimately show "system_ok ?j"
    using ok \<open>set (rt_timer_list ?j) \<subseteq> _\<close> by (auto simp: system_ok_def timers_ok_stop)
qed

lemma system_ok_suspend:
  assumes ok: "system_ok k" shows "system_ok (snd (rt_thread_suspend t k))"
proof (cases "th_state (threads k t) = RT_THREAD_READY \<or> th_state (threads k t) = RT_THREAD_RUNNING")
  case True
  let ?j = "set_thread t (with_state RT_THREAD_SUSPEND) (rt_schedule_remove_thread t k)"
  have eq: "snd (rt_thread_suspend t k) = snd (rt_timer_stop (ThreadTimer t) ?j)"
    using True by (auto simp: rt_thread_suspend_def Let_def)
  have "kinv ?j" using kinv_thread_suspend [OF system_okD(1) [OF ok], of t] by (simp add: eq)
  then have "system_ok ?j"
    using True by (intro system_ok_threads [OF ok]) (auto simp: timer_flag_def is_active_def split: if_splits)
  then show ?thesis unfolding eq by (rule system_ok_stop)
qed (use ok in \<open>simp add: rt_thread_suspend_def Let_def\<close>)

lemma system_ok_resume:
  assumes ok: "system_ok k" shows "system_ok (snd (rt_thread_resume t k))"
proof (cases "th_state (threads k t) = RT_THREAD_SUSPEND")
  case True
  let ?j = "snd (rt_timer_stop (ThreadTimer t) k)" and ?r = "snd (rt_thread_resume t k)"
  have eq: "?r = rt_schedule_insert_thread t (snd (rt_timer_stop (ThreadTimer t) (tlist_remove t k)))"
    using True by (simp add: rt_thread_resume_def Let_def)
  have act: "timer_active (tlist_remove t k) (ThreadTimer t) = timer_active k (ThreadTimer t)"
    by (simp add: timer_active_def timer_flag_def)
  show ?thesis
  proof (rule system_ok_threads [OF system_ok_stop(1) [OF ok, of "ThreadTimer t"]])
    show "kinv ?r" using system_okD(1) [OF ok] by (rule kinv_thread_resume)
    show "rt_timer_list ?r = rt_timer_list ?j" "timer_pending ?r = timer_pending ?j"
      "timers ?r = timers ?j" "rt_tick ?r = rt_tick ?j" "timer_flag ?r tm = timer_flag ?j tm" for tm
      by (simp_all add: eq rt_timer_stop_def act timer_flag_def set_timer_flag_def)
    show "th_state (threads ?r s) = RT_THREAD_SUSPEND"
      if "ThreadTimer s \<in> set (rt_timer_list ?j)" "th_state (threads ?j s) = RT_THREAD_SUSPEND" for s
      using system_ok_stop(2) [OF ok, of "ThreadTimer t"] that
      by (cases "s = t") (simp_all add: eq threads_insert_thread)
    show "is_active (threads ?r s) \<Longrightarrow> is_active (threads ?j s)" for s
      using True by (cases "s = t") (simp_all add: eq threads_insert_thread is_active_def)
  qed
qed (use ok in \<open>simp add: rt_thread_resume_def\<close>)

lemma arm_thread_timer_fields:
  "tm_action (timers (arm_thread_timer t n k) tm) = tm_action (timers k tm)"
  "timer_periodic (arm_thread_timer t n k) tm = timer_periodic k tm"
  "set (rt_timer_list (arm_thread_timer t n k)) \<subseteq> insert (ThreadTimer t) (set (rt_timer_list k))"
  "tm_init_tick (timers (arm_thread_timer t n k) (UserTimer i)) = tm_init_tick (timers k (UserTimer i))"
  "ticks_left (arm_thread_timer t n k) tm = (if tm = ThreadTimer t then unat n else ticks_left k tm)"
  "ThreadTimer t \<in> set (rt_timer_list (arm_thread_timer t n k))"
proof -
  have sub: "set (timer_insert tab x xs) \<subseteq> insert x (set xs)" for tab x xs by (induction xs) auto
  have x: "x \<in> set (timer_insert tab x xs)" for tab x xs by (induction xs) auto
  let ?s = "snd (snd (rt_timer_control (ThreadTimer t) RT_TIMER_CTRL_SET_TIME n k))"
  have s: "timers ?s = (timers k)(ThreadTimer t := (timers k (ThreadTimer t))\<lparr>tm_init_tick := n\<rparr>)"
    "rt_timer_list ?s = rt_timer_list k" "timer_periodic ?s tm = timer_periodic k tm" for tm
    by (simp_all add: rt_timer_control_def timer_periodic_def)
  show "tm_action (timers (arm_thread_timer t n k) tm) = tm_action (timers k tm)"
    "timer_periodic (arm_thread_timer t n k) tm = timer_periodic k tm"
    "tm_init_tick (timers (arm_thread_timer t n k) (UserTimer i)) = tm_init_tick (timers k (UserTimer i))"
    by (auto simp: arm_thread_timer_def timer_start_fields s)
  show "set (rt_timer_list (arm_thread_timer t n k)) \<subseteq> insert (ThreadTimer t) (set (rt_timer_list k))"
    unfolding arm_thread_timer_def timer_start_fields(2) s using sub by fastforce
  show "ThreadTimer t \<in> set (rt_timer_list (arm_thread_timer t n k))"
    unfolding arm_thread_timer_def timer_start_fields(2) by (rule x)
  show "ticks_left (arm_thread_timer t n k) tm = (if tm = ThreadTimer t then unat n else ticks_left k tm)"
    by (simp add: arm_thread_timer_def ticks_left_start s) (simp add: ticks_left_def s)
qed

lemma system_ok_arm:
  assumes ok: "system_ok k" and st: "th_state (threads k t) = RT_THREAD_SUSPEND" and n: "n < 0x7fffffff"
  shows "system_ok (arm_thread_timer t n k)"
proof -
  let ?j = "arm_thread_timer t n k"
  have own: "own_timer k t" using system_okD(4) [OF ok, of t] st by (simp add: is_active_def)
  have "timers_ok ?j"
    unfolding arm_thread_timer_def using system_okD(2) [OF ok] n
    by (intro timers_ok_start) (simp_all add: rt_timer_control_def timers_ok_set_time [unfolded rt_timer_control_def, simplified])
  moreover have "timer_bound ?j tm" if "tm \<in> set (rt_timer_list ?j)" for tm
  proof (cases "tm = ThreadTimer t")
    case True
    then show ?thesis using own st by (simp add: timer_bound_def own_timer_def arm_thread_timer_fields)
  next
    case False
    then have "timer_bound k tm" using that arm_thread_timer_fields(3) system_okD(3) [OF ok] by blast
    then show ?thesis by (simp add: timer_bound_def arm_thread_timer_fields split: tmid.splits)
  qed
  moreover have "own_timer ?j s = own_timer k s" for s by (simp add: own_timer_def arm_thread_timer_fields)
  ultimately show ?thesis using ok by (simp add: system_ok_def)
qed

lemma system_ok_set_other:
  assumes "\<And>th. th_state (f th) = th_state th"
    and "\<And>th. th_current_priority (f th) = th_current_priority th"
    and "\<And>th. th_number_mask (f th) = th_number_mask th"
    and "system_ok k"
  shows "system_ok (set_thread t f k)"
  using assms
  by (intro system_ok_threads [OF assms(4)])
    (auto simp: kinv_set_other system_ok_def timer_flag_def is_active_def split: if_splits)

end
