(* ===== verification/Wait_List.thy ===== *)
theory Wait_List
  imports Expiry
begin

section \<open>Lists of waiting threads (the helpers of \<open>rt-thread/src/ipc.c\<close>)\<close>

text \<open>
  The helpers on the lists of suspended threads that all the objects of \<^verbatim>\<open>ipc.c\<close> share, and the
  contract of such a list, the locale \<open>wait_list\<close>, interpreted for each kind of list. A time is a
  signed 32-bit number of ticks: 0 does not wait, a negative number waits for ever.
\<close>

abbreviation (input) RT_IPC_FLAG_FIFO :: u8 where "RT_IPC_FLAG_FIFO \<equiv> 0x00"
abbreviation (input) RT_IPC_FLAG_PRIO :: u8 where "RT_IPC_FLAG_PRIO \<equiv> 0x01"
abbreviation (input) RT_IPC_CMD_RESET :: int where "RT_IPC_CMD_RESET \<equiv> 0x01"
abbreviation (input) RT_WAITING_NO :: "32 word" where "RT_WAITING_NO \<equiv> 0"

subsection \<open>The lists of suspended threads\<close>

definition rt_ipc_object_init :: "tqueue \<Rightarrow> kernel \<Rightarrow> kernel" where
  "rt_ipc_object_init q k = k\<lparr>tq := (tq k)(q := [])\<rparr>"

text \<open>In priority order: before the first waiting thread of a larger number.\<close>

fun prio_insert :: "(nat \<Rightarrow> rt_thread) \<Rightarrow> nat \<Rightarrow> nat list \<Rightarrow> nat list" where
  "prio_insert tab thread [] = [thread]"
| "prio_insert tab thread (sthread # ts) =
    (if th_current_priority (tab thread) < th_current_priority (tab sthread)
     then thread # sthread # ts
     else sthread # prio_insert tab thread ts)"

definition rt_ipc_list_suspend :: "tqueue \<Rightarrow> nat \<Rightarrow> u8 \<Rightarrow> kernel \<Rightarrow> kernel" where
  "rt_ipc_list_suspend q thread flag k =
    (let k = snd (rt_thread_suspend thread k)
     in if flag = RT_IPC_FLAG_FIFO then tlist_insert_tail q thread k
        else if flag = RT_IPC_FLAG_PRIO
        then k\<lparr>tq := (tq k)(q := prio_insert (threads k) thread (tq k q))\<rparr>
        else k)"

definition rt_ipc_list_resume :: "tqueue \<Rightarrow> kernel \<Rightarrow> kernel" where
  "rt_ipc_list_resume q k = snd (rt_thread_resume (hd (tq k q)) k)"

text \<open>The loop of \<open>rt_ipc_list_resume_all\<close> ends when every waiting thread can be resumed.\<close>

partial_function (option) rt_ipc_list_resume_all :: "tqueue \<Rightarrow> kernel \<Rightarrow> kernel option" where
  "rt_ipc_list_resume_all q k =
    (case tq k q of
       [] \<Rightarrow> Some k
     | thread # _ \<Rightarrow>
        rt_ipc_list_resume_all q
          (snd (rt_thread_resume thread (set_thread thread (th_error_update (\<lambda>_. - RT_ERROR)) k))))"

text \<open>The common middle of the functions that wait: the thread enters the list, with its timer
  armed when the wait is bounded. Their common end: the error of the thread, when it runs again.\<close>

definition wait_on :: "tqueue \<Rightarrow> nat \<Rightarrow> u8 \<Rightarrow> 32 word \<Rightarrow> kernel \<Rightarrow> kernel" where
  "wait_on q thread flag time k =
    (let k = rt_ipc_list_suspend q thread flag k
     in if 0 < sint time then arm_thread_timer thread time k else k)"

definition wait_result :: "nat \<Rightarrow> kernel \<Rightarrow> rt_err_t \<times> kernel" where
  "wait_result thread k =
    (if th_error (threads k thread) \<noteq> RT_EOK then (th_error (threads k thread), k) else (RT_EOK, k))"

subsection \<open>What the operations on a wait list guarantee\<close>

lemma list_suspend_frame [simp]:
  "rt_scheduler_lock_nest (rt_ipc_list_suspend q t fl k) = rt_scheduler_lock_nest k"
  "rt_current_thread (rt_ipc_list_suspend q t fl k) = rt_current_thread k"
  "rt_current_priority (rt_ipc_list_suspend q t fl k) = rt_current_priority k"
  "rt_interrupt_nest (rt_ipc_list_suspend q t fl k) = rt_interrupt_nest k"
  "rt_tick (rt_ipc_list_suspend q t fl k) = rt_tick k"
  "timers (rt_ipc_list_suspend q t fl k) = timers k"
  "random_nr (rt_ipc_list_suspend q t fl k) = random_nr k"
  "object_list (rt_ipc_list_suspend q t fl k) = object_list k"
  "semaphores (rt_ipc_list_suspend q t fl k) = semaphores k"
  "mutexes (rt_ipc_list_suspend q t fl k) = mutexes k"
  "events (rt_ipc_list_suspend q t fl k) = events k"
  "mailboxes (rt_ipc_list_suspend q t fl k) = mailboxes k"
  "messagequeues (rt_ipc_list_suspend q t fl k) = messagequeues k"
  "kernel_calls (rt_ipc_list_suspend q t fl k) = kernel_calls k"
  by (simp_all add: rt_ipc_list_suspend_def Let_def)

lemma list_resume_frame [simp]:
  "rt_scheduler_lock_nest (rt_ipc_list_resume q k) = rt_scheduler_lock_nest k"
  "rt_current_thread (rt_ipc_list_resume q k) = rt_current_thread k"
  "rt_current_priority (rt_ipc_list_resume q k) = rt_current_priority k"
  "rt_interrupt_nest (rt_ipc_list_resume q k) = rt_interrupt_nest k"
  "rt_tick (rt_ipc_list_resume q k) = rt_tick k"
  "timers (rt_ipc_list_resume q k) = timers k"
  "random_nr (rt_ipc_list_resume q k) = random_nr k"
  "object_list (rt_ipc_list_resume q k) = object_list k"
  "semaphores (rt_ipc_list_resume q k) = semaphores k"
  "mutexes (rt_ipc_list_resume q k) = mutexes k"
  "events (rt_ipc_list_resume q k) = events k"
  "mailboxes (rt_ipc_list_resume q k) = mailboxes k"
  "messagequeues (rt_ipc_list_resume q k) = messagequeues k"
  "kernel_calls (rt_ipc_list_resume q k) = kernel_calls k"
  by (simp_all add: rt_ipc_list_resume_def Let_def)

lemma wait_on_frame [simp]:
  "rt_scheduler_lock_nest (wait_on q t fl n k) = rt_scheduler_lock_nest k"
  "rt_current_thread (wait_on q t fl n k) = rt_current_thread k"
  "rt_current_priority (wait_on q t fl n k) = rt_current_priority k"
  "rt_interrupt_nest (wait_on q t fl n k) = rt_interrupt_nest k"
  "rt_tick (wait_on q t fl n k) = rt_tick k"
  "object_list (wait_on q t fl n k) = object_list k"
  "semaphores (wait_on q t fl n k) = semaphores k"
  "mutexes (wait_on q t fl n k) = mutexes k"
  "events (wait_on q t fl n k) = events k"
  "mailboxes (wait_on q t fl n k) = mailboxes k"
  "messagequeues (wait_on q t fl n k) = messagequeues k"
  "kernel_calls (wait_on q t fl n k) = kernel_calls k"
  by (simp_all add: wait_on_def Let_def)

lemma reschedule_blocks:
  assumes inv: "kinv k" and cur: "rt_current_thread k = Some t"
    and st: "th_state (threads k t) = RT_THREAD_SUSPEND"
    and free: "rt_scheduler_lock_nest k = 0" "rt_interrupt_nest k = 0" and other: "u \<in> set (tq k (ReadyQ p))"
  shows "reschedule_then t rest k = Blocked (rt_schedule k)"
    and "rt_current_thread (rt_schedule k) \<noteq> Some t"
proof -
  have ib: "kinv_but {} k" using inv by blast
  have u: "th_state (threads k u) = RT_THREAD_READY" "unat (th_current_priority (threads k u)) = p"
    using kinv_fits [OF ib other] by simp_all
  have "prio_ok (threads k u)" using active_prio [OF ib, of u] u by (simp add: is_active_def)
  then have "p < 32" using u by (simp add: prio_ok_def RT_THREAD_PRIORITY_MAX_def)
  then have "bit (rt_thread_ready_priority_group k) p" using kinv_group [OF ib, of p] other by auto
  then have gr: "rt_thread_ready_priority_group k \<noteq> 0" by auto
  have nk: "\<not> keeps_cpu k t" using st by (simp add: keeps_cpu_def)
  obtain h q where hp: "get_highest_priority_thread k = (h, q)" by fastforce
  have "th_state (threads k h) = RT_THREAD_READY" using highest_ready [OF ib gr hp] by blast
  then have "h \<noteq> t" using st by auto
  then show ne: "rt_current_thread (rt_schedule k) \<noteq> Some t"
    using rt_schedule_switch(1) [OF inv cur free(1) gr nk hp] by simp
  then show "reschedule_then t rest k = Blocked (rt_schedule k)"
    using free by (simp add: reschedule_then_def Let_def)
qed

lemma prio_insert_split:
  "prio_insert tab t xs =
     takeWhile (\<lambda>s. \<not> th_current_priority (tab t) < th_current_priority (tab s)) xs @ t #
     dropWhile (\<lambda>s. \<not> th_current_priority (tab t) < th_current_priority (tab s)) xs"
  by (induction xs) auto

lemma prio_insert_set [simp]: "set (prio_insert tab t xs) = insert t (set xs)"
  by (induction xs) auto

lemma prio_insert_cong:
  "(\<And>s. th_current_priority (tab s) = th_current_priority (tab' s)) \<Longrightarrow> prio_insert tab t xs = prio_insert tab' t xs"
  by (induction xs) auto

text \<open>The scheduler leaves every list but the ready lists alone.\<close>

lemma rt_schedule_tq:
  assumes inv: "kinv k" and q: "\<And>p. q \<noteq> ReadyQ p"
  shows "tq (rt_schedule k) q = tq k q"
proof (cases "rt_scheduler_lock_nest k \<noteq> 0 \<or> rt_thread_ready_priority_group k = 0
    \<or> rt_current_thread k = None")
  case True
  then show ?thesis by (simp add: rt_schedule_idle)
next
  case False
  then obtain c where cur: "rt_current_thread k = Some c"
    and go: "rt_scheduler_lock_nest k = 0" "rt_thread_ready_priority_group k \<noteq> 0" by auto
  obtain t p where hp: "get_highest_priority_thread k = (t, p)" by fastforce
  show ?thesis
  proof (cases "keeps_cpu k c")
    case True
    then show ?thesis using rt_schedule_keep [OF inv cur go(1) True] by simp
  next
    case False
    show ?thesis using rt_schedule_switch(2) [OF inv cur go False hp, of q] q by simp
  qed
qed

lemma thread_suspend_effect:
  assumes "th_state (threads k t) = RT_THREAD_READY \<or> th_state (threads k t) = RT_THREAD_RUNNING"
  shows "threads (snd (rt_thread_suspend t k)) = (threads k)(t := with_state RT_THREAD_SUSPEND (threads k t))"
    and "tq (snd (rt_thread_suspend t k)) q = removeAll t (tq k q)"
  using assms by (auto simp: rt_thread_suspend_def Let_def)

lemma thread_resume_effect:
  assumes "th_state (threads k t) = RT_THREAD_SUSPEND"
  shows "threads (snd (rt_thread_resume t k)) = (threads k)(t := with_state
      (if rt_current_thread k = Some t then RT_THREAD_RUNNING else RT_THREAD_READY) (threads k t))"
    and "(\<And>p. q \<noteq> ReadyQ p) \<Longrightarrow> tq (snd (rt_thread_resume t k)) q = removeAll t (tq k q)"
  using assms by (auto simp: rt_thread_resume_def Let_def threads_insert_thread rt_schedule_insert_thread_def)

lemma suspended_unlinked:
  assumes ok: "system_ok k" and st: "th_state (threads k t) = RT_THREAD_READY \<or> th_state (threads k t) = RT_THREAD_RUNNING"
  defines "k' \<equiv> snd (rt_thread_suspend t k)"
  shows "kinv_but {t} k'" "system_ok k'" "th_state (threads k' t) = RT_THREAD_SUSPEND" "\<And>q. t \<notin> set (tq k' q)"
proof -
  show "system_ok k'" unfolding k'_def using ok by (rule system_ok_suspend)
  show "th_state (threads k' t) = RT_THREAD_SUSPEND" using thread_suspend_effect(1) [OF st] by (simp add: k'_def)
  show out: "\<And>q. t \<notin> set (tq k' q)" using thread_suspend_effect(2) [OF st] by (simp add: k'_def)
  then show "kinv_but {t} k'" using system_okD(1) [OF \<open>system_ok k'\<close>] by (intro kinv_but_insert) auto
qed

text \<open>
  A list of threads waiting for an object: its members are suspended. The objects of
  \<^verbatim>\<open>ipc.c\<close> rely on these facts for each of their lists.
\<close>

locale wait_list =
  fixes q :: tqueue
  assumes waits: "queue_fits q th \<longleftrightarrow> th_state th = RT_THREAD_SUSPEND"
begin

lemma not_ready: "q \<noteq> ReadyQ p"
proof
  assume "q = ReadyQ p"
  then show False using waits [of "zero_thread\<lparr>th_stat := RT_THREAD_SUSPEND\<rparr>"] by simp
qed

lemma not_defunct: "q \<noteq> DefunctQ"
proof
  assume "q = DefunctQ"
  then show False using waits [of "zero_thread\<lparr>th_stat := RT_THREAD_SUSPEND\<rparr>"] by simp
qed

lemma members_suspended:
  "system_ok k \<Longrightarrow> t \<in> set (tq k q) \<Longrightarrow> th_state (threads k t) = RT_THREAD_SUSPEND"
  using kinv_fits [OF kinvD [OF system_okD(1)]] waits by blast

lemma schedule_same: "system_ok k \<Longrightarrow> tq (rt_schedule k) q = tq k q"
  by (rule rt_schedule_tq [OF system_okD(1) not_ready])

lemma list_suspend:
  assumes ok: "system_ok k" and st: "th_state (threads k t) = RT_THREAD_READY \<or> th_state (threads k t) = RT_THREAD_RUNNING"
    and flag: "flag = RT_IPC_FLAG_FIFO \<or> flag = RT_IPC_FLAG_PRIO"
  shows "system_ok (rt_ipc_list_suspend q t flag k)"
    and "threads (rt_ipc_list_suspend q t flag k) = (threads k)(t := with_state RT_THREAD_SUSPEND (threads k t))"
    and "tq (rt_ipc_list_suspend q t flag k) q =
      (if flag = RT_IPC_FLAG_FIFO then tq k q @ [t] else prio_insert (threads k) t (tq k q))"
proof -
  let ?s = "snd (rt_thread_suspend t k)" and ?j = "rt_ipc_list_suspend q t flag k"
  note un = suspended_unlinked [OF ok st]
  have notin: "t \<notin> set (tq k q)"
    using members_suspended [OF ok, of t] st by auto
  have tqs: "tq ?s q = tq k q" using thread_suspend_effect(2) [OF st] notin by simp
  have thr: "threads ?s = (threads k)(t := with_state RT_THREAD_SUSPEND (threads k t))"
    by (rule thread_suspend_effect(1) [OF st])
  have pi: "prio_insert (threads ?s) t (tq k q) = prio_insert (threads k) t (tq k q)"
    unfolding prio_insert_split thr using notin
    by (intro arg_cong2 [where f = "(@)"] arg_cong [where f = "(#) t"] takeWhile_cong dropWhile_cong) auto
  show "threads ?j = (threads k)(t := with_state RT_THREAD_SUSPEND (threads k t))"
    using flag thr by (auto simp: rt_ipc_list_suspend_def Let_def)
  show "tq ?j q = (if flag = RT_IPC_FLAG_FIFO then tq k q @ [t] else prio_insert (threads k) t (tq k q))"
    using flag pi by (auto simp: rt_ipc_list_suspend_def Let_def tqs)
  obtain xs ys where new: "tq ?j = (tq ?s)(q := xs @ t # ys)" "xs @ ys = tq ?s q"
  proof (cases "flag = RT_IPC_FLAG_FIFO")
    case True
    then show thesis by (intro that [of "tq k q" "[]"]) (simp_all add: rt_ipc_list_suspend_def Let_def tqs)
  next
    case False
    let ?P = "\<lambda>s. \<not> th_current_priority (threads ?s t) < th_current_priority (threads ?s s)"
    show thesis
      using False flag by (intro that [of "takeWhile ?P (tq k q)" "dropWhile ?P (tq k q)"])
        (simp_all add: rt_ipc_list_suspend_def Let_def tqs prio_insert_split)
  qed
  have same: "threads ?j = threads ?s" "rt_current_thread ?j = rt_current_thread ?s"
    "rt_thread_ready_priority_group ?j = rt_thread_ready_priority_group ?s"
    "rt_timer_list ?j = rt_timer_list ?s" "timer_pending ?j = timer_pending ?s" "timers ?j = timers ?s"
    "rt_tick ?j = rt_tick ?s" "objects ?j = objects ?s"
    by (simp_all add: rt_ipc_list_suspend_def Let_def)
  have "kinv_but {} ?j"
  proof (rule kinv_wait_insert [OF _ _ _ _ _ new same(1-3)])
    show "kinv_but (insert t {}) ?s" using un(1) by simp
    show "is_active (threads ?s t) \<longrightarrow> prio_ok (threads ?s t)"
      using active_prio [OF kinvD [OF system_okD(1) [OF un(2)]], of t] by simp
    show "queue_fits q (threads ?s t)" using waits un(3) by simp
  qed (auto simp: not_ready)
  then have "kinv ?j"
    using kinv_current_not_ready [OF system_okD(1) [OF un(2)]] by (intro kinv_move) (auto simp: same)
  then show "system_ok ?j"
    by (rule system_ok_threads [OF un(2)]) (simp_all add: same timer_flag_def)
qed

lemma list_suspend_other:
  assumes "th_state (threads k t) = RT_THREAD_READY \<or> th_state (threads k t) = RT_THREAD_RUNNING"
    and "q' \<noteq> q"
  shows "tq (rt_ipc_list_suspend q t flag k) q' = removeAll t (tq k q')"
  using assms by (simp add: rt_ipc_list_suspend_def Let_def thread_suspend_effect(2))

lemma wait_on:
  assumes ok: "system_ok k" and st: "th_state (threads k t) = RT_THREAD_READY \<or> th_state (threads k t) = RT_THREAD_RUNNING"
    and flag: "flag = RT_IPC_FLAG_FIFO \<or> flag = RT_IPC_FLAG_PRIO" and time: "time \<noteq> 0x7fffffff"
  defines "k' \<equiv> wait_on q t flag time k"
  shows "system_ok k'"
    and "threads k' = (threads k)(t := with_state RT_THREAD_SUSPEND (threads k t))"
    and "tq k' q = (if flag = RT_IPC_FLAG_FIFO then tq k q @ [t] else prio_insert (threads k) t (tq k q))"
    and "q' \<noteq> q \<Longrightarrow> tq k' q' = removeAll t (tq k q')"
    and "0 < sint time \<Longrightarrow> ThreadTimer t \<in> set (rt_timer_list k')
           \<and> ticks_left k' (ThreadTimer t) = unat time"
proof -
  note sus = list_suspend [OF ok st flag]
  have bound: "0 < sint time \<Longrightarrow> time < 0x7fffffff" using time by (rule time_bound [rotated])
  show "system_ok k'"
    using sus(1,2) bound unfolding k'_def wait_on_def Let_def
    by (auto intro!: system_ok_arm)
  show "threads k' = (threads k)(t := with_state RT_THREAD_SUSPEND (threads k t))"
    "tq k' q = (if flag = RT_IPC_FLAG_FIFO then tq k q @ [t] else prio_insert (threads k) t (tq k q))"
    by (cases "0 < sint time";
        simp only: k'_def wait_on_def Let_def if_True if_False arm_thread_timer_frame sus(2,3))+
  show "q' \<noteq> q \<Longrightarrow> tq k' q' = removeAll t (tq k q')"
    using list_suspend_other [OF st] by (simp add: k'_def wait_on_def Let_def)
  show "0 < sint time \<Longrightarrow> ThreadTimer t \<in> set (rt_timer_list k') \<and> ticks_left k' (ThreadTimer t) = unat time"
    by (simp add: k'_def wait_on_def Let_def arm_thread_timer_fields)
qed

lemma list_resume:
  assumes ok: "system_ok k" and q: "tq k q = t # ts"
  shows "system_ok (rt_ipc_list_resume q k)"
    and "tq (rt_ipc_list_resume q k) q = ts"
    and "threads (rt_ipc_list_resume q k) = (threads k)(t := with_state
      (if rt_current_thread k = Some t then RT_THREAD_RUNNING else RT_THREAD_READY) (threads k t))"
    and "is_runnable (threads (rt_ipc_list_resume q k) t)"
    and "(\<And>p. q' \<noteq> ReadyQ p) \<Longrightarrow> q' \<noteq> q \<Longrightarrow> tq (rt_ipc_list_resume q k) q' = tq k q'"
proof -
  have st: "th_state (threads k t) = RT_THREAD_SUSPEND" using members_suspended [OF ok] q by simp
  have dist: "distinct (t # ts)" using kinv_distinct [OF kinvD [OF system_okD(1) [OF ok]], of q] q by simp
  show "system_ok (rt_ipc_list_resume q k)"
    unfolding rt_ipc_list_resume_def using ok by (rule system_ok_resume)
  show "tq (rt_ipc_list_resume q k) q = ts"
    using thread_resume_effect(2) [OF st, of q] not_ready q dist by (simp add: rt_ipc_list_resume_def)
  show thr: "threads (rt_ipc_list_resume q k) = (threads k)(t := with_state
      (if rt_current_thread k = Some t then RT_THREAD_RUNNING else RT_THREAD_READY) (threads k t))"
    using thread_resume_effect(1) [OF st] q by (simp add: rt_ipc_list_resume_def)
  show "is_runnable (threads (rt_ipc_list_resume q k) t)" by (simp add: thr is_runnable_def)
  assume q': "\<And>p. q' \<noteq> ReadyQ p" "q' \<noteq> q"
  have "t \<notin> set (tq k q')"
    using kinv_one_queue [OF kinvD [OF system_okD(1) [OF ok]], of t q q'] q q'(2) by auto
  then show "tq (rt_ipc_list_resume q k) q' = tq k q'"
    using thread_resume_effect(2) [OF st, of q'] q'(1) q by (simp add: rt_ipc_list_resume_def)
qed

lemma resume_all:
  assumes "system_ok k"
  shows "\<exists>k'. rt_ipc_list_resume_all q k = Some k' \<and> system_ok k' \<and> tq k' q = []
    \<and> (\<forall>t. t \<in> set (tq k q) \<or> is_runnable (threads k t) \<and> th_error (threads k t) = - RT_ERROR \<longrightarrow>
          is_runnable (threads k' t) \<and> th_error (threads k' t) = - RT_ERROR)
    \<and> (\<forall>q'. (\<forall>p. q' \<noteq> ReadyQ p) \<longrightarrow> q' \<noteq> q \<longrightarrow> tq k' q' = tq k q')
    \<and> (\<forall>t. t \<notin> set (tq k q) \<longrightarrow> threads k' t = threads k t)
    \<and> semaphores k' = semaphores k \<and> mutexes k' = mutexes k \<and> events k' = events k
    \<and> mailboxes k' = mailboxes k \<and> messagequeues k' = messagequeues k
    \<and> rt_current_thread k' = rt_current_thread k"
  using assms
proof (induction "tq k q" arbitrary: k)
  case Nil
  then show ?case by (subst rt_ipc_list_resume_all.simps) simp
next
  case (Cons t ts)
  let ?j = "set_thread t (th_error_update (\<lambda>_. - RT_ERROR)) k"
  let ?r = "rt_ipc_list_resume q ?j"
  have j: "system_ok ?j" using Cons(3) by (intro system_ok_set_other) simp_all
  have q: "tq ?j q = t # ts" using Cons(2) by simp
  note r = list_resume [OF j q]
  have tr: "is_runnable (threads ?r t)" "th_error (threads ?r t) = - RT_ERROR"
    using r(3,4) by simp_all
  have other: "threads ?r s = threads k s" if "s \<noteq> t" for s using r(3) that by simp
  have ts: "t \<notin> set ts"
    using kinv_distinct [OF kinvD [OF system_okD(1) [OF j]], of q] q by simp
  obtain k' where k': "rt_ipc_list_resume_all q ?r = Some k'" "system_ok k'" "tq k' q = []"
    "\<forall>t. t \<in> set ts \<or> is_runnable (threads ?r t) \<and> th_error (threads ?r t) = - RT_ERROR \<longrightarrow>
          is_runnable (threads k' t) \<and> th_error (threads k' t) = - RT_ERROR"
    "\<forall>q'. (\<forall>p. q' \<noteq> ReadyQ p) \<longrightarrow> q' \<noteq> q \<longrightarrow> tq k' q' = tq ?r q'"
    "\<forall>t. t \<notin> set ts \<longrightarrow> threads k' t = threads ?r t"
    "semaphores k' = semaphores ?r" "mutexes k' = mutexes ?r" "events k' = events ?r"
    "mailboxes k' = mailboxes ?r" "messagequeues k' = messagequeues ?r"
    "rt_current_thread k' = rt_current_thread ?r"
    using Cons(1) [OF r(2) [symmetric] r(1)] unfolding r(2) by blast
  have "rt_ipc_list_resume_all q k = Some k'"
    using k'(1) by (subst rt_ipc_list_resume_all.simps) (simp add: rt_ipc_list_resume_def flip: Cons(2))
  moreover have "is_runnable (threads k' s) \<and> th_error (threads k' s) = - RT_ERROR"
    if "s \<in> set (tq k q) \<or> is_runnable (threads k s) \<and> th_error (threads k s) = - RT_ERROR" for s
    using k'(4) tr other that by (cases "s = t") (auto simp flip: Cons(2))
  moreover have "tq k' q' = tq k q'" if "\<forall>p. q' \<noteq> ReadyQ p" "q' \<noteq> q" for q'
    using k'(5) r(5) [of q'] that by simp
  moreover have "threads k' s = threads k s" if "s \<notin> set (tq k q)" for s
    using k'(6) other that by (auto simp flip: Cons(2))
  ultimately show ?case using k' by auto
qed

text \<open>The common middle and end of the functions that wait, for a thread that has to.\<close>

lemma wait_blocks:
  assumes ok: "system_ok k" and cur: "rt_current_thread k = Some t"
    and run: "th_state (threads k t) = RT_THREAD_RUNNING"
    and flag: "flag = RT_IPC_FLAG_FIFO \<or> flag = RT_IPC_FLAG_PRIO" and time: "time \<noteq> 0x7fffffff"
    and free: "rt_scheduler_lock_nest k = 0" "rt_interrupt_nest k = 0" and other: "u \<in> set (tq k (ReadyQ p))"
  defines "k' \<equiv> rt_schedule (wait_on q t flag time k)"
  shows "reschedule_then t rest (wait_on q t flag time k) = Blocked k'"
    and "system_ok k'" "rt_current_thread k' \<noteq> Some t"
    and "tq k' q = (if flag = RT_IPC_FLAG_FIFO then tq k q @ [t] else prio_insert (threads k) t (tq k q))"
    and "threads k' t = with_state RT_THREAD_SUSPEND (threads k t)"
    and "v \<noteq> t \<Longrightarrow> th_state (threads k v) = RT_THREAD_SUSPEND \<Longrightarrow> threads k' v = threads k v"
    and "0 < sint time \<Longrightarrow> ThreadTimer t \<in> set (rt_timer_list k') \<and> ticks_left k' (ThreadTimer t) = unat time"
    and "q' \<noteq> q \<Longrightarrow> (\<And>i. q' \<noteq> ReadyQ i) \<Longrightarrow> tq k' q' = removeAll t (tq k q')"
proof -
  define w where "w = wait_on q t flag time k"
  have st: "th_state (threads k t) = RT_THREAD_READY \<or> th_state (threads k t) = RT_THREAD_RUNNING" using run by simp
  note wt = wait_on [OF ok st flag time, folded w_def]
  have "u \<noteq> t" using kinv_fits [OF kinvD [OF system_okD(1) [OF ok]] other] run by auto
  then have ub: "u \<in> set (tq w (ReadyQ p))" using wt(4) [OF not_ready [symmetric], of p] other by simp
  have ws: "th_state (threads w t) = RT_THREAD_SUSPEND" using wt(2) by simp
  have cur': "rt_current_thread w = Some t" "rt_scheduler_lock_nest w = 0" "rt_interrupt_nest w = 0"
    using cur free by (simp_all add: w_def)
  note inv = system_okD(1) [OF wt(1)]
  note block = reschedule_blocks [OF inv cur'(1) ws cur'(2,3) ub]
  have k': "k' = rt_schedule w" by (simp add: k'_def w_def)
  show "reschedule_then t rest (wait_on q t flag time k) = Blocked k'" "rt_current_thread k' \<noteq> Some t"
    "system_ok k'"
    using block system_ok_schedule [OF wt(1)] by (simp_all add: k' w_def)
  show "tq k' q = (if flag = RT_IPC_FLAG_FIFO then tq k q @ [t] else prio_insert (threads k) t (tq k q))"
    using wt(3) schedule_same [OF wt(1)] by (simp add: k')
  show "threads k' t = with_state RT_THREAD_SUSPEND (threads k t)"
    using rt_schedule_suspended [OF inv ws] wt(2) by (simp add: k')
  show "threads k' v = threads k v" if "v \<noteq> t" "th_state (threads k v) = RT_THREAD_SUSPEND"
    using rt_schedule_suspended [OF inv, of v] wt(2) that by (simp add: k')
  show "ThreadTimer t \<in> set (rt_timer_list k') \<and> ticks_left k' (ThreadTimer t) = unat time" if "0 < sint time"
    using wt(5) that by (simp add: k' ticks_left_def)
  show "tq k' q' = removeAll t (tq k q')" if "q' \<noteq> q" "\<And>i. q' \<noteq> ReadyQ i"
    using rt_schedule_tq [OF inv, of q'] that wt(4) by (simp add: k')
qed

lemma resume_member:
  assumes ok: "system_ok k" and t: "t \<in> set (tq k q)"
  shows "system_ok (snd (rt_thread_resume t k))"
    and "tq (snd (rt_thread_resume t k)) q = removeAll t (tq k q)"
    and "is_runnable (threads (snd (rt_thread_resume t k)) t)"
    and "th_error (threads (snd (rt_thread_resume t k)) t) = th_error (threads k t)"
    and "th_event_set (threads (snd (rt_thread_resume t k)) t) = th_event_set (threads k t)"
    and "s \<noteq> t \<Longrightarrow> threads (snd (rt_thread_resume t k)) s = threads k s"
proof -
  have st: "th_state (threads k t) = RT_THREAD_SUSPEND" using members_suspended [OF ok t] .
  show "system_ok (snd (rt_thread_resume t k))" using ok by (rule system_ok_resume)
  show "tq (snd (rt_thread_resume t k)) q = removeAll t (tq k q)"
    using thread_resume_effect(2) [OF st, of q] not_ready by simp
  show "is_runnable (threads (snd (rt_thread_resume t k)) t)"
    "th_error (threads (snd (rt_thread_resume t k)) t) = th_error (threads k t)"
    "th_event_set (threads (snd (rt_thread_resume t k)) t) = th_event_set (threads k t)"
    "s \<noteq> t \<Longrightarrow> threads (snd (rt_thread_resume t k)) s = threads k s"
    using thread_resume_effect(1) [OF st] by (simp_all add: is_runnable_def)
qed

text \<open>Waking the first waiting thread, when there is one.\<close>

lemma wake_first:
  assumes ok: "system_ok k"
  defines "k' \<equiv> (if tq k q \<noteq> [] then rt_schedule (rt_ipc_list_resume q k) else k)"
  shows "system_ok k'" "tq k' q = tl (tq k q)"
    and "tq k q = w # ws \<Longrightarrow> is_runnable (threads k' w) \<and> th_error (threads k' w) = th_error (threads k w)"
    and "(\<And>p. q' \<noteq> ReadyQ p) \<Longrightarrow> q' \<noteq> q \<Longrightarrow> tq k' q' = tq k q'"
proof -
  have "system_ok k' \<and> tq k' q = tl (tq k q)
    \<and> (\<forall>w ws. tq k q = w # ws \<longrightarrow> is_runnable (threads k' w) \<and> th_error (threads k' w) = th_error (threads k w))
    \<and> (\<forall>q'. (\<forall>p. q' \<noteq> ReadyQ p) \<longrightarrow> q' \<noteq> q \<longrightarrow> tq k' q' = tq k q')"
  proof (cases "tq k q")
    case Nil
    then show ?thesis using ok by (simp add: k'_def)
  next
    case (Cons v vs)
    note res = list_resume [OF ok Cons]
    have k': "k' = rt_schedule (rt_ipc_list_resume q k)" using Cons by (simp add: k'_def)
    have "th_error (threads (rt_ipc_list_resume q k) v) = th_error (threads k v)" using res(3) by simp
    then have "is_runnable (threads k' v) \<and> th_error (threads k' v) = th_error (threads k v)"
      using rt_schedule_runnable [OF system_okD(1) [OF res(1)] res(4)] by (simp add: k')
    moreover have "tq k' q' = tq k q'" if "\<forall>p. q' \<noteq> ReadyQ p" "q' \<noteq> q" for q'
      using that res(5) rt_schedule_tq [OF system_okD(1) [OF res(1)], of q'] by (simp add: k')
    ultimately show ?thesis
      using Cons res(2) schedule_same [OF res(1)] system_ok_schedule [OF res(1)] by (auto simp: k')
  qed
  then show "system_ok k'" "tq k' q = tl (tq k q)"
    "tq k q = w # ws \<Longrightarrow> is_runnable (threads k' w) \<and> th_error (threads k' w) = th_error (threads k w)"
    "(\<And>p. q' \<noteq> ReadyQ p) \<Longrightarrow> q' \<noteq> q \<Longrightarrow> tq k' q' = tq k q'"
    by blast+
qed

text \<open>The same with the first step of the waiting loops, which clears the error of the thread.\<close>

lemma wait_step:
  assumes ok: "system_ok k" and cur: "rt_current_thread k = Some t"
    and run: "th_state (threads k t) = RT_THREAD_RUNNING"
    and flag: "flag = RT_IPC_FLAG_FIFO \<or> flag = RT_IPC_FLAG_PRIO" and time: "time \<noteq> 0x7fffffff"
    and free: "rt_scheduler_lock_nest k = 0" "rt_interrupt_nest k = 0" and other: "u \<in> set (tq k (ReadyQ p))"
  defines "k' \<equiv> rt_schedule (wait_on q t flag time (set_thread t (th_error_update (\<lambda>_. RT_EOK)) k))"
  shows "system_ok k'" "rt_current_thread k' \<noteq> Some t" "rt_interrupt_nest k' = 0"
    and "tq k' q = (if flag = RT_IPC_FLAG_FIFO then tq k q @ [t] else prio_insert (threads k) t (tq k q))"
    and "th_error (threads k' t) = RT_EOK" "th_state (threads k' t) = RT_THREAD_SUSPEND"
    and "0 < sint time \<longrightarrow> ticks_left k' (ThreadTimer t) = unat time"
    and "mailboxes k' = mailboxes k" "messagequeues k' = messagequeues k" "semaphores k' = semaphores k"
proof -
  define j where "j = set_thread t (th_error_update (\<lambda>_. RT_EOK)) k"
  have jok: "system_ok j" using ok unfolding j_def by (intro system_ok_set_other) simp_all
  have j: "rt_current_thread j = Some t" "th_state (threads j t) = RT_THREAD_RUNNING"
    "rt_scheduler_lock_nest j = 0" "rt_interrupt_nest j = 0" "u \<in> set (tq j (ReadyQ p))"
    using cur run free other by (simp_all add: j_def)
  note w = wait_blocks [OF jok j(1,2) flag time j(3,4,5)]
  have k': "k' = rt_schedule (wait_on q t flag time j)" by (simp add: k'_def j_def)
  have "prio_insert (threads j) t xs = prio_insert (threads k) t xs" for xs
    by (rule prio_insert_cong) (simp add: j_def)
  then show "system_ok k'" "rt_current_thread k' \<noteq> Some t" "rt_interrupt_nest k' = 0"
    "tq k' q = (if flag = RT_IPC_FLAG_FIFO then tq k q @ [t] else prio_insert (threads k) t (tq k q))"
    "th_error (threads k' t) = RT_EOK" "th_state (threads k' t) = RT_THREAD_SUSPEND"
    "0 < sint time \<longrightarrow> ticks_left k' (ThreadTimer t) = unat time"
    "mailboxes k' = mailboxes k" "messagequeues k' = messagequeues k" "semaphores k' = semaphores k"
    using w(2,3,4,5,7) j(4) by (simp_all add: k' j_def)
qed

end

interpretation semq: wait_list "SemQ s" for s by unfold_locales simp
interpretation mutexq: wait_list "MutexQ m" for m by unfold_locales simp
interpretation eventq: wait_list "EventQ e" for e by unfold_locales simp
interpretation mbrecvq: wait_list "MbRecvQ b" for b by unfold_locales simp
interpretation mbsendq: wait_list "MbSendQ b" for b by unfold_locales simp
interpretation mqrecvq: wait_list "MqRecvQ b" for b by unfold_locales simp
interpretation mqsendq: wait_list "MqSendQ b" for b by unfold_locales simp

end
