(* ===== verification/Semaphore.thy ===== *)
theory Semaphore
  imports Wait_List
begin

section \<open>Semaphores (\<open>rt-thread/src/ipc.c\<close>)\<close>

text \<open>
  The counting semaphore, its refinement of an abstract one (a number and a queue of threads), and
  the invariant that threads wait only for a semaphore whose value is zero.
\<close>

definition RT_SEM_VALUE_MAX :: u16 where "RT_SEM_VALUE_MAX = 0xffff"

definition rt_sem_init :: "nat \<Rightarrow> string \<Rightarrow> u32 \<Rightarrow> u8 \<Rightarrow> kernel \<Rightarrow> rt_err_t \<times> kernel" where
  "rt_sem_init sem name value flag k =
    (let k = rt_object_init (OSem sem) RT_Object_Class_Semaphore name k;
         k = rt_ipc_object_init (SemQ sem) k;
         k = set_sem sem (sem_value_update (\<lambda>_. ucast value)) k
     in (RT_EOK, set_object (OSem sem) (obj_flag_update (\<lambda>_. flag)) k))"

definition rt_sem_detach :: "nat \<Rightarrow> kernel \<Rightarrow> (rt_err_t \<times> kernel) option" where
  "rt_sem_detach sem k =
    (case rt_ipc_list_resume_all (SemQ sem) k of
       None \<Rightarrow> None
     | Some k \<Rightarrow> Some (RT_EOK, rt_object_detach (OSem sem) k))"

definition rt_sem_create :: "nat option \<Rightarrow> string \<Rightarrow> u32 \<Rightarrow> u8 \<Rightarrow> kernel \<Rightarrow> nat option \<times> kernel" where
  "rt_sem_create mem name value flag k =
    (case mem of
       None \<Rightarrow> (None, snd (rt_object_allocate None RT_Object_Class_Semaphore name k))
     | Some sem \<Rightarrow>
        let k = snd (rt_object_allocate (Some (OSem sem)) RT_Object_Class_Semaphore name k);
            k = rt_ipc_object_init (SemQ sem) k;
            k = set_sem sem (sem_value_update (\<lambda>_. ucast value)) k
        in (Some sem, set_object (OSem sem) (obj_flag_update (\<lambda>_. flag)) k))"

definition rt_sem_delete :: "nat \<Rightarrow> kernel \<Rightarrow> (rt_err_t \<times> kernel) option" where
  "rt_sem_delete sem k =
    (case rt_ipc_list_resume_all (SemQ sem) k of
       None \<Rightarrow> None
     | Some k \<Rightarrow> Some (RT_EOK, rt_object_delete (OSem sem) k))"

definition rt_sem_take :: "nat \<Rightarrow> 32 word \<Rightarrow> kernel \<Rightarrow> rt_err_t outcome" where
  "rt_sem_take sem time k =
    (if 0 < sem_value (semaphores k sem)
     then Returned RT_EOK (set_sem sem (sem_value_update (\<lambda>v. v - 1)) k)
     else if time = 0 then Returned (- RT_ETIMEOUT) k
     else
       let thread = the (rt_thread_self k);
           k = set_thread thread (th_error_update (\<lambda>_. RT_EOK)) k;
           k = wait_on (SemQ sem) thread (obj_flag (objects k (OSem sem))) time k
       in reschedule_then thread (wait_result thread) k)"

definition rt_sem_trytake :: "nat \<Rightarrow> kernel \<Rightarrow> rt_err_t outcome" where
  "rt_sem_trytake sem k = rt_sem_take sem RT_WAITING_NO k"

definition rt_sem_release :: "nat \<Rightarrow> kernel \<Rightarrow> rt_err_t \<times> kernel" where
  "rt_sem_release sem k =
    (if tq k (SemQ sem) \<noteq> []
     then (RT_EOK, rt_schedule (rt_ipc_list_resume (SemQ sem) k))
     else if sem_value (semaphores k sem) < RT_SEM_VALUE_MAX
     then (RT_EOK, set_sem sem (sem_value_update (\<lambda>v. v + 1)) k)
     else (- RT_EFULL, k))"

definition rt_sem_control :: "nat \<Rightarrow> int \<Rightarrow> u32 \<Rightarrow> kernel \<Rightarrow> (rt_err_t \<times> kernel) option" where
  "rt_sem_control sem cmd arg k =
    (if cmd = RT_IPC_CMD_RESET then
       (case rt_ipc_list_resume_all (SemQ sem) k of
          None \<Rightarrow> None
        | Some k \<Rightarrow> Some (RT_EOK, rt_schedule (set_sem sem (sem_value_update (\<lambda>_. ucast arg)) k)))
     else Some (- RT_ERROR, k))"

subsection \<open>The abstract semaphore\<close>

text \<open>
  A number and the queue of the threads that wait. Releasing gives the unit to the first waiting
  thread, or adds to the number; taking subtracts from the number, or waits.
\<close>

definition sem_abs :: "nat \<Rightarrow> kernel \<Rightarrow> nat \<times> nat list" where
  "sem_abs s k = (unat (sem_value (semaphores k s)), tq k (SemQ s))"

fun sem_release_spec :: "nat \<times> nat list \<Rightarrow> nat \<times> nat list" where
  "sem_release_spec (v, w # ws) = (v, ws)"
| "sem_release_spec (v, []) = (if v < 65535 then v + 1 else v, [])"

definition sem_sound :: "nat \<Rightarrow> kernel \<Rightarrow> bool" where
  "sem_sound s k \<longleftrightarrow> (tq k (SemQ s) \<noteq> [] \<longrightarrow> sem_value (semaphores k s) = 0)"

lemma system_ok_set_sem [simp]: "system_ok (set_sem s f k) = system_ok k"
  by (rule system_ok_cong) (simp_all add: timer_flag_def)

lemma unat_plus_one: "(v :: u16) < 0xffff \<Longrightarrow> unat (v + 1) = unat v + 1"
  by (simp add: word_less_nat_alt unat_word_ariths)

lemma unat_minus_one16: "0 < (v :: u16) \<Longrightarrow> unat (v - 1) = unat v - 1"
  by (simp add: unat_minus_one word_gt_0)

lemma sem_release_abs:
  assumes ok: "system_ok k"
  shows "system_ok (snd (rt_sem_release s k))"
    and "sem_abs s (snd (rt_sem_release s k)) = sem_release_spec (sem_abs s k)"
    and "fst (rt_sem_release s k) = (if sem_abs s k = (65535, []) then - RT_EFULL else RT_EOK)"
    and "tq k (SemQ s) = w # ws \<Longrightarrow> is_runnable (threads (snd (rt_sem_release s k)) w)
       \<and> th_error (threads (snd (rt_sem_release s k)) w) = th_error (threads k w)"
proof -
  consider (wake) w ws where "tq k (SemQ s) = w # ws"
    | (inc) "tq k (SemQ s) = []" "sem_value (semaphores k s) < RT_SEM_VALUE_MAX"
    | (full) "tq k (SemQ s) = []" "\<not> sem_value (semaphores k s) < RT_SEM_VALUE_MAX"
    by (cases "tq k (SemQ s)") auto
  then have "system_ok (snd (rt_sem_release s k))
    \<and> sem_abs s (snd (rt_sem_release s k)) = sem_release_spec (sem_abs s k)
    \<and> fst (rt_sem_release s k) = (if sem_abs s k = (65535, []) then - RT_EFULL else RT_EOK)
    \<and> (\<forall>w ws. tq k (SemQ s) = w # ws \<longrightarrow> is_runnable (threads (snd (rt_sem_release s k)) w)
         \<and> th_error (threads (snd (rt_sem_release s k)) w) = th_error (threads k w))"
  proof cases
    case wake
    note res = semq.list_resume [OF ok wake]
    have eq: "rt_sem_release s k = (RT_EOK, rt_schedule (rt_ipc_list_resume (SemQ s) k))"
      using wake by (simp add: rt_sem_release_def)
    have "th_error (threads (rt_ipc_list_resume (SemQ s) k) w) = th_error (threads k w)"
      using res(3) by simp
    then show ?thesis
      using res(1,2) wake rt_schedule_runnable [OF system_okD(1) [OF res(1)] res(4)]
      by (simp add: eq system_ok_schedule sem_abs_def semq.schedule_same)
  next
    case inc
    then show ?thesis
      using ok by (simp add: rt_sem_release_def sem_abs_def RT_SEM_VALUE_MAX_def unat_plus_one)
        (simp add: word_less_nat_alt)
  next
    case full
    have "unat (sem_value (semaphores k s)) < 65536"
      using unsigned_less [of "sem_value (semaphores k s)", where 'a = nat] by simp
    then show ?thesis
      using ok full by (simp add: rt_sem_release_def sem_abs_def RT_SEM_VALUE_MAX_def word_less_nat_alt)
  qed
  then show "system_ok (snd (rt_sem_release s k))"
    "sem_abs s (snd (rt_sem_release s k)) = sem_release_spec (sem_abs s k)"
    "fst (rt_sem_release s k) = (if sem_abs s k = (65535, []) then - RT_EFULL else RT_EOK)"
    "tq k (SemQ s) = w # ws \<Longrightarrow> is_runnable (threads (snd (rt_sem_release s k)) w)
       \<and> th_error (threads (snd (rt_sem_release s k)) w) = th_error (threads k w)"
    by blast+
qed

lemma sem_take_now:
  "0 < sem_value (semaphores k s) \<Longrightarrow>
     rt_sem_take s time k = Returned RT_EOK (set_sem s (sem_value_update (\<lambda>v. v - 1)) k)"
  "sem_value (semaphores k s) = 0 \<Longrightarrow> rt_sem_take s 0 k = Returned (- RT_ETIMEOUT) k"
  by (simp_all add: rt_sem_take_def)

text \<open>A take that waits: the thread leaves the CPU, in the place of the list its flag says.\<close>

lemma sem_take_waits:
  assumes ok: "system_ok k" and cur: "rt_current_thread k = Some t"
    and run: "th_state (threads k t) = RT_THREAD_RUNNING"
    and flag: "flag = RT_IPC_FLAG_FIFO \<or> flag = RT_IPC_FLAG_PRIO" "obj_flag (objects k (OSem s)) = flag"
    and zero: "sem_value (semaphores k s) = 0" and time: "time \<noteq> 0" "time \<noteq> 0x7fffffff"
    and free: "rt_scheduler_lock_nest k = 0" "rt_interrupt_nest k = 0" and other: "u \<in> set (tq k (ReadyQ p))"
  shows "\<exists>k'. rt_sem_take s time k = Blocked k' \<and> system_ok k' \<and> rt_current_thread k' \<noteq> Some t
    \<and> sem_abs s k' = (0, if flag = RT_IPC_FLAG_FIFO then tq k (SemQ s) @ [t]
                        else prio_insert (threads k) t (tq k (SemQ s)))
    \<and> th_state (threads k' t) = RT_THREAD_SUSPEND \<and> th_error (threads k' t) = RT_EOK
    \<and> (0 < sint time \<longrightarrow> ThreadTimer t \<in> set (rt_timer_list k')
         \<and> ticks_left k' (ThreadTimer t) = unat time)"
proof -
  define j where "j = set_thread t (th_error_update (\<lambda>_. RT_EOK)) k"
  define k' where "k' = rt_schedule (wait_on (SemQ s) t flag time j)"
  have jok: "system_ok j" using ok unfolding j_def by (intro system_ok_set_other) simp_all
  have j: "rt_current_thread j = Some t" "th_state (threads j t) = RT_THREAD_RUNNING"
    "rt_scheduler_lock_nest j = 0" "rt_interrupt_nest j = 0" "u \<in> set (tq j (ReadyQ p))"
    using cur run free other by (simp_all add: j_def)
  note w = semq.wait_blocks [where s = s, OF jok j(1,2) flag(1) time(2) j(3,4,5), folded k'_def]
  have take: "rt_sem_take s time k = Blocked k'"
    using zero time flag cur w(1) by (simp add: rt_sem_take_def rt_thread_self_def Let_def j_def)
  have pi: "prio_insert (threads j) t xs = prio_insert (threads k) t xs" for xs
    by (rule prio_insert_cong) (simp add: j_def)
  have abs: "sem_abs s k' = (0, if flag = RT_IPC_FLAG_FIFO then tq k (SemQ s) @ [t]
                        else prio_insert (threads k) t (tq k (SemQ s)))"
    using w(4) zero pi by (simp add: sem_abs_def k'_def j_def)
  show ?thesis using take w(2,3,7) abs w(5) by (auto simp: j_def)
qed

end
