(* ===== verification/Sample.thy ===== *)
theory Sample
  imports Semaphore
begin

section \<open>A running system, for the examples\<close>

text \<open>
  The state the witnesses of the kernel's properties evaluate: the idle thread 0 is ready, thread
  1 runs at priority 5 and thread 2 is ready at the same priority, thread 3 waits for semaphore 0
  and thread 4 sleeps for 10 more ticks.
\<close>

definition sample_thread :: "u8 \<Rightarrow> u8 \<Rightarrow> rt_thread" where
  "sample_thread stat priority = zero_thread\<lparr>th_stat := stat, th_current_priority := priority,
     th_init_priority := priority, th_number_mask := push_bit (unat priority) 1,
     th_init_tick := 10, th_remaining_tick := 10\<rparr>"

definition sample :: kernel where
  "sample = reset_kernel\<lparr>
     threads := (\<lambda>_. zero_thread)(
       0 := sample_thread RT_THREAD_READY 31, 1 := sample_thread RT_THREAD_RUNNING 5,
       2 := sample_thread RT_THREAD_READY 5, 3 := sample_thread RT_THREAD_SUSPEND 8,
       4 := sample_thread RT_THREAD_SUSPEND 3),
     tq := (\<lambda>_. [])(ReadyQ 31 := [0], ReadyQ 5 := [2], SemQ 0 := [3]),
     rt_thread_ready_priority_group := push_bit 31 1 OR push_bit 5 1,
     rt_current_thread := Some 1,
     timers := (\<lambda>tm. case tm of
         ThreadTimer t \<Rightarrow> \<lparr>tm_action = Thread_timeout t, tm_init_tick = 10, tm_timeout_tick = 10\<rparr>
       | UserTimer n \<Rightarrow> \<lparr>tm_action = User_timeout n 0, tm_init_tick = 0, tm_timeout_tick = 0\<rparr>),
     rt_timer_list := [ThreadTimer 4],
     objects := (objects reset_kernel)(OTimer (ThreadTimer 4) :=
       \<lparr>obj_name = [], obj_type = 0x8a, obj_flag = RT_TIMER_FLAG_ACTIVATED\<rparr>)\<rparr>"

lemma sample_thread_fields [simp]:
  "th_state (sample_thread RT_THREAD_READY p) = RT_THREAD_READY"
  "th_state (sample_thread RT_THREAD_RUNNING p) = RT_THREAD_RUNNING"
  "th_state (sample_thread RT_THREAD_SUSPEND p) = RT_THREAD_SUSPEND"
  "th_current_priority (sample_thread s p) = p"
  "th_error (sample_thread s p) = RT_EOK"
  "prio_ok (sample_thread s p) \<longleftrightarrow> unat p < 32"
  "yielding (sample_thread RT_THREAD_RUNNING p) = False"
  by (simp_all add: sample_thread_def th_state_def stat_defs prio_ok_def RT_THREAD_PRIORITY_MAX_def
      zero_thread_def yielding_def)

lemma sample_fields [simp]:
  "threads sample = (\<lambda>_. zero_thread)(
       0 := sample_thread RT_THREAD_READY 31, 1 := sample_thread RT_THREAD_RUNNING 5,
       2 := sample_thread RT_THREAD_READY 5, 3 := sample_thread RT_THREAD_SUSPEND 8,
       4 := sample_thread RT_THREAD_SUSPEND 3)"
  "tq sample = (\<lambda>_. [])(ReadyQ 31 := [0], ReadyQ 5 := [2], SemQ 0 := [3])"
  "rt_current_thread sample = Some 1"
  "rt_scheduler_lock_nest sample = 0" "rt_interrupt_nest sample = 0" "rt_tick sample = 0"
  "rt_timer_list sample = [ThreadTimer 4]" "timer_pending sample = []"
  "semaphores sample s = \<lparr>sem_value = 0\<rparr>"
  "obj_flag (objects sample (OSem s)) = 0"
  by (simp_all add: sample_def reset_kernel_def)

lemma sample_group: "p < 32 \<Longrightarrow> bit (rt_thread_ready_priority_group sample) p \<longleftrightarrow> p = 31 \<or> p = 5"
proof -
  assume p: "p < 32"
  have "rt_thread_ready_priority_group sample = 2 ^ 5 OR 2 ^ 31" by (simp add: sample_def)
  moreover have "bit ((2 ^ 5 :: u32) OR 2 ^ 31) p \<longleftrightarrow> bit (2 ^ 5 :: u32) p \<or> p = 31"
    using p by (intro bit_group_set) simp_all
  moreover have "bit (2 ^ 5 :: u32) p \<longleftrightarrow> p = 5" by (auto simp: bit_exp_iff simp del: power_numeral)
  ultimately show ?thesis by auto
qed

lemma sample_group_nonzero: "rt_thread_ready_priority_group sample \<noteq> 0"
  using sample_group [of 5] by auto

lemma kinv_sample: "kinv sample"
proof -
  have "kinv_but {} sample"
    unfolding kinv_but_def using sample_group by (auto simp: thread_ok_def is_active_def)
  then show ?thesis by (simp add: kinv_def)
qed

lemma sample_timer:
  "timer_flag sample tm = (if tm = ThreadTimer 4 then RT_TIMER_FLAG_ACTIVATED else 0)"
  "tm_action (timers sample (ThreadTimer t)) = Thread_timeout t"
  "ticks_left sample (ThreadTimer t) = 10"
  by (auto simp: timer_flag_def ticks_left_def sample_def reset_kernel_def)

lemma system_ok_sample: "system_ok sample"
proof -
  have "timers_ok sample"
    by (auto simp: timers_ok_def timer_active_def sample_timer RT_TIMER_FLAG_ACTIVATED_def)
  then show ?thesis
    by (auto simp: system_ok_def kinv_sample timer_bound_def own_timer_def timer_periodic_def sample_timer
        RT_TIMER_FLAG_ACTIVATED_def RT_TIMER_FLAG_PERIODIC_def)
qed

lemma due_sample: "due_timers sample = []"
  by (simp add: due_timers_def sample_timer)

end
