(* ===== verification/Sleeping.thy ===== *)
theory Sleeping
  imports Expiry
begin

section \<open>How long a thread sleeps\<close>

text \<open>
  The ticks between the arming of a thread's timer and its expiry, over any number of tick
  interrupts in which other threads come and go.
\<close>

definition runs_other :: "kernel \<Rightarrow> nat \<Rightarrow> bool" where
  "runs_other k s \<longleftrightarrow> (\<exists>c. rt_current_thread k = Some c \<and> c \<noteq> s)"

lemma rt_schedule_runs_other:
  assumes inv: "kinv k" and st: "th_state (threads k s) = RT_THREAD_SUSPEND" and cur: "runs_other k s"
  shows "runs_other (rt_schedule k) s"
proof -
  obtain c where c: "rt_current_thread k = Some c" "c \<noteq> s" using cur by (auto simp: runs_other_def)
  show ?thesis
  proof (cases "rt_scheduler_lock_nest k \<noteq> 0 \<or> rt_thread_ready_priority_group k = 0")
    case True
    then show ?thesis using cur rt_schedule_idle [of k] by auto
  next
    case False
    then have go: "rt_scheduler_lock_nest k = 0" "rt_thread_ready_priority_group k \<noteq> 0" by auto
    obtain t p where hp: "get_highest_priority_thread k = (t, p)" by fastforce
    have "th_state (threads k t) = RT_THREAD_READY"
      using highest_ready [OF kinvD [OF inv] go(2) hp] by blast
    then have "t \<noteq> s" using st by auto
    then show ?thesis
      using rt_schedule_keep [OF inv c(1) go(1)] rt_schedule_switch(1) [OF inv c(1) go _ hp] c
      by (cases "keeps_cpu k c") (auto simp: runs_other_def)
  qed
qed

lemma expire_thread_only:
  assumes ok: "system_ok k" and pend: "timer_pending k = []" and user: "leaves_timers user"
    and list: "rt_timer_list k = ThreadTimer t # ts"
  shows "rt_timer_list (timer_expire user (ThreadTimer t) k) = ts"
    and "timers (timer_expire user (ThreadTimer t) k) = timers k"
    and "s \<noteq> t \<Longrightarrow> th_state (threads k s) = RT_THREAD_SUSPEND \<Longrightarrow> runs_other k s \<Longrightarrow>
         runs_other (timer_expire user (ThreadTimer t) k) s"
proof -
  let ?tm = "ThreadTimer t"
  have tin: "?tm \<in> set (rt_timer_list k)" using list by simp
  have b: "timer_bound k ?tm" using system_okD(3) [OF ok tin] .
  then have act: "tm_action (timers k ?tm) = Thread_timeout t" and np: "\<not> timer_periodic k ?tm"
    and st: "th_state (threads k t) = RT_THREAD_SUSPEND" by (simp_all add: timer_bound_def)
  have eq: "timer_expire user ?tm k = rt_timer_remove ?tm (rt_thread_timeout t (timer_unlink ?tm k))"
    using timer_expire_eq [OF ok pend tin user] np act by (simp add: run_timeout_def)
  have dist: "?tm \<notin> set ts" using system_okD(2) [OF ok] list by (simp add: timers_ok_def)
  show "rt_timer_list (timer_expire user ?tm k) = ts" "timers (timer_expire user ?tm k) = timers k"
    using dist by (simp_all add: eq unlinked_fields list)
  assume s: "s \<noteq> t" "th_state (threads k s) = RT_THREAD_SUSPEND" "runs_other k s"
  let ?kt = "set_thread t (th_error_update (\<lambda>_. - RT_ETIMEOUT)) (timer_unlink ?tm k)"
  let ?ki = "rt_schedule_insert_thread t (tlist_remove t ?kt)"
  have "kinv (timer_unlink ?tm k)" using system_okD(1) [OF ok] by (simp add: kinv_timer_unlink)
  then have kt: "kinv ?kt" by (simp add: kinv_set_other)
  have ib: "kinv_but {} ?kt" using kt by blast
  have "prio_ok (threads ?kt t)"
    using st active_prio [OF ib, of t] by (simp add: is_active_def unlinked_fields)
  then have ki: "kinv ?ki"
    using st kinv_current_not_ready [OF kt] by (intro kinv_tlist_insert_ready [OF ib]) (auto simp: unlinked_fields)
  have "th_state (threads ?ki s) = RT_THREAD_SUSPEND"
    using s by (simp add: threads_insert_thread unlinked_fields)
  moreover have "runs_other ?ki s" using s(3) by (simp add: runs_other_def timer_unlink_def Let_def)
  ultimately have "runs_other (rt_schedule ?ki) s" by (rule rt_schedule_runs_other [OF ki])
  then show "runs_other (timer_expire user ?tm k) s"
    by (simp add: eq rt_thread_timeout_def Let_def runs_other_def)
qed

lemma fold_expire_thread_only:
  assumes "system_ok k" "timer_pending k = []" "leaves_timers user"
    "\<forall>tm \<in> set (rt_timer_list k). \<exists>t. tm = ThreadTimer t"
    "th_state (threads k s) = RT_THREAD_SUSPEND" "runs_other k s" "ThreadTimer s \<notin> set (due_timers k)"
  defines "fin \<equiv> \<lambda>k. fold (timer_expire user) (due_timers k) k"
  shows "timers (fin k) = timers k \<and> rt_timer_list (fin k) = dropWhile (\<lambda>tm. ticks_left k tm = 0) (rt_timer_list k)
    \<and> runs_other (fin k) s \<and> timer_pending (fin k) = []"
  using assms(1,2,4-7)
proof (induction "due_timers k" arbitrary: k)
  case Nil
  have "dropWhile (\<lambda>tm. ticks_left k tm = 0) (rt_timer_list k) = rt_timer_list k"
    using Nil(1) takeWhile_dropWhile_id [of "\<lambda>tm. ticks_left k tm = 0" "rt_timer_list k"]
    by (simp add: due_timers_def)
  then show ?case using Nil by (simp add: fin_def)
next
  case (Cons tm due)
  obtain ts where list: "rt_timer_list k = tm # ts" and zero: "ticks_left k tm = 0"
    and due: "due = takeWhile (\<lambda>t. ticks_left k t = 0) ts"
    using Cons(2) by (cases "rt_timer_list k") (auto simp: due_timers_def split: if_splits)
  obtain t where t: "tm = ThreadTimer t" using Cons(5) list by auto
  let ?j = "timer_expire user tm k"
  note step = timer_expire_step [OF Cons(3,4) assms(3) list zero]
  note only = expire_thread_only [OF Cons(3,4) assms(3) list [unfolded t], folded t]
  have due': "due_timers ?j = due" using step(4) due by simp
  have st: "s \<noteq> t" "ThreadTimer s \<notin> set due" using Cons(8) t by (auto simp flip: Cons(2))
  have sus: "threads ?j s = threads k s" using step(5) [of s] Cons(6) st(1) t by simp
  have tl: "ticks_left ?j = ticks_left k" using only(2) step(3) by (simp add: ticks_left_def fun_eq_iff)
  have "timers (fin ?j) = timers ?j \<and> rt_timer_list (fin ?j) = dropWhile (\<lambda>tm. ticks_left ?j tm = 0) (rt_timer_list ?j)
    \<and> runs_other (fin ?j) s \<and> timer_pending (fin ?j) = []"
  proof (rule Cons(1) [OF due' [symmetric] step(1,2)])
    show "\<forall>tm \<in> set (rt_timer_list ?j). \<exists>t. tm = ThreadTimer t" using Cons(5) list only(1) by simp
    show "th_state (threads ?j s) = RT_THREAD_SUSPEND" using sus Cons(6) by simp
    show "runs_other ?j s" using only(3) [OF st(1) Cons(6,7)] .
    show "ThreadTimer s \<notin> set (due_timers ?j)" using st(2) due' by simp
  qed
  moreover have "fin k = fin ?j" by (simp add: fin_def due' flip: Cons(2))
  ultimately show ?case using only(1,2) list zero tl by simp
qed

lemma tick_slice_runs_other:
  assumes ok: "system_ok k" and cur: "runs_other k s" and st: "th_state (threads k s) = RT_THREAD_SUSPEND"
  shows "runs_other (tick_slice k) s" "timers (tick_slice k) = timers k"
proof -
  obtain c where c: "rt_current_thread k = Some c" "c \<noteq> s" using cur by (auto simp: runs_other_def)
  obtain f where f: "\<And>th. th_state (f th) = th_state th" "\<And>th. th_current_priority (f th) = th_current_priority th"
    "\<And>th. th_number_mask (f th) = th_number_mask th"
    and cases: "tick_slice k = set_thread c f (k\<lparr>rt_tick := rt_tick k + 1\<rparr>)
     \<or> tick_slice k = rt_schedule (set_thread c f (k\<lparr>rt_tick := rt_tick k + 1\<rparr>))"
    using tick_slice_cases [OF c(1)] by blast
  let ?kt = "k\<lparr>rt_tick := rt_tick k + 1\<rparr>"
  let ?ks = "set_thread c f ?kt"
  have "kinv ?kt = kinv k" by (rule kinv_cong) simp_all
  then have kk: "kinv ?ks" using system_okD(1) [OF ok] kinv_set_other [of f c ?kt] f by simp
  have "runs_other ?ks s" "th_state (threads ?ks s) = RT_THREAD_SUSPEND"
    using c st by (simp_all add: runs_other_def)
  then show "runs_other (tick_slice k) s"
    using cases rt_schedule_runs_other [OF kk] by (elim disjE) simp_all
  show "timers (tick_slice k) = timers k" using cases by (elim disjE) simp_all
qed

text \<open>The state in which a thread sleeps for \<open>n\<close> more ticks.\<close>

definition sleeping :: "nat \<Rightarrow> nat \<Rightarrow> kernel \<Rightarrow> bool" where
  "sleeping s n k \<longleftrightarrow> system_ok k \<and> timer_pending k = [] \<and> due_timers k = []
    \<and> (\<forall>tm \<in> set (rt_timer_list k). \<exists>t. tm = ThreadTimer t)
    \<and> runs_other k s \<and> th_state (threads k s) = RT_THREAD_SUSPEND
    \<and> ThreadTimer s \<in> set (rt_timer_list k) \<and> ticks_left k (ThreadTimer s) = n"

lemma sleeping_tick:
  assumes sl: "sleeping s n k" and user: "leaves_timers user"
  shows "n = 1 \<Longrightarrow> \<exists>k'. rt_tick_increase user k = Some k' \<and> system_ok k'
      \<and> is_runnable (threads k' s) \<and> th_error (threads k' s) = - RT_ETIMEOUT"
    and "1 < n \<Longrightarrow> \<exists>k'. rt_tick_increase user k = Some k' \<and> sleeping s (n - 1) k'"
proof -
  have ok: "system_ok k" and pend: "timer_pending k = []" and none: "due_timers k = []"
    and only: "\<forall>tm \<in> set (rt_timer_list k). \<exists>t. tm = ThreadTimer t"
    and cur: "runs_other k s" and st: "th_state (threads k s) = RT_THREAD_SUSPEND"
    and tin: "ThreadTimer s \<in> set (rt_timer_list k)" and n: "ticks_left k (ThreadTimer s) = n"
    using sl by (simp_all add: sleeping_def)
  obtain c where c: "rt_current_thread k = Some c" "c \<noteq> s" using cur by (auto simp: runs_other_def)
  obtain k' where k': "rt_tick_increase user k = Some k'" "system_ok k'" "due_timers k' = []"
      "\<forall>s. s \<noteq> c \<and> th_state (threads k s) = RT_THREAD_SUSPEND
           \<and> (ThreadTimer s \<in> set (rt_timer_list k) \<longrightarrow> ticks_left k (ThreadTimer s) \<noteq> 1)
         \<longrightarrow> threads k' s = threads k s"
      "(\<forall>n. UserTimer n \<in> set (rt_timer_list k) \<longrightarrow> ticks_left k (UserTimer n) \<noteq> 1) \<longrightarrow>
        (\<forall>s. ThreadTimer s \<in> set (rt_timer_list k) \<and> ticks_left k (ThreadTimer s) = 1
          \<longrightarrow> is_runnable (threads k' s) \<and> th_error (threads k' s) = - RT_ETIMEOUT)"
    using tick_increase_spec [OF ok pend none c(1) user] by blast
  have nou: "\<forall>n. UserTimer n \<in> set (rt_timer_list k) \<longrightarrow> ticks_left k (UserTimer n) \<noteq> 1"
    using only by fastforce
  show "n = 1 \<Longrightarrow> \<exists>k'. rt_tick_increase user k = Some k' \<and> system_ok k'
      \<and> is_runnable (threads k' s) \<and> th_error (threads k' s) = - RT_ETIMEOUT"
    using k'(1,2,5) nou tin n by blast
  assume more: "1 < n"
  let ?t = "tick_slice k"
  note slice = tick_slice_ok [OF ok c(1) none]
  note tso = tick_slice_runs_other [OF ok cur st]
  have p1: "timer_pending ?t = []" "?t\<lparr>timer_pending := []\<rparr> = ?t" using slice(3) pend by simp_all
  let ?f = "fold (timer_expire user) (due_timers ?t) ?t"
  have eq: "k' = ?f"
    using timer_check_loop_due [OF slice(1) p1(1) user] k'(1)
    by (simp add: rt_tick_increase_def rt_timer_check_def p1(2))
  have tls: "ticks_left ?t (ThreadTimer s) = n - 1" using slice(5) [OF tin] n by simp
  have nd: "ThreadTimer s \<notin> set (due_timers ?t)"
    using due_timers_iff [OF system_okD(2) [OF slice(1)]] tls more by simp
  have "timers ?f = timers ?t \<and> rt_timer_list ?f = dropWhile (\<lambda>tm. ticks_left ?t tm = 0) (rt_timer_list ?t)
    \<and> runs_other ?f s \<and> timer_pending ?f = []"
    by (rule fold_expire_thread_only [OF slice(1) p1(1) user _ slice(7) [OF st] tso(1) nd])
      (use only slice(4) in simp)
  note fin = this [folded eq]
  have ti: "rt_tick k' = rt_tick ?t"
    using timer_check_loop_due [OF slice(1) p1(1) user] eq by simp
  have tl: "ticks_left k' = ticks_left ?t" using fin ti by (simp add: ticks_left_def fun_eq_iff)
  have "ThreadTimer s \<in> set (rt_timer_list k')"
  proof -
    have "set (takeWhile (\<lambda>tm. ticks_left ?t tm = 0) (rt_timer_list ?t))
        \<union> set (dropWhile (\<lambda>tm. ticks_left ?t tm = 0) (rt_timer_list ?t)) = set (rt_timer_list ?t)"
      by (metis set_append takeWhile_dropWhile_id)
    then show ?thesis using fin nd tin slice(4) by (auto simp: due_timers_def)
  qed
  moreover have "set (rt_timer_list k') \<subseteq> set (rt_timer_list k)"
    using fin slice(4) by (auto dest: set_dropWhileD)
  moreover have "threads k' s = threads k s" using k'(4) c(2) st n more by auto
  ultimately have "sleeping s (n - 1) k'"
    using fin k'(2,3) only st tl tls by (auto simp: sleeping_def)
  then show "\<exists>k'. rt_tick_increase user k = Some k' \<and> sleeping s (n - 1) k'" using k'(1) by blast
qed

text \<open>The tick interrupt, \<open>n\<close> times.\<close>

fun ticks :: "(nat \<Rightarrow> nat \<Rightarrow> kernel \<Rightarrow> kernel) \<Rightarrow> nat \<Rightarrow> kernel \<Rightarrow> kernel option" where
  "ticks user 0 k = Some k"
| "ticks user (Suc n) k =
    (case rt_tick_increase user k of None \<Rightarrow> None | Some k' \<Rightarrow> ticks user n k')"

lemma sleeping_ticks:
  assumes user: "leaves_timers user"
  shows "sleeping s (m + n) k \<Longrightarrow> 0 < n \<Longrightarrow> \<exists>k'. ticks user m k = Some k' \<and> sleeping s n k'"
proof (induction m arbitrary: k)
  case (Suc m)
  obtain j where "rt_tick_increase user k = Some j" "sleeping s (m + n) j"
    using sleeping_tick(2) [OF Suc(2) user] Suc(3) by auto
  then show ?case using Suc.IH [of j] Suc(3) by simp
qed simp

lemma ticks_add:
  "ticks user (m + n) k = (case ticks user m k of None \<Rightarrow> None | Some k' \<Rightarrow> ticks user n k')"
  by (induction m arbitrary: k) (auto split: option.split)

end
