(* ===== verification/Kernel_Theorems.thy ===== *)
theory Kernel_Theorems
  imports Sample Sleeping
begin

section \<open>What the kernel guarantees\<close>

subsection \<open>The scheduler\<close>

lemma ready_in_group:
  assumes inv: "kinv_but X k" and s: "s \<in> set (tq k (ReadyQ p))"
  shows "p < 32" "rt_thread_ready_priority_group k \<noteq> 0"
proof -
  have "th_state (threads k s) = RT_THREAD_READY" "unat (th_current_priority (threads k s)) = p"
    using kinv_fits [OF inv s] by simp_all
  then show p: "p < 32"
    using active_prio [OF inv kinv_exempt [OF inv s]]
    by (simp add: is_active_def prio_ok_def RT_THREAD_PRIORITY_MAX_def)
  show "rt_thread_ready_priority_group k \<noteq> 0"
    using kinv_group [OF inv p] s by auto
qed

text \<open>
  The bitmap search: for a word that is not zero, one less than the result of \<open>rt_ffs\<close> is the
  position of its lowest set bit, so the scheduler finds the smallest ready priority number.
\<close>

theorem rt_ffs_is_first_bit:
  "rt_ffs 0 = 0 \<and> (v \<noteq> 0 \<longrightarrow> (rt_ffs v = Suc i \<longleftrightarrow> is_lowest_bit v i))"
proof -
  have uniq: "is_lowest_bit v i \<Longrightarrow> is_lowest_bit v j \<Longrightarrow> i = j" for i j
    unfolding is_lowest_bit_def by (metis linorder_neqE_nat)
  show ?thesis
    using rt_ffs_lowest [of v] uniq by (cases "rt_ffs v") (auto simp: rt_ffs_def)
qed

theorem rt_ffs_is_first_bit_witness: "rt_ffs 0x00a00000 = Suc 21 \<and> is_lowest_bit 0x00a00000 21"
proof -
  have "rt_ffs 0x00a00000 = Suc 21" by code_simp
  then show ?thesis using rt_ffs_is_first_bit [of "0x00a00000" 21] by simp
qed

text \<open>
  C5. After \<open>rt_schedule\<close> (scheduler not locked, something to run) the current thread is in the
  running state and no ready thread has a smaller priority number.
\<close>

theorem schedule_runs_highest:
  assumes inv: "kinv k" and cur: "rt_current_thread k = Some c" and lock: "rt_scheduler_lock_nest k = 0"
    and some: "th_state (threads k c) = RT_THREAD_RUNNING \<or> rt_thread_ready_priority_group k \<noteq> 0"
  shows "\<exists>t. rt_current_thread (rt_schedule k) = Some t
    \<and> th_state (threads (rt_schedule k) t) = RT_THREAD_RUNNING
    \<and> (\<forall>p s. s \<in> set (tq (rt_schedule k) (ReadyQ p)) \<longrightarrow>
          unat (th_current_priority (threads (rt_schedule k) t)) \<le> p)"
proof (cases "keeps_cpu k c")
  case True
  have "th_current_priority (threads (rt_schedule k) c) = th_current_priority (threads k c)"
  proof (cases "rt_thread_ready_priority_group k = 0")
    case False
    show ?thesis unfolding rt_schedule_keep_eq [OF inv cur lock False True] by simp
  qed (simp add: rt_schedule_idle)
  moreover have "unat (th_current_priority (threads k c)) \<le> p" if "s \<in> set (tq k (ReadyQ p))" for p s
    using True that by (force simp: keeps_cpu_def not_le [symmetric])
  ultimately show ?thesis using rt_schedule_keep [OF inv cur lock True] by auto
next
  case False
  show ?thesis
  proof (cases "rt_thread_ready_priority_group k = 0")
    case True
    have "tq k (ReadyQ p) = []" for p
      using ready_in_group(2) [OF kinvD [OF inv], of _ p] True by (cases "tq k (ReadyQ p)") auto
    then show ?thesis using False True some by (simp add: keeps_cpu_def)
  next
    case gr: False
    obtain t p where hp: "get_highest_priority_thread k = (t, p)" by fastforce
    note hr = highest_ready [OF kinvD [OF inv] gr hp]
    note sw = rt_schedule_switch [OF inv cur lock gr False hp]
    have prio: "unat (th_current_priority (threads (rt_schedule k) t)) = p"
      using hr unfolding sw(3) with_state_fields by blast
    have "p \<le> q" if s: "s \<in> set (tq (rt_schedule k) (ReadyQ q))" for q s
    proof -
      have "tq k (ReadyQ i) = []" if "i < p" for i using hr that by blast
      moreover have "p \<le> unat (th_current_priority (threads k c))" if "th_state (threads k c) = RT_THREAD_RUNNING"
        using False keeps_cpu_iff [OF kinvD [OF inv] gr hp that] by linarith
      ultimately show ?thesis using s unfolding sw(2) by (cases "q < p") (auto split: if_splits)
    qed
    then show ?thesis using sw(1,3) prio by auto
  qed
qed

theorem schedule_runs_highest_witness:
  "\<exists>t. rt_current_thread (rt_schedule sample) = Some t
    \<and> th_state (threads (rt_schedule sample) t) = RT_THREAD_RUNNING
    \<and> (\<forall>p s. s \<in> set (tq (rt_schedule sample) (ReadyQ p)) \<longrightarrow>
          unat (th_current_priority (threads (rt_schedule sample) t)) \<le> p)"
  by (rule schedule_runs_highest [OF kinv_sample, of 1]) simp_all

text \<open>
  C6. Round robin: a running thread that yields goes to the end of the list of its priority, the
  first thread of that list runs, and the others move up by one.
\<close>

theorem yield_rotates:
  assumes inv: "kinv k" and cur: "rt_current_thread k = Some c" and lock: "rt_scheduler_lock_nest k = 0"
    and run: "th_state (threads k c) = RT_THREAD_RUNNING"
    and p: "p = unat (th_current_priority (threads k c))"
    and above: "\<forall>i < p. tq k (ReadyQ i) = []" and peers: "tq k (ReadyQ p) = t # ts"
  shows "fst (rt_thread_yield k) = RT_EOK
    \<and> rt_current_thread (snd (rt_thread_yield k)) = Some t
    \<and> tq (snd (rt_thread_yield k)) = (tq k)(ReadyQ p := ts @ [c])
    \<and> th_state (threads (snd (rt_thread_yield k)) c) = RT_THREAD_READY"
proof -
  define f :: "rt_thread \<Rightarrow> rt_thread" where "f = (\<lambda>th. th\<lparr>th_remaining_tick := th_init_tick th, th_stat := th_stat th OR RT_THREAD_STAT_YIELD\<rparr>)"
  let ?j = "set_thread c f k"
  have f: "th_state (f th) = th_state th" "th_current_priority (f th) = th_current_priority th"
    "th_number_mask (f th) = th_number_mask th" "yielding (f th)" for th
    by (simp_all add: f_def th_state_def yielding_def stat_defs bit.conj_disj_distrib2)
  have eq: "rt_thread_yield k = (RT_EOK, rt_schedule ?j)"
    using cur by (simp add: rt_thread_yield_def rt_thread_self_def Let_def set_thread_def f_def)
  have j: "kinv ?j" using inv kinv_set_other [of f c k] f by simp
  have cj: "rt_current_thread ?j = Some c" "rt_scheduler_lock_nest ?j = 0"
    "th_state (threads ?j c) = RT_THREAD_RUNNING" "unat (th_current_priority (threads ?j c)) = p"
    using cur lock run p f by simp_all
  have ib: "kinv_but {} ?j" using j by blast
  have gr: "rt_thread_ready_priority_group ?j \<noteq> 0"
    using ready_in_group(2) [OF ib, of t p] peers by simp
  have nk: "\<not> keeps_cpu ?j c" using peers f(4) cj(4) by (simp add: keeps_cpu_def)
  obtain h q where hp: "get_highest_priority_thread ?j = (h, q)" by fastforce
  note hr = highest_ready [OF ib gr hp]
  have ne: "tq ?j (ReadyQ q) \<noteq> []" and below: "\<And>i. i < q \<Longrightarrow> tq ?j (ReadyQ i) = []"
    and h: "h = hd (tq ?j (ReadyQ q))" using hr by blast+
  have "\<not> q < p" using above ne by auto
  moreover have "\<not> p < q" using below [of p] peers by auto
  ultimately have q: "q = p" by simp
  then have "h = t" using h peers by simp
  note sw = rt_schedule_switch [OF j cj(1,2) gr nk hp]
  have "tq (rt_schedule ?j) r = ((tq k)(ReadyQ p := ts @ [c])) r" for r
    using sw(2) [of r] cj(3,4) peers q by simp
  then show ?thesis
    using sw(1,4) \<open>h = t\<close> cj(3) by (simp add: eq fun_eq_iff)
qed

theorem yield_rotates_witness:
  "rt_current_thread (snd (rt_thread_yield sample)) = Some 2
   \<and> tq (snd (rt_thread_yield sample)) (ReadyQ 5) = [1]"
proof -
  have "\<forall>i < 5. tq sample (ReadyQ i) = []" by simp
  then show ?thesis
    using yield_rotates [OF kinv_sample, of 1 5 2 "[]"] by simp
qed

text \<open>
  A critical section: while the scheduler is locked \<open>rt_schedule\<close> changes nothing, and leaving
  an inner section only lowers the count again.
\<close>

theorem critical_section_defers:
  "(rt_scheduler_lock_nest k \<noteq> 0 \<longrightarrow> rt_schedule k = k)
   \<and> (0 < sint (rt_scheduler_lock_nest k) \<longrightarrow> rt_exit_critical (rt_enter_critical k) = k)"
  by (simp add: rt_schedule_idle exit_enter_critical)

theorem critical_section_defers_witness:
  "rt_schedule (rt_enter_critical sample) = rt_enter_critical sample
   \<and> rt_exit_critical (rt_enter_critical (rt_enter_critical sample)) = rt_enter_critical sample"
  using critical_section_defers [of "rt_enter_critical sample"] by (simp add: rt_enter_critical_def)

subsection \<open>Timers and sleeping\<close>

text \<open>
  C9. Starting a timer keeps the list of timers sorted by the ticks to go, whatever the value of the
  wrapping tick counter, and puts the timer after all those that expire no later.
\<close>

theorem timer_start_in_order:
  assumes ok: "timers_ok k" and init: "tm_init_tick (timers k tm) < 0x7fffffff"
  shows "timers_ok (snd (rt_timer_start tm k))
    \<and> ticks_left (snd (rt_timer_start tm k)) tm = unat (tm_init_tick (timers k tm))
    \<and> rt_timer_list (snd (rt_timer_start tm k)) =
        (let rest = removeAll tm (rt_timer_list k);
             due = (\<lambda>t. ticks_left k t \<le> unat (tm_init_tick (timers k tm)))
         in takeWhile due rest @ tm # dropWhile due rest)"
  using timers_ok_start [OF ok init] timer_start_place [OF ok init] ticks_left_start [of tm k tm]
  by (simp add: Let_def)

theorem timer_start_in_order_witness:
  "rt_timer_list (snd (rt_timer_start (ThreadTimer 3) sample)) = [ThreadTimer 4, ThreadTimer 3]"
proof -
  have t: "tm_init_tick (timers sample (ThreadTimer n)) = 10" for n by (simp add: sample_def)
  show ?thesis
    using timer_start_in_order [of sample "ThreadTimer 3"] system_okD(2) [OF system_ok_sample] t [of 3]
      sample_timer(3) [of 4] by simp
qed


lemma leaves_timers_id: "leaves_timers (\<lambda>_ _ k. k)"
  by (simp add: leaves_timers_def)


text \<open>
  C8. A thread that sleeps for \<open>n\<close> ticks gives the CPU away, stays suspended through the next
  \<open>n - 1\<close> tick interrupts, and is runnable again after the \<open>n\<close>-th.
\<close>

theorem sleep_lasts_n_ticks:
  assumes ok: "system_ok k" and pend: "timer_pending k = []" and none: "due_timers k = []"
    and only: "\<forall>tm \<in> set (rt_timer_list k). \<exists>t. tm = ThreadTimer t"
    and cur: "rt_current_thread k = Some t" and run: "th_state (threads k t) = RT_THREAD_RUNNING"
    and free: "rt_scheduler_lock_nest k = 0" "rt_interrupt_nest k = 0" and other: "u \<in> set (tq k (ReadyQ p))"
    and n: "n \<noteq> 0" "n < 0x7fffffff" and user: "leaves_timers user"
  shows "\<exists>k1. rt_thread_sleep n k = Blocked k1
    \<and> (\<forall>m < unat n. \<exists>k2. ticks user m k1 = Some k2 \<and> th_state (threads k2 t) = RT_THREAD_SUSPEND)
    \<and> (\<exists>k3. ticks user (unat n) k1 = Some k3 \<and> system_ok k3 \<and> is_runnable (threads k3 t)
          \<and> rt_thread_sleep_resume t k3 = (RT_EOK, set_thread t (th_error_update (\<lambda>_. RT_EOK)) k3))"
proof -
  let ?s = "snd (rt_thread_suspend t k)"
  have st: "th_state (threads k t) = RT_THREAD_READY \<or> th_state (threads k t) = RT_THREAD_RUNNING"
    using run by simp
  note un = suspended_unlinked [OF ok st]
  let ?a = "arm_thread_timer t n ?s"
  have a: "system_ok ?a" using un(2,3) n(2) by (intro system_ok_arm)
  have sa: "th_state (threads ?a t) = RT_THREAD_SUSPEND" using un(3) by simp
  have ut: "u \<noteq> t" using kinv_fits [OF kinvD [OF system_okD(1) [OF ok]] other] run by auto
  have ua: "u \<in> set (tq ?a (ReadyQ p))" using other ut by (simp add: thread_suspend_effect(2) [OF st])
  have fa: "rt_current_thread ?a = Some t" "rt_scheduler_lock_nest ?a = 0" "rt_interrupt_nest ?a = 0"
    using cur free by simp_all
  note block = reschedule_blocks [OF system_okD(1) [OF a] fa(1) sa fa(2,3) ua]
  let ?k1 = "rt_schedule ?a"
  have eq: "rt_thread_sleep n k = Blocked ?k1"
    using block(1) cur by (simp add: rt_thread_sleep_def rt_thread_self_def Let_def)
  have k1: "system_ok ?k1" using a by (rule system_ok_schedule)
  have lists: "set (rt_timer_list ?k1) \<subseteq> insert (ThreadTimer t) (set (rt_timer_list k))"
  proof -
    have "set (rt_timer_list ?s) \<subseteq> set (rt_timer_list k)"
      using st by (auto simp: rt_thread_suspend_def Let_def rt_timer_stop_def)
    then show ?thesis using arm_thread_timer_fields(3) [of t n ?s] by auto
  qed
  have tl: "ticks_left ?k1 tm = (if tm = ThreadTimer t then unat n else ticks_left k tm)" for tm
    using arm_thread_timer_fields(5) [of t n ?s tm] by (simp add: ticks_left_def)
  have nz: "unat n \<noteq> 0" using n(1) by (simp add: unat_eq_0)
  have none1: "due_timers ?k1 = []"
  proof -
    have "tm \<notin> set (due_timers ?k1)" for tm
      using due_timers_iff [OF system_okD(2) [OF k1], of tm] due_timers_iff [OF system_okD(2) [OF ok], of tm]
        none lists tl [of tm] nz by (auto split: if_splits)
    then show ?thesis by (metis equals0I set_empty)
  qed
  have pend1: "timer_pending ?k1 = []"
    using st pend by (auto simp: arm_thread_timer_def timer_start_fields(3) rt_thread_suspend_def Let_def rt_timer_stop_def)
  have "\<exists>c. rt_current_thread ?k1 = Some c"
  proof -
    obtain h q where hp: "get_highest_priority_thread ?a = (h, q)" by fastforce
    have "\<not> keeps_cpu ?a t" using sa by (simp add: keeps_cpu_def)
    from rt_schedule_switch(1) [OF system_okD(1) [OF a] fa(1,2) ready_in_group(2) [OF kinvD [OF system_okD(1) [OF a]] ua] this hp]
    show ?thesis by blast
  qed
  then have ro: "runs_other ?k1 t" using block(2) by (auto simp: runs_other_def)
  have sus: "th_state (threads ?k1 t) = RT_THREAD_SUSPEND"
    using rt_schedule_suspended [OF system_okD(1) [OF a] sa] sa by simp
  have sl: "sleeping t (unat n) ?k1"
    unfolding sleeping_def
    using k1 pend1 none1 only lists ro sus tl [of "ThreadTimer t"] arm_thread_timer_fields(6) [of t n ?s]
    by auto
  have before: "\<exists>k2. ticks user m ?k1 = Some k2 \<and> th_state (threads k2 t) = RT_THREAD_SUSPEND" if "m < unat n" for m
  proof -
    have "sleeping t (m + (unat n - m)) ?k1" using sl that by simp
    from sleeping_ticks [OF user this] that show ?thesis by (auto simp: sleeping_def)
  qed
  obtain j where j: "ticks user (unat n - 1) ?k1 = Some j" "sleeping t 1 j"
    using sleeping_ticks [OF user, of t "unat n - 1" 1 ?k1] sl nz by auto
  obtain k3 where k3: "rt_tick_increase user j = Some k3" "system_ok k3" "is_runnable (threads k3 t)"
    "th_error (threads k3 t) = - RT_ETIMEOUT"
    using sleeping_tick(1) [OF j(2) user refl] by blast
  have "ticks user (unat n) ?k1 = Some k3"
    using ticks_add [of user "unat n - 1" 1 ?k1] j(1) k3(1) nz by simp
  moreover have "rt_thread_sleep_resume t k3 = (RT_EOK, set_thread t (th_error_update (\<lambda>_. RT_EOK)) k3)"
    using k3(4) by (simp add: rt_thread_sleep_resume_def clear_timeout_error_def)
  ultimately show ?thesis using eq before k3(2,3) by blast
qed

theorem sleep_lasts_n_ticks_witness:
  "\<exists>k1 k3. rt_thread_sleep 5 sample = Blocked k1 \<and> ticks (\<lambda>_ _ k. k) 5 k1 = Some k3
     \<and> is_runnable (threads k3 1)"
proof -
  have "\<forall>tm \<in> set (rt_timer_list sample). \<exists>t. tm = ThreadTimer t" by simp
  from sleep_lasts_n_ticks [OF system_ok_sample _ due_sample this _ _ _ _ _ _ _ leaves_timers_id, of 1 2 5 5]
  show ?thesis by auto
qed

subsection \<open>Closed threads\<close>

lemma rt_defunct_execute_nil: "tq k DefunctQ = [] \<Longrightarrow> rt_defunct_execute k = k"
  by (simp add: rt_defunct_execute.simps [of k] rt_thread_defunct_dequeue_def)

lemma rt_defunct_execute_cons:
  "tq k DefunctQ = t # ts \<Longrightarrow> rt_defunct_execute k = rt_defunct_execute (defunct_collect t (tlist_remove t k))"
  by (simp add: rt_defunct_execute.simps [of k] rt_thread_defunct_dequeue_def)

text \<open>
  The cleanup function of a thread created on the heap runs twice when the thread ends:
  \<open>_rt_thread_exit\<close> calls it, and the idle thread calls it again before it frees the stack.
\<close>

theorem cleanup_runs_twice:
  assumes inv: "kinv k" and cur: "rt_current_thread k = Some t" and run: "th_state (threads k t) = RT_THREAD_RUNNING"
    and heap: "\<not> rt_object_is_systemobject (OThread t) k" and cleanup: "th_cleanup (threads k t) = Some f"
    and empty: "tq k DefunctQ = []"
  shows "kernel_calls (rt_defunct_execute (rt_thread_exit k)) =
    Free_object (OThread t) # Free_stack (th_stack_addr (threads k t)) #
    Call_cleanup f t # Call_cleanup f t # kernel_calls k"
proof -
  let ?c = "rt_thread_cleanup_execute t k"
  let ?d = "snd (rt_timer_detach (ThreadTimer t)
      (set_thread t (th_stat_update (\<lambda>_. RT_THREAD_CLOSE)) (rt_schedule_remove_thread t ?c)))"
  let ?e = "rt_thread_defunct_enqueue t ?d"
  have sysobj: "\<not> rt_object_is_systemobject (OThread t) ?d"
    using heap by (simp add: rt_object_is_systemobject_def rt_timer_detach_def Let_def set_timer_flag_def)
  have exit: "rt_thread_exit k = rt_schedule ?e"
    using cur sysobj by (simp add: rt_thread_exit_def rt_thread_self_def Let_def)
  have calls: "kernel_calls ?e = Call_cleanup f t # kernel_calls k"
    by (simp add: rt_thread_cleanup_execute_def cleanup)
  have q: "tq ?e DefunctQ = [t]"
    using empty by (simp add: rt_thread_defunct_enqueue_def)
  have obj: "objects (rt_schedule ?e) (OThread t) = objects k (OThread t)"
    by (simp add: rt_timer_detach_def Let_def set_timer_flag_def)
  have inv1: "kinv (rt_schedule ?e)"
    using kinv_thread_exit [OF inv cur] run by (simp add: is_active_def exit)
  have "kinv ?e"
  proof (rule kinv_close(2))
    have "prio_ok (threads k t)" using active_prio [OF kinvD [OF inv], of t] run by (simp add: is_active_def)
    then show "kinv_but {t} ?d" using kinvD [OF inv] by (simp add: kinv_remove_thread)
  qed (use cur in simp_all)
  then have keep: "tq (rt_schedule ?e) DefunctQ = [t]" using q rt_schedule_tq [of ?e DefunctQ] by simp
  have same: "th_cleanup (threads (rt_schedule ?e) t) = Some f
      \<and> th_stack_addr (threads (rt_schedule ?e) t) = th_stack_addr (threads k t)"
  proof -
    have ce: "rt_current_thread ?e = Some t" using cur by simp
    have te: "threads ?e t = (threads k t)\<lparr>th_stat := RT_THREAD_CLOSE\<rparr>" by simp
    show ?thesis
    proof (cases "rt_scheduler_lock_nest ?e \<noteq> 0 \<or> rt_thread_ready_priority_group ?e = 0")
      case True
      then show ?thesis using te cleanup rt_schedule_idle [of ?e] by auto
    next
      case False
      then have go: "rt_scheduler_lock_nest ?e = 0" "rt_thread_ready_priority_group ?e \<noteq> 0" by auto
      obtain h p where hp: "get_highest_priority_thread ?e = (h, p)" by fastforce
      have nk: "\<not> keeps_cpu ?e t" by (simp add: keeps_cpu_def)
      have "th_state (threads ?e t) = RT_THREAD_CLOSE" by simp
      with rt_schedule_switch(4) [OF \<open>kinv ?e\<close> ce go nk hp] te cleanup show ?thesis by simp
    qed
  qed
  let ?r = "tlist_remove t (rt_schedule ?e)"
  have sys: "\<not> rt_object_is_systemobject (OThread t) ?r"
    using heap obj by (simp add: rt_object_is_systemobject_def)
  have col: "defunct_collect t ?r = rt_object_delete (OThread t) (?r\<lparr>kernel_calls :=
      Free_stack (th_stack_addr (threads k t)) # Call_cleanup f t # kernel_calls ?r\<rparr>)"
    using same sys by (simp add: defunct_collect_def Let_def rt_object_is_systemobject_def)
  have "tq (defunct_collect t ?r) DefunctQ = []" using keep by (simp add: defunct_collect_tq)
  then have "rt_defunct_execute (rt_thread_exit k) = defunct_collect t ?r"
    using keep by (simp add: exit rt_defunct_execute_cons rt_defunct_execute_nil)
  then show ?thesis using calls by (simp add: col rt_object_delete_def Let_def)
qed

definition sample_cleanup :: kernel where
  "sample_cleanup = set_thread 1 (th_cleanup_update (\<lambda>_. Some 7)) sample"

theorem cleanup_runs_twice_witness:
  "kernel_calls (rt_defunct_execute (rt_thread_exit sample_cleanup)) =
    [Free_object (OThread 1), Free_stack 0, Call_cleanup 7 1, Call_cleanup 7 1]"
proof -
  have k: "kinv sample_cleanup" unfolding sample_cleanup_def using kinv_sample by (simp add: kinv_set_other)
  have o1: "\<not> rt_object_is_systemobject (OThread 1) sample_cleanup"
    by (simp add: rt_object_is_systemobject_def sample_cleanup_def sample_def reset_kernel_def)
  have "kernel_calls sample_cleanup = []" "th_stack_addr (threads sample_cleanup 1) = 0"
    by (simp_all add: sample_cleanup_def) (simp_all add: sample_def reset_kernel_def sample_thread_def zero_thread_def)
  then show ?thesis
    using cleanup_runs_twice [OF k, of 1 7] o1 by (simp add: sample_cleanup_def)
qed

subsection \<open>Semaphores\<close>

text \<open>
  C10. Releasing a semaphore refines the abstract one: the first waiting thread gets the unit and is
  runnable, or the value grows by one; a full semaphore is an error and keeps its value.
\<close>

theorem sem_release_refines:
  assumes ok: "system_ok k"
  shows "system_ok (snd (rt_sem_release s k))
    \<and> sem_abs s (snd (rt_sem_release s k)) = sem_release_spec (sem_abs s k)
    \<and> fst (rt_sem_release s k) = (if sem_abs s k = (65535, []) then - RT_EFULL else RT_EOK)
    \<and> (\<forall>w ws. tq k (SemQ s) = w # ws \<longrightarrow> is_runnable (threads (snd (rt_sem_release s k)) w)
         \<and> th_error (threads (snd (rt_sem_release s k)) w) = th_error (threads k w))"
  using sem_release_abs [OF ok, of s] by blast

theorem sem_release_refines_witness:
  "sem_abs 0 sample = (0, [3]) \<and> sem_abs 0 (snd (rt_sem_release 0 sample)) = (0, [])
   \<and> is_runnable (threads (snd (rt_sem_release 0 sample)) 3)"
proof -
  have "sem_abs 0 sample = (0, [3])" "tq sample (SemQ 0) = [3]" by (simp_all add: sem_abs_def)
  then show ?thesis using sem_release_refines [OF system_ok_sample, of 0] by simp
qed

text \<open>
  C11. Taking a semaphore of value zero with a time: the thread leaves the CPU and is last in the
  queue (or before the first of smaller urgency, in a semaphore of the priority kind), its timer
  runs for the given ticks when the wait is bounded, and the value stays zero.
\<close>

theorem sem_take_queues_the_thread:
  assumes ok: "system_ok k" and cur: "rt_current_thread k = Some t"
    and run: "th_state (threads k t) = RT_THREAD_RUNNING"
    and flag: "flag = RT_IPC_FLAG_FIFO \<or> flag = RT_IPC_FLAG_PRIO" "obj_flag (objects k (OSem s)) = flag"
    and zero: "sem_value (semaphores k s) = 0" and time: "time \<noteq> 0" "time \<noteq> 0x7fffffff"
    and free: "rt_scheduler_lock_nest k = 0" "rt_interrupt_nest k = 0" and other: "u \<in> set (tq k (ReadyQ p))"
  shows "\<exists>k'. rt_sem_take s time k = Blocked k' \<and> system_ok k' \<and> rt_current_thread k' \<noteq> Some t
    \<and> sem_abs s k' = (0, if flag = RT_IPC_FLAG_FIFO then tq k (SemQ s) @ [t]
                        else prio_insert (threads k) t (tq k (SemQ s)))
    \<and> th_state (threads k' t) = RT_THREAD_SUSPEND \<and> th_error (threads k' t) = RT_EOK
    \<and> (0 < sint time \<longrightarrow> ThreadTimer t \<in> set (rt_timer_list k')
         \<and> ticks_left k' (ThreadTimer t) = unat time)"
  using assms by (rule sem_take_waits)

theorem sem_take_queues_the_thread_witness:
  "\<exists>k'. rt_sem_take 0 100 sample = Blocked k' \<and> sem_abs 0 k' = (0, [3, 1])
     \<and> ticks_left k' (ThreadTimer 1) = 100"
  using sem_take_queues_the_thread [OF system_ok_sample, of 1 0 0 100 2 5] by auto

end
