(* ===== verification/Mutex.thy ===== *)
theory Mutex
  imports Wait_List
begin

section \<open>Mutexes (\<open>rt-thread/src/ipc.c\<close>)\<close>

text \<open>
  The recursive mutex with priority inheritance: its operations, the invariant that ties owner,
  value and hold count together, and what taking and releasing do in every case.
\<close>

definition RT_MUTEX_VALUE_MAX :: u16 where "RT_MUTEX_VALUE_MAX = 0xffff"
definition RT_MUTEX_HOLD_MAX :: u8 where "RT_MUTEX_HOLD_MAX = 0xff"

definition free_mutex :: rt_mutex where
  "free_mutex = \<lparr>mtx_value = 1, mtx_original_priority = 0xff, mtx_hold = 0, mtx_owner = None\<rparr>"

definition rt_mutex_init :: "nat \<Rightarrow> string \<Rightarrow> u8 \<Rightarrow> kernel \<Rightarrow> rt_err_t \<times> kernel" where
  "rt_mutex_init mutex name flag k =
    (let k = rt_object_init (OMutex mutex) RT_Object_Class_Mutex name k;
         k = rt_ipc_object_init (MutexQ mutex) k;
         k = set_mutex mutex (\<lambda>_. free_mutex) k
     in (RT_EOK, set_object (OMutex mutex) (obj_flag_update (\<lambda>_. RT_IPC_FLAG_PRIO)) k))"

definition rt_mutex_detach :: "nat \<Rightarrow> kernel \<Rightarrow> (rt_err_t \<times> kernel) option" where
  "rt_mutex_detach mutex k =
    (case rt_ipc_list_resume_all (MutexQ mutex) k of
       None \<Rightarrow> None
     | Some k \<Rightarrow> Some (RT_EOK, rt_object_detach (OMutex mutex) k))"

definition rt_mutex_create :: "nat option \<Rightarrow> string \<Rightarrow> u8 \<Rightarrow> kernel \<Rightarrow> nat option \<times> kernel" where
  "rt_mutex_create mem name flag k =
    (case mem of
       None \<Rightarrow> (None, snd (rt_object_allocate None RT_Object_Class_Mutex name k))
     | Some mutex \<Rightarrow>
        let k = snd (rt_object_allocate (Some (OMutex mutex)) RT_Object_Class_Mutex name k);
            k = rt_ipc_object_init (MutexQ mutex) k;
            k = set_mutex mutex (\<lambda>_. free_mutex) k
        in (Some mutex, set_object (OMutex mutex) (obj_flag_update (\<lambda>_. RT_IPC_FLAG_PRIO)) k))"

definition rt_mutex_delete :: "nat \<Rightarrow> kernel \<Rightarrow> (rt_err_t \<times> kernel) option" where
  "rt_mutex_delete mutex k =
    (case rt_ipc_list_resume_all (MutexQ mutex) k of
       None \<Rightarrow> None
     | Some k \<Rightarrow> Some (RT_EOK, rt_object_delete (OMutex mutex) k))"

text \<open>\<open>hold\<close> is counted up to its maximum, beyond it both functions return an error.\<close>

definition mutex_hold_more :: "nat \<Rightarrow> kernel \<Rightarrow> (rt_err_t \<times> kernel)" where
  "mutex_hold_more mutex k =
    (if mtx_hold (mutexes k mutex) < RT_MUTEX_HOLD_MAX
     then (RT_EOK, set_mutex mutex (\<lambda>m. m\<lparr>mtx_hold := mtx_hold m + 1\<rparr>) k)
     else (- RT_EFULL, k))"

definition rt_mutex_take :: "nat \<Rightarrow> 32 word \<Rightarrow> kernel \<Rightarrow> rt_err_t outcome" where
  "rt_mutex_take mutex time k =
    (let thread = the (rt_thread_self k);
         k = set_thread thread (th_error_update (\<lambda>_. RT_EOK)) k
     in if mtx_owner (mutexes k mutex) = Some thread
        then (case mutex_hold_more mutex k of (err, k) \<Rightarrow> Returned err k)
        else if 0 < mtx_value (mutexes k mutex) then
          let k = set_mutex mutex (\<lambda>m. m\<lparr>mtx_value := mtx_value m - 1\<rparr>) k;
              k = set_mutex mutex (\<lambda>m. m\<lparr>mtx_owner := Some thread,
                     mtx_original_priority := th_current_priority (threads k thread)\<rparr>) k
          in (case mutex_hold_more mutex k of (err, k) \<Rightarrow> Returned err k)
        else if time = 0
        then Returned (- RT_ETIMEOUT) (set_thread thread (th_error_update (\<lambda>_. - RT_ETIMEOUT)) k)
        else
          let owner = the (mtx_owner (mutexes k mutex));
              priority = th_current_priority (threads k thread);
              k = (if priority < th_current_priority (threads k owner)
                   then snd (rt_thread_control owner (RT_THREAD_CTRL_CHANGE_PRIORITY priority) k)
                   else k);
              k = wait_on (MutexQ mutex) thread (obj_flag (objects k (OMutex mutex))) time k
          in reschedule_then thread (wait_result thread) k)"

definition rt_mutex_trytake :: "nat \<Rightarrow> kernel \<Rightarrow> rt_err_t outcome" where
  "rt_mutex_trytake mutex k = rt_mutex_take mutex RT_WAITING_NO k"

definition rt_mutex_release :: "nat \<Rightarrow> kernel \<Rightarrow> rt_err_t \<times> kernel" where
  "rt_mutex_release mutex k =
    (let thread = the (rt_thread_self k)
     in if mtx_owner (mutexes k mutex) \<noteq> Some thread
        then (- RT_ERROR, set_thread thread (th_error_update (\<lambda>_. - RT_ERROR)) k)
        else
          let k = set_mutex mutex (\<lambda>m. m\<lparr>mtx_hold := mtx_hold m - 1\<rparr>) k
          in if mtx_hold (mutexes k mutex) \<noteq> 0 then (RT_EOK, k)
             else
               let original = mtx_original_priority (mutexes k mutex);
                   k = (if original \<noteq> th_current_priority (threads k thread)
                        then snd (rt_thread_control thread (RT_THREAD_CTRL_CHANGE_PRIORITY original) k)
                        else k)
               in if tq k (MutexQ mutex) \<noteq> [] then
                    let next = hd (tq k (MutexQ mutex));
                        k = set_mutex mutex (\<lambda>m. m\<lparr>mtx_owner := Some next,
                               mtx_original_priority := th_current_priority (threads k next)\<rparr>) k
                    in (case mutex_hold_more mutex k of
                          (err, k) \<Rightarrow> if err \<noteq> RT_EOK then (err, k)
                                      else (RT_EOK, rt_schedule (rt_ipc_list_resume (MutexQ mutex) k)))
                  else if mtx_value (mutexes k mutex) < RT_MUTEX_VALUE_MAX
                  then (RT_EOK, set_mutex mutex (\<lambda>m. m\<lparr>mtx_value := mtx_value m + 1,
                                  mtx_owner := None, mtx_original_priority := 0xff\<rparr>) k)
                  else (- RT_EFULL, k))"

definition rt_mutex_control :: "nat \<Rightarrow> int \<Rightarrow> u32 \<Rightarrow> kernel \<Rightarrow> rt_err_t \<times> kernel" where
  "rt_mutex_control mutex cmd arg k = (- RT_ERROR, k)"

subsection \<open>Changing a priority\<close>

lemma change_priority_frame [simp]:
  "rt_scheduler_lock_nest (rt_thread_change_priority t p k) = rt_scheduler_lock_nest k"
  "rt_current_thread (rt_thread_change_priority t p k) = rt_current_thread k"
  "rt_current_priority (rt_thread_change_priority t p k) = rt_current_priority k"
  "rt_interrupt_nest (rt_thread_change_priority t p k) = rt_interrupt_nest k"
  "rt_tick (rt_thread_change_priority t p k) = rt_tick k"
  "timers (rt_thread_change_priority t p k) = timers k"
  "rt_timer_list (rt_thread_change_priority t p k) = rt_timer_list k"
  "timer_pending (rt_thread_change_priority t p k) = timer_pending k"
  "random_nr (rt_thread_change_priority t p k) = random_nr k"
  "objects (rt_thread_change_priority t p k) = objects k"
  "object_list (rt_thread_change_priority t p k) = object_list k"
  "semaphores (rt_thread_change_priority t p k) = semaphores k"
  "mutexes (rt_thread_change_priority t p k) = mutexes k"
  "events (rt_thread_change_priority t p k) = events k"
  "mailboxes (rt_thread_change_priority t p k) = mailboxes k"
  "messagequeues (rt_thread_change_priority t p k) = messagequeues k"
  "kernel_calls (rt_thread_change_priority t p k) = kernel_calls k"
  by (simp_all add: rt_thread_change_priority_def Let_def)

lemma change_priority_effect:
  assumes inv: "kinv k"
  shows "th_state (threads (rt_thread_change_priority t p k) s) = th_state (threads k s)"
    and "th_current_priority (threads (rt_thread_change_priority t p k) s) =
           (if s = t then p else th_current_priority (threads k s))"
    and "th_error (threads (rt_thread_change_priority t p k) s) = th_error (threads k s)"
    and "s \<noteq> t \<Longrightarrow> threads (rt_thread_change_priority t p k) s = threads k s"
    and "(\<And>i. q \<noteq> ReadyQ i) \<Longrightarrow> tq (rt_thread_change_priority t p k) q = tq k q"
proof -
  have "rt_current_thread k \<noteq> Some t" if "th_state (threads k t) = RT_THREAD_READY"
    using that inv by (auto simp: kinv_def)
  moreover have "t \<notin> set (tq k q)" if "th_state (threads k t) = RT_THREAD_READY" "\<And>i. q \<noteq> ReadyQ i" for q
    using that kinv_fits [OF kinvD [OF inv], of t q] by (cases q) auto
  ultimately show "th_state (threads (rt_thread_change_priority t p k) s) = th_state (threads k s)"
    "th_current_priority (threads (rt_thread_change_priority t p k) s) =
           (if s = t then p else th_current_priority (threads k s))"
    "th_error (threads (rt_thread_change_priority t p k) s) = th_error (threads k s)"
    "s \<noteq> t \<Longrightarrow> threads (rt_thread_change_priority t p k) s = threads k s"
    "(\<And>i. q \<noteq> ReadyQ i) \<Longrightarrow> tq (rt_thread_change_priority t p k) q = tq k q"
    by (auto simp: rt_thread_change_priority_def Let_def threads_insert_thread rt_schedule_insert_thread_def)
qed

lemma change_priority_ready:
  assumes inv: "kinv k" and st: "u \<in> set (tq k (ReadyQ i))"
  shows "\<exists>j. u \<in> set (tq (rt_thread_change_priority t p k) (ReadyQ j))"
proof -
  have "th_state (threads k u) = RT_THREAD_READY" using kinv_fits [OF kinvD [OF inv] st] by simp
  moreover have "rt_current_thread k \<noteq> Some t" if "th_state (threads k t) = RT_THREAD_READY"
    using that inv by (auto simp: kinv_def)
  ultimately have "u \<in> set (tq (rt_thread_change_priority t p k) (ReadyQ (if u = t then unat p else i)))"
    using st by (auto simp: rt_thread_change_priority_def Let_def rt_schedule_insert_thread_def)
  then show ?thesis ..
qed

lemma system_ok_change_priority:
  assumes ok: "system_ok k" and p: "unat p < RT_THREAD_PRIORITY_MAX"
  shows "system_ok (rt_thread_change_priority t p k)"
  using change_priority_effect [where t = t and p = p, OF system_okD(1) [OF ok]] kinv_change_priority [OF system_okD(1) [OF ok] p]
  by (intro system_ok_threads [OF ok]) (simp_all add: timer_flag_def is_active_def)

lemma thread_control_priority [simp]:
  "snd (rt_thread_control t (RT_THREAD_CTRL_CHANGE_PRIORITY p) k) = rt_thread_change_priority t p k"
  by (simp add: rt_thread_control_def)

lemma system_ok_set_mutex [simp]: "system_ok (set_mutex m f k) = system_ok k"
  by (rule system_ok_cong) (simp_all add: timer_flag_def)

subsection \<open>Owner, value and hold count\<close>

text \<open>
  A mutex is free, or held by one thread that is not among those waiting for it; the priority it
  will give back is one of the priorities.
\<close>

definition mutex_ok :: "nat \<Rightarrow> kernel \<Rightarrow> bool" where
  "mutex_ok m k \<longleftrightarrow>
     (mutexes k m = free_mutex \<and> tq k (MutexQ m) = [])
   \<or> (\<exists>t. mtx_owner (mutexes k m) = Some t \<and> mtx_value (mutexes k m) = 0 \<and> mtx_hold (mutexes k m) \<noteq> 0
        \<and> unat (mtx_original_priority (mutexes k m)) < RT_THREAD_PRIORITY_MAX \<and> t \<notin> set (tq k (MutexQ m)))"

lemma mutex_ok_cong:
  "mutexes k m = mutexes k' m \<Longrightarrow> tq k (MutexQ m) = tq k' (MutexQ m) \<Longrightarrow> mutex_ok m k = mutex_ok m k'"
  by (simp add: mutex_ok_def)

lemma mutex_owned:
  assumes "mutex_ok m k" "mtx_owner (mutexes k m) = Some t"
  shows "mtx_value (mutexes k m) = 0" "mtx_hold (mutexes k m) \<noteq> 0"
    "unat (mtx_original_priority (mutexes k m)) < RT_THREAD_PRIORITY_MAX" "t \<notin> set (tq k (MutexQ m))"
  using assms by (auto simp: mutex_ok_def free_mutex_def)

lemma mutex_free:
  assumes "mutex_ok m k" "mtx_owner (mutexes k m) = None \<or> 0 < mtx_value (mutexes k m)"
  shows "mutexes k m = free_mutex" "tq k (MutexQ m) = []"
  using assms by (auto simp: mutex_ok_def)

lemma active_priority_bound:
  assumes "system_ok k" "is_active (threads k t)"
  shows "unat (th_current_priority (threads k t)) < RT_THREAD_PRIORITY_MAX"
  using active_prio [OF kinvD [OF system_okD(1) [OF assms(1)]] _ assms(2)] by (simp add: prio_ok_def)

text \<open>Taking a free mutex, and taking it again.\<close>

lemma mutex_take_free:
  assumes ok: "system_ok k" and m: "mutex_ok m k" and cur: "rt_current_thread k = Some t"
    and run: "th_state (threads k t) = RT_THREAD_RUNNING" and free: "mtx_owner (mutexes k m) = None"
  shows "\<exists>k'. rt_mutex_take m time k = Returned RT_EOK k' \<and> system_ok k' \<and> mutex_ok m k'
    \<and> mutexes k' m = \<lparr>mtx_value = 0, mtx_original_priority = th_current_priority (threads k t),
                      mtx_hold = 1, mtx_owner = Some t\<rparr>
    \<and> tq k' = tq k \<and> threads k' = (threads k)(t := (threads k t)\<lparr>th_error := RT_EOK\<rparr>)
    \<and> (\<forall>m'. m' \<noteq> m \<longrightarrow> mutexes k' m' = mutexes k m') \<and> rt_current_thread k' = Some t"
proof -
  have f: "mutexes k m = free_mutex" "tq k (MutexQ m) = []" using mutex_free [OF m] free by blast+
  let ?e = "set_thread t (th_error_update (\<lambda>_. RT_EOK)) k"
  let ?k = "set_mutex m (\<lambda>_. \<lparr>mtx_value = 0, mtx_original_priority = th_current_priority (threads k t),
                      mtx_hold = 1, mtx_owner = Some t\<rparr>) ?e"
  have "rt_mutex_take m time k = Returned RT_EOK ?k"
    using f cur by (simp add: rt_mutex_take_def rt_thread_self_def Let_def free_mutex_def mutex_hold_more_def
        RT_MUTEX_HOLD_MAX_def set_mutex_def)
  moreover have "system_ok ?k" using ok by (simp add: system_ok_set_other)
  moreover have "mutex_ok m ?k"
    using f active_priority_bound [OF ok, of t] run by (simp add: mutex_ok_def is_active_def)
  ultimately show ?thesis using cur by auto
qed

lemma hold_max:
  fixes h :: u8
  shows "h < RT_MUTEX_HOLD_MAX \<longleftrightarrow> h \<noteq> 0xff" "h \<noteq> 0xff \<Longrightarrow> h + 1 \<noteq> 0" "h \<noteq> 0xff \<Longrightarrow> unat (h + 1) = unat h + 1"
proof -
  have max: "(0xff :: u8) = - 1" by simp
  show "h < RT_MUTEX_HOLD_MAX \<longleftrightarrow> h \<noteq> 0xff"
    unfolding RT_MUTEX_HOLD_MAX_def max by (simp add: word_order.not_eq_extremum)
  assume "h \<noteq> 0xff"
  then have ne: "h + 1 \<noteq> 0" unfolding max by (metis add_eq_0_iff2)
  then show "h + 1 \<noteq> 0" .
  have "unat h \<noteq> unat (0xff :: u8)" using \<open>h \<noteq> 0xff\<close> word_unat_eq_iff by blast
  moreover have "unat h < 256" using unsigned_less [of h, where 'a = nat] by simp
  ultimately show "unat (h + 1) = unat h + 1" by (simp add: unat_word_ariths)
qed

lemma mutex_take_again:
  assumes ok: "system_ok k" and m: "mutex_ok m k" and cur: "rt_current_thread k = Some t"
    and own: "mtx_owner (mutexes k m) = Some t"
  shows "\<exists>k'. rt_mutex_take m time k =
        Returned (if mtx_hold (mutexes k m) = 0xff then - RT_EFULL else RT_EOK) k'
    \<and> system_ok k' \<and> mutex_ok m k'
    \<and> mutexes k' m = (mutexes k m)\<lparr>mtx_hold :=
         (if mtx_hold (mutexes k m) = 0xff then 0xff else mtx_hold (mutexes k m) + 1)\<rparr>
    \<and> rt_current_thread k' = Some t"
proof -
  let ?e = "set_thread t (th_error_update (\<lambda>_. RT_EOK)) k"
  have e: "system_ok ?e" using ok by (simp add: system_ok_set_other)
  note h = hold_max [of "mtx_hold (mutexes k m)"]
  note o1 = mutex_owned [OF m own]
  show ?thesis
  proof (cases "mtx_hold (mutexes k m) = 0xff")
    case True
    have "rt_mutex_take m time k = Returned (- RT_EFULL) ?e"
      using True h cur own by (simp add: rt_mutex_take_def rt_thread_self_def Let_def mutex_hold_more_def)
    moreover have "mutex_ok m ?e" using m mutex_ok_cong [of ?e m k] by simp
    ultimately show ?thesis using True e cur by simp
  next
    case False
    let ?k = "set_mutex m (\<lambda>m. m\<lparr>mtx_hold := mtx_hold m + 1\<rparr>) ?e"
    have "rt_mutex_take m time k = Returned RT_EOK ?k"
      using False h cur own by (simp add: rt_mutex_take_def rt_thread_self_def Let_def mutex_hold_more_def)
    moreover have "mutex_ok m ?k" using own o1 False h by (simp add: mutex_ok_def)
    moreover have "system_ok ?k" using e by simp
    ultimately show ?thesis using False cur by simp
  qed
qed

lemma clear_yield_more [simp]:
  "th_error (clear_yield th) = th_error th" "th_init_priority (clear_yield th) = th_init_priority th"
  "th_event_set (clear_yield th) = th_event_set th" "th_event_info (clear_yield th) = th_event_info th"
  by (simp_all add: clear_yield_def)

lemma rt_schedule_thread_fields [simp]:
  "th_current_priority (threads (rt_schedule k) s) = th_current_priority (threads k s)"
  "th_error (threads (rt_schedule k) s) = th_error (threads k s)"
  "th_init_priority (threads (rt_schedule k) s) = th_init_priority (threads k s)"
  "th_event_set (threads (rt_schedule k) s) = th_event_set (threads k s)"
  "th_event_info (threads (rt_schedule k) s) = th_event_info (threads k s)"
  by (auto simp: rt_schedule_def Let_def threads_insert_thread split: option.split prod.split)

text \<open>
  Taking a mutex another thread holds: the owner runs at the priority of the waiting thread if that
  is the more urgent one.
\<close>

lemma mutex_take_waits:
  assumes ok: "system_ok k" and m: "mutex_ok m k" and cur: "rt_current_thread k = Some t"
    and run: "th_state (threads k t) = RT_THREAD_RUNNING"
    and own: "mtx_owner (mutexes k m) = Some s" "s \<noteq> t"
    and flag: "obj_flag (objects k (OMutex m)) = RT_IPC_FLAG_PRIO"
    and time: "time \<noteq> 0" "time \<noteq> 0x7fffffff"
    and free: "rt_scheduler_lock_nest k = 0" "rt_interrupt_nest k = 0" and other: "u \<in> set (tq k (ReadyQ p))"
  shows "\<exists>k'. rt_mutex_take m time k = Blocked k' \<and> system_ok k' \<and> mutex_ok m k'
    \<and> rt_current_thread k' \<noteq> Some t \<and> mutexes k' = mutexes k
    \<and> tq k' (MutexQ m) = prio_insert (threads k) t (tq k (MutexQ m))
    \<and> th_state (threads k' t) = RT_THREAD_SUSPEND \<and> th_error (threads k' t) = RT_EOK
    \<and> th_current_priority (threads k' s) =
        min (th_current_priority (threads k s)) (th_current_priority (threads k t))
    \<and> (0 < sint time \<longrightarrow> ticks_left k' (ThreadTimer t) = unat time)"
proof -
  let ?p = "th_current_priority (threads k t)"
  let ?e = "set_thread t (th_error_update (\<lambda>_. RT_EOK)) k"
  let ?c = "if ?p < th_current_priority (threads k s) then rt_thread_change_priority s ?p ?e else ?e"
  have e: "system_ok ?e" using ok by (simp add: system_ok_set_other)
  note ke = system_okD(1) [OF e]
  have pb: "unat ?p < RT_THREAD_PRIORITY_MAX" using active_priority_bound [OF ok, of t] run by (simp add: is_active_def)
  have c: "system_ok ?c" using e system_ok_change_priority [OF e pb] by simp
  have ct: "threads ?c t = (threads k t)\<lparr>th_error := RT_EOK\<rparr>"
    using change_priority_effect(4) [OF ke, of t s] own(2) by simp
  have cq: "tq ?c (MutexQ m) = tq k (MutexQ m)"
    using change_priority_effect(5) [OF ke, of "MutexQ m"] by simp
  have cp: "th_current_priority (threads ?c i) =
      (if i = s then min (th_current_priority (threads k s)) ?p else th_current_priority (threads k i))" for i
    using change_priority_effect(2) [OF ke, of s ?p i] by (auto simp: min_def)
  have "\<exists>j. u \<in> set (tq ?c (ReadyQ j))"
    using change_priority_ready [OF ke, of u p s ?p] other by auto
  then obtain j where uj: "u \<in> set (tq ?c (ReadyQ j))" by blast
  have c': "rt_current_thread ?c = Some t" "th_state (threads ?c t) = RT_THREAD_RUNNING"
    "rt_scheduler_lock_nest ?c = 0" "rt_interrupt_nest ?c = 0"
    using cur run free ct by simp_all
  define k' where "k' = rt_schedule (wait_on (MutexQ m) t RT_IPC_FLAG_PRIO time ?c)"
  have prio: "RT_IPC_FLAG_PRIO = RT_IPC_FLAG_FIFO \<or> RT_IPC_FLAG_PRIO = RT_IPC_FLAG_PRIO" by simp
  note w = mutexq.wait_blocks [where m = m, OF c c'(1,2) prio time(2) c'(3,4) uj, folded k'_def]
  have nv: "\<not> 0 < mtx_value (mutexes k m)" using mutex_owned(1) [OF m own(1)] by simp
  have "rt_mutex_take m time k = reschedule_then t (wait_result t) (wait_on (MutexQ m) t RT_IPC_FLAG_PRIO time ?c)"
    using own nv time flag cur by (simp add: rt_mutex_take_def rt_thread_self_def Let_def)
  then have take: "rt_mutex_take m time k = Blocked k'" by (simp only: w(1))
  have pi: "prio_insert (threads ?c) t xs = prio_insert (threads k) t xs" if "s \<notin> set xs" for xs
    using that own(2) by (induction xs) (auto simp: cp)
  have q: "tq k' (MutexQ m) = prio_insert (threads k) t (tq k (MutexQ m))"
    using w(4) cq pi [OF mutex_owned(4) [OF m own(1)]] by simp
  have mx: "mutexes k' = mutexes k" by (simp add: k'_def)
  have "mutex_ok m k'" using mutex_owned [OF m own(1)] own q by (simp add: mutex_ok_def mx)
  moreover have "th_current_priority (threads k' s) = min (th_current_priority (threads k s)) ?p"
    using mutexq.wait_on(2) [where m = m, OF c disjI2 [OF c'(2)] prio time(2)] cp [of s] own(2)
    by (simp add: k'_def)
  ultimately show ?thesis using take w(2,3,5,7) q mx ct by auto
qed

subsection \<open>Releasing\<close>

lemma mutex_release_stranger:
  "rt_current_thread k = Some t \<Longrightarrow> mtx_owner (mutexes k m) \<noteq> Some t \<Longrightarrow>
   rt_mutex_release m k = (- RT_ERROR, set_thread t (th_error_update (\<lambda>_. - RT_ERROR)) k)"
  by (simp add: rt_mutex_release_def rt_thread_self_def)

lemma mutex_release_inner:
  assumes cur: "rt_current_thread k = Some t" and own: "mtx_owner (mutexes k m) = Some t"
    and h: "mtx_hold (mutexes k m) \<noteq> 1"
  shows "rt_mutex_release m k = (RT_EOK, set_mutex m (\<lambda>m. m\<lparr>mtx_hold := mtx_hold m - 1\<rparr>) k)"
  using assms by (simp add: rt_mutex_release_def rt_thread_self_def Let_def)

lemma mutex_release_outer:
  assumes ok: "system_ok k" and m: "mutex_ok m k" and cur: "rt_current_thread k = Some t"
    and own: "mtx_owner (mutexes k m) = Some t" and h: "mtx_hold (mutexes k m) = 1"
  defines "k' \<equiv> snd (rt_mutex_release m k)"
  shows "fst (rt_mutex_release m k) = RT_EOK" "system_ok k'" "mutex_ok m k'"
    and "th_current_priority (threads k' t) = mtx_original_priority (mutexes k m)"
    and "tq k (MutexQ m) = [] \<Longrightarrow> mutexes k' m = free_mutex \<and> rt_current_thread k' = Some t
       \<and> th_state (threads k' t) = th_state (threads k t)"
    and "tq k (MutexQ m) = w # ws \<Longrightarrow> mutexes k' m =
         \<lparr>mtx_value = 0, mtx_original_priority = th_current_priority (threads k w), mtx_hold = 1, mtx_owner = Some w\<rparr>
       \<and> tq k' (MutexQ m) = ws \<and> is_runnable (threads k' w) \<and> th_error (threads k' w) = th_error (threads k w)"
    and "m' \<noteq> m \<Longrightarrow> mutexes k' m' = mutexes k m'"
    and "tq k (MutexQ m) = [] \<Longrightarrow> (\<And>i. q \<noteq> ReadyQ i) \<Longrightarrow> tq k' q = tq k q"
proof -
  note o1 = mutex_owned [OF m own]
  let ?o = "mtx_original_priority (mutexes k m)"
  let ?h = "set_mutex m (\<lambda>m. m\<lparr>mtx_hold := mtx_hold m - 1\<rparr>) k"
  define C where "C = (if ?o \<noteq> th_current_priority (threads k t) then rt_thread_change_priority t ?o ?h else ?h)"
  have hk: "system_ok ?h" using ok by simp
  note kh = system_okD(1) [OF hk]
  have c: "system_ok C" using hk system_ok_change_priority [OF hk o1(3)] by (simp add: C_def)
  have cq: "tq C q = tq k q" if "\<And>i. q \<noteq> ReadyQ i" for q using change_priority_effect(5) [OF kh, of q] that by (simp add: C_def)
  have cm: "mutexes C = (mutexes k)(m := (mutexes k m)\<lparr>mtx_hold := 0\<rparr>)" using h by (simp add: C_def)
  have cp: "th_current_priority (threads C t) = ?o"
    using change_priority_effect(2) [OF kh, of t ?o t] by (simp add: C_def)
  have co: "th_current_priority (threads C i) = th_current_priority (threads k i)"
    "th_error (threads C i) = th_error (threads k i)" if "i \<noteq> t" for i
    using change_priority_effect(4) [OF kh that] by (simp_all add: C_def)
  have cst: "th_state (threads C i) = th_state (threads k i)" for i
    using change_priority_effect(1) [OF kh] by (simp add: C_def)
  have ccur: "rt_current_thread C = Some t" using cur by (simp add: C_def)
  have rel: "rt_mutex_release m k =
      (if tq C (MutexQ m) \<noteq> [] then
         let next = hd (tq C (MutexQ m));
             j = set_mutex m (\<lambda>m. m\<lparr>mtx_owner := Some next, mtx_original_priority := th_current_priority (threads C next)\<rparr>) C
         in (case mutex_hold_more m j of
               (err, j) \<Rightarrow> if err \<noteq> RT_EOK then (err, j) else (RT_EOK, rt_schedule (rt_ipc_list_resume (MutexQ m) j)))
       else if mtx_value (mutexes C m) < RT_MUTEX_VALUE_MAX
       then (RT_EOK, set_mutex m (\<lambda>m. m\<lparr>mtx_value := mtx_value m + 1, mtx_owner := None, mtx_original_priority := 0xff\<rparr>) C)
       else (- RT_EFULL, C))"
    using cur own h by (simp add: rt_mutex_release_def rt_thread_self_def Let_def C_def)
  have main: "fst (rt_mutex_release m k) = RT_EOK \<and> system_ok k' \<and> mutex_ok m k'
    \<and> th_current_priority (threads k' t) = ?o
    \<and> (tq k (MutexQ m) = [] \<longrightarrow> mutexes k' m = free_mutex \<and> rt_current_thread k' = Some t
         \<and> th_state (threads k' t) = th_state (threads k t) \<and> (\<forall>q. (\<forall>i. q \<noteq> ReadyQ i) \<longrightarrow> tq k' q = tq k q))
    \<and> (\<forall>w ws. tq k (MutexQ m) = w # ws \<longrightarrow> mutexes k' m =
         \<lparr>mtx_value = 0, mtx_original_priority = th_current_priority (threads k w), mtx_hold = 1, mtx_owner = Some w\<rparr>
       \<and> tq k' (MutexQ m) = ws \<and> is_runnable (threads k' w) \<and> th_error (threads k' w) = th_error (threads k w))
    \<and> (\<forall>m'. m' \<noteq> m \<longrightarrow> mutexes k' m' = mutexes k m')"
  proof (cases "tq k (MutexQ m)")
    case Nil
    let ?f = "set_mutex m (\<lambda>m. m\<lparr>mtx_value := mtx_value m + 1, mtx_owner := None, mtx_original_priority := 0xff\<rparr>) C"
    have eq: "rt_mutex_release m k = (RT_EOK, ?f)"
      using Nil o1(1) cq [of "MutexQ m"] cm by (simp add: rel RT_MUTEX_VALUE_MAX_def)
    have fm: "mutexes ?f m = free_mutex" using o1 own cm by (simp add: free_mutex_def)
    moreover have "system_ok ?f" using c by simp
    moreover have "mutex_ok m ?f" using fm Nil cq [of "MutexQ m"] by (simp add: mutex_ok_def)
    moreover have "m' \<noteq> m \<longrightarrow> mutexes ?f m' = mutexes k m'" for m' using cm by simp
    ultimately show ?thesis using eq Nil cp cst cq ccur by (simp add: k'_def)
  next
    case (Cons w ws)
    have wt: "w \<noteq> t" "t \<notin> set ws" using o1(4) Cons by auto
    let ?n = "\<lparr>mtx_value = 0, mtx_original_priority = th_current_priority (threads k w), mtx_hold = 1, mtx_owner = Some w\<rparr>"
    let ?f = "set_mutex m (\<lambda>_. ?n) C"
    have qf: "tq ?f (MutexQ m) = w # ws" using Cons cq [of "MutexQ m"] by simp
    have f: "system_ok ?f" using c by simp
    note r = mutexq.list_resume [OF f qf]
    let ?r = "rt_ipc_list_resume (MutexQ m) ?f"
    have eq: "rt_mutex_release m k = (RT_EOK, rt_schedule ?r)"
    proof -
      have "set_mutex m (\<lambda>m. m\<lparr>mtx_hold := mtx_hold m + 1\<rparr>)
          (set_mutex m (\<lambda>m. m\<lparr>mtx_owner := Some w, mtx_original_priority := th_current_priority (threads C w)\<rparr>) C) = ?f"
        using o1(1) co(1) [OF wt(1)]
        by (simp add: set_mutex_def cm, cases "mutexes k m", simp)
      then show ?thesis using qf by (simp add: rel Let_def mutex_hold_more_def RT_MUTEX_HOLD_MAX_def cm)
    qed
    have mr: "mutexes (rt_schedule ?r) = (mutexes k)(m := ?n)" using cm by simp
    have "mutex_ok m (rt_schedule ?r)"
    proof -
      have "w \<notin> set ws" using kinv_distinct [OF kinvD [OF system_okD(1) [OF ok]], of "MutexQ m"] Cons by simp
      moreover have "th_state (threads k w) = RT_THREAD_SUSPEND"
        using mutexq.members_suspended [OF ok, of w m] Cons by simp
      then have "unat (th_current_priority (threads k w)) < RT_THREAD_PRIORITY_MAX"
        using active_priority_bound [OF ok, of w] by (simp add: is_active_def)
      ultimately show ?thesis
        using r(2) mutexq.schedule_same [OF r(1)] by (simp add: mutex_ok_def mr)
    qed
    moreover have "is_runnable (threads (rt_schedule ?r) w)"
      using rt_schedule_runnable [OF system_okD(1) [OF r(1)] r(4)] by simp
    moreover have "th_error (threads (rt_schedule ?r) w) = th_error (threads k w)"
      using r(3) co(2) [OF wt(1)] by simp
    moreover have "th_current_priority (threads (rt_schedule ?r) t) = ?o"
      using r(3) cp wt(1) by simp
    ultimately show ?thesis
      using eq Cons r(2) mutexq.schedule_same [OF r(1)] system_ok_schedule [OF r(1)] mr by (simp add: k'_def)
  qed
  show "fst (rt_mutex_release m k) = RT_EOK" "system_ok k'" "mutex_ok m k'"
    "th_current_priority (threads k' t) = mtx_original_priority (mutexes k m)"
    "tq k (MutexQ m) = [] \<Longrightarrow> mutexes k' m = free_mutex \<and> rt_current_thread k' = Some t
       \<and> th_state (threads k' t) = th_state (threads k t)"
    "tq k (MutexQ m) = w # ws \<Longrightarrow> mutexes k' m =
         \<lparr>mtx_value = 0, mtx_original_priority = th_current_priority (threads k w), mtx_hold = 1, mtx_owner = Some w\<rparr>
       \<and> tq k' (MutexQ m) = ws \<and> is_runnable (threads k' w) \<and> th_error (threads k' w) = th_error (threads k w)"
    "m' \<noteq> m \<Longrightarrow> mutexes k' m' = mutexes k m'"
    "tq k (MutexQ m) = [] \<Longrightarrow> (\<And>i. q \<noteq> ReadyQ i) \<Longrightarrow> tq k' q = tq k q"
    using main by blast+
qed

end
