(* ===== verification/Event.thy ===== *)
theory Event
  imports Wait_List
begin

section \<open>Events (\<open>rt-thread/src/ipc.c\<close>)\<close>

text \<open>
  A set of 32 flags and the threads waiting for some or all flags of a set of their own. Sending
  walks the waiting threads in order; a thread with the clear option takes its flags away from
  those behind it.
\<close>

abbreviation (input) RT_EVENT_FLAG_AND :: u8 where "RT_EVENT_FLAG_AND \<equiv> 0x01"
abbreviation (input) RT_EVENT_FLAG_OR :: u8 where "RT_EVENT_FLAG_OR \<equiv> 0x02"
abbreviation (input) RT_EVENT_FLAG_CLEAR :: u8 where "RT_EVENT_FLAG_CLEAR \<equiv> 0x04"

definition rt_event_init :: "nat \<Rightarrow> string \<Rightarrow> u8 \<Rightarrow> kernel \<Rightarrow> rt_err_t \<times> kernel" where
  "rt_event_init event name flag k =
    (let k = rt_object_init (OEvent event) RT_Object_Class_Event name k;
         k = set_object (OEvent event) (obj_flag_update (\<lambda>_. flag)) k;
         k = rt_ipc_object_init (EventQ event) k
     in (RT_EOK, set_event event (evt_set_update (\<lambda>_. 0)) k))"

definition rt_event_detach :: "nat \<Rightarrow> kernel \<Rightarrow> (rt_err_t \<times> kernel) option" where
  "rt_event_detach event k =
    (case rt_ipc_list_resume_all (EventQ event) k of
       None \<Rightarrow> None
     | Some k \<Rightarrow> Some (RT_EOK, rt_object_detach (OEvent event) k))"

definition rt_event_create :: "nat option \<Rightarrow> string \<Rightarrow> u8 \<Rightarrow> kernel \<Rightarrow> nat option \<times> kernel" where
  "rt_event_create mem name flag k =
    (case mem of
       None \<Rightarrow> (None, snd (rt_object_allocate None RT_Object_Class_Event name k))
     | Some event \<Rightarrow>
        let k = snd (rt_object_allocate (Some (OEvent event)) RT_Object_Class_Event name k);
            k = set_object (OEvent event) (obj_flag_update (\<lambda>_. flag)) k;
            k = rt_ipc_object_init (EventQ event) k
        in (Some event, set_event event (evt_set_update (\<lambda>_. 0)) k))"

definition rt_event_delete :: "nat \<Rightarrow> kernel \<Rightarrow> (rt_err_t \<times> kernel) option" where
  "rt_event_delete event k =
    (case rt_ipc_list_resume_all (EventQ event) k of
       None \<Rightarrow> None
     | Some k \<Rightarrow> Some (RT_EOK, rt_object_delete (OEvent event) k))"

text \<open>
  The loop of \<open>rt_event_send\<close> over the waiting threads: the error and whether a thread was
  woken. The pointer to the next node is read before the thread is taken out of the list, so the
  walk is along the list as it was.
\<close>

definition event_wake :: "nat \<Rightarrow> nat \<Rightarrow> kernel \<Rightarrow> kernel" where
  "event_wake event thread k =
    (let k = (if th_event_info (threads k thread) AND RT_EVENT_FLAG_CLEAR \<noteq> 0
              then set_event event
                     (evt_set_update (\<lambda>s1. s1 AND NOT (th_event_set (threads k thread)))) k
              else k)
     in snd (rt_thread_resume thread k))"

primrec event_send_loop :: "nat \<Rightarrow> nat list \<Rightarrow> bool \<Rightarrow> kernel \<Rightarrow> rt_err_t \<times> bool \<times> kernel" where
  "event_send_loop event [] need k = (RT_EOK, need, k)"
| "event_send_loop event (thread # ts) need k =
    (let info = th_event_info (threads k thread);
         want = th_event_set (threads k thread);
         have_set = evt_set (events k event)
     in if info AND RT_EVENT_FLAG_AND \<noteq> 0 then
          (if want AND have_set = want
           then event_send_loop event ts True (event_wake event thread k)
           else event_send_loop event ts need k)
        else if info AND RT_EVENT_FLAG_OR \<noteq> 0 then
          (if want AND have_set \<noteq> 0
           then event_send_loop event ts True
                  (event_wake event thread
                    (set_thread thread (th_event_set_update (\<lambda>s1. s1 AND have_set)) k))
           else event_send_loop event ts need k)
        else (- RT_EINVAL, need, k))"

definition rt_event_send :: "nat \<Rightarrow> u32 \<Rightarrow> kernel \<Rightarrow> rt_err_t \<times> kernel" where
  "rt_event_send event set0 k =
    (if set0 = 0 then (- RT_ERROR, k)
     else
       let k = set_event event (evt_set_update (\<lambda>s1. s1 OR set0)) k
       in case event_send_loop event (tq k (EventQ event)) False k of
            (err, need_schedule, k) \<Rightarrow>
              if err \<noteq> RT_EOK then (err, k)
              else (RT_EOK, if need_schedule then rt_schedule k else k))"

text \<open>\<open>rt_event_recv\<close> returns its error and what it writes through \<open>recved\<close>, if it writes.\<close>

definition event_recv_result :: "nat \<Rightarrow> kernel \<Rightarrow> (rt_err_t \<times> u32 option) \<times> kernel" where
  "event_recv_result thread k =
    (if th_error (threads k thread) \<noteq> RT_EOK then ((th_error (threads k thread), None), k)
     else ((th_error (threads k thread), Some (th_event_set (threads k thread))), k))"

definition event_match :: "u8 \<Rightarrow> u32 \<Rightarrow> u32 \<Rightarrow> bool" where
  "event_match option set0 have_set \<longleftrightarrow>
    (if option AND RT_EVENT_FLAG_AND \<noteq> 0 then have_set AND set0 = set0
     else if option AND RT_EVENT_FLAG_OR \<noteq> 0 then have_set AND set0 \<noteq> 0
     else False)"

definition rt_event_recv ::
  "nat \<Rightarrow> u32 \<Rightarrow> u8 \<Rightarrow> 32 word \<Rightarrow> kernel \<Rightarrow> (rt_err_t \<times> u32 option) outcome" where
  "rt_event_recv event set0 option timeout k =
    (if set0 = 0 then Returned (- RT_ERROR, None) k
     else
       let thread = the (rt_thread_self k);
           k = set_thread thread (th_error_update (\<lambda>_. RT_EOK)) k;
           have_set = evt_set (events k event)
       in if event_match option set0 have_set then
            let k = set_thread thread (\<lambda>th. th\<lparr>th_event_set := have_set AND set0,
                                               th_event_info := option\<rparr>) k;
                k = (if option AND RT_EVENT_FLAG_CLEAR \<noteq> 0
                     then set_event event (evt_set_update (\<lambda>s1. s1 AND NOT set0)) k else k)
            in Returned (th_error (threads k thread), Some (have_set AND set0)) k
          else if timeout = 0 then
            Returned (- RT_ETIMEOUT, None) (set_thread thread (th_error_update (\<lambda>_. - RT_ETIMEOUT)) k)
          else
            let k = set_thread thread (\<lambda>th. th\<lparr>th_event_set := set0, th_event_info := option\<rparr>) k;
                k = wait_on (EventQ event) thread (obj_flag (objects k (OEvent event))) timeout k
            in reschedule_then thread (event_recv_result thread) k)"

definition rt_event_control :: "nat \<Rightarrow> int \<Rightarrow> u32 \<Rightarrow> kernel \<Rightarrow> (rt_err_t \<times> kernel) option" where
  "rt_event_control event cmd arg k =
    (if cmd = RT_IPC_CMD_RESET then
       (case rt_ipc_list_resume_all (EventQ event) k of
          None \<Rightarrow> None
        | Some k \<Rightarrow> Some (RT_EOK, rt_schedule (set_event event (evt_set_update (\<lambda>_. 0)) k)))
     else Some (- RT_ERROR, k))"

subsection \<open>The abstract event\<close>

text \<open>
  One pass over the waiting threads: the flags that are left, the threads that are woken and those
  that stay, both in their order.
\<close>

primrec event_sweep :: "(nat \<Rightarrow> rt_thread) \<Rightarrow> u32 \<Rightarrow> nat list \<Rightarrow> u32 \<times> nat list \<times> nat list" where
  "event_sweep tab v [] = (v, [], [])"
| "event_sweep tab v (t # ts) =
    (let info = th_event_info (tab t); want = th_event_set (tab t) in
     if event_match info want v then
       (let got = (if info AND RT_EVENT_FLAG_AND \<noteq> 0 then want else want AND v);
            rest = event_sweep tab (if info AND RT_EVENT_FLAG_CLEAR \<noteq> 0 then v AND NOT got else v) ts
        in (fst rest, t # fst (snd rest), snd (snd rest)))
     else
       (let rest = event_sweep tab v ts in (fst rest, fst (snd rest), t # snd (snd rest))))"

lemma event_sweep_cong:
  "(\<And>t. t \<in> set ts \<Longrightarrow> tab t = tab' t) \<Longrightarrow> event_sweep tab v ts = event_sweep tab' v ts"
  by (induction ts arbitrary: v) (auto simp: Let_def)

lemma event_sweep_sets:
  "set (fst (snd (event_sweep tab v ts))) \<union> set (snd (snd (event_sweep tab v ts))) = set ts"
  by (induction ts arbitrary: v) (auto simp: Let_def)

text \<open>The flags only go down, so a thread passed over stays unsatisfied.\<close>

lemma event_sweep_smaller:
  "fst (event_sweep tab v ts) AND v = fst (event_sweep tab v ts)"
proof (induction ts arbitrary: v)
  case (Cons t ts)
  have "fst (event_sweep tab u ts) AND v = fst (event_sweep tab u ts)" if "u AND v = u" for u
    using Cons.IH [of u] that by (metis and.assoc)
  then show ?case by (auto simp: Let_def and.assoc and.left_commute and.commute)
qed simp

lemma event_match_smaller:
  assumes "u AND v = u" "event_match info want u"
  shows "event_match info want v"
proof (cases "info AND RT_EVENT_FLAG_AND \<noteq> 0")
  case True
  then have "u AND want = want" using assms(2) by (simp add: event_match_def)
  then have "v AND want = want" using assms(1) by (metis and.assoc and.commute)
  then show ?thesis using True by (simp add: event_match_def)
next
  case False
  then have "u AND want \<noteq> 0" "info AND RT_EVENT_FLAG_OR \<noteq> 0"
    using assms(2) by (simp_all add: event_match_def split: if_splits)
  moreover have "u AND want = u AND (v AND want)" using assms(1) by (metis and.assoc)
  ultimately have "v AND want \<noteq> 0" by auto
  then show ?thesis using False \<open>info AND RT_EVENT_FLAG_OR \<noteq> 0\<close> by (simp add: event_match_def)
qed

lemma event_sweep_unsatisfied:
  "t \<in> set (snd (snd (event_sweep tab v ts))) \<Longrightarrow>
   \<not> event_match (th_event_info (tab t)) (th_event_set (tab t)) (fst (event_sweep tab v ts))"
proof (induction ts arbitrary: v)
  case (Cons s ts)
  show ?case
  proof (cases "event_match (th_event_info (tab s)) (th_event_set (tab s)) v")
    case True
    then show ?thesis using Cons by (simp add: Let_def)
  next
    case False
    then show ?thesis
      using Cons event_match_smaller [OF event_sweep_smaller] by (auto simp: Let_def)
  qed
qed simp

subsection \<open>Sending refines the abstract pass\<close>

lemma system_ok_set_event [simp]: "system_ok (set_event e f k) = system_ok k"
  by (rule system_ok_cong) (simp_all add: timer_flag_def)

definition event_option_ok :: "u8 \<Rightarrow> bool" where
  "event_option_ok info \<longleftrightarrow> info AND RT_EVENT_FLAG_AND \<noteq> 0 \<or> info AND RT_EVENT_FLAG_OR \<noteq> 0"

lemma event_wake_effect:
  assumes ok: "system_ok k" and q: "tq k (EventQ e) = R @ t # ts"
  shows "system_ok (event_wake e t k)" "tq (event_wake e t k) (EventQ e) = R @ ts"
    and "is_runnable (threads (event_wake e t k) t)"
    and "th_error (threads (event_wake e t k) t) = th_error (threads k t)"
    and "th_event_set (threads (event_wake e t k) t) = th_event_set (threads k t)"
    and "s \<noteq> t \<Longrightarrow> threads (event_wake e t k) s = threads k s"
    and "evt_set (events (event_wake e t k) e) =
      (if th_event_info (threads k t) AND RT_EVENT_FLAG_CLEAR \<noteq> 0
       then evt_set (events k e) AND NOT (th_event_set (threads k t)) else evt_set (events k e))"
proof -
  define j where "j = (if th_event_info (threads k t) AND RT_EVENT_FLAG_CLEAR \<noteq> 0
              then set_event e (evt_set_update (\<lambda>s1. s1 AND NOT (th_event_set (threads k t)))) k else k)"
  have j: "system_ok j" "tq j = tq k" "threads j = threads k" using ok by (simp_all add: j_def)
  have eq: "event_wake e t k = snd (rt_thread_resume t j)" by (simp add: event_wake_def j_def Let_def)
  have "distinct (R @ t # ts)" using kinv_distinct [OF kinvD [OF system_okD(1) [OF ok]], of "EventQ e"] q by simp
  then have rm: "removeAll t (R @ t # ts) = R @ ts" by simp
  have tin: "t \<in> set (tq j (EventQ e))" using j(2) q by simp
  note r = eventq.resume_member [OF j(1) tin]
  show "system_ok (event_wake e t k)" "tq (event_wake e t k) (EventQ e) = R @ ts"
    "is_runnable (threads (event_wake e t k) t)"
    "th_error (threads (event_wake e t k) t) = th_error (threads k t)"
    "th_event_set (threads (event_wake e t k) t) = th_event_set (threads k t)"
    "s \<noteq> t \<Longrightarrow> threads (event_wake e t k) s = threads k s"
    using r j(2,3) q rm by (simp_all add: eq)
  show "evt_set (events (event_wake e t k) e) =
      (if th_event_info (threads k t) AND RT_EVENT_FLAG_CLEAR \<noteq> 0
       then evt_set (events k e) AND NOT (th_event_set (threads k t)) else evt_set (events k e))"
    by (simp add: eq) (simp add: j_def)
qed

lemma event_set_update_const:
  "th\<lparr>th_event_set := f (th_event_set th)\<rparr> = th_event_set_update f th"
  by (cases th) simp

lemma event_send_loop_sweep:
  assumes "system_ok k" "tq k (EventQ e) = R @ ts"
    and "\<forall>t \<in> set ts. event_option_ok (th_event_info (threads k t))"
  defines "sw \<equiv> \<lambda>k. event_sweep (threads k) (evt_set (events k e)) ts"
  shows "\<exists>k'. event_send_loop e ts need k = (RT_EOK, need \<or> fst (snd (sw k)) \<noteq> [], k') \<and> system_ok k'
    \<and> tq k' (EventQ e) = R @ snd (snd (sw k)) \<and> evt_set (events k' e) = fst (sw k)
    \<and> (\<forall>t \<in> set (fst (snd (sw k))). is_runnable (threads k' t) \<and> th_error (threads k' t) = th_error (threads k t))
    \<and> (\<forall>t. t \<notin> set (fst (snd (sw k))) \<longrightarrow> threads k' t = threads k t)"
  using assms(1-3) unfolding sw_def
proof (induction ts arbitrary: k R need)
  case Nil
  then show ?case by simp
next
  case (Cons t ts)
  let ?info = "th_event_info (threads k t)" and ?want = "th_event_set (threads k t)" and ?v = "evt_set (events k e)"
  have dist: "t \<notin> set ts"
    using kinv_distinct [OF kinvD [OF system_okD(1) [OF Cons(2)]], of "EventQ e"] Cons(3) by auto
  show ?case
  proof (cases "event_match ?info ?want ?v")
    case False
    have step: "event_send_loop e (t # ts) need k = event_send_loop e ts need k"
      using False Cons(4) by (auto simp: event_match_def event_option_ok_def Let_def and.commute)
    have q: "tq k (EventQ e) = (R @ [t]) @ ts" using Cons(3) by simp
    have "\<exists>k'. event_send_loop e ts need k = (RT_EOK, need \<or> fst (snd (event_sweep (threads k) ?v ts)) \<noteq> [], k') \<and> system_ok k'
      \<and> tq k' (EventQ e) = (R @ [t]) @ snd (snd (event_sweep (threads k) ?v ts))
      \<and> evt_set (events k' e) = fst (event_sweep (threads k) ?v ts)
      \<and> (\<forall>s \<in> set (fst (snd (event_sweep (threads k) ?v ts))). is_runnable (threads k' s) \<and> th_error (threads k' s) = th_error (threads k s))
      \<and> (\<forall>s. s \<notin> set (fst (snd (event_sweep (threads k) ?v ts))) \<longrightarrow> threads k' s = threads k s)"
      by (rule Cons(1) [OF Cons(2) q]) (use Cons(4) in simp)
    then show ?thesis unfolding step using False by (simp add: Let_def)
  next
    case True
    define got where "got = (if ?info AND RT_EVENT_FLAG_AND \<noteq> 0 then ?want else ?want AND ?v)"
    define j where "j = set_thread t (th_event_set_update (\<lambda>_. got)) k"
    have jj: "system_ok j" using Cons(2) unfolding j_def by (intro system_ok_set_other) simp_all
    have jt: "th_event_set (threads j t) = got" "th_event_info (threads j t) = ?info"
      "th_error (threads j t) = th_error (threads k t)" "tq j = tq k" "events j = events k"
      by (simp_all add: j_def)
    let ?w = "event_wake e t j"
    have qj: "tq j (EventQ e) = R @ t # ts" using Cons(3) jt by simp
    note w = event_wake_effect [OF jj qj]
    have step: "event_send_loop e (t # ts) need k = event_send_loop e ts True ?w"
    proof (cases "?info AND RT_EVENT_FLAG_AND \<noteq> 0")
      case and_case: True
      have "j = k" by (simp add: j_def got_def and_case set_thread_def)
      then show ?thesis using True and_case by (simp add: event_match_def and.commute Let_def)
    next
      case or_case: False
      then have jeq: "j = set_thread t (th_event_set_update (\<lambda>s1. s1 AND ?v)) k"
        by (simp add: j_def got_def set_thread_def event_set_update_const [where f = "\<lambda>s. s AND evt_set (events k e)"])
      have "?info AND RT_EVENT_FLAG_OR \<noteq> 0" "?want AND ?v \<noteq> 0"
        using True or_case by (simp_all add: event_match_def and.commute split: if_splits)
      then show ?thesis using or_case by (simp add: jeq Let_def)
    qed
    have other: "threads ?w s = threads k s" if "s \<noteq> t" for s using w(6) [OF that] that by (simp add: j_def)
    let ?v' = "if ?info AND RT_EVENT_FLAG_CLEAR \<noteq> 0 then ?v AND NOT got else ?v"
    have ev: "evt_set (events ?w e) = ?v'" using w(7) jt by simp
    have other_ts: "threads ?w s = threads k s" if "s \<in> set ts" for s using other [of s] that dist by metis
    have sweep: "event_sweep (threads ?w) ?v' ts = event_sweep (threads k) ?v' ts"
      by (rule event_sweep_cong) (rule other_ts)
    have "\<exists>k'. event_send_loop e ts True ?w = (RT_EOK, True \<or> fst (snd (event_sweep (threads ?w) (evt_set (events ?w e)) ts)) \<noteq> [], k') \<and> system_ok k'
      \<and> tq k' (EventQ e) = R @ snd (snd (event_sweep (threads ?w) (evt_set (events ?w e)) ts))
      \<and> evt_set (events k' e) = fst (event_sweep (threads ?w) (evt_set (events ?w e)) ts)
      \<and> (\<forall>s \<in> set (fst (snd (event_sweep (threads ?w) (evt_set (events ?w e)) ts))). is_runnable (threads k' s) \<and> th_error (threads k' s) = th_error (threads ?w s))
      \<and> (\<forall>s. s \<notin> set (fst (snd (event_sweep (threads ?w) (evt_set (events ?w e)) ts))) \<longrightarrow> threads k' s = threads ?w s)"
      by (rule Cons(1) [OF w(1,2)]) (use Cons(4) other_ts in simp)
    then obtain k' where k': "event_send_loop e ts True ?w = (RT_EOK, True, k')" "system_ok k'"
      "tq k' (EventQ e) = R @ snd (snd (event_sweep (threads k) ?v' ts))"
      "evt_set (events k' e) = fst (event_sweep (threads k) ?v' ts)"
      "\<forall>s \<in> set (fst (snd (event_sweep (threads k) ?v' ts))). is_runnable (threads k' s) \<and> th_error (threads k' s) = th_error (threads ?w s)"
      "\<forall>s. s \<notin> set (fst (snd (event_sweep (threads k) ?v' ts))) \<longrightarrow> threads k' s = threads ?w s"
      unfolding ev sweep by auto
    have sw: "event_sweep (threads k) ?v (t # ts) = (fst (event_sweep (threads k) ?v' ts),
        t # fst (snd (event_sweep (threads k) ?v' ts)), snd (snd (event_sweep (threads k) ?v' ts)))"
      using True by (simp only: event_sweep.simps Let_def if_True got_def)
    have tn: "t \<notin> set (fst (snd (event_sweep (threads k) ?v' ts)))"
      using event_sweep_sets [of "threads k" ?v' ts] dist by blast
    have tw: "is_runnable (threads k' t)" "th_error (threads k' t) = th_error (threads k t)"
      using k'(6) tn w(3,4) jt(3) by simp_all
    let ?W = "set (fst (snd (event_sweep (threads k) ?v' ts)))"
    have awake: "\<forall>s \<in> ?W. is_runnable (threads k' s) \<and> th_error (threads k' s) = th_error (threads k s)"
      using k'(5) other tn by metis
    have rest: "\<forall>s. s \<noteq> t \<and> s \<notin> ?W \<longrightarrow> threads k' s = threads k s" using k'(6) other by metis
    show ?thesis
      unfolding step sw fst_conv snd_conv
      using k'(1-4) tw awake rest by (intro exI [of _ k']) simp
  qed
qed

text \<open>What holds between two operations: no waiting thread could go on with the flags there are.\<close>

definition event_ok :: "nat \<Rightarrow> kernel \<Rightarrow> bool" where
  "event_ok e k \<longleftrightarrow> (\<forall>t \<in> set (tq k (EventQ e)). event_option_ok (th_event_info (threads k t))
     \<and> \<not> event_match (th_event_info (threads k t)) (th_event_set (threads k t)) (evt_set (events k e)))"

lemma event_send_sweep:
  assumes ok: "system_ok k" and s0: "set0 \<noteq> 0"
    and opt: "\<forall>t \<in> set (tq k (EventQ e)). event_option_ok (th_event_info (threads k t))"
  defines "sw \<equiv> event_sweep (threads k) (evt_set (events k e) OR set0) (tq k (EventQ e))"
    and "k' \<equiv> snd (rt_event_send e set0 k)"
  shows "fst (rt_event_send e set0 k) = RT_EOK" "system_ok k'" "event_ok e k'"
    and "tq k' (EventQ e) = snd (snd sw)" "evt_set (events k' e) = fst sw"
    and "t \<in> set (fst (snd sw)) \<Longrightarrow> is_runnable (threads k' t) \<and> th_error (threads k' t) = th_error (threads k t)"
proof -
  define j where "j = set_event e (evt_set_update (\<lambda>s1. s1 OR set0)) k"
  have j: "system_ok j" "tq j = tq k" "threads j = threads k"
    "evt_set (events j e) = evt_set (events k e) OR set0" using ok by (simp_all add: j_def)
  have sw: "sw = event_sweep (threads j) (evt_set (events j e)) (tq k (EventQ e))" by (simp add: sw_def j)
  have q: "tq j (EventQ e) = [] @ tq k (EventQ e)" using j(2) by simp
  have opt': "\<forall>t \<in> set (tq k (EventQ e)). event_option_ok (th_event_info (threads j t))" using opt j(3) by simp
  obtain i where i: "event_send_loop e (tq k (EventQ e)) False j = (RT_EOK, fst (snd sw) \<noteq> [], i)" "system_ok i"
    "tq i (EventQ e) = snd (snd sw)" "evt_set (events i e) = fst sw"
    "\<forall>t \<in> set (fst (snd sw)). is_runnable (threads i t) \<and> th_error (threads i t) = th_error (threads k t)"
    "\<forall>t. t \<notin> set (fst (snd sw)) \<longrightarrow> threads i t = threads k t"
    using event_send_loop_sweep [OF j(1) q opt', of False, folded sw] unfolding j(3) by auto
  have send: "rt_event_send e set0 k = (RT_EOK, if fst (snd sw) \<noteq> [] then rt_schedule i else i)"
    using s0 i(1) j(2) by (simp add: rt_event_send_def Let_def j_def [symmetric])
  then have k': "k' = (if fst (snd sw) \<noteq> [] then rt_schedule i else i)" by (simp add: k'_def)
  show "fst (rt_event_send e set0 k) = RT_EOK" using send by simp
  show "system_ok k'" using k' i(2) system_ok_schedule by simp
  show tq': "tq k' (EventQ e) = snd (snd sw)" using k' i(3) eventq.schedule_same [OF i(2)] by simp
  show ev': "evt_set (events k' e) = fst sw" using k' i(4) by simp
  show "is_runnable (threads k' t) \<and> th_error (threads k' t) = th_error (threads k t)"
    if t: "t \<in> set (fst (snd sw))" for t
  proof -
    have r: "is_runnable (threads i t)" using i(5) t by blast
    show ?thesis using k' t i(5) rt_schedule_runnable [OF system_okD(1) [OF i(2)] r] by auto
  qed
  have stay: "threads k' t = threads k t" if t: "t \<in> set (snd (snd sw))" for t
  proof -
    have tin: "t \<in> set (tq i (EventQ e))" "t \<in> set (tq k (EventQ e))"
      using t i(3) event_sweep_sets [of "threads k" "evt_set (events j e)" "tq k (EventQ e)"]
      by (auto simp: sw j(3))
    note st = eventq.members_suspended [OF i(2) tin(1)]
    have "t \<notin> set (fst (snd sw))" using i(5) st by (auto simp: is_runnable_def)
    then show ?thesis using i(6) k' rt_schedule_suspended [OF system_okD(1) [OF i(2)] st] by simp
  qed
  show "event_ok e k'"
    unfolding event_ok_def tq' ev'
  proof (intro ballI conjI)
    fix t assume t: "t \<in> set (snd (snd sw))"
    then have "t \<in> set (tq k (EventQ e))"
      using event_sweep_sets [of "threads j" "evt_set (events j e)" "tq k (EventQ e)"] by (auto simp: sw)
    then show "event_option_ok (th_event_info (threads k' t))" using opt stay [OF t] by simp
    show "\<not> event_match (th_event_info (threads k' t)) (th_event_set (threads k' t)) (fst sw)"
      using event_sweep_unsatisfied [of t "threads j"] t stay [OF t] j(3) unfolding sw by simp
  qed
qed

text \<open>Receiving: at once when the flags suffice, otherwise the thread waits.\<close>

lemma event_recv_now:
  assumes ok: "system_ok k" and e: "event_ok e k" and cur: "rt_current_thread k = Some t"
    and run: "th_state (threads k t) = RT_THREAD_RUNNING" and s0: "set0 \<noteq> 0"
    and m: "event_match opt set0 (evt_set (events k e))"
  shows "\<exists>k'. rt_event_recv e set0 opt timeout k =
      Returned (RT_EOK, Some (evt_set (events k e) AND set0)) k' \<and> system_ok k' \<and> event_ok e k'
    \<and> evt_set (events k' e) = (if opt AND RT_EVENT_FLAG_CLEAR \<noteq> 0 then evt_set (events k e) AND NOT set0
                             else evt_set (events k e))
    \<and> tq k' = tq k"
proof -
  define v where "v = evt_set (events k e)"
  define j where "j = set_thread t (\<lambda>th. th\<lparr>th_error := RT_EOK, th_event_set := v AND set0, th_event_info := opt\<rparr>) k"
  define k' where "k' = (if opt AND RT_EVENT_FLAG_CLEAR \<noteq> 0
      then set_event e (evt_set_update (\<lambda>s1. s1 AND NOT set0)) j else j)"
  have "rt_event_recv e set0 opt timeout k = Returned (RT_EOK, Some (v AND set0)) k'"
    using s0 m cur
    by (simp add: rt_event_recv_def rt_thread_self_def Let_def v_def k'_def j_def set_thread_def)
  moreover have "system_ok k'" using ok by (simp add: k'_def j_def system_ok_set_other)
  moreover have tq': "tq k' = tq k" by (simp add: k'_def j_def)
  moreover have ev: "evt_set (events k' e) = (if opt AND RT_EVENT_FLAG_CLEAR \<noteq> 0 then v AND NOT set0 else v)"
    by (simp add: k'_def j_def v_def)
  moreover have "event_ok e k'"
    unfolding event_ok_def tq'
  proof
    fix s assume s: "s \<in> set (tq k (EventQ e))"
    have "s \<noteq> t" using eventq.members_suspended [OF ok s] run by auto
    then have same: "threads k' s = threads k s" by (simp add: k'_def j_def)
    have less: "evt_set (events k' e) AND v = evt_set (events k' e)"
      unfolding ev by (simp add: and.assoc and.left_commute and.commute)
    show "event_option_ok (th_event_info (threads k' s)) \<and>
      \<not> event_match (th_event_info (threads k' s)) (th_event_set (threads k' s)) (evt_set (events k' e))"
      using e s event_match_smaller [OF less] unfolding same event_ok_def v_def by blast
  qed
  ultimately show ?thesis unfolding v_def by blast
qed

lemma event_recv_waits:
  assumes ok: "system_ok k" and e: "event_ok e k" and cur: "rt_current_thread k = Some t"
    and run: "th_state (threads k t) = RT_THREAD_RUNNING"
    and flag: "flag = RT_IPC_FLAG_FIFO \<or> flag = RT_IPC_FLAG_PRIO" "obj_flag (objects k (OEvent e)) = flag"
    and s0: "set0 \<noteq> 0" "event_option_ok opt" "\<not> event_match opt set0 (evt_set (events k e))"
    and time: "timeout \<noteq> 0" "timeout \<noteq> 0x7fffffff"
    and free: "rt_scheduler_lock_nest k = 0" "rt_interrupt_nest k = 0" and other: "u \<in> set (tq k (ReadyQ p))"
  shows "\<exists>k'. rt_event_recv e set0 opt timeout k = Blocked k' \<and> system_ok k' \<and> event_ok e k'
    \<and> rt_current_thread k' \<noteq> Some t \<and> evt_set (events k' e) = evt_set (events k e)
    \<and> tq k' (EventQ e) = (if flag = RT_IPC_FLAG_FIFO then tq k (EventQ e) @ [t]
                        else prio_insert (threads k) t (tq k (EventQ e)))
    \<and> th_event_set (threads k' t) = set0 \<and> th_event_info (threads k' t) = opt
    \<and> th_state (threads k' t) = RT_THREAD_SUSPEND \<and> th_error (threads k' t) = RT_EOK
    \<and> (0 < sint timeout \<longrightarrow> ticks_left k' (ThreadTimer t) = unat timeout)"
proof -
  define j where "j = set_thread t (\<lambda>th. th\<lparr>th_error := RT_EOK, th_event_set := set0, th_event_info := opt\<rparr>) k"
  define k' where "k' = rt_schedule (wait_on (EventQ e) t flag timeout j)"
  have jok: "system_ok j" using ok unfolding j_def by (intro system_ok_set_other) simp_all
  have j: "rt_current_thread j = Some t" "th_state (threads j t) = RT_THREAD_RUNNING"
    "rt_scheduler_lock_nest j = 0" "rt_interrupt_nest j = 0" "u \<in> set (tq j (ReadyQ p))"
    using cur run free other by (simp_all add: j_def)
  note w = eventq.wait_blocks [where e = e, OF jok j(1,2) flag(1) time(2) j(3,4,5), folded k'_def]
  have recv: "rt_event_recv e set0 opt timeout k = Blocked k'"
    using s0 time flag cur w(1)
    by (simp add: rt_event_recv_def rt_thread_self_def Let_def j_def set_thread_def)
  have pi: "prio_insert (threads j) t xs = prio_insert (threads k) t xs" for xs
    by (rule prio_insert_cong) (simp add: j_def)
  have q: "tq k' (EventQ e) = (if flag = RT_IPC_FLAG_FIFO then tq k (EventQ e) @ [t]
                        else prio_insert (threads k) t (tq k (EventQ e)))"
    using w(4) pi by (simp add: j_def)
  have ev: "evt_set (events k' e) = evt_set (events k e)" by (simp add: k'_def j_def)
  have thr: "th_event_set (threads k' t) = set0" "th_event_info (threads k' t) = opt"
    "th_state (threads k' t) = RT_THREAD_SUSPEND" "th_error (threads k' t) = RT_EOK"
    using w(5) by (simp_all add: j_def)
  have "event_ok e k'"
    unfolding event_ok_def
  proof
    fix s assume s: "s \<in> set (tq k' (EventQ e))"
    show "event_option_ok (th_event_info (threads k' s)) \<and>
      \<not> event_match (th_event_info (threads k' s)) (th_event_set (threads k' s)) (evt_set (events k' e))"
    proof (cases "s = t")
      case True
      then show ?thesis using thr s0 ev by simp
    next
      case False
      then have sin: "s \<in> set (tq k (EventQ e))" using s unfolding q by (auto split: if_splits)
      have "th_state (threads j s) = RT_THREAD_SUSPEND"
        using eventq.members_suspended [OF ok sin] False by (simp add: j_def)
      then have "threads k' s = threads k s" using w(6) [of s] False by (simp add: j_def)
      then show ?thesis using e ev sin by (simp add: event_ok_def)
    qed
  qed
  then show ?thesis using recv w(2,3,7) q ev thr by blast
qed

end
