(* ===== verification/Ring.thy ===== *)
theory Ring
  imports Prelude
begin

section \<open>Ring buffers\<close>

text \<open>
  The shape that the mailbox, the data queue and the byte ring buffer share: an array, the offset
  of the oldest element and the number of elements. \<open>ring_list\<close> is the queue it stands for; the
  locale \<open>bounded_queue\<close> is what a component with such an array promises, in terms of that queue.
\<close>

definition ring_list :: "'a list \<Rightarrow> nat \<Rightarrow> nat \<Rightarrow> 'a list" where
  "ring_list pool out count = map (\<lambda>i. pool ! ((out + i) mod length pool)) [0..<count]"

lemma ring_list_0 [simp]: "ring_list pool out 0 = []"
  by (simp add: ring_list_def)

lemma length_ring_list [simp]: "length (ring_list pool out count) = count"
  by (simp add: ring_list_def)

lemma mod_offset_inj:
  fixes i j n :: nat
  assumes "i < n" "j < n" "(a + i) mod n = (a + j) mod n"
  shows "i = j"
proof -
  have *: "i' = j'" if "i' \<le> j'" "j' < n" "(a + j') mod n = (a + i') mod n" for i' j'
  proof -
    have "n dvd (a + j') - (a + i')" using that by (simp add: mod_eq_dvd_iff_nat)
    then have "n dvd j' - i'" by simp
    then show "i' = j'" using that by (metis diff_is_0_eq diff_le_self dvd_imp_le eq_iff le_less_trans not_gr0 not_less)
  qed
  show ?thesis using assms *[of i j] *[of j i] by (metis nat_le_linear)
qed

lemma ring_list_update_other:
  "(\<And>i. i < count \<Longrightarrow> j \<noteq> (out + i) mod length pool) \<Longrightarrow>
   ring_list (pool[j := x]) out count = ring_list pool out count"
  by (simp add: ring_list_def)

lemma ring_put:
  assumes "count < length pool"
  shows "ring_list (pool[(out + count) mod length pool := x]) out (count + 1) = ring_list pool out count @ [x]"
proof -
  have n: "(out + count) mod length pool < length pool" using assms by (intro mod_less_divisor) linarith
  have "(out + count) mod length pool \<noteq> (out + i) mod length pool" if "i < count" for i
    using mod_offset_inj [of i "length pool" count out] assms that by auto
  note same = ring_list_update_other [OF this, of count x]
  have "ring_list (pool[(out + count) mod length pool := x]) out (count + 1)
      = ring_list (pool[(out + count) mod length pool := x]) out count @ [x]"
    using n by (simp add: ring_list_def)
  then show ?thesis using same by simp
qed

lemma ring_get:
  assumes "0 < count" "out < length pool"
  shows "ring_list pool out count = pool ! out # ring_list pool ((out + 1) mod length pool) (count - 1)"
proof -
  have "[0..<count] = 0 # map Suc [0..<count - 1]" using assms(1) by (simp add: upt_conv_Cons map_Suc_upt)
  then show ?thesis using assms(2) by (simp add: ring_list_def mod_add_left_eq)
qed

lemma ring_unget:
  assumes "count < length pool" "out < length pool"
  defines "before \<equiv> (out + length pool - 1) mod length pool"
  shows "ring_list (pool[before := x]) before (count + 1) = x # ring_list pool out count"
proof -
  have b: "before < length pool" unfolding before_def using assms(1) by (intro mod_less_divisor) linarith
  have next_out: "(before + 1) mod length pool = out"
    using assms(2) by (simp add: before_def mod_Suc_eq Suc_diff_Suc flip: Suc_diff_le)
  have sh: "(before + Suc i) mod length pool = (out + i) mod length pool" for i
    using next_out by (metis add.assoc mod_add_left_eq plus_1_eq_Suc)
  have "before \<noteq> (out + i) mod length pool" if "i < count" for i
  proof
    assume "before = (out + i) mod length pool"
    then have "(before + Suc i) mod length pool = (before + 0) mod length pool" using sh [of i] b by simp
    moreover have "Suc i < length pool" "0 < length pool" using that assms(1) by linarith+
    ultimately show False using mod_offset_inj [of "Suc i" "length pool" 0 before] by simp
  qed
  then have "ring_list (pool[before := x]) out count = ring_list pool out count"
    by (rule ring_list_update_other)
  then show ?thesis
    using ring_get [of "count + 1" before "pool[before := x]"] b next_out by simp
qed

text \<open>Room in words: counting one up or down inside the bounds does not wrap.\<close>

lemma unat_inc16: "(a :: u16) < b \<Longrightarrow> unat (a + 1) = unat a + 1"
  using unsigned_less [of b, where 'a = nat] by (simp add: word_less_nat_alt unat_word_ariths)

lemma unat_dec16: "0 < (a :: u16) \<Longrightarrow> unat (a - 1) = unat a - 1"
  by (simp add: unat_minus_one word_gt_0)

lemma ring_step16:
  fixes i n :: u16
  assumes "i < n"
  shows "unat (if n \<le> i + 1 then 0 else i + 1) = (unat i + 1) mod unat n"
proof -
  have s: "unat (i + 1) = unat i + 1" using assms by (rule unat_inc16)
  have "unat i + 1 \<le> unat n" using assms by (simp add: word_less_nat_alt)
  then show ?thesis using s by (auto simp: word_le_nat_alt)
qed

text \<open>The newest elements of a list, as many as there is room for.\<close>

definition newest :: "nat \<Rightarrow> 'a list \<Rightarrow> 'a list" where
  "newest m xs = drop (length xs - m) xs"

lemma newest_short [simp]: "length xs \<le> m \<Longrightarrow> newest m xs = xs"
  by (simp add: newest_def)

lemma length_newest [simp]: "length (newest m xs) = min m (length xs)"
  by (simp add: newest_def)

lemma newest_newest_append: "newest m (newest m xs @ ys) = newest m (xs @ ys)"
  by (cases "length xs \<le> m") (simp_all add: newest_def drop_append add.commute)

subsection \<open>The contract of a bounded queue\<close>

text \<open>
  What the users of a bounded buffer rely on: an element put in goes to the end, an element taken
  comes from the front, and neither changes the capacity.
\<close>

locale bounded_queue =
  fixes ok :: "'s \<Rightarrow> bool" and elems :: "'s \<Rightarrow> 'a list" and cap :: "'s \<Rightarrow> nat"
    and put :: "'a \<Rightarrow> 's \<Rightarrow> 's" and get :: "'s \<Rightarrow> 'a \<times> 's"
  assumes bounded: "ok s \<Longrightarrow> length (elems s) \<le> cap s"
    and put: "ok s \<Longrightarrow> length (elems s) < cap s \<Longrightarrow>
      ok (put x s) \<and> elems (put x s) = elems s @ [x] \<and> cap (put x s) = cap s"
    and get: "ok s \<Longrightarrow> elems s = x # xs \<Longrightarrow>
      fst (get s) = x \<and> ok (snd (get s)) \<and> elems (snd (get s)) = xs \<and> cap (snd (get s)) = cap s"
begin

primrec gets :: "nat \<Rightarrow> 's \<Rightarrow> 'a list \<times> 's" where
  "gets 0 s = ([], s)"
| "gets (Suc n) s = (fst (get s) # fst (gets n (snd (get s))), snd (gets n (snd (get s))))"

lemma puts:
  "ok s \<Longrightarrow> length (elems s) + length xs \<le> cap s \<Longrightarrow>
   ok (fold put xs s) \<and> elems (fold put xs s) = elems s @ xs \<and> cap (fold put xs s) = cap s"
  by (induction xs arbitrary: s) (use put in auto)

lemma gets:
  "ok s \<Longrightarrow> n \<le> length (elems s) \<Longrightarrow>
   fst (gets n s) = take n (elems s) \<and> ok (snd (gets n s)) \<and> elems (snd (gets n s)) = drop n (elems s)"
proof (induction n arbitrary: s)
  case (Suc n)
  then obtain x xs where e: "elems s = x # xs" by (cases "elems s") auto
  show ?case using Suc.IH [of "snd (get s)"] get [OF Suc.prems(1) e] Suc.prems(2) e by simp
qed simp

text \<open>What one side writes the other side reads, in order, after what was there before.\<close>

lemma transfer:
  assumes "ok s" "length (elems s) + length xs \<le> cap s"
  shows "fst (gets (length (elems s) + length xs) (fold put xs s)) = elems s @ xs"
  using puts [OF assms] gets [of "fold put xs s"] by simp

end

end
