(* ===== verification/Mailbox.thy ===== *)
theory Mailbox
  imports Wait_List Ring
begin

section \<open>Mailboxes (\<open>rt-thread/src/ipc.c\<close>)\<close>

text \<open>
  A bounded queue of words between threads, in a ring. A sender that finds the ring full and a
  receiver that finds it empty wait in lists of their own; the loop around the wait tries again
  each time the thread is woken, with the time that is left. A wait gives the CPU away, so the
  operations have a second definition, named \<open>_resume\<close>, for what the thread does when it runs
  again. The loops return \<open>None\<close> when they would never end, which a caller that holds the
  scheduler lock can bring about.
\<close>

definition RT_MB_ENTRY_MAX :: u16 where "RT_MB_ENTRY_MAX = 0xffff"

definition rt_mb_init :: "nat \<Rightarrow> string \<Rightarrow> u32 list \<Rightarrow> u32 \<Rightarrow> u8 \<Rightarrow> kernel \<Rightarrow> rt_err_t \<times> kernel" where
  "rt_mb_init mb name msgpool size0 flag k =
    (let k = rt_object_init (OMailbox mb) RT_Object_Class_MailBox name k;
         k = set_object (OMailbox mb) (obj_flag_update (\<lambda>_. flag)) k;
         k = rt_ipc_object_init (MbRecvQ mb) k;
         k = set_mailbox mb (\<lambda>_. \<lparr>mb_msg_pool = msgpool, mb_size = ucast size0, mb_entry = 0,
                                   mb_in_offset = 0, mb_out_offset = 0\<rparr>) k
     in (RT_EOK, k\<lparr>tq := (tq k)(MbSendQ mb := [])\<rparr>))"

definition mb_resume_all :: "nat \<Rightarrow> kernel \<Rightarrow> kernel option" where
  "mb_resume_all mb k =
    (case rt_ipc_list_resume_all (MbRecvQ mb) k of
       None \<Rightarrow> None
     | Some k \<Rightarrow> rt_ipc_list_resume_all (MbSendQ mb) k)"

definition rt_mb_detach :: "nat \<Rightarrow> kernel \<Rightarrow> (rt_err_t \<times> kernel) option" where
  "rt_mb_detach mb k =
    (case mb_resume_all mb k of
       None \<Rightarrow> None
     | Some k \<Rightarrow> Some (RT_EOK, rt_object_detach (OMailbox mb) k))"

text \<open>The two allocations are arguments: the object, and the words of the pool.\<close>

definition rt_mb_create ::
  "nat option \<Rightarrow> u32 list option \<Rightarrow> string \<Rightarrow> u32 \<Rightarrow> u8 \<Rightarrow> kernel \<Rightarrow> nat option \<times> kernel" where
  "rt_mb_create mem pool name size0 flag k =
    (case mem of
       None \<Rightarrow> (None, snd (rt_object_allocate None RT_Object_Class_MailBox name k))
     | Some mb \<Rightarrow>
        let k = snd (rt_object_allocate (Some (OMailbox mb)) RT_Object_Class_MailBox name k);
            k = set_object (OMailbox mb) (obj_flag_update (\<lambda>_. flag)) k;
            k = rt_ipc_object_init (MbRecvQ mb) k;
            k = set_mailbox mb (mb_size_update (\<lambda>_. ucast size0)) k
        in (case pool of
              None \<Rightarrow> (None, rt_object_delete (OMailbox mb) k)
            | Some p \<Rightarrow>
               let k = set_mailbox mb (\<lambda>m. m\<lparr>mb_msg_pool := p, mb_entry := 0, mb_in_offset := 0,
                                             mb_out_offset := 0\<rparr>) k
               in (Some mb, k\<lparr>tq := (tq k)(MbSendQ mb := [])\<rparr>)))"

definition rt_mb_delete :: "nat \<Rightarrow> kernel \<Rightarrow> (rt_err_t \<times> kernel) option" where
  "rt_mb_delete mb k =
    (case mb_resume_all mb k of
       None \<Rightarrow> None
     | Some k \<Rightarrow>
        Some (RT_EOK, rt_object_delete (OMailbox mb)
                (k\<lparr>kernel_calls := Free_pool (OMailbox mb) # kernel_calls k\<rparr>)))"

text \<open>What is left of a bounded wait that began at the tick \<open>start\<close>.\<close>

definition time_left :: "u32 \<Rightarrow> 32 word \<Rightarrow> kernel \<Rightarrow> 32 word" where
  "time_left start timeout k =
    (if 0 < sint timeout then
       let timeout = timeout - (rt_tick_get k - start)
       in if sint timeout < 0 then 0 else timeout
     else timeout)"

subsection \<open>Sending\<close>

definition mb_write :: "u32 \<Rightarrow> rt_mailbox \<Rightarrow> rt_mailbox" where
  "mb_write value m =
    (let m = m\<lparr>mb_msg_pool := (mb_msg_pool m)[unat (mb_in_offset m) := value]\<rparr>;
         m = m\<lparr>mb_in_offset := mb_in_offset m + 1\<rparr>
     in if mb_in_offset m \<ge> mb_size m then m\<lparr>mb_in_offset := 0\<rparr> else m)"

definition mb_send_put :: "nat \<Rightarrow> u32 \<Rightarrow> kernel \<Rightarrow> rt_err_t \<times> kernel" where
  "mb_send_put mb value k =
    (let k = set_mailbox mb (mb_write value) k
     in if mb_entry (mailboxes k mb) < RT_MB_ENTRY_MAX then
          let k = set_mailbox mb (mb_entry_update (\<lambda>e. e + 1)) k
          in (if tq k (MbRecvQ mb) \<noteq> []
              then (RT_EOK, rt_schedule (rt_ipc_list_resume (MbRecvQ mb) k))
              else (RT_EOK, k))
        else (- RT_EFULL, k))"

definition outcome_of :: "'a \<times> kernel \<Rightarrow> 'a outcome" where
  "outcome_of rk = Returned (fst rk) (snd rk)"

partial_function (option) mb_send_loop ::
  "nat \<Rightarrow> nat \<Rightarrow> u32 \<Rightarrow> 32 word \<Rightarrow> kernel \<Rightarrow> rt_err_t outcome option" where
  "mb_send_loop thread mb value timeout k =
    (if mb_entry (mailboxes k mb) = mb_size (mailboxes k mb) then
       let k = set_thread thread (th_error_update (\<lambda>_. RT_EOK)) k
       in if timeout = 0 then Some (Returned (- RT_EFULL) k)
          else
            let start = rt_tick_get k;
                k = wait_on (MbSendQ mb) thread (obj_flag (objects k (OMailbox mb))) timeout k;
                k = rt_schedule k
            in if rt_interrupt_nest k = 0 \<and> rt_current_thread k \<noteq> Some thread then Some (Blocked k)
               else if th_error (threads k thread) \<noteq> RT_EOK
               then Some (Returned (th_error (threads k thread)) k)
               else mb_send_loop thread mb value (time_left start timeout k) k
     else Some (outcome_of (mb_send_put mb value k)))"

definition mb_send_resume ::
  "nat \<Rightarrow> nat \<Rightarrow> u32 \<Rightarrow> u32 \<Rightarrow> 32 word \<Rightarrow> kernel \<Rightarrow> rt_err_t outcome option" where
  "mb_send_resume thread mb value start timeout k =
    (if th_error (threads k thread) \<noteq> RT_EOK then Some (Returned (th_error (threads k thread)) k)
     else mb_send_loop thread mb value (time_left start timeout k) k)"

definition rt_mb_send_wait :: "nat \<Rightarrow> u32 \<Rightarrow> 32 word \<Rightarrow> kernel \<Rightarrow> rt_err_t outcome option" where
  "rt_mb_send_wait mb value timeout k =
    (if mb_entry (mailboxes k mb) = mb_size (mailboxes k mb) \<and> timeout = 0
     then Some (Returned (- RT_EFULL) k)
     else mb_send_loop (the (rt_thread_self k)) mb value timeout k)"

definition rt_mb_send :: "nat \<Rightarrow> u32 \<Rightarrow> kernel \<Rightarrow> rt_err_t outcome option" where
  "rt_mb_send mb value k = rt_mb_send_wait mb value 0 k"

definition mb_write_front :: "u32 \<Rightarrow> rt_mailbox \<Rightarrow> rt_mailbox" where
  "mb_write_front value m =
    (let m = (if 0 < mb_out_offset m then m\<lparr>mb_out_offset := mb_out_offset m - 1\<rparr>
              else m\<lparr>mb_out_offset := mb_size m - 1\<rparr>);
         m = m\<lparr>mb_msg_pool := (mb_msg_pool m)[unat (mb_out_offset m) := value]\<rparr>
     in m\<lparr>mb_entry := mb_entry m + 1\<rparr>)"

definition rt_mb_urgent :: "nat \<Rightarrow> u32 \<Rightarrow> kernel \<Rightarrow> rt_err_t \<times> kernel" where
  "rt_mb_urgent mb value k =
    (if mb_entry (mailboxes k mb) = mb_size (mailboxes k mb) then (- RT_EFULL, k)
     else
       let k = set_mailbox mb (mb_write_front value) k
       in if tq k (MbRecvQ mb) \<noteq> []
          then (RT_EOK, rt_schedule (rt_ipc_list_resume (MbRecvQ mb) k))
          else (RT_EOK, k))"

subsection \<open>Receiving\<close>

definition mb_read :: "rt_mailbox \<Rightarrow> u32 \<times> rt_mailbox" where
  "mb_read m =
    (let value = mb_msg_pool m ! unat (mb_out_offset m);
         m = m\<lparr>mb_out_offset := mb_out_offset m + 1\<rparr>;
         m = (if mb_out_offset m \<ge> mb_size m then m\<lparr>mb_out_offset := 0\<rparr> else m);
         m = (if 0 < mb_entry m then m\<lparr>mb_entry := mb_entry m - 1\<rparr> else m)
     in (value, m))"

definition mb_recv_get :: "nat \<Rightarrow> kernel \<Rightarrow> (rt_err_t \<times> u32 option) \<times> kernel" where
  "mb_recv_get mb k =
    (let value = fst (mb_read (mailboxes k mb));
         k = set_mailbox mb (\<lambda>m. snd (mb_read m)) k
     in if tq k (MbSendQ mb) \<noteq> []
        then ((RT_EOK, Some value), rt_schedule (rt_ipc_list_resume (MbSendQ mb) k))
        else ((RT_EOK, Some value), k))"

partial_function (option) mb_recv_loop ::
  "nat \<Rightarrow> nat \<Rightarrow> 32 word \<Rightarrow> kernel \<Rightarrow> (rt_err_t \<times> u32 option) outcome option" where
  "mb_recv_loop thread mb timeout k =
    (if mb_entry (mailboxes k mb) = 0 then
       let k = set_thread thread (th_error_update (\<lambda>_. RT_EOK)) k
       in if timeout = 0
          then Some (Returned (- RT_ETIMEOUT, None)
                 (set_thread thread (th_error_update (\<lambda>_. - RT_ETIMEOUT)) k))
          else
            let start = rt_tick_get k;
                k = wait_on (MbRecvQ mb) thread (obj_flag (objects k (OMailbox mb))) timeout k;
                k = rt_schedule k
            in if rt_interrupt_nest k = 0 \<and> rt_current_thread k \<noteq> Some thread then Some (Blocked k)
               else if th_error (threads k thread) \<noteq> RT_EOK
               then Some (Returned (th_error (threads k thread), None) k)
               else mb_recv_loop thread mb (time_left start timeout k) k
     else Some (outcome_of (mb_recv_get mb k)))"

definition mb_recv_resume ::
  "nat \<Rightarrow> nat \<Rightarrow> u32 \<Rightarrow> 32 word \<Rightarrow> kernel \<Rightarrow> (rt_err_t \<times> u32 option) outcome option" where
  "mb_recv_resume thread mb start timeout k =
    (if th_error (threads k thread) \<noteq> RT_EOK
     then Some (Returned (th_error (threads k thread), None) k)
     else mb_recv_loop thread mb (time_left start timeout k) k)"

definition rt_mb_recv :: "nat \<Rightarrow> 32 word \<Rightarrow> kernel \<Rightarrow> (rt_err_t \<times> u32 option) outcome option" where
  "rt_mb_recv mb timeout k =
    (if mb_entry (mailboxes k mb) = 0 \<and> timeout = 0 then Some (Returned (- RT_ETIMEOUT, None) k)
     else mb_recv_loop (the (rt_thread_self k)) mb timeout k)"

definition rt_mb_control :: "nat \<Rightarrow> int \<Rightarrow> u32 \<Rightarrow> kernel \<Rightarrow> (rt_err_t \<times> kernel) option" where
  "rt_mb_control mb cmd arg k =
    (if cmd = RT_IPC_CMD_RESET then
       (case mb_resume_all mb k of
          None \<Rightarrow> None
        | Some k \<Rightarrow>
           Some (RT_EOK, rt_schedule (set_mailbox mb
             (\<lambda>m. m\<lparr>mb_entry := 0, mb_in_offset := 0, mb_out_offset := 0\<rparr>) k)))
     else Some (- RT_ERROR, k))"

subsection \<open>The ring is a bounded queue\<close>

definition mb_list :: "rt_mailbox \<Rightarrow> u32 list" where
  "mb_list m = ring_list (mb_msg_pool m) (unat (mb_out_offset m)) (unat (mb_entry m))"

definition mb_ok :: "rt_mailbox \<Rightarrow> bool" where
  "mb_ok m \<longleftrightarrow> length (mb_msg_pool m) = unat (mb_size m) \<and> mb_out_offset m < mb_size m
     \<and> mb_entry m \<le> mb_size m
     \<and> unat (mb_in_offset m) = (unat (mb_out_offset m) + unat (mb_entry m)) mod unat (mb_size m)"

definition mb_put :: "u32 \<Rightarrow> rt_mailbox \<Rightarrow> rt_mailbox" where
  "mb_put value m = mb_entry_update (\<lambda>e. e + 1) (mb_write value m)"

lemma mb_write_fields [simp]:
  "mb_size (mb_write v m) = mb_size m" "mb_entry (mb_write v m) = mb_entry m"
  "mb_out_offset (mb_write v m) = mb_out_offset m"
  "mb_msg_pool (mb_write v m) = (mb_msg_pool m)[unat (mb_in_offset m) := v]"
  "mb_in_offset (mb_write v m) = (if mb_size m \<le> mb_in_offset m + 1 then 0 else mb_in_offset m + 1)"
  by (simp_all add: mb_write_def Let_def)

lemma mb_ok_in: "mb_ok m \<Longrightarrow> mb_in_offset m < mb_size m"
  by (auto simp: mb_ok_def word_less_nat_alt)

lemma mb_ok_entry: "mb_ok m \<Longrightarrow> mb_entry m \<noteq> mb_size m \<longleftrightarrow> mb_entry m < mb_size m"
  by (auto simp: mb_ok_def)

lemma mb_put:
  assumes ok: "mb_ok m" and room: "mb_entry m < mb_size m"
  shows "mb_ok (mb_put v m)" "mb_list (mb_put v m) = mb_list m @ [v]" "mb_size (mb_put v m) = mb_size m"
proof -
  have e: "unat (mb_entry m + 1) = unat (mb_entry m) + 1" using room by (rule unat_inc16)
  have i: "unat (if mb_size m \<le> mb_in_offset m + 1 then 0 else mb_in_offset m + 1)
      = (unat (mb_in_offset m) + 1) mod unat (mb_size m)"
    using mb_ok_in [OF ok] by (rule ring_step16)
  show "mb_ok (mb_put v m)"
    using ok room e i unfolding mb_ok_def mb_put_def
    by (simp add: mod_Suc_eq word_le_nat_alt word_less_nat_alt)
  show "mb_list (mb_put v m) = mb_list m @ [v]"
    using ring_put [of "unat (mb_entry m)" "mb_msg_pool m" "unat (mb_out_offset m)" v] ok room e
    by (simp add: mb_list_def mb_put_def mb_ok_def word_less_nat_alt)
  show "mb_size (mb_put v m) = mb_size m" by (simp add: mb_put_def)
qed

lemma mb_read_fields:
  assumes "mb_ok m" "0 < mb_entry m"
  shows "mb_read m = (mb_msg_pool m ! unat (mb_out_offset m),
    m\<lparr>mb_out_offset := (if mb_size m \<le> mb_out_offset m + 1 then 0 else mb_out_offset m + 1),
      mb_entry := mb_entry m - 1\<rparr>)"
  using assms by (simp add: mb_read_def Let_def)

lemma mb_read:
  assumes ok: "mb_ok m" and some: "mb_list m = x # xs"
  shows "fst (mb_read m) = x" "mb_ok (snd (mb_read m))" "mb_list (snd (mb_read m)) = xs"
    "mb_size (snd (mb_read m)) = mb_size m"
proof -
  let ?n = "unat (mb_size m)" and ?o = "unat (mb_out_offset m)"
  have len: "unat (mb_entry m) = Suc (length xs)" using some length_ring_list
    unfolding mb_list_def by (metis length_Cons)
  then have e0: "0 < mb_entry m" by (metis unat_0 word_gt_0 nat.distinct(1))
  have e: "unat (mb_entry m - 1) = unat (mb_entry m) - 1" using e0 by (rule unat_dec16)
  define nx where "nx = (if mb_size m \<le> mb_out_offset m + 1 then 0 else mb_out_offset m + 1)"
  have o1: "unat nx = (?o + 1) mod ?n"
    unfolding nx_def using ok by (intro ring_step16) (simp add: mb_ok_def)
  have r: "mb_read m = (mb_msg_pool m ! ?o, m\<lparr>mb_out_offset := nx, mb_entry := mb_entry m - 1\<rparr>)"
    using mb_read_fields [OF ok e0] by (simp add: nx_def)
  have pos: "0 < ?n" using ok by (auto simp: mb_ok_def word_less_nat_alt)
  have "mb_list m = mb_msg_pool m ! ?o # ring_list (mb_msg_pool m) ((?o + 1) mod ?n) (unat (mb_entry m) - 1)"
    using ring_get [of "unat (mb_entry m)" ?o "mb_msg_pool m"] ok len
    by (simp add: mb_list_def mb_ok_def word_less_nat_alt)
  then show "fst (mb_read m) = x" "mb_list (snd (mb_read m)) = xs"
    using some e o1 by (simp_all add: r) (simp_all add: mb_list_def)
  show "mb_size (snd (mb_read m)) = mb_size m" by (simp add: r)
  have nlt: "unat nx < ?n" unfolding o1 using pos by (rule mod_less_divisor)
  have "((?o + 1) mod ?n + (unat (mb_entry m) - 1)) mod ?n = (?o + 1 + (unat (mb_entry m) - 1)) mod ?n"
    by (rule mod_add_left_eq)
  also have "?o + 1 + (unat (mb_entry m) - 1) = ?o + unat (mb_entry m)" using len by simp
  finally have "(unat nx + unat (mb_entry m - 1)) mod ?n = unat (mb_in_offset m)"
    using ok e unfolding o1 by (simp add: mb_ok_def)
  moreover have "mb_entry m - 1 \<le> mb_size m" using ok len e by (simp add: mb_ok_def word_le_nat_alt)
  ultimately show "mb_ok (snd (mb_read m))"
    using ok nlt by (simp add: r) (simp add: mb_ok_def word_less_nat_alt)
qed

lemma mb_write_front:
  assumes ok: "mb_ok m" and room: "mb_entry m < mb_size m"
  shows "mb_ok (mb_write_front v m)" "mb_list (mb_write_front v m) = v # mb_list m"
    "mb_size (mb_write_front v m) = mb_size m"
proof -
  let ?n = "unat (mb_size m)" and ?o = "unat (mb_out_offset m)"
  let ?b = "if 0 < mb_out_offset m then mb_out_offset m - 1 else mb_size m - 1"
  have e: "unat (mb_entry m + 1) = unat (mb_entry m) + 1" using room by (rule unat_inc16)
  have lt: "?o < ?n" using ok by (simp add: mb_ok_def word_less_nat_alt)
  have sz: "0 < mb_size m" using lt by (simp add: word_less_nat_alt)
  have b: "unat ?b = (?o + ?n - 1) mod ?n"
  proof (cases "0 < mb_out_offset m")
    case True
    then have "unat (mb_out_offset m - 1) = ?o - 1" "0 < ?o" by (simp_all add: unat_dec16 word_less_nat_alt)
    then show ?thesis using True lt by (simp add: mod_if)
  next
    case False
    then have "?o = 0" by (simp add: word_less_nat_alt)
    then show ?thesis using False lt unat_dec16 [OF sz] by simp
  qed
  have f: "mb_write_front v m = m\<lparr>mb_out_offset := ?b, mb_msg_pool := (mb_msg_pool m)[unat ?b := v],
      mb_entry := mb_entry m + 1\<rparr>"
    by (simp add: mb_write_front_def Let_def)
  have in_same: "(unat ?b + (unat (mb_entry m) + 1)) mod ?n = (?o + unat (mb_entry m)) mod ?n"
  proof -
    have "(unat ?b + (unat (mb_entry m) + 1)) mod ?n = (?o + ?n - 1 + (unat (mb_entry m) + 1)) mod ?n"
      unfolding b by (rule mod_add_left_eq)
    also have "?o + ?n - 1 + (unat (mb_entry m) + 1) = (?o + unat (mb_entry m)) + ?n" using lt by simp
    finally show ?thesis by simp
  qed
  have "unat ?b < ?n" unfolding b using lt by (intro mod_less_divisor) simp
  then have bl: "?b < mb_size m" by (simp add: word_less_nat_alt)
  show "mb_ok (mb_write_front v m)"
    using ok room e in_same bl unfolding f mb_ok_def
    by (simp del: if_split add: word_less_nat_alt word_le_nat_alt)
  show "mb_list (mb_write_front v m) = v # mb_list m"
    using ring_unget [of "unat (mb_entry m)" "mb_msg_pool m" ?o v] ok room lt e b
    unfolding f by (simp add: mb_list_def mb_ok_def word_less_nat_alt)
  show "mb_size (mb_write_front v m) = mb_size m" by (simp add: f)
qed

interpretation mbq: bounded_queue mb_ok mb_list "\<lambda>m. unat (mb_size m)" mb_put mb_read
proof
  show "length (mb_list m) \<le> unat (mb_size m)" if "mb_ok m" for m
    using that by (simp add: mb_list_def mb_ok_def word_le_nat_alt)
  show "mb_ok (mb_put x m) \<and> mb_list (mb_put x m) = mb_list m @ [x] \<and> unat (mb_size (mb_put x m)) = unat (mb_size m)"
    if "mb_ok m" "length (mb_list m) < unat (mb_size m)" for m x
    using that mb_put [of m x] by (simp add: mb_list_def word_less_nat_alt)
  show "fst (mb_read m) = x \<and> mb_ok (snd (mb_read m)) \<and> mb_list (snd (mb_read m)) = xs
      \<and> unat (mb_size (snd (mb_read m))) = unat (mb_size m)"
    if "mb_ok m" "mb_list m = x # xs" for m x xs
    using mb_read [OF that] by simp
qed

subsection \<open>What the operations do to the queue and the waiting threads\<close>

lemma system_ok_set_mailbox [simp]: "system_ok (set_mailbox b f k) = system_ok k"
  by (rule system_ok_cong) (simp_all add: timer_flag_def)

lemma mb_list_empty [simp]: "mb_list m = [] \<longleftrightarrow> mb_entry m = 0"
  by (metis length_0_conv length_ring_list mb_list_def unat_eq_0)

lemma mb_entry_max: "mb_entry m < mb_size m \<Longrightarrow> mb_entry m < RT_MB_ENTRY_MAX"
proof -
  assume "mb_entry m < mb_size m"
  moreover have "mb_size m \<le> RT_MB_ENTRY_MAX"
    using unsigned_less [of "mb_size m", where 'a = nat] by (simp add: RT_MB_ENTRY_MAX_def word_le_nat_alt)
  ultimately show ?thesis by simp
qed

text \<open>The receiving side of a send: the woken receiver and the rest of its list.\<close>

lemma mb_send_put:
  fixes v :: u32
  assumes ok: "system_ok k" and m: "mb_ok (mailboxes k b)" and room: "mb_entry (mailboxes k b) < mb_size (mailboxes k b)"
  defines "k' \<equiv> snd (mb_send_put b v k)"
  shows "fst (mb_send_put b v k) = RT_EOK" "system_ok k'" "mb_ok (mailboxes k' b)"
    and "mb_list (mailboxes k' b) = mb_list (mailboxes k b) @ [v]" "mb_size (mailboxes k' b) = mb_size (mailboxes k b)"
    and "tq k' (MbRecvQ b) = tl (tq k (MbRecvQ b))" "tq k' (MbSendQ b) = tq k (MbSendQ b)"
    and "tq k (MbRecvQ b) = w # ws \<Longrightarrow> is_runnable (threads k' w) \<and> th_error (threads k' w) = th_error (threads k w)"
proof -
  define j where "j = set_mailbox b (mb_put v) k"
  have jok: "system_ok j" and jf: "tq j = tq k" "threads j = threads k" "mailboxes j b = mb_put v (mailboxes k b)"
    using ok by (simp_all add: j_def)
  have jj: "set_mailbox b (mb_entry_update (\<lambda>e. e + 1)) (set_mailbox b (mb_write v) k) = j"
    by (simp add: j_def set_mailbox_def mb_put_def)
  note wk = mbrecvq.wake_first [where b = b, OF jok]
  have send: "mb_send_put b v k
      = (RT_EOK, if tq j (MbRecvQ b) \<noteq> [] then rt_schedule (rt_ipc_list_resume (MbRecvQ b) j) else j)"
    using mb_entry_max [OF room] by (simp add: mb_send_put_def Let_def jj jf)
  then have k': "k' = (if tq j (MbRecvQ b) \<noteq> [] then rt_schedule (rt_ipc_list_resume (MbRecvQ b) j) else j)"
    by (simp only: k'_def snd_conv)
  have mbx: "mailboxes k' b = mb_put v (mailboxes k b)" by (simp add: k' jf)
  show "fst (mb_send_put b v k) = RT_EOK" using send by simp
  show "system_ok k'" "tq k' (MbRecvQ b) = tl (tq k (MbRecvQ b))" "tq k' (MbSendQ b) = tq k (MbSendQ b)"
    "tq k (MbRecvQ b) = w # ws \<Longrightarrow> is_runnable (threads k' w) \<and> th_error (threads k' w) = th_error (threads k w)"
    using wk(1,2) wk(3) [of w ws] wk(4) [of "MbSendQ b"] jf unfolding k' by simp_all
  show "mb_ok (mailboxes k' b)" "mb_list (mailboxes k' b) = mb_list (mailboxes k b) @ [v]"
    "mb_size (mailboxes k' b) = mb_size (mailboxes k b)"
    using mb_put [OF m room] by (simp_all add: mbx)
qed

lemma mb_urgent_front:
  fixes v :: u32
  assumes ok: "system_ok k" and m: "mb_ok (mailboxes k b)" and room: "mb_entry (mailboxes k b) < mb_size (mailboxes k b)"
  defines "k' \<equiv> snd (rt_mb_urgent b v k)"
  shows "fst (rt_mb_urgent b v k) = RT_EOK" "system_ok k'" "mb_ok (mailboxes k' b)"
    and "mb_list (mailboxes k' b) = v # mb_list (mailboxes k b)"
    and "tq k' (MbRecvQ b) = tl (tq k (MbRecvQ b))"
    and "tq k (MbRecvQ b) = w # ws \<Longrightarrow> is_runnable (threads k' w) \<and> th_error (threads k' w) = th_error (threads k w)"
proof -
  define j where "j = set_mailbox b (mb_write_front v) k"
  have jok: "system_ok j" and jf: "tq j = tq k" "threads j = threads k" "mailboxes j b = mb_write_front v (mailboxes k b)"
    using ok by (simp_all add: j_def)
  note wk = mbrecvq.wake_first [where b = b, OF jok]
  have send: "rt_mb_urgent b v k
      = (RT_EOK, if tq j (MbRecvQ b) \<noteq> [] then rt_schedule (rt_ipc_list_resume (MbRecvQ b) j) else j)"
    using room less_imp_neq [OF room] by (simp add: rt_mb_urgent_def Let_def j_def [symmetric] jf)
  then have k': "k' = (if tq j (MbRecvQ b) \<noteq> [] then rt_schedule (rt_ipc_list_resume (MbRecvQ b) j) else j)"
    by (simp only: k'_def snd_conv)
  have mbx: "mailboxes k' b = mb_write_front v (mailboxes k b)" by (simp add: k' jf)
  show "fst (rt_mb_urgent b v k) = RT_EOK" using send by simp
  show "system_ok k'" "tq k' (MbRecvQ b) = tl (tq k (MbRecvQ b))"
    "tq k (MbRecvQ b) = w # ws \<Longrightarrow> is_runnable (threads k' w) \<and> th_error (threads k' w) = th_error (threads k w)"
    using wk(1,2) wk(3) [of w ws] jf unfolding k' by simp_all
  show "mb_ok (mailboxes k' b)" "mb_list (mailboxes k' b) = v # mb_list (mailboxes k b)"
    using mb_write_front [OF m room] by (simp_all add: mbx)
qed

lemma mb_recv_get:
  assumes ok: "system_ok k" and m: "mb_ok (mailboxes k b)" and some: "mb_list (mailboxes k b) = x # xs"
  defines "k' \<equiv> snd (mb_recv_get b k)"
  shows "fst (mb_recv_get b k) = (RT_EOK, Some x)" "system_ok k'" "mb_ok (mailboxes k' b)"
    and "mb_list (mailboxes k' b) = xs" "mb_size (mailboxes k' b) = mb_size (mailboxes k b)"
    and "tq k' (MbSendQ b) = tl (tq k (MbSendQ b))" "tq k' (MbRecvQ b) = tq k (MbRecvQ b)"
    and "tq k (MbSendQ b) = w # ws \<Longrightarrow> is_runnable (threads k' w) \<and> th_error (threads k' w) = th_error (threads k w)"
proof -
  define j where "j = set_mailbox b (\<lambda>m. snd (mb_read m)) k"
  have jok: "system_ok j" and jf: "tq j = tq k" "threads j = threads k" "mailboxes j b = snd (mb_read (mailboxes k b))"
    using ok by (simp_all add: j_def)
  note wk = mbsendq.wake_first [where b = b, OF jok]
  have recv: "mb_recv_get b k = ((RT_EOK, Some x),
      if tq j (MbSendQ b) \<noteq> [] then rt_schedule (rt_ipc_list_resume (MbSendQ b) j) else j)"
    using mb_read(1) [OF m some] by (simp add: mb_recv_get_def Let_def j_def [symmetric] jf)
  then have k': "k' = (if tq j (MbSendQ b) \<noteq> [] then rt_schedule (rt_ipc_list_resume (MbSendQ b) j) else j)"
    by (simp only: k'_def snd_conv)
  have mbx: "mailboxes k' b = snd (mb_read (mailboxes k b))" by (simp add: k' jf)
  show "fst (mb_recv_get b k) = (RT_EOK, Some x)" using recv by simp
  show "system_ok k'" "tq k' (MbSendQ b) = tl (tq k (MbSendQ b))" "tq k' (MbRecvQ b) = tq k (MbRecvQ b)"
    "tq k (MbSendQ b) = w # ws \<Longrightarrow> is_runnable (threads k' w) \<and> th_error (threads k' w) = th_error (threads k w)"
    using wk(1,2) wk(3) [of w ws] wk(4) [of "MbRecvQ b"] jf unfolding k' by simp_all
  show "mb_ok (mailboxes k' b)" "mb_list (mailboxes k' b) = xs" "mb_size (mailboxes k' b) = mb_size (mailboxes k b)"
    using mb_read [OF m some] by (simp_all add: mbx)
qed

text \<open>The loops: one step each when they need not wait.\<close>

lemma mb_send_now:
  "mb_entry (mailboxes k b) \<noteq> mb_size (mailboxes k b) \<Longrightarrow>
     rt_mb_send_wait b v timeout k = Some (outcome_of (mb_send_put b v k))"
  "mb_entry (mailboxes k b) = mb_size (mailboxes k b) \<Longrightarrow>
     rt_mb_send_wait b v 0 k = Some (Returned (- RT_EFULL) k)"
  by (simp_all add: rt_mb_send_wait_def) (subst mb_send_loop.simps, simp)

lemma mb_recv_now:
  "mb_entry (mailboxes k b) \<noteq> 0 \<Longrightarrow> rt_mb_recv b timeout k = Some (outcome_of (mb_recv_get b k))"
  "mb_entry (mailboxes k b) = 0 \<Longrightarrow> rt_mb_recv b 0 k = Some (Returned (- RT_ETIMEOUT, None) k)"
  by (simp_all add: rt_mb_recv_def) (subst mb_recv_loop.simps, simp)

text \<open>A full mailbox makes the sender wait, an empty one the receiver.\<close>

lemma mb_send_waits:
  assumes ok: "system_ok k" and cur: "rt_current_thread k = Some t"
    and run: "th_state (threads k t) = RT_THREAD_RUNNING"
    and flag: "flag = RT_IPC_FLAG_FIFO \<or> flag = RT_IPC_FLAG_PRIO" "obj_flag (objects k (OMailbox b)) = flag"
    and full: "mb_entry (mailboxes k b) = mb_size (mailboxes k b)"
    and time: "timeout \<noteq> 0" "timeout \<noteq> 0x7fffffff"
    and free: "rt_scheduler_lock_nest k = 0" "rt_interrupt_nest k = 0" and other: "u \<in> set (tq k (ReadyQ p))"
  shows "\<exists>k'. rt_mb_send_wait b v timeout k = Some (Blocked k') \<and> system_ok k' \<and> rt_current_thread k' \<noteq> Some t
    \<and> mailboxes k' = mailboxes k
    \<and> tq k' (MbSendQ b) = (if flag = RT_IPC_FLAG_FIFO then tq k (MbSendQ b) @ [t]
                         else prio_insert (threads k) t (tq k (MbSendQ b)))
    \<and> th_error (threads k' t) = RT_EOK
    \<and> (0 < sint timeout \<longrightarrow> ticks_left k' (ThreadTimer t) = unat timeout)"
proof -
  note w = mbsendq.wait_step [where b = b, OF ok cur run flag(1) time(2) free other]
  have "rt_mb_send_wait b v timeout k = mb_send_loop t b v timeout k"
    using time cur by (simp add: rt_mb_send_wait_def rt_thread_self_def)
  also have "\<dots> = Some (Blocked (rt_schedule (wait_on (MbSendQ b) t flag timeout
      (set_thread t (th_error_update (\<lambda>_. RT_EOK)) k))))"
    using full time cur w(2,3) flag(2) by (subst mb_send_loop.simps) (simp add: Let_def)
  finally show ?thesis using w(1,2,4,5,7,8) by blast
qed

lemma mb_recv_waits:
  assumes ok: "system_ok k" and cur: "rt_current_thread k = Some t"
    and run: "th_state (threads k t) = RT_THREAD_RUNNING"
    and flag: "flag = RT_IPC_FLAG_FIFO \<or> flag = RT_IPC_FLAG_PRIO" "obj_flag (objects k (OMailbox b)) = flag"
    and empty: "mb_entry (mailboxes k b) = 0"
    and time: "timeout \<noteq> 0" "timeout \<noteq> 0x7fffffff"
    and free: "rt_scheduler_lock_nest k = 0" "rt_interrupt_nest k = 0" and other: "u \<in> set (tq k (ReadyQ p))"
  shows "\<exists>k'. rt_mb_recv b timeout k = Some (Blocked k') \<and> system_ok k' \<and> rt_current_thread k' \<noteq> Some t
    \<and> mailboxes k' = mailboxes k
    \<and> tq k' (MbRecvQ b) = (if flag = RT_IPC_FLAG_FIFO then tq k (MbRecvQ b) @ [t]
                         else prio_insert (threads k) t (tq k (MbRecvQ b)))
    \<and> th_error (threads k' t) = RT_EOK
    \<and> (0 < sint timeout \<longrightarrow> ticks_left k' (ThreadTimer t) = unat timeout)"
proof -
  note w = mbrecvq.wait_step [where b = b, OF ok cur run flag(1) time(2) free other]
  have "rt_mb_recv b timeout k = mb_recv_loop t b timeout k"
    using time cur by (simp add: rt_mb_recv_def rt_thread_self_def)
  also have "\<dots> = Some (Blocked (rt_schedule (wait_on (MbRecvQ b) t flag timeout
      (set_thread t (th_error_update (\<lambda>_. RT_EOK)) k))))"
    using empty time cur w(2,3) flag(2) by (subst mb_recv_loop.simps) (simp add: Let_def)
  finally show ?thesis using w(1,2,4,5,7,8) by blast
qed

subsection \<open>Running again\<close>

lemma mb_ok_size: "mb_ok m \<Longrightarrow> 0 < mb_size m"
  by (auto simp: mb_ok_def word_less_nat_alt)

lemma mb_recv_loop_now:
  "mb_entry (mailboxes k b) \<noteq> 0 \<Longrightarrow> mb_recv_loop t b timeout k = Some (outcome_of (mb_recv_get b k))"
  by (subst mb_recv_loop.simps) simp

lemma mb_send_loop_now:
  "mb_entry (mailboxes k b) \<noteq> mb_size (mailboxes k b) \<Longrightarrow>
   mb_send_loop t b v timeout k = Some (outcome_of (mb_send_put b v k))"
  by (subst mb_send_loop.simps) simp

text \<open>The word that woke a receiver is the one it returns, when it is the next to run.\<close>

lemma mb_hand_over:
  assumes ok: "system_ok k" and m: "mb_ok (mailboxes k b)" and empty: "mb_list (mailboxes k b) = []"
    and w: "tq k (MbRecvQ b) = w # ws" "th_error (threads k w) = RT_EOK"
  shows "\<exists>k2. mb_recv_resume w b start timeout (snd (mb_send_put b v k)) = Some (Returned (RT_EOK, Some v) k2)
    \<and> system_ok k2 \<and> mb_ok (mailboxes k2 b) \<and> mb_list (mailboxes k2 b) = [] \<and> tq k2 (MbRecvQ b) = ws"
proof -
  have room: "mb_entry (mailboxes k b) < mb_size (mailboxes k b)"
    using mb_ok_size [OF m] empty by simp
  note s = mb_send_put [OF ok m room, where v = v]
  let ?k1 = "snd (mb_send_put b v k)"
  have l1: "mb_list (mailboxes ?k1 b) = [v]" using s(4) empty by simp
  note r = mb_recv_get [OF s(2,3) l1]
  have "th_error (threads ?k1 w) = RT_EOK" using s(8) [OF w(1)] w(2) by simp
  moreover have "mb_entry (mailboxes ?k1 b) \<noteq> 0" using l1 by (metis list.distinct(1) mb_list_empty)
  ultimately have "mb_recv_resume w b start timeout ?k1 = Some (Returned (RT_EOK, Some v) (snd (mb_recv_get b ?k1)))"
    using r(1) by (simp add: mb_recv_resume_def mb_recv_loop_now outcome_of_def)
  then show ?thesis using r(2,3,4,7) s(6) w(1) by simp
qed

text \<open>Conversely for a sender that waited for room.\<close>

lemma mb_room_over:
  assumes ok: "system_ok k" and m: "mb_ok (mailboxes k b)"
    and full: "mb_entry (mailboxes k b) = mb_size (mailboxes k b)"
    and w: "tq k (MbSendQ b) = w # ws" "th_error (threads k w) = RT_EOK"
  shows "\<exists>x xs k2. mb_list (mailboxes k b) = x # xs \<and> fst (mb_recv_get b k) = (RT_EOK, Some x)
    \<and> mb_send_resume w b v start timeout (snd (mb_recv_get b k)) = Some (Returned RT_EOK k2)
    \<and> system_ok k2 \<and> mb_ok (mailboxes k2 b) \<and> mb_list (mailboxes k2 b) = xs @ [v] \<and> tq k2 (MbSendQ b) = ws"
proof -
  have "mb_entry (mailboxes k b) \<noteq> 0" using mb_ok_size [OF m] full by auto
  then obtain x xs where l: "mb_list (mailboxes k b) = x # xs"
    by (cases "mb_list (mailboxes k b)") auto
  note r = mb_recv_get [OF ok m l]
  let ?k1 = "snd (mb_recv_get b k)"
  have "length (x # xs) = unat (mb_size (mailboxes k b))"
    using full l length_ring_list unfolding mb_list_def by metis
  moreover have "unat (mb_entry (mailboxes ?k1 b)) = length xs"
    using r(4) length_ring_list unfolding mb_list_def by metis
  ultimately have room: "mb_entry (mailboxes ?k1 b) < mb_size (mailboxes ?k1 b)"
    using r(5) by (simp add: word_less_nat_alt)
  note s = mb_send_put [OF r(2,3) room, where v = v]
  have "th_error (threads ?k1 w) = RT_EOK" using r(8) [OF w(1)] w(2) by simp
  then have "mb_send_resume w b v start timeout ?k1 = Some (Returned RT_EOK (snd (mb_send_put b v ?k1)))"
    using s(1) less_imp_neq [OF room] by (simp add: mb_send_resume_def mb_send_loop_now outcome_of_def)
  then show ?thesis using l r(1,6) s(2,3,4,7) r(4) w(1) by auto
qed

subsection \<open>Waiting with the scheduler locked\<close>

lemma thread_suspend_error [simp]:
  "th_error (threads (snd (rt_thread_suspend t k)) s) = th_error (threads k s)"
  by (auto simp: rt_thread_suspend_def Let_def)

lemma list_suspend_error [simp]:
  "th_error (threads (rt_ipc_list_suspend q t flag k) s) = th_error (threads k s)"
  by (simp add: rt_ipc_list_suspend_def Let_def)

lemma mb_recv_loop_locked:
  assumes "mb_recv_loop t b timeout k = Some y"
  shows "rt_scheduler_lock_nest k \<noteq> 0 \<longrightarrow> rt_current_thread k = Some t \<longrightarrow>
    mb_entry (mailboxes k b) = 0 \<longrightarrow> sint timeout < 0 \<longrightarrow> False"
proof (rule mb_recv_loop.raw_induct [OF _ assms])
  fix loop thread b timeout k y
  assume ih: "\<And>thread b timeout k y. loop thread b timeout k = Some y \<Longrightarrow> rt_scheduler_lock_nest k \<noteq> 0 \<longrightarrow>
      rt_current_thread k = Some thread \<longrightarrow> mb_entry (mailboxes k b) = 0 \<longrightarrow> sint timeout < 0 \<longrightarrow> False"
    and body: "(if mb_entry (mailboxes k b) = 0 then
       let k = set_thread thread (th_error_update (\<lambda>_. RT_EOK)) k
       in if timeout = 0
          then Some (Returned (- RT_ETIMEOUT, None)
                 (set_thread thread (th_error_update (\<lambda>_. - RT_ETIMEOUT)) k))
          else
            let start = rt_tick_get k;
                k = wait_on (MbRecvQ b) thread (obj_flag (objects k (OMailbox b))) timeout k;
                k = rt_schedule k
            in if rt_interrupt_nest k = 0 \<and> rt_current_thread k \<noteq> Some thread then Some (Blocked k)
               else if th_error (threads k thread) \<noteq> RT_EOK
               then Some (Returned (th_error (threads k thread), None) k)
               else loop thread b (time_left start timeout k) k
     else Some (outcome_of (mb_recv_get b k))) = Some y"
  show "rt_scheduler_lock_nest k \<noteq> 0 \<longrightarrow> rt_current_thread k = Some thread \<longrightarrow>
      mb_entry (mailboxes k b) = 0 \<longrightarrow> sint timeout < 0 \<longrightarrow> False"
  proof (intro impI)
    assume h: "rt_scheduler_lock_nest k \<noteq> 0" "rt_current_thread k = Some thread"
      "mb_entry (mailboxes k b) = 0" "sint timeout < 0"
    define w where "w = wait_on (MbRecvQ b) thread (obj_flag (objects k (OMailbox b))) timeout
      (set_thread thread (th_error_update (\<lambda>_. RT_EOK)) k)"
    have w: "rt_scheduler_lock_nest w = rt_scheduler_lock_nest k" "rt_current_thread w = Some thread"
      "mailboxes w = mailboxes k" "th_error (threads w thread) = RT_EOK"
      using h by (simp_all add: w_def) (simp add: wait_on_def Let_def)
    have sch: "rt_schedule w = w" using h(1) w(1) by (simp add: rt_schedule_idle)
    have "timeout \<noteq> 0" "time_left start timeout w = timeout" for start
      using h(4) by (auto simp: time_left_def)
    then have "loop thread b timeout w = Some y"
      using body h w sch by (simp add: Let_def flip: w_def)
    then show False using ih [of thread b timeout w y] h w by simp
  qed
qed

end
