(* ===== verification/MessageQueue.thy ===== *)
theory MessageQueue
  imports Mailbox
begin

section \<open>Message queues (\<open>rt-thread/src/ipc.c\<close>)\<close>

text \<open>
  A queue of messages of bounded size in blocks of one pool: the used blocks are chained in the
  order of the queue, the others in a list of free blocks. A message is the bytes the caller gives
  (their number is the \<open>size\<close> of the call), copied to the front of a block; receiving copies at
  most the size of a block. As for mailboxes, a wait gives the CPU away and \<open>_resume\<close> is the rest.
\<close>

definition RT_MQ_ENTRY_MAX :: u16 where "RT_MQ_ENTRY_MAX = 0xffff"

text \<open>\<open>RT_ALIGN(size, RT_ALIGN_SIZE)\<close>, and the size of the header of a block (one pointer).\<close>

definition RT_ALIGN_4 :: "u32 \<Rightarrow> u32" where "RT_ALIGN_4 size0 = (size0 + 4 - 1) AND NOT (4 - 1)"
definition mq_header_size :: u32 where "mq_header_size = 4"

text \<open>The chain of free blocks is built from the first block on, each put in front.\<close>

definition mq_free_chain :: "nat \<Rightarrow> nat list" where
  "mq_free_chain max_msgs = fold (\<lambda>temp free. temp # free) [0..<max_msgs] []"

definition rt_mq_init :: "nat \<Rightarrow> string \<Rightarrow> (nat \<Rightarrow> u8 list) \<Rightarrow> u32 \<Rightarrow> u32 \<Rightarrow> u8 \<Rightarrow> kernel \<Rightarrow> rt_err_t \<times> kernel" where
  "rt_mq_init mq name msgpool msg_size pool_size flag k =
    (let k = rt_object_init (OMessageQueue mq) RT_Object_Class_MessageQueue name k;
         k = set_object (OMessageQueue mq) (obj_flag_update (\<lambda>_. flag)) k;
         k = rt_ipc_object_init (MqRecvQ mq) k;
         size16 = ucast (RT_ALIGN_4 msg_size) :: u16;
         max16 = ucast (pool_size div (ucast size16 + mq_header_size)) :: u16;
         k = set_mq mq (\<lambda>_. \<lparr>mq_pool = msgpool, mq_msg_size = size16, mq_max_msgs = max16, mq_entry = 0,
                             mq_msg_queue = [], mq_msg_queue_free = mq_free_chain (unat max16)\<rparr>) k
     in (RT_EOK, k\<lparr>tq := (tq k)(MqSendQ mq := [])\<rparr>))"

definition mq_resume_all :: "nat \<Rightarrow> kernel \<Rightarrow> kernel option" where
  "mq_resume_all mq k =
    (case rt_ipc_list_resume_all (MqRecvQ mq) k of
       None \<Rightarrow> None
     | Some k \<Rightarrow> rt_ipc_list_resume_all (MqSendQ mq) k)"

definition rt_mq_detach :: "nat \<Rightarrow> kernel \<Rightarrow> (rt_err_t \<times> kernel) option" where
  "rt_mq_detach mq k =
    (case mq_resume_all mq k of
       None \<Rightarrow> None
     | Some k \<Rightarrow> Some (RT_EOK, rt_object_detach (OMessageQueue mq) k))"

definition rt_mq_create ::
  "nat option \<Rightarrow> (nat \<Rightarrow> u8 list) option \<Rightarrow> string \<Rightarrow> u32 \<Rightarrow> u32 \<Rightarrow> u8 \<Rightarrow> kernel \<Rightarrow> nat option \<times> kernel" where
  "rt_mq_create mem pool name msg_size max_msgs flag k =
    (case mem of
       None \<Rightarrow> (None, snd (rt_object_allocate None RT_Object_Class_MessageQueue name k))
     | Some mq \<Rightarrow>
        let k = snd (rt_object_allocate (Some (OMessageQueue mq)) RT_Object_Class_MessageQueue name k);
            k = set_object (OMessageQueue mq) (obj_flag_update (\<lambda>_. flag)) k;
            k = rt_ipc_object_init (MqRecvQ mq) k;
            k = set_mq mq (\<lambda>m. m\<lparr>mq_msg_size := ucast (RT_ALIGN_4 msg_size),
                                 mq_max_msgs := ucast max_msgs\<rparr>) k
        in (case pool of
              None \<Rightarrow> (None, rt_object_delete (OMessageQueue mq) k)
            | Some p \<Rightarrow>
               let k = set_mq mq (\<lambda>m. m\<lparr>mq_pool := p, mq_msg_queue := [], mq_entry := 0,
                         mq_msg_queue_free := mq_free_chain (unat (mq_max_msgs m))\<rparr>) k
               in (Some mq, k\<lparr>tq := (tq k)(MqSendQ mq := [])\<rparr>)))"

definition rt_mq_delete :: "nat \<Rightarrow> kernel \<Rightarrow> (rt_err_t \<times> kernel) option" where
  "rt_mq_delete mq k =
    (case mq_resume_all mq k of
       None \<Rightarrow> None
     | Some k \<Rightarrow>
        Some (RT_EOK, rt_object_delete (OMessageQueue mq)
                (k\<lparr>kernel_calls := Free_pool (OMessageQueue mq) # kernel_calls k\<rparr>)))"

subsection \<open>Sending\<close>

text \<open>A free block is taken off its chain and the message copied to its front.\<close>

definition mq_fill :: "u8 list \<Rightarrow> rt_messagequeue \<Rightarrow> rt_messagequeue" where
  "mq_fill buffer m =
    (let msg = hd (mq_msg_queue_free m);
         m = m\<lparr>mq_msg_queue_free := tl (mq_msg_queue_free m)\<rparr>
     in m\<lparr>mq_pool := (mq_pool m)(msg := buffer @ drop (length buffer) (mq_pool m msg))\<rparr>)"

text \<open>The common end: count the message and wake a receiver.\<close>

definition mq_count_and_wake :: "nat \<Rightarrow> kernel \<Rightarrow> rt_err_t \<times> kernel" where
  "mq_count_and_wake mq k =
    (if mq_entry (messagequeues k mq) < RT_MQ_ENTRY_MAX then
       let k = set_mq mq (mq_entry_update (\<lambda>e. e + 1)) k
       in (if tq k (MqRecvQ mq) \<noteq> []
           then (RT_EOK, rt_schedule (rt_ipc_list_resume (MqRecvQ mq) k))
           else (RT_EOK, k))
     else (- RT_EFULL, k))"

definition mq_send_put :: "nat \<Rightarrow> u8 list \<Rightarrow> kernel \<Rightarrow> rt_err_t \<times> kernel" where
  "mq_send_put mq buffer k =
    (let msg = hd (mq_msg_queue_free (messagequeues k mq));
         k = set_mq mq (mq_fill buffer) k;
         k = set_mq mq (mq_msg_queue_update (\<lambda>q. q @ [msg])) k
     in mq_count_and_wake mq k)"

partial_function (option) mq_send_loop ::
  "nat \<Rightarrow> nat \<Rightarrow> u8 list \<Rightarrow> 32 word \<Rightarrow> kernel \<Rightarrow> rt_err_t outcome option" where
  "mq_send_loop thread mq buffer timeout k =
    (if mq_msg_queue_free (messagequeues k mq) = [] then
       let k = set_thread thread (th_error_update (\<lambda>_. RT_EOK)) k
       in if timeout = 0 then Some (Returned (- RT_EFULL) k)
          else
            let start = rt_tick_get k;
                k = wait_on (MqSendQ mq) thread (obj_flag (objects k (OMessageQueue mq))) timeout k;
                k = rt_schedule k
            in if rt_interrupt_nest k = 0 \<and> rt_current_thread k \<noteq> Some thread then Some (Blocked k)
               else if th_error (threads k thread) \<noteq> RT_EOK
               then Some (Returned (th_error (threads k thread)) k)
               else mq_send_loop thread mq buffer (time_left start timeout k) k
     else Some (outcome_of (mq_send_put mq buffer k)))"

definition mq_send_resume ::
  "nat \<Rightarrow> nat \<Rightarrow> u8 list \<Rightarrow> u32 \<Rightarrow> 32 word \<Rightarrow> kernel \<Rightarrow> rt_err_t outcome option" where
  "mq_send_resume thread mq buffer start timeout k =
    (if th_error (threads k thread) \<noteq> RT_EOK then Some (Returned (th_error (threads k thread)) k)
     else mq_send_loop thread mq buffer (time_left start timeout k) k)"

definition rt_mq_send_wait :: "nat \<Rightarrow> u8 list \<Rightarrow> 32 word \<Rightarrow> kernel \<Rightarrow> rt_err_t outcome option" where
  "rt_mq_send_wait mq buffer timeout k =
    (if unat (mq_msg_size (messagequeues k mq)) < length buffer then Some (Returned (- RT_ERROR) k)
     else if mq_msg_queue_free (messagequeues k mq) = [] \<and> timeout = 0
     then Some (Returned (- RT_EFULL) k)
     else mq_send_loop (the (rt_thread_self k)) mq buffer timeout k)"

definition rt_mq_send :: "nat \<Rightarrow> u8 list \<Rightarrow> kernel \<Rightarrow> rt_err_t outcome option" where
  "rt_mq_send mq buffer k = rt_mq_send_wait mq buffer 0 k"

definition rt_mq_urgent :: "nat \<Rightarrow> u8 list \<Rightarrow> kernel \<Rightarrow> rt_err_t \<times> kernel" where
  "rt_mq_urgent mq buffer k =
    (if unat (mq_msg_size (messagequeues k mq)) < length buffer then (- RT_ERROR, k)
     else if mq_msg_queue_free (messagequeues k mq) = [] then (- RT_EFULL, k)
     else
       let msg = hd (mq_msg_queue_free (messagequeues k mq));
           k = set_mq mq (mq_fill buffer) k;
           k = set_mq mq (mq_msg_queue_update (\<lambda>q. msg # q)) k
       in mq_count_and_wake mq k)"

subsection \<open>Receiving\<close>

definition mq_recv_get :: "nat \<Rightarrow> nat \<Rightarrow> kernel \<Rightarrow> (rt_err_t \<times> u8 list option) \<times> kernel" where
  "mq_recv_get mq size0 k =
    (let m = messagequeues k mq;
         msg = hd (mq_msg_queue m);
         k = set_mq mq (mq_msg_queue_update tl) k;
         k = (if 0 < mq_entry m then set_mq mq (mq_entry_update (\<lambda>e. e - 1)) k else k);
         got = take (if unat (mq_msg_size m) < size0 then unat (mq_msg_size m) else size0)
                 (mq_pool (messagequeues k mq) msg);
         k = set_mq mq (mq_msg_queue_free_update (\<lambda>free. msg # free)) k
     in if tq k (MqSendQ mq) \<noteq> []
        then ((RT_EOK, Some got), rt_schedule (rt_ipc_list_resume (MqSendQ mq) k))
        else ((RT_EOK, Some got), k))"

partial_function (option) mq_recv_loop ::
  "nat \<Rightarrow> nat \<Rightarrow> nat \<Rightarrow> 32 word \<Rightarrow> kernel \<Rightarrow> (rt_err_t \<times> u8 list option) outcome option" where
  "mq_recv_loop thread mq size0 timeout k =
    (if mq_entry (messagequeues k mq) = 0 then
       let k = set_thread thread (th_error_update (\<lambda>_. RT_EOK)) k
       in if timeout = 0
          then Some (Returned (- RT_ETIMEOUT, None)
                 (set_thread thread (th_error_update (\<lambda>_. - RT_ETIMEOUT)) k))
          else
            let start = rt_tick_get k;
                k = wait_on (MqRecvQ mq) thread (obj_flag (objects k (OMessageQueue mq))) timeout k;
                k = rt_schedule k
            in if rt_interrupt_nest k = 0 \<and> rt_current_thread k \<noteq> Some thread then Some (Blocked k)
               else if th_error (threads k thread) \<noteq> RT_EOK
               then Some (Returned (th_error (threads k thread), None) k)
               else mq_recv_loop thread mq size0 (time_left start timeout k) k
     else Some (outcome_of (mq_recv_get mq size0 k)))"

definition mq_recv_resume ::
  "nat \<Rightarrow> nat \<Rightarrow> nat \<Rightarrow> u32 \<Rightarrow> 32 word \<Rightarrow> kernel \<Rightarrow> (rt_err_t \<times> u8 list option) outcome option" where
  "mq_recv_resume thread mq size0 start timeout k =
    (if th_error (threads k thread) \<noteq> RT_EOK
     then Some (Returned (th_error (threads k thread), None) k)
     else mq_recv_loop thread mq size0 (time_left start timeout k) k)"

definition rt_mq_recv :: "nat \<Rightarrow> nat \<Rightarrow> 32 word \<Rightarrow> kernel \<Rightarrow> (rt_err_t \<times> u8 list option) outcome option" where
  "rt_mq_recv mq size0 timeout k =
    (if mq_entry (messagequeues k mq) = 0 \<and> timeout = 0 then Some (Returned (- RT_ETIMEOUT, None) k)
     else mq_recv_loop (the (rt_thread_self k)) mq size0 timeout k)"

text \<open>The reset moves every block to the free chain.\<close>

fun mq_flush :: "nat list \<Rightarrow> nat list \<Rightarrow> nat list" where
  "mq_flush [] free = free"
| "mq_flush (msg # q) free = mq_flush q (msg # free)"

definition rt_mq_control :: "nat \<Rightarrow> int \<Rightarrow> u32 \<Rightarrow> kernel \<Rightarrow> (rt_err_t \<times> kernel) option" where
  "rt_mq_control mq cmd arg k =
    (if cmd = RT_IPC_CMD_RESET then
       (case mq_resume_all mq k of
          None \<Rightarrow> None
        | Some k \<Rightarrow>
           Some (RT_EOK, rt_schedule (set_mq mq
             (\<lambda>m. m\<lparr>mq_msg_queue_free := mq_flush (mq_msg_queue m) (mq_msg_queue_free m),
                    mq_msg_queue := [], mq_entry := 0\<rparr>) k)))
     else Some (- RT_ERROR, k))"

subsection \<open>The chains of blocks are a bounded queue of messages\<close>

text \<open>Every block is in one of the two chains, once.\<close>

definition mq_list :: "rt_messagequeue \<Rightarrow> u8 list list" where
  "mq_list m = map (mq_pool m) (mq_msg_queue m)"

definition mq_ok :: "rt_messagequeue \<Rightarrow> bool" where
  "mq_ok m \<longleftrightarrow> distinct (mq_msg_queue m @ mq_msg_queue_free m)
     \<and> set (mq_msg_queue m @ mq_msg_queue_free m) = {..<unat (mq_max_msgs m)}
     \<and> unat (mq_entry m) = length (mq_msg_queue m)
     \<and> (\<forall>b < unat (mq_max_msgs m). length (mq_pool m b) = unat (mq_msg_size m))"

lemma mq_ok_count: "mq_ok m \<Longrightarrow> length (mq_msg_queue m) + length (mq_msg_queue_free m) = unat (mq_max_msgs m)"
  by (metis card_lessThan distinct_card length_append mq_ok_def)

lemma mq_free_nonempty: "mq_ok m \<Longrightarrow> mq_msg_queue_free m \<noteq> [] \<longleftrightarrow> length (mq_list m) < unat (mq_max_msgs m)"
  using mq_ok_count [of m] by (cases "mq_msg_queue_free m") (auto simp: mq_list_def)

lemma mq_list_empty [simp]: "mq_ok m \<Longrightarrow> mq_list m = [] \<longleftrightarrow> mq_entry m = 0"
  by (metis length_0_conv map_is_Nil_conv mq_list_def mq_ok_def unat_eq_0)

text \<open>Taking a free block, filling it and linking it at one end of the queue.\<close>

definition mq_put :: "u8 list \<Rightarrow> rt_messagequeue \<Rightarrow> rt_messagequeue" where
  "mq_put buffer m = mq_entry_update (\<lambda>e. e + 1)
     (mq_msg_queue_update (\<lambda>q. q @ [hd (mq_msg_queue_free m)]) (mq_fill buffer m))"

definition mq_put_front :: "u8 list \<Rightarrow> rt_messagequeue \<Rightarrow> rt_messagequeue" where
  "mq_put_front buffer m = mq_entry_update (\<lambda>e. e + 1)
     (mq_msg_queue_update (\<lambda>q. hd (mq_msg_queue_free m) # q) (mq_fill buffer m))"

text \<open>What a block holds after a message was copied to its front.\<close>

definition padded :: "u8 list \<Rightarrow> rt_messagequeue \<Rightarrow> u8 list" where
  "padded buffer m = buffer @ drop (length buffer) (mq_pool m (hd (mq_msg_queue_free m)))"

lemma mq_put:
  assumes ok: "mq_ok m" and room: "mq_msg_queue_free m \<noteq> []" and fits: "length buffer \<le> unat (mq_msg_size m)"
  shows "mq_ok (mq_put buffer m)" "mq_list (mq_put buffer m) = mq_list m @ [padded buffer m]"
    and "mq_ok (mq_put_front buffer m)" "mq_list (mq_put_front buffer m) = padded buffer m # mq_list m"
    and "mq_entry m < RT_MQ_ENTRY_MAX"
proof -
  obtain f fs where free: "mq_msg_queue_free m = f # fs" using room by (cases "mq_msg_queue_free m") auto
  have cnt: "length (mq_msg_queue m) < unat (mq_max_msgs m)" using mq_ok_count [OF ok] free by simp
  moreover have "unat (mq_max_msgs m) < 65536" using unsigned_less [of "mq_max_msgs m", where 'a = nat] by simp
  moreover have e: "unat (mq_entry m) = length (mq_msg_queue m)" using ok by (simp add: mq_ok_def)
  ultimately have e1: "unat (mq_entry m + 1) = length (mq_msg_queue m) + 1" "unat (mq_entry m) < 65535"
    by (simp_all add: unat_word_ariths)
  then show "mq_entry m < RT_MQ_ENTRY_MAX" by (simp add: RT_MQ_ENTRY_MAX_def word_less_nat_alt)
  have d: "distinct (mq_msg_queue m @ f # fs)" "set (mq_msg_queue m @ f # fs) = {..<unat (mq_max_msgs m)}"
    "\<forall>b < unat (mq_max_msgs m). length (mq_pool m b) = unat (mq_msg_size m)"
    using ok free by (simp_all add: mq_ok_def)
  have f: "f \<notin> set (mq_msg_queue m)" "f < unat (mq_max_msgs m)" using d by auto
  have len: "length (mq_pool m f) = unat (mq_msg_size m)" using d(3) f(2) by blast
  have other: "map ((mq_pool m)(f := x)) (mq_msg_queue m) = map (mq_pool m) (mq_msg_queue m)" for x
    using f(1) by simp
  have fill: "mq_fill buffer m = m\<lparr>mq_msg_queue_free := fs,
      mq_pool := (mq_pool m)(f := buffer @ drop (length buffer) (mq_pool m f))\<rparr>"
    by (simp add: mq_fill_def free Let_def)
  show "mq_ok (mq_put buffer m)" "mq_ok (mq_put_front buffer m)"
    using d e1 len fits by (auto simp: mq_ok_def mq_put_def mq_put_front_def fill free)
  show "mq_list (mq_put buffer m) = mq_list m @ [padded buffer m]"
    "mq_list (mq_put_front buffer m) = padded buffer m # mq_list m"
    by (simp_all add: mq_list_def mq_put_def mq_put_front_def fill free padded_def other)
qed

definition mq_take :: "rt_messagequeue \<Rightarrow> rt_messagequeue" where
  "mq_take m = m\<lparr>mq_msg_queue := tl (mq_msg_queue m), mq_entry := mq_entry m - 1,
                  mq_msg_queue_free := hd (mq_msg_queue m) # mq_msg_queue_free m\<rparr>"

lemma mq_take:
  assumes ok: "mq_ok m" and some: "mq_list m = x # xs"
  shows "mq_ok (mq_take m)" "mq_list (mq_take m) = xs" "mq_pool m (hd (mq_msg_queue m)) = x"
    and "length x = unat (mq_msg_size m)" "0 < mq_entry m"
proof -
  obtain h hs where q: "mq_msg_queue m = h # hs" "mq_pool m h = x" "map (mq_pool m) hs = xs"
    using some by (auto simp: mq_list_def)
  have e: "unat (mq_entry m) = Suc (length hs)" using ok q by (simp add: mq_ok_def)
  then show e0: "0 < mq_entry m" by (metis unat_0 word_gt_0 nat.distinct(1))
  have e1: "unat (mq_entry m - 1) = length hs" using unat_dec16 [OF e0] e by simp
  show "mq_ok (mq_take m)" using ok q e1 by (auto simp: mq_ok_def mq_take_def)
  show "mq_list (mq_take m) = xs" "mq_pool m (hd (mq_msg_queue m)) = x"
    using q by (simp_all add: mq_list_def mq_take_def)
  have "h < unat (mq_max_msgs m)" using ok q by (auto simp: mq_ok_def)
  then show "length x = unat (mq_msg_size m)" using ok q(2) by (auto simp: mq_ok_def)
qed

lemma mq_free_chain_eq: "mq_free_chain n = rev [0..<n]"
  unfolding mq_free_chain_def by (induction n) simp_all

lemma mq_flush_eq: "mq_flush q free = rev q @ free"
  by (induction q free rule: mq_flush.induct) simp_all

subsection \<open>What the operations do to the queue and the waiting threads\<close>

lemma system_ok_set_mq [simp]: "system_ok (set_mq b f k) = system_ok k"
  by (rule system_ok_cong) (simp_all add: timer_flag_def)

lemma set_mq_set_mq [simp]: "set_mq b g (set_mq b f k) = set_mq b (\<lambda>m. g (f m)) k"
  by (simp add: set_mq_def)

lemma mq_count_and_wake:
  fixes f :: "rt_messagequeue \<Rightarrow> rt_messagequeue"
  assumes ok: "system_ok k" and room: "mq_entry (f (messagequeues k b)) < RT_MQ_ENTRY_MAX"
  defines "k' \<equiv> snd (mq_count_and_wake b (set_mq b f k))"
  shows "fst (mq_count_and_wake b (set_mq b f k)) = RT_EOK" "system_ok k'"
    and "messagequeues k' b = mq_entry_update (\<lambda>e. e + 1) (f (messagequeues k b))"
    and "tq k' (MqRecvQ b) = tl (tq k (MqRecvQ b))" "tq k' (MqSendQ b) = tq k (MqSendQ b)"
    and "tq k (MqRecvQ b) = w # ws \<Longrightarrow> is_runnable (threads k' w) \<and> th_error (threads k' w) = th_error (threads k w)"
proof -
  define j where "j = set_mq b (\<lambda>m. mq_entry_update (\<lambda>e. e + 1) (f m)) k"
  have jok: "system_ok j" and jf: "tq j = tq k" "threads j = threads k"
    "messagequeues j b = mq_entry_update (\<lambda>e. e + 1) (f (messagequeues k b))"
    using ok by (simp_all add: j_def)
  note wk = mqrecvq.wake_first [where b = b, OF jok]
  have eq: "mq_count_and_wake b (set_mq b f k)
      = (RT_EOK, if tq j (MqRecvQ b) \<noteq> [] then rt_schedule (rt_ipc_list_resume (MqRecvQ b) j) else j)"
    using room by (simp add: mq_count_and_wake_def Let_def j_def)
  then have k': "k' = (if tq j (MqRecvQ b) \<noteq> [] then rt_schedule (rt_ipc_list_resume (MqRecvQ b) j) else j)"
    by (simp only: k'_def snd_conv)
  show "fst (mq_count_and_wake b (set_mq b f k)) = RT_EOK" using eq by simp
  show "messagequeues k' b = mq_entry_update (\<lambda>e. e + 1) (f (messagequeues k b))" by (simp add: k' jf)
  show "system_ok k'" "tq k' (MqRecvQ b) = tl (tq k (MqRecvQ b))" "tq k' (MqSendQ b) = tq k (MqSendQ b)"
    "tq k (MqRecvQ b) = w # ws \<Longrightarrow> is_runnable (threads k' w) \<and> th_error (threads k' w) = th_error (threads k w)"
    using wk(1,2) wk(3) [of w ws] wk(4) [of "MqSendQ b"] jf unfolding k' by simp_all
qed

lemma mq_send_put_eq:
  "mq_send_put b buffer k = mq_count_and_wake b
     (set_mq b (\<lambda>m. mq_msg_queue_update (\<lambda>q. q @ [hd (mq_msg_queue_free (messagequeues k b))]) (mq_fill buffer m)) k)"
  by (simp add: mq_send_put_def Let_def)

lemma mq_send_put:
  fixes buffer :: "u8 list"
  assumes ok: "system_ok k" and m: "mq_ok (messagequeues k b)" and room: "mq_msg_queue_free (messagequeues k b) \<noteq> []"
    and fits: "length buffer \<le> unat (mq_msg_size (messagequeues k b))"
  defines "k' \<equiv> snd (mq_send_put b buffer k)"
  shows "fst (mq_send_put b buffer k) = RT_EOK" "system_ok k'" "messagequeues k' b = mq_put buffer (messagequeues k b)"
    and "tq k' (MqRecvQ b) = tl (tq k (MqRecvQ b))" "tq k' (MqSendQ b) = tq k (MqSendQ b)"
    and "tq k (MqRecvQ b) = w # ws \<Longrightarrow> is_runnable (threads k' w) \<and> th_error (threads k' w) = th_error (threads k w)"
proof -
  let ?f = "\<lambda>m. mq_msg_queue_update (\<lambda>q. q @ [hd (mq_msg_queue_free (messagequeues k b))]) (mq_fill buffer m)"
  have "mq_entry (?f (messagequeues k b)) < RT_MQ_ENTRY_MAX"
    using mq_put(5) [OF m room fits] by (simp add: mq_fill_def Let_def)
  note c = mq_count_and_wake [where f = ?f, OF ok this, folded mq_send_put_eq]
  show "fst (mq_send_put b buffer k) = RT_EOK" "system_ok k'" "messagequeues k' b = mq_put buffer (messagequeues k b)"
    "tq k' (MqRecvQ b) = tl (tq k (MqRecvQ b))" "tq k' (MqSendQ b) = tq k (MqSendQ b)"
    "tq k (MqRecvQ b) = w # ws \<Longrightarrow> is_runnable (threads k' w) \<and> th_error (threads k' w) = th_error (threads k w)"
    using c by (simp_all add: k'_def mq_put_def)
qed
lemma mq_urgent_front:
  fixes buffer :: "u8 list"
  assumes ok: "system_ok k" and m: "mq_ok (messagequeues k b)" and room: "mq_msg_queue_free (messagequeues k b) \<noteq> []"
    and fits: "length buffer \<le> unat (mq_msg_size (messagequeues k b))"
  defines "k' \<equiv> snd (rt_mq_urgent b buffer k)"
  shows "fst (rt_mq_urgent b buffer k) = RT_EOK" "system_ok k'" "messagequeues k' b = mq_put_front buffer (messagequeues k b)"
    and "tq k' (MqRecvQ b) = tl (tq k (MqRecvQ b))"
    and "tq k (MqRecvQ b) = w # ws \<Longrightarrow> is_runnable (threads k' w) \<and> th_error (threads k' w) = th_error (threads k w)"
proof -
  let ?f = "\<lambda>m. mq_msg_queue_update (\<lambda>q. hd (mq_msg_queue_free (messagequeues k b)) # q) (mq_fill buffer m)"
  have eq: "rt_mq_urgent b buffer k = mq_count_and_wake b (set_mq b ?f k)"
    using room fits by (simp add: rt_mq_urgent_def Let_def)
  have "mq_entry (?f (messagequeues k b)) < RT_MQ_ENTRY_MAX"
    using mq_put(5) [OF m room fits] by (simp add: mq_fill_def Let_def)
  note c = mq_count_and_wake [where f = ?f, OF ok this, folded eq]
  show "fst (rt_mq_urgent b buffer k) = RT_EOK" "system_ok k'" "messagequeues k' b = mq_put_front buffer (messagequeues k b)"
    "tq k' (MqRecvQ b) = tl (tq k (MqRecvQ b))"
    "tq k (MqRecvQ b) = w # ws \<Longrightarrow> is_runnable (threads k' w) \<and> th_error (threads k' w) = th_error (threads k w)"
    using c by (simp_all add: k'_def mq_put_front_def)
qed

lemma mq_recv_get:
  fixes size0 :: nat
  assumes ok: "system_ok k" and m: "mq_ok (messagequeues k b)" and some: "mq_list (messagequeues k b) = x # xs"
  defines "k' \<equiv> snd (mq_recv_get b size0 k)"
  shows "fst (mq_recv_get b size0 k) = (RT_EOK, Some (take size0 x))" "system_ok k'"
    and "messagequeues k' b = mq_take (messagequeues k b)"
    and "tq k' (MqSendQ b) = tl (tq k (MqSendQ b))" "tq k' (MqRecvQ b) = tq k (MqRecvQ b)"
    and "tq k (MqSendQ b) = w # ws \<Longrightarrow> is_runnable (threads k' w) \<and> th_error (threads k' w) = th_error (threads k w)"
proof -
  note t = mq_take [OF m some]
  define j where "j = set_mq b mq_take k"
  have jok: "system_ok j" and jf: "tq j = tq k" "threads j = threads k"
    "messagequeues j b = mq_take (messagequeues k b)"
    using ok by (simp_all add: j_def)
  have jeq: "set_mq b (mq_msg_queue_free_update (\<lambda>free. hd (mq_msg_queue (messagequeues k b)) # free))
      (set_mq b (mq_entry_update (\<lambda>e. e - 1)) (set_mq b (mq_msg_queue_update tl) k)) = j"
    by (cases "messagequeues k b") (simp add: j_def set_mq_def mq_take_def)
  have "mq_recv_get b size0 k = ((RT_EOK, Some (take size0 x)),
      if tq j (MqSendQ b) \<noteq> [] then rt_schedule (rt_ipc_list_resume (MqSendQ b) j) else j)"
    using t(3,4,5) by (simp add: mq_recv_get_def Let_def jeq jf del: set_mq_set_mq)
  then have eq: "fst (mq_recv_get b size0 k) = (RT_EOK, Some (take size0 x))"
    and k': "k' = (if tq j (MqSendQ b) \<noteq> [] then rt_schedule (rt_ipc_list_resume (MqSendQ b) j) else j)"
    by (simp_all only: k'_def snd_conv fst_conv)
  note wk = mqsendq.wake_first [where b = b, OF jok]
  show "fst (mq_recv_get b size0 k) = (RT_EOK, Some (take size0 x))" by (rule eq)
  show "messagequeues k' b = mq_take (messagequeues k b)" by (simp add: k' jf)
  show "system_ok k'" "tq k' (MqSendQ b) = tl (tq k (MqSendQ b))" "tq k' (MqRecvQ b) = tq k (MqRecvQ b)"
    "tq k (MqSendQ b) = w # ws \<Longrightarrow> is_runnable (threads k' w) \<and> th_error (threads k' w) = th_error (threads k w)"
    using wk(1,2) wk(3) [of w ws] wk(4) [of "MqRecvQ b"] jf unfolding k' by simp_all
qed

lemma mq_send_now:
  assumes "length buffer \<le> unat (mq_msg_size (messagequeues k b))"
  shows "mq_msg_queue_free (messagequeues k b) \<noteq> [] \<Longrightarrow>
     rt_mq_send_wait b buffer timeout k = Some (outcome_of (mq_send_put b buffer k))"
    and "mq_msg_queue_free (messagequeues k b) = [] \<Longrightarrow> rt_mq_send_wait b buffer 0 k = Some (Returned (- RT_EFULL) k)"
  using assms by (simp_all add: rt_mq_send_wait_def) (subst mq_send_loop.simps, simp)

lemma mq_recv_now:
  "mq_entry (messagequeues k b) \<noteq> 0 \<Longrightarrow> rt_mq_recv b size0 timeout k = Some (outcome_of (mq_recv_get b size0 k))"
  "mq_entry (messagequeues k b) = 0 \<Longrightarrow> rt_mq_recv b size0 0 k = Some (Returned (- RT_ETIMEOUT, None) k)"
  by (simp_all add: rt_mq_recv_def) (subst mq_recv_loop.simps, simp)

lemma mq_send_waits:
  assumes ok: "system_ok k" and cur: "rt_current_thread k = Some t"
    and run: "th_state (threads k t) = RT_THREAD_RUNNING"
    and flag: "flag = RT_IPC_FLAG_FIFO \<or> flag = RT_IPC_FLAG_PRIO" "obj_flag (objects k (OMessageQueue b)) = flag"
    and full: "mq_msg_queue_free (messagequeues k b) = []" and fits: "length buffer \<le> unat (mq_msg_size (messagequeues k b))"
    and time: "timeout \<noteq> 0" "timeout \<noteq> 0x7fffffff"
    and free: "rt_scheduler_lock_nest k = 0" "rt_interrupt_nest k = 0" and other: "u \<in> set (tq k (ReadyQ p))"
  shows "\<exists>k'. rt_mq_send_wait b buffer timeout k = Some (Blocked k') \<and> system_ok k' \<and> rt_current_thread k' \<noteq> Some t
    \<and> messagequeues k' = messagequeues k
    \<and> tq k' (MqSendQ b) = (if flag = RT_IPC_FLAG_FIFO then tq k (MqSendQ b) @ [t]
                         else prio_insert (threads k) t (tq k (MqSendQ b)))
    \<and> th_error (threads k' t) = RT_EOK
    \<and> (0 < sint timeout \<longrightarrow> ticks_left k' (ThreadTimer t) = unat timeout)"
proof -
  note w = mqsendq.wait_step [where b = b, OF ok cur run flag(1) time(2) free other]
  have "rt_mq_send_wait b buffer timeout k = mq_send_loop t b buffer timeout k"
    using time fits cur by (simp add: rt_mq_send_wait_def rt_thread_self_def)
  also have "\<dots> = Some (Blocked (rt_schedule (wait_on (MqSendQ b) t flag timeout
      (set_thread t (th_error_update (\<lambda>_. RT_EOK)) k))))"
    using full time cur w(2,3) flag(2) by (subst mq_send_loop.simps) (simp add: Let_def)
  finally show ?thesis using w(1,2,4,5,7,9) by blast
qed

lemma mq_recv_waits:
  assumes ok: "system_ok k" and cur: "rt_current_thread k = Some t"
    and run: "th_state (threads k t) = RT_THREAD_RUNNING"
    and flag: "flag = RT_IPC_FLAG_FIFO \<or> flag = RT_IPC_FLAG_PRIO" "obj_flag (objects k (OMessageQueue b)) = flag"
    and empty: "mq_entry (messagequeues k b) = 0"
    and time: "timeout \<noteq> 0" "timeout \<noteq> 0x7fffffff"
    and free: "rt_scheduler_lock_nest k = 0" "rt_interrupt_nest k = 0" and other: "u \<in> set (tq k (ReadyQ p))"
  shows "\<exists>k'. rt_mq_recv b size0 timeout k = Some (Blocked k') \<and> system_ok k' \<and> rt_current_thread k' \<noteq> Some t
    \<and> messagequeues k' = messagequeues k
    \<and> tq k' (MqRecvQ b) = (if flag = RT_IPC_FLAG_FIFO then tq k (MqRecvQ b) @ [t]
                         else prio_insert (threads k) t (tq k (MqRecvQ b)))
    \<and> th_error (threads k' t) = RT_EOK
    \<and> (0 < sint timeout \<longrightarrow> ticks_left k' (ThreadTimer t) = unat timeout)"
proof -
  note w = mqrecvq.wait_step [where b = b, OF ok cur run flag(1) time(2) free other]
  have "rt_mq_recv b size0 timeout k = mq_recv_loop t b size0 timeout k"
    using time cur by (simp add: rt_mq_recv_def rt_thread_self_def)
  also have "\<dots> = Some (Blocked (rt_schedule (wait_on (MqRecvQ b) t flag timeout
      (set_thread t (th_error_update (\<lambda>_. RT_EOK)) k))))"
    using empty time cur w(2,3) flag(2) by (subst mq_recv_loop.simps) (simp add: Let_def)
  finally show ?thesis using w(1,2,4,5,7,9) by blast
qed

text \<open>A new queue is empty, with all its blocks free.\<close>

lemma mq_init_ok:
  assumes "ucast (RT_ALIGN_4 msg_size) = (size16 :: u16)"
    and "ucast (pool_size div (ucast size16 + mq_header_size)) = (max16 :: u16)"
    and "\<forall>b < unat max16. length (pool b) = unat size16"
  shows "mq_ok (messagequeues (snd (rt_mq_init b name pool msg_size pool_size flag k)) b)"
    "mq_list (messagequeues (snd (rt_mq_init b name pool msg_size pool_size flag k)) b) = []"
  using assms by (simp_all add: rt_mq_init_def Let_def mq_ok_def mq_list_def mq_free_chain_eq atLeast0LessThan)

end
