(* ===== verification/Ipc_Theorems.thy ===== *)
theory Ipc_Theorems
  imports Kernel_Theorems Mutex Event MessageQueue
begin

section \<open>What the synchronisation objects guarantee\<close>

text \<open>The example system, with thread 3 in another wait list.\<close>

definition waiting_at :: "tqueue \<Rightarrow> kernel" where
  "waiting_at q = sample\<lparr>tq := (\<lambda>_. [])(ReadyQ 31 := [0], ReadyQ 5 := [2], q := [3])\<rparr>"

lemma waiting_at_fields [simp]:
  "threads (waiting_at q) = threads sample" "tq (waiting_at q) = (\<lambda>_. [])(ReadyQ 31 := [0], ReadyQ 5 := [2], q := [3])"
  "rt_current_thread (waiting_at q) = Some 1" "rt_scheduler_lock_nest (waiting_at q) = 0"
  "rt_interrupt_nest (waiting_at q) = 0" "rt_timer_list (waiting_at q) = [ThreadTimer 4]"
  "timer_pending (waiting_at q) = []" "rt_tick (waiting_at q) = 0" "timers (waiting_at q) = timers sample"
  "objects (waiting_at q) = objects sample" "mutexes (waiting_at q) = mutexes sample"
  "events (waiting_at q) = events sample" "mailboxes (waiting_at q) = mailboxes sample"
  "rt_thread_ready_priority_group (waiting_at q) = rt_thread_ready_priority_group sample"
  by (simp_all add: waiting_at_def)

lemma system_ok_waiting_at:
  assumes q: "\<And>th. queue_fits q th \<longleftrightarrow> th_state th = RT_THREAD_SUSPEND"
  shows "system_ok (waiting_at q)"
proof -
  have nr: "q \<noteq> ReadyQ p" for p
    using q [of "zero_thread\<lparr>th_stat := RT_THREAD_SUSPEND\<rparr>"] by auto
  have "kinv_but {} (waiting_at q)"
    unfolding kinv_but_def using sample_group nr q
    by (auto simp: thread_ok_def is_active_def)
  then have kinv: "kinv (waiting_at q)" by (simp add: kinv_def)
  show ?thesis
    by (rule system_ok_threads [OF system_ok_sample kinv]) (simp_all add: timer_flag_def)
qed

text \<open>
  C12. A thread that takes a mutex held by another one waits, leaves the mutex with its owner, and
  the owner runs at the more urgent of the two priorities.
\<close>

theorem mutex_take_inherits_priority:
  assumes ok: "system_ok k" and m: "mutex_ok m k" and cur: "rt_current_thread k = Some t"
    and run: "th_state (threads k t) = RT_THREAD_RUNNING"
    and own: "mtx_owner (mutexes k m) = Some s" "s \<noteq> t"
    and flag: "obj_flag (objects k (OMutex m)) = RT_IPC_FLAG_PRIO"
    and time: "time \<noteq> 0" "time \<noteq> 0x7fffffff"
    and free: "rt_scheduler_lock_nest k = 0" "rt_interrupt_nest k = 0" and other: "u \<in> set (tq k (ReadyQ p))"
  shows "\<exists>k'. rt_mutex_take m time k = Blocked k' \<and> system_ok k' \<and> mutex_ok m k'
    \<and> rt_current_thread k' \<noteq> Some t \<and> mutexes k' = mutexes k
    \<and> tq k' (MutexQ m) = prio_insert (threads k) t (tq k (MutexQ m))
    \<and> th_state (threads k' t) = RT_THREAD_SUSPEND \<and> th_error (threads k' t) = RT_EOK
    \<and> th_current_priority (threads k' s) =
        min (th_current_priority (threads k s)) (th_current_priority (threads k t))
    \<and> (0 < sint time \<longrightarrow> ticks_left k' (ThreadTimer t) = unat time)"
  using assms by (rule mutex_take_waits)

definition sample_mutex :: "nat \<Rightarrow> u8 \<Rightarrow> u8 \<Rightarrow> kernel" where
  "sample_mutex s original hold = set_object (OMutex 0) (obj_flag_update (\<lambda>_. RT_IPC_FLAG_PRIO))
     (set_mutex 0 (\<lambda>_. \<lparr>mtx_value = 0, mtx_original_priority = original, mtx_hold = hold, mtx_owner = Some s\<rparr>)
       (waiting_at (MutexQ 0)))"

lemma sample_mutex_ok:
  assumes "unat original < 32" "hold \<noteq> 0" "s \<noteq> 3"
  shows "system_ok (sample_mutex s original hold)" "mutex_ok 0 (sample_mutex s original hold)"
proof -
  have "system_ok (waiting_at (MutexQ 0))" by (rule system_ok_waiting_at) simp
  moreover have "system_ok (sample_mutex s original hold) =
    system_ok (set_mutex 0 (\<lambda>_. \<lparr>mtx_value = 0, mtx_original_priority = original, mtx_hold = hold, mtx_owner = Some s\<rparr>)
       (waiting_at (MutexQ 0)))"
    unfolding sample_mutex_def by (rule system_ok_cong) (simp_all add: timer_flag_def)
  ultimately show "system_ok (sample_mutex s original hold)" by simp
  show "mutex_ok 0 (sample_mutex s original hold)"
    using assms by (simp add: mutex_ok_def sample_mutex_def RT_THREAD_PRIORITY_MAX_def)
qed

theorem mutex_take_inherits_priority_witness:
  "\<exists>k'. rt_mutex_take 0 50 (sample_mutex 0 31 1) = Blocked k' \<and> th_current_priority (threads k' 0) = 5
     \<and> tq k' (MutexQ 0) = [1, 3] \<and> ticks_left k' (ThreadTimer 1) = 50"
  using mutex_take_inherits_priority [OF sample_mutex_ok [of 31 1 0], of 1 0 50 2 5]
  by (auto simp: sample_mutex_def min_def)

text \<open>
  C13. The outermost release gives the owner its recorded priority back; the first waiting thread
  becomes the owner and is runnable, or the mutex is free when none waits.
\<close>

theorem mutex_release_hands_over:
  assumes ok: "system_ok k" and m: "mutex_ok m k" and cur: "rt_current_thread k = Some t"
    and own: "mtx_owner (mutexes k m) = Some t" and h: "mtx_hold (mutexes k m) = 1"
  shows "fst (rt_mutex_release m k) = RT_EOK \<and> system_ok (snd (rt_mutex_release m k))
    \<and> mutex_ok m (snd (rt_mutex_release m k))
    \<and> th_current_priority (threads (snd (rt_mutex_release m k)) t) = mtx_original_priority (mutexes k m)
    \<and> (case tq k (MutexQ m) of
         [] \<Rightarrow> mutexes (snd (rt_mutex_release m k)) m = free_mutex
       | w # ws \<Rightarrow> mutexes (snd (rt_mutex_release m k)) m = \<lparr>mtx_value = 0,
             mtx_original_priority = th_current_priority (threads k w), mtx_hold = 1, mtx_owner = Some w\<rparr>
           \<and> tq (snd (rt_mutex_release m k)) (MutexQ m) = ws
           \<and> is_runnable (threads (snd (rt_mutex_release m k)) w))"
  using mutex_release_outer [OF ok m cur own h] by (cases "tq k (MutexQ m)") simp_all

theorem mutex_release_hands_over_witness:
  "mutexes (snd (rt_mutex_release 0 (sample_mutex 1 20 1))) 0 =
     \<lparr>mtx_value = 0, mtx_original_priority = 8, mtx_hold = 1, mtx_owner = Some 3\<rparr>
   \<and> th_current_priority (threads (snd (rt_mutex_release 0 (sample_mutex 1 20 1))) 1) = 20
   \<and> is_runnable (threads (snd (rt_mutex_release 0 (sample_mutex 1 20 1))) 3)"
  using mutex_release_hands_over [OF sample_mutex_ok [of 20 1 1], of 1] by (simp add: sample_mutex_def)

text \<open>
  A thread that already owns the mutex takes it without waiting, up to 255 times, and each release
  undoes one take: after take and release the mutex is as before.
\<close>

theorem mutex_recursion_balances:
  assumes ok: "system_ok k" and m: "mutex_ok m k" and cur: "rt_current_thread k = Some t"
    and own: "mtx_owner (mutexes k m) = Some t"
  shows "\<exists>k'. rt_mutex_take m time k =
        Returned (if mtx_hold (mutexes k m) = 0xff then - RT_EFULL else RT_EOK) k'
    \<and> mutex_ok m k' \<and> (mtx_hold (mutexes k m) \<noteq> 0xff \<longrightarrow>
          fst (rt_mutex_release m k') = RT_EOK
        \<and> mutexes (snd (rt_mutex_release m k')) m = mutexes k m)"
proof -
  obtain k' where k': "rt_mutex_take m time k =
        Returned (if mtx_hold (mutexes k m) = 0xff then - RT_EFULL else RT_EOK) k'"
    "mutex_ok m k'" "mutexes k' m = (mutexes k m)\<lparr>mtx_hold :=
         (if mtx_hold (mutexes k m) = 0xff then 0xff else mtx_hold (mutexes k m) + 1)\<rparr>"
    "rt_current_thread k' = Some t"
    using mutex_take_again [OF assms] by blast
  have "mtx_hold (mutexes k m) \<noteq> 0" using mutex_owned [OF m own] by simp
  then have "mtx_hold (mutexes k m) + 1 \<noteq> 1" by simp
  then show ?thesis
    using k' own mutex_release_inner [OF k'(4), of m] by (cases "mtx_hold (mutexes k m) = 0xff") simp_all
qed

theorem mutex_recursion_balances_witness:
  "\<exists>k'. rt_mutex_take 0 (-1) (sample_mutex 1 5 3) = Returned RT_EOK k'
     \<and> mutexes (snd (rt_mutex_release 0 k')) 0 = mutexes (sample_mutex 1 5 3) 0"
  using mutex_recursion_balances [OF sample_mutex_ok [of 5 3 1], of 1 "-1"] by (auto simp: sample_mutex_def)

text \<open>
  Priority inheritance with two mutexes: a thread raised through the first mutex that takes a
  second one, releases the first and then the second, holds no mutex and still runs at the raised
  priority, because the second mutex recorded that one as the priority to give back.
\<close>

theorem nested_mutexes_leave_priority_raised:
  assumes ok: "system_ok k" and ma: "mutex_ok a k" and mb: "mutex_ok b k" and ab: "a \<noteq> b"
    and cur: "rt_current_thread k = Some t" and run: "th_state (threads k t) = RT_THREAD_RUNNING"
    and held: "mtx_owner (mutexes k a) = Some t" "mtx_hold (mutexes k a) = 1" "tq k (MutexQ a) = []"
    and free: "mtx_owner (mutexes k b) = None"
    and raised: "th_current_priority (threads k t) < mtx_original_priority (mutexes k a)"
  shows "\<exists>k1. rt_mutex_take b time k = Returned RT_EOK k1
    \<and> (let k2 = snd (rt_mutex_release a k1); k3 = snd (rt_mutex_release b k2)
       in mutexes k3 a = free_mutex \<and> mutexes k3 b = free_mutex
        \<and> th_current_priority (threads k2 t) = mtx_original_priority (mutexes k a)
        \<and> th_current_priority (threads k3 t) = th_current_priority (threads k t))"
proof -
  obtain k1 where k1: "rt_mutex_take b time k = Returned RT_EOK k1" "system_ok k1" "mutex_ok b k1"
    "mutexes k1 b = \<lparr>mtx_value = 0, mtx_original_priority = th_current_priority (threads k t),
                      mtx_hold = 1, mtx_owner = Some t\<rparr>"
    "tq k1 = tq k" "\<forall>m'. m' \<noteq> b \<longrightarrow> mutexes k1 m' = mutexes k m'" "rt_current_thread k1 = Some t"
    using mutex_take_free [OF ok mb cur run free] by blast
  have qb: "tq k (MutexQ b) = []" using mutex_free [OF mb] free by blast
  have a1: "mutexes k1 a = mutexes k a" "tq k1 (MutexQ a) = []" using k1 ab held by simp_all
  have ma1: "mutex_ok a k1" using ma mutex_ok_cong [of k1 a k] a1 k1(5) by simp
  have o1: "mtx_owner (mutexes k1 a) = Some t" "mtx_hold (mutexes k1 a) = 1" using a1 held by simp_all
  note r1 = mutex_release_outer [OF k1(2) ma1 k1(7) o1]
  let ?k2 = "snd (rt_mutex_release a k1)"
  have b2: "mutexes ?k2 b = mutexes k1 b" "tq ?k2 (MutexQ b) = []" "rt_current_thread ?k2 = Some t"
    using r1(7) [of b] r1(8) [of "MutexQ b"] r1(5) a1(2) ab k1(5) qb by simp_all
  have mb2: "mutex_ok b ?k2" using k1(3) mutex_ok_cong [of ?k2 b k1] b2 k1(5) qb by simp
  have o2: "mtx_owner (mutexes ?k2 b) = Some t" "mtx_hold (mutexes ?k2 b) = 1" using b2(1) k1(4) by simp_all
  note r2 = mutex_release_outer [OF r1(2) mb2 b2(3) o2]
  show ?thesis
    using k1(1,4) r1(4,5) r2(4,5) r2(7) [of a] a1 b2(1,2) ab by (auto simp: Let_def)
qed

definition sample_nested :: kernel where
  "sample_nested = set_mutex 1 (\<lambda>_. free_mutex) (set_mutex 0 (\<lambda>_. \<lparr>mtx_value = 0,
     mtx_original_priority = 20, mtx_hold = 1, mtx_owner = Some 1\<rparr>) sample)"

theorem nested_mutexes_leave_priority_raised_witness:
  "\<exists>k1. rt_mutex_take 1 0 sample_nested = Returned RT_EOK k1
     \<and> th_current_priority (threads (snd (rt_mutex_release 1 (snd (rt_mutex_release 0 k1)))) 1) = 5"
proof -
  have "system_ok sample_nested" by (simp add: sample_nested_def system_ok_sample)
  moreover have "mutex_ok 0 sample_nested" "mutex_ok 1 sample_nested"
    by (simp_all add: mutex_ok_def sample_nested_def RT_THREAD_PRIORITY_MAX_def)
  ultimately show ?thesis
    using nested_mutexes_leave_priority_raised [of sample_nested 0 1 1]
    by (auto simp: sample_nested_def free_mutex_def Let_def)
qed

text \<open>
  C14. Sending flags is the abstract pass over the waiting threads: the threads it satisfies become
  runnable in their order, the others keep their places, the flags that are left are those the
  pass leaves, and no thread that stays could go on with them.
\<close>

theorem event_send_wakes_exactly_satisfied:
  assumes "system_ok k" "set0 \<noteq> 0" "\<forall>t \<in> set (tq k (EventQ e)). event_option_ok (th_event_info (threads k t))"
  shows "fst (rt_event_send e set0 k) = RT_EOK \<and> system_ok (snd (rt_event_send e set0 k))
    \<and> event_ok e (snd (rt_event_send e set0 k))
    \<and> (let (left0, woken, stay) = event_sweep (threads k) (evt_set (events k e) OR set0) (tq k (EventQ e));
           k' = snd (rt_event_send e set0 k)
       in tq k' (EventQ e) = stay \<and> evt_set (events k' e) = left0
        \<and> (\<forall>t \<in> set woken. is_runnable (threads k' t) \<and> th_error (threads k' t) = th_error (threads k t)))"
  using event_send_sweep [OF assms] by (simp add: Let_def split_beta)

definition sample_event :: "u32 \<Rightarrow> u8 \<Rightarrow> kernel" where
  "sample_event want opt = set_thread 3 (\<lambda>th. th\<lparr>th_event_set := want, th_event_info := opt\<rparr>)
     (set_event 0 (\<lambda>_. \<lparr>evt_set = 4\<rparr>) (waiting_at (EventQ 0)))"

lemma sample_event_ok: "system_ok (sample_event want opt)"
proof -
  have "system_ok (waiting_at (EventQ 0))" by (rule system_ok_waiting_at) simp
  then show ?thesis unfolding sample_event_def by (intro system_ok_set_other) simp_all
qed

lemma sample_event_fields [simp]:
  "tq (sample_event want opt) = (\<lambda>_. [])(ReadyQ 31 := [0], ReadyQ 5 := [2], EventQ 0 := [3])"
  "rt_current_thread (sample_event want opt) = Some 1" "rt_scheduler_lock_nest (sample_event want opt) = 0"
  "rt_interrupt_nest (sample_event want opt) = 0" "evt_set (events (sample_event want opt) 0) = 4"
  "th_event_set (threads (sample_event want opt) 3) = want"
  "th_event_info (threads (sample_event want opt) 3) = opt"
  "th_state (threads (sample_event want opt) (Suc 0)) = RT_THREAD_RUNNING"
  "obj_flag (objects (sample_event want opt) (OEvent 0)) = 0"
  by (simp_all add: sample_event_def) (simp_all add: waiting_at_def sample_def reset_kernel_def)

theorem event_send_wakes_exactly_satisfied_witness:
  "evt_set (events (snd (rt_event_send 0 3 (sample_event 5 5))) 0) = 2
   \<and> tq (snd (rt_event_send 0 3 (sample_event 5 5))) (EventQ 0) = []
   \<and> is_runnable (threads (snd (rt_event_send 0 3 (sample_event 5 5))) 3)"
  using event_send_wakes_exactly_satisfied [OF sample_event_ok [of 5 5], of 3 0]
  by (simp add: event_option_ok_def event_match_def Let_def)

text \<open>
  Receiving flags that are all there returns them at once and takes them away under the clear
  option; otherwise the thread waits in the place its event's flag says, and in both cases no
  waiting thread is left that could go on.
\<close>

theorem event_recv_returns_or_waits:
  assumes ok: "system_ok k" and e: "event_ok e k" and cur: "rt_current_thread k = Some t"
    and run: "th_state (threads k t) = RT_THREAD_RUNNING"
    and flag: "flag = RT_IPC_FLAG_FIFO \<or> flag = RT_IPC_FLAG_PRIO" "obj_flag (objects k (OEvent e)) = flag"
    and s0: "set0 \<noteq> 0" "event_option_ok opt"
    and time: "timeout \<noteq> 0" "timeout \<noteq> 0x7fffffff"
    and free: "rt_scheduler_lock_nest k = 0" "rt_interrupt_nest k = 0" and other: "u \<in> set (tq k (ReadyQ p))"
  shows "if event_match opt set0 (evt_set (events k e))
    then (\<exists>k'. rt_event_recv e set0 opt timeout k =
        Returned (RT_EOK, Some (evt_set (events k e) AND set0)) k' \<and> system_ok k' \<and> event_ok e k'
      \<and> evt_set (events k' e) = (if opt AND RT_EVENT_FLAG_CLEAR \<noteq> 0 then evt_set (events k e) AND NOT set0
                               else evt_set (events k e)))
    else (\<exists>k'. rt_event_recv e set0 opt timeout k = Blocked k' \<and> system_ok k' \<and> event_ok e k'
      \<and> rt_current_thread k' \<noteq> Some t \<and> evt_set (events k' e) = evt_set (events k e)
      \<and> tq k' (EventQ e) = (if flag = RT_IPC_FLAG_FIFO then tq k (EventQ e) @ [t]
                          else prio_insert (threads k) t (tq k (EventQ e))))"
proof (cases "event_match opt set0 (evt_set (events k e))")
  case True
  then show ?thesis using event_recv_now [OF ok e cur run s0(1) True] by (simp only: if_True) blast
next
  case False
  show ?thesis
    using event_recv_waits [OF ok e cur run flag s0 False time free other] False by (simp only: if_False) blast
qed

theorem event_recv_returns_or_waits_witness:
  "(\<exists>k'. rt_event_recv 0 12 6 20 (sample_event 1 1) = Returned (0, Some 4) k' \<and> evt_set (events k' 0) = 0)
   \<and> (\<exists>k'. rt_event_recv 0 12 1 20 (sample_event 1 1) = Blocked k' \<and> tq k' (EventQ 0) = [3, 1])"
proof -
  have e: "event_ok 0 (sample_event 1 1)"
    by (simp add: event_ok_def event_option_ok_def event_match_def)
  note r = event_recv_returns_or_waits [OF sample_event_ok e, of 1 0 12 _ 20 2 5]
  show ?thesis
    using r [of 6] r [of 1] by (auto simp: event_option_ok_def event_match_def)
qed

text \<open>
  C15. The mailbox is a bounded first-in first-out queue: a send with room appends, an urgent send
  puts its word in front, both wake the first receiver that waits, and with no room both return
  \<open>-RT_EFULL\<close> and change nothing.
\<close>

theorem mailbox_send_refines_queue:
  assumes ok: "system_ok k" and m: "mb_ok (mailboxes k b)"
  shows "if length (mb_list (mailboxes k b)) < unat (mb_size (mailboxes k b))
    then (\<exists>k'. rt_mb_send b v k = Some (Returned RT_EOK k') \<and> system_ok k' \<and> mb_ok (mailboxes k' b)
        \<and> mb_list (mailboxes k' b) = mb_list (mailboxes k b) @ [v] \<and> tq k' (MbRecvQ b) = tl (tq k (MbRecvQ b))
        \<and> (tq k (MbRecvQ b) \<noteq> [] \<longrightarrow> is_runnable (threads k' (hd (tq k (MbRecvQ b))))))
      \<and> (\<exists>k'. rt_mb_urgent b v k = (RT_EOK, k') \<and> system_ok k' \<and> mb_ok (mailboxes k' b)
        \<and> mb_list (mailboxes k' b) = v # mb_list (mailboxes k b) \<and> tq k' (MbRecvQ b) = tl (tq k (MbRecvQ b))
        \<and> (tq k (MbRecvQ b) \<noteq> [] \<longrightarrow> is_runnable (threads k' (hd (tq k (MbRecvQ b))))))
    else rt_mb_send b v k = Some (Returned (- RT_EFULL) k) \<and> rt_mb_urgent b v k = (- RT_EFULL, k)"
proof -
  have len: "length (mb_list (mailboxes k b)) < unat (mb_size (mailboxes k b))
      \<longleftrightarrow> mb_entry (mailboxes k b) < mb_size (mailboxes k b)"
    by (simp add: mb_list_def word_less_nat_alt)
  show ?thesis
  proof (cases "mb_entry (mailboxes k b) < mb_size (mailboxes k b)")
    case True
    note s = mb_send_put [OF ok m True, where v = v] and u = mb_urgent_front [OF ok m True, where v = v]
    have "rt_mb_send b v k = Some (Returned RT_EOK (snd (mb_send_put b v k)))"
      using mb_send_now(1) [of k b v 0] less_imp_neq [OF True] s(1) by (simp add: rt_mb_send_def outcome_of_def)
    moreover have "is_runnable (threads (snd (mb_send_put b v k)) (hd (tq k (MbRecvQ b))))"
      "is_runnable (threads (snd (rt_mb_urgent b v k)) (hd (tq k (MbRecvQ b))))" if "tq k (MbRecvQ b) \<noteq> []"
      using that s(8) u(6) list.collapse [OF that, symmetric] by blast+
    moreover have "rt_mb_urgent b v k = (RT_EOK, k') \<longleftrightarrow> k' = snd (rt_mb_urgent b v k)" for k'
      using u(1) by (auto simp: prod_eq_iff)
    ultimately show ?thesis unfolding len using True s(2-6) u(2-5) by simp
  next
    case False
    then have "mb_entry (mailboxes k b) = mb_size (mailboxes k b)" using mb_ok_entry [OF m] by auto
    then show ?thesis unfolding len using mb_send_now(2) by (simp add: rt_mb_send_def rt_mb_urgent_def)
  qed
qed

definition sample_mailbox :: "u32 list \<Rightarrow> u16 \<Rightarrow> u16 \<Rightarrow> u16 \<Rightarrow> u16 \<Rightarrow> tqueue \<Rightarrow> kernel" where
  "sample_mailbox pool size0 entry inoff outoff q =
     set_mailbox 0 (\<lambda>_. \<lparr>mb_msg_pool = pool, mb_size = size0, mb_entry = entry, mb_in_offset = inoff,
                          mb_out_offset = outoff\<rparr>) (waiting_at q)"

lemma sample_mailbox_fields [simp]:
  "tq (sample_mailbox pool size0 entry inoff outoff q) = (\<lambda>_. [])(ReadyQ 31 := [0], ReadyQ 5 := [2], q := [3])"
  "mailboxes (sample_mailbox pool size0 entry inoff outoff q) 0 =
     \<lparr>mb_msg_pool = pool, mb_size = size0, mb_entry = entry, mb_in_offset = inoff, mb_out_offset = outoff\<rparr>"
  "rt_current_thread (sample_mailbox pool size0 entry inoff outoff q) = Some 1"
  "rt_scheduler_lock_nest (sample_mailbox pool size0 entry inoff outoff q) = 0"
  "rt_interrupt_nest (sample_mailbox pool size0 entry inoff outoff q) = 0"
  "threads (sample_mailbox pool size0 entry inoff outoff q) = threads sample"
  "obj_flag (objects (sample_mailbox pool size0 entry inoff outoff q) (OMailbox 0)) = 0"
  by (simp_all add: sample_mailbox_def) (simp add: waiting_at_def sample_def reset_kernel_def)

lemma sample_mailbox_ok:
  "(\<And>th. queue_fits q th \<longleftrightarrow> th_state th = RT_THREAD_SUSPEND) \<Longrightarrow> system_ok (sample_mailbox pool size0 entry inoff outoff q)"
  by (simp add: sample_mailbox_def system_ok_waiting_at)

theorem mailbox_send_refines_queue_witness:
  "\<exists>k'. rt_mb_send 0 9 (sample_mailbox [7, 8] 2 1 0 1 (MbRecvQ 0)) = Some (Returned 0 k')
     \<and> mb_list (mailboxes k' 0) = [8, 9] \<and> is_runnable (threads k' 3)"
proof -
  have "system_ok (sample_mailbox [7, 8] 2 1 0 1 (MbRecvQ 0))" by (rule sample_mailbox_ok) simp
  moreover have "mb_ok (mailboxes (sample_mailbox [7, 8] 2 1 0 1 (MbRecvQ 0)) 0)" by (simp add: mb_ok_def)
  ultimately show ?thesis
    using mailbox_send_refines_queue [of "sample_mailbox [7, 8] 2 1 0 1 (MbRecvQ 0)" 0 9]
    by (auto simp: mb_list_def ring_list_def)
qed

text \<open>
  C16. Receiving takes the oldest word and wakes the first sender that waits for room. On an empty
  mailbox the receiver returns \<open>-RT_ETIMEOUT\<close> at once without a time to wait, and otherwise gives
  the CPU away and stands in the receivers' list.
\<close>

theorem mailbox_recv_refines_queue:
  assumes ok: "system_ok k" and m: "mb_ok (mailboxes k b)" and cur: "rt_current_thread k = Some t"
    and run: "th_state (threads k t) = RT_THREAD_RUNNING"
    and flag: "flag = RT_IPC_FLAG_FIFO \<or> flag = RT_IPC_FLAG_PRIO" "obj_flag (objects k (OMailbox b)) = flag"
    and time: "timeout \<noteq> 0x7fffffff"
    and free: "rt_scheduler_lock_nest k = 0" "rt_interrupt_nest k = 0" and other: "u \<in> set (tq k (ReadyQ p))"
  shows "case mb_list (mailboxes k b) of
      x # xs \<Rightarrow> \<exists>k'. rt_mb_recv b timeout k = Some (Returned (RT_EOK, Some x) k') \<and> system_ok k'
        \<and> mb_ok (mailboxes k' b) \<and> mb_list (mailboxes k' b) = xs \<and> tq k' (MbSendQ b) = tl (tq k (MbSendQ b))
        \<and> (tq k (MbSendQ b) \<noteq> [] \<longrightarrow> is_runnable (threads k' (hd (tq k (MbSendQ b)))))
    | [] \<Rightarrow> if timeout = 0 then rt_mb_recv b timeout k = Some (Returned (- RT_ETIMEOUT, None) k)
        else \<exists>k'. rt_mb_recv b timeout k = Some (Blocked k') \<and> system_ok k' \<and> rt_current_thread k' \<noteq> Some t
          \<and> mailboxes k' = mailboxes k
          \<and> tq k' (MbRecvQ b) = (if flag = RT_IPC_FLAG_FIFO then tq k (MbRecvQ b) @ [t]
                               else prio_insert (threads k) t (tq k (MbRecvQ b)))
          \<and> (0 < sint timeout \<longrightarrow> ticks_left k' (ThreadTimer t) = unat timeout)"
proof (cases "mb_list (mailboxes k b)")
  case Nil
  then have e: "mb_entry (mailboxes k b) = 0" by simp
  show ?thesis
  proof (cases "timeout = 0")
    case True
    then show ?thesis using mb_recv_now(2) [OF e] unfolding Nil by simp
  next
    case False
    show ?thesis
      using mb_recv_waits [OF ok cur run flag e False time free other] Nil False
      by (simp only: list.case if_False) blast
  qed
next
  case (Cons x xs)
  then have e: "mb_entry (mailboxes k b) \<noteq> 0" by (metis list.distinct(1) mb_list_empty)
  note r = mb_recv_get [OF ok m Cons]
  have "is_runnable (threads (snd (mb_recv_get b k)) (hd (tq k (MbSendQ b))))" if "tq k (MbSendQ b) \<noteq> []"
    using that r(8) list.collapse [OF that, symmetric] by blast
  then show ?thesis using Cons mb_recv_now(1) [OF e, of timeout] r(1-4,6) by (simp add: outcome_of_def)
qed

theorem mailbox_recv_refines_queue_witness:
  "(\<exists>k'. rt_mb_recv 0 5 (sample_mailbox [7, 8] 2 2 1 1 (MbSendQ 0)) = Some (Returned (0, Some 8) k')
      \<and> mb_list (mailboxes k' 0) = [7] \<and> is_runnable (threads k' 3))
   \<and> (\<exists>k'. rt_mb_recv 0 5 (sample_mailbox [7, 8] 2 0 1 1 (MbRecvQ 0)) = Some (Blocked k')
      \<and> tq k' (MbRecvQ 0) = [3, 1] \<and> ticks_left k' (ThreadTimer 1) = 5)"
proof -
  let ?f = "sample_mailbox [7, 8] 2 2 1 1 (MbSendQ 0)" and ?e = "sample_mailbox [7, 8] 2 0 1 1 (MbRecvQ 0)"
  have ok: "system_ok ?f" "system_ok ?e" by (rule sample_mailbox_ok, simp)+
  have m: "mb_ok (mailboxes ?f 0)" "mb_ok (mailboxes ?e 0)" by (simp_all add: mb_ok_def)
  have l: "mb_list (mailboxes ?f 0) = [8, 7]" "mb_list (mailboxes ?e 0) = []"
    by (simp_all add: mb_list_def ring_list_def upt_conv_Cons)
  show ?thesis
    using mailbox_recv_refines_queue [OF ok(1) m(1), of 1 0 5 2 5, unfolded l]
      mailbox_recv_refines_queue [OF ok(2) m(2), of 1 0 5 2 5, unfolded l]
    by auto
qed

text \<open>
  A word sent to an empty mailbox on which a thread waits reaches that thread: when it runs
  again its receive returns the word, and the mailbox is empty.
\<close>

theorem mailbox_hands_word_over:
  assumes "system_ok k" "mb_ok (mailboxes k b)" "mb_list (mailboxes k b) = []"
    and "tq k (MbRecvQ b) = w # ws" "th_error (threads k w) = RT_EOK"
  shows "\<exists>k1 k2. rt_mb_send b v k = Some (Returned RT_EOK k1)
    \<and> mb_recv_resume w b start timeout k1 = Some (Returned (RT_EOK, Some v) k2)
    \<and> system_ok k2 \<and> mb_ok (mailboxes k2 b) \<and> mb_list (mailboxes k2 b) = [] \<and> tq k2 (MbRecvQ b) = ws"
proof -
  have room: "mb_entry (mailboxes k b) < mb_size (mailboxes k b)"
    using mb_ok_size [OF assms(2)] assms(3) by simp
  have "rt_mb_send b v k = Some (Returned RT_EOK (snd (mb_send_put b v k)))"
    using mb_send_now(1) [of k b v 0] less_imp_neq [OF room] mb_send_put(1) [OF assms(1,2) room]
    by (simp add: rt_mb_send_def outcome_of_def)
  then show ?thesis using mb_hand_over [OF assms, of start timeout v] by blast
qed

theorem mailbox_hands_word_over_witness:
  "\<exists>k1 k2. rt_mb_send 0 42 (sample_mailbox [7, 8] 2 0 1 1 (MbRecvQ 0)) = Some (Returned 0 k1)
     \<and> mb_recv_resume 3 0 0 100 k1 = Some (Returned (0, Some 42) k2)"
proof -
  have "system_ok (sample_mailbox [7, 8] 2 0 1 1 (MbRecvQ 0))" by (rule sample_mailbox_ok) simp
  moreover have "mb_ok (mailboxes (sample_mailbox [7, 8] 2 0 1 1 (MbRecvQ 0)) 0)" by (simp add: mb_ok_def)
  ultimately show ?thesis
    using mailbox_hands_word_over [of "sample_mailbox [7, 8] 2 0 1 1 (MbRecvQ 0)" 0 3 "[]" 42 0 100] by auto
qed

text \<open>
  C17. A thread that waits for a word without a limit while it holds the scheduler lock never
  returns: the scheduler does not switch, the loop finds the mailbox empty each time round.
\<close>

theorem mailbox_recv_locked_never_returns:
  assumes "rt_scheduler_lock_nest k \<noteq> 0" "rt_current_thread k = Some t"
    and "mb_entry (mailboxes k b) = 0" "sint timeout < 0"
  shows "rt_mb_recv b timeout k = None"
proof (cases "mb_recv_loop t b timeout k")
  case None
  then show ?thesis using assms(2,4) by (auto simp: rt_mb_recv_def rt_thread_self_def)
next
  case (Some y)
  then show ?thesis using mb_recv_loop_locked [of t b timeout k y] assms by (auto simp: rt_mb_recv_def)
qed

theorem mailbox_recv_locked_never_returns_witness:
  "rt_mb_recv 0 (- 1) (rt_enter_critical (sample_mailbox [7, 8] 2 0 1 1 (MbRecvQ 0))) = None"
  by (rule mailbox_recv_locked_never_returns [of _ 1])
    (simp_all add: rt_enter_critical_def)

text \<open>
  C18. The message queue keeps messages in order in blocks of one size: a message too long is refused,
  a send with a free block appends the message (the rest of its block holds what was there before),
  an urgent send puts it in front, both wake the first waiting receiver, and with no free block both
  return \<open>-RT_EFULL\<close> and change nothing.
\<close>

theorem mq_send_refines_queue:
  assumes ok: "system_ok k" and m: "mq_ok (messagequeues k b)"
  shows "if unat (mq_msg_size (messagequeues k b)) < length buffer
    then rt_mq_send b buffer k = Some (Returned (- RT_ERROR) k) \<and> rt_mq_urgent b buffer k = (- RT_ERROR, k)
    else if length (mq_list (messagequeues k b)) = unat (mq_max_msgs (messagequeues k b))
    then rt_mq_send b buffer k = Some (Returned (- RT_EFULL) k) \<and> rt_mq_urgent b buffer k = (- RT_EFULL, k)
    else \<exists>old k1 k2. length (buffer @ old) = unat (mq_msg_size (messagequeues k b))
      \<and> rt_mq_send b buffer k = Some (Returned RT_EOK k1) \<and> rt_mq_urgent b buffer k = (RT_EOK, k2)
      \<and> mq_list (messagequeues k1 b) = mq_list (messagequeues k b) @ [buffer @ old]
      \<and> mq_list (messagequeues k2 b) = (buffer @ old) # mq_list (messagequeues k b)
      \<and> (\<forall>k' \<in> {k1, k2}. system_ok k' \<and> mq_ok (messagequeues k' b) \<and> tq k' (MqRecvQ b) = tl (tq k (MqRecvQ b))
          \<and> (tq k (MqRecvQ b) \<noteq> [] \<longrightarrow> is_runnable (threads k' (hd (tq k (MqRecvQ b))))))"
proof (cases "unat (mq_msg_size (messagequeues k b)) < length buffer")
  case True
  then show ?thesis by (simp add: rt_mq_send_def rt_mq_send_wait_def rt_mq_urgent_def)
next
  case False
  then have fits: "length buffer \<le> unat (mq_msg_size (messagequeues k b))" by simp
  have full: "mq_msg_queue_free (messagequeues k b) = [] \<longleftrightarrow>
      length (mq_list (messagequeues k b)) = unat (mq_max_msgs (messagequeues k b))"
    using mq_free_nonempty [OF m] mq_ok_count [OF m] by (auto simp: mq_list_def)
  show ?thesis
  proof (cases "mq_msg_queue_free (messagequeues k b) = []")
    case True
    then show ?thesis
      using fits mq_send_now(2) [OF fits True] full by (simp add: rt_mq_send_def rt_mq_urgent_def)
  next
    case room: False
    note s = mq_send_put [OF ok m room fits] and u = mq_urgent_front [OF ok m room fits]
      and p = mq_put [OF m room fits]
    have block: "length (mq_pool (messagequeues k b) (hd (mq_msg_queue_free (messagequeues k b))))
        = unat (mq_msg_size (messagequeues k b))"
      using m room by (auto simp: mq_ok_def neq_Nil_conv)
    let ?k1 = "snd (mq_send_put b buffer k)" and ?k2 = "snd (rt_mq_urgent b buffer k)"
    have eqs: "rt_mq_send b buffer k = Some (Returned RT_EOK ?k1)" "rt_mq_urgent b buffer k = (RT_EOK, ?k2)"
      using mq_send_now(1) [OF fits room, of 0] s(1) u(1)
      by (simp add: rt_mq_send_def outcome_of_def, metis prod.collapse)
    have "is_runnable (threads ?k1 (hd (tq k (MqRecvQ b))))" "is_runnable (threads ?k2 (hd (tq k (MqRecvQ b))))"
      if "tq k (MqRecvQ b) \<noteq> []"
      using that s(6) u(5) list.collapse [OF that, symmetric] by blast+
    then have "\<forall>k' \<in> {?k1, ?k2}. system_ok k' \<and> mq_ok (messagequeues k' b) \<and> tq k' (MqRecvQ b) = tl (tq k (MqRecvQ b))
          \<and> (tq k (MqRecvQ b) \<noteq> [] \<longrightarrow> is_runnable (threads k' (hd (tq k (MqRecvQ b)))))"
      using s(2-4) u(2-4) p(1,3) by simp
    moreover have "length (padded buffer (messagequeues k b)) = unat (mq_msg_size (messagequeues k b))"
      using fits block by (simp add: padded_def)
    moreover have "mq_list (messagequeues ?k1 b) = mq_list (messagequeues k b) @ [padded buffer (messagequeues k b)]"
      "mq_list (messagequeues ?k2 b) = padded buffer (messagequeues k b) # mq_list (messagequeues k b)"
      using s(3) u(3) p(2,4) by simp_all
    ultimately show ?thesis
      using False full room eqs unfolding padded_def by (simp only: if_False) blast
  qed
qed

definition sample_mq :: "(nat \<Rightarrow> u8 list) \<Rightarrow> nat list \<Rightarrow> nat list \<Rightarrow> tqueue \<Rightarrow> kernel" where
  "sample_mq pool used free q = set_mq 0 (\<lambda>_. \<lparr>mq_pool = pool, mq_msg_size = 4, mq_max_msgs = 2,
     mq_entry = of_nat (length used), mq_msg_queue = used, mq_msg_queue_free = free\<rparr>) (waiting_at q)"

lemma sample_mq_fields [simp]:
  "tq (sample_mq pool used free q) = (\<lambda>_. [])(ReadyQ 31 := [0], ReadyQ 5 := [2], q := [3])"
  "messagequeues (sample_mq pool used free q) 0 = \<lparr>mq_pool = pool, mq_msg_size = 4, mq_max_msgs = 2,
     mq_entry = of_nat (length used), mq_msg_queue = used, mq_msg_queue_free = free\<rparr>"
  "rt_current_thread (sample_mq pool used free q) = Some 1"
  "rt_scheduler_lock_nest (sample_mq pool used free q) = 0"
  "rt_interrupt_nest (sample_mq pool used free q) = 0"
  "threads (sample_mq pool used free q) = threads sample"
  "obj_flag (objects (sample_mq pool used free q) (OMessageQueue 0)) = 0"
  by (simp_all add: sample_mq_def) (simp add: waiting_at_def sample_def reset_kernel_def)

lemma sample_mq_ok:
  "(\<And>th. queue_fits q th \<longleftrightarrow> th_state th = RT_THREAD_SUSPEND) \<Longrightarrow> system_ok (sample_mq pool used free q)"
  by (simp add: sample_mq_def system_ok_waiting_at)

theorem mq_send_refines_queue_witness:
  "\<exists>k1. rt_mq_send 0 [5, 6] (sample_mq (\<lambda>_. [1, 2, 3, 4]) [1] [0] (MqRecvQ 0)) = Some (Returned 0 k1)
     \<and> length (mq_list (messagequeues k1 0)) = 2 \<and> take 2 (mq_list (messagequeues k1 0) ! 1) = [5, 6]
     \<and> is_runnable (threads k1 3)"
proof -
  let ?k = "sample_mq (\<lambda>_. [1, 2, 3, 4]) [1] [0] (MqRecvQ 0)"
  have ok: "system_ok ?k" by (rule sample_mq_ok) simp
  have m: "mq_ok (messagequeues ?k 0)" by (auto simp: mq_ok_def)
  have l: "mq_list (messagequeues ?k 0) = [[1, 2, 3, 4]]" by (simp add: mq_list_def)
  show ?thesis using mq_send_refines_queue [OF ok m, of "[5, 6]", unfolded l] by auto
qed

text \<open>
  C19. Receiving returns the oldest message, cut to the size asked for, frees its block and wakes the
  first waiting sender; on an empty queue the caller gets \<open>-RT_ETIMEOUT\<close> or waits in the receivers'
  list.
\<close>

theorem mq_recv_refines_queue:
  assumes ok: "system_ok k" and m: "mq_ok (messagequeues k b)" and cur: "rt_current_thread k = Some t"
    and run: "th_state (threads k t) = RT_THREAD_RUNNING"
    and flag: "flag = RT_IPC_FLAG_FIFO \<or> flag = RT_IPC_FLAG_PRIO" "obj_flag (objects k (OMessageQueue b)) = flag"
    and time: "timeout \<noteq> 0x7fffffff"
    and free: "rt_scheduler_lock_nest k = 0" "rt_interrupt_nest k = 0" and other: "u \<in> set (tq k (ReadyQ p))"
  shows "case mq_list (messagequeues k b) of
      x # xs \<Rightarrow> \<exists>k'. rt_mq_recv b size0 timeout k = Some (Returned (RT_EOK, Some (take size0 x)) k') \<and> system_ok k'
        \<and> mq_ok (messagequeues k' b) \<and> mq_list (messagequeues k' b) = xs \<and> tq k' (MqSendQ b) = tl (tq k (MqSendQ b))
        \<and> (tq k (MqSendQ b) \<noteq> [] \<longrightarrow> is_runnable (threads k' (hd (tq k (MqSendQ b)))))
    | [] \<Rightarrow> if timeout = 0 then rt_mq_recv b size0 timeout k = Some (Returned (- RT_ETIMEOUT, None) k)
        else \<exists>k'. rt_mq_recv b size0 timeout k = Some (Blocked k') \<and> system_ok k' \<and> rt_current_thread k' \<noteq> Some t
          \<and> messagequeues k' = messagequeues k
          \<and> tq k' (MqRecvQ b) = (if flag = RT_IPC_FLAG_FIFO then tq k (MqRecvQ b) @ [t]
                               else prio_insert (threads k) t (tq k (MqRecvQ b)))"
proof (cases "mq_list (messagequeues k b)")
  case Nil
  then have e: "mq_entry (messagequeues k b) = 0" using m by simp
  show ?thesis
  proof (cases "timeout = 0")
    case True
    then show ?thesis using mq_recv_now(2) [OF e] unfolding Nil by simp
  next
    case False
    show ?thesis
      using mq_recv_waits [OF ok cur run flag e False time free other, of size0] Nil False
      by (simp only: list.case if_False) blast
  qed
next
  case (Cons x xs)
  then have e: "mq_entry (messagequeues k b) \<noteq> 0" using mq_list_empty [OF m] by (metis list.distinct(1))
  note r = mq_recv_get [where ?size0.0 = size0, OF ok m Cons] and t = mq_take [OF m Cons]
  have "is_runnable (threads (snd (mq_recv_get b size0 k)) (hd (tq k (MqSendQ b))))" if "tq k (MqSendQ b) \<noteq> []"
    using that r(6) list.collapse [OF that, symmetric] by blast
  then show ?thesis using Cons mq_recv_now(1) [OF e, of size0 timeout] r(1-4) t(1,2) by (simp add: outcome_of_def)
qed

theorem mq_recv_refines_queue_witness:
  "\<exists>k'. rt_mq_recv 0 3 (- 1) (sample_mq (\<lambda>b. [of_nat b, 2, 3, 4]) [1, 0] [] (MqSendQ 0)) = Some (Returned (0, Some [1, 2, 3]) k')
     \<and> mq_list (messagequeues k' 0) = [[0, 2, 3, 4]] \<and> is_runnable (threads k' 3)"
proof -
  let ?k = "sample_mq (\<lambda>b. [of_nat b, 2, 3, 4]) [1, 0] [] (MqSendQ 0)"
  have ok: "system_ok ?k" by (rule sample_mq_ok) simp
  have m: "mq_ok (messagequeues ?k 0)" by (auto simp: mq_ok_def)
  have l: "mq_list (messagequeues ?k 0) = [[1, 2, 3, 4], [0, 2, 3, 4]]" by (simp add: mq_list_def)
  show ?thesis using mq_recv_refines_queue [OF ok m, of 1 0 "- 1" 2 5 3, unfolded l] by auto
qed

end
