(* ===== verification/Heap.thy ===== *)
theory Heap
  imports Semaphore
begin

section \<open>The heap (\<open>src/mem.c\<close>)\<close>

text \<open>
  The small-memory allocator: one array of blocks, each with a header that holds the offsets of the
  next and the previous block. Offsets count from \<open>heap_ptr\<close>; a pointer into the heap is an address,
  \<open>heap_ptr\<close> plus an offset, and \<open>None\<close> is the null pointer. Headers and the user's bytes are two
  stores, so writing a header where a user's bytes were is not seen in the bytes: no block contains
  both. \<open>rt_size_t\<close> has 32 bits; the wrap-around is written out where a size is rounded, subtracted
  from the size of the heap or multiplied, and everywhere else the sums are offsets in the heap.
\<close>

definition HEAP_MAGIC :: u16 where "HEAP_MAGIC = 0x1ea0"
definition SIZEOF_STRUCT_MEM :: int where "SIZEOF_STRUCT_MEM = 12"
definition MIN_SIZE_ALIGNED :: int where "MIN_SIZE_ALIGNED = 12"

record heap_mem =
  hm_magic :: u16
  hm_used :: u16
  hm_next :: int
  hm_prev :: int

record heap =
  heap_ptr :: int
  heap_end :: int
  lfree :: int
  mem_size_aligned :: int
  used_mem :: int
  max_mem :: int
  heap_hdr :: "int \<Rightarrow> heap_mem"
  heap_byte :: "int \<Rightarrow> u8"

definition set_hdr :: "int \<Rightarrow> (heap_mem \<Rightarrow> heap_mem) \<Rightarrow> heap \<Rightarrow> heap" where
  "set_hdr p f h = h\<lparr>heap_hdr := (heap_hdr h)(p := f (heap_hdr h p))\<rparr>"

definition align_up :: "int \<Rightarrow> int" where
  "align_up size0 = ((size0 + 3) mod 2 ^ 32) AND NOT 3"

subsection \<open>Joining free neighbours\<close>

definition plug_next :: "int \<Rightarrow> heap \<Rightarrow> heap" where
  "plug_next mem h =
    (let nmem = hm_next (heap_hdr h mem)
     in if mem \<noteq> nmem \<and> hm_used (heap_hdr h nmem) = 0 \<and> nmem \<noteq> heap_end h then
          let h = (if lfree h = nmem then h\<lparr>lfree := mem\<rparr> else h);
              h = set_hdr mem (hm_next_update (\<lambda>_. hm_next (heap_hdr h nmem))) h
          in set_hdr (hm_next (heap_hdr h nmem)) (hm_prev_update (\<lambda>_. mem)) h
        else h)"

definition plug_prev :: "int \<Rightarrow> heap \<Rightarrow> heap" where
  "plug_prev mem h =
    (let pmem = hm_prev (heap_hdr h mem)
     in if pmem \<noteq> mem \<and> hm_used (heap_hdr h pmem) = 0 then
          let h = (if lfree h = mem then h\<lparr>lfree := pmem\<rparr> else h);
              h = set_hdr pmem (hm_next_update (\<lambda>_. hm_next (heap_hdr h mem))) h
          in set_hdr (hm_next (heap_hdr h mem)) (hm_prev_update (\<lambda>_. pmem)) h
        else h)"

definition plug_holes :: "int \<Rightarrow> heap \<Rightarrow> heap" where
  "plug_holes mem h = plug_prev mem (plug_next mem h)"

subsection \<open>The locked parts of the operations\<close>

text \<open>Cutting a block after \<open>size\<close> bytes: the rest becomes a free block of its own.\<close>

definition split_block :: "int \<Rightarrow> int \<Rightarrow> heap \<Rightarrow> heap" where
  "split_block ptr size0 h =
    (let ptr2 = ptr + SIZEOF_STRUCT_MEM + size0;
         nxt = hm_next (heap_hdr h ptr);
         h = set_hdr ptr2 (\<lambda>_. \<lparr>hm_magic = HEAP_MAGIC, hm_used = 0, hm_next = nxt, hm_prev = ptr\<rparr>) h;
         h = set_hdr ptr (hm_next_update (\<lambda>_. ptr2)) h
     in if nxt \<noteq> mem_size_aligned h + SIZEOF_STRUCT_MEM
        then set_hdr nxt (hm_prev_update (\<lambda>_. ptr2)) h else h)"

definition count_used :: "int \<Rightarrow> heap \<Rightarrow> heap" where
  "count_used n h =
    (let h = h\<lparr>used_mem := used_mem h + n\<rparr>
     in if max_mem h < used_mem h then h\<lparr>max_mem := used_mem h\<rparr> else h)"

text \<open>First fit: the loop of \<open>rt_malloc\<close>, which gives the offset of the block it stops at.\<close>

partial_function (option) malloc_search :: "heap \<Rightarrow> int \<Rightarrow> int \<Rightarrow> int option option" where
  "malloc_search h size0 ptr =
    (if ptr < (mem_size_aligned h - size0) mod 2 ^ 32 then
       if hm_used (heap_hdr h ptr) = 0 \<and> size0 \<le> (hm_next (heap_hdr h ptr) - (ptr + SIZEOF_STRUCT_MEM)) mod 2 ^ 32
       then Some (Some ptr)
       else malloc_search h size0 (hm_next (heap_hdr h ptr))
     else Some None)"

partial_function (option) lfree_advance :: "heap \<Rightarrow> int \<Rightarrow> int option" where
  "lfree_advance h p =
    (if hm_used (heap_hdr h p) \<noteq> 0 \<and> p \<noteq> heap_end h then lfree_advance h (hm_next (heap_hdr h p))
     else Some p)"

definition malloc_block :: "int \<Rightarrow> int \<Rightarrow> heap \<Rightarrow> (int \<times> heap) option" where
  "malloc_block size0 ptr h =
    (let h = (if size0 + SIZEOF_STRUCT_MEM + MIN_SIZE_ALIGNED
                \<le> (hm_next (heap_hdr h ptr) - (ptr + SIZEOF_STRUCT_MEM)) mod 2 ^ 32
              then count_used (size0 + SIZEOF_STRUCT_MEM)
                     (set_hdr ptr (hm_used_update (\<lambda>_. 1)) (split_block ptr size0 h))
              else count_used (hm_next (heap_hdr h ptr) - ptr)
                     (set_hdr ptr (hm_used_update (\<lambda>_. 1)) h));
         h = set_hdr ptr (hm_magic_update (\<lambda>_. HEAP_MAGIC)) h;
         addr = heap_ptr h + ptr + SIZEOF_STRUCT_MEM
     in if ptr = lfree h then
          (case lfree_advance h (lfree h) of
             None \<Rightarrow> None
           | Some p \<Rightarrow> Some (addr, h\<lparr>lfree := p\<rparr>))
        else Some (addr, h))"

definition malloc_locked :: "int \<Rightarrow> heap \<Rightarrow> (int option \<times> heap) option" where
  "malloc_locked size0 h =
    (case malloc_search h size0 (lfree h) of
       None \<Rightarrow> None
     | Some None \<Rightarrow> Some (None, h)
     | Some (Some ptr) \<Rightarrow>
        (case malloc_block size0 ptr h of
           None \<Rightarrow> None
         | Some (addr, h) \<Rightarrow> Some (Some addr, h)))"

definition free_locked :: "int \<Rightarrow> heap \<Rightarrow> (unit \<times> heap) option" where
  "free_locked mem h =
    (let h = set_hdr mem (\<lambda>m. m\<lparr>hm_used := 0, hm_magic := HEAP_MAGIC\<rparr>) h;
         h = (if mem < lfree h then h\<lparr>lfree := mem\<rparr> else h);
         h = h\<lparr>used_mem := used_mem h - (hm_next (heap_hdr h mem) - mem)\<rparr>
     in Some ((), plug_holes mem h))"

text \<open>
  \<open>rt_realloc\<close> under the lock: it is done (\<open>Inl\<close>, with the pointer it returns), or the block has to move and
  its size is \<open>Inr size\<close>.
\<close>

definition realloc_locked :: "int \<Rightarrow> int \<Rightarrow> heap \<Rightarrow> ((int + int) \<times> heap) option" where
  "realloc_locked rmem newsize h =
    (if rmem < heap_ptr h \<or> heap_ptr h + heap_end h \<le> rmem then Some (Inl rmem, h)
     else
       let ptr = rmem - SIZEOF_STRUCT_MEM - heap_ptr h;
           size0 = (hm_next (heap_hdr h ptr) - ptr - SIZEOF_STRUCT_MEM) mod 2 ^ 32
       in if size0 = newsize then Some (Inl rmem, h)
          else if newsize + SIZEOF_STRUCT_MEM + 12 < size0 then
            let h = h\<lparr>used_mem := used_mem h - (size0 - newsize)\<rparr>;
                ptr2 = ptr + SIZEOF_STRUCT_MEM + newsize;
                h = split_block ptr newsize h;
                h = (if ptr2 < lfree h then h\<lparr>lfree := ptr2\<rparr> else h)
            in Some (Inl rmem, plug_holes ptr2 h)
          else Some (Inr size0, h))"

subsection \<open>The operations\<close>

definition heap_sem :: nat where "heap_sem = 0"

text \<open>
  The semaphore around the locked part. A thread that finds it taken waits, and runs the locked part when
  it comes back (\<open>heap_unlock\<close>).
\<close>

definition heap_unlock :: "(heap \<Rightarrow> ('a \<times> heap) option) \<Rightarrow> heap \<Rightarrow> kernel \<Rightarrow> ('a \<times> heap) outcome option" where
  "heap_unlock body h k =
    (case body h of
       None \<Rightarrow> None
     | Some rh \<Rightarrow> Some (Returned rh (snd (rt_sem_release heap_sem k))))"

definition heap_locked :: "(heap \<Rightarrow> ('a \<times> heap) option) \<Rightarrow> heap \<Rightarrow> kernel \<Rightarrow> ('a \<times> heap) outcome option" where
  "heap_locked body h k =
    (case rt_sem_take heap_sem RT_WAITING_FOREVER k of
       Returned r k \<Rightarrow> heap_unlock body h k
     | Blocked k \<Rightarrow> Some (Blocked k))"

definition then_heap ::
  "('a \<times> heap) outcome option \<Rightarrow> ('a \<Rightarrow> heap \<Rightarrow> kernel \<Rightarrow> ('b \<times> heap) outcome option) \<Rightarrow> ('b \<times> heap) outcome option" where
  "then_heap m f =
    (case m of
       Some (Returned (a, h) k) \<Rightarrow> f a h k
     | Some (Blocked k) \<Rightarrow> Some (Blocked k)
     | None \<Rightarrow> None)"

definition rt_system_heap_init :: "int \<Rightarrow> int \<Rightarrow> heap \<Rightarrow> kernel \<Rightarrow> heap \<times> kernel" where
  "rt_system_heap_init begin_addr end_addr h k =
    (let begin_align = align_up begin_addr;
         end_align = end_addr AND NOT 3
     in if 2 * SIZEOF_STRUCT_MEM < end_align \<and> begin_align \<le> end_align - 2 * SIZEOF_STRUCT_MEM then
          let msa = end_align - begin_align - 2 * SIZEOF_STRUCT_MEM;
              e = msa + SIZEOF_STRUCT_MEM;
              h = h\<lparr>mem_size_aligned := msa, heap_ptr := begin_align\<rparr>;
              h = set_hdr 0 (\<lambda>_. \<lparr>hm_magic = HEAP_MAGIC, hm_used = 0, hm_next = e, hm_prev = 0\<rparr>) h;
              h = h\<lparr>heap_end := e\<rparr>;
              h = set_hdr e (\<lambda>_. \<lparr>hm_magic = HEAP_MAGIC, hm_used = 1, hm_next = e, hm_prev = e\<rparr>) h
          in (h\<lparr>lfree := 0\<rparr>, snd (rt_sem_init heap_sem ''heap'' 1 RT_IPC_FLAG_PRIO k))
        else (h, k))"

definition rt_malloc :: "int \<Rightarrow> heap \<Rightarrow> kernel \<Rightarrow> (int option \<times> heap) outcome option" where
  "rt_malloc size0 h k =
    (if size0 = 0 then Some (Returned (None, h) k)
     else
       let size0 = align_up size0
       in if mem_size_aligned h < size0 then Some (Returned (None, h) k)
          else
            let size0 = (if size0 < MIN_SIZE_ALIGNED then MIN_SIZE_ALIGNED else size0)
            in heap_locked (malloc_locked size0) h k)"

definition rt_free :: "int option \<Rightarrow> heap \<Rightarrow> kernel \<Rightarrow> (unit \<times> heap) outcome option" where
  "rt_free rmem h k =
    (case rmem of
       None \<Rightarrow> Some (Returned ((), h) k)
     | Some rmem \<Rightarrow>
        if rmem < heap_ptr h \<or> heap_ptr h + heap_end h \<le> rmem then Some (Returned ((), h) k)
        else heap_locked (free_locked (rmem - SIZEOF_STRUCT_MEM - heap_ptr h)) h k)"

text \<open>\<open>rt_memcpy\<close> and \<open>rt_memset\<close> on the user's bytes.\<close>

definition heap_copy :: "int \<Rightarrow> int \<Rightarrow> int \<Rightarrow> heap \<Rightarrow> heap" where
  "heap_copy dst src n h =
    h\<lparr>heap_byte := (\<lambda>a. if dst \<le> a \<and> a < dst + n then heap_byte h (src + (a - dst)) else heap_byte h a)\<rparr>"

definition heap_fill :: "int \<Rightarrow> u8 \<Rightarrow> int \<Rightarrow> heap \<Rightarrow> heap" where
  "heap_fill dst c n h =
    h\<lparr>heap_byte := (\<lambda>a. if dst \<le> a \<and> a < dst + n then c else heap_byte h a)\<rparr>"

definition rt_realloc :: "int option \<Rightarrow> int \<Rightarrow> heap \<Rightarrow> kernel \<Rightarrow> (int option \<times> heap) outcome option" where
  "rt_realloc rmem newsize h k =
    (let newsize = align_up newsize
     in if mem_size_aligned h < newsize then Some (Returned (None, h) k)
        else if newsize = 0 then then_heap (rt_free rmem h k) (\<lambda>_ h k. Some (Returned (None, h) k))
        else
          (case rmem of
             None \<Rightarrow> rt_malloc newsize h k
           | Some rmem \<Rightarrow>
              then_heap (heap_locked (realloc_locked rmem newsize) h k) (\<lambda>r h k.
                case r of
                  Inl p \<Rightarrow> Some (Returned (Some p, h) k)
                | Inr size0 \<Rightarrow>
                   then_heap (rt_malloc newsize h k) (\<lambda>nmem h k.
                     case nmem of
                       None \<Rightarrow> Some (Returned (None, h) k)
                     | Some nmem \<Rightarrow>
                        let h = heap_copy nmem rmem (if size0 < newsize then size0 else newsize) h
                        in then_heap (rt_free (Some rmem) h k) (\<lambda>_ h k. Some (Returned (Some nmem, h) k))))))"

definition rt_calloc :: "int \<Rightarrow> int \<Rightarrow> heap \<Rightarrow> kernel \<Rightarrow> (int option \<times> heap) outcome option" where
  "rt_calloc count size0 h k =
    then_heap (rt_malloc ((count * size0) mod 2 ^ 32) h k) (\<lambda>p h k.
      case p of
        None \<Rightarrow> Some (Returned (None, h) k)
      | Some p \<Rightarrow> Some (Returned (Some p, heap_fill p 0 ((count * size0) mod 2 ^ 32) h) k))"

definition rt_memory_info :: "heap \<Rightarrow> int \<times> int \<times> int" where
  "rt_memory_info h = (mem_size_aligned h, used_mem h, max_mem h)"


section \<open>The blocks of the heap\<close>

text \<open>
  The blocks as a list, from the start of the heap to its end: the length of each block's data and
  whether it is in use. \<open>seg\<close> is the part of the chain of headers from one offset to another.
\<close>

type_synonym block = "int \<times> bool"

definition header :: "block \<Rightarrow> int \<Rightarrow> int \<Rightarrow> heap_mem" where
  "header b p pv = \<lparr>hm_magic = HEAP_MAGIC, hm_used = (if snd b then 1 else 0), hm_next = p + 12 + fst b, hm_prev = pv\<rparr>"

lemma header_simps [simp]:
  "hm_magic (header b p pv) = HEAP_MAGIC" "hm_used (header b p pv) = (if snd b then 1 else 0)"
  "hm_next (header b p pv) = p + 12 + fst b" "hm_prev (header b p pv) = pv"
  by (simp_all add: header_def)

primrec seg :: "(int \<Rightarrow> heap_mem) \<Rightarrow> int \<Rightarrow> int \<Rightarrow> block list \<Rightarrow> int \<Rightarrow> int \<Rightarrow> bool" where
  "seg m pv p [] pv' p' \<longleftrightarrow> pv' = pv \<and> p' = p"
| "seg m pv p (b # bs) pv' p' \<longleftrightarrow> m p = header b p pv \<and> 0 \<le> fst b \<and> seg m p (p + 12 + fst b) bs pv' p'"

definition span :: "block list \<Rightarrow> int" where
  "span bs = (\<Sum>b\<leftarrow>bs. 12 + fst b)"

definition used_span :: "block list \<Rightarrow> int" where
  "used_span bs = (\<Sum>b\<leftarrow>bs. if snd b then 12 + fst b else 0)"

primrec first_free :: "int \<Rightarrow> block list \<Rightarrow> int" where
  "first_free p [] = p"
| "first_free p (b # bs) = (if snd b then first_free (p + 12 + fst b) bs else p)"

lemma span_simps [simp]:
  "span [] = 0" "span (b # bs) = 12 + fst b + span bs" "span (xs @ ys) = span xs + span ys"
  by (simp_all add: span_def)

lemma used_span_simps [simp]:
  "used_span [] = 0" "used_span (b # bs) = (if snd b then 12 + fst b else 0) + used_span bs"
  "used_span (xs @ ys) = used_span xs + used_span ys"
  by (simp_all add: used_span_def)

lemma seg_append:
  "seg m pv p (xs @ ys) pv' p' \<longleftrightarrow> (\<exists>pv1 p1. seg m pv p xs pv1 p1 \<and> seg m pv1 p1 ys pv' p')"
  by (induction xs arbitrary: pv p) auto

lemma seg_span: "seg m pv p bs pv' p' \<Longrightarrow> p' = p + span bs \<and> 0 \<le> span bs"
  by (induction bs arbitrary: pv p) fastforce+

lemma seg_frame: "seg m pv p bs pv' p' \<Longrightarrow> (\<And>a. p \<le> a \<Longrightarrow> a < p' \<Longrightarrow> m' a = m a) \<Longrightarrow> seg m' pv p bs pv' p'"
proof (induction bs arbitrary: pv p)
  case (Cons b bs)
  have "p + 12 + fst b \<le> p'" using seg_span Cons.prems(1) by fastforce
  then show ?case using Cons by simp
qed simp

lemma seg_last: "seg m pv p bs pv' p' \<Longrightarrow> bs \<noteq> [] \<Longrightarrow> pv' = p' - 12 - fst (last bs)"
  by (induction bs arbitrary: pv p) auto

lemma first_free_append:
  "first_free p (xs @ ys) = (if \<forall>b \<in> set xs. snd b then first_free (p + span xs) ys else first_free p xs)"
  by (induction xs arbitrary: p) (simp_all add: add.assoc)

lemma first_free_bounds:
  "\<forall>b \<in> set bs. 0 \<le> fst b \<Longrightarrow> p \<le> first_free p bs \<and> first_free p bs \<le> p + span bs
    \<and> ((\<exists>b \<in> set bs. \<not> snd b) \<longrightarrow> first_free p bs < p + span bs)"
proof (induction bs arbitrary: p)
  case (Cons b bs)
  have "0 \<le> span bs" using Cons.prems by (induction bs) auto
  then show ?case using Cons.IH [of "p + 12 + fst b"] Cons.prems by auto
qed simp

lemma seg_nonneg: "seg m pv p bs pv' p' \<Longrightarrow> \<forall>b \<in> set bs. 0 \<le> fst b"
  by (induction bs arbitrary: pv p) auto

text \<open>The shape of the heap, and what \<open>lfree\<close> and the counters say about it.\<close>

definition heap_tiles :: "heap \<Rightarrow> block list \<Rightarrow> bool" where
  "heap_tiles h bs \<longleftrightarrow> (\<exists>pv. seg (heap_hdr h) 0 0 bs pv (heap_end h))
     \<and> (\<forall>b \<in> set bs. 4 dvd fst b) \<and> bs \<noteq> []
     \<and> heap_end h = mem_size_aligned h + 12 \<and> 0 \<le> mem_size_aligned h
     \<and> 0 \<le> heap_ptr h \<and> 4 dvd heap_ptr h \<and> heap_ptr h + mem_size_aligned h + 24 < 2 ^ 32
     \<and> hm_used (heap_hdr h (heap_end h)) = 1 \<and> hm_next (heap_hdr h (heap_end h)) = heap_end h"

definition heap_counts :: "heap \<Rightarrow> block list \<Rightarrow> bool" where
  "heap_counts h bs \<longleftrightarrow> lfree h = first_free 0 bs \<and> used_mem h = used_span bs \<and> used_mem h \<le> max_mem h"

definition heap_ok :: "heap \<Rightarrow> block list \<Rightarrow> bool" where
  "heap_ok h bs \<longleftrightarrow> heap_tiles h bs \<and> heap_counts h bs \<and> successively (\<lambda>a b. snd a \<or> snd b) bs
    \<and> (\<forall>b \<in> set bs. snd b \<longrightarrow> 0 < fst b)"

lemma set_hdr_simps [simp]:
  "heap_ptr (set_hdr p f h) = heap_ptr h" "heap_end (set_hdr p f h) = heap_end h" "lfree (set_hdr p f h) = lfree h"
  "mem_size_aligned (set_hdr p f h) = mem_size_aligned h" "used_mem (set_hdr p f h) = used_mem h"
  "max_mem (set_hdr p f h) = max_mem h" "heap_byte (set_hdr p f h) = heap_byte h"
  "heap_hdr (set_hdr p f h) = (heap_hdr h)(p := f (heap_hdr h p))"
  by (simp_all add: set_hdr_def)

text \<open>Taking the chain apart at one block, and putting it together again around other blocks.\<close>

lemma heap_tiles_at:
  assumes "heap_tiles h (xs @ b # ys)"
  obtains pv pv' where "seg (heap_hdr h) 0 0 xs pv (span xs)"
    "heap_hdr h (span xs) = header b (span xs) pv" "0 \<le> fst b"
    "seg (heap_hdr h) (span xs) (span xs + 12 + fst b) ys pv' (heap_end h)"
    "heap_end h = span xs + 12 + fst b + span ys" "0 \<le> span xs" "0 \<le> span ys"
proof -
  obtain pv' where s: "seg (heap_hdr h) 0 0 (xs @ b # ys) pv' (heap_end h)"
    using assms by (auto simp: heap_tiles_def)
  then obtain pv p where x: "seg (heap_hdr h) 0 0 xs pv p" "seg (heap_hdr h) pv p (b # ys) pv' (heap_end h)"
    by (auto simp: seg_append)
  have p: "p = span xs" "0 \<le> span xs" using seg_span [OF x(1)] by auto
  have y: "seg (heap_hdr h) p (p + 12 + fst b) ys pv' (heap_end h)" using x(2) by simp
  show thesis
    by (rule that [of pv pv']) (use x y seg_span [OF y] p in simp_all)
qed

text \<open>The first header of the rest points back; this is how the rest hangs on another block.\<close>

lemma seg_relink:
  assumes "seg m pv p ys pv' e" "p \<noteq> e \<Longrightarrow> m' p = (m p)\<lparr>hm_prev := q\<rparr>" "\<And>a. p < a \<Longrightarrow> a < e \<Longrightarrow> m' a = m a"
  shows "\<exists>pv'. seg m' q p ys pv' e"
proof (cases ys)
  case (Cons b bs)
  then have s: "seg m p (p + 12 + fst b) bs pv' e" and b: "m p = header b p pv" "0 \<le> fst b" using assms(1) by auto
  have "e \<noteq> p" using seg_span [OF s] b by linarith
  then have "m' p = header b p q" using assms(2) b by (simp add: header_def)
  moreover have "seg m' p (p + 12 + fst b) bs pv' e" using seg_frame [OF s] assms(3) b by simp
  ultimately show ?thesis using Cons b by auto
qed (use assms in auto)

lemma heap_tilesI:
  assumes "heap_tiles h bs" and "\<exists>pv. seg (heap_hdr h') 0 0 bs' pv (heap_end h)"
    and "\<And>b. b \<in> set bs' \<Longrightarrow> 4 dvd fst b" "bs' \<noteq> []"
    and "heap_end h' = heap_end h" "mem_size_aligned h' = mem_size_aligned h" "heap_ptr h' = heap_ptr h"
    and "hm_used (heap_hdr h' (heap_end h)) = 1" "hm_next (heap_hdr h' (heap_end h)) = heap_end h"
  shows "heap_tiles h' bs'"
  using assms unfolding heap_tiles_def by simp

lemma heap_tilesD:
  assumes "heap_tiles h bs"
  shows "hm_used (heap_hdr h (heap_end h)) = 1" "hm_next (heap_hdr h (heap_end h)) = heap_end h"
    "heap_end h = mem_size_aligned h + 12" "b \<in> set bs \<Longrightarrow> 4 dvd fst b" "b \<in> set bs \<Longrightarrow> 0 \<le> fst b"
    "0 \<le> mem_size_aligned h" "heap_ptr h + mem_size_aligned h + 24 < 2 ^ 32" "0 \<le> heap_ptr h" "4 dvd heap_ptr h"
    "span bs = heap_end h"
  using assms seg_nonneg seg_span by (fastforce simp: heap_tiles_def)+

subsection \<open>What the steps do to the blocks\<close>

lemma heap_tiles_set:
  assumes t: "heap_tiles h (xs @ b # ys)"
    and f: "f (header b (span xs) (hm_prev (heap_hdr h (span xs)))) = header b' (span xs) (hm_prev (heap_hdr h (span xs)))"
    and l: "fst b' = fst b"
  shows "heap_tiles (set_hdr (span xs) f h) (xs @ b' # ys)"
proof (rule heap_tiles_at [OF t])
  fix pv pv' assume a: "seg (heap_hdr h) 0 0 xs pv (span xs)" "heap_hdr h (span xs) = header b (span xs) pv" "0 \<le> fst b"
    "seg (heap_hdr h) (span xs) (span xs + 12 + fst b) ys pv' (heap_end h)"
    "heap_end h = span xs + 12 + fst b + span ys" "0 \<le> span xs" "0 \<le> span ys"
  let ?m = "(heap_hdr h)(span xs := f (heap_hdr h (span xs)))"
  have "seg ?m 0 0 xs pv (span xs)" using a(1) by (rule seg_frame) simp
  moreover have "?m (span xs) = header b' (span xs) pv" using f a(2) by simp
  moreover have "seg ?m (span xs) (span xs + 12 + fst b) ys pv' (heap_end h)"
    using a(4) by (rule seg_frame) (use a(3) in simp)
  ultimately have "\<exists>pv. seg ?m 0 0 (xs @ b' # ys) pv (heap_end h)" using a(3) l by (auto simp: seg_append)
  moreover have "span xs < heap_end h" using a(3,5,7) by linarith
  moreover have "4 dvd fst b'" using heap_tilesD(4) [OF t, of b] l by simp
  ultimately show ?thesis
    using heap_tilesD(1,2,4) [OF t] by (intro heap_tilesI [OF t]) auto
qed

lemma split_block_frame [simp]:
  "heap_ptr (split_block p s h) = heap_ptr h" "heap_end (split_block p s h) = heap_end h"
  "lfree (split_block p s h) = lfree h" "mem_size_aligned (split_block p s h) = mem_size_aligned h"
  "used_mem (split_block p s h) = used_mem h" "max_mem (split_block p s h) = max_mem h"
  "heap_byte (split_block p s h) = heap_byte h"
  by (simp_all add: split_block_def Let_def)

lemma split_block:
  assumes t: "heap_tiles h (xs @ (l, u) # ys)" and s: "0 \<le> s" "s + 12 \<le> l" "4 dvd s"
  shows "heap_tiles (split_block (span xs) s h) (xs @ (s, u) # (l - s - 12, False) # ys)"
proof (rule heap_tiles_at [OF t])
  fix pv pv' assume a: "seg (heap_hdr h) 0 0 xs pv (span xs)" "heap_hdr h (span xs) = header (l, u) (span xs) pv"
    "0 \<le> fst (l, u)" "seg (heap_hdr h) (span xs) (span xs + 12 + fst (l, u)) ys pv' (heap_end h)"
    "heap_end h = span xs + 12 + fst (l, u) + span ys" "0 \<le> span xs" "0 \<le> span ys"
  define o1 where "o1 = span xs"
  define p2 where "p2 = o1 + 12 + s"
  define q where "q = o1 + 12 + l"
  note a = a [folded o1_def, simplified, folded q_def]
  have e: "heap_end h = mem_size_aligned h + 12" by (rule heap_tilesD [OF t])
  have ord: "o1 < p2" "p2 < q" "q \<le> heap_end h" using s a by (simp_all add: p2_def q_def)
  let ?m = "heap_hdr (split_block o1 s h)"
  have m: "?m = (let m = (heap_hdr h)(p2 := header (l - s - 12, False) p2 o1, o1 := header (s, u) o1 pv)
      in if q = heap_end h then m else m(q := (m q)\<lparr>hm_prev := p2\<rparr>))"
  proof -
    have h1: "(header (l, u) o1 pv)\<lparr>hm_next := p2\<rparr> = header (s, u) o1 pv" by (simp add: header_def p2_def)
    have h2: "header (l - s - 12, False) p2 o1 = \<lparr>hm_magic = HEAP_MAGIC, hm_used = 0, hm_next = q, hm_prev = o1\<rparr>"
      by (simp add: header_def p2_def q_def)
    have n: "hm_next (heap_hdr h o1) = q" "o1 + SIZEOF_STRUCT_MEM + s = p2" "mem_size_aligned h + SIZEOF_STRUCT_MEM = heap_end h"
      by (simp_all add: a(2) q_def p2_def SIZEOF_STRUCT_MEM_def e)
    show ?thesis unfolding split_block_def Let_def n(1,2) set_hdr_simps(4) n(3)
      using ord by (simp add: h1 h2 a(2) cong: if_cong)
  qed
  have "seg ?m 0 0 xs pv o1" using a(1) by (rule seg_frame) (use ord in \<open>simp add: m Let_def\<close>)
  moreover have "?m o1 = header (s, u) o1 pv" "?m p2 = header (l - s - 12, False) p2 o1"
    using ord by (simp_all add: m Let_def)
  moreover obtain pv'' where "seg ?m p2 q ys pv'' (heap_end h)"
    using seg_relink [OF a(4), of ?m p2] ord by (fastforce simp: m Let_def)
  moreover have "p2 + 12 + (l - s - 12) = q" by (simp add: p2_def q_def)
  ultimately have "\<exists>pv. seg ?m 0 0 (xs @ (s, u) # (l - s - 12, False) # ys) pv (heap_end h)"
    using s by (auto simp: seg_append p2_def)
  moreover have "?m (heap_end h) = heap_hdr h (heap_end h)" using ord by (simp add: m Let_def)
  moreover have "4 dvd l" using heap_tilesD(4) [OF t, of "(l, u)"] by simp
  then have "4 dvd l - s - 12" using s(3) by presburger
  ultimately show ?thesis
    unfolding o1_def [symmetric] using heap_tilesD [OF t] s(3) by (intro heap_tilesI [OF t]) auto
qed

lemma plug_frame [simp]:
  "heap_ptr (plug_next p h) = heap_ptr h" "heap_end (plug_next p h) = heap_end h"
  "mem_size_aligned (plug_next p h) = mem_size_aligned h"
  "used_mem (plug_next p h) = used_mem h" "max_mem (plug_next p h) = max_mem h" "heap_byte (plug_next p h) = heap_byte h"
  "heap_ptr (plug_prev p h) = heap_ptr h" "heap_end (plug_prev p h) = heap_end h"
  "mem_size_aligned (plug_prev p h) = mem_size_aligned h"
  "used_mem (plug_prev p h) = used_mem h" "max_mem (plug_prev p h) = max_mem h" "heap_byte (plug_prev p h) = heap_byte h"
  by (simp_all add: plug_next_def plug_prev_def Let_def)

text \<open>Joining two free blocks, whichever of the two the code starts from.\<close>

lemma join_tiles:
  assumes t: "heap_tiles h (xs @ (l, False) # (l2, False) # ys)"
    and m: "m' = (heap_hdr h)(span xs := (heap_hdr h (span xs))\<lparr>hm_next := span xs + 24 + l + l2\<rparr>,
      span xs + 24 + l + l2 := (heap_hdr h (span xs + 24 + l + l2))\<lparr>hm_prev := span xs\<rparr>)"
    and h': "heap_hdr h' = m'" "heap_end h' = heap_end h" "mem_size_aligned h' = mem_size_aligned h" "heap_ptr h' = heap_ptr h"
  shows "heap_tiles h' (xs @ (l + 12 + l2, False) # ys)"
proof (rule heap_tiles_at [OF t])
  fix pv pv' assume a: "seg (heap_hdr h) 0 0 xs pv (span xs)" "heap_hdr h (span xs) = header (l, False) (span xs) pv"
    "0 \<le> fst (l, False)" "seg (heap_hdr h) (span xs) (span xs + 12 + fst (l, False)) ((l2, False) # ys) pv' (heap_end h)"
    "0 \<le> span xs"
  define o1 where "o1 = span xs"
  define q where "q = o1 + 24 + l + l2"
  note a = a [folded o1_def, simplified] and m = m [folded o1_def, folded q_def]
  have y: "seg (heap_hdr h) (o1 + 12 + l) q ys pv' (heap_end h)" "0 \<le> l2" using a(4) by (simp_all add: q_def algebra_simps)
  have ord: "o1 < q" "q \<le> heap_end h" using a(3) y seg_span [OF y(1)] by (simp_all add: q_def)
  have "seg m' 0 0 xs pv o1" using a(1) by (rule seg_frame) (use ord in \<open>simp add: m\<close>)
  moreover have "m' o1 = header (l + 12 + l2, False) o1 pv" using ord a(2) by (simp add: m header_def q_def)
  moreover obtain pv'' where "seg m' o1 q ys pv'' (heap_end h)"
    using seg_relink [OF y(1), of m' o1] ord by (fastforce simp: m)
  moreover have "o1 + 12 + (l + 12 + l2) = q" by (simp add: q_def)
  ultimately have "\<exists>pv. seg m' 0 0 (xs @ (l + 12 + l2, False) # ys) pv (heap_end h)"
    using a(3) y(2) by (auto simp: seg_append)
  moreover have "hm_used (m' (heap_end h)) = 1 \<and> hm_next (m' (heap_end h)) = heap_end h"
    using ord heap_tilesD(1,2) [OF t] by (auto simp: m)
  moreover have "4 dvd l" "4 dvd l2" using heap_tilesD(4) [OF t, of "(l, False)"] heap_tilesD(4) [OF t, of "(l2, False)"] by simp_all
  then have "4 dvd l + 12 + l2" by presburger
  ultimately show ?thesis
    using h' heap_tilesD(4) [OF t] by (intro heap_tilesI [OF t]) auto
qed

fun join_next :: "int \<Rightarrow> block list \<Rightarrow> block list" where
  "join_next l ((l2, False) # ys) = (l + 12 + l2, False) # ys"
| "join_next l ys = (l, False) # ys"

definition join_prev :: "block list \<Rightarrow> block list \<Rightarrow> block list" where
  "join_prev xs ys = (if xs \<noteq> [] \<and> \<not> snd (last xs) then butlast xs @ (fst (last xs) + 12 + fst (hd ys), False) # tl ys
     else xs @ ys)"

lemma heap_counts_cong:
  "lfree h' = lfree h \<Longrightarrow> used_mem h' = used_mem h \<Longrightarrow> max_mem h' = max_mem h \<Longrightarrow>
   first_free 0 bs' = first_free 0 bs \<Longrightarrow> used_span bs' = used_span bs \<Longrightarrow> heap_counts h bs \<Longrightarrow> heap_counts h' bs'"
  by (simp add: heap_counts_def)

lemma first_free_le:
  assumes "heap_tiles h (xs @ b # ys)" "\<not> snd b"
  shows "first_free 0 (xs @ b # ys) \<le> span xs"
proof -
  have "\<forall>b \<in> set xs. 0 \<le> fst b" using heap_tilesD(5) [OF assms(1)] by simp
  then show ?thesis using assms(2) first_free_bounds [of xs 0] by (auto simp: first_free_append)
qed

lemma plug_next:
  assumes t: "heap_tiles h (xs @ (l, False) # ys)" and c: "heap_counts h (xs @ (l, False) # ys)"
  shows "heap_tiles (plug_next (span xs) h) (xs @ join_next l ys) \<and> heap_counts (plug_next (span xs) h) (xs @ join_next l ys)"
proof (rule heap_tiles_at [OF t])
  fix pv pv' assume a: "seg (heap_hdr h) 0 0 xs pv (span xs)" "heap_hdr h (span xs) = header (l, False) (span xs) pv"
    "0 \<le> fst (l, False)" "seg (heap_hdr h) (span xs) (span xs + 12 + fst (l, False)) ys pv' (heap_end h)"
    "0 \<le> span xs"
  have lf: "lfree h \<le> span xs" using first_free_le [OF t] c by (simp add: heap_counts_def)
  have nm: "hm_next (heap_hdr h (span xs)) = span xs + 12 + l" using a(2) by simp
  consider (join) l2 ys' where "ys = (l2, False) # ys'" | (used) l2 ys' where "ys = (l2, True) # ys'" | (none) "ys = []"
    by (cases ys) auto
  then show ?thesis
  proof cases
    case join
    have "heap_hdr h (span xs + 12 + l) = header (l2, False) (span xs + 12 + l) (span xs)" "0 \<le> l2"
      and "seg (heap_hdr h) (span xs + 12 + l) (span xs + 24 + l + l2) ys' pv' (heap_end h)"
      using a(4) join by (simp_all add: algebra_simps)
    moreover from this have "span xs + 12 + l \<noteq> heap_end h" using seg_span by fastforce
    ultimately have p: "plug_next (span xs) h = h\<lparr>heap_hdr := (heap_hdr h)(span xs := (heap_hdr h (span xs))\<lparr>hm_next := span xs + 24 + l + l2\<rparr>,
        span xs + 24 + l + l2 := (heap_hdr h (span xs + 24 + l + l2))\<lparr>hm_prev := span xs\<rparr>)\<rparr>"
    proof -
      assume n: "heap_hdr h (span xs + 12 + l) = header (l2, False) (span xs + 12 + l) (span xs)" "0 \<le> l2"
        "span xs + 12 + l \<noteq> heap_end h"
      have "hm_next (heap_hdr h (span xs + 12 + l)) = span xs + 24 + l + l2" unfolding n(1) by simp
      then show ?thesis
        using a(3) lf n unfolding plug_next_def Let_def nm by (simp add: set_hdr_def ac_simps)
    qed
    have "heap_tiles (plug_next (span xs) h) (xs @ (l + 12 + l2, False) # ys')"
      by (rule join_tiles [OF t [unfolded join] refl]) (simp_all add: p)
    moreover have "heap_counts (plug_next (span xs) h) (xs @ (l + 12 + l2, False) # ys')"
      by (rule heap_counts_cong [OF _ _ _ _ _ c]) (simp_all add: p join first_free_append)
    ultimately show ?thesis by (simp add: join)
  next
    case used
    then have "hm_used (heap_hdr h (span xs + 12 + l)) \<noteq> 0" using a(4) by simp
    then have "plug_next (span xs) h = h" unfolding plug_next_def Let_def nm by simp
    then show ?thesis using t c used by simp
  next
    case none
    then have "plug_next (span xs) h = h" using a(4) unfolding plug_next_def Let_def nm by simp
    then show ?thesis using t c none by simp
  qed
qed

lemma plug_prev:
  assumes t: "heap_tiles h (xs @ (l, False) # ys)" and c: "heap_counts h (xs @ (l, False) # ys)"
  shows "heap_tiles (plug_prev (span xs) h) (join_prev xs ((l, False) # ys))
    \<and> heap_counts (plug_prev (span xs) h) (join_prev xs ((l, False) # ys))"
proof (rule heap_tiles_at [OF t])
  fix pv pv' assume a: "seg (heap_hdr h) 0 0 xs pv (span xs)" "heap_hdr h (span xs) = header (l, False) (span xs) pv"
    "0 \<le> fst (l, False)"
  have pm: "hm_prev (heap_hdr h (span xs)) = pv" "hm_next (heap_hdr h (span xs)) = span xs + 12 + l" using a(2) by simp_all
  show ?thesis
  proof (cases "xs = []")
    case True
    then have "plug_prev (span xs) h = h" using a(1) unfolding plug_prev_def Let_def pm by simp
    then show ?thesis using t c True by (simp add: join_prev_def)
  next
    case False
    then obtain zs l0 u where xs: "xs = zs @ [(l0, u)]" by (metis append_butlast_last_id surj_pair)
    have z: "heap_hdr h (span zs) = header (l0, u) (span zs) pvz \<Longrightarrow> pv = span zs" for pvz
      using seg_last [OF a(1)] by (simp add: xs)
    obtain pvz where hz: "heap_hdr h (span zs) = header (l0, u) (span zs) pvz" "0 \<le> l0" "0 \<le> span zs"
      by (rule heap_tiles_at [of h zs "(l0, u)" "(l, False) # ys"]) (use t in \<open>simp_all add: xs\<close>)
    note pv = z [OF hz(1)]
    show ?thesis
    proof (cases u)
      case True
      then have "plug_prev (span xs) h = h" unfolding plug_prev_def Let_def pm pv hz(1) by simp
      then show ?thesis using t c by (simp add: join_prev_def xs True)
    next
      case free: False
      have t': "heap_tiles h (zs @ (l0, False) # (l, False) # ys)" using t free by (simp add: xs)
      have lf: "lfree h \<le> span zs" using first_free_le [OF t'] c free by (simp add: heap_counts_def xs)
      have ne: "span zs \<noteq> span xs" "lfree h \<noteq> span xs" using hz lf by (simp_all add: xs)
      have p: "plug_prev (span xs) h = h\<lparr>heap_hdr := (heap_hdr h)(span zs := (heap_hdr h (span zs))\<lparr>hm_next := span zs + 24 + l0 + l\<rparr>,
          span zs + 24 + l0 + l := (heap_hdr h (span zs + 24 + l0 + l))\<lparr>hm_prev := span zs\<rparr>)\<rparr>"
        unfolding plug_prev_def Let_def pm pv using ne hz free a(3) by (simp add: set_hdr_def a(2)) (simp add: xs algebra_simps)
      have "heap_tiles (plug_prev (span xs) h) (zs @ (l0 + 12 + l, False) # ys)"
        by (rule join_tiles [OF t' refl]) (simp_all add: p)
      moreover have "heap_counts (plug_prev (span xs) h) (zs @ (l0 + 12 + l, False) # ys)"
      proof (rule heap_counts_cong [OF _ _ _ _ _ c])
        show "lfree (plug_prev (span xs) h) = lfree h" by (simp add: p)
      qed (simp_all add: xs free first_free_append)
      ultimately show ?thesis by (simp add: join_prev_def xs free)
    qed
  qed
qed

lemma join_next_cons: obtains l' ys' where "join_next l ys = (l', False) # ys'"
  by (cases "(l, ys)" rule: join_next.cases) auto

lemma plug_holes:
  assumes "heap_tiles h (xs @ (l, False) # ys)" "heap_counts h (xs @ (l, False) # ys)"
  shows "heap_tiles (plug_holes (span xs) h) (join_prev xs (join_next l ys))
    \<and> heap_counts (plug_holes (span xs) h) (join_prev xs (join_next l ys))"
  using plug_next [OF assms] plug_prev
  by (rule_tac join_next_cons [of l ys]) (fastforce simp: plug_holes_def)

lemma plug_holes_frame [simp]:
  "heap_ptr (plug_holes p h) = heap_ptr h" "heap_end (plug_holes p h) = heap_end h"
  "mem_size_aligned (plug_holes p h) = mem_size_aligned h" "used_mem (plug_holes p h) = used_mem h"
  "max_mem (plug_holes p h) = max_mem h" "heap_byte (plug_holes p h) = heap_byte h"
  by (simp_all add: plug_holes_def)

abbreviation apart :: "block list \<Rightarrow> bool" where
  "apart bs \<equiv> successively (\<lambda>a b. snd a \<or> snd b) bs"

lemma apart_join:
  assumes "apart (xs @ b # ys)" "snd b"
  shows "apart (join_prev xs (join_next l ys))"
proof -
  have n: "apart (join_next l ys)"
    using assms by (cases "(l, ys)" rule: join_next.cases) (auto simp: successively_append_iff successively_Cons)
  obtain l' ys' where j: "join_next l ys = (l', False) # ys'" by (rule join_next_cons)
  show ?thesis
  proof (cases xs rule: rev_cases)
    case Nil
    then show ?thesis using n by (simp add: join_prev_def)
  next
    case (snoc zs z)
    then show ?thesis
      using assms n unfolding j by (auto simp: join_prev_def successively_append_iff successively_Cons)
  qed
qed

lemma heap_tiles_cong:
  "heap_hdr h' = heap_hdr h \<Longrightarrow> heap_end h' = heap_end h \<Longrightarrow> heap_ptr h' = heap_ptr h \<Longrightarrow>
   mem_size_aligned h' = mem_size_aligned h \<Longrightarrow> heap_tiles h' bs = heap_tiles h bs"
  by (simp add: heap_tiles_def)

lemma heap_tiles_seg:
  assumes "heap_tiles h (xs @ ys)"
  obtains pv pv' where "seg (heap_hdr h) 0 0 xs pv (span xs)" "seg (heap_hdr h) pv (span xs) ys pv' (heap_end h)"
    "0 \<le> span xs"
proof -
  obtain pv pv' p where *: "seg (heap_hdr h) 0 0 xs pv p" "seg (heap_hdr h) pv p ys pv' (heap_end h)"
    using assms by (auto simp: heap_tiles_def seg_append)
  then show thesis using that seg_span [OF *(1)] by simp
qed

text \<open>The first free block after one is freed or handed out.\<close>

lemma first_free_freed:
  assumes "heap_tiles h (xs @ b # ys)" "snd b" "\<not> snd b'"
  shows "first_free 0 (xs @ b' # ys) = min (span xs) (first_free 0 (xs @ b # ys))"
proof -
  have n: "\<forall>b \<in> set xs. 0 \<le> fst b" "\<forall>b \<in> set ys. 0 \<le> fst b" "0 \<le> fst b" using heap_tilesD(5) [OF assms(1)] by simp_all
  show ?thesis
    using assms(2,3) n first_free_bounds [OF n(1), of 0] first_free_bounds [OF n(2), of "12 + fst b + span xs"]
    by (auto simp: first_free_append min_def add.commute add.left_commute)
qed

lemma set_join_next: "b \<in> set (join_next l ys) \<Longrightarrow> snd b \<Longrightarrow> b \<in> set ys"
  by (cases "(l, ys)" rule: join_next.cases) auto

lemma set_join:
  assumes "b \<in> set (join_prev xs (join_next l ys))" "snd b"
  shows "b \<in> set xs \<or> b \<in> set ys"
proof -
  obtain l' ys' where j: "join_next l ys = (l', False) # ys'" by (rule join_next_cons)
  then have "b \<in> set ys'  \<Longrightarrow> b \<in> set ys" using set_join_next [of b l ys] assms(2) by simp
  then show ?thesis
    using assms unfolding j join_prev_def by (auto split: if_split_asm dest: in_set_butlastD)
qed

lemma free_locked:
  assumes ok: "heap_ok h (xs @ (l, True) # ys)"
  obtains h' where "free_locked (span xs) h = Some ((), h')" "heap_ok h' (join_prev xs (join_next l ys))"
    "heap_ptr h' = heap_ptr h" "heap_end h' = heap_end h" "mem_size_aligned h' = mem_size_aligned h"
    "max_mem h' = max_mem h" "heap_byte h' = heap_byte h"
proof -
  have t: "heap_tiles h (xs @ (l, True) # ys)" and c: "heap_counts h (xs @ (l, True) # ys)" and a: "apart (xs @ (l, True) # ys)"
    using ok by (simp_all add: heap_ok_def)
  define h1 where "h1 = set_hdr (span xs) (\<lambda>m. m\<lparr>hm_used := 0, hm_magic := HEAP_MAGIC\<rparr>) h"
  define h2 where "h2 = (if span xs < lfree h then h1\<lparr>lfree := span xs\<rparr> else h1)\<lparr>used_mem := used_mem h - (12 + l)\<rparr>"
  have h1: "heap_tiles h1 (xs @ (l, False) # ys)"
    unfolding h1_def by (rule heap_tiles_set [OF t]) (simp_all add: header_def)
  have nx: "hm_next (heap_hdr h (span xs)) = span xs + 12 + l" using t by (rule heap_tiles_at) simp
  have f: "free_locked (span xs) h = Some ((), plug_holes (span xs) h2)"
    using nx by (simp add: free_locked_def Let_def h2_def h1_def)
  have "heap_tiles h2 (xs @ (l, False) # ys)"
    using h1 by (subst heap_tiles_cong [of _ h1]) (simp_all add: h2_def)
  moreover have "heap_counts h2 (xs @ (l, False) # ys)"
    using c first_free_freed [OF t, of "(l, False)"] heap_tilesD(5) [OF t, of "(l, True)"]
    by (auto simp: heap_counts_def h2_def h1_def)
  ultimately have "heap_ok (plug_holes (span xs) h2) (join_prev xs (join_next l ys))"
    using plug_holes [of h2 xs l ys] apart_join [OF a] ok set_join [of _ xs l ys] by (auto simp: heap_ok_def)
  with f show thesis by (rule that) (simp_all add: h2_def h1_def)
qed

subsection \<open>First fit\<close>

fun first_fit :: "int \<Rightarrow> int \<Rightarrow> int \<Rightarrow> block list \<Rightarrow> int option" where
  "first_fit lim s p [] = None"
| "first_fit lim s p (b # bs) =
    (if p < lim then (if \<not> snd b \<and> s \<le> fst b then Some p else first_fit lim s (p + 12 + fst b) bs) else None)"

lemma first_fit_beyond: "lim \<le> p \<Longrightarrow> first_fit lim s p bs = None"
  by (cases bs) auto

lemma first_fit_used:
  "\<forall>b \<in> set xs. snd b \<Longrightarrow> \<forall>b \<in> set xs. 0 \<le> fst b \<Longrightarrow> first_fit lim s p (xs @ ys) = first_fit lim s (p + span xs) ys"
proof (induction xs arbitrary: p)
  case (Cons b xs)
  have "0 \<le> span xs" using Cons.prems(2) by (induction xs) auto
  then show ?case using Cons by (simp add: add.assoc first_fit_beyond)
qed simp

lemma first_fit_Some:
  "first_fit lim s p bs = Some o1 \<Longrightarrow>
   \<exists>xs l ys. bs = xs @ (l, False) # ys \<and> o1 = p + span xs \<and> s \<le> l \<and> o1 < lim \<and> (\<forall>b \<in> set xs. snd b \<or> fst b < s)"
proof (induction bs arbitrary: p)
  case (Cons b bs)
  show ?case
  proof (cases "\<not> snd b \<and> s \<le> fst b")
    case True
    then have "b # bs = [] @ (fst b, False) # bs \<and> o1 = p + span [] \<and> s \<le> fst b \<and> o1 < lim \<and> (\<forall>b \<in> set []. snd b \<or> fst b < s)"
      using Cons.prems by (cases b) (auto split: if_splits)
    then show ?thesis by blast
  next
    case False
    then have "first_fit lim s (p + 12 + fst b) bs = Some o1" using Cons.prems by (auto split: if_splits)
    from Cons.IH [OF this] obtain xs l ys where "bs = xs @ (l, False) # ys" "o1 = p + 12 + fst b + span xs" "s \<le> l" "o1 < lim"
      "\<forall>b \<in> set xs. snd b \<or> fst b < s" by blast
    then have "b # bs = (b # xs) @ (l, False) # ys \<and> o1 = p + span (b # xs) \<and> s \<le> l \<and> o1 < lim
      \<and> (\<forall>b \<in> set (b # xs). snd b \<or> fst b < s)" using False by auto
    then show ?thesis by blast
  qed
qed simp

lemma first_fit_None:
  assumes "first_fit lim s p (xs @ (l, False) # ys) = None" "s \<le> l" "\<forall>b \<in> set xs. 0 \<le> fst b"
  shows "lim \<le> p + span xs"
  using assms
proof (induction xs arbitrary: p)
  case (Cons b xs)
  have "0 \<le> span xs" using Cons.prems(3) by (induction xs) auto
  then show ?case using Cons.IH [of "p + 12 + fst b"] Cons.prems by (auto split: if_splits)
qed (auto split: if_splits)

lemma malloc_search_seg:
  assumes "seg (heap_hdr h) pv p bs pv' (heap_end h)" "0 \<le> p" "heap_end h = mem_size_aligned h + 12"
    "mem_size_aligned h + 24 < 2 ^ 32" "0 \<le> s" "s \<le> mem_size_aligned h"
  shows "malloc_search h s p = Some (first_fit (mem_size_aligned h - s) s p bs)"
proof -
  have lim: "(mem_size_aligned h - s) mod 2 ^ 32 = mem_size_aligned h - s" using assms(4-6) by (intro mod_pos_pos_trivial) linarith+
  show ?thesis
    using assms(1,2)
  proof (induction bs arbitrary: pv p)
    case Nil
    then show ?case using assms(3,5) lim by (subst malloc_search.simps) simp
  next
    case (Cons b bs)
    have s: "seg (heap_hdr h) p (p + 12 + fst b) bs pv' (heap_end h)" "0 \<le> fst b" "heap_hdr h p = header b p pv"
      using Cons.prems(1) by simp_all
    have "fst b mod 2 ^ 32 = fst b"
      using seg_span [OF s(1)] s(2) Cons.prems(2) assms(3,4) by (intro mod_pos_pos_trivial) linarith+
    then show ?case
      using Cons.IH [OF s(1)] s(2,3) Cons.prems(2) lim by (subst malloc_search.simps) (simp add: SIZEOF_STRUCT_MEM_def)
  qed
qed

lemma lfree_advance_seg:
  "seg (heap_hdr h) pv p bs pv' (heap_end h) \<Longrightarrow> lfree_advance h p = Some (first_free p bs)"
proof (induction bs arbitrary: pv p)
  case Nil
  then show ?case by (subst lfree_advance.simps) simp
next
  case (Cons b bs)
  then have s: "seg (heap_hdr h) p (p + 12 + fst b) bs pv' (heap_end h)" "0 \<le> fst b" "heap_hdr h p = header b p pv" by simp_all
  have "p \<noteq> heap_end h" using seg_span [OF s(1)] s(2) by linarith
  then show ?case using Cons.IH [OF s(1)] s(3) by (subst lfree_advance.simps) simp
qed

lemma first_free_split:
  obtains us rest where "bs = us @ rest" "\<forall>b \<in> set us. snd b" "first_free p bs = p + span us"
proof (induction bs arbitrary: p thesis)
  case Nil
  then show ?case by simp
next
  case (Cons b bs)
  show ?case
  proof (cases "snd b")
    case True
    from Cons.IH obtain us rest where "bs = us @ rest" "\<forall>b \<in> set us. snd b" "first_free (p + 12 + fst b) bs = p + 12 + fst b + span us"
      by blast
    then show ?thesis using Cons.prems [of "b # us" rest] True by simp
  next
    case False
    then show ?thesis using Cons.prems [of "[]" "b # bs"] by simp
  qed
qed

lemma malloc_search_ok:
  assumes "heap_ok h bs" "0 \<le> s" "s \<le> mem_size_aligned h"
  shows "malloc_search h s (lfree h) = Some (first_fit (mem_size_aligned h - s) s 0 bs)"
proof -
  have t: "heap_tiles h bs" and lf: "lfree h = first_free 0 bs" using assms(1) by (simp_all add: heap_ok_def heap_counts_def)
  obtain us rest where us: "bs = us @ rest" "\<forall>b \<in> set us. snd b" "first_free 0 bs = span us"
    using first_free_split [of bs 0] by auto
  obtain pv pv' where "seg (heap_hdr h) pv (span us) rest pv' (heap_end h)" "0 \<le> span us"
    using t us(1) by (auto elim: heap_tiles_seg)
  moreover have "\<forall>b \<in> set us. 0 \<le> fst b" using heap_tilesD(5) [OF t] us(1) by simp
  ultimately show ?thesis
    using malloc_search_seg [of h pv "span us" rest pv' s] heap_tilesD(3,7,8) [OF t] assms(2,3) us
      first_fit_used [of us "mem_size_aligned h - s" s 0 rest] by (simp add: lf)
qed


text \<open>Handing out a block.\<close>

definition carve :: "int \<Rightarrow> int \<Rightarrow> block list" where
  "carve s l = (if s + 24 \<le> l then [(s, True), (l - s - 12, False)] else [(l, True)])"

lemma carve_simps [simp]: "span (carve s l) = 12 + l"
  by (simp add: carve_def)

lemma apart_carve: "apart (xs @ (l, False) # ys) \<Longrightarrow> apart (xs @ carve s l @ ys)"
  by (cases xs rule: rev_cases; cases ys) (auto simp: carve_def successively_append_iff successively_Cons)

lemma count_used_simps [simp]:
  "heap_hdr (count_used n h) = heap_hdr h" "heap_ptr (count_used n h) = heap_ptr h" "heap_end (count_used n h) = heap_end h"
  "mem_size_aligned (count_used n h) = mem_size_aligned h" "lfree (count_used n h) = lfree h"
  "heap_byte (count_used n h) = heap_byte h" "used_mem (count_used n h) = used_mem h + n"
  "max_mem (count_used n h) = max (max_mem h) (used_mem h + n)"
  by (simp_all add: count_used_def Let_def)

lemma malloc_block:
  assumes ok: "heap_ok h (xs @ (l, False) # ys)" and s: "0 < s" "s \<le> l" "4 dvd s"
  obtains h' where "malloc_block s (span xs) h = Some (heap_ptr h + span xs + 12, h')" "heap_ok h' (xs @ carve s l @ ys)"
    "heap_ptr h' = heap_ptr h" "heap_end h' = heap_end h" "mem_size_aligned h' = mem_size_aligned h"
    "heap_byte h' = heap_byte h"
proof -
  have t: "heap_tiles h (xs @ (l, False) # ys)" and c: "heap_counts h (xs @ (l, False) # ys)" and a: "apart (xs @ (l, False) # ys)"
    using ok by (simp_all add: heap_ok_def)
  let ?use = "set_hdr (span xs) (hm_used_update (\<lambda>_. 1))" and ?magic = "set_hdr (span xs) (hm_magic_update (\<lambda>_. HEAP_MAGIC))"
  define bs where "bs = xs @ carve s l @ ys"
  have nx: "hm_next (heap_hdr h (span xs)) = span xs + 12 + l"
    and le: "0 \<le> l" "0 \<le> span xs" "span xs + 12 + l \<le> heap_end h" using t by (auto elim!: heap_tiles_at)
  have "(hm_next (heap_hdr h (span xs)) - (span xs + SIZEOF_STRUCT_MEM)) mod 2 ^ 32 = l"
    using le heap_tilesD(3,7,8) [OF t] unfolding nx SIZEOF_STRUCT_MEM_def by simp
  note len = this
  define h1 where "h1 = ?magic (if s + 24 \<le> l then count_used (s + 12) (?use (split_block (span xs) s h))
    else count_used (12 + l) (?use h))"
  have h1_tiles: "heap_tiles h1 bs"
  proof (cases "s + 24 \<le> l")
    case True
    have "heap_tiles (split_block (span xs) s h) (xs @ (s, False) # (l - s - 12, False) # ys)"
      by (rule split_block [OF t]) (use s True in simp_all)
    then have "heap_tiles (?use (split_block (span xs) s h)) (xs @ (s, True) # (l - s - 12, False) # ys)"
      by (rule heap_tiles_set) (simp_all add: header_def)
    then have "heap_tiles (count_used (s + 12) (?use (split_block (span xs) s h))) (xs @ (s, True) # (l - s - 12, False) # ys)"
      by (subst heap_tiles_cong) simp_all
    then show ?thesis
      unfolding h1_def bs_def using True
      by (simp add: carve_def) (rule heap_tiles_set [where b = "(s, True)"], simp_all add: header_def)
  next
    case False
    have "heap_tiles (?use h) (xs @ (l, True) # ys)" using t by (rule heap_tiles_set) (simp_all add: header_def)
    then have "heap_tiles (count_used (12 + l) (?use h)) (xs @ (l, True) # ys)" by (subst heap_tiles_cong) simp_all
    then show ?thesis
      unfolding h1_def bs_def using False
      by (simp add: carve_def) (rule heap_tiles_set [where b = "(l, True)"], simp_all add: header_def)
  qed
  have h1: "heap_ptr h1 = heap_ptr h" "heap_end h1 = heap_end h" "mem_size_aligned h1 = mem_size_aligned h"
    "heap_byte h1 = heap_byte h" "lfree h1 = lfree h" by (simp_all add: h1_def)
  have used: "used_mem h1 = used_span bs" "used_mem h1 \<le> max_mem h1"
    using c by (simp_all add: h1_def heap_counts_def bs_def carve_def)
  define h2 where "h2 = h1\<lparr>lfree := first_free 0 bs\<rparr>"
  have adv: "lfree_advance h1 (lfree h1) = Some (first_free 0 bs)" if "span xs = lfree h"
  proof -
    have "\<forall>b \<in> set xs. snd b"
    proof (rule ccontr)
      assume f: "\<not> (\<forall>b \<in> set xs. snd b)"
      have "\<forall>b \<in> set xs. 0 \<le> fst b" using heap_tilesD(5) [OF t] by simp
      then have "first_free 0 xs < span xs" using first_free_bounds [of xs 0] f by auto
      then show False using that c f by (auto simp: heap_counts_def first_free_append)
    qed
    then have "first_free 0 bs = first_free (span xs) (carve s l @ ys)" by (simp add: bs_def first_free_append)
    moreover obtain pv pv' where "seg (heap_hdr h1) pv (span xs) (carve s l @ ys) pv' (heap_end h1)"
      using h1_tiles unfolding bs_def by (rule heap_tiles_seg)
    ultimately show ?thesis using lfree_advance_seg h1(5) that by metis
  qed
  have same: "lfree h1 = first_free 0 bs" if "span xs \<noteq> lfree h"
    using c that h1(5) by (auto simp: heap_counts_def bs_def first_free_append)
  have "malloc_block s (span xs) h = Some (heap_ptr h + span xs + 12, h2)"
  proof -
    have eq: "?magic (if s + SIZEOF_STRUCT_MEM + MIN_SIZE_ALIGNED
          \<le> (hm_next (heap_hdr h (span xs)) - (span xs + SIZEOF_STRUCT_MEM)) mod 2 ^ 32
        then count_used (s + SIZEOF_STRUCT_MEM) (?use (split_block (span xs) s h))
        else count_used (hm_next (heap_hdr h (span xs)) - span xs) (?use h)) = h1"
      unfolding len unfolding h1_def nx SIZEOF_STRUCT_MEM_def MIN_SIZE_ALIGNED_def by simp
    have "malloc_block s (span xs) h = (if span xs = lfree h1 then
        (case lfree_advance h1 (lfree h1) of None \<Rightarrow> None | Some p \<Rightarrow> Some (heap_ptr h + span xs + 12, h1\<lparr>lfree := p\<rparr>))
      else Some (heap_ptr h + span xs + 12, h1))"
      unfolding malloc_block_def Let_def eq unfolding h1(1) SIZEOF_STRUCT_MEM_def by simp
    then show ?thesis using adv same h1(5) by (simp add: h2_def)
  qed
  moreover have "heap_ok h2 bs"
  proof -
    have "heap_tiles h2 bs" using h1_tiles by (subst heap_tiles_cong [of _ h1]) (simp_all add: h2_def)
    moreover have "\<forall>b \<in> set bs. snd b \<longrightarrow> 0 < fst b" using ok s(1,2) by (auto simp: heap_ok_def bs_def carve_def)
    ultimately show ?thesis
      using used apart_carve [OF a] unfolding heap_ok_def by (simp add: heap_counts_def h2_def bs_def)
  qed
  ultimately show thesis using that h1 by (simp add: bs_def h2_def)
qed

subsection \<open>Shrinking a block in place\<close>

lemma realloc_locked:
  assumes ok: "heap_ok h (xs @ (l, True) # ys)" and n: "0 < n" "4 dvd n" and p: "rmem = heap_ptr h + span xs + 12"
  obtains h' where "realloc_locked rmem n h = Some (if l = n \<or> n + 24 < l then Inl rmem else Inr l, h')"
    "heap_ok h' (if n + 24 < l then xs @ (n, True) # join_next (l - n - 12) ys else xs @ (l, True) # ys)"
    "heap_ptr h' = heap_ptr h" "heap_end h' = heap_end h" "mem_size_aligned h' = mem_size_aligned h"
    "heap_byte h' = heap_byte h" "n + 24 < l \<or> h' = h"
proof -
  have t: "heap_tiles h (xs @ (l, True) # ys)" and c: "heap_counts h (xs @ (l, True) # ys)" and a: "apart (xs @ (l, True) # ys)"
    and pos: "0 < l"
    using ok by (simp_all add: heap_ok_def)
  have nx: "hm_next (heap_hdr h (span xs)) = span xs + 12 + l"
    and le: "0 \<le> l" "0 \<le> span xs" "span xs + 12 + l \<le> heap_end h" using t by (auto elim!: heap_tiles_at)
  have len: "(hm_next (heap_hdr h (span xs)) - span xs - SIZEOF_STRUCT_MEM) mod 2 ^ 32 = l"
    using le heap_tilesD(3,7,8) [OF t] unfolding nx SIZEOF_STRUCT_MEM_def by simp
  have inside: "\<not> (rmem < heap_ptr h \<or> heap_ptr h + heap_end h \<le> rmem)" if "n + 24 < l \<or> 0 < l"
    using le that n(1) p by auto
  have ptr: "rmem - SIZEOF_STRUCT_MEM - heap_ptr h = span xs" by (simp add: p SIZEOF_STRUCT_MEM_def)
  show thesis
  proof (cases "n + 24 < l")
    case False
    have "realloc_locked rmem n h = Some (if l = n then Inl rmem else Inr l, h)" if "0 < l"
      using False inside that unfolding realloc_locked_def Let_def ptr len by (simp add: SIZEOF_STRUCT_MEM_def)
    then show thesis using False ok pos that [of h] by simp
  next
    case True
    define h1 where "h1 = h\<lparr>used_mem := used_mem h - (l - n)\<rparr>"
    define h2 where "h2 = split_block (span xs) n h1"
    define p2 where "p2 = span xs + 12 + n"
    define h3 where "h3 = (if p2 < lfree h2 then h2\<lparr>lfree := p2\<rparr> else h2)"
    have r: "realloc_locked rmem n h = Some (Inl rmem, plug_holes p2 h3)"
      using True inside unfolding realloc_locked_def Let_def ptr len
      by (simp add: h3_def h2_def h1_def p2_def SIZEOF_STRUCT_MEM_def)
    have "heap_tiles h1 (xs @ (l, True) # ys)" using t by (subst heap_tiles_cong) (simp_all add: h1_def)
    then have t2: "heap_tiles h2 (xs @ (n, True) # (l - n - 12, False) # ys)"
      unfolding h2_def by (rule split_block) (use n True in simp_all)
    then have "heap_tiles h3 ((xs @ [(n, True)]) @ (l - n - 12, False) # ys)"
      by (subst heap_tiles_cong) (simp_all add: h3_def)
    moreover have "heap_counts h3 ((xs @ [(n, True)]) @ (l - n - 12, False) # ys)"
    proof -
      have fs: "\<forall>b \<in> set xs. 0 \<le> fst b" "\<forall>b \<in> set ys. 0 \<le> fst b" using heap_tilesD(5) [OF t] by simp_all
      have "lfree h2 = first_free 0 (xs @ (l, True) # ys)" using c by (simp add: heap_counts_def h2_def h1_def)
      then have "lfree h3 = first_free 0 ((xs @ [(n, True)]) @ (l - n - 12, False) # ys)"
        using True le first_free_bounds [OF fs(1), of 0] first_free_bounds [OF fs(2), of "span xs + 12 + l"]
        using n(1) by (auto simp: h3_def first_free_append p2_def)
      then show ?thesis using c True by (simp add: heap_counts_def h3_def h2_def h1_def)
    qed
    ultimately have "heap_tiles (plug_holes p2 h3) (join_prev (xs @ [(n, True)]) (join_next (l - n - 12) ys))
        \<and> heap_counts (plug_holes p2 h3) (join_prev (xs @ [(n, True)]) (join_next (l - n - 12) ys))"
      using plug_holes [of h3 "xs @ [(n, True)]"] by (simp add: p2_def ac_simps)
    moreover have "apart (xs @ (n, True) # join_next (l - n - 12) ys)"
      using a by (cases "(l - n - 12, ys)" rule: join_next.cases) (auto simp: successively_append_iff successively_Cons)
    ultimately have "heap_ok (plug_holes p2 h3) (xs @ (n, True) # join_next (l - n - 12) ys)"
      using ok n(1) set_join_next [of _ "l - n - 12" ys] by (auto simp: heap_ok_def join_prev_def)
    then show thesis using True r that by (simp add: h3_def h2_def h1_def)
  qed
qed

end
