(* ===== verification/Heap_Theorems.thy ===== *)
theory Heap_Theorems
  imports Heap
begin

text \<open>The blocks in use, the contract of an allocator and the properties of the heap.\<close>

subsection \<open>The live blocks\<close>

text \<open>The blocks in use, as the addresses and lengths of their data.\<close>

primrec live :: "int \<Rightarrow> block list \<Rightarrow> (int \<times> int) set" where
  "live p [] = {}"
| "live p (b # bs) = (if snd b then insert (p + 12, fst b) (live (p + 12 + fst b) bs) else live (p + 12 + fst b) bs)"

lemma live_append: "live p (xs @ ys) = live p xs \<union> live (p + span xs) ys"
  by (induction xs arbitrary: p) (simp_all add: add.assoc)

lemma span_nonneg: "\<forall>b \<in> set bs. 0 \<le> fst b \<Longrightarrow> 0 \<le> span bs"
  by (induction bs) auto

lemma live_bounds:
  "(q, n) \<in> live p bs \<Longrightarrow> \<forall>b \<in> set bs. 0 \<le> fst b \<Longrightarrow> p + 12 \<le> q \<and> 0 \<le> n \<and> q + n \<le> p + span bs"
proof (induction bs arbitrary: p)
  case (Cons b bs)
  then have "(q, n) = (p + 12, fst b) \<or> (q, n) \<in> live (p + 12 + fst b) bs" by (auto split: if_splits)
  then show ?case using span_nonneg [of bs] Cons.IH [of "p + 12 + fst b"] Cons.prems(2) by fastforce
qed simp

lemma live_split: "(q, n) \<in> live p bs \<Longrightarrow> \<exists>xs ys. bs = xs @ (n, True) # ys \<and> q = p + span xs + 12"
proof (induction bs arbitrary: p)
  case (Cons b bs)
  show ?case
  proof (cases "snd b \<and> (q, n) = (p + 12, fst b)")
    case True
    then have "b # bs = [] @ (n, True) # bs \<and> q = p + span [] + 12" by (cases b) simp
    then show ?thesis by blast
  next
    case False
    then have "(q, n) \<in> live (p + 12 + fst b) bs" using Cons.prems by (auto split: if_splits)
    from Cons.IH [OF this] obtain xs ys where "bs = xs @ (n, True) # ys" "q = p + 12 + fst b + span xs + 12" by blast
    then have "b # bs = (b # xs) @ (n, True) # ys \<and> q = p + span (b # xs) + 12" by simp
    then show ?thesis by blast
  qed
qed simp

lemma live_join_next: "live p (join_next l ys) = live (p + 12 + l) ys"
  by (cases "(l, ys)" rule: join_next.cases) (simp_all add: ac_simps)

lemma live_join: "live p (join_prev xs (join_next l ys)) = live p xs \<union> live (p + span xs + 12 + l) ys"
proof (cases xs rule: rev_cases)
  case Nil
  then show ?thesis by (simp add: join_prev_def live_join_next)
next
  case (snoc zs z)
  obtain l' ys' where j: "join_next l ys = (l', False) # ys'" by (rule join_next_cons)
  then have "live q ys' = live (q - l' + l) ys" for q using live_join_next [of "q - 12 - l'" l ys] by (simp add: ac_simps)
  then show ?thesis unfolding j by (simp add: join_prev_def snoc live_append ac_simps)
qed

lemma live_carve: "live p (xs @ carve s l @ ys) =
  insert (p + span xs + 12, if s + 24 \<le> l then s else l) (live p xs \<union> live (p + span xs + 12 + l) ys)"
  by (simp add: live_append carve_def ac_simps)

text \<open>A heap has one list of blocks.\<close>

lemma seg_unique:
  "seg m pv p bs pv1 e \<Longrightarrow> seg m pv p bs' pv2 e \<Longrightarrow> bs = bs'"
proof (induction bs arbitrary: pv p bs')
  case Nil
  then show ?case using seg_span [of m] by (cases bs') fastforce+
next
  case (Cons b bs)
  then have s: "seg m p (p + 12 + fst b) bs pv1 e" "0 \<le> fst b" "m p = header b p pv" by simp_all
  have "p \<noteq> e" using seg_span [OF s(1)] s(2) by linarith
  then obtain c cs where bs': "bs' = c # cs" using Cons.prems(2) by (cases bs') auto
  then have c: "m p = header c p pv" "seg m p (p + 12 + fst c) cs pv2 e" using Cons.prems(2) by simp_all
  have "fst b = fst c" using s(3) c(1) by (simp add: header_def)
  moreover have "(if snd b then 1 else 0 :: u16) = (if snd c then 1 else 0)" using s(3) c(1) by (simp add: header_def)
  then have "snd b = snd c" by (simp split: if_splits)
  ultimately have "b = c" by (rule prod_eqI)
  then show ?case using Cons.IH [OF s(1)] c(2) bs' by simp
qed

lemma heap_ok_unique: "heap_ok h bs \<Longrightarrow> heap_ok h bs' \<Longrightarrow> bs = bs'"
  unfolding heap_ok_def heap_tiles_def by (blast intro: seg_unique)

definition heap_live :: "heap \<Rightarrow> (int \<times> int) set" where
  "heap_live h = {x. \<exists>bs. heap_ok h bs \<and> x \<in> live (heap_ptr h) bs}"

lemma heap_live: "heap_ok h bs \<Longrightarrow> heap_live h = live (heap_ptr h) bs"
  unfolding heap_live_def using heap_ok_unique by blast

lemma heap_okD:
  assumes "heap_ok h bs"
  shows "\<forall>b \<in> set bs. 0 \<le> fst b" "heap_end h = mem_size_aligned h + 12" "0 \<le> heap_ptr h" "0 \<le> mem_size_aligned h"
    "heap_ptr h + mem_size_aligned h + 24 < 2 ^ 32" "span bs = heap_end h"
    "b \<in> set bs \<Longrightarrow> snd b \<Longrightarrow> 0 < fst b"
  using assms heap_tilesD [of h bs] by (auto simp: heap_ok_def)

subsection \<open>The locked parts together\<close>

definition heap_malloc :: "int \<Rightarrow> heap \<Rightarrow> (int option \<times> heap) option" where
  "heap_malloc size0 h =
    (if size0 = 0 \<or> mem_size_aligned h < align_up size0 then Some (None, h)
     else malloc_locked (max MIN_SIZE_ALIGNED (align_up size0)) h)"

definition heap_free :: "int \<Rightarrow> heap \<Rightarrow> heap option" where
  "heap_free p h = map_option snd (free_locked (p - SIZEOF_STRUCT_MEM - heap_ptr h) h)"

definition heap_sem_free :: "kernel \<Rightarrow> bool" where
  "heap_sem_free k \<longleftrightarrow> 0 < sem_value (semaphores k heap_sem) \<and> tq k (SemQ heap_sem) = []"

text \<open>With the semaphore free the lock leaves the kernel as it was.\<close>

lemma heap_locked_free:
  assumes "heap_sem_free k"
  shows "heap_locked body h k = map_option (\<lambda>rh. Returned rh k) (body h)"
proof -
  define k1 where "k1 = set_sem heap_sem (sem_value_update (\<lambda>v. v - 1)) k"
  have v: "0 < sem_value (semaphores k heap_sem)" "tq k (SemQ heap_sem) = []" using assms by (simp_all add: heap_sem_free_def)
  have "unat (sem_value (semaphores k heap_sem)) < 65536"
    using unsigned_less [of "sem_value (semaphores k heap_sem)", where 'a = nat] by simp
  then have "sem_value (semaphores k heap_sem) - 1 < RT_SEM_VALUE_MAX"
    using unat_minus_one16 [OF v(1)] by (simp add: RT_SEM_VALUE_MAX_def word_less_nat_alt)
  then have "rt_sem_release heap_sem k1 = (RT_EOK, set_sem heap_sem (sem_value_update (\<lambda>v. v + 1)) k1)"
    using v(2) by (simp add: rt_sem_release_def k1_def set_sem_def)
  also have "set_sem heap_sem (sem_value_update (\<lambda>v. v + 1)) k1 = k"
    by (simp add: k1_def set_sem_def comp_def fun_upd_idem)
  finally show ?thesis
    using sem_take_now(1) [OF v(1)] by (simp add: heap_locked_def heap_unlock_def k1_def split: option.split)
qed


lemma and_not_3: "(x AND NOT 3) = x - x mod 4" for x :: int
proof -
  have "x - take_bit 2 x = x AND NOT (take_bit 2 x)" by (rule disjunctive_diff) (simp add: bit_take_bit_iff)
  also have "\<dots> = x AND NOT (mask 2)"
    by (rule bit_eqI) (auto simp: bit_and_iff bit_not_iff bit_take_bit_iff bit_mask_iff)
  also have "mask 2 = (3 :: int)" by (simp add: mask_eq_exp_minus_1)
  finally show ?thesis by (simp add: take_bit_eq_mod)
qed

lemma align_up_eq: "0 \<le> s \<Longrightarrow> s \<le> 2 ^ 32 - 4 \<Longrightarrow> align_up s = s + (- s) mod 4"
proof -
  assume s: "0 \<le> s" "s \<le> 2 ^ 32 - 4"
  have "(s + 3) mod 2 ^ 32 = s + 3" using s by simp
  then have "align_up s = (s + 3) - (s + 3) mod 4" by (simp only: align_up_def and_not_3)
  then show ?thesis by presburger
qed

lemma align_up: "0 \<le> s \<Longrightarrow> s \<le> 2 ^ 32 - 4 \<Longrightarrow> s \<le> align_up s \<and> align_up s < s + 4 \<and> 4 dvd align_up s"
  by (simp add: align_up_eq) presburger

text \<open>What an allocation does to the blocks.\<close>

lemma heap_malloc:
  assumes ok: "heap_ok h bs" and big: "12 \<le> mem_size_aligned h" and s: "0 < size0" "size0 \<le> 2 ^ 32 - 4"
  defines "s \<equiv> max 12 (align_up size0)"
  obtains
    (none) "heap_malloc size0 h = Some (None, h)"
      "\<And>xs l ys. bs = xs @ (l, False) # ys \<Longrightarrow> s \<le> l \<Longrightarrow> mem_size_aligned h \<le> span xs + s"
  | (some) xs l ys h' where "bs = xs @ (l, False) # ys" "s \<le> l" "\<forall>b \<in> set xs. snd b \<or> fst b < s"
      "heap_malloc size0 h = Some (Some (heap_ptr h + span xs + 12), h')" "heap_ok h' (xs @ carve s l @ ys)"
      "heap_ptr h' = heap_ptr h" "heap_end h' = heap_end h" "mem_size_aligned h' = mem_size_aligned h"
      "heap_byte h' = heap_byte h"
proof -
  have al: "size0 \<le> align_up size0" "4 dvd align_up size0" using align_up [of size0] s by auto
  note bd = heap_okD [OF ok]
  have le: "span xs + 12 + l \<le> heap_end h" if "bs = xs @ (l, u) # ys" for xs l u ys
    using bd(1,6) that span_nonneg [of ys] by auto
  show thesis
  proof (cases "mem_size_aligned h < align_up size0")
    case True
    then have m: "heap_malloc size0 h = Some (None, h)" by (simp add: heap_malloc_def)
    show thesis
    proof (rule none [OF m])
      fix xs l ys assume "bs = xs @ (l, False) # ys" "s \<le> l"
      then show "mem_size_aligned h \<le> span xs + s"
        using True span_nonneg [of xs] bd(1) by (auto simp: s_def)
    qed
  next
    case False
    have sb: "0 < s" "s \<le> mem_size_aligned h" "4 dvd s" using False big al by (auto simp: s_def max_def)
    have m: "heap_malloc size0 h = malloc_locked s h"
      using False s by (simp add: heap_malloc_def s_def MIN_SIZE_ALIGNED_def)
    have srch: "malloc_search h s (lfree h) = Some (first_fit (mem_size_aligned h - s) s 0 bs)"
      using sb by (intro malloc_search_ok [OF ok]) auto
    show thesis
    proof (cases "first_fit (mem_size_aligned h - s) s 0 bs")
      case None
      then have m: "heap_malloc size0 h = Some (None, h)" using m srch by (simp add: malloc_locked_def)
      show thesis
      proof (rule none [OF m])
        fix xs l ys assume x: "bs = xs @ (l, False) # ys" "s \<le> l"
        then show "mem_size_aligned h \<le> span xs + s"
          using first_fit_None [of "mem_size_aligned h - s" s 0 xs l ys] None bd(1) by auto
      qed
    next
      case (Some o1)
      from first_fit_Some [OF Some] obtain xs l ys where x: "bs = xs @ (l, False) # ys" "o1 = span xs" "s \<le> l"
        "\<forall>b \<in> set xs. snd b \<or> fst b < s" by auto
      obtain h' where h': "malloc_block s (span xs) h = Some (heap_ptr h + span xs + 12, h')" "heap_ok h' (xs @ carve s l @ ys)"
        "heap_ptr h' = heap_ptr h" "heap_end h' = heap_end h" "mem_size_aligned h' = mem_size_aligned h" "heap_byte h' = heap_byte h"
        by (rule malloc_block [OF ok [unfolded x(1)] sb(1) x(3) sb(3)])
      have "heap_malloc size0 h = Some (Some (heap_ptr h + span xs + 12), h')"
        using m srch Some x(2) h'(1) by (simp add: malloc_locked_def)
      then show thesis using x h' by (intro some)
    qed
  qed
qed

lemma heap_free:
  assumes ok: "heap_ok h (xs @ (l, True) # ys)"
  obtains h' where "heap_free (heap_ptr h + span xs + 12) h = Some h'" "heap_ok h' (join_prev xs (join_next l ys))"
    "heap_ptr h' = heap_ptr h" "heap_end h' = heap_end h" "mem_size_aligned h' = mem_size_aligned h"
    "heap_byte h' = heap_byte h"
proof -
  obtain h' where "free_locked (span xs) h = Some ((), h')" "heap_ok h' (join_prev xs (join_next l ys))"
    "heap_ptr h' = heap_ptr h" "heap_end h' = heap_end h" "mem_size_aligned h' = mem_size_aligned h"
    "heap_byte h' = heap_byte h"
    using free_locked [OF ok] by metis
  then show thesis by (intro that [of h']) (simp_all add: heap_free_def SIZEOF_STRUCT_MEM_def)
qed

subsection \<open>The contract of an allocator\<close>

text \<open>
  What the users of an allocator rely on: an allocation gives a block of at least the size asked for, apart from
  all live ones, or changes nothing that is live; freeing a live block takes away just that one.
\<close>

definition apart_blocks :: "(int \<times> int) set \<Rightarrow> bool" where
  "apart_blocks L \<longleftrightarrow> (\<forall>p n q m. (p, n) \<in> L \<longrightarrow> (q, m) \<in> L \<longrightarrow> (p, n) \<noteq> (q, m) \<longrightarrow> p + n \<le> q \<or> q + m \<le> p)"

lemma apart_insert:
  assumes "apart_blocks L" "\<forall>q m. (q, m) \<in> L \<longrightarrow> p + n \<le> q \<or> q + m \<le> p"
  shows "apart_blocks (insert (p, n) L)"
  using assms unfolding apart_blocks_def by (metis insert_iff prod.inject)

lemma apart_subset: "apart_blocks L \<Longrightarrow> K \<subseteq> L \<Longrightarrow> apart_blocks K"
  unfolding apart_blocks_def by (meson subsetD)

locale allocator =
  fixes ok :: "'h \<Rightarrow> bool" and live :: "'h \<Rightarrow> (int \<times> int) set" and valid :: "int \<Rightarrow> bool"
    and alloc :: "int \<Rightarrow> 'h \<Rightarrow> (int option \<times> 'h) option" and dealloc :: "int \<Rightarrow> 'h \<Rightarrow> 'h option"
  assumes alloc_law: "ok h \<Longrightarrow> valid s \<Longrightarrow> \<exists>r h'. alloc s h = Some (r, h') \<and> ok h' \<and>
      (case r of None \<Rightarrow> live h' = live h
       | Some p \<Rightarrow> \<exists>n \<ge> s. live h' = insert (p, n) (live h) \<and> (\<forall>q m. (q, m) \<in> live h \<longrightarrow> p + n \<le> q \<or> q + m \<le> p))"
    and dealloc_law: "ok h \<Longrightarrow> (p, n) \<in> live h \<Longrightarrow> \<exists>h'. dealloc p h = Some h' \<and> ok h' \<and> live h' = live h - {(p, n)}"
begin

inductive reach :: "'h \<Rightarrow> 'h \<Rightarrow> bool" for h0 where
  start: "reach h0 h0"
| alloc: "reach h0 h \<Longrightarrow> valid s \<Longrightarrow> alloc s h = Some (r, h') \<Longrightarrow> reach h0 h'"
| dealloc: "reach h0 h \<Longrightarrow> (p, n) \<in> live h \<Longrightarrow> dealloc p h = Some h' \<Longrightarrow> reach h0 h'"

lemma reach_apart: "reach h0 h \<Longrightarrow> ok h0 \<Longrightarrow> apart_blocks (live h0) \<Longrightarrow> ok h \<and> apart_blocks (live h)"
proof (induction rule: reach.induct)
  case (alloc h s r h')
  then have ih: "ok h" "apart_blocks (live h)" by auto
  show ?case using alloc_law [OF ih(1) alloc.hyps(2)] ih(2) alloc.hyps(3)
    by (auto intro: apart_insert split: option.splits)
next
  case (dealloc h p n h')
  then have ih: "ok h" "apart_blocks (live h)" by auto
  show ?case using dealloc_law [OF ih(1) dealloc.hyps(2)] ih(2) dealloc.hyps(3)
    by (auto intro: apart_subset)
qed auto

text \<open>A block that stays live is not handed out again, and freeing what was just handed out gives back the live blocks.\<close>

lemma alloc_dealloc:
  assumes "ok h" "valid s" "0 < s" "alloc s h = Some (Some p, h')"
  shows "\<exists>h''. dealloc p h' = Some h'' \<and> ok h'' \<and> live h'' = live h"
proof -
  obtain n where n: "ok h'" "s \<le> n" "live h' = insert (p, n) (live h)"
    "\<forall>q m. (q, m) \<in> live h \<longrightarrow> p + n \<le> q \<or> q + m \<le> p"
    using alloc_law [OF assms(1,2)] assms(4) by auto
  then have "(p, n) \<notin> live h" using assms(3) by fastforce
  then show ?thesis using dealloc_law [OF n(1), of p n] n(3) by auto
qed

end

lemma live_not: "\<forall>b \<in> set bs. 0 \<le> fst b \<Longrightarrow> q < p + 12 \<or> p + span bs < q \<Longrightarrow> (q, n) \<notin> live p bs"
  using live_bounds [of q n p bs] by auto

lemma heap_free_live:
  assumes ok: "heap_ok h bs" and p: "(p, n) \<in> heap_live h"
  obtains h' bs' where "heap_free p h = Some h'" "heap_ok h' bs'" "heap_live h' = heap_live h - {(p, n)}"
    "heap_ptr h' = heap_ptr h" "heap_end h' = heap_end h" "mem_size_aligned h' = mem_size_aligned h"
    "heap_byte h' = heap_byte h" "heap_ptr h \<le> p" "p < heap_ptr h + heap_end h"
proof -
  have "(p, n) \<in> live (heap_ptr h) bs" using p heap_live [OF ok] by simp
  then obtain xs ys where x: "bs = xs @ (n, True) # ys" "p = heap_ptr h + span xs + 12" using live_split by blast
  note bd = heap_okD [OF ok]
  have f: "\<forall>b \<in> set xs. 0 \<le> fst b" "\<forall>b \<in> set ys. 0 \<le> fst b" "0 < n" using bd(1,7) x(1) by auto
  note nn = span_nonneg [OF f(1)] span_nonneg [OF f(2)]
  obtain h' where h': "heap_free p h = Some h'" "heap_ok h' (join_prev xs (join_next n ys))"
    "heap_ptr h' = heap_ptr h" "heap_end h' = heap_end h" "mem_size_aligned h' = mem_size_aligned h" "heap_byte h' = heap_byte h"
    unfolding x(2) by (rule heap_free [OF ok [unfolded x(1)]])
  have "heap_live h' = live (heap_ptr h) xs \<union> live (p + n) ys"
    using heap_live [OF h'(2)] h'(3) x(2) by (simp add: live_join)
  moreover have "heap_live h = insert (p, n) (live (heap_ptr h) xs \<union> live (p + n) ys)"
    using heap_live [OF ok] x by (simp add: live_append)
  moreover have "(p, n) \<notin> live (heap_ptr h) xs" "(p, n) \<notin> live (p + n) ys"
    using live_not [OF f(1)] live_not [OF f(2)] x(2) f(3) by auto
  ultimately have "heap_live h' = heap_live h - {(p, n)}" by auto
  moreover have "p < heap_ptr h + heap_end h" using bd(6) x nn f(3) by auto
  moreover have "heap_ptr h \<le> p" using x(2) nn by simp
  ultimately show thesis using that h' by blast
qed

lemma heap_malloc_live:
  assumes ok: "heap_ok h bs" and big: "12 \<le> mem_size_aligned h" and s: "0 < s" "s \<le> 2 ^ 32 - 4"
  obtains
    (none) "heap_malloc s h = Some (None, h)"
  | (some) p n h' bs' where "heap_malloc s h = Some (Some p, h')" "heap_ok h' bs'" "s \<le> n" "align_up s \<le> n"
      "heap_live h' = insert (p, n) (heap_live h)" "\<And>q m. (q, m) \<in> heap_live h \<Longrightarrow> p + n \<le> q \<or> q + m \<le> p"
      "heap_ptr h' = heap_ptr h" "heap_end h' = heap_end h" "mem_size_aligned h' = mem_size_aligned h"
      "heap_byte h' = heap_byte h"
proof (rule heap_malloc [OF ok big s])
  fix xs l ys h' assume x: "bs = xs @ (l, False) # ys" "max 12 (align_up s) \<le> l"
    and m: "heap_malloc s h = Some (Some (heap_ptr h + span xs + 12), h')"
    and h': "heap_ok h' (xs @ carve (max 12 (align_up s)) l @ ys)"
      "heap_ptr h' = heap_ptr h" "heap_end h' = heap_end h" "mem_size_aligned h' = mem_size_aligned h"
      "heap_byte h' = heap_byte h"
  note bd = heap_okD [OF ok]
  have f: "\<forall>b \<in> set xs. 0 \<le> fst b" "\<forall>b \<in> set ys. 0 \<le> fst b" using bd(1) x(1) by auto
  have al: "s \<le> align_up s" using align_up [of s] s by simp
  define n where "n = (if max 12 (align_up s) + 24 \<le> l then max 12 (align_up s) else l)"
  have n: "align_up s \<le> n" "n \<le> l" using x(2) by (auto simp: n_def)
  have "heap_live h' = insert (heap_ptr h + span xs + 12, n) (heap_live h)"
    using heap_live [OF h'(1)] heap_live [OF ok] h'(2) x(1)
    by (simp only: live_carve n_def) (simp add: live_append ac_simps)
  moreover have "heap_ptr h + span xs + 12 + n \<le> q \<or> q + m \<le> heap_ptr h + span xs + 12" if "(q, m) \<in> heap_live h" for q m
  proof -
    have "(q, m) \<in> live (heap_ptr h) xs \<or> (q, m) \<in> live (heap_ptr h + span xs + 12 + l) ys"
      using that heap_live [OF ok] x(1) by (simp add: live_append ac_simps)
    then show ?thesis
    proof
      assume "(q, m) \<in> live (heap_ptr h) xs"
      from live_bounds [OF this f(1)] show ?thesis by auto
    next
      assume "(q, m) \<in> live (heap_ptr h + span xs + 12 + l) ys"
      from live_bounds [OF this f(2)] show ?thesis using n(2) by auto
    qed
  qed
  ultimately show thesis using m h' n al by (intro some [of "heap_ptr h + span xs + 12" h' _ n]) auto
qed (use none in blast)

interpretation heapa: allocator "\<lambda>h. (\<exists>bs. heap_ok h bs) \<and> 12 \<le> mem_size_aligned h" heap_live "\<lambda>s. 0 < s \<and> s \<le> 2 ^ 32 - 4"
  heap_malloc heap_free
proof (unfold_locales, goal_cases)
  case (1 h s)
  then obtain bs where *: "heap_ok h bs" "12 \<le> mem_size_aligned h" "0 < s" "s \<le> 2 ^ 32 - 4" by blast
  show ?case
  proof (rule heap_malloc_live [OF *])
    assume "heap_malloc s h = Some (None, h)"
    then show ?thesis using 1 by auto
  next
    fix p n h' bs' assume "heap_malloc s h = Some (Some p, h')" "heap_ok h' bs'" "s \<le> n"
      "heap_live h' = insert (p, n) (heap_live h)" "\<And>q m. (q, m) \<in> heap_live h \<Longrightarrow> p + n \<le> q \<or> q + m \<le> p"
      "mem_size_aligned h' = mem_size_aligned h"
    then show ?thesis using 1 by (intro exI [of _ "Some p"] exI [of _ h']) auto
  qed
next
  case (2 h p n)
  then obtain bs where "heap_ok h bs" by blast
  from heap_free_live [OF this 2(2)] obtain h' bs' where "heap_free p h = Some h'" "heap_ok h' bs'"
    "heap_live h' = heap_live h - {(p, n)}" "mem_size_aligned h' = mem_size_aligned h" by metis
  then show ?case using 2 by auto
qed

section \<open>Properties of the heap\<close>

lemma rt_malloc_free_sem:
  assumes "heap_sem_free k"
  shows "rt_malloc s h k = map_option (\<lambda>rh. Returned rh k) (heap_malloc s h)"
proof -
  have "(if align_up s < MIN_SIZE_ALIGNED then MIN_SIZE_ALIGNED else align_up s) = max MIN_SIZE_ALIGNED (align_up s)"
    by (simp add: max_def)
  then show ?thesis by (simp add: rt_malloc_def heap_malloc_def heap_locked_free [OF assms] Let_def)
qed

lemma rt_free_free_sem:
  assumes "heap_sem_free k" "heap_ptr h \<le> p" "p < heap_ptr h + heap_end h"
  shows "rt_free (Some p) h k = map_option (\<lambda>h. Returned ((), h) k) (heap_free p h)"
  using assms(2,3) by (auto simp: rt_free_def heap_free_def heap_locked_free [OF assms(1)] option.map_comp comp_def
    intro!: option.map_cong)

lemma heap_init_ok:
  fixes k :: kernel
  assumes "0 \<le> b" "b \<le> 2 ^ 32 - 4" "0 \<le> e" "e < 2 ^ 32" and room: "24 < e - e mod 4" "align_up b \<le> e - e mod 4 - 24"
    and "used_mem h = 0" "0 \<le> max_mem h"
  defines "h' \<equiv> fst (rt_system_heap_init b e h k)"
  shows "heap_ok h' [(e - e mod 4 - align_up b - 24, False)]" "heap_ptr h' = align_up b"
    "mem_size_aligned h' = e - e mod 4 - align_up b - 24"
proof -
  note al = align_up [OF assms(1,2)]
  have "4 dvd e - e mod 4 - align_up b - 24" using al by (simp add: minus_mod_eq_mult_div)
  moreover have "0 \<le> e mod 4" by simp
  then have "e - e mod 4 < 2 ^ 32" using assms(4) by linarith
  ultimately show "heap_ok h' [(e - e mod 4 - align_up b - 24, False)]" "heap_ptr h' = align_up b"
    "mem_size_aligned h' = e - e mod 4 - align_up b - 24"
    using assms(1,7,8) room al and_not_3 [of e]
    by (simp_all add: h'_def rt_system_heap_init_def Let_def SIZEOF_STRUCT_MEM_def
      heap_ok_def heap_tiles_def heap_counts_def header_def)
qed

lemma free_joins:
  assumes ok: "heap_ok h (xs @ (l, True) # ys)" and k: "heap_sem_free k"
  obtains h' where "rt_free (Some (heap_ptr h + span xs + 12)) h k = Some (Returned ((), h') k)"
    "heap_ok h' (join_prev xs (join_next l ys))" "heap_byte h' = heap_byte h"
proof -
  note bd = heap_okD [OF ok]
  have "0 \<le> span xs" "0 \<le> span ys" "0 < l" using bd(1,7) by (auto intro: span_nonneg)
  then have r: "heap_ptr h \<le> heap_ptr h + span xs + 12" "heap_ptr h + span xs + 12 < heap_ptr h + heap_end h" using bd(6) by auto
  show thesis
    by (rule heap_free [OF ok]) (use that rt_free_free_sem [OF k r] in simp)
qed

text \<open>The heap the witnesses use: 876 bytes from address 100 on, and a kernel whose heap semaphore is free.\<close>

definition zero_heap :: heap where
  "zero_heap = \<lparr>heap_ptr = 0, heap_end = 0, lfree = 0, mem_size_aligned = 0, used_mem = 0, max_mem = 0,
     heap_hdr = (\<lambda>_. \<lparr>hm_magic = 0, hm_used = 0, hm_next = 0, hm_prev = 0\<rparr>), heap_byte = (\<lambda>_. 0)\<rparr>"

definition sample_heap :: heap where
  "sample_heap = fst (rt_system_heap_init 100 1000 zero_heap reset_kernel)"

definition heap_kernel :: kernel where
  "heap_kernel = set_sem heap_sem (sem_value_update (\<lambda>_. 1)) reset_kernel"

lemma heap_kernel_free: "heap_sem_free heap_kernel"
  by (simp add: heap_sem_free_def heap_kernel_def set_sem_def reset_kernel_def)

lemma sample_heap_ok: "heap_ok sample_heap [(876, False)]" "heap_ptr sample_heap = 100" "mem_size_aligned sample_heap = 876"
proof -
  have a: "align_up 100 = 100" by (simp add: align_up_eq)
  show "heap_ok sample_heap [(876, False)]" "heap_ptr sample_heap = 100" "mem_size_aligned sample_heap = 876"
    unfolding sample_heap_def
    using heap_init_ok [of 100 1000 zero_heap reset_kernel] by (simp_all add: a zero_heap_def)
qed

lemma sample_malloc:
  obtains h where "heap_malloc 20 sample_heap = Some (Some 112, h)" "heap_ok h [(20, True), (844, False)]" "heap_ptr h = 100"
proof -
  have a: "max 12 (align_up 20) = 20" by (simp add: align_up_eq)
  have nil: "xs = [] \<and> l = 876 \<and> ys = []" if "[(876, False)] = xs @ (l, False) # ys" for xs ys and l :: int
    using that by (cases xs) auto
  show thesis
  proof (rule heap_malloc [OF sample_heap_ok(1), of 20], goal_cases)
    case 4
    from 4(2) [of "[]" 876 "[]"] show ?case by (simp add: a sample_heap_ok)
  next
    case (5 xs l ys h')
    note n = nil [OF 5(1)]
    have "carve 20 876 = [(20, True), (844, False)]" by (simp add: carve_def)
    then show ?case using 5 n by (intro that [of h']) (simp_all add: a sample_heap_ok)
  qed (simp_all add: sample_heap_ok)
qed

lemma sample_malloc_live:
  assumes "heap_ok h [(20, True), (844, False)]" "heap_ptr h = 100"
  shows "heap_live h = {(112, 20)}" "mem_size_aligned h = 876"
  using heap_live [OF assms(1)] heap_okD(2,6) [OF assms(1)] assms(2) by simp_all

text \<open>C21. \<open>rt_malloc\<close> is first fit: it takes the first free block that is large enough, rounds the size up to a multiple
  of 4 and at least 12, cuts the rest off when another block fits in it, and keeps the heap well-formed: its chain of
  blocks, \<open>lfree\<close>, the counters, no two free neighbours. It fails only when each large enough free block starts too near
  the end of the heap.\<close>

theorem malloc_takes_first_fit:
  assumes "heap_ok h bs" "12 \<le> mem_size_aligned h" "heap_sem_free k" "0 < size0" "size0 \<le> 2 ^ 32 - 4"
  defines "s \<equiv> max 12 (align_up size0)"
  shows "\<exists>r h'. rt_malloc size0 h k = Some (Returned (r, h') k) \<and> heap_byte h' = heap_byte h \<and>
    (case r of
       None \<Rightarrow> h' = h \<and> (\<forall>xs l ys. bs = xs @ (l, False) # ys \<longrightarrow> s \<le> l \<longrightarrow> mem_size_aligned h \<le> span xs + s)
     | Some p \<Rightarrow> \<exists>xs l ys. bs = xs @ (l, False) # ys \<and> s \<le> l \<and> (\<forall>b \<in> set xs. snd b \<or> fst b < s)
         \<and> p = heap_ptr h + span xs + 12 \<and> heap_ok h' (xs @ carve s l @ ys))"
proof (rule heap_malloc [OF assms(1,2,4,5)], goal_cases)
  case 1
  then show ?case
    by (intro exI [of _ None] exI [of _ h]) (simp add: rt_malloc_free_sem [OF assms(3)] s_def)
next
  case (2 xs l ys h')
  then show ?case
    by (intro exI [of _ "Some (heap_ptr h + span xs + 12)"] exI [of _ h']) (auto simp: rt_malloc_free_sem [OF assms(3)] s_def)
qed

lemma malloc_takes_first_fit_witness:
  "\<exists>r h'. rt_malloc 20 sample_heap heap_kernel = Some (Returned (r, h') heap_kernel) \<and> (r \<noteq> None \<longrightarrow> r = Some 112)"
proof -
  have nil: "xs = [] \<and> l = 876 \<and> ys = []" if "[(876, False)] = xs @ (l, False) # ys" for xs ys and l :: int
    using that by (cases xs) auto
  have "\<exists>r h'. rt_malloc 20 sample_heap heap_kernel = Some (Returned (r, h') heap_kernel) \<and> heap_byte h' = heap_byte sample_heap \<and>
    (case r of
       None \<Rightarrow> h' = sample_heap \<and> (\<forall>xs l ys. [(876, False)] = xs @ (l, False) # ys \<longrightarrow> max 12 (align_up 20) \<le> l
         \<longrightarrow> mem_size_aligned sample_heap \<le> span xs + max 12 (align_up 20))
     | Some p \<Rightarrow> \<exists>xs l ys. [(876, False)] = xs @ (l, False) # ys \<and> max 12 (align_up 20) \<le> l
         \<and> (\<forall>b \<in> set xs. snd b \<or> fst b < max 12 (align_up 20))
         \<and> p = heap_ptr sample_heap + span xs + 12 \<and> heap_ok h' (xs @ carve (max 12 (align_up 20)) l @ ys))"
    by (rule malloc_takes_first_fit [OF sample_heap_ok(1) _ heap_kernel_free]) (simp_all add: sample_heap_ok)
  then show ?thesis using nil sample_heap_ok(2) by (fastforce split: option.splits)
qed

text \<open>\<open>rt_free\<close> of a block in use makes it free and joins it with the free blocks before and after it; the heap stays
  well-formed. The null pointer and pointers outside the heap are ignored.\<close>

theorem free_joins_neighbours:
  "(heap_ok h (xs @ (l, True) # ys) \<and> heap_sem_free k \<longrightarrow>
     (\<exists>h'. rt_free (Some (heap_ptr h + span xs + 12)) h k = Some (Returned ((), h') k)
        \<and> heap_ok h' (join_prev xs (join_next l ys)) \<and> heap_byte h' = heap_byte h))
   \<and> rt_free None h k = Some (Returned ((), h) k)
   \<and> (p < heap_ptr h \<or> heap_ptr h + heap_end h \<le> p \<longrightarrow> rt_free (Some p) h k = Some (Returned ((), h) k))"
proof (intro conjI impI)
  assume "heap_ok h (xs @ (l, True) # ys) \<and> heap_sem_free k"
  then show "\<exists>h'. rt_free (Some (heap_ptr h + span xs + 12)) h k = Some (Returned ((), h') k)
        \<and> heap_ok h' (join_prev xs (join_next l ys)) \<and> heap_byte h' = heap_byte h"
    by (metis free_joins)
qed (auto simp: rt_free_def)

lemma free_joins_neighbours_witness:
  "\<exists>h h'. rt_malloc 20 sample_heap heap_kernel = Some (Returned (Some 112, h) heap_kernel)
    \<and> rt_free (Some 112) h heap_kernel = Some (Returned ((), h') heap_kernel) \<and> heap_ok h' [(876, False)]
    \<and> rt_free (Some 50) h heap_kernel = Some (Returned ((), h) heap_kernel)"
proof -
  obtain h where h: "heap_malloc 20 sample_heap = Some (Some 112, h)" "heap_ok h [(20, True), (844, False)]"
    "heap_ptr h = 100" by (rule sample_malloc)
  then obtain h' where "rt_free (Some 112) h heap_kernel = Some (Returned ((), h') heap_kernel)" "heap_ok h' [(876, False)]"
    "rt_free (Some 50) h heap_kernel = Some (Returned ((), h) heap_kernel)"
    using free_joins_neighbours [of h "[]" 20 "[(844, False)]" heap_kernel 50] heap_kernel_free by (auto simp: join_prev_def)
  then show ?thesis using h heap_kernel_free by (auto simp: rt_malloc_free_sem)
qed

text \<open>C23. Freeing what was just allocated gives back the heap's list of blocks, and with it \<open>lfree\<close> and the number of
  bytes in use: the block that was cut off is joined again.\<close>

theorem malloc_free_restores:
  assumes "heap_ok h bs" "12 \<le> mem_size_aligned h" "heap_sem_free k" "0 < size0" "size0 \<le> 2 ^ 32 - 4"
    and "rt_malloc size0 h k = Some (Returned (Some p, h') k)"
  shows "\<exists>h''. rt_free (Some p) h' k = Some (Returned ((), h'') k) \<and> heap_ok h'' bs
    \<and> lfree h'' = lfree h \<and> used_mem h'' = used_mem h"
proof -
  have m: "heap_malloc size0 h = Some (Some p, h')" using assms(6) by (auto simp: rt_malloc_free_sem [OF assms(3)])
  obtain xs l ys where x: "bs = xs @ (l, False) # ys"
      "p = heap_ptr h' + span xs + 12" "heap_ok h' (xs @ carve (max 12 (align_up size0)) l @ ys)"
    by (rule heap_malloc [OF assms(1,2,4,5)]) (use m in auto)
  define s where "s = max 12 (align_up size0)"
  have a: "apart (xs @ (l, False) # ys)" using assms(1) x(1) by (simp add: heap_ok_def)
  have "\<exists>l' ys'. carve s l @ ys = (l', True) # ys' \<and> join_prev xs (join_next l' ys') = bs"
  proof (cases "s + 24 \<le> l")
    case True
    have "join_prev xs (join_next s ((l - s - 12, False) # ys)) = bs"
      using a by (cases xs rule: rev_cases) (auto simp: x(1) join_prev_def successively_append_iff)
    then show ?thesis using True by (simp add: carve_def)
  next
    case False
    have "join_next l ys = (l, False) # ys" using a
      by (cases "(l, ys)" rule: join_next.cases) (auto simp: successively_append_iff)
    then have "join_prev xs (join_next l ys) = bs"
      using a by (cases xs rule: rev_cases) (auto simp: x(1) join_prev_def successively_append_iff)
    then show ?thesis using False by (simp add: carve_def)
  qed
  then obtain l' ys' where c: "carve s l @ ys = (l', True) # ys'" "join_prev xs (join_next l' ys') = bs" by blast
  have ok': "heap_ok h' (xs @ (l', True) # ys')" using x(3) c(1) by (simp add: s_def)
  obtain h'' where f: "rt_free (Some p) h' k = Some (Returned ((), h'') k)" "heap_ok h'' bs"
    using free_joins [OF ok' assms(3)] c(2) x(2) by metis
  then show ?thesis using assms(1) by (auto simp: heap_ok_def heap_counts_def)
qed


lemma malloc_free_restores_witness:
  "\<exists>h h'. rt_malloc 20 sample_heap heap_kernel = Some (Returned (Some 112, h) heap_kernel)
    \<and> rt_free (Some 112) h heap_kernel = Some (Returned ((), h') heap_kernel)
    \<and> lfree h' = lfree sample_heap \<and> used_mem h' = used_mem sample_heap"
proof -
  obtain h where h: "heap_malloc 20 sample_heap = Some (Some 112, h)" by (rule sample_malloc)
  then have m: "rt_malloc 20 sample_heap heap_kernel = Some (Returned (Some 112, h) heap_kernel)"
    using heap_kernel_free by (simp add: rt_malloc_free_sem)
  have "\<exists>h'. rt_free (Some 112) h heap_kernel = Some (Returned ((), h') heap_kernel) \<and> heap_ok h' [(876, False)]
    \<and> lfree h' = lfree sample_heap \<and> used_mem h' = used_mem sample_heap"
    by (rule malloc_free_restores [OF sample_heap_ok(1) _ heap_kernel_free _ _ m]) (simp_all add: sample_heap_ok)
  then show ?thesis using m by blast
qed

text \<open>Sequences of calls: sizes that can be rounded, and frees of live blocks.\<close>

inductive heap_reach :: "kernel \<Rightarrow> heap \<Rightarrow> heap \<Rightarrow> bool" for k h0 where
  reach_start: "heap_reach k h0 h0"
| reach_malloc: "heap_reach k h0 h \<Longrightarrow> 0 < s \<Longrightarrow> s \<le> 2 ^ 32 - 4 \<Longrightarrow>
    rt_malloc s h k = Some (Returned (r, h') k') \<Longrightarrow> heap_reach k h0 h'"
| reach_free: "heap_reach k h0 h \<Longrightarrow> (p, n) \<in> heap_live h \<Longrightarrow>
    rt_free (Some p) h k = Some (Returned ((), h') k') \<Longrightarrow> heap_reach k h0 h'"

lemma live_range:
  assumes "heap_ok h bs" "(p, n) \<in> heap_live h"
  shows "heap_ptr h + 12 \<le> p \<and> p + n \<le> heap_ptr h + heap_end h \<and> 0 < n \<and> 4 dvd p"
proof -
  have m: "(p, n) \<in> live (heap_ptr h) bs" using assms heap_live by blast
  have "4 dvd q \<Longrightarrow> \<forall>b \<in> set cs. 4 dvd fst b \<Longrightarrow> (p, n) \<in> live q cs \<Longrightarrow> 4 dvd p" for q cs
  proof (induction cs arbitrary: q)
    case (Cons b cs)
    have "4 dvd q + 12 + fst b" using Cons.prems(1,2) by (intro dvd_add) simp_all
    from Cons.IH [OF this] have "(p, n) \<in> live (q + 12 + fst b) cs \<Longrightarrow> 4 dvd p" using Cons.prems(2) by simp
    moreover have "4 dvd q + 12" using Cons.prems(1) by (intro dvd_add) simp_all
    moreover have "p = q + 12 \<or> (p, n) \<in> live (q + 12 + fst b) cs" using Cons.prems(3) by (auto split: if_splits)
    ultimately show ?case by blast
  qed simp
  moreover have "4 dvd heap_ptr h" "\<forall>b \<in> set bs. 4 dvd fst b"
    using heap_tilesD(4,9) [of h bs] assms(1) by (auto simp: heap_ok_def)
  ultimately have "4 dvd p" using m by blast
  moreover obtain xs ys where "bs = xs @ (n, True) # ys" using live_split [OF m] by blast
  then have "0 < n" using heap_okD(7) [OF assms(1), of "(n, True)"] by simp
  ultimately show ?thesis using live_bounds [OF m heap_okD(1) [OF assms(1)]] heap_okD(6) [OF assms(1)] by simp
qed

lemma heap_reach_reach:
  assumes "heap_reach k h0 h" "heap_sem_free k" "heap_ok h0 bs" "12 \<le> mem_size_aligned h0" "apart_blocks (heap_live h0)"
  shows "heapa.reach h0 h \<and> heap_ptr h = heap_ptr h0 \<and> heap_end h = heap_end h0"
  using assms(1)
proof (induction rule: heap_reach.induct)
  case reach_start
  show ?case by (intro conjI heapa.reach.start refl)
next
  case (reach_malloc h s r h' k')
  then have m: "heap_malloc s h = Some (r, h')" by (auto simp: rt_malloc_free_sem [OF assms(2)])
  obtain cs where cs: "heap_ok h cs" "12 \<le> mem_size_aligned h"
    using heapa.reach_apart [of h0 h] reach_malloc.IH assms(3-5) by blast
  have "heap_ptr h' = heap_ptr h \<and> heap_end h' = heap_end h"
    by (rule heap_malloc_live [OF cs reach_malloc.hyps(2,3)]) (use m in auto)
  then show ?case using reach_malloc.IH reach_malloc.hyps(2,3) heapa.reach.alloc [OF _ _ m] by simp
next
  case (reach_free h p n h' k')
  obtain cs where cs: "heap_ok h cs"
    using heapa.reach_apart [of h0 h] reach_free.IH assms(3-5) by blast
  have f: "heap_free p h = Some h'" and fr: "heap_ptr h' = heap_ptr h \<and> heap_end h' = heap_end h"
    by (rule heap_free_live [OF cs reach_free.hyps(2)],
      use reach_free.hyps(3) in \<open>auto simp: rt_free_free_sem [OF assms(2)]\<close>)+
  then show ?case using reach_free.IH heapa.reach.dealloc [OF _ reach_free.hyps(2) f] by simp
qed

text \<open>C20. From the initialisation on, whatever is allocated and freed in whatever order, the heap stays well-formed, and
  the blocks in use lie inside the memory given to it, are aligned to 4 bytes and never overlap.\<close>

theorem heap_blocks_never_overlap:
  assumes "0 \<le> b" "b \<le> 2 ^ 32 - 4" "e < 2 ^ 32" "align_up b + 36 \<le> e - e mod 4" "used_mem h = 0" "0 \<le> max_mem h"
    and "heap_sem_free k" "heap_reach k (fst (rt_system_heap_init b e h k0)) h'"
  shows "(\<exists>bs. heap_ok h' bs) \<and> apart_blocks (heap_live h')
    \<and> (\<forall>(p, n) \<in> heap_live h'. b + 12 \<le> p \<and> p + n + 12 \<le> e \<and> 4 dvd p)"
proof -
  define h0 where "h0 = fst (rt_system_heap_init b e h k0)"
  have al: "b \<le> align_up b" using align_up [OF assms(1,2)] by simp
  have m: "e - e mod 4 \<le> e" by simp
  have e: "0 \<le> e" "24 < e - e mod 4" "align_up b \<le> e - e mod 4 - 24" using al assms(1,4) m by linarith+
  note i = heap_init_ok [OF assms(1,2) e(1) assms(3) e(2,3) assms(5,6), of k0, folded h0_def]
  have "heap_live h0 = {}" using heap_live [OF i(1)] by simp
  then have a: "apart_blocks (heap_live h0)" by (simp add: apart_blocks_def)
  have big: "12 \<le> mem_size_aligned h0" using i(3) assms(4) by simp
  note r = heap_reach_reach [OF assms(8) [folded h0_def] assms(7) i(1) big a]
  then obtain bs where ok: "heap_ok h' bs" "apart_blocks (heap_live h')"
    using heapa.reach_apart [of h0 h'] i(1) big a by blast
  moreover have "b + 12 \<le> p \<and> p + n + 12 \<le> e \<and> 4 dvd p" if "(p, n) \<in> heap_live h'" for p n
    using live_range [OF ok(1) that] r i heap_okD(2) [OF i(1)] al m by auto
  ultimately show ?thesis by blast
qed


lemma heap_blocks_never_overlap_witness:
  "\<exists>h. rt_malloc 20 sample_heap heap_kernel = Some (Returned (Some 112, h) heap_kernel)
    \<and> apart_blocks (heap_live h) \<and> (\<forall>(p, n) \<in> heap_live h. 112 \<le> p \<and> p + n + 12 \<le> 1000 \<and> 4 dvd p)"
proof -
  obtain h where h: "heap_malloc 20 sample_heap = Some (Some 112, h)" by (rule sample_malloc)
  then have m: "rt_malloc 20 sample_heap heap_kernel = Some (Returned (Some 112, h) heap_kernel)"
    using heap_kernel_free by (simp add: rt_malloc_free_sem)
  have r: "heap_reach heap_kernel (fst (rt_system_heap_init 100 1000 zero_heap reset_kernel)) h"
    by (rule reach_malloc [OF reach_start _ _ m [unfolded sample_heap_def]]) simp_all
  have "(\<exists>bs. heap_ok h bs) \<and> apart_blocks (heap_live h)
    \<and> (\<forall>(p, n) \<in> heap_live h. 100 + 12 \<le> p \<and> p + n + 12 \<le> 1000 \<and> 4 dvd p)"
    by (rule heap_blocks_never_overlap [OF _ _ _ _ _ _ heap_kernel_free r]) (simp_all add: align_up_eq zero_heap_def)
  then show ?thesis using m by auto
qed

lemma align_up_idem: "0 \<le> n \<Longrightarrow> n \<le> 2 ^ 32 - 4 \<Longrightarrow> align_up (align_up n) = align_up n"
  using align_up [of n] by (subst align_up_eq) (auto simp: align_up_eq dvd_minus_mod elim!: dvdE)

lemma heap_copy_simps [simp]:
  "heap_hdr (heap_copy d s n h) = heap_hdr h" "heap_ptr (heap_copy d s n h) = heap_ptr h"
  "heap_end (heap_copy d s n h) = heap_end h" "lfree (heap_copy d s n h) = lfree h"
  "mem_size_aligned (heap_copy d s n h) = mem_size_aligned h" "used_mem (heap_copy d s n h) = used_mem h"
  "max_mem (heap_copy d s n h) = max_mem h"
  by (simp_all add: heap_copy_def)

lemma heap_ok_copy [simp]: "heap_ok (heap_copy d s n h) = heap_ok h"
  by (rule ext) (simp add: heap_ok_def heap_tiles_def heap_counts_def)

lemma heap_live_copy [simp]: "heap_live (heap_copy d s n h) = heap_live h"
  by (simp add: heap_live_def)

lemma heap_live_at:
  assumes ok: "heap_ok h (xs @ (l, True) # ys)" and p: "p = heap_ptr h + span xs + 12"
  defines "others \<equiv> live (heap_ptr h) xs \<union> live (p + l) ys"
  shows "heap_live h = insert (p, l) others" "(p, n) \<notin> others"
proof -
  have f: "\<forall>b \<in> set xs. 0 \<le> fst b" "\<forall>b \<in> set ys. 0 \<le> fst b" "0 < l" using heap_okD(1,7) [OF ok] by auto
  show "heap_live h = insert (p, l) others" using heap_live [OF ok] p by (simp add: live_append others_def ac_simps)
  have "(p, n) \<notin> live (heap_ptr h) xs" using live_bounds [OF _ f(1), of p n "heap_ptr h"] p by fastforce
  moreover have "(p, n) \<notin> live (p + l) ys" using live_bounds [OF _ f(2), of p n "p + l"] f(3) by fastforce
  ultimately show "(p, n) \<notin> others" by (simp add: others_def)
qed

text \<open>C22. \<open>rt_realloc\<close> of a block in use keeps its contents, up to the smaller of the two sizes, and the contents of every
  other block in use; the block it returns is the only one that changes, has the size asked for and is the old one where
  it fits. When it fails, nothing has changed.\<close>

theorem realloc_keeps_contents:
  assumes "heap_ok h bs" "12 \<le> mem_size_aligned h" "heap_sem_free k" "0 < n" "n \<le> 2 ^ 32 - 4" "(p, l) \<in> heap_live h"
  shows "\<exists>r h'. rt_realloc (Some p) n h k = Some (Returned (r, h') k) \<and>
    (case r of
       None \<Rightarrow> h' = h
     | Some q \<Rightarrow> (\<exists>bs'. heap_ok h' bs') \<and>
        (\<exists>m \<ge> n. heap_live h' = insert (q, m) (heap_live h - {(p, l)}) \<and> (q, m) \<notin> heap_live h - {(p, l)}
          \<and> (l = align_up n \<or> align_up n + 24 < l \<longrightarrow> q = p))
        \<and> (\<forall>i. 0 \<le> i \<and> i < min l n \<longrightarrow> heap_byte h' (q + i) = heap_byte h (p + i))
        \<and> (\<forall>a c i. (a, c) \<in> heap_live h - {(p, l)} \<longrightarrow> 0 \<le> i \<longrightarrow> i < c \<longrightarrow> heap_byte h' (a + i) = heap_byte h (a + i)))"
proof -
  define n' where "n' = align_up n"
  have al: "n \<le> n'" "4 dvd n'" "0 < n'" using align_up [of n] assms(4,5) by (auto simp: n'_def)
  note lr = live_range [OF assms(1,6)]
  show ?thesis
  proof (cases "mem_size_aligned h < n'")
    case True
    then have "rt_realloc (Some p) n h k = Some (Returned (None, h) k)" by (simp add: rt_realloc_def Let_def n'_def)
    then show ?thesis by (intro exI [of _ None] exI [of _ h]) simp
  next
    case False
    have n'_le: "n' \<le> 2 ^ 32 - 4" using False heap_okD(3,5) [OF assms(1)] by simp
    have idem: "align_up n' = n'" using align_up_idem [of n] assms(4,5) by (simp add: n'_def)
    have "(p, l) \<in> live (heap_ptr h) bs" using assms(6) heap_live [OF assms(1)] by simp
    then obtain xs ys where x: "bs = xs @ (l, True) # ys" "p = heap_ptr h + span xs + 12" using live_split by blast
    define blk where "blk = (\<lambda>(r :: int + int, h) (k :: kernel). (case r of
        Inl p \<Rightarrow> Some (Returned (Some p, h) k)
      | Inr size0 \<Rightarrow> then_heap (rt_malloc n' h k) (\<lambda>nmem h k. case nmem of None \<Rightarrow> Some (Returned (None, h) k)
          | Some nmem \<Rightarrow> then_heap (rt_free (Some p) (heap_copy nmem p (if size0 < n' then size0 else n') h) k)
              (\<lambda>_ h k. Some (Returned (Some nmem, h) k)))))"
    have R: "rt_realloc (Some p) n h k = (case realloc_locked p n' h of None \<Rightarrow> None | Some rh \<Rightarrow> blk rh k)"
      using False al(3) unfolding rt_realloc_def Let_def n'_def [symmetric] heap_locked_free [OF assms(3)] blk_def
      by (cases "realloc_locked p n' h") (auto simp: then_heap_def split: sum.split)
    show ?thesis
    proof (rule realloc_locked [OF assms(1) [unfolded x(1)] al(3,2) x(2)], goal_cases)
      case (1 h1)
      note la = heap_live_at [OF assms(1) [unfolded x(1)] x(2)]
      define others where "others = live (heap_ptr h) xs \<union> live (p + l) ys"
      have rest: "heap_live h - {(p, l)} = others" using la by (auto simp: others_def)
      show ?case
      proof (cases "l = n' \<or> n' + 24 < l")
        case True
        have "heap_live h1 = insert (p, n') others"
          using heap_live [OF 1(2)] 1(3) True x(2)
          by (auto simp: live_append live_join_next others_def ac_simps)
        moreover have "(p, n') \<notin> others" using la(2) by (simp add: others_def)
        moreover have "\<exists>bs'. heap_ok h1 bs'" using 1(2) by blast
        ultimately show ?thesis
          using True 1 R al(1) by (intro exI [of _ "Some p"] exI [of _ h1]) (auto simp: rest blk_def n'_def [symmetric])
      next
        case False
        then have h1: "h1 = h" using 1 by simp
        have R': "rt_realloc (Some p) n h k = blk (Inr l, h) k" using R 1(1) False h1 by simp
        show ?thesis
        proof (rule heap_malloc_live [OF assms(1,2) al(3) n'_le], goal_cases)
          case 1
          then show ?case unfolding R'
            by (intro exI [of _ None] exI [of _ h]) (simp add: blk_def rt_malloc_free_sem [OF assms(3)] then_heap_def)
        next
          case (2 q m h2 bs2)
          define c where "c = (if l < n' then l else n')"
          define h3 where "h3 = heap_copy q p c h2"
          have c: "c = min l n'" "c \<le> m" using 2(4) idem by (auto simp: c_def)
          have pl: "(p, l) \<in> heap_live h3" using 2(5) assms(6) by (simp add: h3_def)
          have ok3: "heap_ok h3 bs2" using 2(2) by (simp add: h3_def)
          obtain h4 bs4 where f: "heap_free p h3 = Some h4" "heap_ok h4 bs4" "heap_live h4 = heap_live h3 - {(p, l)}"
            "heap_byte h4 = heap_byte h3" "heap_ptr h3 \<le> p" "p < heap_ptr h3 + heap_end h3"
            using heap_free_live [OF ok3 pl] by metis
          have mpos: "0 < m" using 2(4) al(3) idem by linarith
          have sep: "q + m \<le> a \<or> a + b \<le> q" if "(a, b) \<in> heap_live h" for a b using 2(6) [OF that] by auto
          have ne: "(q, m) \<notin> heap_live h" using sep mpos by fastforce
          have "heap_live h4 = insert (q, m) (heap_live h - {(p, l)})" using f(3) 2(5) ne assms(6) by (auto simp: h3_def)
          moreover have "heap_byte h4 (q + i) = heap_byte h (p + i)" if "0 \<le> i" "i < min l n" for i
            using that c al(1) 2(10) by (simp add: f(4) h3_def heap_copy_def)
          moreover have "heap_byte h4 (a + i) = heap_byte h (a + i)" if "(a, b) \<in> heap_live h" "0 \<le> i" "i < b" for a b i
            using sep [OF that(1)] that(2,3) c 2(10) by (auto simp: f(4) h3_def heap_copy_def)
          moreover have "rt_realloc (Some p) n h k = Some (Returned (Some q, h4) k)"
            unfolding R' using 2(1) f(1) rt_free_free_sem [OF assms(3) f(5,6)]
            by (simp add: blk_def rt_malloc_free_sem [OF assms(3)] then_heap_def h3_def c_def)
          ultimately show ?case
            using f(2) ne 2(4) idem al(1) False
            by (intro exI [of _ "Some q"] exI [of _ h4]) (auto simp: n'_def [symmetric] intro!: exI [of _ m])
        qed
      qed
    qed
  qed
qed

lemma realloc_keeps_contents_witness:
  "\<exists>h r h'. rt_malloc 20 sample_heap heap_kernel = Some (Returned (Some 112, h) heap_kernel)
    \<and> rt_realloc (Some 112) 40 h heap_kernel = Some (Returned (r, h') heap_kernel)
    \<and> (\<forall>q. r = Some q \<longrightarrow> (\<forall>i. 0 \<le> i \<and> i < 20 \<longrightarrow> heap_byte h' (q + i) = heap_byte h (112 + i)))"
proof -
  obtain h where h: "heap_malloc 20 sample_heap = Some (Some 112, h)" "heap_ok h [(20, True), (844, False)]"
    "heap_ptr h = 100" by (rule sample_malloc)
  note l = sample_malloc_live [OF h(2,3)]
  show ?thesis
    using realloc_keeps_contents [OF h(2) _ heap_kernel_free, of 40 112 20] l h(1) heap_kernel_free
    by (fastforce simp: rt_malloc_free_sem split: option.splits)
qed

text \<open>The arithmetic on sizes is not checked. A size within 3 of \<open>2 ^ 32\<close> is rounded up to 0, so \<open>rt_malloc\<close> hands out
  the smallest block for it and \<open>rt_realloc\<close> frees the block; \<open>rt_calloc\<close> multiplies modulo \<open>2 ^ 32\<close> and may return a
  block smaller than the array. And the loop leaves out the last offset at which the size still fits: the whole of an empty heap cannot be
  allocated.\<close>

theorem sizes_wrap:
  "(2 ^ 32 - 4 < n \<and> n < 2 ^ 32 \<and> 12 \<le> mem_size_aligned h \<longrightarrow>
      rt_malloc n h k = rt_malloc 1 h k
    \<and> rt_realloc (Some p) n h k = then_heap (rt_free (Some p) h k) (\<lambda>_ h k. Some (Returned (None, h) k)))
   \<and> rt_calloc count size0 h k = rt_calloc (count * size0 mod 2 ^ 32) 1 h k
   \<and> (heap_ok h [(n, False)] \<and> 12 \<le> n \<and> heap_sem_free k \<longrightarrow> rt_malloc n h k = Some (Returned (None, h) k))"
proof (intro conjI impI; (elim conjE)?)
  have w: "align_up n = 0" if n: "2 ^ 32 - 4 < n" "n < 2 ^ 32"
  proof -
    have "n = 2 ^ 32 - 3 \<or> n = 2 ^ 32 - 2 \<or> n = 2 ^ 32 - 1" using n by auto
    then have "n + 3 = 2 ^ 32 \<or> n + 3 = 1 + 2 ^ 32 \<or> n + 3 = 2 + 2 ^ 32" by auto
    then have "(n + 3) mod 2 ^ 32 \<in> {0, 1, 2}" by auto
    then show ?thesis unfolding align_up_def and_not_3 by auto
  qed
  have o: "align_up 1 = 4" by (simp add: align_up_eq)
  assume n: "2 ^ 32 - 4 < n" "n < 2 ^ 32" and big: "12 \<le> mem_size_aligned h"
  show "rt_malloc n h k = rt_malloc 1 h k" using n big by (simp add: rt_malloc_def w o MIN_SIZE_ALIGNED_def)
  show "rt_realloc (Some p) n h k = then_heap (rt_free (Some p) h k) (\<lambda>_ h k. Some (Returned (None, h) k))"
    using big w [OF n] by (simp add: rt_realloc_def Let_def)
next
  show "rt_calloc count size0 h k = rt_calloc (count * size0 mod 2 ^ 32) 1 h k" by (simp only: rt_calloc_def mult_1_right mod_mod_trivial)
next
  assume ok: "heap_ok h [(n, False)]" and n: "12 \<le> n" and k: "heap_sem_free k"
  have m: "mem_size_aligned h = n" "n \<le> 2 ^ 32 - 4" using heap_okD [OF ok] by auto
  have "4 dvd n" using ok by (auto simp: heap_ok_def heap_tiles_def)
  then have a: "align_up n = n" using n m(2) by (simp add: align_up_eq)
  have "malloc_search h n (lfree h) = Some None"
    using malloc_search_ok [OF ok, of n] m n by simp
  then show "rt_malloc n h k = Some (Returned (None, h) k)"
    using n m by (simp add: rt_malloc_free_sem [OF k] heap_malloc_def a malloc_locked_def MIN_SIZE_ALIGNED_def max_def)
qed

lemma sizes_wrap_witness:
  "(\<exists>h. rt_malloc (2 ^ 32 - 1) sample_heap heap_kernel = Some (Returned (Some 112, h) heap_kernel))
   \<and> rt_malloc 876 sample_heap heap_kernel = Some (Returned (None, sample_heap) heap_kernel)"
proof -
  note w = sizes_wrap [of "2 ^ 32 - 1" sample_heap heap_kernel 0 0 0] sizes_wrap [of 876 sample_heap heap_kernel 0 0 0]
  have nil: "xs = [] \<and> l = 876 \<and> ys = []" if "[(876, False)] = xs @ (l, False) # ys" for xs ys and l :: int
    using that by (cases xs) auto
  have "\<exists>h. heap_malloc 1 sample_heap = Some (Some 112, h)"
  proof (rule heap_malloc [OF sample_heap_ok(1), of 1], goal_cases)
    case 4
    from 4(2) [of "[]" 876 "[]"] show ?case by (simp add: align_up_eq sample_heap_ok)
  next
    case (5 xs l ys h')
    then show ?case using nil [OF 5(1)] by (simp add: sample_heap_ok)
  qed (simp_all add: sample_heap_ok)
  then show ?thesis
    using w sample_heap_ok heap_kernel_free by (auto simp: rt_malloc_free_sem)
qed

end
