(* ===== verification/Ringbuffer.thy ===== *)
theory Ringbuffer
  imports Ring
begin

section \<open>Byte ring buffers (\<open>components/drivers/src/ringbuffer.c\<close>)\<close>

text \<open>
  The ring between a device's interrupt handler and its reader. The two indices have 15 bits and a
  mirror bit that flips when the index goes round: equal indices mean empty under equal mirror bits
  and full under different ones. \<open>buffer_size\<close> is a positive \<open>rt_int16_t\<close>, and the arithmetic on it and
  on the indices is that of C's \<open>int\<close>.
\<close>

record rt_ringbuffer =
  buffer_ptr :: "u8 list"
  read_mirror :: bool
  read_index :: "15 word"
  write_mirror :: bool
  write_index :: "15 word"
  buffer_size :: int

datatype rt_ringbuffer_state = RT_RINGBUFFER_EMPTY | RT_RINGBUFFER_FULL | RT_RINGBUFFER_HALFFULL

definition rt_ringbuffer_status :: "rt_ringbuffer \<Rightarrow> rt_ringbuffer_state" where
  "rt_ringbuffer_status rb =
    (if read_index rb = write_index rb then
       (if read_mirror rb = write_mirror rb then RT_RINGBUFFER_EMPTY else RT_RINGBUFFER_FULL)
     else RT_RINGBUFFER_HALFFULL)"

text \<open>\<open>RT_ALIGN_DOWN(size, RT_ALIGN_SIZE)\<close> rounds down to a multiple of 4.\<close>

definition rt_ringbuffer_init :: "u8 list \<Rightarrow> int \<Rightarrow> rt_ringbuffer" where
  "rt_ringbuffer_init pool size0 =
    \<lparr>buffer_ptr = pool, read_mirror = False, read_index = 0, write_mirror = False, write_index = 0,
     buffer_size = size0 AND NOT (4 - 1)\<rparr>"

definition rt_ringbuffer_data_len :: "rt_ringbuffer \<Rightarrow> int" where
  "rt_ringbuffer_data_len rb =
    (case rt_ringbuffer_status rb of
       RT_RINGBUFFER_EMPTY \<Rightarrow> 0
     | RT_RINGBUFFER_FULL \<Rightarrow> buffer_size rb
     | RT_RINGBUFFER_HALFFULL \<Rightarrow>
        if read_index rb < write_index rb then uint (write_index rb) - uint (read_index rb)
        else buffer_size rb - (uint (read_index rb) - uint (write_index rb)))"

definition rt_ringbuffer_space_len :: "rt_ringbuffer \<Rightarrow> int" where
  "rt_ringbuffer_space_len rb = buffer_size rb - rt_ringbuffer_data_len rb"

text \<open>\<open>memcpy\<close> of \<open>src\<close> to the bytes from \<open>off\<close> on.\<close>

definition blit :: "nat \<Rightarrow> 'a list \<Rightarrow> 'a list \<Rightarrow> 'a list" where
  "blit off src buf = take off buf @ src @ drop (off + length src) buf"

text \<open>The end of the two functions that put bytes: no wrap, or two copies and a flip of the mirror.\<close>

definition ringbuffer_write :: "u8 list \<Rightarrow> rt_ringbuffer \<Rightarrow> rt_ringbuffer" where
  "ringbuffer_write src rb =
    (let to_end = buffer_size rb - uint (write_index rb);
         off = unat (write_index rb)
     in if int (length src) < to_end then
          rb\<lparr>buffer_ptr := blit off src (buffer_ptr rb),
             write_index := write_index rb + word_of_int (int (length src))\<rparr>
        else
          rb\<lparr>buffer_ptr := blit 0 (drop (nat to_end) src) (blit off (take (nat to_end) src) (buffer_ptr rb)),
             write_mirror := \<not> write_mirror rb,
             write_index := word_of_int (int (length src) - to_end)\<rparr>)"

definition rt_ringbuffer_put :: "u8 list \<Rightarrow> rt_ringbuffer \<Rightarrow> int \<times> rt_ringbuffer" where
  "rt_ringbuffer_put ptr rb =
    (let size0 = rt_ringbuffer_space_len rb
     in if size0 = 0 then (0, rb)
        else
          let src = (if size0 < int (length ptr) then take (nat size0) ptr else ptr)
          in (int (length src), ringbuffer_write src rb))"

definition rt_ringbuffer_put_force :: "u8 list \<Rightarrow> rt_ringbuffer \<Rightarrow> int \<times> rt_ringbuffer" where
  "rt_ringbuffer_put_force ptr rb =
    (let space_length = rt_ringbuffer_space_len rb;
         src = (if buffer_size rb < int (length ptr) then drop (nat (int (length ptr) - buffer_size rb)) ptr
                else ptr);
         wraps = \<not> int (length src) < buffer_size rb - uint (write_index rb);
         rb = ringbuffer_write src rb
     in (int (length src),
         if space_length < int (length src) then
           (if wraps
            then rb\<lparr>read_mirror := \<not> read_mirror rb, read_index := write_index rb\<rparr>
            else rb\<lparr>read_index := write_index rb\<rparr>)
         else rb))"

definition rt_ringbuffer_get :: "nat \<Rightarrow> rt_ringbuffer \<Rightarrow> u8 list \<times> rt_ringbuffer" where
  "rt_ringbuffer_get len rb =
    (let size0 = rt_ringbuffer_data_len rb
     in if size0 = 0 then ([], rb)
        else
          let len = (if size0 < int len then nat size0 else len);
              to_end = buffer_size rb - uint (read_index rb);
              off = unat (read_index rb)
          in if int len < to_end then
               (take len (drop off (buffer_ptr rb)), rb\<lparr>read_index := read_index rb + word_of_int (int len)\<rparr>)
             else
               (take (nat to_end) (drop off (buffer_ptr rb)) @ take (nat (int len - to_end)) (buffer_ptr rb),
                rb\<lparr>read_mirror := \<not> read_mirror rb, read_index := word_of_int (int len - to_end)\<rparr>))"

text \<open>The number of bytes from the returned offset on that the caller may read in place.\<close>

definition rt_ringbuffer_peak :: "rt_ringbuffer \<Rightarrow> (int \<times> nat option) \<times> rt_ringbuffer" where
  "rt_ringbuffer_peak rb =
    (let size0 = rt_ringbuffer_data_len rb
     in if size0 = 0 then ((0, None), rb)
        else
          let ptr = unat (read_index rb);
              to_end = buffer_size rb - uint (read_index rb)
          in if size0 < to_end
             then ((size0, Some ptr), rb\<lparr>read_index := read_index rb + word_of_int size0\<rparr>)
             else ((to_end, Some ptr), rb\<lparr>read_mirror := \<not> read_mirror rb, read_index := 0\<rparr>))"

definition ringbuffer_write_char :: "u8 \<Rightarrow> rt_ringbuffer \<Rightarrow> rt_ringbuffer" where
  "ringbuffer_write_char ch rb =
    (let rb = rb\<lparr>buffer_ptr := (buffer_ptr rb)[unat (write_index rb) := ch]\<rparr>
     in if uint (write_index rb) = buffer_size rb - 1
        then rb\<lparr>write_mirror := \<not> write_mirror rb, write_index := 0\<rparr>
        else rb\<lparr>write_index := write_index rb + 1\<rparr>)"

definition rt_ringbuffer_putchar :: "u8 \<Rightarrow> rt_ringbuffer \<Rightarrow> int \<times> rt_ringbuffer" where
  "rt_ringbuffer_putchar ch rb =
    (if rt_ringbuffer_space_len rb = 0 then (0, rb) else (1, ringbuffer_write_char ch rb))"

definition rt_ringbuffer_putchar_force :: "u8 \<Rightarrow> rt_ringbuffer \<Rightarrow> int \<times> rt_ringbuffer" where
  "rt_ringbuffer_putchar_force ch rb =
    (let old_state = rt_ringbuffer_status rb;
         wraps = (uint (write_index rb) = buffer_size rb - 1);
         rb = ringbuffer_write_char ch rb
     in (1, if old_state = RT_RINGBUFFER_FULL then
              (if wraps
               then rb\<lparr>read_mirror := \<not> read_mirror rb, read_index := write_index rb\<rparr>
               else rb\<lparr>read_index := write_index rb\<rparr>)
            else rb))"

definition rt_ringbuffer_getchar :: "rt_ringbuffer \<Rightarrow> (int \<times> u8 option) \<times> rt_ringbuffer" where
  "rt_ringbuffer_getchar rb =
    (if rt_ringbuffer_data_len rb = 0 then ((0, None), rb)
     else
       let ch = buffer_ptr rb ! unat (read_index rb)
       in ((1, Some ch),
           if uint (read_index rb) = buffer_size rb - 1
           then rb\<lparr>read_mirror := \<not> read_mirror rb, read_index := 0\<rparr>
           else rb\<lparr>read_index := read_index rb + 1\<rparr>))"

definition rt_ringbuffer_reset :: "rt_ringbuffer \<Rightarrow> rt_ringbuffer" where
  "rt_ringbuffer_reset rb =
    rb\<lparr>read_mirror := False, read_index := 0, write_mirror := False, write_index := 0\<rparr>"

text \<open>The two allocations are arguments; without the second the first is freed.\<close>

definition rt_ringbuffer_create :: "bool \<Rightarrow> u8 list option \<Rightarrow> u16 \<Rightarrow> rt_ringbuffer option" where
  "rt_ringbuffer_create mem pool size0 =
    (let size0 = size0 AND NOT (4 - 1)
     in if \<not> mem then None
        else (case pool of
                None \<Rightarrow> None
              | Some p \<Rightarrow> Some (rt_ringbuffer_init p (sint size0))))"

subsection \<open>The bytes in the ring\<close>

definition rb_ok :: "rt_ringbuffer \<Rightarrow> bool" where
  "rb_ok rb \<longleftrightarrow> int (length (buffer_ptr rb)) = buffer_size rb \<and> 0 < buffer_size rb \<and> buffer_size rb \<le> 32767
     \<and> uint (read_index rb) < buffer_size rb \<and> uint (write_index rb) < buffer_size rb
     \<and> (uint (read_index rb) < uint (write_index rb) \<longrightarrow> read_mirror rb = write_mirror rb)
     \<and> (uint (write_index rb) < uint (read_index rb) \<longrightarrow> read_mirror rb \<noteq> write_mirror rb)"

definition rb_list :: "rt_ringbuffer \<Rightarrow> u8 list" where
  "rb_list rb = ring_list (buffer_ptr rb) (unat (read_index rb)) (nat (rt_ringbuffer_data_len rb))"

lemma index_eq: "(a :: 15 word) = b \<longleftrightarrow> uint a = uint b" "(a :: 15 word) < b \<longleftrightarrow> uint a < uint b"
  by (simp_all add: word_uint_eq_iff word_less_def)

text \<open>The state in natural numbers: indices, size, number of bytes.\<close>

lemma rb_numbers:
  assumes "rb_ok rb"
  obtains n r w c where "length (buffer_ptr rb) = n" "buffer_size rb = int n" "0 < n" "n \<le> 32767"
    "unat (read_index rb) = r" "uint (read_index rb) = int r" "r < n"
    "unat (write_index rb) = w" "uint (write_index rb) = int w" "w < n"
    "rt_ringbuffer_data_len rb = int c" "c \<le> n" "w = (r + c) mod n"
    "read_mirror rb = write_mirror rb \<longleftrightarrow> r + c < n"
proof -
  define n where "n = length (buffer_ptr rb)"
  define r where "r = unat (read_index rb)"
  define w where "w = unat (write_index rb)"
  have u: "uint (read_index rb) = int r" "uint (write_index rb) = int w" by (simp_all add: r_def w_def)
  have b: "buffer_size rb = int n" "0 < n" "n \<le> 32767" "r < n" "w < n"
    using assms u by (auto simp: rb_ok_def n_def)
  have m: "r < w \<Longrightarrow> read_mirror rb = write_mirror rb" "w < r \<Longrightarrow> read_mirror rb \<noteq> write_mirror rb"
    using assms u by (simp_all add: rb_ok_def)
  define c where "c = (if r = w then (if read_mirror rb = write_mirror rb then 0 else n)
    else if r < w then w - r else n - (r - w))"
  have "rt_ringbuffer_data_len rb = int c"
    using b u by (simp add: rt_ringbuffer_data_len_def rt_ringbuffer_status_def index_eq c_def of_nat_diff)
  moreover have "c \<le> n" using b by (auto simp: c_def)
  moreover have "w = (r + c) mod n" using b by (auto simp: c_def)
  moreover have "read_mirror rb = write_mirror rb \<longleftrightarrow> r + c < n" using m b by (auto simp: c_def)
  ultimately show thesis using that b u by (auto simp: n_def r_def w_def)
qed

lemma length_rb_list: "rb_ok rb \<Longrightarrow> int (length (rb_list rb)) = rt_ringbuffer_data_len rb"
  by (erule rb_numbers) (simp add: rb_list_def)

lemma rb_space: "rb_ok rb \<Longrightarrow> rt_ringbuffer_space_len rb = buffer_size rb - int (length (rb_list rb))"
  by (simp add: rt_ringbuffer_space_len_def length_rb_list)

lemma rb_len_le: "rb_ok rb \<Longrightarrow> int (length (rb_list rb)) \<le> buffer_size rb"
  by (erule rb_numbers) (simp add: rb_list_def)

lemma rb_list_nth:
  assumes "rb_ok rb" "i < length (rb_list rb)"
  shows "rb_list rb ! i = buffer_ptr rb ! ((unat (read_index rb) + i) mod length (buffer_ptr rb))"
  using assms(2) by (simp add: rb_list_def) (simp add: ring_list_def)

lemma length_blit: "off + length src \<le> length buf \<Longrightarrow> length (blit off src buf) = length buf"
  by (simp add: blit_def)

lemma blit_nth:
  "off + length src \<le> length buf \<Longrightarrow> j < length buf \<Longrightarrow>
   blit off src buf ! j = (if off \<le> j \<and> j < off + length src then src ! (j - off) else buf ! j)"
  by (auto simp: blit_def nth_append)

text \<open>What writing bytes does, wherever the end of the array is.\<close>

lemma ringbuffer_write:
  assumes ok: "rb_ok rb" and len: "length src \<le> length (buffer_ptr rb)"
  defines "n \<equiv> length (buffer_ptr rb)" and "w \<equiv> unat (write_index rb)" and "rb' \<equiv> ringbuffer_write src rb"
  shows "length (buffer_ptr rb') = n" "buffer_size rb' = buffer_size rb" "unat (write_index rb') = (w + length src) mod n"
    "write_mirror rb' = (write_mirror rb \<noteq> (n \<le> w + length src))"
    "read_index rb' = read_index rb" "read_mirror rb' = read_mirror rb"
    "\<And>i. i < length src \<Longrightarrow> buffer_ptr rb' ! ((w + i) mod n) = src ! i"
    "\<And>j. j < n \<Longrightarrow> (\<And>i. i < length src \<Longrightarrow> j \<noteq> (w + i) mod n) \<Longrightarrow> buffer_ptr rb' ! j = buffer_ptr rb ! j"
proof -
  have b: "buffer_size rb = int n" "0 < n" "n \<le> 32767" "w < n" "uint (write_index rb) = int w"
    using ok by (auto elim: rb_numbers simp: n_def w_def)
  have ws: "unat (word_of_int (int x) :: 15 word) = x" if "x \<le> 32767" for x
    using that by (simp add: unsigned_of_nat take_bit_nat_eq_self)
  have "length (buffer_ptr rb') = n \<and> buffer_size rb' = buffer_size rb \<and> unat (write_index rb') = (w + length src) mod n
    \<and> write_mirror rb' = (write_mirror rb \<noteq> (n \<le> w + length src))
    \<and> read_index rb' = read_index rb \<and> read_mirror rb' = read_mirror rb
    \<and> (\<forall>i < length src. buffer_ptr rb' ! ((w + i) mod n) = src ! i)
    \<and> (\<forall>j < n. (\<forall>i < length src. j \<noteq> (w + i) mod n) \<longrightarrow> buffer_ptr rb' ! j = buffer_ptr rb ! j)"
  proof (cases "w + length src < n")
    case True
    have c: "int (length src) < buffer_size rb - uint (write_index rb)" using True b(1,5) by linarith
    have rb': "rb' = rb\<lparr>buffer_ptr := blit w src (buffer_ptr rb),
        write_index := write_index rb + word_of_int (int (length src))\<rparr>"
      unfolding rb'_def ringbuffer_write_def Let_def if_P [OF c] w_def by (rule refl)
    have "unat (write_index rb + word_of_int (int (length src))) = w + length src"
      using True b(3) ws [of "length src"] by (subst unat_plus_simple [THEN iffD1])
        (simp_all add: w_def word_le_nat_alt unat_word_ariths)
    then show ?thesis
      using True b len by (auto simp: rb' length_blit blit_nth n_def)
        (metis add.commute le_add_diff_inverse less_diff_conv2)
  next
    case False
    define e where "e = n - w"
    have e: "int n - int w = int e" "e \<le> length src" "w + e = n" using False b by (auto simp: e_def)
    have c: "\<not> int (length src) < buffer_size rb - uint (write_index rb)" using False b(1,5) by linarith
    have te: "buffer_size rb - uint (write_index rb) = int e" using e(1) b(1,5) by simp
    have rb': "rb' = rb\<lparr>buffer_ptr := blit 0 (drop e src) (blit w (take e src) (buffer_ptr rb)),
        write_mirror := \<not> write_mirror rb, write_index := word_of_int (int (length src - e))\<rparr>"
      unfolding rb'_def ringbuffer_write_def Let_def if_not_P [OF c] te w_def using e(2) by (simp add: of_nat_diff)
    have m: "(w + length src) mod n = length src - e"
    proof -
      have "w + length src = n + (length src - e)" using e by linarith
      moreover have "length src - e < n" using len b e unfolding n_def by linarith
      ultimately show ?thesis by simp
    qed
    have "unat (word_of_int (int (length src - e)) :: 15 word) = length src - e"
      using len b by (intro ws) (simp add: n_def)
    moreover have "(w + i) mod n = (if i < e then w + i else i - e)" if "i < length src" for i
    proof (cases "i < e")
      case True
      then show ?thesis using e(3) by simp
    next
      case False
      then have wi: "w + i = n + (i - e)" using e(3) by linarith
      have "i - e < n" using that len unfolding n_def by linarith
      then show ?thesis unfolding wi using False by (simp only: mod_add_self1 mod_less if_False)
    qed
    moreover have "buffer_ptr rb' ! j = buffer_ptr rb ! j"
      if j: "j < n" "\<forall>i < length src. j \<noteq> (if i < e then w + i else i - e)" for j
    proof -
      have "\<not> (w \<le> j \<and> j < w + e)"
      proof
        assume a: "w \<le> j \<and> j < w + e"
        then have "j - w < e" by linarith
        then show False using j(2) [rule_format, of "j - w"] e(2) a by simp
      qed
      moreover have "\<not> j < length src - e" using j(2) [rule_format, of "j + e"] by (auto simp: less_diff_conv)
      ultimately show ?thesis using j(1) e b(4) len by (simp add: rb' length_blit blit_nth n_def)
    qed
    ultimately show ?thesis
      using False b e len m by (auto simp: rb' length_blit blit_nth n_def)
  qed
  then show "length (buffer_ptr rb') = n" "buffer_size rb' = buffer_size rb" "unat (write_index rb') = (w + length src) mod n"
    "write_mirror rb' = (write_mirror rb \<noteq> (n \<le> w + length src))"
    "read_index rb' = read_index rb" "read_mirror rb' = read_mirror rb"
    "\<And>i. i < length src \<Longrightarrow> buffer_ptr rb' ! ((w + i) mod n) = src ! i"
    "\<And>j. j < n \<Longrightarrow> (\<And>i. i < length src \<Longrightarrow> j \<noteq> (w + i) mod n) \<Longrightarrow> buffer_ptr rb' ! j = buffer_ptr rb ! j"
    by blast+
qed

lemma written_list:
  assumes ok: "rb_ok rb" and len: "length src \<le> length (buffer_ptr rb)"
  defines "n \<equiv> length (buffer_ptr rb)" and "r \<equiv> unat (read_index rb)" and "c \<equiv> length (rb_list rb)"
  assumes k: "k \<le> n" "k \<le> c + length src"
  shows "ring_list (buffer_ptr (ringbuffer_write src rb)) ((r + (c + length src - k)) mod n) k
    = drop (c + length src - k) (rb_list rb @ src)"
proof (rule nth_equalityI)
  note rn = ringbuffer_write [OF ok len, folded n_def]
  define w where "w = unat (write_index rb)"
  have nums: "n > 0" "c \<le> n" "w = (r + c) mod n"
    using ok by (auto elim!: rb_numbers simp: n_def c_def r_def w_def rb_list_def)
  fix i assume "i < length (ring_list (buffer_ptr (ringbuffer_write src rb)) ((r + (c + length src - k)) mod n) k)"
  then have i: "i < k" by simp
  define j where "j = c + length src - k + i"
  have j: "j < c + length src" "c + length src \<le> j + n" using i k by (auto simp: j_def)
  have idx: "((r + (c + length src - k)) mod n + i) mod n = (r + j) mod n"
    by (simp add: j_def mod_add_left_eq add.assoc)
  have "buffer_ptr (ringbuffer_write src rb) ! ((r + j) mod n) = (rb_list rb @ src) ! j"
  proof (cases "j < c")
    case True
    have "(r + j) mod n \<noteq> (w + i) mod n" if "i < length src" for i
    proof
      assume "(r + j) mod n = (w + i) mod n"
      then have "(r + j + 0) mod n = (r + j + (c + i - j)) mod n"
        using True nums(3) by (simp add: mod_add_left_eq add.assoc)
      then have "0 = c + i - j" using mod_offset_inj [of 0 n "c + i - j" "r + j"] nums that j by simp
      then show False using True by simp
    qed
    then have "buffer_ptr (ringbuffer_write src rb) ! ((r + j) mod n) = buffer_ptr rb ! ((r + j) mod n)"
      using rn(8) nums(1) by (simp add: w_def)
    then show ?thesis using True by (simp add: nth_append c_def rb_list_nth [OF ok] r_def n_def)
  next
    case False
    then have "r + j = r + c + (j - c)" by simp
    then have "(r + j) mod n = (w + (j - c)) mod n" unfolding nums(3) by (simp only: mod_add_left_eq)
    then show ?thesis using rn(7) [of "j - c"] False j(1) by (simp add: nth_append c_def w_def)
  qed
  then show "ring_list (buffer_ptr (ringbuffer_write src rb)) ((r + (c + length src - k)) mod n) k ! i
    = drop (c + length src - k) (rb_list rb @ src) ! i"
    using i k idx rn(1) by (simp add: ring_list_def c_def j_def del: drop_append)
qed (use k in \<open>simp add: c_def\<close>)


text \<open>Putting what fits, and taking.\<close>

lemma rb_listI:
  assumes "rt_ringbuffer_data_len rb = int c" "unat (read_index rb) = r"
  shows "rb_list rb = ring_list (buffer_ptr rb) r c"
  using assms by (simp add: rb_list_def)

text \<open>A ring described by natural numbers is well-formed, and its data length is the number.\<close>

lemma rb_of_numbers:
  assumes "length (buffer_ptr rb) = n" "buffer_size rb = int n" "0 < n" "n \<le> 32767"
    "unat (read_index rb) = r" "r < n" "unat (write_index rb) = (r + c) mod n" "c \<le> n"
    "read_mirror rb = write_mirror rb \<longleftrightarrow> r + c < n"
  shows "rb_ok rb \<and> rb_list rb = ring_list (buffer_ptr rb) r c"
proof -
  define w where "w = unat (write_index rb)"
  have u: "uint (read_index rb) = int r" "uint (write_index rb) = int w" by (simp_all add: w_def flip: assms(5))
  have w: "w = (if r + c < n then r + c else r + c - n)" "w < n"
    using assms by (auto simp: w_def mod_if)
  have "rb_ok rb" using assms u w by (auto simp: rb_ok_def)
  moreover have "rt_ringbuffer_data_len rb = int c"
    using assms u w by (auto simp: rt_ringbuffer_data_len_def rt_ringbuffer_status_def index_eq of_nat_diff)
  ultimately show ?thesis using assms(5) by (simp add: rb_listI)
qed

lemma write_fits:
  assumes ok: "rb_ok rb" and fits: "length (rb_list rb) + length src \<le> length (buffer_ptr rb)"
  shows "rb_ok (ringbuffer_write src rb)" "rb_list (ringbuffer_write src rb) = rb_list rb @ src"
    "buffer_size (ringbuffer_write src rb) = buffer_size rb"
proof -
  from ok obtain n r w c where n: "length (buffer_ptr rb) = n" "buffer_size rb = int n" "0 < n" "n \<le> 32767"
    "unat (read_index rb) = r" "r < n" "unat (write_index rb) = w" "c \<le> n" "w = (r + c) mod n"
    "read_mirror rb = write_mirror rb \<longleftrightarrow> r + c < n" "rt_ringbuffer_data_len rb = int c" by (elim rb_numbers)
  have c: "length (rb_list rb) = c" using n by (simp add: rb_list_def)
  have len: "length src \<le> length (buffer_ptr rb)" using fits by simp
  note rn = ringbuffer_write [OF ok len, unfolded n(1)]
  have cl: "c + length src \<le> n" using fits n(1) c by simp
  have "read_mirror rb = (write_mirror rb \<noteq> (n \<le> w + length src)) \<longleftrightarrow> r + (c + length src) < n"
    using n cl by (auto simp: mod_if)
  moreover have "(w + length src) mod n = (r + (c + length src)) mod n"
    by (simp add: n(9) mod_add_left_eq add.assoc)
  ultimately have *: "rb_ok (ringbuffer_write src rb) \<and>
    rb_list (ringbuffer_write src rb) = ring_list (buffer_ptr (ringbuffer_write src rb)) r (c + length src)"
    using n cl rn by (intro rb_of_numbers [where n = n]) simp_all
  moreover have "ring_list (buffer_ptr (ringbuffer_write src rb)) r (c + length src) = rb_list rb @ src"
    using written_list [OF ok len, of "c + length src"] cl n c by simp
  ultimately show "rb_ok (ringbuffer_write src rb)" "rb_list (ringbuffer_write src rb) = rb_list rb @ src" by simp_all
  show "buffer_size (ringbuffer_write src rb) = buffer_size rb" by (rule rn(2))
qed

lemma rt_ringbuffer_put:
  assumes ok: "rb_ok rb"
  defines "room \<equiv> length (buffer_ptr rb) - length (rb_list rb)"
  shows "fst (rt_ringbuffer_put src rb) = int (length (take room src))"
    "rb_ok (snd (rt_ringbuffer_put src rb))"
    "rb_list (snd (rt_ringbuffer_put src rb)) = rb_list rb @ take room src"
    "buffer_size (snd (rt_ringbuffer_put src rb)) = buffer_size rb"
proof -
  have sp: "rt_ringbuffer_space_len rb = int room" "length (rb_list rb) \<le> length (buffer_ptr rb)"
    using rb_space [OF ok] rb_len_le [OF ok] ok by (auto simp: room_def rb_ok_def)
  have "(if int room < int (length src) then take (nat (int room)) src else src) = take room src" by simp
  then have p: "rt_ringbuffer_put src rb = (if room = 0 then (0, rb)
    else (int (length (take room src)), ringbuffer_write (take room src) rb))"
    by (simp add: rt_ringbuffer_put_def sp(1) Let_def)
  have "length (rb_list rb) + length (take room src) \<le> length (buffer_ptr rb)" using sp(2) by (simp add: room_def)
  note w = write_fits [OF ok this]
  show "fst (rt_ringbuffer_put src rb) = int (length (take room src))"
    "rb_ok (snd (rt_ringbuffer_put src rb))"
    "rb_list (snd (rt_ringbuffer_put src rb)) = rb_list rb @ take room src"
    "buffer_size (snd (rt_ringbuffer_put src rb)) = buffer_size rb"
    unfolding p using w ok by (simp_all split: if_split)
qed


lemma ring_list_drop:
  "k \<le> c \<Longrightarrow> drop k (ring_list pool r c) = ring_list pool ((r + k) mod length pool) (c - k)"
proof (rule nth_equalityI)
  fix i assume "k \<le> c" "i < length (drop k (ring_list pool r c))"
  then have "k + i < c" "i < c - k" by simp_all
  then show "drop k (ring_list pool r c) ! i = ring_list pool ((r + k) mod length pool) (c - k) ! i"
    by (simp add: ring_list_def mod_add_left_eq add.assoc)
qed simp

lemma rt_ringbuffer_get:
  assumes ok: "rb_ok rb"
  shows "fst (rt_ringbuffer_get len rb) = take len (rb_list rb)"
    "rb_ok (snd (rt_ringbuffer_get len rb))"
    "rb_list (snd (rt_ringbuffer_get len rb)) = drop len (rb_list rb)"
    "buffer_size (snd (rt_ringbuffer_get len rb)) = buffer_size rb"
proof -
  from ok obtain n r w c where n: "length (buffer_ptr rb) = n" "buffer_size rb = int n" "0 < n" "n \<le> 32767"
    "unat (read_index rb) = r" "uint (read_index rb) = int r" "r < n"
    "unat (write_index rb) = w" "w < n" "c \<le> n" "w = (r + c) mod n"
    "read_mirror rb = write_mirror rb \<longleftrightarrow> r + c < n" "rt_ringbuffer_data_len rb = int c" by (elim rb_numbers)
  have l: "rb_list rb = ring_list (buffer_ptr rb) r c" using n by (simp add: rb_listI)
  have ws: "unat (word_of_int (int x) :: 15 word) = x" if "x \<le> 32767" for x
    using that by (simp add: unsigned_of_nat take_bit_nat_eq_self)
  have "fst (rt_ringbuffer_get len rb) = take len (rb_list rb) \<and> rb_ok (snd (rt_ringbuffer_get len rb))
    \<and> rb_list (snd (rt_ringbuffer_get len rb)) = drop len (rb_list rb)
    \<and> buffer_size (snd (rt_ringbuffer_get len rb)) = buffer_size rb"
  proof (cases "c = 0")
    case True
    then show ?thesis using ok n(13) l by (simp add: rt_ringbuffer_get_def)
  next
    case False
    define m where "m = min len c"
    have m: "m \<le> c" "m \<le> n" "take len (rb_list rb) = take m (rb_list rb)" "drop len (rb_list rb) = drop m (rb_list rb)"
      using l n(10) by (auto simp: m_def min_def)
    have lm: "(if int c < int len then nat (int c) else len) = m" by (simp add: m_def min_def)
    have tk: "take m (rb_list rb) = map (\<lambda>i. buffer_ptr rb ! ((r + i) mod n)) [0..<m]"
      using m(1) by (simp add: l ring_list_def n(1) take_map min_def)
    have g: "rt_ringbuffer_get len rb = (if int m < int n - int r
      then (take m (drop r (buffer_ptr rb)), rb\<lparr>read_index := read_index rb + word_of_int (int m)\<rparr>)
      else (take (nat (int n - int r)) (drop r (buffer_ptr rb)) @ take (nat (int m - (int n - int r))) (buffer_ptr rb),
        rb\<lparr>read_mirror := \<not> read_mirror rb, read_index := word_of_int (int m - (int n - int r))\<rparr>))"
      using False unfolding rt_ringbuffer_get_def Let_def n(13) lm n(2,5,6) by simp
    show ?thesis
    proof (cases "r + m < n")
      case True
      define rb' where "rb' = rb\<lparr>read_index := read_index rb + word_of_int (int m)\<rparr>"
      have g: "rt_ringbuffer_get len rb = (take m (drop r (buffer_ptr rb)), rb')"
        using True unfolding g rb'_def by simp
      have "unat (read_index rb + word_of_int (int m)) = r + m"
        using True n(4,5) ws [of m] by (subst unat_plus_simple [THEN iffD1])
          (simp_all add: word_le_nat_alt unat_word_ariths)
      then have "rb_ok rb' \<and> rb_list rb' = ring_list (buffer_ptr rb') (r + m) (c - m)"
        using n m True by (intro rb_of_numbers [where n = n]) (simp_all add: rb'_def)
      moreover have "take m (drop r (buffer_ptr rb)) = take m (rb_list rb)"
        using True n(1) unfolding tk by (intro nth_equalityI) (simp_all)
      ultimately show ?thesis
        using m True n(1) by (simp add: g l ring_list_drop) (simp add: rb'_def)
    next
      case False
      define rb' where "rb' = rb\<lparr>read_mirror := \<not> read_mirror rb, read_index := word_of_int (int (r + m - n))\<rparr>"
      have e: "int m - (int n - int r) = int (r + m - n)" "nat (int n - int r) = n - r" using False by simp_all
      have g: "rt_ringbuffer_get len rb = (take (n - r) (drop r (buffer_ptr rb)) @ take (r + m - n) (buffer_ptr rb), rb')"
        using False unfolding g e rb'_def by (simp only: of_nat_less_iff nat_int) simp
      have r1: "r + m - n < n" using False n(7,10) m(1) by linarith
      have rm: "r + m - n < n" "(r + m) mod n = r + m - n"
        using False r1 by (simp_all add: le_mod_geq)
      have "unat (read_index rb') = r + m - n" unfolding rb'_def using rm(1) n(4) ws [of "r + m - n"] by simp
      moreover have "w = (r + m - n + (c - m)) mod n"
        using n(11) m(1) False by (metis Nat.add_diff_assoc2 le_add_diff_inverse mod_add_left_eq not_less rm(2) add.assoc)
      ultimately have "rb_ok rb' \<and> rb_list rb' = ring_list (buffer_ptr rb') (r + m - n) (c - m)"
        using n m(1,2) rm(1) False by (intro rb_of_numbers [where n = n]) (auto simp: rb'_def)
      moreover have "take (n - r) (drop r (buffer_ptr rb)) @ take (r + m - n) (buffer_ptr rb) = take m (rb_list rb)"
        unfolding tk using False n(1,7) m(2)
        by (intro nth_equalityI) (auto simp: nth_append mod_if add.commute)
      ultimately show ?thesis
        using m rm n(1) by (simp add: g l ring_list_drop) (simp add: rb'_def)
    qed
  qed
  then show "fst (rt_ringbuffer_get len rb) = take len (rb_list rb)"
    "rb_ok (snd (rt_ringbuffer_get len rb))"
    "rb_list (snd (rt_ringbuffer_get len rb)) = drop len (rb_list rb)"
    "buffer_size (snd (rt_ringbuffer_get len rb)) = buffer_size rb" by blast+
qed

lemma rt_ringbuffer_put_force:
  fixes src :: "u8 list"
  assumes ok: "rb_ok rb"
  defines "n \<equiv> length (buffer_ptr rb)"
  defines "old \<equiv> rb_list rb" and "new \<equiv> drop (length src - n) src"
  shows "fst (rt_ringbuffer_put_force src rb) = int (length new)"
    "rb_ok (snd (rt_ringbuffer_put_force src rb))"
    "rb_list (snd (rt_ringbuffer_put_force src rb)) =
      (if length old + length new \<le> n then old @ new
       else if read_mirror rb \<noteq> write_mirror rb then drop (length old + length new - n) (old @ new)
       else [])"
proof -
  from ok obtain n' r w c where "length (buffer_ptr rb) = n'" "buffer_size rb = int n'" "0 < n'" "n' \<le> 32767"
    "unat (read_index rb) = r" "r < n'" "unat (write_index rb) = w" "uint (write_index rb) = int w" "w < n'" "c \<le> n'" "w = (r + c) mod n'"
    "read_mirror rb = write_mirror rb \<longleftrightarrow> r + c < n'" "rt_ringbuffer_data_len rb = int c" by (elim rb_numbers)
  then have n: "length (buffer_ptr rb) = n" "buffer_size rb = int n" "0 < n" "n \<le> 32767"
    "unat (read_index rb) = r" "r < n" "unat (write_index rb) = w" "uint (write_index rb) = int w" "w < n" "c \<le> n" "w = (r + c) mod n"
    "read_mirror rb = write_mirror rb \<longleftrightarrow> r + c < n" "rt_ringbuffer_data_len rb = int c" by (simp_all add: n_def)
  have c: "length old = c" using n by (simp add: old_def rb_list_def)
  have src: "(if int n < int (length src) then drop (nat (int (length src) - int n)) src else src) = new"
    by (simp add: new_def nat_diff_distrib)
  have len: "length new \<le> n" by (simp add: new_def)
  note rn = ringbuffer_write [OF ok, of new, folded n_def, unfolded n(7), OF len]
  define rb' where "rb' = ringbuffer_write new rb"
  have sp: "rt_ringbuffer_space_len rb = int (n - c)"
    using n by (simp add: rt_ringbuffer_space_len_def of_nat_diff)
  have p: "rt_ringbuffer_put_force src rb = (int (length new),
    if n < c + length new then
      (if n \<le> w + length new then rb'\<lparr>read_mirror := \<not> read_mirror rb', read_index := write_index rb'\<rparr>
       else rb'\<lparr>read_index := write_index rb'\<rparr>)
    else rb')"
    unfolding rt_ringbuffer_put_force_def Let_def n(2) src sp n(8) rb'_def using n(10)
    by (auto simp: n_def)
  show "fst (rt_ringbuffer_put_force src rb) = int (length new)" by (simp add: p)
  have "rb_ok (snd (rt_ringbuffer_put_force src rb)) \<and> rb_list (snd (rt_ringbuffer_put_force src rb)) =
      (if length old + length new \<le> n then old @ new
       else if read_mirror rb \<noteq> write_mirror rb then drop (length old + length new - n) (old @ new)
       else [])"
  proof (cases "c + length new \<le> n")
    case True
    then show ?thesis
      using write_fits [OF ok, of new] n(1) c by (simp add: p rb'_def old_def)
  next
    case False
    define rb2 where "rb2 = snd (rt_ringbuffer_put_force src rb)"
    define w' where "w' = (w + length new) mod n"
    have rb2: "buffer_ptr rb2 = buffer_ptr rb'" "buffer_size rb2 = int n" "unat (read_index rb2) = w'" "unat (write_index rb2) = w'"
      "read_mirror rb2 = write_mirror rb2 \<longleftrightarrow> read_mirror rb = write_mirror rb"
      using False rn n(2) by (auto simp: rb2_def p rb'_def w'_def)
    have rb2_len: "length (buffer_ptr rb2) = n" using rn(1) by (simp add: rb2(1) rb'_def)
    show ?thesis
    proof (cases "read_mirror rb = write_mirror rb")
      case True
      have "rb_ok rb2 \<and> rb_list rb2 = ring_list (buffer_ptr rb2) w' 0"
        using True rb2 rb2_len n(3,4) by (intro rb_of_numbers [where n = n]) (simp_all add: w'_def)
      then show ?thesis using False c True by (simp add: rb2_def)
    next
      case ne: False
      have "rb_ok rb2 \<and> rb_list rb2 = ring_list (buffer_ptr rb2) w' n"
        using ne rb2 rb2_len n(3,4) by (intro rb_of_numbers [where n = n]) (simp_all add: w'_def)
      moreover have "w' = (r + (c + length new - n)) mod n"
      proof -
        have "w' = (r + (c + length new)) mod n" by (simp add: w'_def n(11) mod_add_left_eq add.assoc)
        also have "\<dots> = (r + (c + length new - n) + n) mod n" using False by simp
        finally show ?thesis by simp
      qed
      ultimately have "rb_ok rb2 \<and> rb_list rb2 = drop (c + length new - n) (old @ new)"
        using written_list [OF ok, of new n] len False n(1,5) c by (simp add: rb2(1) rb'_def old_def del: drop_append)
      then show ?thesis using False c ne by (simp add: rb2_def)
    qed
  qed
  then show "rb_ok (snd (rt_ringbuffer_put_force src rb))"
    "rb_list (snd (rt_ringbuffer_put_force src rb)) =
      (if length old + length new \<le> n then old @ new
       else if read_mirror rb \<noteq> write_mirror rb then drop (length old + length new - n) (old @ new)
       else [])" by blast+
qed


text \<open>One byte at a time.\<close>

lemma putchar_write: "rb_ok rb \<Longrightarrow> ringbuffer_write_char ch rb = ringbuffer_write [ch] rb"
proof (erule rb_numbers)
  fix n w assume b: "length (buffer_ptr rb) = n" "buffer_size rb = int n" "n \<le> 32767"
    "unat (write_index rb) = w" "uint (write_index rb) = int w" "w < n"
  have up: "take w (buffer_ptr rb) @ [ch] @ drop (w + 1) (buffer_ptr rb) = (buffer_ptr rb)[w := ch]"
    using b by (simp add: upd_conv_take_nth_drop)
  show "ringbuffer_write_char ch rb = ringbuffer_write [ch] rb"
  proof (cases "w + 1 < n")
    case True
    then have "1 < int n - int w" "int w \<noteq> int n - 1" by linarith+
    then show ?thesis using b up by (simp add: ringbuffer_write_char_def ringbuffer_write_def Let_def blit_def)
  next
    case False
    then have w: "int n - int w = 1" "int w = int n - 1" using b by linarith+
    have "drop (Suc w) (buffer_ptr rb) = []" using False b by simp
    then have "take w (buffer_ptr rb) @ [ch] = (buffer_ptr rb)[w := ch]" using up by simp
    moreover have "blit w [ch] (buffer_ptr rb) = take w (buffer_ptr rb) @ [ch]"
      using False b by (simp add: blit_def)
    ultimately show ?thesis
      unfolding ringbuffer_write_char_def ringbuffer_write_def Let_def b(2,4,5) w(1)
      using w(2) by (simp add: b(2) b(4) b(5)) (simp add: blit_def)
  qed
qed

lemma putchar_put: "rb_ok rb \<Longrightarrow> rt_ringbuffer_putchar ch rb = rt_ringbuffer_put [ch] rb"
  by (auto simp: rt_ringbuffer_putchar_def rt_ringbuffer_put_def putchar_write Let_def rb_space dest: rb_len_le)

lemma getchar_get:
  assumes "rb_ok rb"
  shows "rt_ringbuffer_getchar rb = ((int (length (fst (rt_ringbuffer_get 1 rb))),
      (case fst (rt_ringbuffer_get 1 rb) of [] \<Rightarrow> None | ch # _ \<Rightarrow> Some ch)), snd (rt_ringbuffer_get 1 rb))"
  using assms
proof (elim rb_numbers)
  fix n r c assume b: "length (buffer_ptr rb) = n" "buffer_size rb = int n" "n \<le> 32767" "0 < n"
    "unat (read_index rb) = r" "uint (read_index rb) = int r" "r < n" "rt_ringbuffer_data_len rb = int c"
  then have t: "take (Suc 0) (drop r (buffer_ptr rb)) = [buffer_ptr rb ! r]"
    by (simp add: take_Suc_conv_app_nth hd_drop_conv_nth take_Suc)
  show ?thesis
  proof (cases "r + 1 < n")
    case True
    then have "1 < int n - int r" "int r \<noteq> int n - 1" by linarith+
    then show ?thesis using b t by (auto simp: rt_ringbuffer_getchar_def rt_ringbuffer_get_def Let_def)
  next
    case False
    then have w: "int n - int r = 1" "int r = int n - 1" using b by linarith+
    show ?thesis
      unfolding rt_ringbuffer_getchar_def rt_ringbuffer_get_def Let_def b(2,5,6,8) w(1)
      using w(2) t by (simp add: b(5) b(6))
  qed
qed


lemma putchar_force_put_force: "rb_ok rb \<Longrightarrow> rt_ringbuffer_putchar_force ch rb = rt_ringbuffer_put_force [ch] rb"
proof -
  assume ok: "rb_ok rb"
  from ok obtain n r w c where b: "length (buffer_ptr rb) = n" "buffer_size rb = int n" "0 < n" "n \<le> 32767"
    "unat (read_index rb) = r" "uint (read_index rb) = int r" "r < n"
    "uint (write_index rb) = int w" "w < n" "c \<le> n" "w = (r + c) mod n"
    "read_mirror rb = write_mirror rb \<longleftrightarrow> r + c < n" "rt_ringbuffer_data_len rb = int c" by (elim rb_numbers)
  have "(rt_ringbuffer_status rb = RT_RINGBUFFER_FULL) = (c = n)"
    using b by (auto simp: rt_ringbuffer_status_def index_eq mod_if)
  moreover have "rt_ringbuffer_space_len rb < 1 \<longleftrightarrow> c = n" using b by (auto simp: rt_ringbuffer_space_len_def)
  moreover have "\<not> 1 < int n - int w \<longleftrightarrow> int w = int n - 1" using b(9) by linarith
  ultimately show ?thesis
    using b(2,3,8) by (simp add: rt_ringbuffer_putchar_force_def rt_ringbuffer_put_force_def Let_def putchar_write [OF ok])
qed

lemma peak_get:
  assumes ok: "rb_ok rb" and some: "rb_list rb \<noteq> []"
  obtains m where "0 < m" "m \<le> length (rb_list rb)" "unat (read_index rb) + m \<le> length (buffer_ptr rb)"
    "rt_ringbuffer_peak rb = ((int m, Some (unat (read_index rb))), snd (rt_ringbuffer_get m rb))"
    "take m (drop (unat (read_index rb)) (buffer_ptr rb)) = take m (rb_list rb)"
proof -
  from ok obtain n r w c where b: "length (buffer_ptr rb) = n" "buffer_size rb = int n" "0 < n" "n \<le> 32767"
    "unat (read_index rb) = r" "uint (read_index rb) = int r" "r < n" "c \<le> n" "rt_ringbuffer_data_len rb = int c"
    by (elim rb_numbers)
  have l: "rb_list rb = ring_list (buffer_ptr rb) r c" using b by (simp add: rb_listI)
  have c: "0 < c" using some l by (metis gr0I ring_list_0)
  define m where "m = min c (n - r)"
  have m: "0 < m" "m \<le> c" "r + m \<le> n" using c b by (auto simp: m_def)
  have p: "rt_ringbuffer_peak rb = ((int m, Some r), snd (rt_ringbuffer_get m rb))"
  proof (cases "r + c < n")
    case True
    then have "int c < int n - int r" "m = c" by (auto simp: m_def)
    then show ?thesis
      using c by (simp add: rt_ringbuffer_peak_def rt_ringbuffer_get_def Let_def b(9) b(2) b(5) b(6))
  next
    case False
    then have "\<not> int c < int n - int r" by linarith
    moreover have "int n - int r = int m" using False b(7) by (simp add: m_def of_nat_diff)
    ultimately have "\<not> int c < int n - int r" "int n - int r = int m" by blast+
    then show ?thesis
      using c m(1,2) by (simp add: rt_ringbuffer_peak_def rt_ringbuffer_get_def Let_def b(9) b(2) b(5) b(6))
  qed
  have t: "take m (drop r (buffer_ptr rb)) = take m (ring_list (buffer_ptr rb) r c)"
    using m b(1) by (intro nth_equalityI) (simp_all add: ring_list_def)
  show thesis
    by (rule that [of m]) (use m p t b(1) in \<open>simp_all only: l b(5) length_ring_list\<close>)
qed

text \<open>A byte at a time, the ring is a bounded queue.\<close>

interpretation rbq: bounded_queue rb_ok rb_list "\<lambda>rb. nat (buffer_size rb)"
  "\<lambda>ch rb. snd (rt_ringbuffer_putchar ch rb)"
  "\<lambda>rb. (the (snd (fst (rt_ringbuffer_getchar rb))), snd (rt_ringbuffer_getchar rb))"
proof (unfold_locales, goal_cases)
  case (1 s)
  then show ?case using rb_len_le by fastforce
next
  case (2 s x)
  then have "length (buffer_ptr s) = nat (buffer_size s)" by (auto simp: rb_ok_def)
  then show ?case using rt_ringbuffer_put [OF 2(1), of "[x]"] 2 by (simp add: putchar_put)
next
  case (3 s x xs)
  then show ?case using rt_ringbuffer_get [OF 3(1), of 1] by (simp add: getchar_get)
qed

lemma init_ok:
  assumes "0 < s" "s \<le> 32767" "length pool = nat (s AND NOT 3)" "4 \<le> s"
  shows "rb_ok (rt_ringbuffer_init pool s) \<and> rb_list (rt_ringbuffer_init pool s) = []
    \<and> buffer_size (rt_ringbuffer_init pool s) = s - s mod 4"
proof -
  have "s AND NOT 3 = s - s mod 4"
  proof -
    have "s - take_bit 2 s = s AND NOT (take_bit 2 s)" by (rule disjunctive_diff) (simp add: bit_take_bit_iff)
    also have "\<dots> = s AND NOT (mask 2)"
      by (rule bit_eqI) (auto simp: bit_and_iff bit_not_iff bit_take_bit_iff bit_mask_iff)
    also have "mask 2 = (3 :: int)" by (simp add: mask_eq_exp_minus_1)
    finally have "s AND NOT 3 = s - take_bit 2 s" by simp
    then show ?thesis by (simp add: take_bit_eq_mod)
  qed
  moreover have "0 < s - s mod 4" "s - s mod 4 \<le> s" using assms(1,4) by presburger+
  ultimately show ?thesis
    using assms by (simp add: rb_ok_def rt_ringbuffer_init_def rb_list_def rt_ringbuffer_data_len_def rt_ringbuffer_status_def)
qed

section \<open>Properties of the byte ring buffers\<close>

text \<open>C26. The ring is a queue of bytes of bounded capacity, wherever its two indices are: putting a
  block appends what fits and returns how much, getting a block takes the oldest bytes in order,
  and both keep the ring well-formed, mirror bits included.\<close>

theorem ringbuffer_is_a_byte_queue:
  assumes "rb_ok rb"
  shows "rt_ringbuffer_space_len rb = buffer_size rb - int (length (rb_list rb))
    \<and> (\<forall>src. let n = nat (rt_ringbuffer_space_len rb); (k, rb') = rt_ringbuffer_put src rb
         in k = int (length (take n src)) \<and> rb_ok rb' \<and> rb_list rb' = rb_list rb @ take n src
            \<and> buffer_size rb' = buffer_size rb)
    \<and> (\<forall>len. let (dst, rb') = rt_ringbuffer_get len rb
         in dst = take len (rb_list rb) \<and> rb_ok rb' \<and> rb_list rb' = drop len (rb_list rb)
            \<and> buffer_size rb' = buffer_size rb)"
proof -
  have room: "nat (rt_ringbuffer_space_len rb) = length (buffer_ptr rb) - length (rb_list rb)"
  proof -
    have "buffer_size rb = int (length (buffer_ptr rb))" using assms by (simp add: rb_ok_def)
    then show ?thesis using rb_space [OF assms] rb_len_le [OF assms] by (simp add: of_nat_diff)
  qed
  show ?thesis
    using rt_ringbuffer_put [OF assms] rt_ringbuffer_get [OF assms]
    unfolding room Let_def split_def by (intro conjI allI rb_space [OF assms]) simp_all
qed

lemma ringbuffer_is_a_byte_queue_witness:
  "rb_list (snd (rt_ringbuffer_put [9, 8, 7] (snd (rt_ringbuffer_get 4 (snd (rt_ringbuffer_put [1, 2, 3, 4, 5]
     (rt_ringbuffer_init [0, 0, 0, 0, 0, 0, 0, 0] 8))))))) = [5, 9, 8, 7]"
proof -
  define rb where "rb = snd (rt_ringbuffer_get 4 (snd (rt_ringbuffer_put [1, 2, 3, 4, 5]
     (rt_ringbuffer_init [0, 0, 0, 0, 0, 0, 0, 0] 8))))"
  have rb: "rb = \<lparr>buffer_ptr = [1, 2, 3, 4, 5, 0, 0, 0], read_mirror = False, read_index = 4,
    write_mirror = False, write_index = 5, buffer_size = 8\<rparr>" unfolding rb_def by code_simp
  have "rb_ok rb" unfolding rb by (simp add: rb_ok_def)
  note * = ringbuffer_is_a_byte_queue [OF this]
  have "nat (rt_ringbuffer_space_len rb) = 7" "rb_list rb = [5]" unfolding rb by code_simp+
  then show ?thesis using * unfolding rb_def [symmetric] by (simp add: Let_def split_def)
qed

text \<open>From the interrupt side to the reader's side: bytes put one by one, the way a serial driver
  does, into an empty ring that has room for them are what the reader then gets, in the same order,
  as one block or byte by byte, and the ring is empty again.\<close>

theorem ringbuffer_carries_bytes:
  assumes "rb_ok rb" "rt_ringbuffer_data_len rb = 0" "int (length chs) \<le> buffer_size rb"
  defines "full \<equiv> fold (\<lambda>ch rb. snd (rt_ringbuffer_putchar ch rb)) chs rb"
  shows "fst (rt_ringbuffer_get (length chs) full) = chs
    \<and> rt_ringbuffer_data_len (snd (rt_ringbuffer_get (length chs) full)) = 0
    \<and> (case chs of [] \<Rightarrow> fst (rt_ringbuffer_getchar full) = (0, None)
       | ch # _ \<Rightarrow> fst (rt_ringbuffer_getchar full) = (1, Some ch))"
proof -
  have e: "rb_list rb = []" using length_rb_list [OF assms(1)] assms(2) by simp
  have f: "rb_ok full" "rb_list full = chs"
    unfolding full_def using rbq.puts [OF assms(1), of chs] assms(3) by (simp_all add: e)
  have "rt_ringbuffer_data_len (snd (rt_ringbuffer_get (length chs) full)) = 0"
    using length_rb_list [OF rt_ringbuffer_get(2) [OF f(1)], of "length chs"]
      rt_ringbuffer_get(3) [OF f(1), of "length chs"] f(2) by simp
  moreover have "fst (rt_ringbuffer_getchar full) =
      (int (length (take 1 chs)), case take 1 chs of [] \<Rightarrow> None | ch # _ \<Rightarrow> Some ch)"
    using f rt_ringbuffer_get(1) [OF f(1), of 1] by (simp add: getchar_get)
  ultimately show ?thesis using f rt_ringbuffer_get(1) [OF f(1), of "length chs"] by (cases chs) simp_all
qed

lemma ringbuffer_carries_bytes_witness:
  "fst (rt_ringbuffer_get 3 (fold (\<lambda>ch rb. snd (rt_ringbuffer_putchar ch rb)) [65, 66, 67]
     \<lparr>buffer_ptr = [1, 2, 3, 4], read_mirror = True, read_index = 3, write_mirror = True,
      write_index = 3, buffer_size = 4\<rparr>)) = [65, 66, 67]"
proof -
  define rb where "rb = \<lparr>buffer_ptr = [1, 2, 3, 4], read_mirror = True, read_index = 3, write_mirror = True,
      write_index = 3, buffer_size = 4\<rparr>"
  have "rb_ok rb" "rt_ringbuffer_data_len rb = 0" "buffer_size rb = 4"
    by (simp_all add: rb_def rb_ok_def rt_ringbuffer_data_len_def rt_ringbuffer_status_def)
  then show ?thesis
    using ringbuffer_carries_bytes [of rb "[65, 66, 67]"] unfolding rb_def [symmetric] by (simp add: numeral_3_eq_3)
qed

text \<open>The forced put keeps the newest bytes: what fits is appended, and a ring whose content goes
  round the end of the array drops its oldest bytes and stays full. But a ring that overflows while
  its content does not go round (equal mirror bits) comes out empty: both mirror bits are flipped, so
  equal indices read as no data, and the new bytes are lost together with the old ones. One byte at a
  time this cannot happen.\<close>

theorem ringbuffer_put_force_keeps_newest:
  assumes "rb_ok rb"
  defines "n \<equiv> nat (buffer_size rb)"
  shows "(\<forall>src. let new = drop (length src - n) src; all = rb_list rb @ new; rb' = snd (rt_ringbuffer_put_force src rb)
      in rb_ok rb' \<and> rb_list rb' =
        (if length all \<le> n then all
         else if read_mirror rb \<noteq> write_mirror rb then drop (length all - n) all
         else []))
    \<and> (\<forall>ch. rb_list (snd (rt_ringbuffer_putchar_force ch rb)) =
        (if length (rb_list rb) < n then rb_list rb @ [ch] else tl (rb_list rb) @ [ch]))"
proof -
  have n: "length (buffer_ptr rb) = n" "0 < n" using assms(1) by (auto simp: rb_ok_def n_def)
  have "length (rb_list rb) = n \<Longrightarrow> read_mirror rb \<noteq> write_mirror rb"
    using assms(1) n(1) by (elim rb_numbers) (auto simp: rb_list_def)
  moreover have "length (rb_list rb) \<le> n" using rb_len_le [OF assms(1)] by (simp add: n_def)
  moreover have "rb_list (snd (rt_ringbuffer_putchar_force ch rb)) =
      (if length (rb_list rb) + 1 \<le> n then rb_list rb @ [ch]
       else if read_mirror rb \<noteq> write_mirror rb then drop (length (rb_list rb) + 1 - n) (rb_list rb @ [ch]) else [])" for ch
    using rt_ringbuffer_put_force(3) [OF assms(1), of "[ch]"] n
    by (simp add: putchar_force_put_force [OF assms(1)])
  ultimately have "rb_list (snd (rt_ringbuffer_putchar_force ch rb)) =
        (if length (rb_list rb) < n then rb_list rb @ [ch] else tl (rb_list rb) @ [ch])" for ch
    using n(2) by (auto simp: drop_Suc)
  then show ?thesis
    using rt_ringbuffer_put_force [OF assms(1)] n(1) by (simp add: Let_def)
qed

lemma ringbuffer_put_force_keeps_newest_witness:
  "rb_list (snd (rt_ringbuffer_put_force [1, 2, 3, 4]
     \<lparr>buffer_ptr = [0, 0, 6, 7], read_mirror = False, read_index = 2, write_mirror = False,
      write_index = 3, buffer_size = 4\<rparr>)) = []"
  using ringbuffer_put_force_keeps_newest [of "\<lparr>buffer_ptr = [0, 0, 6, 7], read_mirror = False, read_index = 2,
      write_mirror = False, write_index = 3, buffer_size = 4\<rparr>"]
  by (simp add: rb_ok_def rb_list_def rt_ringbuffer_data_len_def rt_ringbuffer_status_def Let_def)

end
