(* ===== verification/Calendar.thy ===== *)
theory Calendar
  imports Prelude "HOL-Library.Signed_Division"
begin

section \<open>The calendar (\<open>components/libc/compilers/common/time.c\<close>)\<close>

text \<open>
  Seconds since 1970 to broken-down time and back, and the text of a date, which the watch shows.
  \<open>time_t\<close> and the fields of \<open>struct tm\<close> are unbounded integers here; C's division, which
  truncates, is \<open>sdiv\<close> and \<open>smod\<close>. An index outside the table \<open>__spm\<close> has no value: the function
  that reads it returns \<open>None\<close>.
\<close>

record tm =
  tm_sec :: int
  tm_min :: int
  tm_hour :: int
  tm_mday :: int
  tm_mon :: int
  tm_year :: int
  tm_wday :: int
  tm_yday :: int
  tm_isdst :: int

definition SPD :: int where "SPD = 24 * 60 * 60"

definition spm_table :: "int list" where
  "spm_table = [0, 31, 31 + 28, 31 + 28 + 31, 31 + 28 + 31 + 30, 31 + 28 + 31 + 30 + 31,
     31 + 28 + 31 + 30 + 31 + 30, 31 + 28 + 31 + 30 + 31 + 30 + 31,
     31 + 28 + 31 + 30 + 31 + 30 + 31 + 31, 31 + 28 + 31 + 30 + 31 + 30 + 31 + 31 + 30,
     31 + 28 + 31 + 30 + 31 + 30 + 31 + 31 + 30 + 31,
     31 + 28 + 31 + 30 + 31 + 30 + 31 + 31 + 30 + 31 + 30,
     31 + 28 + 31 + 30 + 31 + 30 + 31 + 31 + 30 + 31 + 30 + 31]"

definition spm :: "int \<Rightarrow> int option" where
  "spm i = (if 0 \<le> i \<and> i < 13 then Some (spm_table ! nat i) else None)"

definition isleap :: "int \<Rightarrow> bool" where
  "isleap year \<longleftrightarrow> year smod 4 = 0 \<and> (year smod 100 \<noteq> 0 \<or> year smod 400 = 0)"

subsection \<open>Seconds to a date\<close>

text \<open>The loop over the years: the year and the day in it.\<close>

function year_loop :: "int \<Rightarrow> int \<Rightarrow> int \<times> int" where
  "year_loop i work =
    (let k = (if isleap i then 366 else 365)
     in if k \<le> work then year_loop (i + 1) (work - k) else (i, work))"
  by pat_completeness auto
termination by (relation "measure (\<lambda>(i, work). nat work)") (auto split: if_splits)

declare year_loop.simps [simp del]

text \<open>The loop over the months, from December down; it stops at January at the latest.\<close>

fun month_loop :: "nat \<Rightarrow> int \<Rightarrow> nat" where
  "month_loop 0 work = 0"
| "month_loop (Suc i) work = (if spm_table ! Suc i > work then month_loop i work else Suc i)"

definition gmtime_r :: "int \<Rightarrow> tm" where
  "gmtime_r timep =
    (let work = timep smod SPD;
         sec = work smod 60;
         work = work sdiv 60;
         mi = work smod 60;
         hour = work sdiv 60;
         work = timep sdiv SPD;
         wday = (4 + work) smod 7;
         (i, work) = year_loop 1970 work;
         yday = work;
         mday = 1;
         (mday, work) =
           (if isleap i \<and> 58 < work then (if work = 59 then 2 else mday, work - 1) else (mday, work));
         mon = month_loop 11 work
     in \<lparr>tm_sec = sec, tm_min = mi, tm_hour = hour, tm_mday = mday + (work - spm_table ! mon),
         tm_mon = int mon, tm_year = i - 1900, tm_wday = wday, tm_yday = yday, tm_isdst = 0\<rparr>)"

text \<open>\<open>RT_LIBC_FIXED_TIMEZONE\<close> is an option of the configuration, 8 hours by default.\<close>

definition RT_LIBC_FIXED_TIMEZONE :: int where "RT_LIBC_FIXED_TIMEZONE = 8"

definition localtime_r :: "int \<Rightarrow> tm" where
  "localtime_r t = gmtime_r (t + RT_LIBC_FIXED_TIMEZONE * 3600)"

subsection \<open>A date to seconds\<close>

text \<open>
  The loop of \<open>timegm\<close> that brings the day of the month into range: month and year follow.
\<close>

function mday_loop :: "int \<Rightarrow> int \<Rightarrow> int \<Rightarrow> (int \<times> int \<times> int) option" where
  "mday_loop mday mon year =
    (case spm (1 + mon) of
       None \<Rightarrow> None
     | Some len \<Rightarrow>
        if len < mday then
          (case spm mon of
             None \<Rightarrow> None
           | Some start \<Rightarrow>
              let mday = (if mon = 1 \<and> isleap (year + 1900) then mday - 1 else mday);
                  mday = mday - start;
                  mon = mon + 1
              in if 11 < mon then mday_loop mday 0 (year + 1) else mday_loop mday mon year)
        else Some (mday, mon, year))"
  by pat_completeness auto

lemma spm_Some: "spm i = Some s \<longleftrightarrow> 0 \<le> i \<and> i < 13 \<and> s = spm_table ! nat i"
  by (auto simp: spm_def)

lemma spm_table_bounds:
  "i < 13 \<Longrightarrow> 0 \<le> spm_table ! i \<and> spm_table ! i \<le> 365 \<and> (0 < i \<longrightarrow> 31 \<le> spm_table ! i)
    \<and> (i < 12 \<longrightarrow> spm_table ! i + 28 \<le> spm_table ! Suc i \<and> spm_table ! Suc i \<le> spm_table ! i + 31)"
proof -
  have "\<forall>i<13. 0 \<le> spm_table ! i \<and> spm_table ! i \<le> 365 \<and> (0 < i \<longrightarrow> 31 \<le> spm_table ! i)
    \<and> (i < 12 \<longrightarrow> spm_table ! i + 28 \<le> spm_table ! Suc i \<and> spm_table ! Suc i \<le> spm_table ! i + 31)"
    by code_simp
  then show "i < 13 \<Longrightarrow> ?thesis" by blast
qed

termination mday_loop
proof (relation "measure (\<lambda>(mday, mon, year). 13 * nat mday + nat (12 - mon))", goal_cases)
  case 1 show ?case by simp
next
  case (2 mday mon year bn b x xa xb)
  have m: "mon = 11" "b = spm_table ! nat mon" using 2 by (auto simp: spm_Some)
  have "spm_table ! nat (1 + mon) < mday" using 2 by (auto simp: spm_Some)
  then have "365 < mday" "xa \<le> mday - 334" using 2 m by (auto simp: spm_table_def)
  then show ?case using m 2 by auto
next
  case (3 mday mon year bn b x xa xb)
  have m: "0 \<le> mon" "mon < 11" "b = spm_table ! nat mon" using 3 by (auto simp: spm_Some)
  have "spm_table ! nat (1 + mon) < mday" using 3 by (auto simp: spm_Some)
  moreover have "31 \<le> spm_table ! nat (1 + mon)" using m spm_table_bounds [of "nat (1 + mon)"] by auto
  ultimately have md: "31 < mday" by simp
  show ?case
  proof (cases "mon = 0")
    case True
    then have "xa = mday" using 3 m by (simp add: spm_table_def)
    then show ?thesis using 3 True by simp
  next
    case False
    then have "31 \<le> b" using m spm_table_bounds [of "nat mon"] by auto
    then have "xa \<le> mday - 31" using 3 by (auto split: if_splits)
    then show ?thesis using m md 3 False by auto
  qed
qed

declare mday_loop.simps [simp del]

text \<open>The days before a year, with the century rule for the years from 2101 on.\<close>

definition days_before_year :: "int \<Rightarrow> int" where
  "days_before_year years =
    (let day = years * 365 + (years + 1) sdiv 4
     in if 131 \<le> years then
          let years = years - 131;
              years = years sdiv 100;
              day = day - ((years div 4) * 3 + 1);
              years = years mod 4;
              years = (if years = 3 then years - 1 else years)
          in day - years
        else day)"

definition timegm :: "tm \<Rightarrow> (int \<times> tm) option" where
  "timegm t =
    (let years = tm_year t - 70;
         t = (if 60 < tm_sec t
              then t\<lparr>tm_min := tm_min t + tm_sec t sdiv 60, tm_sec := tm_sec t smod 60\<rparr> else t);
         t = (if 60 < tm_min t
              then t\<lparr>tm_hour := tm_hour t + tm_min t sdiv 60, tm_min := tm_min t smod 60\<rparr> else t);
         t = (if 24 < tm_hour t
              then t\<lparr>tm_mday := tm_mday t + tm_hour t sdiv 24, tm_hour := tm_hour t smod 24\<rparr> else t);
         t = (if 12 < tm_mon t
              then t\<lparr>tm_year := tm_year t + tm_mon t sdiv 12, tm_mon := tm_mon t smod 12\<rparr> else t)
     in case mday_loop (tm_mday t) (tm_mon t) (tm_year t) of
          None \<Rightarrow> None
        | Some (mday, mon, year) \<Rightarrow>
           let t = t\<lparr>tm_mday := mday, tm_mon := mon, tm_year := year\<rparr>
           in if tm_year t < 70 then Some (- 1, t)
              else (case spm (tm_mon t) of
                      None \<Rightarrow> None
                    | Some start \<Rightarrow>
                       let yday = start + tm_mday t - 1
                             + (if isleap (tm_year t + 1900) \<and> 1 < tm_mon t then 1 else 0);
                           day = days_before_year years + yday;
                           t = t\<lparr>tm_yday := yday, tm_wday := (day + 4) smod 7\<rparr>
                       in Some (((day * 24 + tm_hour t) * 60 + tm_min t) * 60 + tm_sec t, t)))"

definition mktime :: "tm \<Rightarrow> (int \<times> tm) option" where
  "mktime t =
    (case timegm t of
       None \<Rightarrow> None
     | Some (timestamp, t) \<Rightarrow> Some (timestamp - 3600 * RT_LIBC_FIXED_TIMEZONE, t))"

subsection \<open>A date as text\<close>

definition days_text :: string where "days_text = ''Sun Mon Tue Wed Thu Fri Sat ''"
definition months_text :: string where
  "months_text = ''Jan Feb Mar Apr May Jun Jul Aug Sep Oct Nov Dec ''"

definition num2str :: "int \<Rightarrow> string" where
  "num2str i = [char_of (nat (i sdiv 10 + 48)), char_of (nat (i smod 10 + 48))]"

text \<open>The buffer up to its terminator; the day and the month name have to be in their tables.\<close>

definition asctime_r :: "tm \<Rightarrow> string" where
  "asctime_r t =
    (let day = num2str (tm_mday t);
         day = (if hd day = CHR ''0'' then CHR '' '' # tl day else day)
     in take 4 (drop (4 * nat (tm_wday t)) days_text) @ take 4 (drop (4 * nat (tm_mon t)) months_text)
        @ day @ '' '' @ num2str (tm_hour t) @ '':'' @ num2str (tm_min t) @ '':'' @ num2str (tm_sec t) @ '' ''
        @ num2str ((tm_year t + 1900) sdiv 100) @ num2str ((tm_year t + 1900) smod 100) @ [CHR 0x0A])"

definition ctime_r :: "int \<Rightarrow> string" where
  "ctime_r tim_p = asctime_r (localtime_r tim_p)"

subsection \<open>The calendar the functions compute\<close>

definition year_len :: "int \<Rightarrow> int" where
  "year_len y = (if isleap y then 366 else 365)"

definition month_len :: "bool \<Rightarrow> int \<Rightarrow> int" where
  "month_len leap m = (if m = 1 then (if leap then 29 else 28)
     else if m \<in> {3, 5, 8, 10} then 30 else 31)"

text \<open>The days before year \<open>1970 + n\<close>, and before a month of a year.\<close>

definition year_start :: "nat \<Rightarrow> int" where
  "year_start n = (\<Sum>j<n. year_len (1970 + int j))"

definition month_start :: "bool \<Rightarrow> nat \<Rightarrow> int" where
  "month_start leap m = (\<Sum>i<m. month_len leap (int i))"

lemma isleap_mod: "0 \<le> y \<Longrightarrow> isleap y \<longleftrightarrow> y mod 4 = 0 \<and> (y mod 100 \<noteq> 0 \<or> y mod 400 = 0)"
  by (simp add: isleap_def signed_modulo_int_def sgn_if)

lemma sdiv_nonneg: "0 \<le> a \<Longrightarrow> 0 < b \<Longrightarrow> (a :: int) sdiv b = a div b"
  by (auto simp: signed_divide_int_def sgn_if)

lemma smod_nonneg: "0 \<le> a \<Longrightarrow> 0 < b \<Longrightarrow> (a :: int) smod b = a mod b"
  by (auto simp: signed_modulo_int_def sgn_if)

lemma month_start_table:
  assumes "m \<le> 12"
  shows "month_start leap m = spm_table ! m + (if leap \<and> 1 < m then 1 else 0)"
proof -
  have "\<forall>m<13. month_start True m = spm_table ! m + (if 1 < m then 1 else 0) \<and> month_start False m = spm_table ! m"
    by code_simp
  then show ?thesis using assms by (cases leap) auto
qed

text \<open>The century rule is the sum of the lengths of the years.\<close>

definition century_days :: "int \<Rightarrow> int" where
  "century_days c = c div 4 * 3 + 1 + (if c mod 4 = 3 then 2 else c mod 4)"

lemma century_days_split:
  "0 \<le> r \<Longrightarrow> r < 4 \<Longrightarrow> century_days (4 * q + r) = 3 * q + 1 + (if r = 3 then 2 else r)"
  by (simp add: century_days_def)

lemma century_days_step: "century_days (c + 1) = century_days c + (if c mod 4 = 2 then 0 else 1)"
proof -
  define q where "q = c div 4"
  define r where "r = c mod 4"
  have c: "c = 4 * q + r" "0 \<le> r" "r < 4" by (simp_all add: q_def r_def)
  show ?thesis
  proof (cases "r = 3")
    case True
    then have e: "c + 1 = 4 * (q + 1) + 0" using c(1) by simp
    have "century_days (c + 1) = 3 * (q + 1) + 1"
      unfolding e using century_days_split [of 0 "q + 1"] by simp
    moreover have "century_days c = 3 * q + 3" using c True century_days_split [of r q] by simp
    ultimately show ?thesis using True by (simp add: r_def)
  next
    case False
    then have e: "c + 1 = 4 * q + (r + 1)" using c(1) by simp
    have "century_days (c + 1) = 3 * q + 1 + (if r + 1 = 3 then 2 else r + 1)"
      unfolding e using False c by (intro century_days_split) simp_all
    moreover have "century_days c = 3 * q + 1 + r" using c False century_days_split [of r q] by simp
    ultimately show ?thesis unfolding r_def [symmetric] by simp
  qed
qed

lemma days_before_year_closed:
  "0 \<le> n \<Longrightarrow> days_before_year n
     = n * 365 + (n + 1) div 4 - (if 131 \<le> n then century_days ((n - 131) div 100) else 0)"
  by (simp add: days_before_year_def century_days_def sdiv_nonneg Let_def)

lemma step_sum:
  fixes A A' C C' Q Q' Y d e n :: int
  assumes "A = n * 365 + Q - C" "A' = (n + 1) * 365 + Q' - C'" "C' = C + d" "Y = 365 + e" "Q' = Q + d + e"
  shows "A' = A + Y"
  using assms by simp

lemma days_before_step:
  fixes n :: int
  assumes "0 \<le> n"
  shows "days_before_year (n + 1) = days_before_year n + year_len (1970 + n)"
proof -
  have q: "(n + 2) div 4 = (n + 1) div 4 + (if (1970 + n) mod 4 = 0 then 1 else 0)" by presburger
  show ?thesis
  proof (cases "131 \<le> n")
    case True
    define c where "c = (n - 131) div 100"
    define r where "r = (n - 131) mod 100"
    have nr: "n = 131 + 100 * c + r" "0 \<le> r" "r < 100" "0 \<le> c" using True by (simp_all add: c_def r_def)
    show ?thesis
    proof (cases "r = 99")
      case True
      have y: "1970 + n = 100 * (c + 22)" unfolding nr(1) True by simp
      have "(n + 1 - 131) div 100 = c + 1" unfolding nr(1) True by simp
      moreover have "(1970 + n) mod 400 = 0 \<longleftrightarrow> c mod 4 = 2"
      proof -
        have "(100 * (c + 22)) mod (100 * 4) = 100 * ((c + 22) mod 4)" by (rule mod_mult_mult1)
        then have "(1970 + n) mod 400 = 100 * ((c + 22) mod 4)" unfolding y by simp
        moreover have "(c + 22) mod 4 = 0 \<longleftrightarrow> c mod 4 = 2" by presburger
        ultimately show ?thesis by simp
      qed
      moreover have "(1970 + n) mod 100 = 0" unfolding y by simp
      moreover have "(1970 + n) mod 4 = 0"
      proof -
        have "1970 + n = 4 * (25 * (c + 22))" unfolding y by simp
        then show ?thesis by simp
      qed
      ultimately have leap: "year_len (1970 + n) = 365 + (if c mod 4 = 2 then 1 else 0)"
        and next_year: "days_before_year (n + 1) = (n + 1) * 365 + (n + 2) div 4 - century_days (c + 1)"
        and quarter: "(n + 2) div 4 = (n + 1) div 4 + (if c mod 4 = 2 then 0 else 1) + (if c mod 4 = 2 then 1 else 0)"
        using nr(4) \<open>131 \<le> n\<close> q by (simp_all add: year_len_def isleap_mod days_before_year_closed add.commute)
      have this_year: "days_before_year n = n * 365 + (n + 1) div 4 - century_days c"
        using \<open>131 \<le> n\<close> by (simp add: days_before_year_closed c_def)
      show ?thesis by (rule step_sum [OF this_year next_year century_days_step leap quarter])
    next
      case False
      have y: "1970 + n = (r + 1) + 100 * (c + 21)" unfolding nr(1) by simp
      have "n + 1 - 131 = (r + 1) + 100 * c" unfolding nr(1) by simp
      then have "(n + 1 - 131) div 100 = c" using nr(2,3) False by simp
      moreover have "(1970 + n) mod 100 \<noteq> 0"
      proof -
        have "(1970 + n) mod 100 = (r + 1) mod 100" unfolding y by (rule mod_mult_self2)
        then show ?thesis using nr(2,3) False by simp
      qed
      ultimately have leap: "year_len (1970 + n) = 365 + (if (1970 + n) mod 4 = 0 then 1 else 0)"
        and next_year: "days_before_year (n + 1) = (n + 1) * 365 + (n + 2) div 4 - century_days c"
        and quarter: "(n + 2) div 4 = (n + 1) div 4 + 0 + (if (1970 + n) mod 4 = 0 then 1 else 0)"
        using nr(4) \<open>131 \<le> n\<close> q by (simp_all add: year_len_def isleap_mod days_before_year_closed add.commute)
      have this_year: "days_before_year n = n * 365 + (n + 1) div 4 - century_days c"
        using \<open>131 \<le> n\<close> by (simp add: days_before_year_closed c_def)
      show ?thesis by (rule step_sum [OF this_year next_year _ leap quarter]) simp
    qed
  next
    case small: False
    show ?thesis
    proof (cases "n = 130")
      case True
      show ?thesis unfolding True by code_simp
    next
      case False
      have "(1970 + n) mod 400 = 0" if h: "(1970 + n) mod 100 = 0"
      proof -
        obtain k where k: "1970 + n = 100 * k" using h by (metis mod_0_imp_dvd dvdE)
        have "k = 20" using k small False assms by presburger
        then show ?thesis unfolding k by simp
      qed
      then have leap: "year_len (1970 + n) = 365 + (if (1970 + n) mod 4 = 0 then 1 else 0)"
        using isleap_mod [of "1970 + n"] assms unfolding year_len_def by auto
      have quarter: "(n + 2) div 4 = (n + 1) div 4 + 0 + (if (1970 + n) mod 4 = 0 then 1 else 0)"
        unfolding add_0_right by (rule q)
      have this_year: "days_before_year n = n * 365 + (n + 1) div 4 - 0"
        and next_year: "days_before_year (n + 1) = (n + 1) * 365 + (n + 2) div 4 - 0"
        using small False assms days_before_year_closed [of n] days_before_year_closed [of "n + 1"]
        by (simp_all add: add.commute)
      show ?thesis by (rule step_sum [OF this_year next_year _ leap quarter]) simp
    qed
  qed
qed

lemma days_before_year_start: "days_before_year (int n) = year_start n"
proof (induction n)
  case 0
  show ?case by (simp add: year_start_def) code_simp
next
  case (Suc n)
  have "days_before_year (int (Suc n)) = days_before_year (int n + 1)" by (simp add: add.commute)
  also have "\<dots> = days_before_year (int n) + year_len (1970 + int n)" by (rule days_before_step) simp
  finally show ?case using Suc by (simp add: year_start_def)
qed

subsection \<open>The loops find the year and the month\<close>

lemma year_loop_spec:
  assumes "0 \<le> w" "i = 1970 + int n" "year_loop i w = (y, d)"
  shows "\<exists>m. y = 1970 + int m \<and> n \<le> m \<and> w + year_start n = year_start m + d \<and> 0 \<le> d \<and> d < year_len y"
  using assms
proof (induction i w arbitrary: n rule: year_loop.induct)
  case (1 i w)
  show ?case
  proof (cases "year_len i \<le> w")
    case True
    have "year_loop (i + 1) (w - year_len i) = (y, d)"
      using 1(4) True by (subst (asm) year_loop.simps) (simp add: year_len_def Let_def)
    moreover have "i + 1 = 1970 + int (Suc n)" using 1(3) by simp
    ultimately obtain m where "y = 1970 + int m" "Suc n \<le> m"
      "w - year_len i + year_start (Suc n) = year_start m + d" "0 \<le> d" "d < year_len y"
      using 1(1) [of "year_len i" "Suc n"] True by (auto simp: year_len_def)
    then show ?thesis using 1(3) by (intro exI [of _ m]) (simp add: year_start_def)
  next
    case False
    then have "y = i" "d = w" using 1(4) by (simp_all add: year_loop.simps [of i w] year_len_def Let_def)
    then show ?thesis using 1(2,3) False by (intro exI [of _ n]) simp
  qed
qed

lemma month_loop_spec:
  "0 \<le> w \<Longrightarrow> spm_table ! month_loop n w \<le> w \<and> month_loop n w \<le> n
    \<and> (\<forall>j. month_loop n w < j \<longrightarrow> j \<le> n \<longrightarrow> w < spm_table ! j)"
proof (induction n)
  case 0
  then show ?case by (simp add: spm_table_def)
next
  case (Suc n)
  then show ?case by (auto simp: le_Suc_eq)
qed

text \<open>The month and the day of the month of a day of a year.\<close>

lemma month_of_day:
  assumes "0 \<le> d" "d < (if leap then 366 else 365)"
  defines "w \<equiv> if leap \<and> 58 < d then d - 1 else d"
    and "first \<equiv> if leap \<and> d = 59 then 2 else (1::int)"
  defines "m \<equiv> month_loop 11 w" 
  defines "mday \<equiv> first + (w - spm_table ! m)"
  shows "m < 12" "1 \<le> mday" "mday \<le> month_len leap (int m)" "month_start leap m + mday - 1 = d"
proof -
  have w: "0 \<le> w" "w < 365" using assms(1,2) by (auto simp: w_def)
  note ml = month_loop_spec [OF w(1), of 11, folded m_def]
  show m12: "m < 12" using ml by simp
  have up: "w < spm_table ! Suc m"
  proof (cases "m = 11")
    case True
    then show ?thesis using w by (simp add: spm_table_def)
  next
    case False
    then show ?thesis using ml m12 by simp
  qed
  have lo: "spm_table ! m \<le> w" using ml by simp
  have len: "spm_table ! Suc m - spm_table ! m = month_len False (int m)"
  proof -
    have "\<forall>m<12. spm_table ! Suc m - spm_table ! m = month_len False (int m)" by code_simp
    then show ?thesis using m12 by blast
  qed
  have jan: "1 < m \<longleftrightarrow> 59 \<le> w"
  proof
    assume "1 < m"
    moreover have "\<forall>m<12. 1 < m \<longrightarrow> 59 \<le> spm_table ! m" by code_simp
    ultimately show "59 \<le> w" using lo m12 by force
  next
    assume h: "59 \<le> w"
    show "1 < m"
    proof (rule ccontr)
      assume "\<not> 1 < m"
      then have "spm_table ! Suc m \<le> 59" by (cases "m = 0") (simp_all add: spm_table_def)
      then show False using up h by simp
    qed
  qed
  have feb: "m = 1 \<longleftrightarrow> 31 \<le> w \<and> w < 59"
    using jan lo up by (cases "m = 0") (auto simp: spm_table_def)
  have ms: "month_start leap m = spm_table ! m + (if leap \<and> 1 < m then 1 else 0)"
    using m12 by (intro month_start_table) simp
  have le: "month_len leap (int m) = month_len False (int m) + (if leap \<and> m = 1 then 1 else 0)"
    by (auto simp: month_len_def)
  show "1 \<le> mday" using lo by (simp add: mday_def first_def)
  show "mday \<le> month_len leap (int m)"
    using up len le feb by (auto simp: mday_def first_def w_def split: if_splits)
  show "month_start leap m + mday - 1 = d"
    using ms jan by (auto simp: mday_def first_def w_def split: if_splits)
qed

subsection \<open>Dates and seconds\<close>

definition tm_ok :: "tm \<Rightarrow> bool" where
  "tm_ok t \<longleftrightarrow> 0 \<le> tm_sec t \<and> tm_sec t < 60 \<and> 0 \<le> tm_min t \<and> tm_min t < 60 \<and> 0 \<le> tm_hour t \<and> tm_hour t < 24
     \<and> 70 \<le> tm_year t \<and> 0 \<le> tm_mon t \<and> tm_mon t < 12
     \<and> 1 \<le> tm_mday t \<and> tm_mday t \<le> month_len (isleap (tm_year t + 1900)) (tm_mon t)"

definition tm_day_of_year :: "tm \<Rightarrow> int" where
  "tm_day_of_year t = month_start (isleap (tm_year t + 1900)) (nat (tm_mon t)) + tm_mday t - 1"

definition tm_days :: "tm \<Rightarrow> int" where
  "tm_days t = year_start (nat (tm_year t - 70)) + tm_day_of_year t"

definition tm_seconds :: "tm \<Rightarrow> int" where
  "tm_seconds t = ((tm_days t * 24 + tm_hour t) * 60 + tm_min t) * 60 + tm_sec t"

text \<open>The fields that follow from the others.\<close>

definition tm_complete :: "tm \<Rightarrow> tm" where
  "tm_complete t = t\<lparr>tm_yday := tm_day_of_year t, tm_wday := (tm_days t + 4) mod 7\<rparr>"

lemma year_start_Suc: "year_start (Suc n) = year_start n + year_len (1970 + int n)"
  by (simp add: year_start_def)

lemma year_len_pos: "365 \<le> year_len y" "year_len y \<le> 366"
  by (simp_all add: year_len_def)

lemma year_start_mono: "n < m \<Longrightarrow> year_start n + year_len (1970 + int n) \<le> year_start m"
proof (induction m)
  case (Suc m)
  then show ?case using year_len_pos(1) [of "1970 + int m"] by (cases "n = m") (auto simp: year_start_Suc)
qed simp

lemma year_start_nonneg: "0 \<le> year_start n"
  unfolding year_start_def by (rule sum_nonneg) (simp add: year_len_def)

lemma month_start_Suc: "month_start leap (Suc m) = month_start leap m + month_len leap (int m)"
  by (simp add: month_start_def)

lemma month_len_pos: "28 \<le> month_len leap m" "month_len leap m \<le> 31"
  by (simp_all add: month_len_def)

lemma month_start_mono: "n < m \<Longrightarrow> month_start leap n + month_len leap (int n) \<le> month_start leap m"
proof (induction m)
  case (Suc m)
  then show ?case using month_len_pos(1) [of leap "int m"] by (cases "n = m") (auto simp: month_start_Suc)
qed simp

lemma month_start_nonneg: "0 \<le> month_start leap n"
  unfolding month_start_def by (rule sum_nonneg) (simp add: month_len_def)

lemma month_start_year: "month_start leap 12 = (if leap then 366 else 365)"
  using month_start_table [of 12 leap] by (simp add: spm_table_def)

lemma day_of_year_bounds:
  assumes "tm_ok t"
  shows "0 \<le> tm_day_of_year t" "tm_day_of_year t < year_len (tm_year t + 1900)"
proof -
  let ?l = "isleap (tm_year t + 1900)" and ?m = "nat (tm_mon t)"
  show "0 \<le> tm_day_of_year t"
    using assms month_start_nonneg [of ?l ?m] by (simp add: tm_day_of_year_def tm_ok_def)
  have "month_start ?l ?m + month_len ?l (int ?m) \<le> month_start ?l 12"
    using assms by (intro month_start_mono) (simp add: tm_ok_def nat_less_iff)
  then show "tm_day_of_year t < year_len (tm_year t + 1900)"
    using assms by (simp add: tm_day_of_year_def tm_ok_def month_start_year year_len_def)
qed

text \<open>The date of a number of seconds.\<close>

lemma gmtime_spec:
  assumes s: "0 \<le> s"
  shows "tm_ok (gmtime_r s)" "tm_seconds (gmtime_r s) = s" "tm_complete (gmtime_r s) = gmtime_r s"
    "tm_isdst (gmtime_r s) = 0"
proof -
  define D where "D = s div 86400"
  define R where "R = s mod 86400"
  have R: "0 \<le> R" "R < 86400" and D: "0 \<le> D" and sDR: "s = D * 86400 + R" using s by (simp_all add: R_def D_def)
  obtain y d where yd: "year_loop 1970 D = (y, d)" by fastforce
  have "\<exists>n. y = 1970 + int n \<and> 0 \<le> n \<and> D + year_start 0 = year_start n + d \<and> 0 \<le> d \<and> d < year_len y"
    by (rule year_loop_spec [OF D _ yd]) simp
  then obtain n where n: "y = 1970 + int n" "D = year_start n + d" "0 \<le> d" "d < year_len y"
    by (auto simp: year_start_def)
  define w where "w = (if isleap y \<and> 58 < d then d - 1 else d)"
  define first where "first = (if isleap y \<and> d = 59 then 2 else (1::int))"
  define m where "m = month_loop 11 w"
  define mday where "mday = first + (w - spm_table ! m)"
  note md = month_of_day [OF n(3), of "isleap y", folded year_len_def, OF n(4), folded w_def first_def, folded m_def,
      folded mday_def]
  have pair: "(if isleap y \<and> 58 < d then (if d = 59 then 2 else 1, d - 1) else (1, d)) = (first, w)"
    by (auto simp: first_def w_def)
  have g: "gmtime_r s = \<lparr>tm_sec = R mod 60, tm_min = R div 60 mod 60, tm_hour = R div 60 div 60, tm_mday = mday,
      tm_mon = int m, tm_year = y - 1900, tm_wday = (4 + D) mod 7, tm_yday = d, tm_isdst = 0\<rparr>"
    using s R D pair
    by (simp add: gmtime_r_def SPD_def smod_nonneg sdiv_nonneg yd m_def mday_def Let_def split_beta
        flip: D_def R_def split del: if_split cong: if_cong)
  have hms: "R div 60 div 60 < 24" "0 \<le> R div 60 div 60" "0 \<le> R div 60 mod 60" "R div 60 mod 60 < 60"
    "0 \<le> R mod 60" "R mod 60 < 60"
    using R by simp_all
  have yy: "y - 1900 + 1900 = y" "nat (y - 1900 - 70) = n" "70 \<le> y - 1900" using n(1) by simp_all
  show "tm_ok (gmtime_r s)" using md hms yy by (simp add: tm_ok_def g)
  have dy: "tm_day_of_year (gmtime_r s) = d" using md(4) by (simp add: tm_day_of_year_def g)
  then have days: "tm_days (gmtime_r s) = D" using yy n(2) by (simp add: tm_days_def g)
  have fields: "tm_hour (gmtime_r s) = R div 60 div 60" "tm_min (gmtime_r s) = R div 60 mod 60"
    "tm_sec (gmtime_r s) = R mod 60" by (simp_all add: g)
  have "R div 60 div 60 * 60 + R div 60 mod 60 = R div 60" "R div 60 * 60 + R mod 60 = R" by simp_all
  then show "tm_seconds (gmtime_r s) = s"
    unfolding tm_seconds_def days fields using sDR by (simp add: algebra_simps)
  show "tm_complete (gmtime_r s) = gmtime_r s"
    unfolding tm_complete_def days dy by (simp add: g add.commute)
  show "tm_isdst (gmtime_r s) = 0" by (simp add: g)
qed

text \<open>The seconds of a date: nothing is out of range, so nothing is carried.\<close>

lemma timegm_spec:
  assumes ok: "tm_ok t"
  shows "timegm t = Some (tm_seconds t, tm_complete t)"
proof -
  let ?m = "nat (tm_mon t)" and ?l = "isleap (tm_year t + 1900)"
  have m: "?m < 12" "0 \<le> tm_mon t" "tm_mon t < 12" using ok by (auto simp: tm_ok_def)
  have "tm_mday t \<le> spm_table ! nat (1 + tm_mon t)"
  proof -
    have "tm_mday t \<le> 31" using ok month_len_pos(2) [of ?l "tm_mon t"] by (simp add: tm_ok_def)
    moreover have "31 \<le> spm_table ! nat (1 + tm_mon t)"
      using spm_table_bounds [of "nat (1 + tm_mon t)"] m by auto
    ultimately show ?thesis by simp
  qed
  then have loop: "mday_loop (tm_mday t) (tm_mon t) (tm_year t) = Some (tm_mday t, tm_mon t, tm_year t)"
    using m by (subst mday_loop.simps) (simp add: spm_def)
  have sp: "spm (tm_mon t) = Some (spm_table ! ?m)" using m by (simp add: spm_def)
  have yday: "spm_table ! ?m + tm_mday t - 1 + (if ?l \<and> 1 < tm_mon t then 1 else 0) = tm_day_of_year t"
    using month_start_table [of ?m ?l] m by (auto simp: tm_day_of_year_def)
  have yr: "days_before_year (tm_year t - 70) = year_start (nat (tm_year t - 70))"
    using ok days_before_year_start [of "nat (tm_year t - 70)"] by (simp add: tm_ok_def)
  have wd: "(tm_days t + 4) smod 7 = (tm_days t + 4) mod 7"
    using year_start_nonneg [of "nat (tm_year t - 70)"] day_of_year_bounds(1) [OF ok]
    by (intro smod_nonneg) (simp_all add: tm_days_def)
  have r: "\<not> 60 < tm_sec t" "\<not> 60 < tm_min t" "\<not> 24 < tm_hour t" "\<not> 12 < tm_mon t" "\<not> tm_year t < 70"
    using ok by (simp_all add: tm_ok_def)
  have days: "days_before_year (tm_year t - 70) + tm_day_of_year t = tm_days t" by (simp add: yr tm_days_def)
  have same: "t\<lparr>tm_mday := tm_mday t, tm_mon := tm_mon t, tm_year := tm_year t\<rparr> = t" by (cases t) simp
  show ?thesis
    unfolding timegm_def Let_def
    by (simp only: r if_False loop option.case split_conv same sp yday days wd)
      (simp add: tm_seconds_def tm_complete_def)
qed

text \<open>A date is determined by its seconds.\<close>

lemma unique_split:
  fixes start len :: "nat \<Rightarrow> int"
  assumes mono: "\<And>n m. n < m \<Longrightarrow> start n + len n \<le> start m"
    and eq: "start n + d = start m + e" and b: "0 \<le> d" "d < len n" "0 \<le> e" "e < len m"
  shows "n = m \<and> d = e"
proof (cases n m rule: linorder_cases)
  case less
  then show ?thesis using mono [OF less] eq b by simp
next
  case equal
  then show ?thesis using eq by simp
next
  case greater
  then show ?thesis using mono [OF greater] eq b by simp
qed

lemma tm_seconds_inj:
  assumes t: "tm_ok t" and u: "tm_ok u" and eq: "tm_seconds t = tm_seconds u"
  shows "tm_sec t = tm_sec u" "tm_min t = tm_min u" "tm_hour t = tm_hour u" "tm_mday t = tm_mday u"
    "tm_mon t = tm_mon u" "tm_year t = tm_year u"
proof -
  have hms: "0 \<le> tm_sec x" "tm_sec x < 60" "0 \<le> tm_min x" "tm_min x < 60" "0 \<le> tm_hour x" "tm_hour x < 24"
    if "tm_ok x" for x using that by (simp_all add: tm_ok_def)
  have low: "a = c \<and> b = d" if "a * k + b = c * k + d" "0 \<le> b" "b < k" "0 \<le> d" "d < k" for a b c d k :: int
  proof -
    have "(a * k + b) div k = a" "(c * k + d) div k = c" using that(2-) by auto
    then show ?thesis using that(1) by auto
  qed
  have 1: "(tm_days t * 24 + tm_hour t) * 60 + tm_min t = (tm_days u * 24 + tm_hour u) * 60 + tm_min u
      \<and> tm_sec t = tm_sec u"
    using eq hms [OF t] hms [OF u] unfolding tm_seconds_def by (intro low) auto
  then have 2: "tm_days t * 24 + tm_hour t = tm_days u * 24 + tm_hour u \<and> tm_min t = tm_min u"
    using hms [OF t] hms [OF u] by (intro low) auto
  then have 3: "tm_days t = tm_days u \<and> tm_hour t = tm_hour u"
    using hms [OF t] hms [OF u] by (intro low) auto
  show "tm_sec t = tm_sec u" "tm_min t = tm_min u" "tm_hour t = tm_hour u" using 1 2 3 by blast+
  have yr: "1970 + int (nat (tm_year x - 70)) = tm_year x + 1900" if "tm_ok x" for x
    using that by (simp add: tm_ok_def)
  have e: "year_start (nat (tm_year t - 70)) + tm_day_of_year t = year_start (nat (tm_year u - 70)) + tm_day_of_year u"
    using 3 by (simp only: tm_days_def)
  have y: "nat (tm_year t - 70) = nat (tm_year u - 70) \<and> tm_day_of_year t = tm_day_of_year u"
    by (rule unique_split [of year_start "\<lambda>n. year_len (1970 + int n)", OF year_start_mono e])
      (simp_all only: yr [OF t] yr [OF u] day_of_year_bounds [OF t] day_of_year_bounds [OF u])
  then show year: "tm_year t = tm_year u" using t u by (simp add: tm_ok_def eq_nat_nat_iff)
  have mon: "0 \<le> tm_mon x" if "tm_ok x" for x using that by (simp add: tm_ok_def)
  have "nat (tm_mon t) = nat (tm_mon u) \<and> tm_mday t - 1 = tm_mday u - 1"
    using y year t u month_start_mono [of _ _ "isleap (tm_year u + 1900)"] mon [OF t] mon [OF u]
    by (intro unique_split [of "month_start (isleap (tm_year u + 1900))" "\<lambda>m. month_len (isleap (tm_year u + 1900)) (int m)"])
      (simp_all add: tm_day_of_year_def tm_ok_def)
  then show "tm_mday t = tm_mday u" "tm_mon t = tm_mon u" using mon [OF t] mon [OF u] by (simp_all add: eq_nat_nat_iff)
qed

lemma tm_seconds_nonneg: "tm_ok t \<Longrightarrow> 0 \<le> tm_seconds t"
  using day_of_year_bounds(1) [of t] year_start_nonneg [of "nat (tm_year t - 70)"]
  by (simp add: tm_seconds_def tm_days_def tm_ok_def)

lemma gmtime_tm_seconds:
  assumes t: "tm_ok t"
  shows "gmtime_r (tm_seconds t) = (tm_complete t)\<lparr>tm_isdst := 0\<rparr>"
proof -
  let ?g = "gmtime_r (tm_seconds t)"
  note g = gmtime_spec [OF tm_seconds_nonneg [OF t]]
  note same = tm_seconds_inj [OF g(1) t g(2)]
  have "tm_day_of_year ?g = tm_day_of_year t" "tm_days ?g = tm_days t"
    by (simp_all add: tm_day_of_year_def tm_days_def same)
  then have "tm_complete ?g = (tm_complete t)\<lparr>tm_isdst := 0\<rparr>"
    using same g(4) by (simp add: tm_complete_def)
  then show ?thesis using g(3) by simp
qed

end
