(* ===== verification/Rtc.thy ===== *)
theory Rtc
  imports Calendar Clock
begin

section \<open>The clock of the watch (\<open>soft_rtc.c\<close>, \<open>rtc.c\<close>, \<open>time.c\<close>)\<close>

text \<open>
  The software clock: the time at start-up, moved whenever the clock is set, plus the seconds since
  start-up by the tick counter. The functions of the C library read and set it through the device
  \<^verbatim>\<open>rtc\<close>, which has only a control function. A function that reads outside a table of the
  calendar has no result (\<open>None\<close>).
\<close>

record rtc =
  rtc_init_ok :: bool
  rtc_init_tick :: u32
  rtc_init_time :: int

definition SOFT_RTC_TIME_DEFAULT :: tm where
  "SOFT_RTC_TIME_DEFAULT = \<lparr>tm_sec = 0, tm_min = 0, tm_hour = 0, tm_mday = 1, tm_mon = 1 - 1, tm_year = 2018 - 1900,
     tm_wday = 0, tm_yday = 0, tm_isdst = 0\<rparr>"

datatype rtc_cmd = RTC_GET_TIME | RTC_SET_TIME int | RTC_other_command

text \<open>The result is the time written through the argument, for the command that writes one.\<close>

definition soft_rtc_control :: "rtc_cmd \<Rightarrow> kernel \<Rightarrow> rtc \<Rightarrow> int option \<times> rtc" where
  "soft_rtc_control cmd k r =
    (let gone = uint ((rt_tick_get k - rtc_init_tick r) div word_of_int RT_TICK_PER_SECOND)
     in case cmd of
          RTC_GET_TIME \<Rightarrow> (Some (rtc_init_time r + gone), r)
        | RTC_SET_TIME t \<Rightarrow> (None, r\<lparr>rtc_init_time := t - gone\<rparr>)
        | RTC_other_command \<Rightarrow> (None, r))"

definition rt_soft_rtc_init :: "kernel \<Rightarrow> rtc \<Rightarrow> rtc option" where
  "rt_soft_rtc_init k r =
    (if rtc_init_ok r then Some r
     else
       (case timegm SOFT_RTC_TIME_DEFAULT of
          None \<Rightarrow> None
        | Some (t, _) \<Rightarrow> Some \<lparr>rtc_init_ok = True, rtc_init_tick = rt_tick_get k, rtc_init_time = t\<rparr>))"

text \<open>\<open>get_timeval\<close> opens the device, reads seconds and microseconds (the second command is not known to the
  software clock) and closes it; \<open>None\<close> is the error of a device that is not there.\<close>

definition get_timeval :: "kernel \<Rightarrow> rtc \<Rightarrow> (int \<times> int) option" where
  "get_timeval k r =
    (if rtc_init_ok r then
       (case fst (soft_rtc_control RTC_GET_TIME k r) of
          Some s \<Rightarrow> Some (s, 0)
        | None \<Rightarrow> Some (0, 0))
     else None)"

definition set_timeval :: "int \<times> int \<Rightarrow> kernel \<Rightarrow> rtc \<Rightarrow> rt_err_t \<times> rtc" where
  "set_timeval tv k r =
    (if rtc_init_ok r then (RT_EOK, snd (soft_rtc_control RTC_other_command k (snd (soft_rtc_control (RTC_SET_TIME (fst tv)) k r))))
     else (- RT_ENOSYS, r))"

definition libc_time :: "kernel \<Rightarrow> rtc \<Rightarrow> int" where
  "libc_time k r = (case get_timeval k r of Some (s, _) \<Rightarrow> s | None \<Rightarrow> - 1)"

definition stime :: "int \<Rightarrow> kernel \<Rightarrow> rtc \<Rightarrow> int \<times> rtc" where
  "stime t k r =
    (case set_timeval (t, 0) k r of (err, r) \<Rightarrow> if err = RT_EOK then (0, r) else (- 1, r))"

definition settimeofday :: "int \<times> int \<Rightarrow> kernel \<Rightarrow> rtc \<Rightarrow> int \<times> rtc" where
  "settimeofday tv k r =
    (if 0 \<le> fst tv \<and> 0 \<le> snd tv then
       (case set_timeval tv k r of (err, r) \<Rightarrow> if err = RT_EOK then (0, r) else (- 1, r))
     else (- 1, r))"

text \<open>\<open>set_date\<close> and \<open>set_time\<close>: the date now in local time, with some fields replaced, back to seconds.\<close>

definition rtc_update :: "(tm \<Rightarrow> tm) \<Rightarrow> kernel \<Rightarrow> rtc \<Rightarrow> (rt_err_t \<times> kernel \<times> rtc) option" where
  "rtc_update f k r =
    (let now = libc_time k r;
         k = rt_enter_critical k;
         tm_new = localtime_r now;
         k = rt_exit_critical k
     in case mktime (f tm_new) of
          None \<Rightarrow> None
        | Some (now, _) \<Rightarrow>
           if \<not> rtc_init_ok r then Some (- RT_ERROR, k, r)
           else Some (RT_EOK, k, snd (soft_rtc_control (RTC_SET_TIME now) k r)))"

definition set_date :: "u32 \<Rightarrow> u32 \<Rightarrow> u32 \<Rightarrow> kernel \<Rightarrow> rtc \<Rightarrow> (rt_err_t \<times> kernel \<times> rtc) option" where
  "set_date year month day =
    rtc_update (\<lambda>t. t\<lparr>tm_year := sint (year - 1900), tm_mon := sint (month - 1), tm_mday := sint day\<rparr>)"

definition set_time :: "u32 \<Rightarrow> u32 \<Rightarrow> u32 \<Rightarrow> kernel \<Rightarrow> rtc \<Rightarrow> (rt_err_t \<times> kernel \<times> rtc) option" where
  "set_time hour minute second =
    rtc_update (\<lambda>t. t\<lparr>tm_hour := sint hour, tm_min := sint minute, tm_sec := sint second\<rparr>)"

subsection \<open>Reading and setting\<close>

text \<open>The local time the watch shows.\<close>

definition rtc_local :: "kernel \<Rightarrow> rtc \<Rightarrow> tm" where
  "rtc_local k r = localtime_r (libc_time k r)"

definition rtc_runs :: "kernel \<Rightarrow> rtc \<Rightarrow> bool" where
  "rtc_runs k r \<longleftrightarrow> rtc_init_ok r \<and> 0 \<le> libc_time k r + 28800"

lemma exit_critical_tick [simp]: "rt_tick (rt_exit_critical k) = rt_tick k" "rt_tick (rt_enter_critical k) = rt_tick k"
  by (simp_all add: rt_exit_critical_def rt_enter_critical_def Let_def)

lemma libc_time_tick: "rtc_init_ok r \<Longrightarrow> libc_time k r =
  rtc_init_time r + uint ((rt_tick k - rtc_init_tick r) div 1000)"
  by (simp add: libc_time_def get_timeval_def soft_rtc_control_def rt_tick_get_def RT_TICK_PER_SECOND_def)

lemma rtc_local_ok:
  assumes "rtc_runs k r"
  shows "tm_ok (rtc_local k r)"
  using assms gmtime_spec(1) [of "libc_time k r + 28800"]
  by (simp add: rtc_runs_def rtc_local_def localtime_r_def RT_LIBC_FIXED_TIMEZONE_def)

lemma rtc_update:
  assumes run: "rtc_runs k r" and ok: "tm_ok (f (rtc_local k r))"
  obtains k' r' where "rtc_update f k r = Some (RT_EOK, k', r')" "rtc_runs k' r'" "rt_tick k' = rt_tick k"
    "rtc_local k' r' = (tm_complete (f (rtc_local k r)))\<lparr>tm_isdst := 0\<rparr>" "rtc_init_tick r' = rtc_init_tick r"
    "libc_time k' r' = tm_seconds (f (rtc_local k r)) - 28800"
proof -
  define s where "s = tm_seconds (f (rtc_local k r))"
  define k' where "k' = rt_exit_critical (rt_enter_critical k)"
  define r' where "r' = snd (soft_rtc_control (RTC_SET_TIME (s - 28800)) k' r)"
  have i: "rtc_init_ok r" using run by (simp add: rtc_runs_def)
  have m: "mktime (f (localtime_r (libc_time k r))) = Some (s - 28800, tm_complete (f (rtc_local k r)))"
    using timegm_spec [OF ok] by (simp add: mktime_def s_def rtc_local_def RT_LIBC_FIXED_TIMEZONE_def)
  have u: "rtc_update f k r = Some (RT_EOK, k', r')"
    using i by (simp add: rtc_update_def Let_def m k'_def r'_def)
  have t: "rt_tick k' = rt_tick k" by (simp add: k'_def)
  have i': "rtc_init_ok r'" "rtc_init_tick r' = rtc_init_tick r" using i by (simp_all add: r'_def soft_rtc_control_def Let_def)
  have now: "libc_time k' r' = s - 28800"
    using libc_time_tick [OF i'(1), of k'] i'(2) by (simp add: r'_def soft_rtc_control_def Let_def rt_tick_get_def RT_TICK_PER_SECOND_def)
  have "rtc_local k' r' = gmtime_r s" by (simp add: rtc_local_def now localtime_r_def RT_LIBC_FIXED_TIMEZONE_def)
  then have "rtc_local k' r' = (tm_complete (f (rtc_local k r)))\<lparr>tm_isdst := 0\<rparr>"
    using gmtime_tm_seconds [OF ok] by (simp add: s_def)
  moreover have "rtc_runs k' r'" using i'(1) now tm_seconds_nonneg [OF ok] by (simp add: rtc_runs_def s_def)
  ultimately show thesis using that u t i'(2) now by (simp add: s_def)
qed

section \<open>Properties of the clock\<close>

lemma tm_complete_cong:
  "tm_sec t = tm_sec u \<Longrightarrow> tm_min t = tm_min u \<Longrightarrow> tm_hour t = tm_hour u \<Longrightarrow> tm_mday t = tm_mday u \<Longrightarrow>
   tm_mon t = tm_mon u \<Longrightarrow> tm_year t = tm_year u \<Longrightarrow> (tm_complete t)\<lparr>tm_isdst := 0\<rparr> = (tm_complete u)\<lparr>tm_isdst := 0\<rparr>"
  by (simp add: tm_complete_def tm_days_def tm_day_of_year_def)

lemma sint_small: "(w :: u32) < 2 ^ 31 \<Longrightarrow> sint w = uint w"
proof -
  assume "w < 2 ^ 31"
  then have "uint w < 2 ^ 31" by (simp add: word_less_def)
  then have "signed_take_bit 31 (uint w) = uint w"
    by (intro signed_take_bit_int_eq_self) (use uint_ge_0 [of w] in linarith, simp)
  then show "sint w = uint w" by (simp add: sint_uint)
qed

lemma set_time_set_date:
  assumes run: "rtc_runs k r"
    and time: "hour < 24" "minute < 60" "second < 60"
    and date: "1970 \<le> year" "year < 2 ^ 31" "1 \<le> month" "month \<le> 12" "1 \<le> day"
      "uint day \<le> month_len (isleap (uint year)) (uint month - 1)"
  obtains k1 r1 k2 r2 where "set_time hour minute second k r = Some (RT_EOK, k1, r1)"
    "set_date year month day k1 r1 = Some (RT_EOK, k2, r2)" "rtc_runs k2 r2" "rt_tick k2 = rt_tick k"
    "rtc_local k2 r2 = tm_complete \<lparr>tm_sec = uint second, tm_min = uint minute, tm_hour = uint hour, tm_mday = uint day,
        tm_mon = uint month - 1, tm_year = uint year - 1900, tm_wday = 0, tm_yday = 0, tm_isdst = 0\<rparr>"
proof -
  have b: "uint hour < 24" "uint minute < 60" "uint second < 60" "1970 \<le> uint year" "1 \<le> uint month" "uint month \<le> 12"
    "1 \<le> uint day" using time date by (simp_all add: word_less_def word_le_def)
  have day: "uint day \<le> 31" using date(6) month_len_pos(2) by (metis order_trans)
  have sub: "uint (year - 1900) = uint year - 1900" "uint (month - 1) = uint month - 1"
    using b by (simp_all add: uint_sub_if')
  have year: "uint year < 2 ^ 31" using date(2) by (simp add: word_less_def)
  have s: "sint hour = uint hour" "sint minute = uint minute" "sint second = uint second"
    using b(1-3) by (auto intro!: sint_small simp: word_less_def)
  have d: "sint (year - 1900) = uint year - 1900" "sint (month - 1) = uint month - 1" "sint day = uint day"
  proof -
    have "year - 1900 < 2 ^ 31" "month - 1 < 2 ^ 31" "day < 2 ^ 31"
      using b(4-7) day year sub by (simp_all add: word_less_def)
    from this [THEN sint_small] show "sint (year - 1900) = uint year - 1900" "sint (month - 1) = uint month - 1"
      "sint day = uint day" using sub by simp_all
  qed
  let ?f = "\<lambda>t. t\<lparr>tm_hour := sint hour, tm_min := sint minute, tm_sec := sint second\<rparr>"
  let ?g = "\<lambda>t. t\<lparr>tm_year := sint (year - 1900), tm_mon := sint (month - 1), tm_mday := sint day\<rparr>"
  have "tm_ok (?f (rtc_local k r))" using rtc_local_ok [OF run] b s by (simp add: tm_ok_def)
  then obtain k1 r1 where u1: "set_time hour minute second k r = Some (RT_EOK, k1, r1)" "rtc_runs k1 r1" "rt_tick k1 = rt_tick k"
    "rtc_local k1 r1 = (tm_complete (?f (rtc_local k r)))\<lparr>tm_isdst := 0\<rparr>"
    unfolding set_time_def by (rule rtc_update [OF run])
  have "tm_ok (?g (rtc_local k1 r1))" using rtc_local_ok [OF u1(2)] b d date(6) by (simp add: tm_ok_def)
  then obtain k2 r2 where u2: "set_date year month day k1 r1 = Some (RT_EOK, k2, r2)" "rtc_runs k2 r2" "rt_tick k2 = rt_tick k1"
    "rtc_local k2 r2 = (tm_complete (?g (rtc_local k1 r1)))\<lparr>tm_isdst := 0\<rparr>"
    unfolding set_date_def by (rule rtc_update [OF u1(2)])
  have "rtc_local k2 r2 = (tm_complete \<lparr>tm_sec = uint second, tm_min = uint minute, tm_hour = uint hour, tm_mday = uint day,
        tm_mon = uint month - 1, tm_year = uint year - 1900, tm_wday = 0, tm_yday = 0, tm_isdst = 0\<rparr>)\<lparr>tm_isdst := 0\<rparr>"
    unfolding u2(4) by (rule tm_complete_cong) (simp_all add: u1(4) d s tm_complete_def)
  then have "rtc_local k2 r2 = tm_complete \<lparr>tm_sec = uint second, tm_min = uint minute, tm_hour = uint hour, tm_mday = uint day,
        tm_mon = uint month - 1, tm_year = uint year - 1900, tm_wday = 0, tm_yday = 0, tm_isdst = 0\<rparr>"
    by (simp add: tm_complete_def)
  then show thesis using u1(1,3) u2(1-3) by (intro that) simp_all
qed

text \<open>Setting the clock and then the date, as the watch does when its menu is done, makes it show exactly the values
  that were set, with the day of the week and of the year that belong to the date.\<close>

theorem clock_shows_what_was_set:
  assumes "rtc_runs k r"
    and "hour < 24" "minute < 60" "second < 60"
    and "1970 \<le> year" "year < 2 ^ 31" "1 \<le> month" "month \<le> 12" "1 \<le> day"
      "uint day \<le> month_len (isleap (uint year)) (uint month - 1)"
  shows "\<exists>k1 r1 k2 r2. set_time hour minute second k r = Some (RT_EOK, k1, r1) \<and> set_date year month day k1 r1 = Some (RT_EOK, k2, r2)
    \<and> rtc_runs k2 r2
    \<and> rtc_local k2 r2 = tm_complete \<lparr>tm_sec = uint second, tm_min = uint minute, tm_hour = uint hour, tm_mday = uint day,
        tm_mon = uint month - 1, tm_year = uint year - 1900, tm_wday = 0, tm_yday = 0, tm_isdst = 0\<rparr>"
  by (rule set_time_set_date [OF assms]) blast

theorem clock_shows_what_was_set_witness:
  "\<forall>k. \<exists>k1 r1 k2 r2. set_time 13 45 7 k \<lparr>rtc_init_ok = True, rtc_init_tick = 0, rtc_init_time = 0\<rparr> = Some (RT_EOK, k1, r1)
    \<and> set_date 2022 9 30 k1 r1 = Some (RT_EOK, k2, r2) \<and> rtc_runs k2 r2 \<and> tm_mon (rtc_local k2 r2) = 8"
proof
  fix k :: kernel
  let ?r = "\<lparr>rtc_init_ok = True, rtc_init_tick = 0, rtc_init_time = 0\<rparr>"
  have "rtc_runs k ?r" using uint_ge_0 [of "rt_tick k div 1000"] by (simp add: rtc_runs_def libc_time_tick)
  from clock_shows_what_was_set [OF this, of 13 45 7 2022 9 30]
  show "\<exists>k1 r1 k2 r2. set_time 13 45 7 k ?r = Some (RT_EOK, k1, r1)
    \<and> set_date 2022 9 30 k1 r1 = Some (RT_EOK, k2, r2) \<and> rtc_runs k2 r2 \<and> tm_mon (rtc_local k2 r2) = 8"
    by (elim meta_impE exE conjE) (auto simp: month_len_def tm_complete_def)
qed

text \<open>Between settings the clock follows the tick counter: after \<open>n\<close> ticks it has moved on by the whole seconds that have
  gone by, as long as fewer than \<open>2 ^ 32\<close> ticks have passed since start-up. When the counter comes round to its value at
  start-up, after 49 days, the clock falls back by these 49 days.\<close>

theorem clock_follows_the_ticks:
  assumes "rtc_init_ok r" "rt_tick k' = rt_tick k + word_of_nat n" "n < 2 ^ 32"
  defines "e \<equiv> unat (rt_tick k - rtc_init_tick r)"
  shows "libc_time k' r - libc_time k r =
    (if e + n < 2 ^ 32 then int ((e + n) div 1000) else int ((e + n - 2 ^ 32) div 1000)) - int (e div 1000)"
proof -
  have l: "libc_time k r = rtc_init_time r + int (unat (rt_tick k - rtc_init_tick r) div 1000)" for k
    using libc_time_tick [OF assms(1), of k] by (simp add: uint_div zdiv_int)
  define d where "d = rt_tick k - rtc_init_tick r"
  have k': "rt_tick k' - rtc_init_tick r = d + word_of_nat n" using assms(2) by (simp add: d_def)
  have "unat d < 2 ^ 32" using unsigned_less [of d, where 'a = nat] by simp
  moreover have "unat (d + word_of_nat n) = (unat d + n) mod 2 ^ 32"
    using assms(3) by (simp add: unat_word_ariths unsigned_of_nat take_bit_nat_eq_self)
  ultimately have "unat (rt_tick k' - rtc_init_tick r) = (if e + n < 2 ^ 32 then e + n else e + n - 2 ^ 32)"
    using assms(3) unfolding k' e_def d_def [symmetric] by (simp add: mod_if)
  then show ?thesis unfolding l by (simp add: e_def)
qed

theorem clock_follows_the_ticks_witness:
  "\<forall>k. libc_time (k\<lparr>rt_tick := rt_tick k + word_of_nat 4294967295\<rparr>) \<lparr>rtc_init_ok = True, rtc_init_tick = rt_tick k - 1, rtc_init_time = 0\<rparr>
     - libc_time k \<lparr>rtc_init_ok = True, rtc_init_tick = rt_tick k - 1, rtc_init_time = 0\<rparr> = 0"
proof
  fix k :: kernel
  show "libc_time (k\<lparr>rt_tick := rt_tick k + word_of_nat 4294967295\<rparr>) \<lparr>rtc_init_ok = True, rtc_init_tick = rt_tick k - 1, rtc_init_time = 0\<rparr>
     - libc_time k \<lparr>rtc_init_ok = True, rtc_init_tick = rt_tick k - 1, rtc_init_time = 0\<rparr> = 0"
    using clock_follows_the_ticks [of "\<lparr>rtc_init_ok = True, rtc_init_tick = rt_tick k - 1, rtc_init_time = 0\<rparr>"
      "k\<lparr>rt_tick := rt_tick k + word_of_nat 4294967295\<rparr>" k 4294967295] by simp
qed

end
