(* ===== verification/Display.thy ===== *)
theory Display
  imports Prelude
begin

section \<open>The display (\<open>applications/ST7789.c\<close>)\<close>

text \<open>
  What the driver does to the ST7789 panel, as the list of events on its wires: the data/command,
  chip select and reset lines, the bytes sent over SPI and the pauses in milliseconds. A font is its two sizes and
  its table of rows of pixels. Coordinates and colours have 16 bits; sums in conditions are C's \<open>int\<close>.
\<close>

datatype lcd_event = DC bool | CS bool | RST bool | Send "u8 list" | Delay nat

record FontDef =
  f_width :: u8
  f_height :: u8
  f_data :: "int \<Rightarrow> u16"

definition ST7789_HEIGHT :: int where "ST7789_HEIGHT = 280"
definition ST7789_WIDTH :: int where "ST7789_WIDTH = 240"

definition lcd_SendBytes :: "u8 \<Rightarrow> lcd_event list" where
  "lcd_SendBytes dat = [Delay 1, Send [dat], Delay 1]"

definition LCD_command_write :: "u8 \<Rightarrow> lcd_event list" where
  "LCD_command_write command = [DC False, CS False] @ lcd_SendBytes command @ [CS True]"

definition LCD_data_write :: "u8 \<Rightarrow> lcd_event list" where
  "LCD_data_write data = [DC True, CS False] @ lcd_SendBytes data @ [CS True]"

definition WriteData :: "u8 list \<Rightarrow> lcd_event list" where
  "WriteData buff = [DC True, Send buff]"

record LCD_ATTRIBUTES =
  WIDTH :: u16
  HEIGHT :: u16
  SCAN_DIR :: u8

definition HORIZONTAL :: u8 where "HORIZONTAL = 0"

definition LCD_SetAttributes :: "u8 \<Rightarrow> LCD_ATTRIBUTES \<times> lcd_event list" where
  "LCD_SetAttributes scan_dir =
    (if scan_dir = HORIZONTAL
     then (\<lparr>WIDTH = word_of_int ST7789_WIDTH, HEIGHT = word_of_int ST7789_HEIGHT, SCAN_DIR = scan_dir\<rparr>,
           LCD_command_write 0x36 @ LCD_data_write 0x60)
     else (\<lparr>WIDTH = word_of_int ST7789_HEIGHT, HEIGHT = word_of_int ST7789_WIDTH, SCAN_DIR = scan_dir\<rparr>,
           LCD_command_write 0x36 @ LCD_data_write 0x00))"

text \<open>A command and its data bytes.\<close>

definition lcd_setup :: "u8 \<times> u8 list \<Rightarrow> lcd_event list" where
  "lcd_setup cd = LCD_command_write (fst cd) @ concat (map LCD_data_write (snd cd))"

definition LCD_InitReg :: "lcd_event list" where
  "LCD_InitReg =
   [Delay 5]
   @ [RST False]
   @ [Delay 10]
   @ [RST True]
   @ [Delay 120]
   @ concat (map lcd_setup
      [(0x3A, [0x05]),
       (0xB2, [0x0C, 0x0C, 0x00, 0x33, 0x33]),
       (0xB7, [0x35]),
       (0xBB, [0x32]),
       (0xC2, [0x01]),
       (0xC3, [0x15]),
       (0xC4, [0x20]),
       (0xC6, [0x0F]),
       (0xD0, [0xA4, 0xA1]),
       (0xE0, [0xD0, 0x08, 0x0E, 0x09, 0x09, 0x05, 0x31, 0x33, 0x48, 0x17, 0x14, 0x15, 0x31, 0x34]),
       (0xE1, [0xD0, 0x08, 0x0E, 0x09, 0x09, 0x15, 0x31, 0x33, 0x48, 0x17, 0x14, 0x15, 0x31, 0x34]),
       (0x21, []),
       (0x11, [])])
   @ [Delay 120]
   @ concat (map lcd_setup
      [(0x29, [])])"

definition LCD_Init :: "u8 \<Rightarrow> LCD_ATTRIBUTES \<times> lcd_event list" where
  "LCD_Init scan_dir = (fst (LCD_SetAttributes scan_dir), snd (LCD_SetAttributes scan_dir) @ LCD_InitReg)"

text \<open>The two bytes of a 16-bit number, the high one first.\<close>

definition high_byte :: "u16 \<Rightarrow> u8" where "high_byte w = ucast (drop_bit 8 w)"
definition low_byte :: "u16 \<Rightarrow> u8" where "low_byte w = ucast w"

definition LCD_SetWindows :: "u16 \<Rightarrow> u16 \<Rightarrow> u16 \<Rightarrow> u16 \<Rightarrow> lcd_event list" where
  "LCD_SetWindows xstart ystart xend yend =
    (let ystart = ystart + 20; yend = yend + 20
     in LCD_command_write 0x2a
        @ LCD_data_write (high_byte xstart) @ LCD_data_write (low_byte xstart)
        @ LCD_data_write (high_byte xend) @ LCD_data_write (low_byte xend)
        @ LCD_command_write 0x2b
        @ LCD_data_write (high_byte ystart) @ LCD_data_write (low_byte ystart)
        @ LCD_data_write (high_byte yend) @ LCD_data_write (low_byte yend)
        @ LCD_command_write 0x2c)"

definition pixel :: "u16 \<Rightarrow> u8 list" where
  "pixel color = [high_byte color, low_byte color]"

definition FillRectangle :: "u16 \<Rightarrow> u16 \<Rightarrow> u16 \<Rightarrow> u16 \<Rightarrow> u16 \<Rightarrow> lcd_event list" where
  "FillRectangle x y w h color =
    (if ST7789_WIDTH \<le> uint x \<or> ST7789_HEIGHT \<le> uint y then []
     else
       let w = (if ST7789_WIDTH \<le> uint x + uint w - 1 then word_of_int (ST7789_WIDTH - uint x) else w);
           h = (if ST7789_HEIGHT \<le> uint y + uint h - 1 then word_of_int (ST7789_HEIGHT - uint y) else h)
       in LCD_SetWindows x y (x + w - 1) (y + h - 1) @ [CS False, DC True]
          @ concat (replicate (unat h) (replicate (unat w) (Send (pixel color))))
          @ [CS True, DC False])"

definition DrawPixel :: "u16 \<Rightarrow> u16 \<Rightarrow> u16 \<Rightarrow> lcd_event list" where
  "DrawPixel x y color =
    (if ST7789_WIDTH \<le> uint x \<or> ST7789_HEIGHT \<le> uint y then []
     else LCD_SetWindows x y x y @ [CS False, Delay 1] @ WriteData (pixel color) @ [Delay 1, CS True])"

text \<open>Row \<open>i\<close> of a character, as the colours of its pixels.\<close>

definition char_row :: "char \<Rightarrow> FontDef \<Rightarrow> u16 \<Rightarrow> u16 \<Rightarrow> nat \<Rightarrow> u16 list" where
  "char_row ch font color bgcolor i =
    (let b = (ucast (f_data font ((of_char ch - 32) * uint (f_height font) + int i)) :: u32)
     in map (\<lambda>j. if push_bit j b AND 0x8000 \<noteq> 0 then color else bgcolor) [0..<unat (f_width font)])"

definition WriteChar :: "u16 \<Rightarrow> u16 \<Rightarrow> char \<Rightarrow> FontDef \<Rightarrow> u16 \<Rightarrow> u16 \<Rightarrow> lcd_event list" where
  "WriteChar x y ch font color bgcolor =
    LCD_SetWindows x y (x + ucast (f_width font) - 1) (y + ucast (f_height font) - 1) @ [CS False]
    @ concat (map (\<lambda>c. WriteData (pixel c))
        (concat (map (char_row ch font color bgcolor) [0..<unat (f_height font)])))"

subsection \<open>Lines of text\<close>

text \<open>
  The loops of the three functions that write a string: the places of the characters they write. A character that
  does not fit in the line starts the next one, where a space is skipped.
\<close>

definition past_right :: "u16 \<Rightarrow> FontDef \<Rightarrow> bool" where
  "past_right x font \<longleftrightarrow> ST7789_WIDTH \<le> uint x + uint (f_width font)"

definition past_bottom :: "u16 \<Rightarrow> FontDef \<Rightarrow> bool" where
  "past_bottom y font \<longleftrightarrow> ST7789_HEIGHT \<le> uint y + uint (f_height font)"

primrec string_glyphs :: "FontDef \<Rightarrow> string \<Rightarrow> u16 \<Rightarrow> u16 \<Rightarrow> (u16 \<times> u16 \<times> char) list" where
  "string_glyphs font [] x y = []"
| "string_glyphs font (c # str) x y =
    (let wrap = past_right x font;
         x = (if wrap then 0 else x);
         y = (if wrap then y + ucast (f_height font) else y)
     in if wrap \<and> past_bottom y font then []
        else if wrap \<and> c = CHR '' '' then string_glyphs font str x y
        else if c = CHR 0x0A then string_glyphs font str x y
        else (x, y, c) # string_glyphs font str (x + ucast (f_width font)) y)"

primrec time_glyphs :: "FontDef \<Rightarrow> string \<Rightarrow> u16 \<Rightarrow> u16 \<Rightarrow> (u16 \<times> u16 \<times> char) list" where
  "time_glyphs font [] x y = []"
| "time_glyphs font (c # str) x y =
    (let wrap = past_right x font;
         x = (if wrap then 0 else x);
         y = (if wrap then y + ucast (f_height font) else y)
     in if wrap \<and> past_bottom y font then []
        else if wrap \<and> c = CHR '' '' then time_glyphs font str x y
        else if c = CHR 0x0A then time_glyphs font str x y
        else if c = CHR '' '' then []
        else (x, y, c) # time_glyphs font str (x + ucast (f_width font)) y)"

primrec date_glyphs :: "FontDef \<Rightarrow> string \<Rightarrow> nat \<Rightarrow> u16 \<Rightarrow> u16 \<Rightarrow> (u16 \<times> u16 \<times> char) list" where
  "date_glyphs font [] i x y = []"
| "date_glyphs font (c # str) i x y =
    (let wrap = past_right x font;
         x = (if wrap then 0 else x);
         y = (if wrap then y + ucast (f_height font) else y)
     in if wrap \<and> past_bottom y font then []
        else if wrap \<and> c = CHR '' '' then date_glyphs font str i x y
        else if c = CHR 0x0A then date_glyphs font str i x y
        else if c = CHR '' '' \<and> 4 \<le> i + 1 then []
        else (x, y, c) # date_glyphs font str (if c = CHR '' '' then i + 1 else i) (x + ucast (f_width font)) y)"

definition write_glyphs :: "(u16 \<times> u16 \<times> char) list \<Rightarrow> FontDef \<Rightarrow> u16 \<Rightarrow> u16 \<Rightarrow> lcd_event list" where
  "write_glyphs gs font color bgcolor =
    [CS False] @ concat (map (\<lambda>(x, y, c). WriteChar x y c font color bgcolor) gs) @ [CS True]"

definition WriteString :: "u16 \<Rightarrow> u16 \<Rightarrow> string \<Rightarrow> FontDef \<Rightarrow> u16 \<Rightarrow> u16 \<Rightarrow> lcd_event list" where
  "WriteString x y str font color bgcolor = write_glyphs (string_glyphs font str x y) font color bgcolor"

definition RTC_ST7789_Time :: "u16 \<Rightarrow> u16 \<Rightarrow> string \<Rightarrow> FontDef \<Rightarrow> u16 \<Rightarrow> u16 \<Rightarrow> lcd_event list" where
  "RTC_ST7789_Time x y str font color bgcolor = write_glyphs (time_glyphs font (drop 11 str) x y) font color bgcolor"

definition RTC_ST7789_Date :: "u16 \<Rightarrow> u16 \<Rightarrow> string \<Rightarrow> FontDef \<Rightarrow> u16 \<Rightarrow> u16 \<Rightarrow> lcd_event list" where
  "RTC_ST7789_Date x y str font color bgcolor = write_glyphs (date_glyphs font str 0 x y) font color bgcolor"

subsection \<open>Where the characters go\<close>

definition on_screen :: "FontDef \<Rightarrow> u16 \<Rightarrow> u16 \<times> u16 \<times> char \<Rightarrow> bool" where
  "on_screen font y0 = (\<lambda>(x, y, c). uint x + uint (f_width font) < ST7789_WIDTH
     \<and> (y = y0 \<or> uint y + uint (f_height font) < ST7789_HEIGHT))"

lemma on_screen_trans:
  "on_screen font y' g \<Longrightarrow> y' = y \<or> uint y' + uint (f_height font) < ST7789_HEIGHT \<Longrightarrow> on_screen font y g"
  by (cases g) (auto simp: on_screen_def)

lemma on_screen_step:
  assumes "uint (f_width font) < ST7789_WIDTH"
    and x': "x' = (if past_right x font then 0 else x)"
    and y': "y' = (if past_right x font then y + ucast (f_height font) else y)"
    and nb: "\<not> (past_right x font \<and> past_bottom y' font)"
  shows "on_screen font y (x', y', c)" "y' = y \<or> uint y' + uint (f_height font) < ST7789_HEIGHT"
  using assms by (auto simp: on_screen_def past_right_def past_bottom_def)

lemma string_glyphs_on_screen:
  assumes "uint (f_width font) < ST7789_WIDTH"
  shows "g \<in> set (string_glyphs font str x y) \<Longrightarrow> on_screen font y g"
proof (induction str arbitrary: x y)
  case (Cons c str)
  define x' where "x' = (if past_right x font then 0 else x)"
  define y' where "y' = (if past_right x font then y + ucast (f_height font) else y)"
  have g: "\<not> (past_right x font \<and> past_bottom y' font) \<and> (g = (x', y', c) \<or> (\<exists>x''. g \<in> set (string_glyphs font str x'' y')))"
    using Cons.prems unfolding string_glyphs.simps Let_def x'_def [symmetric] y'_def [symmetric]
    by (simp split: if_split_asm) blast+
  then show ?case
    using on_screen_step [OF assms x'_def y'_def] Cons.IH on_screen_trans by blast
qed simp

lemma time_glyphs_on_screen:
  assumes "uint (f_width font) < ST7789_WIDTH"
  shows "g \<in> set (time_glyphs font str x y) \<Longrightarrow> on_screen font y g"
proof (induction str arbitrary: x y)
  case (Cons c str)
  define x' where "x' = (if past_right x font then 0 else x)"
  define y' where "y' = (if past_right x font then y + ucast (f_height font) else y)"
  have g: "\<not> (past_right x font \<and> past_bottom y' font) \<and> (g = (x', y', c) \<or> (\<exists>x''. g \<in> set (time_glyphs font str x'' y')))"
    using Cons.prems unfolding time_glyphs.simps Let_def x'_def [symmetric] y'_def [symmetric]
    by (simp split: if_split_asm) blast+
  then show ?case
    using on_screen_step [OF assms x'_def y'_def] Cons.IH on_screen_trans by blast
qed simp

lemma date_glyphs_on_screen:
  assumes "uint (f_width font) < ST7789_WIDTH"
  shows "g \<in> set (date_glyphs font str i x y) \<Longrightarrow> on_screen font y g"
proof (induction str arbitrary: i x y)
  case (Cons c str)
  define x' where "x' = (if past_right x font then 0 else x)"
  define y' where "y' = (if past_right x font then y + ucast (f_height font) else y)"
  have g: "\<not> (past_right x font \<and> past_bottom y' font) \<and> (g = (x', y', c) \<or> (\<exists>j x''. g \<in> set (date_glyphs font str j x'' y')))"
    using Cons.prems unfolding date_glyphs.simps Let_def x'_def [symmetric] y'_def [symmetric]
    by (simp split: if_split_asm) blast+
  then show ?case
    using on_screen_step [OF assms x'_def y'_def] Cons.IH on_screen_trans by blast
qed simp

lemma concat_replicate_replicate: "concat (replicate n (replicate m x)) = replicate (n * m) x"
  by (induction n) (simp_all add: replicate_add)

end
