(* ===== verification/Calendar_Theorems.thy ===== *)
theory Calendar_Theorems
  imports Calendar
begin

section \<open>What the calendar guarantees\<close>

text \<open>
  C25. From 1970 on, \<open>gmtime_r\<close> gives the proleptic Gregorian date: every field is in its range, the
  days before the year and the month add up to the seconds given, and the day of the year and of the
  week fit.
\<close>

theorem gmtime_gives_the_date:
  assumes "0 \<le> s"
  shows "tm_ok (gmtime_r s) \<and> tm_seconds (gmtime_r s) = s
    \<and> tm_yday (gmtime_r s) = tm_day_of_year (gmtime_r s) \<and> tm_wday (gmtime_r s) = (tm_days (gmtime_r s) + 4) mod 7"
  using gmtime_spec [OF assms] by (metis tm.select_convs(7,8) tm.surjective tm.update_convs(7,8) tm_complete_def)

theorem gmtime_gives_the_date_witness:
  "tm_seconds (gmtime_r 951782399) = 951782399 \<and> tm_mday (gmtime_r 951782399) = 28 \<and> tm_mon (gmtime_r 951782399) = 1"
proof -
  have "tm_mday (gmtime_r 951782399) = 28 \<and> tm_mon (gmtime_r 951782399) = 1" by code_simp
  then show ?thesis using gmtime_gives_the_date [of 951782399] by simp
qed



text \<open>Two decimal digits.\<close>

definition read2 :: "char \<Rightarrow> char \<Rightarrow> int" where
  "read2 c d = (int (of_char c) - 48) * 10 + (int (of_char d) - 48)"

lemma num2str_digits:
  assumes "0 \<le> i" "i < 100"
  obtains c d where "num2str i = [c, d]" "read2 c d = i" "i < 10 \<longleftrightarrow> c = CHR ''0''" "int (of_char d) = i mod 10 + 48"
proof -
  define a where "a = nat (i div 10 + 48)"
  define b where "b = nat (i mod 10 + 48)"
  have ab: "int a = i div 10 + 48" "int b = i mod 10 + 48" using assms by (simp_all add: a_def b_def)
  have lt: "a < 256" "b < 256" using ab assms by linarith+
  have n: "num2str i = [char_of a, char_of b]"
    using assms by (simp add: num2str_def sdiv_nonneg smod_nonneg a_def b_def)
  have o1: "(of_char (char_of a :: char) :: nat) = a" "(of_char (char_of b :: char) :: nat) = b"
    using lt by (simp_all add: of_char_of)
  have "i < 10 \<longleftrightarrow> a = 48" using ab assms by linarith
  also have "\<dots> \<longleftrightarrow> (char_of a :: char) = CHR ''0''"
  proof
    have "(char_of (48 :: nat) :: char) = CHR ''0''" by code_simp
    then show "a = 48 \<Longrightarrow> (char_of a :: char) = CHR ''0''" by simp
  next
    assume "(char_of a :: char) = CHR ''0''"
    then have "(of_char (char_of a :: char) :: nat) = of_char (CHR ''0'')" by simp
    then show "a = 48" unfolding o1 by simp
  qed
  finally show thesis using n o1 ab by (intro that [of "char_of a" "char_of b"]) (simp_all add: read2_def)
qed

definition day_names :: "string list" where
  "day_names = [''Sun'', ''Mon'', ''Tue'', ''Wed'', ''Thu'', ''Fri'', ''Sat'']"
definition month_names :: "string list" where
  "month_names = [''Jan'', ''Feb'', ''Mar'', ''Apr'', ''May'', ''Jun'', ''Jul'', ''Aug'', ''Sep'',
     ''Oct'', ''Nov'', ''Dec'']"

lemma day_text: "w < 7 \<Longrightarrow> take 4 (drop (4 * w) days_text) = day_names ! w @ '' '' \<and> length (day_names ! w) = 3"
proof -
  have "\<forall>w<7. take 4 (drop (4 * w) days_text) = day_names ! w @ '' '' \<and> length (day_names ! w) = 3" by code_simp
  then show "w < 7 \<Longrightarrow> ?thesis" by blast
qed

lemma month_text: "m < 12 \<Longrightarrow> take 4 (drop (4 * m) months_text) = month_names ! m @ '' '' \<and> length (month_names ! m) = 3"
proof -
  have "\<forall>m<12. take 4 (drop (4 * m) months_text) = month_names ! m @ '' '' \<and> length (month_names ! m) = 3" by code_simp
  then show "m < 12 \<Longrightarrow> ?thesis" by blast
qed

text \<open>
  The text of a date has 25 characters and a newline's place at the end: the names of the day
  and the month, then day, hour, minute, second and year, each readable back at its columns.
\<close>

theorem asctime_layout:
  assumes ok: "tm_ok t" and w: "0 \<le> tm_wday t" "tm_wday t < 7" and y: "tm_year t + 1900 < 10000"
  defines "s \<equiv> asctime_r t"
  shows "length s = 25 \<and> take 3 s = day_names ! nat (tm_wday t) \<and> take 3 (drop 4 s) = month_names ! nat (tm_mon t)
    \<and> (if tm_mday t < 10 then s ! 8 = CHR '' '' \<and> int (of_char (s ! 9)) = tm_mday t + 48
       else read2 (s ! 8) (s ! 9) = tm_mday t)
    \<and> read2 (s ! 11) (s ! 12) = tm_hour t \<and> read2 (s ! 14) (s ! 15) = tm_min t \<and> read2 (s ! 17) (s ! 18) = tm_sec t
    \<and> read2 (s ! 20) (s ! 21) * 100 + read2 (s ! 22) (s ! 23) = tm_year t + 1900 \<and> s ! 24 = CHR 0x0A"
proof -
  have md: "1 \<le> tm_mday t" "tm_mday t \<le> 31"
    using ok month_len_pos(2) [of "isleap (tm_year t + 1900)" "tm_mon t"] by (simp_all add: tm_ok_def)
  obtain d1 d2 where d: "num2str (tm_mday t) = [d1, d2]" "read2 d1 d2 = tm_mday t"
    "tm_mday t < 10 \<longleftrightarrow> d1 = CHR ''0''" "int (of_char d2) = tm_mday t mod 10 + 48"
    by (rule num2str_digits [of "tm_mday t"]) (use md in auto)
  obtain h1 h2 where h: "num2str (tm_hour t) = [h1, h2]" "read2 h1 h2 = tm_hour t"
    by (rule num2str_digits [of "tm_hour t"]) (use ok in \<open>auto simp: tm_ok_def\<close>)
  obtain m1 m2 where m: "num2str (tm_min t) = [m1, m2]" "read2 m1 m2 = tm_min t"
    by (rule num2str_digits [of "tm_min t"]) (use ok in \<open>auto simp: tm_ok_def\<close>)
  obtain s1 s2 where se: "num2str (tm_sec t) = [s1, s2]" "read2 s1 s2 = tm_sec t"
    by (rule num2str_digits [of "tm_sec t"]) (use ok in \<open>auto simp: tm_ok_def\<close>)
  have yr: "0 \<le> tm_year t + 1900" using ok by (simp add: tm_ok_def)
  have cen: "(tm_year t + 1900) sdiv 100 = (tm_year t + 1900) div 100" "(tm_year t + 1900) smod 100 = (tm_year t + 1900) mod 100"
    using yr by (simp_all add: sdiv_nonneg smod_nonneg)
  obtain c1 c2 where c: "num2str ((tm_year t + 1900) div 100) = [c1, c2]" "read2 c1 c2 = (tm_year t + 1900) div 100"
    by (rule num2str_digits [of "(tm_year t + 1900) div 100"]) (use yr y in auto)
  obtain y1 y2 where yy: "num2str ((tm_year t + 1900) mod 100) = [y1, y2]" "read2 y1 y2 = (tm_year t + 1900) mod 100"
    by (rule num2str_digits [of "(tm_year t + 1900) mod 100"]) auto
  have "nat (tm_wday t) < 7" using w by simp
  then obtain a1 a2 a3 where a: "day_names ! nat (tm_wday t) = [a1, a2, a3]"
    "take 4 (drop (4 * nat (tm_wday t)) days_text) = [a1, a2, a3, CHR '' '']"
    using day_text [of "nat (tm_wday t)"] by (auto simp: numeral_3_eq_3 length_Suc_conv)
  have "nat (tm_mon t) < 12" using ok by (simp add: tm_ok_def nat_less_iff)
  then obtain b1 b2 b3 where b: "month_names ! nat (tm_mon t) = [b1, b2, b3]"
    "take 4 (drop (4 * nat (tm_mon t)) months_text) = [b1, b2, b3, CHR '' '']"
    using month_text [of "nat (tm_mon t)"] by (auto simp: numeral_3_eq_3 length_Suc_conv)
  define f where "f = (if tm_mday t < 10 then CHR '' '' else d1)"
  have s: "s = [a1, a2, a3, CHR '' '', b1, b2, b3, CHR '' '', f, d2, CHR '' '', h1, h2, CHR '':'', m1, m2,
      CHR '':'', s1, s2, CHR '' '', c1, c2, y1, y2, CHR 0x0A]"
    using d(3) by (simp add: s_def asctime_r_def Let_def a b d(1) h m se c yy cen f_def)
  have "(tm_year t + 1900) div 100 * 100 + (tm_year t + 1900) mod 100 = tm_year t + 1900" by simp
  then show ?thesis
    using a(1) b(1) d(2,3,4) h(2) m(2) se(2) c(2) yy(2) md by (simp add: s f_def)
qed

theorem asctime_layout_witness:
  "length (asctime_r (gmtime_r 951782399)) = 25 \<and> take 3 (asctime_r (gmtime_r 951782399)) = ''Mon''
   \<and> asctime_r (gmtime_r 951782399) ! 9 = CHR ''8''"
proof -
  have g: "gmtime_r 951782399 = \<lparr>tm_sec = 59, tm_min = 59, tm_hour = 23, tm_mday = 28, tm_mon = 1, tm_year = 100,
    tm_wday = 1, tm_yday = 58, tm_isdst = 0\<rparr>" by code_simp
  have "tm_ok (gmtime_r 951782399)" by (rule gmtime_spec) simp
  then have "length (asctime_r (gmtime_r 951782399)) = 25 \<and> take 3 (asctime_r (gmtime_r 951782399)) = ''Mon''"
    using asctime_layout [of "gmtime_r 951782399"] by (simp add: g day_names_def)
  moreover have "asctime_r (gmtime_r 951782399) ! 9 = CHR ''8''" by code_simp
  ultimately show ?thesis by simp
qed

text \<open>
  Out of range, \<open>timegm\<close> goes wrong. A month number of 12 or of -1 makes it read outside its table; a
  day past the end of January is carried without being reduced, so the result is 31 days late.
\<close>

theorem timegm_out_of_range:
  "(tm_mon t = 12 \<longrightarrow> timegm t = None)
   \<and> (tm_mon t = - 1 \<and> 0 < tm_mday t \<and> tm_hour t \<le> 24 \<and> tm_min t \<le> 60 \<and> tm_sec t \<le> 60 \<longrightarrow> timegm t = None)
   \<and> (tm_ok (t\<lparr>tm_mon := 1, tm_mday := tm_mday t - 31\<rparr>) \<and> tm_mon t = 0 \<and> \<not> isleap (tm_year t + 1900) \<longrightarrow>
      (\<exists>u. timegm t = Some (tm_seconds (t\<lparr>tm_mon := 1, tm_mday := tm_mday t - 31\<rparr>) + 31 * 86400, u)))"
proof (intro conjI impI; (elim conjE)?)
  have none: "mday_loop md 12 yr = None" for md yr by (subst mday_loop.simps) (simp add: spm_def)
  show "timegm t = None" if "tm_mon t = 12"
    using that by (simp add: timegm_def Let_def none)
  have neg: "mday_loop md (- 1) yr = None" if "0 < md" for md yr
    using that by (subst mday_loop.simps) (simp add: spm_def spm_table_def)
  show "timegm t = None"
    if "tm_mon t = - 1" "0 < tm_mday t" "tm_hour t \<le> 24" "tm_min t \<le> 60" "tm_sec t \<le> 60"
    using that by (simp add: timegm_def Let_def neg)
  show "\<exists>u. timegm t = Some (tm_seconds (t\<lparr>tm_mon := 1, tm_mday := tm_mday t - 31\<rparr>) + 31 * 86400, u)"
    if ok: "tm_ok (t\<lparr>tm_mon := 1, tm_mday := tm_mday t - 31\<rparr>)" and jan: "tm_mon t = 0"
      and leap: "\<not> isleap (tm_year t + 1900)"
  proof -
    define u where "u = t\<lparr>tm_mon := 1, tm_mday := tm_mday t - 31\<rparr>"
    have b: "32 \<le> tm_mday t" "tm_mday t \<le> 59" using ok leap by (simp_all add: tm_ok_def month_len_def)
    have loop: "mday_loop (tm_mday t) 0 (tm_year t) = Some (tm_mday t, 1, tm_year t)"
      using b by (subst mday_loop.simps, subst mday_loop.simps) (simp add: spm_def spm_table_def)
    have r: "\<not> 60 < tm_sec t" "\<not> 60 < tm_min t" "\<not> 24 < tm_hour t" "\<not> tm_year t < 70"
      using ok by (simp_all add: tm_ok_def)
    have yr: "days_before_year (tm_year t - 70) = year_start (nat (tm_year t - 70))"
      using r days_before_year_start [of "nat (tm_year t - 70)"] by simp
    have "tm_days u + 31 = days_before_year (tm_year t - 70) + (31 + tm_mday t - 1)"
      using leap by (simp add: u_def tm_days_def tm_day_of_year_def yr month_start_def month_len_def)
    then show ?thesis
      unfolding u_def [symmetric]
      using jan leap r by (simp add: timegm_def Let_def loop spm_def spm_table_def tm_seconds_def)
        (simp add: u_def)
  qed
qed

theorem timegm_out_of_range_witness:
  "timegm ((gmtime_r 0)\<lparr>tm_mon := 12\<rparr>) = None \<and> timegm ((gmtime_r 0)\<lparr>tm_mon := - 1\<rparr>) = None
   \<and> (\<exists>u. timegm ((gmtime_r 0)\<lparr>tm_mday := 32\<rparr>) = Some (62 * 86400, u))"
proof -
  have g: "gmtime_r 0 = \<lparr>tm_sec = 0, tm_min = 0, tm_hour = 0, tm_mday = 1, tm_mon = 0, tm_year = 70,
    tm_wday = 4, tm_yday = 0, tm_isdst = 0\<rparr>" by code_simp
  have l: "\<not> isleap 1970" by code_simp
  have ok: "tm_ok ((gmtime_r 0)\<lparr>tm_mday := 32\<rparr>\<lparr>tm_mon := 1, tm_mday := tm_mday ((gmtime_r 0)\<lparr>tm_mday := 32\<rparr>) - 31\<rparr>)"
    by (simp add: g tm_ok_def month_len_def)
  have "tm_seconds ((gmtime_r 0)\<lparr>tm_mday := 32\<rparr>\<lparr>tm_mon := 1, tm_mday := tm_mday ((gmtime_r 0)\<lparr>tm_mday := 32\<rparr>) - 31\<rparr>) = 31 * 86400"
    by (simp add: g tm_seconds_def tm_days_def tm_day_of_year_def year_start_def month_start_def month_len_def)
  then show ?thesis
    using timegm_out_of_range [of "(gmtime_r 0)\<lparr>tm_mon := 12\<rparr>"] timegm_out_of_range [of "(gmtime_r 0)\<lparr>tm_mon := - 1\<rparr>"]
      timegm_out_of_range [of "(gmtime_r 0)\<lparr>tm_mday := 32\<rparr>"] ok l by (simp add: g)
qed

end
