(* ===== verification/Display_Theorems.thy ===== *)
theory Display_Theorems
  imports Rtc Display Calendar_Theorems
begin

section \<open>Properties of the display\<close>

text \<open>
  Where lines of text and rectangles are drawn, the characters of a date as text, and the two lines of the first screen.
\<close>

text \<open>Drawing stays on the screen. Every character of a string ends left of the right edge, and each line below
  the first ends above the bottom. \<open>FillRectangle\<close> sets a window cut off at the edges and sends exactly one
  pixel for each of its places; outside the screen it draws nothing.\<close>

theorem drawing_stays_on_screen:
  "(uint (f_width font) < ST7789_WIDTH \<and> (gx, gy, c) \<in> set (string_glyphs font str x y) \<union> set (time_glyphs font str x y)
      \<union> set (date_glyphs font str i x y) \<longrightarrow>
      uint gx + uint (f_width font) < ST7789_WIDTH \<and> (gy = y \<or> uint gy + uint (f_height font) < ST7789_HEIGHT))
   \<and> FillRectangle x y w h color =
      (if ST7789_WIDTH \<le> uint x \<or> ST7789_HEIGHT \<le> uint y then []
       else
         let w' = min (uint w) (ST7789_WIDTH - uint x); h' = min (uint h) (ST7789_HEIGHT - uint y)
         in LCD_SetWindows x y (word_of_int (uint x + w' - 1)) (word_of_int (uint y + h' - 1)) @ [CS False, DC True]
            @ replicate (nat (w' * h')) (Send (pixel color)) @ [CS True, DC False])"
proof (intro conjI impI)
  assume "uint (f_width font) < ST7789_WIDTH \<and> (gx, gy, c) \<in> set (string_glyphs font str x y) \<union> set (time_glyphs font str x y)
      \<union> set (date_glyphs font str i x y)"
  then have "on_screen font y (gx, gy, c)"
    using string_glyphs_on_screen time_glyphs_on_screen date_glyphs_on_screen by blast
  then show "uint gx + uint (f_width font) < ST7789_WIDTH" "gy = y \<or> uint gy + uint (f_height font) < ST7789_HEIGHT"
    by (simp_all add: on_screen_def)
next
  define w' where "w' = min (uint w) (ST7789_WIDTH - uint x)"
  define h' where "h' = min (uint h) (ST7789_HEIGHT - uint y)"
  have "FillRectangle x y w h color = LCD_SetWindows x y (word_of_int (uint x + w' - 1)) (word_of_int (uint y + h' - 1)) @ [CS False, DC True]
            @ replicate (nat (w' * h')) (Send (pixel color)) @ [CS True, DC False]"
    if on: "\<not> (ST7789_WIDTH \<le> uint x \<or> ST7789_HEIGHT \<le> uint y)"
  proof -
    have c: "(if ST7789_WIDTH \<le> uint x + uint w - 1 then word_of_int (ST7789_WIDTH - uint x) else w) = word_of_int w'"
      "(if ST7789_HEIGHT \<le> uint y + uint h - 1 then word_of_int (ST7789_HEIGHT - uint y) else h) = word_of_int h'"
      by (auto simp: w'_def h'_def)
    have xy: "uint x < 240" "uint y < 280" using on by (simp_all add: ST7789_WIDTH_def ST7789_HEIGHT_def)
    have "w' \<le> 240 - uint x" "h' \<le> 280 - uint y" by (simp_all add: w'_def h'_def ST7789_WIDTH_def ST7789_HEIGHT_def)
    then have n: "w' \<le> 240" "h' \<le> 280" using uint_ge_0 [of x] uint_ge_0 [of y] by linarith+
    have n0: "0 \<le> w'" "0 \<le> h'" using xy by (simp_all add: w'_def h'_def ST7789_WIDTH_def ST7789_HEIGHT_def)
    have u: "unat (word_of_int w' :: u16) = nat w'" "unat (word_of_int h' :: u16) = nat h'"
      using n n0 by (simp_all add: unsigned_of_int take_bit_int_eq_self)
    have p: "x + word_of_int w' - 1 = word_of_int (uint x + w' - 1)" "y + word_of_int h' - 1 = word_of_int (uint y + h' - 1)"
      by simp_all
    have "nat h' * nat w' = nat (w' * h')" using n0 by (simp add: nat_mult_distrib mult.commute)
    then show ?thesis
      using on unfolding FillRectangle_def Let_def c u p concat_replicate_replicate by simp
  qed
  then show "FillRectangle x y w h color =
      (if ST7789_WIDTH \<le> uint x \<or> ST7789_HEIGHT \<le> uint y then []
       else
         let w' = min (uint w) (ST7789_WIDTH - uint x); h' = min (uint h) (ST7789_HEIGHT - uint y)
         in LCD_SetWindows x y (word_of_int (uint x + w' - 1)) (word_of_int (uint y + h' - 1)) @ [CS False, DC True]
            @ replicate (nat (w' * h')) (Send (pixel color)) @ [CS True, DC False])"
    by (auto simp: FillRectangle_def Let_def w'_def h'_def)
qed

theorem drawing_stays_on_screen_witness:
  "let font = \<lparr>f_width = 11, f_height = 18, f_data = \<lambda>_. 0\<rparr>
   in (0, 18, CHR ''A'') \<in> set (string_glyphs font ''A'' 235 0) \<and> uint (0 :: u16) + uint (f_width font) < ST7789_WIDTH
     \<and> uint (18 :: u16) + uint (f_height font) < ST7789_HEIGHT"
proof -
  let ?font = "\<lparr>f_width = 11, f_height = 18, f_data = \<lambda>_. 0\<rparr>"
  have "(0, 18, CHR ''A'') \<in> set (string_glyphs ?font ''A'' 235 0)"
    by (simp add: past_right_def past_bottom_def ST7789_WIDTH_def ST7789_HEIGHT_def)
  then show ?thesis
    using drawing_stays_on_screen [of ?font 0 18 "CHR ''A''" "''A''" 235 0] unfolding Let_def
    by (simp add: ST7789_WIDTH_def)
qed

text \<open>The characters of a date.\<close>

lemma digit_char:
  assumes "0 \<le> i" "i < 100"
  obtains c d where "num2str i = [c, d]" "c \<noteq> CHR '' ''" "d \<noteq> CHR '' ''" "c \<noteq> CHR 0x0A" "d \<noteq> CHR 0x0A"
    "c = CHR ''0'' \<longleftrightarrow> i < 10"
proof (rule num2str_digits [OF assms])
  fix c d assume n: "num2str i = [c, d]" "read2 c d = i" "i < 10 \<longleftrightarrow> c = CHR ''0''" "int (of_char d) = i mod 10 + 48"
  have "0 \<le> i mod 10" "i mod 10 \<le> i" using assms(1) by (simp_all add: zmod_le_nonneg_dividend)
  moreover have "(int (of_char c) - 48) * 10 + (int (of_char d) - 48) = i" using n(2) by (simp only: read2_def)
  moreover have "48 \<le> p \<and> 48 \<le> q" if "0 \<le> i mod 10" "i mod 10 \<le> i" "(p - 48) * 10 + (q - 48) = i" "q = i mod 10 + 48" for p q
    using that by simp
  ultimately have ge: "48 \<le> int (of_char c)" "48 \<le> int (of_char d)"
    using n(4) by blast+
  have "x \<noteq> CHR '' ''" "x \<noteq> CHR 0x0A" if "48 \<le> int (of_char x)" for x using that by auto
  from this [OF ge(1)] this [OF ge(2)] show thesis using that [OF n(1)] n(3) by blast
qed

lemma name_chars:
  "w < 7 \<Longrightarrow> \<exists>a b c. take 4 (drop (4 * w) days_text) = [a, b, c, CHR '' ''] \<and> {a, b, c} \<inter> {CHR '' '', CHR 0x0A} = {}"
  "m < 12 \<Longrightarrow> \<exists>a b c. take 4 (drop (4 * m) months_text) = [a, b, c, CHR '' ''] \<and> {a, b, c} \<inter> {CHR '' '', CHR 0x0A} = {}"
proof -
  have three: "\<exists>a b c. xs = [a, b, c]" if "length xs = 3" for xs :: string
    using that by (auto simp: numeral_3_eq_3 length_Suc_conv)
  have d: "\<forall>w<7. set (day_names ! w) \<inter> {CHR '' '', CHR 0x0A} = {}" and m: "\<forall>m<12. set (month_names ! m) \<inter> {CHR '' '', CHR 0x0A} = {}"
    by code_simp+
  show "\<exists>a b c. take 4 (drop (4 * w) days_text) = [a, b, c, CHR '' ''] \<and> {a, b, c} \<inter> {CHR '' '', CHR 0x0A} = {}" if l: "w < 7"
  proof -
    obtain a b c where "day_names ! w = [a, b, c]" using three day_text [OF l] by blast
    then show ?thesis using day_text [OF l] d [rule_format, OF l] by simp
  qed
  show "\<exists>a b c. take 4 (drop (4 * m) months_text) = [a, b, c, CHR '' ''] \<and> {a, b, c} \<inter> {CHR '' '', CHR 0x0A} = {}" if l: "m < 12"
  proof -
    obtain a b c where "month_names ! m = [a, b, c]" using three month_text [OF l] by blast
    then show ?thesis using month_text [OF l] m [rule_format, OF l] by simp
  qed
qed

lemma asctime_chars:
  assumes ok: "tm_ok t" and w: "0 \<le> tm_wday t" "tm_wday t < 7" and y: "tm_year t + 1900 < 10000"
  obtains a1 a2 a3 b1 b2 b3 d1 d2 h1 h2 m1 m2 s1 s2 c1 c2 y1 y2 where
    "asctime_r t = [a1, a2, a3, CHR '' '', b1, b2, b3, CHR '' '', d1, d2, CHR '' '', h1, h2, CHR '':'', m1, m2,
      CHR '':'', s1, s2, CHR '' '', c1, c2, y1, y2, CHR 0x0A]"
    "CHR '' '' \<notin> {a1, a2, a3, b1, b2, b3, d2, h1, h2, m1, m2, s1, s2}"
    "CHR 0x0A \<notin> {a1, a2, a3, b1, b2, b3, d1, d2, h1, h2, m1, m2, s1, s2}"
    "d1 = CHR '' '' \<longleftrightarrow> tm_mday t < 10"
proof -
  have md: "1 \<le> tm_mday t" "tm_mday t \<le> 31"
    using ok month_len_pos(2) [of "isleap (tm_year t + 1900)" "tm_mon t"] by (simp_all add: tm_ok_def)
  have rng: "0 \<le> tm_mday t" "tm_mday t < 100" "0 \<le> tm_hour t" "tm_hour t < 100" "0 \<le> tm_min t" "tm_min t < 100"
    "0 \<le> tm_sec t" "tm_sec t < 100" using ok md by (simp_all add: tm_ok_def)
  obtain d1 d2 where d: "num2str (tm_mday t) = [d1, d2]" "d1 \<noteq> CHR '' ''" "d2 \<noteq> CHR '' ''" "d1 \<noteq> CHR 0x0A" "d2 \<noteq> CHR 0x0A"
    "d1 = CHR ''0'' \<longleftrightarrow> tm_mday t < 10" by (rule digit_char [OF rng(1,2)])
  obtain h1 h2 where h: "num2str (tm_hour t) = [h1, h2]" "h1 \<noteq> CHR '' ''" "h2 \<noteq> CHR '' ''" "h1 \<noteq> CHR 0x0A" "h2 \<noteq> CHR 0x0A"
    "h1 = CHR ''0'' \<longleftrightarrow> tm_hour t < 10" by (rule digit_char [OF rng(3,4)])
  obtain m1 m2 where m: "num2str (tm_min t) = [m1, m2]" "m1 \<noteq> CHR '' ''" "m2 \<noteq> CHR '' ''" "m1 \<noteq> CHR 0x0A" "m2 \<noteq> CHR 0x0A"
    "m1 = CHR ''0'' \<longleftrightarrow> tm_min t < 10" by (rule digit_char [OF rng(5,6)])
  obtain s1 s2 where s: "num2str (tm_sec t) = [s1, s2]" "s1 \<noteq> CHR '' ''" "s2 \<noteq> CHR '' ''" "s1 \<noteq> CHR 0x0A" "s2 \<noteq> CHR 0x0A"
    "s1 = CHR ''0'' \<longleftrightarrow> tm_sec t < 10" by (rule digit_char [OF rng(7,8)])
  have yr: "0 \<le> tm_year t + 1900" using ok by (simp add: tm_ok_def)
  have cen: "(tm_year t + 1900) sdiv 100 = (tm_year t + 1900) div 100" "(tm_year t + 1900) smod 100 = (tm_year t + 1900) mod 100"
    using yr by (simp_all add: sdiv_nonneg smod_nonneg)
  obtain c1 c2 where c: "num2str ((tm_year t + 1900) div 100) = [c1, c2]"
    by (rule num2str_digits [of "(tm_year t + 1900) div 100"]) (use yr y in auto)
  obtain y1 y2 where yy: "num2str ((tm_year t + 1900) mod 100) = [y1, y2]"
    by (rule num2str_digits [of "(tm_year t + 1900) mod 100"]) auto
  have "nat (tm_wday t) < 7" using w by simp
  from name_chars(1) [OF this] obtain a1 a2 a3 where a: "take 4 (drop (4 * nat (tm_wday t)) days_text) = [a1, a2, a3, CHR '' '']"
    "{a1, a2, a3} \<inter> {CHR '' '', CHR 0x0A} = {}" by (elim exE conjE) (rule that)
  have "nat (tm_mon t) < 12" using ok by (simp add: tm_ok_def nat_less_iff)
  from name_chars(2) [OF this] obtain b1 b2 b3 where b: "take 4 (drop (4 * nat (tm_mon t)) months_text) = [b1, b2, b3, CHR '' '']"
    "{b1, b2, b3} \<inter> {CHR '' '', CHR 0x0A} = {}" by (elim exE conjE) (rule that)
  define f where "f = (if tm_mday t < 10 then CHR '' '' else d1)"
  have "asctime_r t = [a1, a2, a3, CHR '' '', b1, b2, b3, CHR '' '', f, d2, CHR '' '', h1, h2, CHR '':'', m1, m2,
      CHR '':'', s1, s2, CHR '' '', c1, c2, y1, y2, CHR 0x0A]"
    using d(6) by (simp add: asctime_r_def Let_def a b d(1) h m s c yy cen f_def)
  moreover have "CHR '' '' \<notin> {a1, a2, a3, b1, b2, b3, d2, h1, h2, m1, m2, s1, s2}"
    using a(2) b(2) d(3) h(2,3) m(2,3) s(2,3) by simp
  moreover have "CHR 0x0A \<notin> {a1, a2, a3, b1, b2, b3, f, d2, h1, h2, m1, m2, s1, s2}"
    using a(2) b(2) d(4,5) h(4,5) m(4,5) s(4,5) by (simp add: f_def)
  moreover have "f = CHR '' '' \<longleftrightarrow> tm_mday t < 10" using d(2) by (simp add: f_def)
  ultimately show thesis by (rule that)
qed

lemma date_glyphs_step:
  assumes "uint (f_width font) = 11" "CHR 0x0A \<noteq> c" "CHR '' '' \<noteq> c" "uint x < 229"
  shows "date_glyphs font (c # str) i x y = (x, y, c) # date_glyphs font str i (x + 11) y"
proof -
  have "ucast (f_width font) = (11 :: u16)" using assms(1) by (metis of_int_numeral ucast_eq)
  then show ?thesis using assms by (auto simp: past_right_def ST7789_WIDTH_def)
qed

lemma date_glyphs_space:
  assumes "uint (f_width font) = 11" "i < 3" "uint x < 229"
  shows "date_glyphs font (CHR '' '' # str) i x y = (x, y, CHR '' '') # date_glyphs font str (Suc i) (x + 11) y"
proof -
  have "ucast (f_width font) = (11 :: u16)" using assms(1) by (metis of_int_numeral ucast_eq)
  then show ?thesis using assms by (simp add: past_right_def ST7789_WIDTH_def)
qed

lemma date_glyphs_wrap:
  assumes "uint (f_width font) = 11" "uint (f_height font) = 18" "CHR 0x0A \<noteq> c" "CHR '' '' \<noteq> c" "229 \<le> uint x" "uint y < 200"
  shows "date_glyphs font (c # str) i x y = (0, y + 18, c) # date_glyphs font str i 11 (y + 18)"
proof -
  have w: "ucast (f_width font) = (11 :: u16)" "ucast (f_height font) = (18 :: u16)" using assms(1,2) by (metis of_int_numeral ucast_eq)+
  have "uint (y + 18) = uint y + 18" using assms(6) by (simp add: uint_word_ariths)
  then show ?thesis using assms w by (auto simp: past_right_def past_bottom_def ST7789_WIDTH_def ST7789_HEIGHT_def Let_def)
qed

lemma date_glyphs_stop:
  assumes "uint (f_width font) = 11" "uint x < 229"
  shows "date_glyphs font (CHR '' '' # str) (Suc (Suc (Suc 0))) x y = []"
  using assms by (simp add: past_right_def ST7789_WIDTH_def)

lemma time_glyphs_step:
  assumes "uint (f_width font) = 20" "CHR 0x0A \<noteq> c" "CHR '' '' \<noteq> c" "uint x < 220"
  shows "time_glyphs font (c # str) x y = (x, y, c) # time_glyphs font str (x + 20) y"
proof -
  have "ucast (f_width font) = (20 :: u16)" using assms(1) by (metis of_int_numeral ucast_eq)
  then show ?thesis using assms by (auto simp: past_right_def ST7789_WIDTH_def)
qed

lemma time_glyphs_stop:
  assumes "uint (f_width font) = 20" "uint x < 220"
  shows "time_glyphs font (CHR '' '' # str) x y = []"
  using assms by (simp add: past_right_def ST7789_WIDTH_def)

text \<open>The first screen of the watch. From the text of a broken-down time the time line shows exactly the eight characters
  hh:mm:ss, and the date line shows the names of the day and the month and the day of the month, without the time and the year,
  when the day has one digit. When it has two the text has one space less in front of the fourth one that ends the line: the line
  goes on with the time of day, over the right edge into the next one.\<close>

theorem first_screen_lines:
  assumes ok: "tm_ok t" "0 \<le> tm_wday t" "tm_wday t < 7" "tm_year t + 1900 < 10000"
    and small: "uint (f_width font) = 11" "uint (f_height font) = 18" and big: "uint (f_width clock) = 20"
  shows "time_glyphs clock (drop 11 (asctime_r t)) 40 60 = map (\<lambda>i. (40 + 20 * of_nat i, 60, asctime_r t ! (11 + i))) [0..<8]
    \<and> date_glyphs font (asctime_r t) 0 65 120 =
       (if tm_mday t < 10 then map (\<lambda>i. (65 + 11 * of_nat i, 120, asctime_r t ! i)) [0..<10]
        else map (\<lambda>i. (65 + 11 * of_nat i, 120, asctime_r t ! i)) [0..<15]
          @ map (\<lambda>i. (11 * of_nat i, 138, asctime_r t ! (15 + i))) [0..<4])"
proof (rule asctime_chars [OF ok], intro conjI, goal_cases)
  case (1 a1 a2 a3 b1 b2 b3 d1 d2 h1 h2 m1 m2 s1 s2 c1 c2 y1 y2)
  then show ?case using big by (simp add: time_glyphs_step time_glyphs_stop upt_rec del: time_glyphs.simps)
next
  case (2 a1 a2 a3 b1 b2 b3 d1 d2 h1 h2 m1 m2 s1 s2 c1 c2 y1 y2)
  have "if tm_mday t < 10 then d1 = CHR '' '' else CHR '' '' \<noteq> d1" using 2(4) by auto
  with 2(1-3) show ?case using small
    by (cases "tm_mday t < 10")
      (simp_all add: date_glyphs_step date_glyphs_space date_glyphs_wrap date_glyphs_stop upt_rec del: date_glyphs.simps)
qed

theorem first_screen_lines_witness:
  "let clock = \<lparr>f_width = 20, f_height = 50, f_data = \<lambda>_. 0\<rparr>; font = \<lparr>f_width = 11, f_height = 18, f_data = \<lambda>_. 0\<rparr>;
       s = asctime_r (SOFT_RTC_TIME_DEFAULT\<lparr>tm_mday := 25\<rparr>)
   in length (time_glyphs clock (drop 11 s) 40 60) = 8 \<and> length (date_glyphs font s 0 65 120) = 19"
  unfolding Let_def
  using first_screen_lines [of "SOFT_RTC_TIME_DEFAULT\<lparr>tm_mday := 25\<rparr>" "\<lparr>f_width = 11, f_height = 18, f_data = \<lambda>_. 0\<rparr>"
    "\<lparr>f_width = 20, f_height = 50, f_data = \<lambda>_. 0\<rparr>"]
  by (simp add: SOFT_RTC_TIME_DEFAULT_def tm_ok_def month_len_def)

end
