(* ===== verification/Watch.thy ===== *)
theory Watch
  imports Fonts Rtc Mutex Semaphore
begin

section \<open>The watch (\<open>applications/watch.c\<close>, \<open>main.c\<close>)\<close>

text \<open>
  The global variables of the program, the three buttons, the characters from the serial line, one round of the
  thread that reads the sensors and one round of the thread that draws the screen. \<open>overrun\<close> records that a number has been
  written beyond the two bytes of its buffer (a digit and the terminator fit, the terminator after two digits does not).
\<close>

definition LCD_DISP_RED :: u16 where "LCD_DISP_RED = 0xF800"
definition LCD_DISP_GREEN :: u16 where "LCD_DISP_GREEN = 0x07E0"
definition LCD_DISP_BLUE :: u16 where "LCD_DISP_BLUE = 0x001F"
definition LCD_DISP_ORANGE :: u16 where "LCD_DISP_ORANGE = 0xFC40"
definition LCD_DISP_CYAN :: u16 where "LCD_DISP_CYAN = 0x07FF"
definition LCD_DISP_MAGENTA :: u16 where "LCD_DISP_MAGENTA = 0xF81F"
definition LCD_DISP_YELLOW :: u16 where "LCD_DISP_YELLOW = 0xFFE0"
definition LCD_DISP_WHITE :: u16 where "LCD_DISP_WHITE = 0xFFFF"
definition LCD_DISP_BLACK :: u16 where "LCD_DISP_BLACK = 0x0000"

record watch =
  Theme :: u16
  Background :: u16
  time_string :: "string option"
  steps :: int
  stepString :: string
  Batt :: u16
  battString :: string
  secondsbutton :: int
  minutesbutton :: int
  hoursbutton :: int
  monthbutton :: int
  daysbutton :: int
  menu_index :: int
  themeChanged :: bool
  Hour :: int
  Minute :: int
  Second :: int
  Month :: int
  Day :: int
  Hour_str :: string
  Minute_str :: string
  Second_str :: string
  Day_str :: string
  overrun :: bool

text \<open>The variables when \<open>Main_Threads\<close> has set the first colours.\<close>

definition initial_watch :: watch where
  "initial_watch = \<lparr>Theme = LCD_DISP_GREEN, Background = LCD_DISP_BLACK, time_string = None, steps = 0, stepString = [],
     Batt = 0, battString = [], secondsbutton = 0, minutesbutton = 0, hoursbutton = 0, monthbutton = 0, daysbutton = 0,
     menu_index = 0, themeChanged = False, Hour = 0, Minute = 0, Second = 0, Month = 1, Day = 1,
     Hour_str = [], Minute_str = [], Second_str = [], Day_str = [], overrun = False\<rparr>"

subsection \<open>The C library\<close>

fun decimal :: "nat \<Rightarrow> string" where
  "decimal n = (if n < 10 then [char_of (48 + n)] else decimal (n div 10) @ [char_of (48 + n mod 10)])"

declare decimal.simps [simp del]

definition itoa :: "int \<Rightarrow> string" where
  "itoa i = (if i < 0 then CHR ''-'' # decimal (nat (- i)) else decimal (nat i))"

text \<open>The integer part of the square root. The double that \<^verbatim>\<open>sqrt\<close> returns has the same integer part for a number below
  \<open>2 ^ 32\<close>, as the root of a number that is not a square is further from the next integer than the precision of a double.\<close>

fun isqrt :: "nat \<Rightarrow> nat" where
  "isqrt n = (if n = 0 then 0 else let r = 2 * isqrt (n div 4) in if (r + 1) * (r + 1) \<le> n then r + 1 else r)"

declare isqrt.simps [simp del]

subsection \<open>The buttons\<close>

definition up_btn :: "watch \<Rightarrow> watch" where
  "up_btn w =
    (if menu_index w = 1 then
       let b = hoursbutton w + 1; b = (if 23 < b then 0 else b) in w\<lparr>hoursbutton := b, Hour := b\<rparr>
     else if menu_index w = 2 then
       let b = minutesbutton w + 1; b = (if 59 < b then 0 else b) in w\<lparr>minutesbutton := b, Minute := b\<rparr>
     else if menu_index w = 3 then
       let b = secondsbutton w + 1; b = (if 59 < b then 0 else b) in w\<lparr>secondsbutton := b, Second := b\<rparr>
     else if menu_index w = 4 then
       let b = monthbutton w + 1; b = (if 12 < b then 1 else b) in w\<lparr>monthbutton := b, Month := b\<rparr>
     else if menu_index w = 5 then
       let b = daysbutton w + 1; b = (if 31 < b then 1 else b) in w\<lparr>daysbutton := b, Day := b\<rparr>
     else w\<lparr>Hour := hoursbutton w\<rparr>)"

definition down_btn :: "watch \<Rightarrow> watch" where
  "down_btn w =
    (if menu_index w = 1 then
       let b = hoursbutton w - 1; b = (if b < 0 then 0 else b) in w\<lparr>hoursbutton := b, Hour := b\<rparr>
     else if menu_index w = 2 then
       let b = minutesbutton w - 1; b = (if b < 0 then 0 else b) in w\<lparr>minutesbutton := b, Minute := b\<rparr>
     else if menu_index w = 3 then
       let b = secondsbutton w - 1; b = (if b < 0 then 0 else b) in w\<lparr>secondsbutton := b, Second := b\<rparr>
     else if menu_index w = 4 then
       let b = monthbutton w - 1; b = (if b < 0 then 1 else b) in w\<lparr>monthbutton := b, Month := b\<rparr>
     else if menu_index w = 5 then
       let b = daysbutton w - 1; b = (if b < 0 then 1 else b) in w\<lparr>daysbutton := b, Day := b\<rparr>
     else w\<lparr>Hour := hoursbutton w\<rparr>)"

definition select_btn :: "kernel \<Rightarrow> rtc \<Rightarrow> watch \<Rightarrow> (kernel \<times> rtc \<times> watch) option" where
  "select_btn k r w =
    (let w = w\<lparr>menu_index := menu_index w + 1\<rparr>
     in if 5 < menu_index w then
          (case set_time (word_of_int (Hour w)) (word_of_int (Minute w)) (word_of_int (Second w)) k r of
             None \<Rightarrow> None
           | Some (_, k, r) \<Rightarrow>
              (case set_date 2022 (word_of_int (Month w)) (word_of_int (Day w)) k r of
                 None \<Rightarrow> None
               | Some (_, k, r) \<Rightarrow> Some (k, r, w\<lparr>menu_index := 0\<rparr>)))
        else Some (k, r, w))"

subsection \<open>The serial line\<close>

definition theme_of :: "char \<Rightarrow> u16 option" where
  "theme_of ch =
    (if ch = CHR ''R'' then Some LCD_DISP_RED
     else if ch = CHR ''G'' then Some LCD_DISP_GREEN
     else if ch = CHR ''B'' then Some LCD_DISP_BLUE
     else if ch = CHR ''Y'' then Some LCD_DISP_YELLOW
     else if ch = CHR ''C'' then Some LCD_DISP_CYAN
     else if ch = CHR ''M'' then Some LCD_DISP_MAGENTA
     else if ch = CHR ''O'' then Some LCD_DISP_ORANGE
     else if ch = CHR ''W'' then Some LCD_DISP_WHITE
     else None)"

text \<open>A character that has been read: what is written back, and the new colours.\<close>

definition serial_char :: "char \<Rightarrow> watch \<Rightarrow> string \<times> watch" where
  "serial_char ch w =
    (case theme_of ch of
       Some c \<Rightarrow> ([ch], w\<lparr>Theme := c, themeChanged := True\<rparr>)
     | None \<Rightarrow> (ch # ''Color Changed'' @ [CHR 0x0D, CHR 0x0A], w))"

subsection \<open>Reading the sensors\<close>

definition threshold :: int where "threshold = 10500"

text \<open>Steps from the three 16-bit accelerations. \<open>None\<close> is the overflow of an \<open>int\<close>.\<close>

definition get_steps :: "u16 \<Rightarrow> u16 \<Rightarrow> u16 \<Rightarrow> int \<Rightarrow> int option" where
  "get_steps ax ay az n =
    (let s = sint ax * sint ax + sint ay * sint ay + sint az * sint az
     in if 2 ^ 31 \<le> s then None
        else
          let vectorprevious = (0 :: u16);
              vector = (of_nat (isqrt (nat s)) :: u16);
              totalvector = (word_of_int ((uint vector - uint vectorprevious) sdiv 2) :: u16)
          in if threshold < uint totalvector
             then (if n = 2 ^ 31 - 1 then None else Some (n + 1))
             else Some n)"

definition batt_value :: "u16 \<Rightarrow> u16" where
  "batt_value adc =
    (let b = adc - 1800 :: u16
     in word_of_int ((uint b * 100) sdiv 806))"

definition getValues_pass :: "u16 \<Rightarrow> u16 \<Rightarrow> u16 \<Rightarrow> u16 \<Rightarrow> kernel \<Rightarrow> rtc \<Rightarrow> watch \<Rightarrow> watch option" where
  "getValues_pass ax ay az adc k r w =
    (let now = libc_time k r;
         w = w\<lparr>time_string := Some (ctime_r now)\<rparr>
     in case get_steps ax ay az (steps w) of
          None \<Rightarrow> None
        | Some n \<Rightarrow>
           let w = w\<lparr>steps := n\<rparr>;
               w = w\<lparr>stepString := itoa (steps w)\<rparr>;
               w = w\<lparr>Batt := batt_value adc\<rparr>
           in Some (w\<lparr>battString := itoa (uint (Batt w) - 1)\<rparr>))"

subsection \<open>Drawing the screen\<close>

text \<open>The calls of the display driver. Each is followed by a delay of one millisecond.\<close>

datatype show_call =
    Show_string u16 u16 string FontDef u16 u16
  | Show_time u16 u16 string FontDef u16 u16
  | Show_date u16 u16 string FontDef u16 u16

definition show_events :: "show_call \<Rightarrow> lcd_event list" where
  "show_events c =
    (case c of
       Show_string x y s f fg bg \<Rightarrow> WriteString x y s f fg bg
     | Show_time x y s f fg bg \<Rightarrow> RTC_ST7789_Time x y s f fg bg
     | Show_date x y s f fg bg \<Rightarrow> RTC_ST7789_Date x y s f fg bg) @ [Delay 1]"

text \<open>The two symbols that do not change, and the first screen.\<close>

definition show_symbols :: "watch \<Rightarrow> show_call list" where
  "show_symbols w =
    [Show_string 210 10 ''%'' Font_7x10 (Theme w) (Background w),
     Show_string 85 180 ''!'' Clock_font (Theme w) (Background w)]"

definition show_basic :: "string \<Rightarrow> watch \<Rightarrow> show_call list" where
  "show_basic string w =
    [Show_string 190 10 (battString w) Font_7x10 (Theme w) (Background w),
     Show_time 40 60 string Clock_font (Theme w) (Background w),
     Show_date 65 120 string Font_11x18 (Theme w) (Background w),
     Show_string 105 180 (stepString w) Font_11x18 (Theme w) (Background w)]"

text \<open>A number at \<open>x\<close>, or after a zero at \<open>x'\<close> when it has one digit.\<close>

definition show_number :: "u16 \<Rightarrow> u16 \<Rightarrow> u16 \<Rightarrow> int \<Rightarrow> string \<Rightarrow> FontDef \<Rightarrow> u16 \<Rightarrow> u16 \<Rightarrow> show_call list" where
  "show_number x x' y button s font fg bg =
    (if button < 10 then [Show_string x y ''0'' font fg bg, Show_string x' y s font fg bg]
     else [Show_string x y s font fg bg])"

definition month_label :: "int \<Rightarrow> string" where
  "month_label b =
    (if b = 1 then ''Jan'' else if b = 2 then ''Feb'' else if b = 3 then ''Mar'' else if b = 4 then ''Apr''
     else if b = 5 then ''May'' else if b = 6 then ''Jun'' else if b = 7 then ''Jul'' else if b = 8 then ''Aug''
     else if b = 9 then ''Sep'' else if b = 10 then ''Oct'' else if b = 11 then ''Nov'' else if b = 12 then ''Dec''
     else ''Jan'')"

text \<open>\<open>itoa\<close> into a buffer of two bytes.\<close>

definition fits2 :: "string \<Rightarrow> bool" where "fits2 s \<longleftrightarrow> length s + 1 \<le> 2"

text \<open>One round of the screen. \<open>None\<close> is a read through the null pointer \<open>string\<close>.\<close>

definition showValues_pass :: "watch \<Rightarrow> (show_call list \<times> watch) option" where
  "showValues_pass w =
    (let fg = Theme w; bg = Background w;
         pre = (if themeChanged w then show_symbols w else []);
         w = (if themeChanged w then w\<lparr>themeChanged := False\<rparr> else w);
         m = menu_index w
     in if m = 1 then
          let w = w\<lparr>Hour_str := itoa (Hour w), overrun := overrun w \<or> \<not> fits2 (itoa (Hour w))\<rparr>
          in Some (pre @ show_number 40 60 60 (hoursbutton w) (Hour_str w) Clock_font bg fg, w)
        else if m = 2 then
          let w = w\<lparr>Minute_str := itoa (Minute w), overrun := overrun w \<or> \<not> fits2 (itoa (Minute w))\<rparr>
          in Some (pre @ show_number 40 60 60 (hoursbutton w) (Hour_str w) Clock_font fg bg
                   @ show_number 100 120 60 (minutesbutton w) (Minute_str w) Clock_font bg fg, w)
        else if m = 3 then
          let w = w\<lparr>Second_str := itoa (Second w), overrun := overrun w \<or> \<not> fits2 (itoa (Second w))\<rparr>
          in Some (pre @ show_number 100 120 60 (minutesbutton w) (Minute_str w) Clock_font fg bg
                   @ show_number 160 180 60 (secondsbutton w) (Second_str w) Clock_font bg fg, w)
        else if m = 4 then
          Some (pre @ show_number 160 180 60 (secondsbutton w) (Second_str w) Clock_font fg bg
                @ [Show_date 109 120 (month_label (monthbutton w)) Font_11x18 bg fg], w)
        else if m = 5 then
          let w = w\<lparr>Day_str := itoa (Day w), overrun := overrun w \<or> \<not> fits2 (itoa (Day w))\<rparr>
          in Some (pre @ show_number 153 164 120 (daysbutton w) (Day_str w) Font_11x18 bg fg, w)
        else
          (case time_string w of
             None \<Rightarrow> None
           | Some string \<Rightarrow> Some (pre @ show_basic string w, w)))"

subsection \<open>Starting up\<close>

definition VERTICAL :: u8 where "VERTICAL = 1"

text \<open>\<open>rtc_sample\<close> sets the clock to the initial values of the variables. The text it prints last is not modelled.\<close>

definition rtc_sample :: "kernel \<Rightarrow> rtc \<Rightarrow> watch \<Rightarrow> (rt_err_t \<times> kernel \<times> rtc) option" where
  "rtc_sample k r w =
    (case set_date 2022 (word_of_int (Month w)) (word_of_int (Day w)) k r of
       None \<Rightarrow> None
     | Some (ret, k, r) \<Rightarrow>
        if ret \<noteq> RT_EOK then Some (ret, k, r)
        else (case set_time (word_of_int (Hour w)) (word_of_int (Minute w)) (word_of_int (Second w)) k r of
                None \<Rightarrow> None
              | Some (ret, k, r) \<Rightarrow> Some (ret, k, r)))"

text \<open>What \<open>main\<close> does to the display before it starts the threads.\<close>

definition main_screen :: "lcd_event list" where
  "main_screen = snd (LCD_Init VERTICAL) @ [Delay 5] @ FillRectangle 0 0 240 280 LCD_DISP_BLACK"

subsection \<open>Waiting for the serial line\<close>

text \<open>
  The thread of the serial line waits for a character by taking the mutex \<open>dynamic_mutex\<close>, which \<open>uart_input\<close> releases from the
  interrupt that receives one. \<open>serial_wait\<close> makes \<open>n\<close> rounds of the loop in which the device has no character; \<open>None\<close> is that
  the thread is suspended.
\<close>

primrec serial_wait :: "nat \<Rightarrow> nat \<Rightarrow> kernel \<Rightarrow> kernel option" where
  "serial_wait mutex 0 k = Some k"
| "serial_wait mutex (Suc n) k =
    (case rt_mutex_take mutex RT_WAITING_FOREVER k of
       Returned _ k \<Rightarrow> serial_wait mutex n k
     | Blocked _ \<Rightarrow> None)"

definition uart_input :: "nat \<Rightarrow> kernel \<Rightarrow> rt_err_t \<times> kernel" where
  "uart_input mutex k = (RT_EOK, snd (rt_mutex_release mutex k))"

subsection \<open>The running watch\<close>

text \<open>
  The watch as its threads and interrupts run it. The kernel changes by itself at any moment: the tick counter and what
  else is scheduled. The semaphore \<open>dynamic_sem\<close> is the abstract one that the kernel's semaphore refines. The drawing thread is about
  to take it, or waits for it, or has it and draws. \<open>pc_draw\<close> says which. The reading thread releases it
  after each round. A button is pressed or a character comes in at any moment between rounds.
\<close>

datatype pc_draw = Taking | Waiting | Drawing

record watch_system =
  w_kernel :: kernel
  w_rtc :: rtc
  w_app :: watch
  w_sem :: "nat \<times> nat list"
  w_draw :: pc_draw

definition show_thread :: nat where "show_thread = 3"

definition initial_system :: "kernel \<Rightarrow> rtc \<Rightarrow> watch_system" where
  "initial_system k r = \<lparr>w_kernel = k, w_rtc = r, w_app = initial_watch, w_sem = (0, []), w_draw = Taking\<rparr>"

inductive watch_step :: "watch_system \<Rightarrow> watch_system \<Rightarrow> bool" where
  kernel_runs: "watch_step s (s\<lparr>w_kernel := k\<rparr>)"
| up: "watch_step s (s\<lparr>w_app := up_btn (w_app s)\<rparr>)"
| down: "watch_step s (s\<lparr>w_app := down_btn (w_app s)\<rparr>)"
| select: "select_btn (w_kernel s) (w_rtc s) (w_app s) = Some (k, r, w) \<Longrightarrow>
    watch_step s (s\<lparr>w_kernel := k, w_rtc := r, w_app := w\<rparr>)"
| serial: "watch_step s (s\<lparr>w_app := snd (serial_char ch (w_app s))\<rparr>)"
| get_values: "getValues_pass ax ay az adc (w_kernel s) (w_rtc s) (w_app s) = Some w \<Longrightarrow>
    watch_step s (s\<lparr>w_app := w, w_sem := sem_release_spec (w_sem s),
      w_draw := (if snd (w_sem s) \<noteq> [] then Drawing else w_draw s)\<rparr>)"
| take: "w_draw s = Taking \<Longrightarrow> 0 < fst (w_sem s) \<Longrightarrow>
    watch_step s (s\<lparr>w_sem := (fst (w_sem s) - 1, snd (w_sem s)), w_draw := Drawing\<rparr>)"
| wait: "w_draw s = Taking \<Longrightarrow> fst (w_sem s) = 0 \<Longrightarrow>
    watch_step s (s\<lparr>w_sem := (0, snd (w_sem s) @ [show_thread]), w_draw := Waiting\<rparr>)"
| draw: "w_draw s = Drawing \<Longrightarrow> showValues_pass (w_app s) = Some (calls, w) \<Longrightarrow>
    watch_step s (s\<lparr>w_app := w, w_draw := Taking\<rparr>)"

inductive watch_reaches :: "watch_system \<Rightarrow> watch_system \<Rightarrow> bool" for s0 where
  start: "watch_reaches s0 s0"
| step: "watch_reaches s0 s \<Longrightarrow> watch_step s s' \<Longrightarrow> watch_reaches s0 s'"

text \<open>What holds of the variables in every state.\<close>

definition watch_ok :: "watch \<Rightarrow> bool" where
  "watch_ok w \<longleftrightarrow> menu_index w \<in> {0..5} \<and> Hour w \<in> {0..23} \<and> hoursbutton w = Hour w
     \<and> Minute w \<in> {0..59} \<and> minutesbutton w = Minute w \<and> Second w \<in> {0..59} \<and> secondsbutton w = Second w
     \<and> Month w \<in> {0..12} \<and> (monthbutton w = Month w \<or> monthbutton w = 0 \<and> Month w = 1)
     \<and> Day w \<in> {0..31} \<and> (daysbutton w = Day w \<or> daysbutton w = 0 \<and> Day w = 1)
     \<and> 0 \<le> steps w \<and> steps w < 2 ^ 31 \<and> Background w = LCD_DISP_BLACK \<and> (\<exists>ch. theme_of ch = Some (Theme w))"

lemma up_btn_ok: "watch_ok w \<Longrightarrow> watch_ok (up_btn w) \<and> time_string (up_btn w) = time_string w"
  by (auto simp: up_btn_def watch_ok_def Let_def)

lemma down_btn_ok: "watch_ok w \<Longrightarrow> watch_ok (down_btn w) \<and> time_string (down_btn w) = time_string w"
  by (auto simp: down_btn_def watch_ok_def Let_def)

lemma serial_char_ok: "watch_ok w \<Longrightarrow> watch_ok (snd (serial_char ch w)) \<and> time_string (snd (serial_char ch w)) = time_string w"
  by (auto simp: serial_char_def watch_ok_def split: option.split)

lemma getValues_pass_ok:
  assumes "watch_ok w" "getValues_pass ax ay az adc k r w = Some w'"
  shows "watch_ok w' \<and> time_string w' = Some (ctime_r (libc_time k r))"
proof -
  obtain n where n: "get_steps ax ay az (steps w) = Some n"
    using assms(2) by (cases "get_steps ax ay az (steps w)") (simp_all add: getValues_pass_def Let_def)
  then have "n = steps w \<or> n = steps w + 1 \<and> steps w \<noteq> 2 ^ 31 - 1"
    by (auto simp: get_steps_def Let_def split: if_split_asm)
  then have "0 \<le> n \<and> n < 2 ^ 31" using assms(1) by (auto simp: watch_ok_def)
  moreover have "w' = w\<lparr>time_string := Some (ctime_r (libc_time k r)), steps := n, stepString := itoa n,
    Batt := batt_value adc, battString := itoa (uint (batt_value adc) - 1)\<rparr>"
    using assms(2) n by (simp add: getValues_pass_def Let_def)
  ultimately show ?thesis using assms(1) by (simp add: watch_ok_def)
qed

lemma showValues_pass_ok:
  assumes "watch_ok w" "showValues_pass w = Some (calls, w')"
  shows "watch_ok w' \<and> time_string w' = time_string w"
proof -
  have "watch_ok (w\<lparr>themeChanged := False\<rparr>) = watch_ok w"
    "watch_ok (w\<lparr>Hour_str := s, overrun := b\<rparr>) = watch_ok w" "watch_ok (w\<lparr>Minute_str := s, overrun := b\<rparr>) = watch_ok w"
    "watch_ok (w\<lparr>Second_str := s, overrun := b\<rparr>) = watch_ok w" "watch_ok (w\<lparr>Day_str := s, overrun := b\<rparr>) = watch_ok w" for w s b
    by (simp_all add: watch_ok_def)
  note same = this
  show ?thesis
    using assms unfolding showValues_pass_def Let_def
    by (cases "themeChanged w") (auto simp only: if_True if_False same option.inject prod.inject split: if_split_asm option.split_asm, simp_all)
qed

end
