(* ===== verification/Watch_Clock.thy ===== *)
theory Watch_Clock
  imports Watch
begin

section \<open>Setting the clock with the buttons\<close>

text \<open>
  What the last menu makes of the values the buttons have chosen: \<open>timegm\<close> beyond the valid days, and the
  select button in every menu.
\<close>

text \<open>A day beyond the end of the month counts on into the next one, day 0 is the last one of the month before.\<close>

lemma timegm_any_day:
  assumes r: "0 \<le> tm_sec t" "tm_sec t < 60" "0 \<le> tm_min t" "tm_min t < 60" "0 \<le> tm_hour t" "tm_hour t < 24"
    "70 \<le> tm_year t" "0 \<le> tm_mon t" "tm_mon t < 12" "tm_mday t \<le> 31"
  shows "\<exists>u. timegm t = Some (tm_seconds t, u)"
proof -
  let ?m = "nat (tm_mon t)" and ?l = "isleap (tm_year t + 1900)"
  have m: "?m < 12" using r by auto
  have "31 \<le> spm_table ! nat (1 + tm_mon t)" using spm_table_bounds [of "nat (1 + tm_mon t)"] r by auto
  then have loop: "mday_loop (tm_mday t) (tm_mon t) (tm_year t) = Some (tm_mday t, tm_mon t, tm_year t)"
    using r by (subst mday_loop.simps) (simp add: spm_def)
  have sp: "spm (tm_mon t) = Some (spm_table ! ?m)" using r by (simp add: spm_def)
  have yday: "spm_table ! ?m + tm_mday t - 1 + (if ?l \<and> 1 < tm_mon t then 1 else 0) = tm_day_of_year t"
    using month_start_table [of ?m ?l] m r by (auto simp: tm_day_of_year_def)
  have yr: "days_before_year (tm_year t - 70) = year_start (nat (tm_year t - 70))"
    using r days_before_year_start [of "nat (tm_year t - 70)"] by simp
  have n: "\<not> 60 < tm_sec t" "\<not> 60 < tm_min t" "\<not> 24 < tm_hour t" "\<not> 12 < tm_mon t" "\<not> tm_year t < 70"
    using r by simp_all
  have days: "days_before_year (tm_year t - 70) + tm_day_of_year t = tm_days t" by (simp add: yr tm_days_def)
  have same: "t\<lparr>tm_mday := tm_mday t, tm_mon := tm_mon t, tm_year := tm_year t\<rparr> = t" by (cases t) simp
  show ?thesis
    unfolding timegm_def Let_def
    by (simp only: n if_False loop option.case split_conv same sp yday days) (simp add: tm_seconds_def)
qed

lemma timegm_no_month:
  assumes "tm_mon t = - 1" "\<not> 60 < tm_sec t" "\<not> 60 < tm_min t" "\<not> 24 < tm_hour t" "70 \<le> tm_year t"
  shows "timegm t = None"
proof -
  have same: "t\<lparr>tm_mday := d, tm_mon := - 1, tm_year := y\<rparr> = t\<lparr>tm_mday := d, tm_year := y\<rparr>" for d y using assms(1) by (cases t) simp
  have "mday_loop (tm_mday t) (- 1) (tm_year t) = None \<or> mday_loop (tm_mday t) (- 1) (tm_year t) = Some (tm_mday t, - 1, tm_year t)"
    by (subst (1 2) mday_loop.simps) (simp add: spm_def)
  then show ?thesis
    using assms unfolding timegm_def Let_def by (elim disjE) (simp_all add: spm_def)
qed

lemma rtc_runs_init: "rtc_init_ok r \<Longrightarrow> 0 \<le> rtc_init_time r \<Longrightarrow> rtc_runs k r"
  using uint_ge_0 [of "(rt_tick k - rtc_init_tick r) div 1000"] by (simp add: rtc_runs_def libc_time_tick)

text \<open>The date and the time that the buttons have chosen, in local time.\<close>

definition chosen :: "watch \<Rightarrow> tm" where
  "chosen w = \<lparr>tm_sec = Second w, tm_min = Minute w, tm_hour = Hour w, tm_mday = Day w, tm_mon = Month w - 1,
     tm_year = 2022 - 1900, tm_wday = 0, tm_yday = 0, tm_isdst = 0\<rparr>"

lemma sint_of_int_small: "0 \<le> i \<Longrightarrow> i < 100 \<Longrightarrow> sint (word_of_int i :: u32) = i"
  by (simp add: sint_uint take_bit_int_eq_self signed_take_bit_int_eq_self unsigned_of_int)

lemma uint_of_int_small: "0 \<le> i \<Longrightarrow> i < 100 \<Longrightarrow> uint (word_of_int i :: u32) = i"
  by (simp add: take_bit_int_eq_self unsigned_of_int)

lemma sint_month: "0 \<le> m \<Longrightarrow> m \<le> 12 \<Longrightarrow> sint (word_of_int m - 1 :: u32) = m - 1"
proof -
  assume m: "0 \<le> m" "m \<le> 12"
  show ?thesis
  proof (cases "m = 0")
    case False
    then have "sint (word_of_int (m - 1) :: u32) = m - 1" using m by (intro sint_of_int_small) auto
    then show ?thesis by simp
  qed simp
qed

lemma tm_seconds_2022:
  assumes "tm_year t = 122" "0 \<le> tm_hour t" "tm_hour t < 24" "0 \<le> tm_min t" "tm_min t < 60" "0 \<le> tm_sec t" "tm_sec t < 60"
    "0 \<le> tm_mday t" "tm_mday t \<le> 31" "0 \<le> tm_mon t" "tm_mon t < 12"
  shows "1640908800 \<le> tm_seconds t" "tm_seconds t < 2147483648"
proof -
  have "year_start 52 = 18993" by (simp add: year_start_def year_len_def isleap_def lessThan_nat_numeral lessThan_Suc eval_nat_numeral)
  moreover have "month_start (isleap 2022) (nat (tm_mon t)) + month_len (isleap 2022) (int (nat (tm_mon t))) \<le> month_start (isleap 2022) 12"
    using assms by (intro month_start_mono) (simp add: nat_less_iff)
  then have "month_start (isleap 2022) (nat (tm_mon t)) \<le> 366"
    using month_len_pos(1) [of "isleap 2022" "int (nat (tm_mon t))"] unfolding month_start_year by (simp split: if_split_asm)
  ultimately have "18992 \<le> tm_days t" "tm_days t \<le> 19400"
    using assms month_start_nonneg [of "isleap 2022" "nat (tm_mon t)"] by (simp_all add: tm_days_def tm_day_of_year_def)
  then show "1640908800 \<le> tm_seconds t" "tm_seconds t < 2147483648" using assms by (simp_all add: tm_seconds_def)
qed

lemma select_last_menu:
  assumes run: "rtc_runs k r" and ok: "watch_ok w" and menu: "menu_index w = 5"
  shows "if Month w = 0 then select_btn k r w = None
    else \<exists>k' r'. select_btn k r w = Some (k', r', w\<lparr>menu_index := 0\<rparr>) \<and> rtc_init_ok r' \<and> 0 \<le> rtc_init_time r'
      \<and> rtc_init_time r' < 2 ^ 32 \<and> libc_time k' r' = tm_seconds (chosen w) - 28800"
proof -
  have b: "0 \<le> Hour w" "Hour w < 24" "0 \<le> Minute w" "Minute w < 60" "0 \<le> Second w" "Second w < 60"
    "0 \<le> Month w" "Month w \<le> 12" "0 \<le> Day w" "Day w \<le> 31"
    using ok by (simp_all add: watch_ok_def)
  have s: "sint (word_of_int (Hour w) :: u32) = Hour w" "sint (word_of_int (Minute w) :: u32) = Minute w"
    "sint (word_of_int (Second w) :: u32) = Second w" "sint (word_of_int (Day w) :: u32) = Day w"
    using b by (simp_all add: sint_of_int_small)
  let ?f = "\<lambda>t. t\<lparr>tm_hour := Hour w, tm_min := Minute w, tm_sec := Second w\<rparr>"
  let ?g = "\<lambda>t. t\<lparr>tm_year := 122, tm_mon := Month w - 1, tm_mday := Day w\<rparr>"
  have f: "set_time (word_of_int (Hour w)) (word_of_int (Minute w)) (word_of_int (Second w)) k r = rtc_update ?f k r"
    by (simp add: set_time_def s)
  have g: "set_date 2022 (word_of_int (Month w)) (word_of_int (Day w)) k' r' = rtc_update ?g k' r'" for k' r'
    by (simp add: set_date_def s sint_month b)
  have "tm_ok (?f (rtc_local k r))" using rtc_local_ok [OF run] b by (simp add: tm_ok_def)
  then obtain k1 r1 where u: "rtc_update ?f k r = Some (RT_EOK, k1, r1)" "rtc_runs k1 r1" "rt_tick k1 = rt_tick k"
    "rtc_local k1 r1 = (tm_complete (?f (rtc_local k r)))\<lparr>tm_isdst := 0\<rparr>"
    by (rule rtc_update [OF run])
  define t where "t = ?g (rtc_local k1 r1)"
  have tf: "tm_hour t = Hour w" "tm_min t = Minute w" "tm_sec t = Second w" "tm_mday t = Day w" "tm_mon t = Month w - 1"
    "tm_year t = 122" by (simp_all add: t_def u(4) tm_complete_def)
  have tl: "?g (localtime_r (libc_time k1 r1)) = t" by (simp add: t_def rtc_local_def)
  have secs: "tm_seconds t = tm_seconds (chosen w)"
    by (simp add: tm_seconds_def tm_days_def tm_day_of_year_def tf chosen_def)
  have sel: "select_btn k r w = (case rtc_update ?g k1 r1 of None \<Rightarrow> None | Some (_, k, r) \<Rightarrow> Some (k, r, w\<lparr>menu_index := 0\<rparr>))"
  proof -
    have m: "w\<lparr>menu_index := 6, menu_index := 0\<rparr> = w\<lparr>menu_index := 0\<rparr>" by (cases w) simp
    show ?thesis by (simp add: select_btn_def menu f u(1) g m split: option.split prod.split)
  qed
  show ?thesis
  proof (cases "Month w = 0")
    case True
    have "timegm t = None" using b by (intro timegm_no_month) (simp_all add: tf True)
    then have "rtc_update ?g k1 r1 = None" by (simp add: rtc_update_def Let_def tl mktime_def)
    then show ?thesis unfolding sel by (simp add: True)
  next
    case False
    have "\<exists>v. timegm t = Some (tm_seconds t, v)" using b False by (intro timegm_any_day) (simp_all add: tf)
    then obtain v where v: "mktime t = Some (tm_seconds t - 28800, v)"
      by (auto simp: mktime_def RT_LIBC_FIXED_TIMEZONE_def)
    define k2 where "k2 = rt_exit_critical (rt_enter_critical k1)"
    define r2 where "r2 = snd (soft_rtc_control (RTC_SET_TIME (tm_seconds t - 28800)) k2 r1)"
    have i: "rtc_init_ok r1" "rtc_init_ok r2" "rtc_init_tick r2 = rtc_init_tick r1"
      using u(2) by (simp_all add: rtc_runs_def r2_def soft_rtc_control_def Let_def)
    have now: "libc_time k2 r2 = tm_seconds t - 28800"
      using libc_time_tick [OF i(2), of k2] i(3)
      by (simp add: r2_def soft_rtc_control_def Let_def rt_tick_get_def RT_TICK_PER_SECOND_def)
    have "uint ((rt_tick k2 - rtc_init_tick r2) div 1000) \<le> 4294967"
      using unsigned_less [of "rt_tick k2 - rtc_init_tick r2", where 'a = int] by (simp add: uint_div)
    moreover have "0 \<le> uint ((rt_tick k2 - rtc_init_tick r2) div 1000)" by simp
    moreover have "1640908800 \<le> tm_seconds t" "tm_seconds t < 2147483648"
      using b False by (intro tm_seconds_2022; simp add: tf)+
    ultimately have "0 \<le> rtc_init_time r2" "rtc_init_time r2 < 4294967296" using now libc_time_tick [OF i(2), of k2] by linarith+
    moreover have "rtc_update ?g k1 r1 = Some (RT_EOK, k2, r2)"
      using i(1) by (simp add: rtc_update_def Let_def tl v k2_def r2_def)
    ultimately show ?thesis unfolding sel using False i(2) now secs by auto
  qed
qed

lemma select_other_menu:
  "menu_index w \<noteq> 5 \<Longrightarrow> watch_ok w \<Longrightarrow> select_btn k r w = Some (k, r, w\<lparr>menu_index := menu_index w + 1\<rparr>)"
  by (simp add: select_btn_def watch_ok_def)

lemma watch_ok_menu: "watch_ok w \<Longrightarrow> m \<in> {0..5} \<Longrightarrow> watch_ok (w\<lparr>menu_index := m\<rparr>)"
  by (simp add: watch_ok_def)

definition rtc_good :: "rtc \<Rightarrow> bool" where
  "rtc_good r \<longleftrightarrow> rtc_init_ok r \<and> 0 \<le> rtc_init_time r \<and> rtc_init_time r < 2 ^ 32"

lemma select_btn_inv:
  assumes "watch_ok w" "rtc_good r" "select_btn k r w = Some (k', r', w')"
  shows "watch_ok w' \<and> rtc_good r' \<and> w' = w\<lparr>menu_index := menu_index w'\<rparr>"
proof (cases "menu_index w = 5")
  case True
  have "rtc_runs k r" using assms(2) by (simp add: rtc_runs_init rtc_good_def)
  from select_last_menu [OF this assms(1) True] show ?thesis using assms(1,3)
    by (auto simp: watch_ok_menu rtc_good_def split: if_split_asm)
next
  case False
  then have "menu_index w + 1 \<in> {0..5}" using assms(1) by (simp add: watch_ok_def)
  then show ?thesis using select_other_menu [OF False assms(1), of k r] assms watch_ok_menu [OF assms(1)] by auto
qed

end
