(* ===== verification/Watch_Screen.thy ===== *)
theory Watch_Screen
  imports Watch_Clock Calendar_Theorems
begin

section \<open>The texts on the screen\<close>

text \<open>
  Which characters the texts of the watch consist of, which characters the fonts have, where the calls of a round put
  them, and the invariant that makes every round safe.
\<close>

text \<open>Decimal digits, and the characters that can be printed.\<close>

definition digits :: "char set" where "digits = {c. 48 \<le> (of_char c :: nat) \<and> (of_char c :: nat) \<le> 57}"
definition printable :: "char set" where "printable = {c. 32 \<le> (of_char c :: nat) \<and> (of_char c :: nat) \<le> 126}"

lemma digits_printable: "c \<in> digits \<Longrightarrow> c \<in> printable" by (simp add: digits_def printable_def)

lemma char_of_digit: "(n :: nat) < 10 \<Longrightarrow> char_of (48 + n) \<in> digits"
proof -
  assume n: "n < 10"
  have "(of_char (char_of (48 + n) :: char) :: nat) = 48 + n" using n by (simp add: of_char_of)
  then show ?thesis using n by (simp add: digits_def)
qed

lemma decimal_digits: "set (decimal n) \<subseteq> digits"
proof (induction n rule: decimal.induct)
  case (1 n)
  show ?case using 1 char_of_digit [of n] char_of_digit [of "n mod 10"] by (subst decimal.simps) auto
qed

lemma decimal_length: "length (decimal n) = 1 \<longleftrightarrow> n < 10" "1 \<le> length (decimal n)"
proof -
  show len: "1 \<le> length (decimal n)" for n by (subst decimal.simps) simp
  show "length (decimal n) = 1 \<longleftrightarrow> n < 10"
    using len [of "n div 10"] by (subst decimal.simps) auto
qed

lemma itoa_digits: "0 \<le> i \<Longrightarrow> set (itoa i) \<subseteq> digits" "set (itoa i) \<subseteq> insert (CHR ''-'') digits"
  using decimal_digits by (auto simp: itoa_def)

lemma fits2_itoa: "0 \<le> i \<Longrightarrow> fits2 (itoa i) \<longleftrightarrow> i < 10"
  using decimal_length [of "nat i"] by (auto simp: fits2_def itoa_def)

lemma num2str_chars:
  assumes "0 \<le> i" "i < 100"
  shows "set (num2str i) \<subseteq> digits"
proof (rule num2str_digits [OF assms])
  fix c d assume n: "num2str i = [c, d]" "read2 c d = i" "int (of_char d) = i mod 10 + 48"
  have m: "0 \<le> i mod 10" "i mod 10 < 10" by simp_all
  have r: "(int (of_char c) - 48) * 10 + (int (of_char d) - 48) = i" using n(2) by (simp only: read2_def)
  have e: "48 \<le> p \<and> p \<le> 57" if "(p - 48) * 10 + (q - 48) = i" "q = i mod 10 + 48" for p q
    using that assms m zmod_le_nonneg_dividend [OF assms(1), of 10] by auto
  have "48 \<le> int (of_char c) \<and> int (of_char c) \<le> 57" by (rule e [OF r n(3)])
  moreover have "48 \<le> int (of_char d) \<and> int (of_char d) \<le> 57" using n(3) m by simp
  ultimately have "c \<in> digits" "d \<in> digits" by (simp_all add: digits_def)
  then show ?thesis using n(1) by simp
qed

lemma digit_not_zero_tail: "s \<noteq> [] \<Longrightarrow> set s \<subseteq> digits \<Longrightarrow> set (CHR '' '' # tl s) \<subseteq> insert (CHR '' '') digits"
  by (cases s) auto

lemma asctime_printable:
  assumes ok: "tm_ok t" and y: "tm_year t + 1900 < 10000"
  shows "set (asctime_r t) \<subseteq> insert (CHR 0x0A) printable"
proof -
  have texts: "set days_text \<subseteq> printable" "set months_text \<subseteq> printable"
    by (simp_all add: days_text_def months_text_def printable_def)
  have "set (take 4 (drop n s)) \<subseteq> set s" for n and s :: string
    using set_take_subset [of 4 "drop n s"] set_drop_subset [of n s] by blast
  then have names: "set (take 4 (drop n days_text)) \<subseteq> printable" "set (take 4 (drop n months_text)) \<subseteq> printable" for n
    using texts by blast+
  have yr: "0 \<le> tm_year t + 1900" using ok by (simp add: tm_ok_def)
  have cen: "0 \<le> (tm_year t + 1900) sdiv 100" "(tm_year t + 1900) sdiv 100 < 100"
    "0 \<le> (tm_year t + 1900) smod 100" "(tm_year t + 1900) smod 100 < 100"
    using yr y by (simp_all add: sdiv_nonneg smod_nonneg)
  have "1 \<le> tm_mday t" "tm_mday t \<le> 31"
    using ok month_len_pos(2) [of "isleap (tm_year t + 1900)" "tm_mon t"] by (simp_all add: tm_ok_def)
  then have n: "set (num2str (tm_mday t)) \<subseteq> digits" "set (num2str (tm_hour t)) \<subseteq> digits" "set (num2str (tm_min t)) \<subseteq> digits"
    "set (num2str (tm_sec t)) \<subseteq> digits" "set (num2str ((tm_year t + 1900) sdiv 100)) \<subseteq> digits"
    "set (num2str ((tm_year t + 1900) smod 100)) \<subseteq> digits"
    using ok cen by (intro num2str_chars; simp add: tm_ok_def)+
  have sp: "CHR '' '' \<in> printable" "CHR '':'' \<in> printable" by (simp_all add: printable_def)
  have tl: "set (tl s) \<subseteq> set s" for s :: string by (cases s) auto
  have d: "set (if hd (num2str (tm_mday t)) = CHR ''0'' then CHR '' '' # tl (num2str (tm_mday t)) else num2str (tm_mday t)) \<subseteq> printable"
    using n(1) tl [of "num2str (tm_mday t)"] digits_printable sp(1) by auto
  show ?thesis
    unfolding asctime_r_def Let_def set_append Un_subset_iff
    using names d n(2-6) sp digits_printable by (intro conjI; (simp; fail | blast))
qed

lemma asctime_time_chars:
  assumes ok: "tm_ok t" and w: "0 \<le> tm_wday t" "tm_wday t < 7" and y: "tm_year t + 1900 < 10000"
  shows "set (drop 11 (asctime_r t)) \<subseteq> {CHR 0x0A, CHR '' '', CHR '':''} \<union> digits"
proof -
  have yr: "0 \<le> tm_year t + 1900" using ok by (simp add: tm_ok_def)
  have cen: "0 \<le> (tm_year t + 1900) sdiv 100" "(tm_year t + 1900) sdiv 100 < 100"
    "0 \<le> (tm_year t + 1900) smod 100" "(tm_year t + 1900) smod 100 < 100"
    using yr y by (simp_all add: sdiv_nonneg smod_nonneg)
  have md: "0 \<le> tm_mday t" "tm_mday t < 100"
    using ok month_len_pos(2) [of "isleap (tm_year t + 1900)" "tm_mon t"] by (simp_all add: tm_ok_def)
  obtain d1 d2 where d: "num2str (tm_mday t) = [d1, d2]" by (rule num2str_digits [OF md])
  have "nat (tm_wday t) < 7" "nat (tm_mon t) < 12" using w ok by (auto simp: tm_ok_def)
  moreover have lens: "length days_text = 28" "length months_text = 48" by (simp_all add: days_text_def months_text_def)
  ultimately have l: "length (take 4 (drop (4 * nat (tm_wday t)) days_text)) = 4"
    "length (take 4 (drop (4 * nat (tm_mon t)) months_text)) = 4"
    by (auto simp: lens)
  have dr: "drop 11 (a @ b @ (if z then x # e else c) @ '' '' @ rest) = rest"
    if "length a = 4" "length b = 4" "length c = 2" "length e = 1" for a b c e rest :: string and z x
    using that by simp
  have n: "set (num2str (tm_hour t)) \<subseteq> digits" "set (num2str (tm_min t)) \<subseteq> digits"
    "set (num2str (tm_sec t)) \<subseteq> digits" "set (num2str ((tm_year t + 1900) sdiv 100)) \<subseteq> digits"
    "set (num2str ((tm_year t + 1900) smod 100)) \<subseteq> digits"
    using ok cen by (intro num2str_chars; simp add: tm_ok_def)+
  have "drop 11 (asctime_r t) = num2str (tm_hour t) @ '':'' @ num2str (tm_min t) @ '':'' @ num2str (tm_sec t) @ '' ''
        @ num2str ((tm_year t + 1900) sdiv 100) @ num2str ((tm_year t + 1900) smod 100) @ [CHR 0x0A]"
    unfolding asctime_r_def Let_def by (rule dr) (use l d in simp_all)
  then show ?thesis using n by auto
qed

lemma year_start_ge: "365 * int n \<le> year_start n"
proof (induction n)
  case (Suc n)
  then show ?case using year_len_pos(1) [of "1970 + int n"] by (simp add: year_start_Suc)
qed (simp add: year_start_def)

lemma tm_year_bound:
  assumes "tm_ok t" "tm_seconds t < 2 ^ 33"
  shows "tm_year t + 1900 < 10000"
proof -
  have "tm_days t * 86400 \<le> tm_seconds t" using assms(1) by (simp add: tm_seconds_def tm_ok_def)
  moreover have "365 * (tm_year t - 70) \<le> tm_days t"
    using year_start_ge [of "nat (tm_year t - 70)"] day_of_year_bounds(1) [OF assms(1)] assms(1) by (simp add: tm_days_def tm_ok_def)
  ultimately show ?thesis using assms(2) by simp
qed

lemma ctime_chars:
  assumes "rtc_good r"
  shows "set (ctime_r (libc_time k r)) \<subseteq> insert (CHR 0x0A) printable
    \<and> set (drop 11 (ctime_r (libc_time k r))) \<subseteq> {CHR 0x0A, CHR '' '', CHR '':''} \<union> digits"
proof -
  define s where "s = libc_time k r + 28800"
  have run: "rtc_runs k r" using assms by (simp add: rtc_good_def rtc_runs_init)
  have "uint (rt_tick k - rtc_init_tick r) < 2 ^ 32"
    using unsigned_less [of "rt_tick k - rtc_init_tick r", where 'a = int] by simp
  then have "uint ((rt_tick k - rtc_init_tick r) div 1000) < 4294968" by (simp add: uint_div)
  then have s: "0 \<le> s" "s < 2 ^ 33"
    using assms libc_time_tick [of r k] run by (simp_all add: s_def rtc_good_def rtc_runs_def)
  note g = gmtime_spec [OF s(1)]
  have y: "tm_year (gmtime_r s) + 1900 < 10000" by (rule tm_year_bound [OF g(1)]) (simp only: g(2) s(2))
  have "tm_wday (gmtime_r s) = (tm_days (gmtime_r s) + 4) mod 7" by (subst g(3) [symmetric]) (simp add: tm_complete_def)
  then have w: "0 \<le> tm_wday (gmtime_r s)" "tm_wday (gmtime_r s) < 7" by simp_all
  have "ctime_r (libc_time k r) = asctime_r (gmtime_r s)"
    by (simp add: ctime_r_def localtime_r_def s_def RT_LIBC_FIXED_TIMEZONE_def)
  then show ?thesis using asctime_printable [OF g(1) y] asctime_time_chars [OF g(1) w y] by simp
qed

subsection \<open>Characters and their tables\<close>

text \<open>All the rows of the character are in the table of the font.\<close>

definition in_font :: "FontDef \<Rightarrow> char \<Rightarrow> bool" where
  "in_font f c \<longleftrightarrow> (\<exists>rows\<in>{Font7x10, Font11x18, ClockFont}. f_data f = font_data rows \<and> 32 \<le> (of_char c :: nat)
     \<and> (of_char c - 32 + 1) * unat (f_height f) \<le> length (concat rows))"

lemma length_concat: "\<forall>r\<in>set xs. length r = n \<Longrightarrow> length (concat xs) = length xs * n"
  by (induction xs) auto

lemma in_font_printable:
  assumes "c \<in> printable"
  shows "in_font Font_7x10 c" "in_font Font_11x18 c"
proof -
  have c: "32 \<le> (of_char c :: nat)" "(of_char c :: nat) \<le> 126" using assms by (simp_all add: printable_def)
  have l: "length (concat Font7x10) = 950" "length (concat Font11x18) = 1710"
    using length_concat [OF font_sizes(2)] length_concat [OF font_sizes(4)] font_sizes(1,3) by simp_all
  have "f_data Font_7x10 = font_data Font7x10" "f_data Font_11x18 = font_data Font11x18"
    by (simp_all add: Font_7x10_def Font_11x18_def)
  then show "in_font Font_7x10 c" "in_font Font_11x18 c"
    using c l unfolding in_font_def by (auto intro!: bexI [of _ Font7x10] bexI [of _ Font11x18])
qed

lemma in_clock_font:
  assumes "c \<in> {CHR '' '', CHR ''!'', CHR '':''} \<union> digits"
  shows "in_font Clock_font c"
proof -
  have c: "32 \<le> (of_char c :: nat)" "(of_char c :: nat) \<le> 58" using assms by (auto simp: digits_def)
  have "length (concat ClockFont) = 1350" using length_concat [OF font_sizes(6)] font_sizes(5) by simp
  moreover have "f_data Clock_font = font_data ClockFont" by (simp add: Clock_font_def)
  ultimately show ?thesis using c unfolding in_font_def by (auto intro!: bexI [of _ ClockFont])
qed

lemma glyph_chars:
  "(gx, gy, c) \<in> set (string_glyphs f str x y) \<Longrightarrow> c \<in> set str \<and> c \<noteq> CHR 0x0A"
  "(gx, gy, c) \<in> set (time_glyphs f str x y) \<Longrightarrow> c \<in> set str \<and> c \<noteq> CHR 0x0A"
  "(gx, gy, c) \<in> set (date_glyphs f str i x y) \<Longrightarrow> c \<in> set str \<and> c \<noteq> CHR 0x0A"
proof -
  show "(gx, gy, c) \<in> set (string_glyphs f str x y) \<Longrightarrow> c \<in> set str \<and> c \<noteq> CHR 0x0A"
    by (induction str arbitrary: x y) (auto simp: Let_def split: if_split_asm)
  show "(gx, gy, c) \<in> set (time_glyphs f str x y) \<Longrightarrow> c \<in> set str \<and> c \<noteq> CHR 0x0A"
    by (induction str arbitrary: x y) (auto simp: Let_def split: if_split_asm)
  show "(gx, gy, c) \<in> set (date_glyphs f str i x y) \<Longrightarrow> c \<in> set str \<and> c \<noteq> CHR 0x0A"
    by (induction str arbitrary: i x y) (auto simp: Let_def split: if_split_asm)
qed

subsection \<open>Calls that are safe\<close>

text \<open>The characters a call writes: they lie on the screen and their pixels in the table of the font.\<close>

fun call_font :: "show_call \<Rightarrow> FontDef" where
  "call_font (Show_string x y s f fg bg) = f"
| "call_font (Show_time x y s f fg bg) = f"
| "call_font (Show_date x y s f fg bg) = f"

fun call_glyphs :: "show_call \<Rightarrow> (u16 \<times> u16 \<times> char) list" where
  "call_glyphs (Show_string x y s f fg bg) = string_glyphs f s x y"
| "call_glyphs (Show_time x y s f fg bg) = time_glyphs f (drop 11 s) x y"
| "call_glyphs (Show_date x y s f fg bg) = date_glyphs f s 0 x y"

definition glyph_safe :: "FontDef \<Rightarrow> u16 \<times> u16 \<times> char \<Rightarrow> bool" where
  "glyph_safe f = (\<lambda>(x, y, c). uint x + uint (f_width f) < ST7789_WIDTH \<and> uint y + uint (f_height f) < ST7789_HEIGHT \<and> in_font f c)"

definition call_safe :: "show_call \<Rightarrow> bool" where
  "call_safe c \<longleftrightarrow> (\<forall>g\<in>set (call_glyphs c). glyph_safe (call_font c) g)"

lemma glyph_safe:
  assumes "on_screen f y g" "uint y + uint (f_height f) < ST7789_HEIGHT" "in_font f (snd (snd g))"
  shows "glyph_safe f g"
  using assms by (cases g) (auto simp: glyph_safe_def on_screen_def)

lemma call_safe_string:
  assumes "uint (f_width f) < ST7789_WIDTH" "uint y + uint (f_height f) < ST7789_HEIGHT" "\<And>c. c \<in> set s \<Longrightarrow> c \<noteq> CHR 0x0A \<Longrightarrow> in_font f c"
  shows "call_safe (Show_string x y s f fg bg)" "call_safe (Show_date x y s f fg bg)"
proof -
  have "glyph_safe f g" if "g \<in> set (string_glyphs f s x y)" for g
  proof -
    obtain gx gy c where g: "g = (gx, gy, c)" by (cases g)
    have "in_font f c" using glyph_chars(1) [OF that [unfolded g]] assms(3) by blast
    then show ?thesis using string_glyphs_on_screen [OF assms(1) that] assms(2) by (simp add: glyph_safe g)
  qed
  then show "call_safe (Show_string x y s f fg bg)" by (simp add: call_safe_def)
  have "glyph_safe f g" if "g \<in> set (date_glyphs f s 0 x y)" for g
  proof -
    obtain gx gy c where g: "g = (gx, gy, c)" by (cases g)
    have "in_font f c" using glyph_chars(3) [OF that [unfolded g]] assms(3) by blast
    then show ?thesis using date_glyphs_on_screen [OF assms(1) that] assms(2) by (simp add: glyph_safe g)
  qed
  then show "call_safe (Show_date x y s f fg bg)" by (simp add: call_safe_def)
qed

lemma call_safe_time:
  assumes "uint (f_width f) < ST7789_WIDTH" "uint y + uint (f_height f) < ST7789_HEIGHT"
    "\<And>c. c \<in> set (drop 11 s) \<Longrightarrow> c \<noteq> CHR 0x0A \<Longrightarrow> in_font f c"
  shows "call_safe (Show_time x y s f fg bg)"
proof -
  have "glyph_safe f g" if "g \<in> set (time_glyphs f (drop 11 s) x y)" for g
  proof -
    obtain gx gy c where g: "g = (gx, gy, c)" by (cases g)
    have "in_font f c" using glyph_chars(2) [OF that [unfolded g]] assms(3) by blast
    then show ?thesis using time_glyphs_on_screen [OF assms(1) that] assms(2) by (simp add: glyph_safe g)
  qed
  then show ?thesis by (simp add: call_safe_def)
qed

lemma clock_digits: "set s \<subseteq> digits \<Longrightarrow> c \<in> set s \<Longrightarrow> in_font Clock_font c"
  using in_clock_font [of c] by blast

text \<open>The texts in the variables.\<close>

definition text_ok :: "watch \<Rightarrow> bool" where
  "text_ok w \<longleftrightarrow> set (Hour_str w) \<subseteq> digits \<and> set (Minute_str w) \<subseteq> digits \<and> set (Second_str w) \<subseteq> digits
     \<and> set (Day_str w) \<subseteq> digits \<and> set (stepString w) \<subseteq> digits \<and> set (battString w) \<subseteq> insert (CHR ''-'') digits
     \<and> (\<forall>s. time_string w = Some s \<longrightarrow> set s \<subseteq> insert (CHR 0x0A) printable
          \<and> set (drop 11 s) \<subseteq> {CHR 0x0A, CHR '' '', CHR '':''} \<union> digits)"

lemma show_number_safe:
  assumes "set s \<subseteq> digits" "f = Clock_font \<and> uint y + 50 < 280 \<or> f = Font_11x18 \<and> uint y + 18 < 280"
    "call \<in> set (show_number x x' y b s f fg bg)"
  shows "call_safe call"
proof -
  have c: "in_font f c" if "c \<in> digits" for c
    using assms(2) in_clock_font [of c] in_font_printable(2) [OF digits_printable [OF that]] that by auto
  have zero: "set ''0'' \<subseteq> digits" by (simp add: digits_def)
  have "uint (f_width f) < ST7789_WIDTH" "uint y + uint (f_height f) < ST7789_HEIGHT"
    using assms(2) by (auto simp: ST7789_WIDTH_def ST7789_HEIGHT_def)
  note safe = call_safe_string(1) [OF this]
  have A: "call_safe (Show_string x y t f fg bg)" if "set t \<subseteq> digits" for x t by (rule safe) (use that c in blast)
  from assms(3) consider "call = Show_string x y ''0'' f fg bg" | "call = Show_string x' y s f fg bg" | "call = Show_string x y s f fg bg"
    unfolding show_number_def by (cases "b < 10") (simp_all only: if_True if_False list.set insert_iff empty_iff, blast+)
  then show ?thesis by cases (simp_all only: A assms(1) zero)
qed

lemma sizes_small [simp]:
  "uint (f_width Font_7x10) < ST7789_WIDTH" "uint (f_width Font_11x18) < ST7789_WIDTH" "uint (f_width Clock_font) < ST7789_WIDTH"
  "uint (10 :: u16) + uint (f_height Font_7x10) < ST7789_HEIGHT" "uint (120 :: u16) + uint (f_height Font_11x18) < ST7789_HEIGHT"
  "uint (180 :: u16) + uint (f_height Font_11x18) < ST7789_HEIGHT" "uint (60 :: u16) + uint (f_height Clock_font) < ST7789_HEIGHT"
  "uint (180 :: u16) + uint (f_height Clock_font) < ST7789_HEIGHT"
  by (simp_all add: ST7789_WIDTH_def ST7789_HEIGHT_def)

lemma show_symbols_safe: "call \<in> set (show_symbols w) \<Longrightarrow> call_safe call"
proof -
  assume "call \<in> set (show_symbols w)"
  moreover have "call_safe (Show_string 210 10 ''%'' Font_7x10 (Theme w) (Background w))"
    by (rule call_safe_string(1) [OF sizes_small(1,4)]) (rule in_font_printable(1), simp add: printable_def)
  moreover have "call_safe (Show_string 85 180 ''!'' Clock_font (Theme w) (Background w))"
    by (rule call_safe_string(1) [OF sizes_small(3,8)]) (rule in_clock_font, simp)
  ultimately show ?thesis unfolding show_symbols_def by (simp only: list.set insert_iff empty_iff) blast
qed

lemma show_basic_safe:
  assumes "text_ok w" "time_string w = Some s" "call \<in> set (show_basic s w)"
  shows "call_safe call"
proof -
  have "CHR ''-'' \<in> printable" by (simp add: printable_def)
  then have "set (battString w) \<subseteq> printable" "set (stepString w) \<subseteq> printable"
    using assms(1) digits_printable by (simp_all only: text_ok_def) blast+
  then have "call_safe (Show_string 190 10 (battString w) Font_7x10 (Theme w) (Background w))"
    "call_safe (Show_string 105 180 (stepString w) Font_11x18 (Theme w) (Background w))"
    by (intro call_safe_string(1) [OF sizes_small(1,4)] call_safe_string(1) [OF sizes_small(2,6)] in_font_printable; blast)+
  moreover have "call_safe (Show_date 65 120 s Font_11x18 (Theme w) (Background w))"
    by (rule call_safe_string(2) [OF sizes_small(2,5)]) (use assms(1,2) in_font_printable(2) in \<open>unfold text_ok_def, blast\<close>)
  moreover have "call_safe (Show_time 40 60 s Clock_font (Theme w) (Background w))"
    by (rule call_safe_time [OF sizes_small(3,7)]) (use assms(1,2) in_clock_font in \<open>unfold text_ok_def, blast\<close>)
  ultimately show ?thesis using assms(3) unfolding show_basic_def by (simp only: list.set insert_iff empty_iff) blast
qed

lemma month_label_safe: "call_safe (Show_date 109 120 (month_label b) Font_11x18 fg bg)"
proof -
  have "set (month_label b) \<subseteq> printable" by (simp add: month_label_def printable_def)
  then show ?thesis using in_font_printable(2) by (intro call_safe_string(2) [OF sizes_small(2,5)]) blast
qed

subsection \<open>The invariant of the running watch\<close>

definition watch_inv :: "watch_system \<Rightarrow> bool" where
  "watch_inv s \<longleftrightarrow> watch_ok (w_app s) \<and> text_ok (w_app s) \<and> rtc_good (w_rtc s)
     \<and> (time_string (w_app s) = None \<longrightarrow> fst (w_sem s) = 0 \<and> w_draw s \<noteq> Drawing)"

lemma buttons_text_ok: "text_ok w \<Longrightarrow> text_ok (up_btn w)" "text_ok w \<Longrightarrow> text_ok (down_btn w)"
  "text_ok w \<Longrightarrow> text_ok (snd (serial_char ch w))" "text_ok (w\<lparr>menu_index := m\<rparr>) = text_ok w"
  by (auto simp: text_ok_def up_btn_def down_btn_def serial_char_def Let_def split: option.split)

lemma getValues_pass_text:
  assumes "watch_ok w" "text_ok w" "rtc_good r" "getValues_pass ax ay az adc k r w = Some w'"
  shows "text_ok w'"
proof -
  obtain n where n: "get_steps ax ay az (steps w) = Some n"
    using assms(4) by (cases "get_steps ax ay az (steps w)") (simp_all add: getValues_pass_def Let_def)
  then have "n = steps w \<or> n = steps w + 1" by (auto simp: get_steps_def Let_def split: if_split_asm)
  then have "set (itoa n) \<subseteq> digits" using assms(1) by (intro itoa_digits(1)) (auto simp: watch_ok_def)
  moreover have "w' = w\<lparr>time_string := Some (ctime_r (libc_time k r)), steps := n, stepString := itoa n,
    Batt := batt_value adc, battString := itoa (uint (batt_value adc) - 1)\<rparr>"
    using assms(4) n by (simp add: getValues_pass_def Let_def)
  ultimately show ?thesis
    using assms(2) itoa_digits(2) ctime_chars [OF assms(3), of k] by (simp add: text_ok_def)
qed

text \<open>The round of the screen over the variables it starts from.\<close>

lemma showValues_pass_eq:
  assumes "watch_ok w"
  defines "pre \<equiv> if themeChanged w then show_symbols w else []" and "w0 \<equiv> w\<lparr>themeChanged := False\<rparr>"
    and "fg \<equiv> Theme w" and "bg \<equiv> Background w"
  shows "showValues_pass w =
    (if menu_index w = 1 then
       Some (pre @ show_number 40 60 60 (hoursbutton w) (itoa (Hour w)) Clock_font bg fg,
             w0\<lparr>Hour_str := itoa (Hour w), overrun := overrun w \<or> 10 \<le> Hour w\<rparr>)
     else if menu_index w = 2 then
       Some (pre @ show_number 40 60 60 (hoursbutton w) (Hour_str w) Clock_font fg bg
             @ show_number 100 120 60 (minutesbutton w) (itoa (Minute w)) Clock_font bg fg,
             w0\<lparr>Minute_str := itoa (Minute w), overrun := overrun w \<or> 10 \<le> Minute w\<rparr>)
     else if menu_index w = 3 then
       Some (pre @ show_number 100 120 60 (minutesbutton w) (Minute_str w) Clock_font fg bg
             @ show_number 160 180 60 (secondsbutton w) (itoa (Second w)) Clock_font bg fg,
             w0\<lparr>Second_str := itoa (Second w), overrun := overrun w \<or> 10 \<le> Second w\<rparr>)
     else if menu_index w = 4 then
       Some (pre @ show_number 160 180 60 (secondsbutton w) (Second_str w) Clock_font fg bg
             @ [Show_date 109 120 (month_label (monthbutton w)) Font_11x18 bg fg], w0)
     else if menu_index w = 5 then
       Some (pre @ show_number 153 164 120 (daysbutton w) (itoa (Day w)) Font_11x18 bg fg,
             w0\<lparr>Day_str := itoa (Day w), overrun := overrun w \<or> 10 \<le> Day w\<rparr>)
     else (case time_string w of None \<Rightarrow> None | Some s \<Rightarrow> Some (pre @ show_basic s w, w0)))"
proof -
  have f: "fits2 (itoa (Hour w)) \<longleftrightarrow> Hour w < 10" "fits2 (itoa (Minute w)) \<longleftrightarrow> Minute w < 10"
    "fits2 (itoa (Second w)) \<longleftrightarrow> Second w < 10" "fits2 (itoa (Day w)) \<longleftrightarrow> Day w < 10"
    using assms(1) by (simp_all add: fits2_itoa watch_ok_def)
  have w: "(if themeChanged w then w0 else w) = w0" by (cases w) (simp add: w0_def)
  have basic: "show_basic s w0 = show_basic s w" for s by (simp add: show_basic_def w0_def)
  have fields: "menu_index w0 = menu_index w" "Hour w0 = Hour w" "Minute w0 = Minute w" "Second w0 = Second w" "Day w0 = Day w"
    "hoursbutton w0 = hoursbutton w" "minutesbutton w0 = minutesbutton w" "secondsbutton w0 = secondsbutton w"
    "monthbutton w0 = monthbutton w" "daysbutton w0 = daysbutton w" "Hour_str w0 = Hour_str w" "Minute_str w0 = Minute_str w"
    "Second_str w0 = Second_str w" "time_string w0 = time_string w" "overrun w0 = overrun w"
    by (simp_all add: w0_def)
  show ?thesis
    unfolding showValues_pass_def Let_def pre_def [symmetric] w0_def [symmetric] w fg_def [symmetric] bg_def [symmetric]
    by (simp add: fields f basic not_less split: option.split)
qed

lemma text_ok_updates:
  "text_ok w \<Longrightarrow> text_ok (w\<lparr>themeChanged := b\<rparr>)"
  "text_ok w \<Longrightarrow> set u \<subseteq> digits \<Longrightarrow> text_ok (w\<lparr>themeChanged := b, Hour_str := u, overrun := c\<rparr>)"
  "text_ok w \<Longrightarrow> set u \<subseteq> digits \<Longrightarrow> text_ok (w\<lparr>themeChanged := b, Minute_str := u, overrun := c\<rparr>)"
  "text_ok w \<Longrightarrow> set u \<subseteq> digits \<Longrightarrow> text_ok (w\<lparr>themeChanged := b, Second_str := u, overrun := c\<rparr>)"
  "text_ok w \<Longrightarrow> set u \<subseteq> digits \<Longrightarrow> text_ok (w\<lparr>themeChanged := b, Day_str := u, overrun := c\<rparr>)"
  by (simp_all add: text_ok_def)

lemma showValues_pass_spec:
  assumes ok: "watch_ok w" "text_ok w" and pass: "showValues_pass w = Some (calls, w')"
  shows "text_ok w'" and "\<And>call. call \<in> set calls \<Longrightarrow> call_safe call"
    and "overrun w' \<longleftrightarrow> overrun w \<or> menu_index w = 1 \<and> 10 \<le> Hour w \<or> menu_index w = 2 \<and> 10 \<le> Minute w
       \<or> menu_index w = 3 \<and> 10 \<le> Second w \<or> menu_index w = 5 \<and> 10 \<le> Day w"
proof -
  have t: "set (itoa (Hour w)) \<subseteq> digits" "set (itoa (Minute w)) \<subseteq> digits" "set (itoa (Second w)) \<subseteq> digits" "set (itoa (Day w)) \<subseteq> digits"
    using ok(1) by (simp_all add: itoa_digits(1) watch_ok_def)
  have d: "set (Hour_str w) \<subseteq> digits" "set (Minute_str w) \<subseteq> digits" "set (Second_str w) \<subseteq> digits"
    using ok(2) by (simp_all add: text_ok_def)
  have sym: "call_safe call" if "call \<in> set (if themeChanged w then show_symbols w else [])" for call
    using that show_symbols_safe by (cases "themeChanged w") simp_all
  have num: "call_safe call" if "call \<in> set (show_number x x' 60 b u Clock_font fg bg)" "set u \<subseteq> digits" for call x x' b u fg bg
    by (rule show_number_safe [OF that(2) _ that(1)]) simp
  have day: "call_safe call" if "call \<in> set (show_number x x' 120 b (itoa (Day w)) Font_11x18 fg bg)" for call x x' b fg bg
    by (rule show_number_safe [OF t(4) _ that]) simp
  note pass = pass [unfolded showValues_pass_eq [OF ok(1)]]
  consider "menu_index w = 1" | "menu_index w = 2" | "menu_index w = 3" | "menu_index w = 4" | "menu_index w = 5"
    | s where "menu_index w \<notin> {1, 2, 3, 4, 5}" "time_string w = Some s"
    using pass by (cases "time_string w") (auto split: if_split_asm)
  then have "text_ok w' \<and> (\<forall>call\<in>set calls. call_safe call)
    \<and> (overrun w' \<longleftrightarrow> overrun w \<or> menu_index w = 1 \<and> 10 \<le> Hour w \<or> menu_index w = 2 \<and> 10 \<le> Minute w
       \<or> menu_index w = 3 \<and> 10 \<le> Second w \<or> menu_index w = 5 \<and> 10 \<le> Day w)"
  proof cases
    case 1
    with pass show ?thesis using sym num t(1) ok(2) by (auto simp: text_ok_updates split del: if_split)
  next
    case 2
    with pass show ?thesis using sym num t(2) d(1) ok(2) by (auto simp: text_ok_updates split del: if_split)
  next
    case 3
    with pass show ?thesis using sym num t(3) d(2) ok(2) by (auto simp: text_ok_updates split del: if_split)
  next
    case 4
    with pass show ?thesis using sym num d(3) ok(2) month_label_safe by (auto simp: text_ok_updates split del: if_split)
  next
    case 5
    with pass show ?thesis using sym day t(4) ok(2) by (auto simp: text_ok_updates split del: if_split)
  next
    case (6 s)
    with pass show ?thesis using sym ok(2) show_basic_safe [OF ok(2) 6(2)] by (auto simp: text_ok_updates split del: if_split)
  qed
  then show "text_ok w'" "\<And>call. call \<in> set calls \<Longrightarrow> call_safe call"
    "overrun w' \<longleftrightarrow> overrun w \<or> menu_index w = 1 \<and> 10 \<le> Hour w \<or> menu_index w = 2 \<and> 10 \<le> Minute w
       \<or> menu_index w = 3 \<and> 10 \<le> Second w \<or> menu_index w = 5 \<and> 10 \<le> Day w" by blast+
qed

end
