(* ===== verification/Watch_Theorems.thy ===== *)
theory Watch_Theorems
  imports Watch_Screen Ipc_Theorems
begin

section \<open>The running watch\<close>

text \<open>
  Every step keeps the invariant; then the square root of the step counter, the battery, and the properties of the
  watch and of the thread of its serial line.
\<close>

lemma watch_step_inv: "watch_step s s' \<Longrightarrow> watch_inv s \<Longrightarrow> watch_inv s'"
proof (induction rule: watch_step.induct)
  case (select s k r w)
  have w: "w = (w_app s)\<lparr>menu_index := menu_index w\<rparr>" "watch_ok w" "rtc_good r"
    using select_btn_inv [OF _ _ select(1)] select(2) by (simp_all add: watch_inv_def)
  have "text_ok w" "time_string w = time_string (w_app s)"
    by (subst w(1), use select(2) in \<open>simp add: watch_inv_def buttons_text_ok(4)\<close>) (subst w(1), simp)
  then show ?case using w select(2) by (simp add: watch_inv_def)
next
  case (get_values ax ay az adc s w)
  then show ?case using getValues_pass_ok [OF _ get_values(1)] getValues_pass_text [OF _ _ _ get_values(1)] by (simp add: watch_inv_def)
next
  case (draw s calls w)
  then show ?case
    using showValues_pass_ok [OF _ draw(2)] showValues_pass_spec(1) [OF _ _ draw(2)] by (auto simp: watch_inv_def)
qed (simp_all add: watch_inv_def up_btn_ok down_btn_ok serial_char_ok buttons_text_ok)

lemma initial_system_inv: "rtc_good r \<Longrightarrow> watch_inv (initial_system k r)"
  by (auto simp: watch_inv_def initial_system_def watch_ok_def text_ok_def initial_watch_def theme_of_def intro: exI [of _ "CHR ''G''"])

lemma watch_reaches_inv:
  assumes "watch_reaches (initial_system k r) s" "rtc_good r"
  shows "watch_inv s"
  using assms(1) by induction (simp_all add: initial_system_inv [OF assms(2)] watch_step_inv)

subsection \<open>Square roots\<close>

lemma isqrt_spec: "isqrt n * isqrt n \<le> n \<and> n < (isqrt n + 1) * (isqrt n + 1)"
proof (induction n rule: isqrt.induct)
  case (1 n)
  show ?case
  proof (cases "n = 0")
    case False
    define q where "q = isqrt (n div 4)"
    have q: "q * q \<le> n div 4" "n div 4 < (q + 1) * (q + 1)" using 1 [OF False] by (simp_all add: q_def)
    have e: "isqrt n = (if (2 * q + 1) * (2 * q + 1) \<le> n then 2 * q + 1 else 2 * q)"
      using False by (subst isqrt.simps) (simp add: q_def Let_def)
    have "4 * (q * q) \<le> n" "n < 4 * ((q + 1) * (q + 1))" using q by linarith+
    then show ?thesis unfolding e by (simp add: algebra_simps)
  qed (simp add: isqrt.simps)
qed

lemma isqrt_ge: "k \<le> isqrt n \<longleftrightarrow> k * k \<le> n"
proof
  assume "k \<le> isqrt n"
  then have "k * k \<le> isqrt n * isqrt n" by (intro mult_le_mono)
  then show "k * k \<le> n" using isqrt_spec [of n] by simp
next
  assume k: "k * k \<le> n"
  show "k \<le> isqrt n"
  proof (rule ccontr)
    assume "\<not> k \<le> isqrt n"
    then have "(isqrt n + 1) * (isqrt n + 1) \<le> k * k" by (intro mult_le_mono) simp_all
    then show False using isqrt_spec [of n] k by simp
  qed
qed

lemma get_steps_eq:
  assumes "q = sint ax * sint ax + sint ay * sint ay + sint az * sint az"
  shows "get_steps ax ay az n =
    (if 2 ^ 31 \<le> q then None else if 21002 * 21002 \<le> q then (if n = 2 ^ 31 - 1 then None else Some (n + 1)) else Some n)"
proof (cases "2 ^ 31 \<le> q")
  case False
  have q0: "0 \<le> q" unfolding assms by simp
  have "\<not> 65536 \<le> isqrt (nat q)" using False unfolding isqrt_ge by simp
  then have u: "uint (of_nat (isqrt (nat q)) :: u16) = int (isqrt (nat q))" by (simp add: unsigned_of_nat take_bit_nat_eq_self)
  have h: "uint (word_of_int (int (isqrt (nat q)) div 2) :: u16) = int (isqrt (nat q)) div 2"
    using \<open>\<not> 65536 \<le> isqrt (nat q)\<close> by (simp add: unsigned_of_int take_bit_int_eq_self)
  have "threshold < int (isqrt (nat q)) div 2 \<longleftrightarrow> 21002 \<le> isqrt (nat q)" by (auto simp: threshold_def)
  also have "\<dots> \<longleftrightarrow> 21002 * 21002 \<le> q" unfolding isqrt_ge using q0 by (simp add: le_nat_iff)
  finally show ?thesis
    using False u h q0 unfolding get_steps_def Let_def assms [symmetric] by (simp add: sdiv_nonneg)
qed (simp add: get_steps_def assms)

lemma batt_value_eq:
  "uint (batt_value adc) = (if 1800 \<le> uint adc then (uint adc - 1800) * 100 div 806 else (uint adc + 63736) * 100 div 806)"
proof -
  have lt: "uint adc < 65536" using unsigned_less [of adc, where 'a = int] by simp
  have b: "uint (adc - 1800) = (if 1800 \<le> uint adc then uint adc - 1800 else uint adc + 63736)"
    by (simp add: uint_sub_if')
  have "0 \<le> uint (adc - 1800) * 100 div 806" by (intro pos_imp_zdiv_nonneg_iff [THEN iffD2]) simp_all
  moreover have "uint (adc - 1800) < 65536" using unsigned_less [of "adc - 1800", where 'a = int] by simp
  then have "uint (adc - 1800) * 100 div 806 < 65536" by linarith
  ultimately have "uint (word_of_int (uint (adc - 1800) * 100 div 806) :: u16) = uint (adc - 1800) * 100 div 806"
    by (simp only: unsigned_of_int) (simp add: take_bit_int_eq_self)
  moreover have "batt_value adc = word_of_int (uint (adc - 1800) * 100 div 806)"
    unfolding batt_value_def Let_def by (subst sdiv_nonneg) simp_all
  ultimately show ?thesis by (simp only: b if_distrib [of "\<lambda>i. i * 100 div 806"])
qed

subsection \<open>Properties\<close>

text \<open>C1. Whatever buttons are pressed, characters received and rounds of the two threads made, in any order, the variables of the
  menus stay in their ranges, the buttons' counters agree with the values they stand for, the clock stays set, and
  the drawing thread never starts to draw before there is a text to draw.\<close>

theorem watch_stays_in_range:
  assumes "watch_reaches (initial_system k r) s" "rtc_good r"
  shows "watch_ok (w_app s) \<and> rtc_good (w_rtc s) \<and> (w_draw s = Drawing \<longrightarrow> showValues_pass (w_app s) \<noteq> None)"
proof -
  have inv: "watch_inv s" by (rule watch_reaches_inv [OF assms])
  then show ?thesis by (auto simp: watch_inv_def showValues_pass_eq)
qed

text \<open>The presses of the buttons that choose month 0: select four times, up, down, select.\<close>

definition month_zero :: watch where
  "month_zero = initial_watch\<lparr>monthbutton := 0, Month := 0, menu_index := 5\<rparr>"

lemma reaches_by:
  "watch_reaches s0 s \<Longrightarrow> w_app s = w \<Longrightarrow> watch_reaches s0 (s\<lparr>w_app := up_btn w\<rparr>)"
  "watch_reaches s0 s \<Longrightarrow> w_app s = w \<Longrightarrow> watch_reaches s0 (s\<lparr>w_app := down_btn w\<rparr>)"
  "watch_reaches s0 s \<Longrightarrow> w_app s = w \<Longrightarrow> menu_index w < 5 \<Longrightarrow>
     watch_reaches s0 (s\<lparr>w_app := w\<lparr>menu_index := menu_index w + 1\<rparr>\<rparr>)"
proof -
  assume r: "watch_reaches s0 s" "w_app s = w"
  show "watch_reaches s0 (s\<lparr>w_app := up_btn w\<rparr>)" "watch_reaches s0 (s\<lparr>w_app := down_btn w\<rparr>)"
    using watch_reaches.step [OF r(1) watch_step.up] watch_reaches.step [OF r(1) watch_step.down] r(2) by simp_all
  assume "menu_index w < 5"
  then have "select_btn (w_kernel s) (w_rtc s) (w_app s) = Some (w_kernel s, w_rtc s, w\<lparr>menu_index := menu_index w + 1\<rparr>)"
    using r(2) by (simp add: select_btn_def)
  from watch_reaches.step [OF r(1) watch_step.select [OF this]]
  show "watch_reaches s0 (s\<lparr>w_app := w\<lparr>menu_index := menu_index w + 1\<rparr>\<rparr>)" by simp
qed

lemma reaches_month_zero: "watch_reaches (initial_system k r) ((initial_system k r)\<lparr>w_app := month_zero\<rparr>)"
proof -
  let ?s = "initial_system k r"
  have m: "watch_reaches ?s (?s\<lparr>w_app := initial_watch\<lparr>menu_index := int n\<rparr>\<rparr>)" if "n \<le> 4" for n
    using that
  proof (induction n)
    case 0
    have "?s\<lparr>w_app := initial_watch\<lparr>menu_index := int 0\<rparr>\<rparr> = ?s" by (simp add: initial_system_def initial_watch_def)
    then show ?case using watch_reaches.start by simp
  next
    case (Suc n)
    then show ?case using reaches_by(3) [of ?s "?s\<lparr>w_app := initial_watch\<lparr>menu_index := int n\<rparr>\<rparr>"]
      by (simp add: initial_watch_def add.commute)
  qed
  from reaches_by(1) [OF m [of 4] refl]
  have "watch_reaches ?s (?s\<lparr>w_app := initial_watch\<lparr>menu_index := 4, monthbutton := 1, Month := 1\<rparr>\<rparr>)"
    by (simp add: up_btn_def initial_watch_def)
  from reaches_by(2) [OF this refl]
  have "watch_reaches ?s (?s\<lparr>w_app := initial_watch\<lparr>menu_index := 4, monthbutton := 0, Month := 0\<rparr>\<rparr>)"
    by (simp add: down_btn_def initial_watch_def)
  from reaches_by(3) [OF this refl] show ?thesis by (simp add: initial_watch_def month_zero_def)
qed

text \<open>C2. The select button in the last menu sets the clock to the chosen time of the chosen day of 2022: in every state the
  watch can be in, the clock then stands at exactly that time, a day past the end of the month running on into the next one and day 0
  being the last one of the month before. Only month 0 reads outside the table of the months, and the buttons do reach
  month 0: the down button lets the counter go from 1 to 0 before its test for a negative one.\<close>

theorem select_sets_the_clock:
  assumes good: "rtc_good r"
  shows "(\<forall>s. watch_reaches (initial_system k r) s \<and> menu_index (w_app s) = 5 \<longrightarrow>
      (if Month (w_app s) = 0 then select_btn (w_kernel s) (w_rtc s) (w_app s) = None
       else \<exists>k' r'. select_btn (w_kernel s) (w_rtc s) (w_app s) = Some (k', r', (w_app s)\<lparr>menu_index := 0\<rparr>)
         \<and> rtc_local k' r' = gmtime_r (tm_seconds (chosen (w_app s)))
         \<and> (tm_ok (chosen (w_app s)) \<longrightarrow> rtc_local k' r' = tm_complete (chosen (w_app s)))))
    \<and> (\<exists>s. watch_reaches (initial_system k r) s \<and> menu_index (w_app s) = 5 \<and> Month (w_app s) = 0)"
proof (intro conjI allI impI, elim conjE)
  fix s assume s: "watch_reaches (initial_system k r) s" "menu_index (w_app s) = 5"
  have inv: "watch_inv s" by (rule watch_reaches_inv [OF s(1) good])
  have loc: "rtc_local k' r' = gmtime_r t" if "libc_time k' r' = t - 28800" for k' r' t
    using that by (simp add: rtc_local_def localtime_r_def RT_LIBC_FIXED_TIMEZONE_def)
  have ok: "gmtime_r (tm_seconds (chosen (w_app s))) = tm_complete (chosen (w_app s))" if "tm_ok (chosen (w_app s))"
    using gmtime_tm_seconds [OF that] by (simp add: chosen_def tm_complete_def)
  have "rtc_runs (w_kernel s) (w_rtc s)" "watch_ok (w_app s)"
    using inv by (simp_all add: watch_inv_def rtc_good_def rtc_runs_init)
  from select_last_menu [OF this s(2)]
  show "if Month (w_app s) = 0 then select_btn (w_kernel s) (w_rtc s) (w_app s) = None
       else \<exists>k' r'. select_btn (w_kernel s) (w_rtc s) (w_app s) = Some (k', r', (w_app s)\<lparr>menu_index := 0\<rparr>)
         \<and> rtc_local k' r' = gmtime_r (tm_seconds (chosen (w_app s)))
         \<and> (tm_ok (chosen (w_app s)) \<longrightarrow> rtc_local k' r' = tm_complete (chosen (w_app s)))"
    using loc ok by (auto split: if_split_asm)
next
  show "\<exists>s. watch_reaches (initial_system k r) s \<and> menu_index (w_app s) = 5 \<and> Month (w_app s) = 0"
    using reaches_month_zero [of k r] by (intro exI conjI) (assumption, simp_all add: month_zero_def)
qed


text \<open>C27. What a round of the reading thread makes of the sensors. A step is counted exactly when the acceleration is at least 21002
  (1.28 g), and the round has no result when the sum of the squares overflows, as a shock of 2 g on two axes makes it. The
  battery shows one percent less than the share of the range of the converter from 1800 to 2606, and below that range, with an
  empty battery, thousands of percent.\<close>

theorem sensor_values:
  "getValues_pass ax ay az adc k r w =
    (let q = sint ax * sint ax + sint ay * sint ay + sint az * sint az;
         n = (if 21002 * 21002 \<le> q then steps w + 1 else steps w);
         percent = (if 1800 \<le> uint adc then (uint adc - 1800) * 100 div 806 else (uint adc + 63736) * 100 div 806)
     in if 2 ^ 31 \<le> q \<or> n = steps w + 1 \<and> steps w = 2 ^ 31 - 1 then None
        else Some (w\<lparr>time_string := Some (ctime_r (libc_time k r)), steps := n, stepString := itoa n,
               Batt := batt_value adc, battString := itoa (percent - 1)\<rparr>))"
  unfolding getValues_pass_def Let_def get_steps_eq [OF refl] batt_value_eq [symmetric] by (simp add: batt_value_eq [symmetric])

theorem watch_stays_in_range_witness:
  "\<forall>k. watch_ok (w_app ((initial_system k \<lparr>rtc_init_ok = True, rtc_init_tick = 0, rtc_init_time = 0\<rparr>)\<lparr>w_app := month_zero\<rparr>))"
proof
  fix k :: kernel
  show "watch_ok (w_app ((initial_system k \<lparr>rtc_init_ok = True, rtc_init_tick = 0, rtc_init_time = 0\<rparr>)\<lparr>w_app := month_zero\<rparr>))"
    using watch_stays_in_range [OF reaches_month_zero, of "\<lparr>rtc_init_ok = True, rtc_init_tick = 0, rtc_init_time = 0\<rparr>" k]
    by (simp add: rtc_good_def)
qed

theorem select_sets_the_clock_witness:
  "\<forall>k. select_btn k \<lparr>rtc_init_ok = True, rtc_init_tick = 0, rtc_init_time = 0\<rparr> month_zero = None"
proof
  fix k :: kernel
  let ?r = "\<lparr>rtc_init_ok = True, rtc_init_tick = 0, rtc_init_time = 0\<rparr>"
  have "rtc_good ?r" by (simp add: rtc_good_def)
  from select_sets_the_clock [OF this, of k] reaches_month_zero [of k ?r]
  show "select_btn k ?r month_zero = None" by (auto simp: month_zero_def initial_system_def dest: spec [of _ "initial_system k ?r\<lparr>w_app := month_zero\<rparr>"])
qed


subsection \<open>The thread of the serial line\<close>




end
