(* ===== verification/Sensor.thy ===== *)
theory Sensor
  imports Prelude
begin

section \<open>The motion sensor (\<open>applications/MPU6050.c\<close>)\<close>

text \<open>
  What the driver does on the bus to the MPU6050, as a list of events: acknowledge on or off, start, address,
  bytes sent and received, stop, and the conditions it waits for. The bytes the sensor sends are a function
  of their number in the transfer. The settings of the pins, and the temperature (not used, in floating point), are not modelled.
\<close>

datatype i2c_wait = Master_mode | Transmitter_selected | Receiver_selected | Byte_transmitted | Txe | Rxne

datatype i2c_event =
    Bus_init u32 u16 | Pause nat
  | Acknowledge bool | Start | Address u8 bool | Send_data u8 | Receive_data | Stop
  | Await i2c_wait

definition MPU_SAMPLE_RATE_REG :: u8 where "MPU_SAMPLE_RATE_REG = 0x19"
definition MPU_CFG_REG :: u8 where "MPU_CFG_REG = 0x1A"
definition MPU_GYRO_CFG_REG :: u8 where "MPU_GYRO_CFG_REG = 0x1B"
definition MPU_ACCEL_CFG_REG :: u8 where "MPU_ACCEL_CFG_REG = 0x1C"
definition MPU_FIFO_EN_REG :: u8 where "MPU_FIFO_EN_REG = 0x23"
definition MPU_INTBP_CFG_REG :: u8 where "MPU_INTBP_CFG_REG = 0x37"
definition MPU_INT_EN_REG :: u8 where "MPU_INT_EN_REG = 0x38"
definition MPU_ACCEL_XOUTH_REG :: u8 where "MPU_ACCEL_XOUTH_REG = 0x3B"
definition MPU_GYRO_XOUTH_REG :: u8 where "MPU_GYRO_XOUTH_REG = 0x43"
definition MPU_USER_CTRL_REG :: u8 where "MPU_USER_CTRL_REG = 0x6A"
definition MPU_PWR_MGMT1_REG :: u8 where "MPU_PWR_MGMT1_REG = 0x6B"
definition MPU_PWR_MGMT2_REG :: u8 where "MPU_PWR_MGMT2_REG = 0x6C"
definition MPU_DEVICE_ID_REG :: u8 where "MPU_DEVICE_ID_REG = 0x75"
definition MPU_ADDR :: u8 where "MPU_ADDR = 0x68"

subsection \<open>Transfers\<close>

definition MPU_Write_Len :: "u8 \<Rightarrow> u8 \<Rightarrow> u8 list \<Rightarrow> u8 \<times> i2c_event list" where
  "MPU_Write_Len addr reg buf =
    (0, [Acknowledge True, Start, Await Master_mode, Address (push_bit 1 addr OR 0) False, Await Transmitter_selected,
         Await Txe, Send_data reg]
        @ concat (map (\<lambda>b. [Await Txe, Send_data b]) buf)
        @ [Await Txe, Stop])"

definition MPU_Read_Len :: "u8 \<Rightarrow> u8 \<Rightarrow> u8 \<Rightarrow> (nat \<Rightarrow> u8) \<Rightarrow> u8 \<times> u8 list \<times> i2c_event list" where
  "MPU_Read_Len addr reg len bus =
    (0, map bus [0..<unat len],
     [Acknowledge True, Start, Await Master_mode, Address (push_bit 1 addr OR 0) False, Await Transmitter_selected, Send_data reg,
      Start, Await Master_mode, Address (push_bit 1 addr OR 1) True, Await Receiver_selected]
     @ concat (map (\<lambda>i. [Await Rxne] @ (if int i = uint len - 2 then [Acknowledge False] else []) @ [Receive_data]) [0..<unat len])
     @ [Stop])"

definition MPU_Write_Byte :: "u8 \<Rightarrow> u8 \<Rightarrow> u8 \<times> i2c_event list" where
  "MPU_Write_Byte reg data =
    (0, [Acknowledge True, Start, Await Master_mode, Address (push_bit 1 MPU_ADDR OR 0) False, Await Transmitter_selected,
         Await Txe, Send_data reg, Await Byte_transmitted, Await Txe, Send_data data, Stop])"

definition MPU_Read_Byte :: "u8 \<Rightarrow> (nat \<Rightarrow> u8) \<Rightarrow> u8 \<times> i2c_event list" where
  "MPU_Read_Byte reg bus =
    (bus 0, [Acknowledge True, Start, Await Master_mode, Address (push_bit 1 MPU_ADDR OR 0) False, Await Transmitter_selected,
         Send_data reg, Await Byte_transmitted, Start, Await Master_mode, Address (push_bit 1 MPU_ADDR OR 1) True,
         Await Receiver_selected, Await Rxne, Receive_data, Stop])"

subsection \<open>Settings\<close>

definition write_registers :: "(u8 \<times> u8) list \<Rightarrow> i2c_event list" where
  "write_registers rs = concat (map (\<lambda>(reg, data). snd (MPU_Write_Byte reg data)) rs)"

definition MPU_Init :: "(nat \<Rightarrow> u8) \<Rightarrow> u8 \<times> i2c_event list" where
  "MPU_Init bus =
    (let init = [Bus_init 100000 0x02, Pause 200]
           @ write_registers [(MPU_PWR_MGMT1_REG, 0x00), (MPU_SAMPLE_RATE_REG, 0x07), (MPU_CFG_REG, 0x06),
               (MPU_ACCEL_CFG_REG, 0x00), (MPU_GYRO_CFG_REG, 0x00),
               (MPU_INT_EN_REG, 0x00), (MPU_USER_CTRL_REG, 0x00), (MPU_FIFO_EN_REG, 0x00), (MPU_INTBP_CFG_REG, 0x80)];
         (res, read) = MPU_Read_Byte MPU_DEVICE_ID_REG bus
     in if res = MPU_ADDR
        then (0, init @ read @ write_registers [(MPU_PWR_MGMT1_REG, 0x01), (MPU_PWR_MGMT2_REG, 0x00), (MPU_SAMPLE_RATE_REG, 0x07)])
        else (1, init @ read))"

definition MPU_Set_Gyro_Fsr :: "u8 \<Rightarrow> u8 \<times> i2c_event list" where
  "MPU_Set_Gyro_Fsr fsr = MPU_Write_Byte MPU_GYRO_CFG_REG (push_bit 3 fsr)"

definition MPU_Set_Accel_Fsr :: "u8 \<Rightarrow> u8 \<times> i2c_event list" where
  "MPU_Set_Accel_Fsr fsr = MPU_Write_Byte MPU_ACCEL_CFG_REG (push_bit 3 fsr)"

definition lpf_data :: "u16 \<Rightarrow> u8" where
  "lpf_data lpf =
    (if 188 \<le> lpf then 1 else if 98 \<le> lpf then 2 else if 42 \<le> lpf then 3 else if 20 \<le> lpf then 4
     else if 10 \<le> lpf then 5 else 6)"

definition MPU_Set_LPF :: "u16 \<Rightarrow> u8 \<times> i2c_event list" where
  "MPU_Set_LPF lpf = MPU_Write_Byte MPU_CFG_REG (lpf_data lpf)"

definition clamp_rate :: "u16 \<Rightarrow> u16" where
  "clamp_rate rate = (let rate = (if 1000 < rate then 1000 else rate) in if rate < 4 then 4 else rate)"

definition rate_data :: "u16 \<Rightarrow> u8" where
  "rate_data rate = word_of_int (1000 div uint rate - 1)"

definition MPU_Set_Rate :: "u16 \<Rightarrow> u8 \<times> i2c_event list" where
  "MPU_Set_Rate rate =
    (let rate = clamp_rate rate;
         (_, w) = MPU_Write_Byte MPU_SAMPLE_RATE_REG (rate_data rate);
         (res, l) = MPU_Set_LPF (rate div 2)
     in (res, w @ l))"

subsection \<open>Readings\<close>

definition be16 :: "u8 list \<Rightarrow> nat \<Rightarrow> u16" where
  "be16 buf i = push_bit 8 (ucast (buf ! i)) OR ucast (buf ! Suc i)"

definition MPU_Get_Gyroscope :: "(nat \<Rightarrow> u8) \<Rightarrow> u8 \<times> (u16 \<times> u16 \<times> u16) option \<times> i2c_event list" where
  "MPU_Get_Gyroscope bus =
    (case MPU_Read_Len MPU_ADDR MPU_GYRO_XOUTH_REG 6 bus of
       (res, buf, ev) \<Rightarrow> (res, if res = 0 then Some (be16 buf 0, be16 buf 2, be16 buf 4) else None, ev))"

definition MPU_Get_Accelerometer :: "(nat \<Rightarrow> u8) \<Rightarrow> u8 \<times> (u16 \<times> u16 \<times> u16) option \<times> i2c_event list" where
  "MPU_Get_Accelerometer bus =
    (case MPU_Read_Len MPU_ADDR MPU_ACCEL_XOUTH_REG 6 bus of
       (res, buf, ev) \<Rightarrow> (res, if res = 0 then Some (be16 buf 0, be16 buf 2, be16 buf 4) else None, ev))"

subsection \<open>What the functions achieve\<close>

text \<open>The two bytes make the number they stand for, the high one first.\<close>

lemma be16_value: "uint (be16 buf i) = 256 * uint (buf ! i) + uint (buf ! Suc i)"
proof -
  define a b where "a = buf ! i" and "b = buf ! Suc i"
  have ab: "uint a < 256" "uint b < 256" using unsigned_less [of a, where 'a = int] unsigned_less [of b, where 'a = int] by simp_all
  have "push_bit 8 (ucast a :: u16) AND ucast b = 0"
    by (rule bit_word_eqI) (auto simp: bit_simps dest: bit_imp_le_length)
  then have "be16 buf i = push_bit 8 (ucast a) + ucast b"
    unfolding be16_def a_def [symmetric] b_def [symmetric] by (simp add: disjunctive_add_eq_or)
  also have "\<dots> = word_of_int (256 * uint a + uint b)" by (simp add: push_bit_eq_mult flip: ucast_eq)
  finally have "uint (be16 buf i) = uint (word_of_int (256 * uint a + uint b) :: u16)" by (rule arg_cong)
  also have "\<dots> = 256 * uint a + uint b" using ab by (simp only: unsigned_of_int) (simp add: take_bit_int_eq_self)
  finally show ?thesis by (simp add: a_def b_def)
qed

text \<open>The divider of the sample rate is the largest with which the sensor samples at least as often as was asked for.\<close>

lemma sample_rate:
  assumes "r = uint (clamp_rate rate)" "d = uint (rate_data (clamp_rate rate))"
  shows "4 \<le> r" "r \<le> 1000" "d < 250" "r * (d + 1) \<le> 1000" "1000 < r * (d + 2)"
proof -
  show r: "4 \<le> r" "r \<le> 1000" unfolding assms clamp_rate_def Let_def by (auto simp: word_less_def word_le_def)
  have q: "1 \<le> 1000 div r" "1000 div r \<le> 250"
    using r zdiv_mono2 [of 1000 r 1000] zdiv_mono2 [of 1000 4 r] by simp_all
  have d: "d = 1000 div r - 1" using q unfolding assms rate_data_def by (simp only: unsigned_of_int) (simp add: take_bit_int_eq_self)
  define x where "x = r * (1000 div r)"
  have e: "x + 1000 mod r = 1000" unfolding x_def by (rule mult_div_mod_eq)
  have m: "0 \<le> 1000 mod r" "1000 mod r < r" using r by simp_all
  then have x: "x \<le> 1000" "1000 < x + r" using e by simp_all
  have rd: "r * (d + 1) = x" "r * (d + 2) = x + r" by (simp_all add: d x_def algebra_simps)
  show "d < 250" using d q by simp
  show "r * (d + 1) \<le> 1000" "1000 < r * (d + 2)" unfolding rd using x by simp_all
qed

end
