(* ===== verification/Msh.thy ===== *)
theory Msh
  imports Prelude "HOL-Library.Monad_Syntax"
begin

section \<open>The shell (\<open>components/finsh/shell.c\<close>, \<open>msh.c\<close>)\<close>

text \<open>
  The line editor of the shell and the commands it runs, in the configuration with history and without the C
  interpreter. Strings are arrays of bytes with a zero at the end; an access outside an array, or a string
  without a zero, has no result. What is printed is the list of bytes given to the console, and a command that is run is
  recorded with its arguments.
\<close>

subsection \<open>Arrays and strings\<close>

definition c_string :: "nat \<Rightarrow> u8 list \<Rightarrow> u8 list option" where
  "c_string off xs = (if 0 \<in> set (drop off xs) then Some (takeWhile (\<lambda>c. c \<noteq> 0) (drop off xs)) else None)"

definition mem_move :: "nat \<Rightarrow> nat \<Rightarrow> nat \<Rightarrow> u8 list \<Rightarrow> u8 list option" where
  "mem_move dst src n xs =
    (if dst + n \<le> length xs \<and> src + n \<le> length xs
     then Some (take dst xs @ take n (drop src xs) @ drop (dst + n) xs) else None)"

definition mem_set :: "nat \<Rightarrow> u8 \<Rightarrow> u8 list \<Rightarrow> u8 list option" where
  "mem_set i c xs = (if i < length xs then Some (xs[i := c]) else None)"

text \<open>Whether \<open>strncmp\<close> finds two strings equal: \<open>n\<close> bytes, or up to their common end.\<close>

fun c_strncmp :: "u8 list \<Rightarrow> u8 list \<Rightarrow> nat \<Rightarrow> bool" where
  "c_strncmp xs ys 0 = True"
| "c_strncmp (x # xs) (y # ys) (Suc n) = (x = y \<and> (x = 0 \<or> c_strncmp xs ys n))"
| "c_strncmp xs ys (Suc n) = False"

definition chars :: "string \<Rightarrow> u8 list" where
  "chars s = map of_char s"

subsection \<open>The commands (\<open>msh.c\<close>)\<close>

abbreviation (input) FINSH_ARG_MAX :: nat where "FINSH_ARG_MAX \<equiv> 8"
abbreviation (input) FINSH_CMD_SIZE :: nat where "FINSH_CMD_SIZE \<equiv> 80"
abbreviation (input) FINSH_HISTORY_LINES :: nat where "FINSH_HISTORY_LINES \<equiv> 5"

record finsh_syscall =
  sc_name :: "u8 list"
  sc_desc :: "u8 list"
  sc_func :: nat

definition is_blank :: "u8 \<Rightarrow> bool" where
  "is_blank c \<longleftrightarrow> c = 0x20 \<or> c = 0x09"

definition is_command :: "finsh_syscall \<Rightarrow> bool" where
  "is_command index \<longleftrightarrow> c_strncmp (sc_name index) (chars ''__cmd_'') 6"

text \<open>The loops of \<open>msh_split\<close>, on the array \<open>cmd\<close> of the command from the place \<open>position\<close> on: blanks become zeros; a
  quoted argument goes to the next quote that has no backslash before it, a plain one to the next blank. Each gives the
  position it ends at; reading outside the array gives None.\<close>

function skip_blanks :: "nat \<Rightarrow> nat \<Rightarrow> u8 list \<Rightarrow> (nat \<times> u8 list) option" where
  "skip_blanks len position cmd =
    (if length cmd \<le> position then None
     else if is_blank (cmd ! position) \<and> position < len then skip_blanks len (position + 1) (cmd[position := 0])
     else Some (position, cmd))"
  by auto
termination by (relation "measure (\<lambda>(len, position, cmd). length cmd - position)") auto

function quoted_end :: "nat \<Rightarrow> nat \<Rightarrow> u8 list \<Rightarrow> nat option" where
  "quoted_end len position cmd =
    (if length cmd \<le> position then None
     else if cmd ! position \<noteq> 0x22 \<and> position < len then
       (if cmd ! position = 0x5C then
          (if length cmd \<le> position + 1 then None
           else quoted_end len (if cmd ! (position + 1) = 0x22 then position + 2 else position + 1) cmd)
        else quoted_end len (position + 1) cmd)
     else Some position)"
  by auto
termination by (relation "measure (\<lambda>(len, position, cmd). length cmd - position)") auto

function word_end :: "nat \<Rightarrow> nat \<Rightarrow> u8 list \<Rightarrow> nat option" where
  "word_end len position cmd =
    (if length cmd \<le> position then None
     else if \<not> is_blank (cmd ! position) \<and> position < len then word_end len (position + 1) cmd
     else Some position)"
  by auto
termination by (relation "measure (\<lambda>(len, position, cmd). length cmd - position)") auto

text \<open>The arguments found are places in the array. The flag tells of more than \<open>FINSH_ARG_MAX\<close>; the first argument bounds
  the number of rounds, each of which moves on.\<close>

primrec msh_split_loop :: "nat \<Rightarrow> nat \<Rightarrow> nat \<Rightarrow> nat list \<Rightarrow> u8 list \<Rightarrow> (nat list \<times> bool \<times> u8 list) option" where
  "msh_split_loop 0 len position argv cmd = None"
| "msh_split_loop (Suc rounds) len position argv cmd =
    (if len \<le> position then Some (argv, False, cmd)
     else do {
       (position, cmd) \<leftarrow> skip_blanks len position cmd;
       if FINSH_ARG_MAX \<le> length argv then Some (argv, True, cmd)
       else if len \<le> position then Some (argv, False, cmd)
       else if cmd ! position = 0x22 then do {
         position' \<leftarrow> quoted_end len (position + 1) cmd;
         if len \<le> position' then Some (argv @ [position + 1], False, cmd)
         else msh_split_loop rounds len (position' + 1) (argv @ [position + 1]) (cmd[position' := 0])
       }
       else do {
         position' \<leftarrow> word_end len position cmd;
         if len \<le> position' then Some (argv @ [position], False, cmd)
         else msh_split_loop rounds len position' (argv @ [position]) cmd
       }
     })"

definition msh_split :: "u8 list \<Rightarrow> nat \<Rightarrow> (nat list \<times> bool \<times> u8 list) option" where
  "msh_split cmd len = msh_split_loop (len + 1) len 0 [] cmd"

definition msh_get_cmd :: "finsh_syscall list \<Rightarrow> u8 list \<Rightarrow> nat \<Rightarrow> nat option" where
  "msh_get_cmd tab cmd n =
    map_option sc_func (List.find (\<lambda>index. is_command index
       \<and> c_strncmp (drop 6 (sc_name index) @ [0]) cmd n \<and> length (sc_name index) = 6 + n) tab)"

text \<open>What running a line comes to: nothing, a command with its arguments, or no command.\<close>

datatype msh_result = Msh_nothing | Msh_run nat "u8 list list" | Msh_not_found "u8 list"

text \<open>\<open>_msh_exec_cmd\<close>: None when the command is not there.\<close>

definition msh_exec_cmd :: "finsh_syscall list \<Rightarrow> u8 list \<Rightarrow> nat \<Rightarrow> (u8 list \<times> msh_result) option option" where
  "msh_exec_cmd tab cmd len = do {
     cmd0_size \<leftarrow> word_end len 0 cmd;
     if cmd0_size = 0 then Some None
     else (case msh_get_cmd tab cmd cmd0_size of
         None \<Rightarrow> Some None
       | Some cmd_func \<Rightarrow> do {
           (argv, many, cmd) \<leftarrow> msh_split cmd len;
           if argv = [] then Some None
           else do {
             args \<leftarrow> those (map (\<lambda>i. c_string i cmd) argv);
             let out = (if many then chars ''Too many args ! We only Use:'' @ [0x0A] @ concat (map (\<lambda>a. a @ [0x20]) args) @ [0x0A]
                        else []) in
             Some (Some (out, Msh_run cmd_func args))
           }
         })
   }"

text \<open>\<open>msh_exec\<close>: what is printed, and what is run. The command lies in its array from the first byte that is no blank.\<close>

definition msh_exec :: "finsh_syscall list \<Rightarrow> u8 list \<Rightarrow> nat \<Rightarrow> (u8 list \<times> msh_result) option" where
  "msh_exec tab cmd len = (
     let n = length (takeWhile is_blank (take len cmd));
         cmd = drop n cmd;
         len = len - n
     in if len = 0 then Some ([], Msh_nothing)
        else do {
          r \<leftarrow> msh_exec_cmd tab cmd len;
          case r of
            Some x \<Rightarrow> Some x
          | None \<Rightarrow> do {
              s \<leftarrow> c_string 0 cmd;
              let name = takeWhile (\<lambda>c. c \<noteq> 0x20) s in
              Some (name @ chars '': command not found.'' @ [0x0A], Msh_not_found name)
            }
        })"

subsection \<open>Completion\<close>

fun str_common :: "u8 list \<Rightarrow> u8 list \<Rightarrow> nat" where
  "str_common (x # xs) (y # ys) = (if x \<noteq> 0 \<and> y \<noteq> 0 \<and> x = y then str_common xs ys + 1 else 0)"
| "str_common _ _ = 0"

definition msh_help :: "finsh_syscall list \<Rightarrow> u8 list" where
  "msh_help tab =
    chars ''RT-Thread shell commands:'' @ [0x0A]
    @ concat (map (\<lambda>index. drop 6 (sc_name index) @ replicate (16 - length (drop 6 (sc_name index))) 0x20
        @ chars '' - '' @ sc_desc index @ [0x0A]) (filter is_command tab))
    @ [0x0A]"

text \<open>One round of the loop of \<open>msh_auto_complete\<close>: the first name that fits, the length common to all that do, what is printed.\<close>

definition complete_round :: "u8 list \<Rightarrow> finsh_syscall \<Rightarrow> u8 list option \<times> nat \<times> u8 list \<Rightarrow> u8 list option \<times> nat \<times> u8 list" where
  "complete_round prefix index st =
    (case st of (name_ptr, min_length, out) \<Rightarrow>
       let cmd_name = drop 6 (sc_name index)
       in if is_command index \<and> c_strncmp prefix (cmd_name @ [0]) (length prefix) then
            let (name_ptr, min_length) = (if min_length = 0 then (Some cmd_name, length cmd_name) else (name_ptr, min_length));
                len = str_common (the name_ptr) cmd_name;
                min_length = (if len < min_length then len else min_length)
            in (name_ptr, min_length, out @ cmd_name @ [0x0A])
          else st)"

definition msh_auto_complete :: "finsh_syscall list \<Rightarrow> u8 list \<Rightarrow> (u8 list \<times> u8 list) option" where
  "msh_auto_complete tab line = do {
     prefix \<leftarrow> c_string 0 line;
     if prefix = [] then Some (msh_help tab, line)
     else (case fold (complete_round prefix) tab (None, 0, []) of (name_ptr, min_length, out) \<Rightarrow>
         (case name_ptr of
            None \<Rightarrow> Some (out, line)
          | Some name \<Rightarrow>
              if length line < min_length then None
              else Some (out, take min_length name @ drop min_length line)))
   }"

end
