(* ===== verification/Shell.thy ===== *)
theory Shell
  imports Msh Ring
begin

section \<open>The line editor of the shell (\<open>components/finsh/shell.c\<close>)\<close>

text \<open>
  \<open>finsh_thread_entry\<close> handles one character at a time; \<open>finsh_char\<close> is that step. The line is an array of
  81 bytes, of which the last is never written. What is printed is appended to \<open>sh_out\<close>, the commands that
  were run to \<open>sh_runs\<close>.
\<close>

datatype input_stat = WAIT_NORMAL | WAIT_SPEC_KEY | WAIT_FUNC_KEY

record finsh_shell =
  sh_stat :: input_stat
  echo_mode :: bool
  prompt_mode :: bool
  current_history :: u16
  history_count :: u16
  cmd_history :: "u8 list list"
  sh_line :: "u8 list"
  line_position :: u16
  line_curpos :: u16
  sh_device :: "nat option"
  sh_out :: "u8 list"
  sh_runs :: "msh_result list"

text \<open>The shell as \<open>finsh_system_init\<close> leaves it, with the echo that \<open>finsh_thread_entry\<close> turns on.\<close>

definition new_shell :: finsh_shell where
  "new_shell = \<lparr>sh_stat = WAIT_NORMAL, echo_mode = False, prompt_mode = True, current_history = 0, history_count = 0,
     cmd_history = replicate FINSH_HISTORY_LINES (replicate FINSH_CMD_SIZE 0), sh_line = replicate (FINSH_CMD_SIZE + 1) 0,
     line_position = 0, line_curpos = 0, sh_device = None, sh_out = [], sh_runs = []\<rparr>"

definition say :: "u8 list \<Rightarrow> finsh_shell \<Rightarrow> finsh_shell" where
  "say s sh = sh\<lparr>sh_out := sh_out sh @ s\<rparr>"

definition finsh_get_prompt :: "finsh_shell \<Rightarrow> u8 list" where
  "finsh_get_prompt sh = (if prompt_mode sh then chars ''msh >'' else [])"

definition finsh_set_prompt_mode :: "bool \<Rightarrow> finsh_shell \<Rightarrow> finsh_shell" where
  "finsh_set_prompt_mode mode sh = sh\<lparr>prompt_mode := mode\<rparr>"

definition finsh_get_prompt_mode :: "finsh_shell \<Rightarrow> bool" where
  "finsh_get_prompt_mode = prompt_mode"

definition finsh_set_echo :: "u32 \<Rightarrow> finsh_shell \<Rightarrow> finsh_shell" where
  "finsh_set_echo echo sh = sh\<lparr>echo_mode := bit echo 0\<rparr>"

definition finsh_get_echo :: "finsh_shell \<Rightarrow> bool" where
  "finsh_get_echo = echo_mode"

subsection \<open>History\<close>

text \<open>The line as it is kept: \<open>line_position\<close> bytes, then zeros.\<close>

definition history_entry :: "finsh_shell \<Rightarrow> u8 list option" where
  "history_entry sh =
    (let n = unat (line_position sh)
     in if n \<le> FINSH_CMD_SIZE then Some (take n (sh_line sh) @ replicate (FINSH_CMD_SIZE - n) 0) else None)"

definition shell_push_history :: "finsh_shell \<Rightarrow> finsh_shell option" where
  "shell_push_history sh = do {
     sh \<leftarrow> (if line_position sh = 0 then Some sh
        else if 5 \<le> history_count sh then
          (if cmd_history sh ! (FINSH_HISTORY_LINES - 1) \<noteq> take FINSH_CMD_SIZE (sh_line sh) then do {
             entry \<leftarrow> history_entry sh;
             Some (sh\<lparr>cmd_history := tl (cmd_history sh) @ [entry], history_count := 5\<rparr>)
           } else Some sh)
        else
          (if history_count sh = 0 \<or> cmd_history sh ! (unat (history_count sh) - 1) \<noteq> take FINSH_CMD_SIZE (sh_line sh) then do {
             entry \<leftarrow> history_entry sh;
             Some (sh\<lparr>current_history := history_count sh,
                      cmd_history := (cmd_history sh)[unat (history_count sh) := entry],
                      history_count := history_count sh + 1\<rparr>)
           } else Some sh));
     Some (sh\<lparr>current_history := history_count sh\<rparr>)
   }"

definition shell_handle_history :: "finsh_shell \<Rightarrow> finsh_shell option" where
  "shell_handle_history sh = do {
     s \<leftarrow> c_string 0 (sh_line sh);
     Some (say (0x1B # chars ''[2K'' @ [0x0D] @ finsh_get_prompt sh @ s) sh)
   }"

text \<open>The line becomes that of \<open>current_history\<close>.\<close>

definition shell_recall :: "finsh_shell \<Rightarrow> finsh_shell option" where
  "shell_recall sh =
    (if length (cmd_history sh) \<le> unat (current_history sh) then None
     else do {
       let line = cmd_history sh ! unat (current_history sh) @ drop FINSH_CMD_SIZE (sh_line sh) in do {
       s \<leftarrow> c_string 0 line;
       shell_handle_history (sh\<lparr>sh_line := line, line_position := of_nat (length s), line_curpos := of_nat (length s)\<rparr>) }
     })"

definition key_up :: "finsh_shell \<Rightarrow> finsh_shell option" where
  "key_up sh =
    (if 0 < current_history sh then shell_recall (sh\<lparr>current_history := current_history sh - 1\<rparr>)
     else Some (sh\<lparr>current_history := 0\<rparr>))"

text \<open>The comparison is one of integers: without a history \<open>history_count - 1\<close> is negative.\<close>

definition key_down :: "finsh_shell \<Rightarrow> finsh_shell option" where
  "key_down sh =
    (if uint (current_history sh) < uint (history_count sh) - 1
     then shell_recall (sh\<lparr>current_history := current_history sh + 1\<rparr>)
     else if history_count sh \<noteq> 0 then shell_recall (sh\<lparr>current_history := history_count sh - 1\<rparr>)
     else Some sh)"

subsection \<open>Editing\<close>

definition key_left :: "finsh_shell \<Rightarrow> finsh_shell option" where
  "key_left sh =
    (if line_curpos sh \<noteq> 0 then Some ((say [0x08] sh)\<lparr>line_curpos := line_curpos sh - 1\<rparr>) else Some sh)"

definition key_right :: "finsh_shell \<Rightarrow> finsh_shell option" where
  "key_right sh =
    (if line_curpos sh < line_position sh then
       (if length (sh_line sh) \<le> unat (line_curpos sh) then None
        else Some ((say [sh_line sh ! unat (line_curpos sh)] sh)\<lparr>line_curpos := line_curpos sh + 1\<rparr>))
     else Some sh)"

definition shell_auto_complete :: "finsh_syscall list \<Rightarrow> finsh_shell \<Rightarrow> finsh_shell option" where
  "shell_auto_complete tab sh = do {
     (out, line) \<leftarrow> msh_auto_complete tab (sh_line sh);
     s \<leftarrow> c_string 0 line;
     Some (say ([0x0A] @ out @ finsh_get_prompt sh @ s) (sh\<lparr>sh_line := line\<rparr>))
   }"

definition key_tab :: "finsh_syscall list \<Rightarrow> finsh_shell \<Rightarrow> finsh_shell option" where
  "key_tab tab sh = do {
     sh \<leftarrow> shell_auto_complete tab (say (replicate (unat (line_curpos sh)) 0x08) sh);
     s \<leftarrow> c_string 0 (sh_line sh);
     Some (sh\<lparr>line_position := of_nat (length s), line_curpos := of_nat (length s)\<rparr>)
   }"

definition key_backspace :: "finsh_shell \<Rightarrow> finsh_shell option" where
  "key_backspace sh =
    (if line_curpos sh = 0 then Some sh
     else
       let p = line_position sh - 1;
           c = line_curpos sh - 1;
           sh = sh\<lparr>line_position := p, line_curpos := c\<rparr>
       in if c < p then do {
            line \<leftarrow> mem_move (unat c) (unat c + 1) (unat p - unat c) (sh_line sh);
            line \<leftarrow> mem_set (unat p) 0 line;
            s \<leftarrow> c_string (unat c) line;
            Some (say ([0x08] @ s @ [0x20, 0x20, 0x08] @ replicate (unat p - unat c + 1) 0x08) (sh\<lparr>sh_line := line\<rparr>))
          }
          else do {
            line \<leftarrow> mem_set (unat p) 0 (sh_line sh);
            Some (say [0x08, 0x20, 0x08] (sh\<lparr>sh_line := line\<rparr>))
          })"

definition key_enter :: "finsh_syscall list \<Rightarrow> finsh_shell \<Rightarrow> finsh_shell option" where
  "key_enter tab sh = do {
     sh \<leftarrow> shell_push_history sh;
     (out, result) \<leftarrow> msh_exec tab (sh_line sh) (unat (line_position sh));
     let sh = say ((if echo_mode sh then [0x0A] else []) @ out @ finsh_get_prompt sh) sh in
     Some (sh\<lparr>sh_runs := sh_runs sh @ [result], sh_line := replicate (FINSH_CMD_SIZE + 1) 0,
              line_position := 0, line_curpos := 0\<rparr>)
   }"

text \<open>After a character: the line starts again when it is full.\<close>

definition line_advance :: "finsh_shell \<Rightarrow> finsh_shell" where
  "line_advance sh =
    (let sh = sh\<lparr>line_position := line_position sh + 1, line_curpos := line_curpos sh + 1\<rparr>
     in if 80 \<le> line_position sh then sh\<lparr>line_position := 0, line_curpos := 0\<rparr> else sh)"

definition key_char :: "u8 \<Rightarrow> finsh_shell \<Rightarrow> finsh_shell option" where
  "key_char ch sh = (
     let sh = (if 80 \<le> line_position sh then sh\<lparr>line_position := 0\<rparr> else sh);
         p = unat (line_position sh);
         c = unat (line_curpos sh)
     in do {
       sh \<leftarrow> (if line_curpos sh < line_position sh then do {
            line \<leftarrow> mem_move (c + 1) c (p - c) (sh_line sh);
            line \<leftarrow> mem_set c ch line;
            s \<leftarrow> c_string c line;
            Some (say ((if echo_mode sh then s else []) @ replicate (p - c) 0x08) (sh\<lparr>sh_line := line\<rparr>))
          }
          else do {
            line \<leftarrow> mem_set p ch (sh_line sh);
            Some (say (if echo_mode sh then [ch] else []) (sh\<lparr>sh_line := line\<rparr>))
          });
       Some (line_advance sh)
     })"

definition key_plain :: "finsh_syscall list \<Rightarrow> u8 \<Rightarrow> finsh_shell \<Rightarrow> finsh_shell option" where
  "key_plain tab ch sh =
    (if ch = 0 \<or> ch = 0xFF then Some sh
     else if ch = 0x09 then key_tab tab sh
     else if ch = 0x7F \<or> ch = 0x08 then key_backspace sh
     else if ch = 0x0D \<or> ch = 0x0A then key_enter tab sh
     else key_char ch sh)"

definition finsh_char :: "finsh_syscall list \<Rightarrow> u8 \<Rightarrow> finsh_shell \<Rightarrow> finsh_shell option" where
  "finsh_char tab ch sh =
    (if ch = 0x1B then Some (sh\<lparr>sh_stat := WAIT_SPEC_KEY\<rparr>)
     else if sh_stat sh = WAIT_SPEC_KEY then
       (if ch = 0x5B then Some (sh\<lparr>sh_stat := WAIT_FUNC_KEY\<rparr>)
        else key_plain tab ch (sh\<lparr>sh_stat := WAIT_NORMAL\<rparr>))
     else if sh_stat sh = WAIT_FUNC_KEY then
       let sh = sh\<lparr>sh_stat := WAIT_NORMAL\<rparr>
       in (if ch = 0x41 then key_up sh
           else if ch = 0x42 then key_down sh
           else if ch = 0x44 then key_left sh
           else if ch = 0x43 then key_right sh
           else key_plain tab ch sh)
     else key_plain tab ch sh)"

definition finsh_chars :: "finsh_syscall list \<Rightarrow> u8 list \<Rightarrow> finsh_shell \<Rightarrow> finsh_shell option" where
  "finsh_chars tab chs sh = fold (\<lambda>ch r. Option.bind r (finsh_char tab ch)) chs (Some sh)"

definition finsh_start :: "finsh_shell \<Rightarrow> finsh_shell" where
  "finsh_start sh = (let sh = sh\<lparr>echo_mode := True\<rparr> in say (finsh_get_prompt sh) sh)"

end
