(* ===== verification/Shell_Safety.thy ===== *)
theory Shell_Safety
  imports Shell
begin

section \<open>The shell stays inside its arrays\<close>

text \<open>
  Splitting a line always ends and reads inside the array of the line; every key but the tab keeps the invariant
  \<open>shell_ok\<close> of the indices and the history, and has a result.
\<close>

subsection \<open>Splitting a line always ends\<close>

declare skip_blanks.simps [simp del] quoted_end.simps [simp del] word_end.simps [simp del]

definition zeros_kept :: "u8 list \<Rightarrow> u8 list \<Rightarrow> bool" where
  "zeros_kept xs ys \<longleftrightarrow> length ys = length xs \<and> (\<forall>i<length xs. xs ! i = 0 \<longrightarrow> ys ! i = 0)"

lemma zeros_kept_refl [simp]: "zeros_kept xs xs"
  by (simp add: zeros_kept_def)

lemma zeros_kept_trans: "zeros_kept xs ys \<Longrightarrow> zeros_kept ys zs \<Longrightarrow> zeros_kept xs zs"
  by (simp add: zeros_kept_def)

lemma zeros_kept_update [simp]: "zeros_kept xs (xs[i := 0])"
  by (cases "i < length xs") (auto simp: zeros_kept_def nth_list_update)

lemma skip_blanks_total:
  "len < length cmd \<Longrightarrow> position \<le> len \<Longrightarrow> \<exists>p cmd'. skip_blanks len position cmd = Some (p, cmd') \<and> position \<le> p \<and> p \<le> len
     \<and> zeros_kept cmd cmd' \<and> (p < len \<longrightarrow> \<not> is_blank (cmd' ! p))"
proof (induction len position cmd rule: skip_blanks.induct)
  case (1 len position cmd)
  show ?case
  proof (cases "is_blank (cmd ! position) \<and> position < len")
    case True
    then obtain p cmd' where "skip_blanks len (position + 1) (cmd[position := 0]) = Some (p, cmd')" "position + 1 \<le> p" "p \<le> len"
      "zeros_kept (cmd[position := 0]) cmd'" "p < len \<longrightarrow> \<not> is_blank (cmd' ! p)"
      using 1 by force
    then show ?thesis using True 1(2,3) zeros_kept_trans [OF zeros_kept_update]
      by (subst skip_blanks.simps) auto
  next
    case False
    then show ?thesis using 1(2,3) by (subst skip_blanks.simps) auto
  qed
qed

lemma quoted_end_total:
  "len + 1 < length cmd \<Longrightarrow> position \<le> len + 1 \<Longrightarrow> \<exists>p. quoted_end len position cmd = Some p \<and> position \<le> p \<and> p \<le> len + 1"
proof (induction len position cmd rule: quoted_end.induct)
  case (1 len position cmd)
  have e: "quoted_end len position cmd =
    (if cmd ! position \<noteq> 0x22 \<and> position < len then
       (if cmd ! position = 0x5C then quoted_end len (if cmd ! (position + 1) = 0x22 then position + 2 else position + 1) cmd
        else quoted_end len (position + 1) cmd)
     else Some position)"
    using 1(3,4) by (subst quoted_end.simps) auto
  show ?case
  proof (cases "cmd ! position \<noteq> 0x22 \<and> position < len")
    case True
    then show ?thesis
      using 1(1) 1(2) 1(3,4) unfolding e by (cases "cmd ! position = 0x5C"; cases "cmd ! (position + 1) = 0x22") force+
  next
    case False
    then show ?thesis using 1(4) unfolding e by auto
  qed
qed

lemma word_end_total:
  "len < length cmd \<Longrightarrow> position \<le> len \<Longrightarrow> \<exists>p. word_end len position cmd = Some p \<and> position \<le> p \<and> p \<le> len
     \<and> (position < len \<longrightarrow> \<not> is_blank (cmd ! position) \<longrightarrow> position < p)"
proof (induction len position cmd rule: word_end.induct)
  case (1 len position cmd)
  show ?case
  proof (cases "\<not> is_blank (cmd ! position) \<and> position < len")
    case True
    then obtain p where "word_end len (position + 1) cmd = Some p" "position + 1 \<le> p" "p \<le> len" using 1 by force
    then show ?thesis using True 1(2,3) by (subst word_end.simps) auto
  next
    case False
    then show ?thesis using 1(2,3) by (subst word_end.simps) auto
  qed
qed

lemma msh_split_loop_total:
  "len + 1 < length cmd \<Longrightarrow> position \<le> len + 2 \<Longrightarrow> len < position + rounds \<Longrightarrow> 0 < rounds \<Longrightarrow> \<forall>i\<in>set argv. i \<le> len \<Longrightarrow>
   \<exists>argv' many cmd'. msh_split_loop rounds len position argv cmd = Some (argv', many, cmd')
     \<and> zeros_kept cmd cmd' \<and> (\<forall>i\<in>set argv'. i \<le> len) \<and> (argv \<noteq> [] \<longrightarrow> argv' \<noteq> [])
     \<and> (position < len \<longrightarrow> \<not> is_blank (cmd ! position) \<longrightarrow> length argv < 8 \<longrightarrow> argv' \<noteq> [])"
proof (induction rounds arbitrary: position argv cmd)
  case (Suc rounds)
  show ?case
  proof (cases "len \<le> position")
    case False
    then obtain p cmd1 where s: "skip_blanks len position cmd = Some (p, cmd1)" "position \<le> p" "p \<le> len"
      "zeros_kept cmd cmd1" "p < len \<longrightarrow> \<not> is_blank (cmd1 ! p)"
      using skip_blanks_total [of len cmd position] Suc.prems by auto
    have l1: "length cmd1 = length cmd" using s(4) by (simp add: zeros_kept_def)
    have nb: "position = p" if "\<not> is_blank (cmd ! position)"
      using s(1) that False Suc.prems(1) by (subst (asm) skip_blanks.simps) auto
    show ?thesis
    proof (cases "8 \<le> length argv \<or> len \<le> p")
      case True
      then show ?thesis using False s Suc.prems nb by (auto simp: Let_def)
    next
      case more: False
      show ?thesis
      proof (cases "cmd1 ! p = 0x22")
        case True
        obtain q where q: "quoted_end len (p + 1) cmd1 = Some q" "p + 1 \<le> q" "q \<le> len + 1"
          using quoted_end_total [of len cmd1 "p + 1"] Suc.prems(1) more l1 by auto
        show ?thesis
        proof (cases "len \<le> q")
          case True
          then show ?thesis using False s more q \<open>cmd1 ! p = 0x22\<close> Suc.prems(5) by auto
        next
          case go: False
          obtain argv' many cmd' where r: "msh_split_loop rounds len (q + 1) (argv @ [p + 1]) (cmd1[q := 0]) = Some (argv', many, cmd')"
            "zeros_kept (cmd1[q := 0]) cmd'" "\<forall>i\<in>set argv'. i \<le> len" "argv' \<noteq> []"
            using Suc.IH [of "cmd1[q := 0]" "q + 1" "argv @ [p + 1]"] Suc.prems go q more s(2) l1 by force
          have "zeros_kept cmd cmd'" using s(4) r(2) zeros_kept_update zeros_kept_trans by blast
          then show ?thesis using False s(1) more q(1) \<open>cmd1 ! p = 0x22\<close> go r by simp
        qed
      next
        case False
        obtain q where q: "word_end len p cmd1 = Some q" "p < q" "q \<le> len"
          using word_end_total [of len cmd1 p] Suc.prems(1) more l1 s(5) by auto
        show ?thesis
        proof (cases "len \<le> q")
          case True
          then show ?thesis using \<open>\<not> len \<le> position\<close> s more q False Suc.prems(5) by auto
        next
          case go: False
          obtain argv' many cmd' where r: "msh_split_loop rounds len q (argv @ [p]) cmd1 = Some (argv', many, cmd')"
            "zeros_kept cmd1 cmd'" "\<forall>i\<in>set argv'. i \<le> len" "argv' \<noteq> []"
            using Suc.IH [of cmd1 q "argv @ [p]"] Suc.prems go q more s(2) l1 by force
          have "zeros_kept cmd cmd'" using s(4) r(2) zeros_kept_trans by blast
          then show ?thesis using \<open>\<not> len \<le> position\<close> s(1) more q(1) False go r by simp
        qed
      qed
    qed
  qed (use Suc.prems in auto)
qed simp

lemma msh_split_total:
  assumes "len + 1 < length cmd"
  shows "\<exists>argv many cmd'. msh_split cmd len = Some (argv, many, cmd') \<and> zeros_kept cmd cmd' \<and> (\<forall>i\<in>set argv. i \<le> len)"
  using msh_split_loop_total [of len cmd 0 "len + 1" "[]"] assms unfolding msh_split_def by fastforce

lemma c_string_some: "off \<le> i \<Longrightarrow> i < length xs \<Longrightarrow> xs ! i = 0 \<Longrightarrow> \<exists>s. c_string off xs = Some s"
  unfolding c_string_def by (auto simp: in_set_conv_nth intro!: exI [of _ "i - off"])

lemma those_some: "\<forall>x\<in>set xs. \<exists>y. f x = Some y \<Longrightarrow> \<exists>ys. those (map f xs) = Some ys"
  by (induction xs) auto

lemma msh_exec_cmd_total:
  assumes "len + 1 < length cmd" "len \<le> i" "i < length cmd" "cmd ! i = 0"
  shows "\<exists>r. msh_exec_cmd tab cmd len = Some r"
proof -
  obtain n where n: "word_end len 0 cmd = Some n" using word_end_total [of len cmd 0] assms(1) by auto
  obtain argv many cmd' where s: "msh_split cmd len = Some (argv, many, cmd')" "zeros_kept cmd cmd'" "\<forall>i\<in>set argv. i \<le> len"
    using msh_split_total [OF assms(1)] by blast
  have "cmd' ! i = 0" "i < length cmd'" using s(2) assms by (auto simp: zeros_kept_def)
  then have "\<exists>args. those (map (\<lambda>i. c_string i cmd') argv) = Some args"
    using s(3) assms(2) by (intro those_some) (meson c_string_some le_trans)
  then show ?thesis using n s(1) by (auto simp: msh_exec_cmd_def Let_def split: option.split)
qed

lemma msh_exec_total:
  assumes "len + 1 < length cmd" "len \<le> i" "i < length cmd" "cmd ! i = 0"
  shows "\<exists>out r. msh_exec tab cmd len = Some (out, r)"
proof -
  define n where "n = length (takeWhile is_blank (take len cmd))"
  have n: "n \<le> len" unfolding n_def using length_takeWhile_le [of is_blank "take len cmd"] by simp
  have z: "drop n cmd ! (i - n) = 0" "i - n < length (drop n cmd)" "len - n \<le> i - n" using assms n by auto
  have "len - n + 1 < length (drop n cmd)" using assms(1) n by auto
  then obtain r where "msh_exec_cmd tab (drop n cmd) (len - n) = Some r"
    using msh_exec_cmd_total [OF _ z(3,2,1)] by blast
  moreover obtain s where "c_string 0 (drop n cmd) = Some s" using c_string_some [OF _ z(2,1)] by blast
  ultimately show ?thesis
    by (auto simp: msh_exec_def Let_def n_def [symmetric] split: option.split)
qed

subsection \<open>The line stays inside its array\<close>

definition shell_ok :: "finsh_shell \<Rightarrow> bool" where
  "shell_ok sh \<longleftrightarrow> length (sh_line sh) = 81 \<and> sh_line sh ! 80 = 0 \<and> line_curpos sh \<le> line_position sh \<and> line_position sh < 80
     \<and> length (cmd_history sh) = 5 \<and> (\<forall>e\<in>set (cmd_history sh). length e = 80 \<and> 0 \<in> set e)
     \<and> current_history sh \<le> history_count sh \<and> history_count sh \<le> 5"

lemma shell_ok_say [simp]: "shell_ok (say s sh) = shell_ok sh" "shell_ok (sh\<lparr>sh_stat := st\<rparr>) = shell_ok sh"
  by (simp_all add: shell_ok_def say_def)

lemma say_fields [simp]:
  "sh_stat (say s sh) = sh_stat sh" "echo_mode (say s sh) = echo_mode sh" "prompt_mode (say s sh) = prompt_mode sh"
  "current_history (say s sh) = current_history sh" "history_count (say s sh) = history_count sh"
  "cmd_history (say s sh) = cmd_history sh" "sh_line (say s sh) = sh_line sh" "line_position (say s sh) = line_position sh"
  "line_curpos (say s sh) = line_curpos sh" "sh_device (say s sh) = sh_device sh" "sh_runs (say s sh) = sh_runs sh"
  by (simp_all add: say_def)

lemma c_string_length:
  assumes s: "c_string off xs = Some s" and i: "i < length xs" "off \<le> i" "xs ! i = 0"
  shows "off + length s \<le> i"
proof (rule ccontr)
  assume "\<not> off + length s \<le> i"
  then have l: "i - off < length s" using i(2) by linarith
  have s: "s = takeWhile (\<lambda>c. c \<noteq> 0) (drop off xs)" using s by (simp add: c_string_def split: if_split_asm)
  have "s ! (i - off) = drop off xs ! (i - off)" using l unfolding s by (rule takeWhile_nth)
  also have "\<dots> = 0" using i by simp
  finally have "0 \<in> set s" using l nth_mem by metis
  then show False unfolding s by (blast dest: set_takeWhileD)
qed

lemma shell_recall_ok:
  assumes ok: "shell_ok sh" and c: "i < history_count sh"
  shows "\<exists>sh'. shell_recall (sh\<lparr>current_history := i\<rparr>) = Some sh' \<and> shell_ok sh' \<and> sh_runs sh' = sh_runs sh"
proof -
  define e where "e = cmd_history sh ! unat i"
  define line where "line = e @ drop 80 (sh_line sh)"
  have i: "unat i < 5" using ok c by (auto simp: shell_ok_def word_less_nat_alt word_le_nat_alt)
  then have e: "length e = 80" "0 \<in> set e" using ok by (auto simp: shell_ok_def e_def)
  then obtain j where j: "j < 80" "e ! j = 0" by (metis in_set_conv_nth)
  have line: "length line = 81" "line ! 80 = 0" "line ! j = 0"
    using ok e j by (simp_all add: line_def shell_ok_def nth_append)
  obtain s where s: "c_string 0 line = Some s" using c_string_some [of 0 80 line] line by auto
  have "length s \<le> j" using c_string_length [OF s, of j] line j by simp
  then have n: "unat (of_nat (length s) :: u16) < 80" using j by (simp add: unat_of_nat)
  define n where "n = (of_nat (length s) :: u16)"
  have n: "n < 80" using n by (simp add: word_less_nat_alt n_def)
  have "shell_recall (sh\<lparr>current_history := i\<rparr>) = Some (say (0x1B # chars ''[2K'' @ [0x0D] @ finsh_get_prompt sh @ s)
      (sh\<lparr>current_history := i, sh_line := line, line_position := n, line_curpos := n\<rparr>))"
    using i ok s by (simp add: shell_recall_def Let_def e_def [symmetric] line_def [symmetric] shell_handle_history_def n_def [symmetric]
        finsh_get_prompt_def shell_ok_def)
  moreover have "shell_ok (sh\<lparr>current_history := i, sh_line := line, line_position := n, line_curpos := n\<rparr>)"
    using ok line c n by (simp add: shell_ok_def)
  ultimately show ?thesis by simp
qed

lemma shell_push_history_ok:
  assumes ok: "shell_ok sh"
  shows "\<exists>sh'. shell_push_history sh = Some sh' \<and> shell_ok sh' \<and> sh_line sh' = sh_line sh \<and> line_position sh' = line_position sh
     \<and> sh_runs sh' = sh_runs sh"
proof -
  define n where "n = unat (line_position sh)"
  define e where "e = take n (sh_line sh) @ replicate (80 - n) 0"
  have n: "n < 80" using ok by (simp add: shell_ok_def n_def word_less_nat_alt)
  have h: "history_entry sh = Some e" using n by (simp add: history_entry_def Let_def n_def [symmetric] e_def)
  have e: "length e = 80" "0 \<in> set e" using ok n by (auto simp: e_def shell_ok_def)
  have room: "history_count sh < 5 \<Longrightarrow> history_count sh + 1 \<le> 5"
    by (simp add: inc_le)
  have "\<forall>x\<in>set ((cmd_history sh)[unat (history_count sh) := e]). length x = 80 \<and> 0 \<in> set x"
    using ok e set_update_subset_insert [of "cmd_history sh"] by (fastforce simp: shell_ok_def)
  moreover have "cmd_history sh \<noteq> []" "\<forall>x\<in>set (tl (cmd_history sh)). length x = 80 \<and> 0 \<in> set x"
    using ok by (auto simp: shell_ok_def dest: list.set_sel(2) [rotated])
  ultimately show ?thesis
    using ok e room by (auto simp: shell_push_history_def h) (auto simp: shell_ok_def not_le)
qed

lemma key_up_ok: "shell_ok sh \<Longrightarrow> \<exists>sh'. key_up sh = Some sh' \<and> shell_ok sh'"
proof -
  assume ok: "shell_ok sh"
  show ?thesis
  proof (cases "0 < current_history sh")
    case True
    then have "current_history sh - 1 < history_count sh" using ok
      by (auto simp: shell_ok_def word_less_nat_alt word_le_nat_alt unat_dec16)
    from shell_recall_ok [OF ok this] show ?thesis using True by (auto simp: key_up_def)
  next
    case False
    then show ?thesis using ok by (simp add: key_up_def) (simp add: shell_ok_def)
  qed
qed

lemma key_down_ok: "shell_ok sh \<Longrightarrow> \<exists>sh'. key_down sh = Some sh' \<and> shell_ok sh'"
proof -
  assume ok: "shell_ok sh"
  show ?thesis
  proof (cases "uint (current_history sh) < uint (history_count sh) - 1")
    case True
    then have u: "unat (current_history sh) + 1 < unat (history_count sh)" unfolding uint_nat by linarith
    then have c: "current_history sh < history_count sh" by (simp add: word_less_nat_alt)
    have "current_history sh + 1 < history_count sh" unfolding word_less_nat_alt unat_inc16 [OF c] by (rule u)
    from shell_recall_ok [OF ok this] show ?thesis using True by (auto simp: key_down_def)
  next
    case False
    show ?thesis
    proof (cases "history_count sh = 0")
      case True then show ?thesis using False ok by (simp add: key_down_def)
    next
      case nz: False
      then have "history_count sh - 1 < history_count sh" by (simp add: word_less_nat_alt unat_minus_one unat_gt_0)
      from shell_recall_ok [OF ok this] show ?thesis using False nz by (auto simp: key_down_def)
    qed
  qed
qed

lemma key_left_ok: "shell_ok sh \<Longrightarrow> \<exists>sh'. key_left sh = Some sh' \<and> shell_ok sh'"
proof -
  assume ok: "shell_ok sh"
  have "line_curpos sh \<noteq> 0 \<Longrightarrow> line_curpos sh - 1 \<le> line_position sh"
    using ok by (auto simp: shell_ok_def word_le_nat_alt unat_minus_one)
  then show ?thesis using ok by (simp add: key_left_def) (simp add: shell_ok_def)
qed

lemma key_right_ok: "shell_ok sh \<Longrightarrow> \<exists>sh'. key_right sh = Some sh' \<and> shell_ok sh'"
proof -
  assume ok: "shell_ok sh"
  have "line_curpos sh < line_position sh \<Longrightarrow> line_curpos sh + 1 \<le> line_position sh"
    by (simp add: inc_le)
  moreover have "\<not> length (sh_line sh) \<le> unat (line_curpos sh)"
    using ok by (auto simp: shell_ok_def word_le_nat_alt word_less_nat_alt)
  ultimately show ?thesis using ok by (simp add: key_right_def) (simp add: shell_ok_def)
qed

lemma mem_move_some:
  "dst + n \<le> length xs \<Longrightarrow> src + n \<le> length xs \<Longrightarrow>
   \<exists>ys. mem_move dst src n xs = Some ys \<and> length ys = length xs \<and> (\<forall>i<length xs. dst + n \<le> i \<longrightarrow> ys ! i = xs ! i)"
proof -
  assume n: "dst + n \<le> length xs" "src + n \<le> length xs"
  define a where "a = take dst xs @ take n (drop src xs)"
  have a: "length a = dst + n" using n by (simp add: a_def)
  have "mem_move dst src n xs = Some (a @ drop (dst + n) xs)" using n by (simp add: mem_move_def a_def)
  moreover have "length (a @ drop (dst + n) xs) = length xs" using a n by simp
  moreover have "\<forall>i<length xs. dst + n \<le> i \<longrightarrow> (a @ drop (dst + n) xs) ! i = xs ! i" using a by (auto simp: nth_append)
  ultimately show ?thesis by blast
qed

lemma mem_set_some: "i < length xs \<Longrightarrow> mem_set i c xs = Some (xs[i := c])"
  by (simp add: mem_set_def)

lemma key_backspace_ok: "shell_ok sh \<Longrightarrow> \<exists>sh'. key_backspace sh = Some sh' \<and> shell_ok sh'"
proof (cases "line_curpos sh = 0")
  assume ok: "shell_ok sh" and nz: "line_curpos sh \<noteq> 0"
  define p c where "p = line_position sh - 1" and "c = line_curpos sh - 1"
  have pz: "line_position sh \<noteq> 0" using ok nz by (auto simp: shell_ok_def word_le_nat_alt unat_eq_zero)
  have pc: "c \<le> p" "p < 80" "unat c \<le> unat p" "unat p < 79"
    using ok nz pz by (auto simp: shell_ok_def p_def c_def word_le_nat_alt word_less_nat_alt unat_minus_one)
  have len: "length (sh_line sh) = 81" "sh_line sh ! 80 = 0" using ok by (simp_all add: shell_ok_def)
  have fin: "shell_ok (sh\<lparr>line_position := p, line_curpos := c, sh_line := l\<rparr>)" if "length l = 81" "l ! 80 = 0" for l
    using ok that pc by (simp add: shell_ok_def)
  show ?thesis
  proof (cases "c < p")
    case True
    then have "unat c < unat p" by (simp add: word_less_nat_alt)
    then obtain l where l: "mem_move (unat c) (unat c + 1) (unat p - unat c) (sh_line sh) = Some l" "length l = 81" "l ! 80 = 0"
      using mem_move_some [of "unat c" "unat p - unat c" "sh_line sh" "unat c + 1"] pc len by auto
    define l' where "l' = l[unat p := 0]"
    have l': "mem_set (unat p) 0 l = Some l'" "length l' = 81" "l' ! 80 = 0"
      using l pc by (simp_all add: mem_set_some l'_def)
    obtain s where s: "c_string (unat c) l' = Some s" using c_string_some [of "unat c" 80 l'] l' pc by auto
    have "key_backspace sh = Some (say ([0x08] @ s @ [0x20, 0x20, 0x08] @ replicate (unat p - unat c + 1) 0x08)
        (sh\<lparr>line_position := p, line_curpos := c, sh_line := l'\<rparr>))"
      using nz True l(1) l'(1) s by (simp add: key_backspace_def Let_def p_def [symmetric] c_def [symmetric])
    then show ?thesis using fin l' by simp
  next
    case False
    define l where "l = (sh_line sh)[unat p := 0]"
    have l: "mem_set (unat p) 0 (sh_line sh) = Some l" "length l = 81" "l ! 80 = 0"
      using len pc by (simp_all add: mem_set_some l_def)
    have "key_backspace sh = Some (say [0x08, 0x20, 0x08] (sh\<lparr>line_position := p, line_curpos := c, sh_line := l\<rparr>))"
      using nz False l(1) by (simp add: key_backspace_def Let_def p_def [symmetric] c_def [symmetric])
    then show ?thesis using fin l by simp
  qed
qed (simp add: key_backspace_def)

lemma key_enter_ok: "shell_ok sh \<Longrightarrow> \<exists>sh'. key_enter tab sh = Some sh' \<and> shell_ok sh'"
proof -
  assume ok: "shell_ok sh"
  obtain sh1 where sh1: "shell_push_history sh = Some sh1" "shell_ok sh1"
    using shell_push_history_ok [OF ok] by blast
  then have "unat (line_position sh1) + 1 < length (sh_line sh1)" "unat (line_position sh1) \<le> 80" "sh_line sh1 ! 80 = 0" "80 < length (sh_line sh1)"
    by (auto simp: shell_ok_def word_less_nat_alt)
  from msh_exec_total [OF this(1,2,4,3), of tab] obtain out r where
    "msh_exec tab (sh_line sh1) (unat (line_position sh1)) = Some (out, r)" by blast
  then show ?thesis using sh1 by (simp add: key_enter_def Let_def) (simp add: shell_ok_def)
qed

lemma key_char_ok: "shell_ok sh \<Longrightarrow> \<exists>sh'. key_char ch sh = Some sh' \<and> shell_ok sh'"
proof -
  assume ok: "shell_ok sh"
  define p c where "p = unat (line_position sh)" and "c = unat (line_curpos sh)"
  have pc: "c \<le> p" "p < 80" "\<not> 80 \<le> line_position sh" using ok by (auto simp: shell_ok_def p_def c_def word_le_nat_alt word_less_nat_alt)
  have len: "length (sh_line sh) = 81" "sh_line sh ! 80 = 0" using ok by (simp_all add: shell_ok_def)
  have fin: "shell_ok (line_advance (say out (sh\<lparr>sh_line := l\<rparr>)))" if "length l = 81" "l ! 80 = 0" for l out
  proof (cases "80 \<le> line_position sh + 1")
    case True then show ?thesis using ok that by (simp add: line_advance_def shell_ok_def)
  next
    case False
    have l80: "line_position sh < 80" "line_curpos sh < 80" using ok by (auto simp: shell_ok_def)
    then have "line_curpos sh + 1 \<le> line_position sh + 1" using ok unat_inc16 [OF l80(1)] unat_inc16 [OF l80(2)]
      by (simp add: shell_ok_def word_le_nat_alt)
    moreover have "line_position sh + 1 < 80" using False by simp
    ultimately show ?thesis using ok that False by (simp add: line_advance_def shell_ok_def)
  qed
  let ?edit = "if line_curpos sh < line_position sh then do {
            line \<leftarrow> mem_move (c + 1) c (p - c) (sh_line sh);
            line \<leftarrow> mem_set c ch line;
            s \<leftarrow> c_string c line;
            Some (say ((if echo_mode sh then s else []) @ replicate (p - c) 0x08) (sh\<lparr>sh_line := line\<rparr>))
          }
          else do {
            line \<leftarrow> mem_set p ch (sh_line sh);
            Some (say (if echo_mode sh then [ch] else []) (sh\<lparr>sh_line := line\<rparr>))
          }"
  have "\<exists>l out. ?edit = Some (say out (sh\<lparr>sh_line := l\<rparr>)) \<and> length l = 81 \<and> l ! 80 = 0"
  proof (cases "line_curpos sh < line_position sh")
    case True
    obtain l where l: "mem_move (c + 1) c (p - c) (sh_line sh) = Some l" "length l = 81" "l ! 80 = 0"
      using mem_move_some [of "c + 1" "p - c" "sh_line sh" c] pc len by auto
    then obtain s where "c_string c (l[c := ch]) = Some s" using c_string_some [of c 80 "l[c := ch]"] pc by auto
    then show ?thesis using True l pc by (auto simp: mem_set_some)
  next
    case False then show ?thesis using len pc by (auto simp: mem_set_some)
  qed
  then obtain l out where l: "?edit = Some (say out (sh\<lparr>sh_line := l\<rparr>))" "length l = 81" "l ! 80 = 0" by blast
  have "key_char ch sh = Option.bind ?edit (\<lambda>sh. Some (line_advance sh))"
    using pc(3) by (simp only: key_char_def Let_def p_def c_def if_False)
  then show ?thesis using fin [OF l(2,3), of out] by (simp only: l(1)) simp
qed

lemma key_plain_ok: "shell_ok sh \<Longrightarrow> ch \<noteq> 0x09 \<Longrightarrow> \<exists>sh'. key_plain tab ch sh = Some sh' \<and> shell_ok sh'"
  unfolding key_plain_def using key_backspace_ok [of sh] key_enter_ok [of sh tab] key_char_ok [of sh ch] by auto

lemma finsh_char_ok:
  assumes "shell_ok sh" "ch \<noteq> 0x09"
  shows "\<exists>sh'. finsh_char tab ch sh = Some sh' \<and> shell_ok sh'"
proof -
  have n: "shell_ok (sh\<lparr>sh_stat := WAIT_NORMAL\<rparr>)" "shell_ok (sh\<lparr>sh_stat := WAIT_SPEC_KEY\<rparr>)" "shell_ok (sh\<lparr>sh_stat := WAIT_FUNC_KEY\<rparr>)"
    using assms by simp_all
  show ?thesis
    unfolding finsh_char_def Let_def
    using n key_plain_ok [OF n(1) assms(2), of tab] key_plain_ok [OF assms, of tab] key_up_ok [OF n(1)] key_down_ok [OF n(1)]
      key_left_ok [OF n(1)] key_right_ok [OF n(1)]
    by auto
qed

lemma finsh_chars_simps [simp]:
  "finsh_chars tab [] sh = Some sh"
  "finsh_chars tab (ch # chs) sh = Option.bind (finsh_char tab ch sh) (finsh_chars tab chs)"
proof -
  have n: "fold (\<lambda>ch r. Option.bind r (finsh_char tab ch)) chs None = None" for chs by (induction chs) simp_all
  show "finsh_chars tab (ch # chs) sh = Option.bind (finsh_char tab ch sh) (finsh_chars tab chs)"
    by (cases "finsh_char tab ch sh") (simp_all add: finsh_chars_def n)
qed (simp add: finsh_chars_def)

lemma shell_ok_new: "shell_ok (finsh_start new_shell)"
  by (simp add: finsh_start_def new_shell_def Let_def, simp add: shell_ok_def)

lemma finsh_chars_ok: "0x09 \<notin> set chs \<Longrightarrow> shell_ok sh \<Longrightarrow> \<exists>sh'. finsh_chars tab chs sh = Some sh' \<and> shell_ok sh'"
proof (induction chs arbitrary: sh)
  case (Cons ch chs)
  then show ?case using finsh_char_ok [of sh ch tab] by fastforce
qed simp

end
