(* ===== verification/Shell_Editor.thy ===== *)
theory Shell_Editor
  imports Shell_Safety
begin

section \<open>The shell as a line editor\<close>

text \<open>
  An abstract editor with a cursor in a text, and the simulation \<open>edits\<close> between it and the array with its two
  indices, key by key.
\<close>

subsection \<open>The editor behind the array\<close>

text \<open>
  What the user of the shell sees: the text before and after the cursor, the last five lines, the place in
  them the arrows have reached, and the lines that were entered.
\<close>

datatype key = Char_key u8 | Left_key | Right_key | Backspace_key | Enter_key | Up_key | Down_key

record editor =
  before :: "u8 list"
  after :: "u8 list"
  past :: "u8 list list"
  browsing :: nat
  entered :: "u8 list list"

definition printable :: "u8 \<Rightarrow> bool" where
  "printable c \<longleftrightarrow> c \<notin> {0, 0xFF, 0x09, 0x7F, 0x08, 0x0D, 0x0A, 0x1B}"

primrec key_bytes :: "key \<Rightarrow> u8 list" where
  "key_bytes (Char_key c) = [c]"
| "key_bytes Left_key = [0x1B, 0x5B, 0x44]"
| "key_bytes Right_key = [0x1B, 0x5B, 0x43]"
| "key_bytes Backspace_key = [0x7F]"
| "key_bytes Enter_key = [0x0D]"
| "key_bytes Up_key = [0x1B, 0x5B, 0x41]"
| "key_bytes Down_key = [0x1B, 0x5B, 0x42]"

definition remember :: "u8 list \<Rightarrow> u8 list list \<Rightarrow> u8 list list" where
  "remember l h = (if l = [] \<or> h \<noteq> [] \<and> last h = l then h else newest 5 (h @ [l]))"

definition recall :: "nat \<Rightarrow> editor \<Rightarrow> editor" where
  "recall i e = e\<lparr>before := past e ! i, after := [], browsing := i\<rparr>"

text \<open>The keys, for lines shorter than \<open>FINSH_CMD_SIZE\<close>.\<close>

primrec edit_key :: "key \<Rightarrow> editor \<Rightarrow> editor option" where
  "edit_key (Char_key c) e =
    (if printable c \<and> length (before e) + length (after e) + 1 < FINSH_CMD_SIZE
     then Some (e\<lparr>before := before e @ [c]\<rparr>) else None)"
| "edit_key Left_key e =
    Some (if before e = [] then e else e\<lparr>before := butlast (before e), after := last (before e) # after e\<rparr>)"
| "edit_key Right_key e =
    Some (if after e = [] then e else e\<lparr>before := before e @ [hd (after e)], after := tl (after e)\<rparr>)"
| "edit_key Backspace_key e = Some (e\<lparr>before := butlast (before e)\<rparr>)"
| "edit_key Enter_key e =
    (let l = before e @ after e; h = remember l (past e)
     in Some \<lparr>before = [], after = [], past = h, browsing = length h, entered = entered e @ [l]\<rparr>)"
| "edit_key Up_key e = Some (if browsing e = 0 then e else recall (browsing e - 1) e)"
| "edit_key Down_key e = Some (if past e = [] then e else recall (min (browsing e + 1) (length (past e) - 1)) e)"

fun edit_keys :: "key list \<Rightarrow> editor \<Rightarrow> editor option" where
  "edit_keys [] e = Some e"
| "edit_keys (key # ks) e = (case edit_key key e of None \<Rightarrow> None | Some e \<Rightarrow> edit_keys ks e)"

definition new_editor :: editor where
  "new_editor = \<lparr>before = [], after = [], past = [], browsing = 0, entered = []\<rparr>"

definition padded :: "nat \<Rightarrow> u8 list \<Rightarrow> u8 list" where
  "padded n l = l @ replicate (n - length l) 0"

definition run_line :: "finsh_syscall list \<Rightarrow> u8 list \<Rightarrow> msh_result" where
  "run_line tab l = snd (the (msh_exec tab (padded 81 l) (length l)))"

definition line_fits :: "u8 list \<Rightarrow> bool" where
  "line_fits l \<longleftrightarrow> length l < 80 \<and> 0 \<notin> set l"

definition holds_line :: "u8 list \<Rightarrow> nat \<Rightarrow> finsh_shell \<Rightarrow> bool" where
  "holds_line l c sh \<longleftrightarrow> line_fits l \<and> sh_line sh = padded 81 l \<and> unat (line_position sh) = length l
     \<and> unat (line_curpos sh) = c \<and> c \<le> length l"

definition holds_past :: "u8 list list \<Rightarrow> nat \<Rightarrow> finsh_shell \<Rightarrow> bool" where
  "holds_past h i sh \<longleftrightarrow> length h \<le> 5 \<and> (\<forall>l\<in>set h. l \<noteq> [] \<and> line_fits l) \<and> length (cmd_history sh) = 5
     \<and> take (length h) (cmd_history sh) = map (padded 80) h
     \<and> unat (history_count sh) = length h \<and> unat (current_history sh) = i \<and> i \<le> length h"

definition edits :: "finsh_syscall list \<Rightarrow> editor \<Rightarrow> finsh_shell \<Rightarrow> bool" where
  "edits tab e sh \<longleftrightarrow> sh_stat sh = WAIT_NORMAL \<and> holds_line (before e @ after e) (length (before e)) sh
     \<and> holds_past (past e) (browsing e) sh \<and> sh_runs sh = map (run_line tab) (entered e)"

lemma length_padded [simp]: "length l \<le> n \<Longrightarrow> length (padded n l) = n"
  by (simp add: padded_def)

lemma padded_string [simp]: "0 \<notin> set l \<Longrightarrow> length l < n \<Longrightarrow> c_string 0 (padded n l) = Some l"
proof -
  assume l: "0 \<notin> set l" "length l < n"
  have "takeWhile (\<lambda>c. c \<noteq> 0) (padded n l) = l"
    using l by (subst padded_def, subst takeWhile_append2) (auto simp: Suc_diff_Suc [symmetric])
  then show ?thesis using l by (simp add: c_string_def, simp add: padded_def)
qed

lemma padded_inject: "line_fits l \<Longrightarrow> line_fits l' \<Longrightarrow> padded 80 l = padded 80 l' \<longleftrightarrow> l = l'"
  by (metis line_fits_def padded_string option.inject)

lemma take_padded [simp]: "length l \<le> 80 \<Longrightarrow> take 80 (padded 81 l) = padded 80 l"
  by (simp add: padded_def)

lemma holds_line_say [simp]: "holds_line l c (say s sh) = holds_line l c sh" "holds_past h i (say s sh) = holds_past h i sh"
  by (simp_all add: holds_line_def holds_past_def)

lemma shell_recall:
  assumes past: "holds_past h j sh" and i: "i < length h" "unat (i' :: u16) = i" and line: "holds_line l c sh"
  defines "m \<equiv> of_nat (length (h ! i)) :: u16"
  shows "shell_recall (sh\<lparr>current_history := i'\<rparr>)
    = Some (say (0x1B # chars ''[2K'' @ [0x0D] @ finsh_get_prompt sh @ h ! i)
        (sh\<lparr>current_history := i', sh_line := padded 81 (h ! i), line_position := m, line_curpos := m\<rparr>))"
    and "unat m = length (h ! i)" "line_fits (h ! i)"
proof -
  show f: "line_fits (h ! i)" using past i(1) by (simp add: holds_past_def)
  then show "unat m = length (h ! i)" by (simp add: m_def line_fits_def unat_of_nat)
  have "i < 5" "length (cmd_history sh) = 5" using past i by (auto simp: holds_past_def)
  moreover have "cmd_history sh ! i = padded 80 (h ! i)"
    using past i(1) nth_take [of i "length h" "cmd_history sh"] by (simp add: holds_past_def)
  moreover have "drop 80 (sh_line sh) = [0]" using line by (simp add: holds_line_def line_fits_def padded_def)
  moreover have "padded 80 (h ! i) @ [0] = padded 81 (h ! i)"
  proof -
    have "Suc (80 - length (h ! i)) = 81 - length (h ! i)" using f by (auto simp: line_fits_def)
    then show ?thesis by (simp add: padded_def replicate_append_same flip: replicate_Suc)
  qed
  moreover have "c_string 0 (padded 81 (h ! i)) = Some (h ! i)" using f by (simp add: line_fits_def)
  ultimately show "shell_recall (sh\<lparr>current_history := i'\<rparr>)
    = Some (say (0x1B # chars ''[2K'' @ [0x0D] @ finsh_get_prompt sh @ h ! i)
        (sh\<lparr>current_history := i', sh_line := padded 81 (h ! i), line_position := m, line_curpos := m\<rparr>))"
    using i(2) by (simp add: shell_recall_def Let_def shell_handle_history_def finsh_get_prompt_def m_def)
qed

lemma shell_recall_edits:
  assumes e: "edits tab e sh" and i: "i < length (past e)" "unat (i' :: u16) = i"
  shows "\<exists>sh'. shell_recall (sh\<lparr>current_history := i'\<rparr>) = Some sh' \<and> edits tab (recall i e) sh'"
proof -
  have h: "holds_past (past e) (browsing e) sh" "holds_line (before e @ after e) (length (before e)) sh"
    using e by (simp_all add: edits_def)
  note r = shell_recall [OF h(1) i h(2)]
  show ?thesis unfolding r(1)
    using e r(2,3) i by (simp add: edits_def recall_def) (simp add: holds_line_def holds_past_def)
qed

lemma c_string_append [simp]: "c_string (length b) (b @ ys) = c_string 0 ys"
  by (simp add: c_string_def)

lemma padded_append: "padded n (b @ a) = b @ padded (n - length b) a"
  by (simp add: padded_def diff_diff_left)

lemma padded_Cons: "padded (Suc n) (x # a) = x # padded n a"
  by (simp add: padded_def)

lemma insert_line:
  assumes "length b + length (x # a) < 80"
  shows "\<exists>line. mem_move (length b + 1) (length b) (length (x # a)) (padded 81 (b @ x # a)) = Some line
    \<and> mem_set (length b) ch line = Some (padded 81 (b @ ch # x # a))"
proof -
  define zs where "zs = replicate (79 - length b - length (x # a)) (0 :: u8)"
  have z: "81 - length (b @ x # a) = Suc (Suc (length zs))" "81 - length (b @ ch # x # a) = Suc (length zs)"
    using assms by (auto simp: zs_def)
  have p: "padded 81 (b @ x # a) = b @ x # a @ 0 # 0 # zs" "padded 81 (b @ ch # x # a) = b @ ch # x # a @ 0 # zs"
    unfolding padded_def z by (simp_all add: zs_def)
  have "mem_move (length b + 1) (length b) (length (x # a)) (b @ x # a @ 0 # 0 # zs) = Some (b @ x # x # a @ 0 # zs)"
    by (simp add: mem_move_def)
  then show ?thesis unfolding p by (simp add: mem_set_def list_update_append)
qed

lemma delete_line:
  assumes "length b + length (y # a) < 80"
  shows "\<exists>line. mem_move (length b) (length b + 1) (length (y # a)) (padded 81 (b @ x # y # a)) = Some line
    \<and> mem_set (length b + length (y # a)) 0 line = Some (padded 81 (b @ y # a))"
proof -
  define zs where "zs = replicate (79 - length b - length (y # a)) (0 :: u8)"
  have z: "81 - length (b @ x # y # a) = Suc (length zs)" "81 - length (b @ y # a) = Suc (Suc (length zs))"
    using assms by (auto simp: zs_def)
  have p: "padded 81 (b @ x # y # a) = b @ x # y # a @ 0 # zs" "padded 81 (b @ y # a) = b @ y # a @ 0 # 0 # zs"
    unfolding padded_def z by (simp_all add: zs_def)
  define w where "w = last (x # y # a)"
  have "drop (length (y # a)) (x # y # a) = [w]"
    unfolding w_def by (metis append_butlast_last_id append_eq_conv_conj butlast.simps(2) length_butlast length_Cons diff_Suc_1 list.distinct(1))
  then have "drop (length (y # a)) ((x # y # a) @ 0 # zs) = w # 0 # zs" by (simp only: drop_append) simp
  then have d: "drop (length b + length (y # a)) (b @ x # y # a @ 0 # zs) = w # 0 # zs" by simp
  have "mem_move (length b) (length b + 1) (length (y # a)) (b @ x # y # a @ 0 # zs) = Some (b @ y # a @ w # 0 # zs)"
    using d by (simp add: mem_move_def)
  moreover have "mem_set (length b + length (y # a)) 0 (b @ y # a @ w # 0 # zs) = Some (b @ y # a @ 0 # 0 # zs)"
    by (simp add: mem_set_def list_update_append)
  ultimately show ?thesis unfolding p by blast
qed

lemma set_end_line:
  assumes "length b < 80"
  shows "mem_set (length b) ch (padded 81 b) = Some (padded 81 (b @ [ch]))"
    and "mem_set (length b) 0 (padded 81 (b @ [x])) = Some (padded 81 b)"
proof -
  define zs where "zs = replicate (80 - length b) (0 :: u8)"
  have z: "81 - length b = Suc (length zs)" "81 - length (b @ [x]) = length zs" "81 - length (b @ [ch]) = length zs"
    using assms by (auto simp: zs_def)
  have p: "padded 81 b = b @ 0 # zs" "padded 81 (b @ [x]) = b @ x # zs" "padded 81 (b @ [ch]) = b @ ch # zs"
    unfolding padded_def z by (simp_all add: zs_def)
  show "mem_set (length b) ch (padded 81 b) = Some (padded 81 (b @ [ch]))"
    "mem_set (length b) 0 (padded 81 (b @ [x])) = Some (padded 81 b)"
    unfolding p by (simp_all add: mem_set_def)
qed

lemma key_char_line:
  assumes line: "holds_line (b @ a) (length b) sh" and ch: "ch \<noteq> 0" and room: "length b + length a + 1 < 80"
  shows "\<exists>sh' s. key_char ch sh = Some (say s sh') \<and> holds_line (b @ ch # a) (length b + 1) sh'
    \<and> sh' = sh\<lparr>sh_line := sh_line sh', line_position := line_position sh', line_curpos := line_curpos sh'\<rparr>"
proof -
  have l: "sh_line sh = padded 81 (b @ a)" "unat (line_position sh) = length b + length a" "unat (line_curpos sh) = length b" "line_fits (b @ a)"
    using line by (simp_all add: holds_line_def)
  have lt: "line_curpos sh < line_position sh \<longleftrightarrow> a \<noteq> []" using l by (simp add: word_less_nat_alt)
  have n80: "\<not> 80 \<le> line_position sh" using l room by (simp add: word_le_nat_alt)
  have u: "unat (line_position sh + 1) = length b + length a + 1" "unat (line_curpos sh + 1) = length b + 1"
    using l room unat_inc16 [of "line_position sh" 80] unat_inc16 [of "line_curpos sh" 80] by (simp_all add: word_less_nat_alt)
  then have n81: "\<not> 80 \<le> line_position sh + 1" using room by (simp add: word_le_nat_alt)
  have fits: "line_fits (b @ ch # a)" using l(4) ch room by (simp add: line_fits_def)
  define line' where "line' = padded 81 (b @ ch # a)"
  have s: "c_string (length b) line' = Some (ch # a)"
  proof -
    have "length (ch # a) < 81 - length b" "0 \<notin> set (ch # a)" using room fits by (auto simp: line_fits_def)
    then have "c_string 0 (padded (81 - length b) (ch # a)) = Some (ch # a)" by (intro padded_string)
    then show ?thesis by (simp only: line'_def padded_append c_string_append)
  qed
  define sh' where "sh' = sh\<lparr>sh_line := line', line_position := line_position sh + 1, line_curpos := line_curpos sh + 1\<rparr>"
  have "\<exists>out. key_char ch sh = Some (line_advance (say out (sh\<lparr>sh_line := line'\<rparr>)))"
  proof (cases a)
    case Nil
    then show ?thesis using n80 lt l room by (simp add: key_char_def set_end_line line'_def) blast
  next
    case (Cons x a')
    then show ?thesis using n80 lt l room s insert_line [of b x a' ch]
      by (auto simp: key_char_def line'_def)
  qed
  moreover have "line_advance (say out (sh\<lparr>sh_line := line'\<rparr>)) = say out sh'" for out
    using n81 by (simp add: line_advance_def sh'_def say_def)
  moreover have "holds_line (b @ ch # a) (length b + 1) sh'"
    using fits u by (simp add: holds_line_def sh'_def line'_def)
  ultimately show ?thesis by (auto simp: sh'_def)
qed

lemma key_backspace_line:
  assumes line: "holds_line (b @ x # a) (length b + 1) sh"
  shows "\<exists>sh' s. key_backspace sh = Some (say s sh') \<and> holds_line (b @ a) (length b) sh'
    \<and> sh' = sh\<lparr>sh_line := sh_line sh', line_position := line_position sh', line_curpos := line_curpos sh'\<rparr>"
proof -
  have l: "sh_line sh = padded 81 (b @ x # a)" "unat (line_position sh) = length b + length a + 1" "unat (line_curpos sh) = length b + 1"
    "line_fits (b @ x # a)"
    using line by (simp_all add: holds_line_def)
  have nz: "line_curpos sh \<noteq> 0" "line_position sh \<noteq> 0" using l by auto
  define p c where "p = line_position sh - 1" and "c = line_curpos sh - 1"
  have u: "unat p = length b + length a" "unat c = length b" using l nz by (simp_all add: p_def c_def unat_minus_one)
  have lt: "c < p \<longleftrightarrow> a \<noteq> []" using u by (simp add: word_less_nat_alt)
  have fits: "line_fits (b @ a)" "length b + length a < 80" using l(4) by (auto simp: line_fits_def)
  define sh' where "sh' = sh\<lparr>line_position := p, line_curpos := c, sh_line := padded 81 (b @ a)\<rparr>"
  have s: "c_string (length b) (padded 81 (b @ a)) = Some a"
    using fits by (simp add: padded_append line_fits_def)
  have "\<exists>out. key_backspace sh = Some (say out sh')"
  proof (cases a)
    case Nil
    then show ?thesis using nz lt l u fits by (simp add: key_backspace_def Let_def p_def [symmetric] c_def [symmetric] sh'_def set_end_line exI)
  next
    case (Cons y a')
    then obtain line where "mem_move (length b) (length b + 1) (length a) (padded 81 (b @ x # a)) = Some line"
      "mem_set (length b + length a) 0 line = Some (padded 81 (b @ a))"
      using delete_line [of b y a' x] fits(2) by auto
    then show ?thesis using nz lt l u s Cons
      by (simp add: key_backspace_def Let_def p_def [symmetric] c_def [symmetric] sh'_def exI)
  qed
  moreover have "holds_line (b @ a) (length b) sh'" using fits u by (simp add: holds_line_def sh'_def)
  moreover have "sh' = sh\<lparr>sh_line := sh_line sh', line_position := line_position sh', line_curpos := line_curpos sh'\<rparr>"
    by (simp add: sh'_def)
  ultimately show ?thesis by blast
qed

lemma finsh_chars_end [simp]: "Option.bind r (finsh_chars tab []) = r"
  by (cases r) simp_all

lemma finsh_escape:
  assumes "sh_stat sh = WAIT_NORMAL"
  shows "finsh_chars tab [0x1B, 0x5B, ch] sh = finsh_char tab ch (sh\<lparr>sh_stat := WAIT_FUNC_KEY\<rparr>)"
  using assms by (simp add: finsh_char_def)

lemma normal_stat [simp]: "sh_stat sh = st \<Longrightarrow> sh\<lparr>sh_stat := st\<rparr> = sh"
  by simp

lemma edits_line:
  assumes "edits tab e sh" "holds_line l (length b) sh'" "l = b @ a"
    "sh' = sh\<lparr>sh_line := sh_line sh', line_position := line_position sh', line_curpos := line_curpos sh'\<rparr>"
  shows "edits tab (e\<lparr>before := b, after := a\<rparr>) sh'"
proof -
  define L P C where "L = sh_line sh'" and "P = line_position sh'" and "C = line_curpos sh'"
  have e: "sh' = sh\<lparr>sh_line := L, line_position := P, line_curpos := C\<rparr>" using assms(4) by (simp add: L_def P_def C_def)
  show ?thesis using assms(1-3) unfolding e by (simp add: edits_def, simp add: holds_past_def)
qed

lemma edits_say [simp]: "edits tab e (say s sh) = edits tab e sh"
  by (simp add: edits_def)

lemma char_edits:
  assumes e: "edits tab e sh" and k: "edit_key (Char_key ch) e = Some e'"
  shows "\<exists>sh'. finsh_chars tab [ch] sh = Some sh' \<and> edits tab e' sh'"
proof -
  have p: "printable ch" "length (before e) + length (after e) + 1 < 80" "e' = e\<lparr>before := before e @ [ch]\<rparr>"
    using k by (simp_all split: if_split_asm)
  have line: "holds_line (before e @ after e) (length (before e)) sh" "sh_stat sh = WAIT_NORMAL" using e by (simp_all add: edits_def)
  have "ch \<noteq> 0" using p(1) by (simp add: printable_def)
  from key_char_line [OF line(1) this p(2)] obtain sh' s where r: "key_char ch sh = Some (say s sh')"
    "holds_line (before e @ ch # after e) (length (before e @ [ch])) sh'"
    "sh' = sh\<lparr>sh_line := sh_line sh', line_position := line_position sh', line_curpos := line_curpos sh'\<rparr>" by auto
  have "finsh_char tab ch sh = key_char ch sh"
    using p(1) line(2) by (simp add: finsh_char_def key_plain_def printable_def)
  moreover have "edits tab (e\<lparr>before := before e @ [ch], after := after e\<rparr>) sh'"
    using edits_line [OF e r(2) _ r(3), of "after e"] by simp
  ultimately show ?thesis using r(1) p(3) by simp
qed

lemma backspace_edits:
  assumes e: "edits tab e sh"
  shows "\<exists>sh'. finsh_chars tab [0x7F] sh = Some sh' \<and> edits tab (e\<lparr>before := butlast (before e)\<rparr>) sh'"
proof -
  have line: "holds_line (before e @ after e) (length (before e)) sh" "sh_stat sh = WAIT_NORMAL" using e by (simp_all add: edits_def)
  have f: "finsh_char tab 0x7F sh = key_backspace sh" using line(2) by (simp add: finsh_char_def key_plain_def)
  show ?thesis
  proof (cases "before e" rule: rev_cases)
    case Nil
    then have "line_curpos sh = 0" "e\<lparr>before := butlast (before e)\<rparr> = e" using line(1) by (simp_all add: holds_line_def unat_eq_zero)
    then show ?thesis using e f by (simp add: key_backspace_def)
  next
    case (snoc b x)
    then obtain sh' s where r: "key_backspace sh = Some (say s sh')" "holds_line (b @ after e) (length b) sh'"
      "sh' = sh\<lparr>sh_line := sh_line sh', line_position := line_position sh', line_curpos := line_curpos sh'\<rparr>"
      using key_backspace_line [of b x "after e" sh] line(1) by auto
    have "edits tab (e\<lparr>before := b, after := after e\<rparr>) sh'" using edits_line [OF e r(2) _ r(3), of "after e"] by simp
    then show ?thesis using f r(1) snoc by simp
  qed
qed

lemma left_edits:
  assumes e: "edits tab e sh" and k: "edit_key Left_key e = Some e'"
  shows "\<exists>sh'. finsh_chars tab [0x1B, 0x5B, 0x44] sh = Some sh' \<and> edits tab e' sh'"
proof -
  have line: "holds_line (before e @ after e) (length (before e)) sh" "sh_stat sh = WAIT_NORMAL" using e by (simp_all add: edits_def)
  have f: "finsh_chars tab [0x1B, 0x5B, 0x44] sh = key_left sh"
    unfolding finsh_escape [OF line(2)] using line(2) by (simp add: finsh_char_def)
  show ?thesis
  proof (cases "before e" rule: rev_cases)
    case Nil
    then have "line_curpos sh = 0" using line(1) by (simp add: holds_line_def unat_eq_zero)
    then show ?thesis using e f k Nil by (simp add: key_left_def)
  next
    case (snoc b x)
    define sh' where "sh' = sh\<lparr>line_curpos := line_curpos sh - 1\<rparr>"
    have nz: "line_curpos sh \<noteq> 0" using line(1) snoc by (auto simp: holds_line_def)
    have "holds_line (b @ x # after e) (length b) sh'"
      using line(1) snoc nz by (simp add: holds_line_def sh'_def unat_minus_one)
    from edits_line [OF e this, of "x # after e"] have "edits tab e' sh'" using k snoc by (simp add: sh'_def)
    moreover have "key_left sh = Some (say [0x08] sh')" using nz by (simp add: key_left_def sh'_def say_def)
    ultimately show ?thesis using f by simp
  qed
qed

lemma right_edits:
  assumes e: "edits tab e sh" and k: "edit_key Right_key e = Some e'"
  shows "\<exists>sh'. finsh_chars tab [0x1B, 0x5B, 0x43] sh = Some sh' \<and> edits tab e' sh'"
proof -
  have line: "holds_line (before e @ after e) (length (before e)) sh" "sh_stat sh = WAIT_NORMAL" using e by (simp_all add: edits_def)
  have f: "finsh_chars tab [0x1B, 0x5B, 0x43] sh = key_right sh"
    unfolding finsh_escape [OF line(2)] using line(2) by (simp add: finsh_char_def)
  have l: "unat (line_position sh) = length (before e) + length (after e)" "unat (line_curpos sh) = length (before e)"
    "sh_line sh = padded 81 (before e @ after e)" "line_fits (before e @ after e)" using line(1) by (simp_all add: holds_line_def)
  show ?thesis
  proof (cases "after e")
    case Nil
    then have "\<not> line_curpos sh < line_position sh" using l by (simp add: word_less_nat_alt)
    then show ?thesis using e f k Nil by (simp add: key_right_def)
  next
    case (Cons x a)
    define sh' where "sh' = sh\<lparr>line_curpos := line_curpos sh + 1\<rparr>"
    have lt: "line_curpos sh < line_position sh" using l Cons by (simp add: word_less_nat_alt)
    have at: "\<not> length (sh_line sh) \<le> unat (line_curpos sh)" using l by (simp add: line_fits_def)
    have "holds_line ((before e @ [x]) @ a) (length (before e @ [x])) sh'"
      using line(1) Cons unat_inc16 [OF lt] by (simp add: holds_line_def sh'_def)
    from edits_line [OF e this, of a] have "edits tab e' sh'" using k Cons by (simp add: sh'_def)
    moreover have "key_right sh = Some (say [sh_line sh ! unat (line_curpos sh)] sh')"
      using lt at by (simp add: key_right_def sh'_def say_def)
    ultimately show ?thesis using f by simp
  qed
qed

lemma up_edits:
  assumes e: "edits tab e sh" and k: "edit_key Up_key e = Some e'"
  shows "\<exists>sh'. finsh_chars tab [0x1B, 0x5B, 0x41] sh = Some sh' \<and> edits tab e' sh'"
proof -
  have st: "sh_stat sh = WAIT_NORMAL" and past: "holds_past (past e) (browsing e) sh" using e by (simp_all add: edits_def)
  have f: "finsh_chars tab [0x1B, 0x5B, 0x41] sh = key_up sh"
    unfolding finsh_escape [OF st] using st by (simp add: finsh_char_def)
  show ?thesis
  proof (cases "browsing e = 0")
    case True
    then have c: "current_history sh = 0" using past by (simp add: holds_past_def unat_eq_zero)
    then have "key_up sh = Some sh" by (cases sh) (simp add: key_up_def)
    then show ?thesis using e f k True by simp
  next
    case False
    then have nz: "current_history sh \<noteq> 0" using past by (auto simp: holds_past_def)
    have c: "0 < current_history sh" "unat (current_history sh - 1) = browsing e - 1" "browsing e - 1 < length (past e)"
      using past False nz unat_minus_one [OF nz] by (auto simp: holds_past_def word_gt_0)
    then show ?thesis using shell_recall_edits [OF e c(3,2)] f k False by (simp add: key_up_def)
  qed
qed

lemma down_edits:
  assumes e: "edits tab e sh" and k: "edit_key Down_key e = Some e'"
  shows "\<exists>sh'. finsh_chars tab [0x1B, 0x5B, 0x42] sh = Some sh' \<and> edits tab e' sh'"
proof -
  have st: "sh_stat sh = WAIT_NORMAL" and past: "holds_past (past e) (browsing e) sh" using e by (simp_all add: edits_def)
  have f: "finsh_chars tab [0x1B, 0x5B, 0x42] sh = key_down sh"
    unfolding finsh_escape [OF st] using st by (simp add: finsh_char_def)
  have h: "unat (history_count sh) = length (past e)" "unat (current_history sh) = browsing e" "browsing e \<le> length (past e)"
    using past by (simp_all add: holds_past_def)
  show ?thesis
  proof (cases "past e = []")
    case True
    then have "history_count sh = 0" using h by (simp add: unat_eq_zero)
    moreover have "\<not> uint (current_history sh) < - 1" unfolding uint_nat by linarith
    ultimately show ?thesis using e f k True by (simp add: key_down_def)
  next
    case False
    then have nz: "history_count sh \<noteq> 0" using h by auto
    have lt: "uint (current_history sh) < uint (history_count sh) - 1 \<longleftrightarrow> browsing e + 1 < length (past e)"
      unfolding uint_nat using h by linarith
    show ?thesis
    proof (cases "browsing e + 1 < length (past e)")
      case True
      then have "current_history sh < history_count sh" using h by (simp add: word_less_nat_alt)
      then have u: "unat (current_history sh + 1) = browsing e + 1" using unat_inc16 h by simp
      have m: "min (browsing e + 1) (length (past e) - 1) = browsing e + 1" using True by linarith
      from shell_recall_edits [OF e True u] show ?thesis using True False f k lt unfolding edit_key.simps m by (simp add: key_down_def)
    next
      case stop: False
      have c: "length (past e) - 1 < length (past e)" "unat (history_count sh - 1) = length (past e) - 1"
        using False h nz by (simp_all add: unat_minus_one)
      have m: "min (browsing e + 1) (length (past e) - 1) = length (past e) - 1" using stop by linarith
      from shell_recall_edits [OF e c] show ?thesis using stop False f k lt nz unfolding edit_key.simps m by (simp add: key_down_def)
    qed
  qed
qed

lemma holds_past_remember:
  assumes past: "holds_past h i sh" and line: "holds_line l c sh"
  shows "\<exists>sh'. shell_push_history sh = Some sh' \<and> holds_past (remember l h) (length (remember l h)) sh'
    \<and> sh' = sh\<lparr>current_history := current_history sh', history_count := history_count sh', cmd_history := cmd_history sh'\<rparr>"
proof -
  have h: "length h \<le> 5" "\<forall>l\<in>set h. l \<noteq> [] \<and> line_fits l" "length (cmd_history sh) = 5"
    "take (length h) (cmd_history sh) = map (padded 80) h" "unat (history_count sh) = length h"
    using past by (simp_all add: holds_past_def)
  have l: "line_fits l" "sh_line sh = padded 81 l" "unat (line_position sh) = length l" using line by (simp_all add: holds_line_def)
  have z: "line_position sh = 0 \<longleftrightarrow> l = []" "history_count sh = 0 \<longleftrightarrow> h = []" "5 \<le> history_count sh \<longleftrightarrow> length h = 5"
    using l(3) h(1,5) by (auto simp: unat_eq_zero [symmetric] word_le_nat_alt)
  have entry: "history_entry sh = Some (padded 80 l)" "take 80 (sh_line sh) = padded 80 l"
    using l by (simp_all add: history_entry_def Let_def line_fits_def padded_def)
  have nth: "cmd_history sh ! j = padded 80 (h ! j)" if "j < length h" for j
    using nth_take [OF that, of "cmd_history sh"] h(4) that by simp
  have last: "cmd_history sh ! (length h - 1) \<noteq> padded 80 l \<longleftrightarrow> last h \<noteq> l" if "h \<noteq> []"
    using nth [of "length h - 1"] that h(2) l(1) padded_inject [of "last h" l] by (simp add: last_conv_nth)
  have keep: ?thesis if r: "remember l h = h" and p: "shell_push_history sh = Some (sh\<lparr>current_history := history_count sh\<rparr>)"
    unfolding p r using past by (simp add: holds_past_def)
  consider (none) "l = [] \<or> h \<noteq> [] \<and> last h = l" | (full) "l \<noteq> []" "h \<noteq> []" "last h \<noteq> l" "length h = 5"
    | (more) "l \<noteq> []" "h = [] \<or> last h \<noteq> l" "length h < 5" using h(1) by fastforce
  then show ?thesis
  proof cases
    case none
    show ?thesis
      by (rule keep) (use none z last h(5) entry in \<open>auto simp: remember_def shell_push_history_def\<close>)
  next
    case full
    have r: "remember l h = tl h @ [l]" using full by (cases h) (simp_all add: remember_def newest_def)
    have t: "cmd_history sh = map (padded 80) h" using h(3,4) full(4) by simp
    have p: "shell_push_history sh = Some (sh\<lparr>cmd_history := tl (cmd_history sh) @ [padded 80 l], history_count := 5, current_history := 5\<rparr>)"
      using full z last entry by (simp add: shell_push_history_def)
    show ?thesis unfolding p r
      using full h(2) l(1) by (auto simp: holds_past_def t map_tl dest: list.set_sel(2) [rotated])
  next
    case more
    have r: "remember l h = h @ [l]" using more by (auto simp: remember_def)
    define n where "n = history_count sh + 1"
    have n: "unat n = length h + 1" using more h(5) unat_inc16 [of "history_count sh" 5] by (simp add: n_def word_less_nat_alt)
    define H where "H = (cmd_history sh)[length h := padded 80 l]"
    have p: "shell_push_history sh = Some (sh\<lparr>current_history := history_count sh, cmd_history := H, history_count := n, current_history := n\<rparr>)"
      using more z last entry h(5) by (auto simp: shell_push_history_def H_def n_def)
    have "take (length h + 1) H = map (padded 80) (h @ [l])"
      using h(3,4) more by (simp add: H_def take_Suc_conv_app_nth)
    then show ?thesis unfolding p r
      using more h l(1) n by (auto simp: holds_past_def H_def)
  qed
qed

lemma enter_edits:
  assumes e: "edits tab e sh" and k: "edit_key Enter_key e = Some e'"
  shows "\<exists>sh'. finsh_chars tab [0x0D] sh = Some sh' \<and> edits tab e' sh'"
proof -
  define l where "l = before e @ after e"
  define h where "h = remember l (past e)"
  have e': "e' = \<lparr>before = [], after = [], past = h, browsing = length h, entered = entered e @ [l]\<rparr>"
    using k by (simp add: Let_def l_def h_def)
  have st: "sh_stat sh = WAIT_NORMAL" and past: "holds_past (past e) (browsing e) sh" and line: "holds_line l (length (before e)) sh"
    and runs: "sh_runs sh = map (run_line tab) (entered e)"
    using e by (simp_all add: edits_def l_def)
  from holds_past_remember [OF past line] obtain sh1 where sh1: "shell_push_history sh = Some sh1" "holds_past h (length h) sh1"
    "sh1 = sh\<lparr>current_history := current_history sh1, history_count := history_count sh1, cmd_history := cmd_history sh1\<rparr>"
    by (auto simp: h_def)
  have f1: "sh_line sh1 = padded 81 l" "unat (line_position sh1) = length l" "sh_runs sh1 = sh_runs sh" "sh_stat sh1 = sh_stat sh"
    using line by (subst sh1(3); simp add: holds_line_def)+
  have "length l < 80" using line by (simp add: holds_line_def line_fits_def)
  then have "padded 81 l ! 80 = 0" "length l + 1 < length (padded 81 l)" by (simp_all add: padded_def nth_append)
  then obtain out r where ex: "msh_exec tab (padded 81 l) (length l) = Some (out, r)"
    using msh_exec_total [of "length l" "padded 81 l" 80 tab] \<open>length l < 80\<close> by auto
  then have r: "r = run_line tab l" by (simp add: run_line_def)
  define sh2 where "sh2 = sh1\<lparr>sh_runs := sh_runs sh1 @ [r], sh_line := replicate 81 0, line_position := 0, line_curpos := 0\<rparr>"
  have "\<exists>s. key_enter tab sh = Some ((say s sh1)\<lparr>sh_runs := sh_runs (say s sh1) @ [r], sh_line := replicate (80 + 1) 0, line_position := 0, line_curpos := 0\<rparr>)"
    using sh1(1) f1(1,2) ex by (auto simp: key_enter_def Let_def)
  moreover have "(say s sh1)\<lparr>sh_runs := sh_runs (say s sh1) @ [r], sh_line := replicate (80 + 1) 0, line_position := 0, line_curpos := 0\<rparr> = say s sh2"
    for s by (cases sh1) (simp add: sh2_def say_def)
  ultimately obtain s where "key_enter tab sh = Some (say s sh2)" by auto
  moreover have "finsh_char tab 0x0D sh = key_enter tab sh" using st by (simp add: finsh_char_def key_plain_def)
  moreover have "edits tab e' sh2"
    using sh1(2) f1(3,4) st runs by (simp add: edits_def e' sh2_def r) (simp add: holds_line_def holds_past_def line_fits_def padded_def)
  ultimately show ?thesis by simp
qed

lemma edits_key:
  assumes "edits tab e sh" "edit_key key e = Some e'"
  shows "\<exists>sh'. finsh_chars tab (key_bytes key) sh = Some sh' \<and> edits tab e' sh'"
proof (cases key)
  case Backspace_key
  then show ?thesis using backspace_edits [OF assms(1)] assms(2) by auto
qed (use assms char_edits left_edits right_edits enter_edits up_edits down_edits in \<open>simp_all del: finsh_chars_simps edit_key.simps\<close>)

lemma finsh_chars_append: "finsh_chars tab (xs @ ys) sh = Option.bind (finsh_chars tab xs sh) (finsh_chars tab ys)"
  by (induction xs arbitrary: sh) (auto simp: bind_assoc split: Option.bind_split)

lemma edits_new: "edits tab new_editor (finsh_start new_shell)"
  by (simp add: edits_def new_editor_def finsh_start_def new_shell_def Let_def) (simp add: holds_line_def holds_past_def line_fits_def padded_def)

end
