(* ===== verification/Shell_Theorems.thy ===== *)
theory Shell_Theorems
  imports Shell_Editor "HOL-Library.Sublist"
begin

section \<open>What the shell does\<close>

text \<open>
  A line is run as its words; the editor and its array agree whatever keys are pressed; completion; and where the
  editor leaves its array.
\<close>

subsection \<open>The words of a line\<close>

function blank_words :: "u8 list \<Rightarrow> u8 list list" where
  "blank_words [] = []"
| "blank_words (c # cs) =
    (if is_blank c then blank_words cs
     else takeWhile (\<lambda>c. \<not> is_blank c) (c # cs) # blank_words (dropWhile (\<lambda>c. \<not> is_blank c) cs))"
  by pat_completeness auto
termination by (relation "measure length") (auto simp: le_imp_less_Suc length_dropWhile_le)

lemma blank_words_blanks: "\<forall>c\<in>set bs. is_blank c \<Longrightarrow> blank_words (bs @ cs) = blank_words cs"
  by (induction bs) simp_all

lemma blank_words_word:
  assumes "w \<noteq> []" "\<forall>c\<in>set w. \<not> is_blank c" "cs = [] \<or> is_blank (hd cs)"
  shows "blank_words (w @ cs) = w # blank_words cs"
proof -
  obtain x w' where w: "w = x # w'" using assms(1) by (cases w) auto
  have "takeWhile (\<lambda>c. \<not> is_blank c) (w' @ cs) = w'" "dropWhile (\<lambda>c. \<not> is_blank c) (w' @ cs) = cs"
    using assms w by (cases cs; simp add: takeWhile_append2 dropWhile_append2)+
  then show ?thesis using w assms(2) by simp
qed

lemma skip_blanks_list:
  assumes "\<forall>c\<in>set bs. is_blank c" "length done + length bs \<le> len" "r \<noteq> []" "length done + length bs = len \<or> \<not> is_blank (hd r)"
  shows "skip_blanks len (length done) (done @ bs @ r) = Some (length done + length bs, done @ replicate (length bs) 0 @ r)"
  using assms
proof (induction bs arbitrary: "done")
  case Nil
  then show ?case by (subst skip_blanks.simps) (auto simp: nth_append hd_conv_nth)
next
  case (Cons b bs)
  have "skip_blanks len (length (done @ [0])) ((done @ [0]) @ bs @ r)
    = Some (length (done @ [0]) + length bs, (done @ [0]) @ replicate (length bs) 0 @ r)"
    using Cons.prems by (intro Cons.IH) auto
  then show ?case using Cons.prems by (subst skip_blanks.simps) (simp add: nth_append)
qed

lemma word_end_list:
  assumes "\<forall>c\<in>set w. \<not> is_blank c" "length done + length w \<le> len" "r \<noteq> []" "length done + length w = len \<or> is_blank (hd r)"
  shows "word_end len (length done) (done @ w @ r) = Some (length done + length w)"
  using assms
proof (induction w arbitrary: "done")
  case Nil
  then show ?case by (subst word_end.simps) (auto simp: nth_append hd_conv_nth)
next
  case (Cons b w)
  have "word_end len (length (done @ [b])) ((done @ [b]) @ w @ r) = Some (length (done @ [b]) + length w)"
    using Cons.prems by (intro Cons.IH) auto
  then show ?case using Cons.prems by (subst word_end.simps) (simp add: nth_append)
qed

lemma takeWhile_word: "0 \<notin> set w \<Longrightarrow> takeWhile (\<lambda>c. c \<noteq> (0 :: u8)) (w @ 0 # ys) = w"
  by (induction w) auto

lemma c_string_word:
  assumes "take (length (pre @ w)) xs = pre @ w" "length (pre @ w) < length xs" "xs ! length (pre @ w) = 0" "0 \<notin> set w"
  shows "c_string (length pre) xs = Some w"
proof -
  have "xs = (pre @ w) @ 0 # drop (Suc (length (pre @ w))) xs"
    using id_take_nth_drop [OF assms(2)] assms(1,3) by simp
  then obtain ys where xs: "xs = pre @ w @ 0 # ys" by simp
  show ?thesis using assms(4) unfolding xs c_string_append
    by (simp add: c_string_def takeWhile_word)
qed

lemma blanks_split:
  "\<exists>bs w r. xs = bs @ w @ r \<and> (\<forall>c\<in>set bs. is_blank c) \<and> (\<forall>c\<in>set w. \<not> is_blank c) \<and> (r = [] \<or> is_blank (hd r)) \<and> (w = [] \<longrightarrow> r = [])"
proof (intro exI conjI)
  let ?d = "dropWhile is_blank xs"
  show "xs = takeWhile is_blank xs @ takeWhile (\<lambda>c. \<not> is_blank c) ?d @ dropWhile (\<lambda>c. \<not> is_blank c) ?d" by simp
  show "\<forall>c\<in>set (takeWhile is_blank xs). is_blank c" "\<forall>c\<in>set (takeWhile (\<lambda>c. \<not> is_blank c) ?d). \<not> is_blank c"
    by (blast dest: set_takeWhileD)+
  show "dropWhile (\<lambda>c. \<not> is_blank c) ?d = [] \<or> is_blank (hd (dropWhile (\<lambda>c. \<not> is_blank c) ?d))"
    using hd_dropWhile by blast
  show "takeWhile (\<lambda>c. \<not> is_blank c) ?d = [] \<longrightarrow> dropWhile (\<lambda>c. \<not> is_blank c) ?d = []"
  proof
    assume e: "takeWhile (\<lambda>c. \<not> is_blank c) ?d = []"
    have "?d = []"
    proof (rule ccontr)
      assume "?d \<noteq> []"
      then obtain y ys where "?d = y # ys" by (cases ?d) blast+
      then show False using e hd_dropWhile [of is_blank xs] by simp
    qed
    then show "dropWhile (\<lambda>c. \<not> is_blank c) ?d = []" by (simp only: dropWhile.simps)
  qed
qed

text \<open>The rest \<open>rem\<close> of a line without quotes is split at its blanks, up to the eighth argument.\<close>

lemma msh_split_loop_words:
  assumes "0x22 \<notin> set rem" "0 \<notin> set rem" "length rem < rounds" "length argv \<le> 8" "len = length done + length rem"
  shows "\<exists>offs many cmd'. msh_split_loop rounds len (length done) argv (done @ rem @ 0 # rest) = Some (argv @ offs, many, cmd')
    \<and> map (\<lambda>i. c_string i cmd') offs = map Some (take (8 - length argv) (blank_words rem))
    \<and> length cmd' = len + 1 + length rest \<and> take (length done) cmd' = done
    \<and> (rem \<noteq> [] \<longrightarrow> is_blank (hd rem) \<longrightarrow> cmd' ! length done = 0)"
  using assms
proof (induction rounds arbitrary: rem argv "done")
  case (Suc rounds)
  obtain bs w r where rem: "rem = bs @ w @ r" and bs: "\<forall>c\<in>set bs. is_blank c" and w: "\<forall>c\<in>set w. \<not> is_blank c"
    and r: "r = [] \<or> is_blank (hd r)" "w = [] \<longrightarrow> r = []"
    using blanks_split [of rem] by blast
  define p where "p = length done + length bs"
  define d where "d = done @ replicate (length bs) 0"
  have d: "length d = p" by (simp add: d_def p_def)
  have "length done + length bs = len \<or> \<not> is_blank (hd (w @ r @ 0 # rest))"
    using w r(2) Suc.prems(5) rem by (cases w) auto
  then have skip: "skip_blanks len (length done) (done @ rem @ 0 # rest) = Some (p, d @ w @ r @ 0 # rest)"
    using skip_blanks_list [OF bs, of "done" len "w @ r @ 0 # rest"] Suc.prems(5) by (simp add: rem p_def d_def)
  have hd0: "rem \<noteq> [] \<longrightarrow> is_blank (hd rem) \<longrightarrow> bs \<noteq> []" using w r rem by (cases bs; cases w) auto
  have d0: "(d @ xs) ! length done = 0" if "bs \<noteq> []" for xs using that by (simp add: d_def nth_append)
  have z: "rem \<noteq> [] \<longrightarrow> is_blank (hd rem) \<longrightarrow> (d @ xs) ! length done = 0" for xs using hd0 d0 by blast
  have tk: "take (length done) (d @ xs) = done" for xs by (simp add: d_def)
  have ln: "length (d @ w @ r @ 0 # rest) = len + 1 + length rest" using Suc.prems(5) by (simp add: d p_def rem)
  have words: "blank_words rem = (if w = [] then [] else w # blank_words r)"
    using blank_words_word [of w r] w r by (simp add: rem blank_words_blanks [OF bs])
  show ?case
  proof (cases "rem = []")
    case True then show ?thesis using Suc.prems by auto
  next
    case False
    have lt: "\<not> len \<le> length done" using False Suc.prems(5) by simp
    show ?thesis
    proof (cases "8 \<le> length argv \<or> w = []")
      case True
      then have lp: "len \<le> p \<or> 8 \<le> length argv" using r(2) Suc.prems(5) by (auto simp: p_def rem)
      obtain many where "msh_split_loop (Suc rounds) len (length done) argv (done @ rem @ 0 # rest) = Some (argv, many, d @ w @ r @ 0 # rest)"
        using lt skip lp by (cases "8 \<le> length argv") simp_all
      moreover have "map (\<lambda>i. c_string i (d @ w @ r @ 0 # rest)) [] = map Some (take (8 - length argv) (blank_words rem))"
        using True words by auto
      ultimately show ?thesis using ln tk [of "w @ r @ 0 # rest"] z [of "w @ r @ 0 # rest"]
        by (intro exI [of _ "[]"] exI [of _ many] exI [of _ "d @ w @ r @ 0 # rest"] conjI) simp_all
    next
      case more: False
      have np: "\<not> len \<le> p" using more Suc.prems(5) by (cases w) (auto simp: p_def rem)
      have nq: "(d @ w @ r @ 0 # rest) ! p \<noteq> 0x22" using more Suc.prems(1) by (cases w) (auto simp: rem nth_append d)
      have q: "word_end len p (d @ w @ r @ 0 # rest) = Some (p + length w)"
        using word_end_list [OF w, of d len "r @ 0 # rest"] r Suc.prems(5) by (cases r) (auto simp: d p_def rem)
      show ?thesis
      proof (cases "r = []")
        case True
        then have "len \<le> p + length w" using Suc.prems(5) by (simp add: p_def rem)
        then have "msh_split_loop (Suc rounds) len (length done) argv (done @ rem @ 0 # rest) = Some (argv @ [p], False, d @ w @ 0 # rest)"
          using lt skip more np nq q True by simp
        moreover have "c_string p (d @ w @ 0 # rest) = Some w"
          using Suc.prems(2) by (simp add: d [symmetric] c_string_def takeWhile_word rem)
        moreover have "take (8 - length argv) (blank_words rem) = [w]" using more words True by (cases "8 - length argv") auto
        ultimately show ?thesis using ln tk [of "w @ r @ 0 # rest"] z [of "w @ r @ 0 # rest"] True
          by (intro exI [of _ "[p]"] exI [of _ False] exI [of _ "d @ w @ 0 # rest"] conjI) simp_all
      next
        case go: False
        then have nl: "\<not> len \<le> p + length w" using Suc.prems(5) by (simp add: p_def rem)
        have "length r < rounds" using Suc.prems(3) more by (cases w) (auto simp: rem)
        then obtain offs many cmd' where ih: "msh_split_loop rounds len (length (d @ w)) (argv @ [p]) ((d @ w) @ r @ 0 # rest) = Some ((argv @ [p]) @ offs, many, cmd')"
          "map (\<lambda>i. c_string i cmd') offs = map Some (take (8 - length (argv @ [p])) (blank_words r))"
          "length cmd' = len + 1 + length rest" "take (length (d @ w)) cmd' = d @ w" "cmd' ! length (d @ w) = 0"
          using Suc.IH [of r "argv @ [p]" "d @ w"] Suc.prems more go r(1) by (auto simp: rem d p_def)
        have eq: "msh_split_loop (Suc rounds) len (length done) argv (done @ rem @ 0 # rest) = Some (argv @ p # offs, many, cmd')"
          using lt skip more np nq q nl ih(1) d by simp
        have "c_string p cmd' = Some w"
          using c_string_word [of d w cmd'] ih(3-5) Suc.prems(2,5) by (simp add: d rem p_def)
        moreover have "take (8 - length argv) (blank_words rem) = w # take (8 - length (argv @ [p])) (blank_words r)"
        proof -
          have "8 - length argv = Suc (7 - length argv)" using more by linarith
          then show ?thesis using more words by simp
        qed
        moreover have "take (length done) cmd' = done" using arg_cong [OF ih(4), of "take (length done)"] by (simp add: d_def)
        moreover have "rem \<noteq> [] \<longrightarrow> is_blank (hd rem) \<longrightarrow> cmd' ! length done = 0"
        proof (intro impI)
          assume b: "rem \<noteq> []" "is_blank (hd rem)"
          then have "bs \<noteq> []" using hd0 by blast
          then have "cmd' ! length done = take (length (d @ w)) cmd' ! length done" by (simp add: d_def)
          also have "\<dots> = 0" unfolding ih(4) using z [of w] b by simp
          finally show "cmd' ! length done = 0" .
        qed
        ultimately show ?thesis using eq ih(2,3)
          by (intro exI [of _ "p # offs"] exI [of _ many] exI [of _ cmd'] conjI) simp_all
      qed
    qed
  qed
qed simp

definition find_command :: "finsh_syscall list \<Rightarrow> u8 list \<Rightarrow> nat option" where
  "find_command tab w = map_option sc_func (List.find (\<lambda>index. sc_name index = chars ''__cmd_'' @ w) tab)"

text \<open>What running a line comes to, in terms of its words.\<close>

definition run_words :: "finsh_syscall list \<Rightarrow> u8 list \<Rightarrow> msh_result" where
  "run_words tab l =
    (case blank_words l of
       [] \<Rightarrow> Msh_nothing
     | w # ws \<Rightarrow> (case find_command tab w of
         None \<Rightarrow> Msh_not_found (takeWhile (\<lambda>c. c \<noteq> 0x20) (dropWhile is_blank l))
       | Some f \<Rightarrow> Msh_run f (take 8 (w # ws))))"

lemma c_strncmp_take: "n \<le> length ys \<Longrightarrow> 0 \<notin> set (take n ys) \<Longrightarrow> c_strncmp xs ys n \<longleftrightarrow> take n xs = take n ys"
  by (induction xs ys n rule: c_strncmp.induct) auto

lemma cmd_prefix: "length (chars ''__cmd_'') = 6" "0 \<notin> set (chars ''__cmd_'')"
  by (simp_all add: chars_def of_char_def)

lemma is_command_prefix: "is_command index \<longleftrightarrow> take 6 (sc_name index) = chars ''__cmd_''"
  unfolding is_command_def using c_strncmp_take [of 6 "chars ''__cmd_''" "sc_name index"] cmd_prefix by simp

lemma msh_get_cmd_word:
  assumes "0 \<notin> set w"
  shows "msh_get_cmd tab (w @ xs) (length w) = find_command tab w"
proof -
  have "(is_command index \<and> c_strncmp (drop 6 (sc_name index) @ [0]) (w @ xs) (length w) \<and> length (sc_name index) = 6 + length w)
    \<longleftrightarrow> sc_name index = chars ''__cmd_'' @ w" for index
  proof -
    have c: "c_strncmp (drop 6 (sc_name index) @ [0]) (w @ xs) (length w) \<longleftrightarrow> take (length w) (drop 6 (sc_name index) @ [0]) = w"
      using c_strncmp_take [of "length w" "w @ xs"] assms by simp
    show ?thesis
    proof
      assume l: "is_command index \<and> c_strncmp (drop 6 (sc_name index) @ [0]) (w @ xs) (length w) \<and> length (sc_name index) = 6 + length w"
      then have "length (drop 6 (sc_name index)) = length w" by simp
      then have t: "take (length w) (drop 6 (sc_name index) @ [0]) = drop 6 (sc_name index)" by (metis append_eq_conv_conj)
      have "drop 6 (sc_name index) = w" using l unfolding c t by blast
      then show "sc_name index = chars ''__cmd_'' @ w"
        using l append_take_drop_id [of 6 "sc_name index"] by (simp add: is_command_prefix)
    next
      assume n: "sc_name index = chars ''__cmd_'' @ w"
      have "take 6 (sc_name index) = chars ''__cmd_''" "drop 6 (sc_name index) = w" "length (sc_name index) = 6 + length w"
        unfolding n using cmd_prefix(1) by simp_all
      then show "is_command index \<and> c_strncmp (drop 6 (sc_name index) @ [0]) (w @ xs) (length w) \<and> length (sc_name index) = 6 + length w"
        using c is_command_prefix by simp
    qed
  qed
  then show ?thesis by (simp add: msh_get_cmd_def find_command_def)
qed

lemma those_map_Some: "those (map Some xs) = Some xs"
  by (induction xs) simp_all

lemma msh_exec_words:
  assumes "line_fits l" "0x22 \<notin> set l"
  shows "run_line tab l = run_words tab l"
proof -
  define bs m where "bs = takeWhile is_blank l" and "m = dropWhile is_blank l"
  have l: "l = bs @ m" by (simp add: bs_def m_def)
  have bs: "\<forall>c\<in>set bs. is_blank c" by (simp add: bs_def) (metis set_takeWhileD)
  have m0: "m = [] \<or> \<not> is_blank (hd m)" unfolding m_def using hd_dropWhile by blast
  define zs where "zs = replicate (80 - length l) (0 :: u8)"
  have z: "81 - length l = Suc (length zs)" using assms(1) by (auto simp: zs_def line_fits_def)
  have "padded 81 l = l @ 0 # zs" unfolding padded_def z by (simp add: zs_def)
  then have pad: "padded 81 l = bs @ m @ 0 # zs" by (simp add: l)
  have n: "length (takeWhile is_blank (take (length l) (padded 81 l))) = length bs"
    by (simp add: padded_def bs_def)
  have d: "drop (length bs) (padded 81 l) = m @ 0 # zs" "length l - length bs = length m" unfolding pad by (simp_all add: l)
  have words: "blank_words l = blank_words m" unfolding l by (rule blank_words_blanks [OF bs])
  have lm: "0 \<notin> set m" "0x22 \<notin> set m" using assms by (auto simp: l line_fits_def)
  show ?thesis
  proof (cases "m = []")
    case True
    then show ?thesis using n d words by (simp add: run_line_def run_words_def msh_exec_def Let_def)
  next
    case False
    have nl: "\<not> length l \<le> length bs" using False d(2) by (cases m) auto
    define w r where "w = takeWhile (\<lambda>c. \<not> is_blank c) m" and "r = dropWhile (\<lambda>c. \<not> is_blank c) m"
    have m: "m = w @ r" by (simp add: w_def r_def)
    have w1: "w \<noteq> []" unfolding w_def using False m0 by (cases m) simp_all
    have w2: "\<forall>c\<in>set w. \<not> is_blank c" by (auto simp: w_def dest: set_takeWhileD)
    have w3: "0 \<notin> set w" using lm(1) by (simp add: m)
    note w = w1 w2 w3
    have r: "r = [] \<or> is_blank (hd r)" unfolding r_def using hd_dropWhile [of "\<lambda>c. \<not> is_blank c" m] by blast
    have bw: "blank_words m = w # blank_words r" unfolding m by (rule blank_words_word [OF w(1,2) r])
    have we: "word_end (length m) 0 (m @ 0 # zs) = Some (length w)"
      using word_end_list [OF w(2), of "[]" "length m" "r @ 0 # zs"] r by (cases r) (auto simp: m)
    have get: "msh_get_cmd tab (m @ 0 # zs) (length w) = find_command tab w"
      using msh_get_cmd_word [OF w(3)] by (simp add: m)
    obtain offs many cmd' where s: "msh_split (m @ 0 # zs) (length m) = Some (offs, many, cmd')"
      "map (\<lambda>i. c_string i cmd') offs = map Some (take 8 (blank_words m))"
      using msh_split_loop_words [of m "length m + 1" "[]" "length m" "[]" zs] lm by (auto simp: msh_split_def)
    have ne: "offs \<noteq> []" using s(2) bw by auto
    have cs: "c_string 0 (m @ 0 # zs) = Some m" using lm(1) by (simp add: c_string_def takeWhile_word)
    show ?thesis
    proof (cases "find_command tab w")
      case None
      then have "msh_exec_cmd tab (m @ 0 # zs) (length m) = Some None" using we w(1) get by (simp add: msh_exec_cmd_def)
      then show ?thesis using n d words bw nl None cs
        by (simp add: run_line_def run_words_def msh_exec_def Let_def m_def [symmetric])
    next
      case (Some f)
      then have "\<exists>out. msh_exec_cmd tab (m @ 0 # zs) (length m) = Some (Some (out, Msh_run f (take 8 (blank_words m))))"
        using we w(1) get s ne by (simp add: msh_exec_cmd_def those_map_Some Let_def)
      then show ?thesis using n d words bw nl Some
        by (auto simp: run_line_def run_words_def msh_exec_def Let_def)
    qed
  qed
qed

lemma edits_keys:
  "edits tab e sh \<Longrightarrow> \<forall>l\<in>set (entered e). line_fits l \<Longrightarrow> edit_keys keys e = Some e' \<Longrightarrow>
   \<exists>sh'. finsh_chars tab (concat (map key_bytes keys)) sh = Some sh' \<and> edits tab e' sh' \<and> (\<forall>l\<in>set (entered e'). line_fits l)"
proof (induction keys arbitrary: e sh)
  case (Cons key keys)
  from Cons.prems(3) obtain e1 where e1: "edit_key key e = Some e1" "edit_keys keys e1 = Some e'"
    by (auto split: option.split_asm)
  obtain sh1 where sh1: "finsh_chars tab (key_bytes key) sh = Some sh1" "edits tab e1 sh1"
    using edits_key [OF Cons.prems(1) e1(1)] by blast
  have "line_fits (before e @ after e)" using Cons.prems(1) by (simp add: edits_def holds_line_def)
  then have "\<forall>l\<in>set (entered e1). line_fits l"
    using Cons.prems(2) e1(1) by (cases key) (auto simp: Let_def recall_def split: if_split_asm)
  from Cons.IH [OF sh1(2) this e1(2)] show ?case
    using sh1(1) by (simp add: finsh_chars_append del: finsh_chars_simps)
qed simp

lemma padded_history:
  assumes "holds_past h i sh"
  shows "map (c_string 0) (take (unat (history_count sh)) (cmd_history sh)) = map Some h"
proof -
  have "\<forall>l\<in>set h. c_string 0 (padded 80 l) = Some l" using assms by (simp add: holds_past_def line_fits_def)
  then show ?thesis using assms by (simp add: holds_past_def)
qed

text \<open>C29. The shell is a line editor. Whatever keys are pressed, as long as no line reaches 80 characters, its
  array holds the text before and after the cursor, its history the last five different lines, and each line that
  was entered has been run as the words it consists of, quotes apart: the command of the first word with at most eight
  arguments, or an error message.\<close>

theorem shell_runs_the_line:
  assumes keys: "edit_keys keys new_editor = Some e" and plain: "\<forall>l\<in>set (entered e). 0x22 \<notin> set l"
  shows "\<exists>sh. finsh_chars tab (concat (map key_bytes keys)) (finsh_start new_shell) = Some sh
    \<and> c_string 0 (sh_line sh) = Some (before e @ after e)
    \<and> unat (line_curpos sh) = length (before e) \<and> unat (line_position sh) = length (before e @ after e)
    \<and> map (c_string 0) (take (unat (history_count sh)) (cmd_history sh)) = map Some (past e)
    \<and> sh_runs sh = map (run_words tab) (entered e)"
proof -
  obtain sh where sh: "finsh_chars tab (concat (map key_bytes keys)) (finsh_start new_shell) = Some sh" "edits tab e sh"
    "\<forall>l\<in>set (entered e). line_fits l"
    using edits_keys [OF edits_new _ keys, of tab] by (auto simp: new_editor_def)
  have "map (run_line tab) (entered e) = map (run_words tab) (entered e)" using sh(3) plain msh_exec_words by simp
  moreover have "c_string 0 (padded 81 (before e @ after e)) = Some (before e @ after e)" "line_fits (before e @ after e)"
    using sh(2) by (simp_all add: edits_def holds_line_def, simp add: line_fits_def)
  ultimately show ?thesis using sh(1,2) padded_history [of "past e" "browsing e" sh] by (auto simp: edits_def holds_line_def)
qed

text \<open>\<open>ls\<close> typed with a slip, corrected, entered, and called up again.\<close>

theorem shell_runs_the_line_witness:
  "\<exists>sh. finsh_chars [\<lparr>sc_name = chars ''__cmd_ls'', sc_desc = [], sc_func = 3\<rparr>]
      ([0x73] @ [0x1B, 0x5B, 0x44] @ [0x6C] @ [0x1B, 0x5B, 0x43] @ [0x74] @ [0x7F] @ [0x0D] @ [0x1B, 0x5B, 0x41]) (finsh_start new_shell) = Some sh
    \<and> c_string 0 (sh_line sh) = Some [0x6C, 0x73] \<and> sh_runs sh = [Msh_run 3 [[0x6C, 0x73]]]"
proof -
  let ?keys = "[Char_key 0x73, Left_key, Char_key 0x6C, Right_key, Char_key 0x74, Backspace_key, Enter_key, Up_key]"
  let ?e = "\<lparr>before = [0x6C, 0x73], after = [], past = [[0x6C, 0x73]], browsing = 0, entered = [[0x6C, 0x73]]\<rparr>"
  have "edit_keys ?keys new_editor = Some ?e"
    by (simp add: new_editor_def printable_def remember_def recall_def Let_def)
  moreover have "run_words [\<lparr>sc_name = chars ''__cmd_ls'', sc_desc = [], sc_func = 3\<rparr>] [0x6C, 0x73] = Msh_run 3 [[0x6C, 0x73]]"
    by (simp add: run_words_def find_command_def is_blank_def chars_def of_char_def)
  ultimately show ?thesis
    using shell_runs_the_line [of ?keys ?e "[\<lparr>sc_name = chars ''__cmd_ls'', sc_desc = [], sc_func = 3\<rparr>]"]
    by (auto simp del: finsh_chars_simps)
qed

subsection \<open>Where the editor leaves its array\<close>

lemma edit_keys_chars:
  "printable c \<Longrightarrow> length (before e) + length (after e) + n < 80 \<Longrightarrow>
   edit_keys (replicate n (Char_key c)) e = Some (e\<lparr>before := before e @ replicate n c\<rparr>)"
  by (induction n arbitrary: e) simp_all

lemma longer_differs: "length ys < n \<Longrightarrow> n \<le> length xs \<Longrightarrow> 0 \<notin> set xs \<Longrightarrow> \<not> c_strncmp xs (ys @ [0]) n"
proof (induction ys arbitrary: xs n)
  case Nil
  then show ?case by (cases xs; cases n) auto
next
  case (Cons y ys)
  then show ?case by (cases xs; cases n) auto
qed

lemma no_completion:
  assumes "\<forall>index\<in>set tab. length (sc_name index) < length p" "0 \<notin> set p"
  shows "fold (complete_round p) tab st = st"
  using assms(1)
proof (induction tab)
  case (Cons index tab)
  have "\<not> c_strncmp p (drop 6 (sc_name index) @ [0]) (length p)"
    using Cons.prems assms(2) by (intro longer_differs) auto
  then show ?case using Cons by (simp add: complete_round_def split: prod.split)
qed simp


text \<open>Eighty characters fill the line; the completion takes them for a line of 80, which the next character starts again
  at its beginning while the cursor stays.\<close>

lemma tab_overruns:
  assumes names: "\<forall>index\<in>set tab. length (sc_name index) < 80"
  shows "finsh_chars tab (replicate 80 0x61 @ [0x09, 0x61, 0x08, 0x08]) (finsh_start new_shell) = None"
proof -
  let ?a = "replicate 80 (0x61 :: u8)"
  have "edit_keys (replicate 79 (Char_key 0x61)) new_editor = Some (new_editor\<lparr>before := replicate 79 0x61\<rparr>)"
    using edit_keys_chars [of "0x61" new_editor 79] by (simp add: printable_def new_editor_def)
  then obtain sh where sh: "finsh_chars tab (replicate 79 0x61) (finsh_start new_shell) = Some sh"
    "edits tab (new_editor\<lparr>before := replicate 79 0x61\<rparr>) sh"
    using edits_keys [OF edits_new, where keys = "replicate 79 (Char_key 0x61)" and tab = tab] by (auto simp: new_editor_def map_replicate_const concat_replicate_single)
  have l: "sh_line sh = padded 81 (replicate 79 0x61)" "line_position sh = 79" "line_curpos sh = 79" "sh_stat sh = WAIT_NORMAL"
    using sh(2) by (simp_all add: edits_def holds_line_def new_editor_def word_unat_eq_iff)
  have full: "mem_set 79 0x61 (padded 81 (replicate 79 0x61)) = Some (padded 81 ?a)"
    using set_end_line(1) [of "replicate 79 0x61" "0x61"] by (simp add: replicate_append_same flip: replicate_Suc)
  have pa: "padded 81 ?a = ?a @ [0]" by (simp add: padded_def)
  have s: "c_string 0 (padded 81 ?a) = Some ?a" by (rule padded_string) simp_all
  have step1: "\<exists>sh1. finsh_char tab 0x61 sh = Some sh1 \<and> sh_line sh1 = padded 81 ?a \<and> line_position sh1 = 0
      \<and> line_curpos sh1 = 0 \<and> sh_stat sh1 = WAIT_NORMAL"
    using l full by (simp add: finsh_char_def key_plain_def key_char_def line_advance_def)
  then obtain sh1 where sh1: "finsh_char tab 0x61 sh = Some sh1" "sh_line sh1 = padded 81 ?a" "line_curpos sh1 = 0"
    "sh_stat sh1 = WAIT_NORMAL" by blast
  have "msh_auto_complete tab (padded 81 ?a) = Some ([], padded 81 ?a)"
    using no_completion [of tab ?a "(None, 0, [])"] names s by (simp add: msh_auto_complete_def)
  then have "\<exists>sh2. finsh_char tab 0x09 sh1 = Some sh2 \<and> sh_line sh2 = padded 81 ?a \<and> line_position sh2 = 80
      \<and> line_curpos sh2 = 80 \<and> sh_stat sh2 = WAIT_NORMAL"
    using sh1 s by (simp add: finsh_char_def key_plain_def key_tab_def shell_auto_complete_def)
  then obtain sh2 where sh2: "finsh_char tab 0x09 sh1 = Some sh2" "sh_line sh2 = padded 81 ?a" "line_position sh2 = 80"
    "line_curpos sh2 = 80" "sh_stat sh2 = WAIT_NORMAL" by blast
  have "mem_set 0 0x61 (padded 81 ?a) = Some (padded 81 ?a)" unfolding pa by (simp add: mem_set_def numeral_nat)
  then have "\<exists>sh3. finsh_char tab 0x61 sh2 = Some sh3 \<and> sh_line sh3 = padded 81 ?a \<and> line_position sh3 = 1
      \<and> line_curpos sh3 = 81 \<and> sh_stat sh3 = WAIT_NORMAL"
    using sh2 by (simp add: finsh_char_def key_plain_def key_char_def line_advance_def Let_def word_le_nat_alt)
  then obtain sh3 where sh3: "finsh_char tab 0x61 sh2 = Some sh3" "length (sh_line sh3) = 81" "line_position sh3 = 1"
    "line_curpos sh3 = 81" "sh_stat sh3 = WAIT_NORMAL" by force
  have "sh_line sh3 \<noteq> []" using sh3(2) by auto
  then have "\<exists>sh4. finsh_char tab 0x08 sh3 = Some sh4 \<and> length (sh_line sh4) = 81 \<and> line_position sh4 = 0
      \<and> line_curpos sh4 = 80 \<and> sh_stat sh4 = WAIT_NORMAL"
    using sh3(2-5) by (simp add: finsh_char_def key_plain_def key_backspace_def mem_set_def Let_def)
  then obtain sh4 where sh4: "finsh_char tab 0x08 sh3 = Some sh4" "length (sh_line sh4) = 81" "line_position sh4 = 0"
    "line_curpos sh4 = 80" "sh_stat sh4 = WAIT_NORMAL" by blast
  have "unat (- 1 :: u16) = 65535" by (simp add: unsigned_minus_1_eq_mask mask_eq_exp_minus_1)
  then have "finsh_char tab 0x08 sh4 = None"
    using sh4(2-5) by (simp add: finsh_char_def key_plain_def key_backspace_def mem_move_def Let_def word_less_nat_alt)
  moreover have "replicate 80 (0x61 :: u8) @ [0x09, 0x61, 0x08, 0x08] = replicate 79 0x61 @ [0x61, 0x09, 0x61, 0x08, 0x08]"
    by (simp add: replicate_append_same flip: replicate_Suc)
  ultimately show ?thesis using sh(1) sh1(1) sh2(1) sh3(1) sh4(1) by (simp add: finsh_chars_append)
qed


text \<open>C30. The indices of the editor and every access it makes to its arrays stay in range, whatever bytes are received, as long
  as none is a tab. With a tab they do not: after 80 characters, a tab, a character and two backspaces, the editor moves 65456
  bytes from behind its line.\<close>

theorem shell_stays_in_line:
  "(0x09 \<notin> set chs \<longrightarrow> (\<exists>sh. finsh_chars tab chs (finsh_start new_shell) = Some sh \<and> length (sh_line sh) = 81
     \<and> line_curpos sh \<le> line_position sh \<and> line_position sh < 80 \<and> history_count sh \<le> 5 \<and> current_history sh \<le> history_count sh))
   \<and> ((\<forall>index\<in>set tab. length (sc_name index) < 80) \<longrightarrow>
     finsh_chars tab (replicate 80 0x61 @ [0x09, 0x61, 0x08, 0x08]) (finsh_start new_shell) = None)"
proof (intro conjI impI)
  assume "0x09 \<notin> set chs"
  from finsh_chars_ok [OF this shell_ok_new, of tab] obtain sh where
    "finsh_chars tab chs (finsh_start new_shell) = Some sh" "shell_ok sh" by blast
  then show "\<exists>sh. finsh_chars tab chs (finsh_start new_shell) = Some sh \<and> length (sh_line sh) = 81
     \<and> line_curpos sh \<le> line_position sh \<and> line_position sh < 80 \<and> history_count sh \<le> 5 \<and> current_history sh \<le> history_count sh"
    unfolding shell_ok_def by blast
qed (rule tab_overruns)

theorem shell_stays_in_line_witness:
  "(\<exists>sh. finsh_chars [] (replicate 200 0x41 @ [0x0D, 0x1B, 0x5B, 0x41]) (finsh_start new_shell) = Some sh \<and> line_position sh < 80)
   \<and> finsh_chars [] (replicate 80 0x61 @ [0x09, 0x61, 0x08, 0x08]) (finsh_start new_shell) = None"
proof
  have "0x09 \<notin> set (replicate 200 (0x41 :: u8) @ [0x0D, 0x1B, 0x5B, 0x41])" by simp
  then show "\<exists>sh. finsh_chars [] (replicate 200 0x41 @ [0x0D, 0x1B, 0x5B, 0x41]) (finsh_start new_shell) = Some sh \<and> line_position sh < 80"
    using shell_stays_in_line by blast
  show "finsh_chars [] (replicate 80 0x61 @ [0x09, 0x61, 0x08, 0x08]) (finsh_start new_shell) = None"
    using shell_stays_in_line by force
qed

subsection \<open>Completion\<close>

definition matching :: "finsh_syscall list \<Rightarrow> u8 list \<Rightarrow> u8 list list" where
  "matching tab p = map (\<lambda>index. drop 6 (sc_name index))
     (filter (\<lambda>index. take 6 (sc_name index) = chars ''__cmd_'' \<and> prefix p (drop 6 (sc_name index))) tab)"

definition completion :: "finsh_syscall list \<Rightarrow> u8 list \<Rightarrow> u8 list" where
  "completion tab p = (if matching tab p = [] then p else Longest_common_prefix (set (matching tab p)))"

lemma c_strncmp_prefix: "0 \<notin> set p \<Longrightarrow> c_strncmp p (ys @ [0]) (length p) \<longleftrightarrow> prefix p ys"
proof (induction p arbitrary: ys)
  case (Cons x p)
  show ?case
  proof (cases ys)
    case Nil
    then show ?thesis using Cons.prems by simp
  next
    case c: (Cons y ys')
    then show ?thesis using Cons.IH [of ys'] Cons.prems by simp
  qed
qed simp

lemma str_common_prefix: "prefix (take (str_common xs ys) xs) ys"
  by (induction xs ys rule: str_common.induct) auto

lemma str_common_longest: "prefix q xs \<Longrightarrow> prefix q ys \<Longrightarrow> 0 \<notin> set q \<Longrightarrow> length q \<le> str_common xs ys"
proof (induction q arbitrary: xs ys)
  case (Cons c q)
  obtain xs' where xs: "xs = c # xs'" "prefix q xs'" using Cons.prems(1) by (cases xs) simp_all
  obtain ys' where ys: "ys = c # ys'" "prefix q ys'" using Cons.prems(2) by (cases ys) simp_all
  show ?case using Cons.IH [OF xs(2) ys(2)] Cons.prems(3) by (simp add: xs(1) ys(1))
qed simp

text \<open>The loop has found \<open>k\<close> bytes common to all the names \<open>ms\<close>, and no more are.\<close>

definition common_length :: "u8 list list \<Rightarrow> nat \<Rightarrow> bool" where
  "common_length ms k \<longleftrightarrow> k \<le> length (hd ms) \<and> (\<forall>m\<in>set ms. prefix (take k (hd ms)) m)
     \<and> (\<forall>q. (\<forall>m\<in>set ms. prefix q m) \<longrightarrow> length q \<le> k)"

lemma common_length_first: "common_length [m] (length m)"
  by (auto simp: common_length_def prefix_length_le)

lemma common_length_snoc:
  assumes k: "common_length ms k" and ms: "ms \<noteq> []" and z: "0 \<notin> set (hd ms)"
  shows "common_length (ms @ [m]) (min k (str_common (hd ms) m))"
proof -
  let ?k = "min k (str_common (hd ms) m)"
  have hd: "hd (ms @ [m]) = hd ms" using ms by simp
  have t: "prefix (take ?k (hd ms)) (take k (hd ms))" "prefix (take ?k (hd ms)) (take (str_common (hd ms) m) (hd ms))"
    by (metis min.cobounded1 min.cobounded2 min_def take_is_prefix take_take)+
  have "prefix (take ?k (hd ms)) x" if "x \<in> set (ms @ [m])" for x
  proof (cases "x = m")
    case True
    then show ?thesis using t(2) str_common_prefix prefix_order.trans by blast
  next
    case False
    then have "x \<in> set ms" using that by simp
    then show ?thesis using t(1) k prefix_order.trans unfolding common_length_def by blast
  qed
  moreover have "length q \<le> ?k" if q: "\<forall>x\<in>set (ms @ [m]). prefix q x" for q
  proof -
    have "prefix q (hd ms)" "prefix q m" "length q \<le> k" using q ms k by (simp_all add: common_length_def)
    then show ?thesis using str_common_longest [of q "hd ms" m] z by (auto dest: set_mono_prefix)
  qed
  moreover have "?k \<le> length (hd ms)" using k by (auto simp: common_length_def)
  ultimately show ?thesis unfolding common_length_def hd by blast
qed

lemma common_length_lcp:
  assumes "common_length ms k" "ms \<noteq> []"
  shows "take k (hd ms) = Longest_common_prefix (set ms)" "k = length (Longest_common_prefix (set ms))"
proof -
  let ?l = "Longest_common_prefix (set ms)"
  have ne: "set ms \<noteq> {}" using assms(2) by simp
  have l: "\<forall>m\<in>set ms. prefix ?l m" using Longest_common_prefix_prefix by blast
  have c: "\<forall>m\<in>set ms. prefix (take k (hd ms)) m" using assms(1) unfolding common_length_def by blast
  have "prefix (take k (hd ms)) ?l" by (rule Longest_common_prefix_max_prefix) (use c ne in auto)
  then obtain zs where zs: "?l = take k (hd ms) @ zs" by (auto simp: prefix_def)
  moreover have "length ?l \<le> k" using assms(1) l unfolding common_length_def by blast
  moreover have "length (take k (hd ms)) = k" using assms(1) by (simp add: common_length_def)
  ultimately show "take k (hd ms) = ?l" "k = length ?l" by auto
qed

lemma str_common_self: "0 \<notin> set xs \<Longrightarrow> str_common xs xs = length xs"
  by (induction xs) auto

definition completing :: "u8 list \<Rightarrow> u8 list list \<Rightarrow> u8 list option \<times> nat \<times> u8 list \<Rightarrow> bool" where
  "completing p ms st \<longleftrightarrow> (\<forall>m\<in>set ms. prefix p m \<and> 0 \<notin> set m) \<and>
     (if ms = [] then fst st = None \<and> fst (snd st) = 0 else fst st = Some (hd ms) \<and> common_length ms (fst (snd st)))"

lemma complete_round_completing:
  assumes st: "completing p ms st" and p: "p \<noteq> []" "0 \<notin> set p" and z: "0 \<notin> set (sc_name index)"
  shows "completing p (ms @ matching [index] p) (complete_round p index st)"
proof -
  obtain name_ptr k out where s: "st = (name_ptr, k, out)" by (cases st)
  define m where "m = drop 6 (sc_name index)"
  have zm: "0 \<notin> set m" unfolding m_def using z by (blast dest: in_set_dropD)
  have guard: "is_command index \<and> c_strncmp p (m @ [0]) (length p) \<longleftrightarrow> take 6 (sc_name index) = chars ''__cmd_'' \<and> prefix p m"
    using c_strncmp_prefix [OF p(2)] by (simp add: is_command_prefix)
  show ?thesis
  proof (cases "take 6 (sc_name index) = chars ''__cmd_'' \<and> prefix p m")
    case False
    then have "matching [index] p = []" "complete_round p index st = st"
      using guard by (auto simp: matching_def complete_round_def s Let_def m_def)
    then show ?thesis using st by simp
  next
    case True
    then have mt: "matching [index] p = [m]" by (simp add: matching_def m_def)
    show ?thesis
    proof (cases "ms = []")
      case True
      then have "k = 0" "name_ptr = None" using st by (simp_all add: completing_def s)
      then have "complete_round p index st = (Some m, length m, out @ m @ [0x0A])"
        using guard \<open>take 6 (sc_name index) = chars ''__cmd_'' \<and> prefix p m\<close> str_common_self [OF zm]
        by (simp add: complete_round_def s Let_def m_def [symmetric])
      then show ?thesis using True zm \<open>take 6 (sc_name index) = chars ''__cmd_'' \<and> prefix p m\<close> common_length_first
        by (simp add: completing_def mt)
    next
      case False
      then have h: "name_ptr = Some (hd ms)" "common_length ms k" "\<forall>m\<in>set ms. prefix p m" "0 \<notin> set (hd ms)"
        using st by (simp_all add: completing_def s)
      have "length p \<le> k" using h(2,3) unfolding common_length_def by blast
      then have "k \<noteq> 0" using p(1) by (cases p) auto
      then have "complete_round p index st = (Some (hd ms), min k (str_common (hd ms) m), out @ m @ [0x0A])"
        using guard True h(1) by (simp add: complete_round_def s Let_def m_def [symmetric] min_def)
      then show ?thesis using st False zm True common_length_snoc [OF h(2) False h(4)]
        by (simp add: completing_def mt)
    qed
  qed
qed

lemma fold_completing:
  "completing p ms st \<Longrightarrow> p \<noteq> [] \<Longrightarrow> 0 \<notin> set p \<Longrightarrow> \<forall>index\<in>set tab. 0 \<notin> set (sc_name index) \<Longrightarrow>
   completing p (ms @ matching tab p) (fold (complete_round p) tab st)"
proof (induction tab arbitrary: ms st)
  case Nil
  then show ?case by (simp add: matching_def)
next
  case (Cons index tab)
  have "matching (index # tab) p = matching [index] p @ matching tab p" by (simp add: matching_def)
  then show ?case using Cons.IH [OF complete_round_completing [OF Cons.prems(1-3)]] Cons.prems by simp
qed

lemma auto_complete_line:
  assumes p: "p \<noteq> []" "line_fits p" and tab: "\<forall>index\<in>set tab. 0 \<notin> set (sc_name index) \<and> length (sc_name index) < 80"
  shows "\<exists>out. msh_auto_complete tab (padded 81 p) = Some (out, padded 81 (completion tab p)) \<and> line_fits (completion tab p)"
proof -
  obtain name_ptr k out where f: "fold (complete_round p) tab (None, 0, []) = (name_ptr, k, out)" by (metis prod_cases3)
  have pz: "0 \<notin> set p" "length p < 80" using p(2) by (simp_all add: line_fits_def)
  have "completing p [] (None, 0, [])" by (simp add: completing_def)
  moreover have "\<forall>index\<in>set tab. 0 \<notin> set (sc_name index)" using tab by blast
  ultimately have c: "completing p (matching tab p) (name_ptr, k, out)"
    using fold_completing [of p "[]" "(None, 0, [])" tab] p(1) pz(1) by (simp add: f)
  have s: "c_string 0 (padded 81 p) = Some p" using pz by simp
  show ?thesis
  proof (cases "matching tab p = []")
    case True
    then have "name_ptr = None" using c by (simp add: completing_def)
    then show ?thesis using s p f True by (simp add: msh_auto_complete_def completion_def)
  next
    case False
    let ?q = "Longest_common_prefix (set (matching tab p))"
    have k: "name_ptr = Some (hd (matching tab p))" "common_length (matching tab p) k" using c False by (simp_all add: completing_def)
    note l = common_length_lcp [OF k(2) False]
    have hm: "hd (matching tab p) \<in> set (matching tab p)" using False by simp
    then have hz: "0 \<notin> set (hd (matching tab p))" using c False by (simp add: completing_def)
    have "length (hd (matching tab p)) < 80" using hm tab by (force simp: matching_def)
    then have k80: "k < 80" using k(2) by (simp add: common_length_def)
    have pk: "length p \<le> k" using k(2) c unfolding common_length_def completing_def by blast
    have fits: "line_fits ?q" using hz k80 l(2) unfolding line_fits_def l(1) [symmetric]
      by (auto dest: in_set_takeD)
    have "take k (hd (matching tab p)) @ drop k (padded 81 p) = padded 81 ?q"
      using pk l by (simp add: padded_def)
    then show ?thesis using s p(1) f k(1) k80 pz fits False
      by (simp add: msh_auto_complete_def completion_def)
  qed
qed

text \<open>C31. Tab completes the line: after any keys, with a line that is not empty, it becomes the longest text that all the
  commands starting with it have in common, or stays as it is when there is none, and the cursor goes to its end.\<close>

theorem tab_completes:
  assumes keys: "edit_keys keys new_editor = Some e" and line: "before e @ after e \<noteq> []"
    and tab: "\<forall>index\<in>set tab. 0 \<notin> set (sc_name index) \<and> length (sc_name index) < 80"
  shows "\<exists>sh. finsh_chars tab (concat (map key_bytes keys) @ [0x09]) (finsh_start new_shell) = Some sh
    \<and> edits tab (e\<lparr>before := completion tab (before e @ after e), after := []\<rparr>) sh"
proof -
  define p where "p = before e @ after e"
  define q where "q = completion tab p"
  obtain sh where sh: "finsh_chars tab (concat (map key_bytes keys)) (finsh_start new_shell) = Some sh" "edits tab e sh"
    using edits_keys [OF edits_new _ keys, of tab] by (auto simp: new_editor_def)
  have l: "holds_line p (length (before e)) sh" "sh_stat sh = WAIT_NORMAL" using sh(2) by (simp_all add: edits_def p_def)
  then have pl: "sh_line sh = padded 81 p" "line_fits p" by (simp_all add: holds_line_def)
  obtain out where ac: "msh_auto_complete tab (padded 81 p) = Some (out, padded 81 q)" "line_fits q"
    using auto_complete_line [OF _ pl(2) tab] line by (auto simp: p_def q_def)
  have qs: "c_string 0 (padded 81 q) = Some q" using ac(2) by (simp add: line_fits_def)
  define n where "n = (of_nat (length q) :: u16)"
  have n: "unat n = length q" using ac(2) by (simp add: n_def line_fits_def unat_of_nat)
  define sh' where "sh' = sh\<lparr>sh_line := padded 81 q, line_position := n, line_curpos := n\<rparr>"
  have "\<exists>s. finsh_char tab 0x09 sh = Some (say s sh')"
    using l(2) pl(1) ac(1) qs
    by (cases sh) (simp add: finsh_char_def key_plain_def key_tab_def shell_auto_complete_def sh'_def n_def say_def)
  moreover have "holds_line q (length q) sh'" using n ac(2) by (simp add: holds_line_def sh'_def)
  then have "edits tab (e\<lparr>before := q, after := []\<rparr>) sh'"
    using edits_line [OF sh(2), of q q sh' "[]"] by (simp add: sh'_def)
  ultimately show ?thesis using sh(1) by (auto simp: finsh_chars_append q_def p_def)
qed

theorem tab_completes_witness:
  "\<exists>sh. finsh_chars [\<lparr>sc_name = chars ''__cmd_list'', sc_desc = [], sc_func = 1\<rparr>, \<lparr>sc_name = chars ''__cmd_lisp'', sc_desc = [], sc_func = 2\<rparr>]
      [0x6C, 0x09] (finsh_start new_shell) = Some sh \<and> unat (line_curpos sh) = 3"
proof -
  let ?tab = "[\<lparr>sc_name = chars ''__cmd_list'', sc_desc = [], sc_func = 1\<rparr>, \<lparr>sc_name = chars ''__cmd_lisp'', sc_desc = [], sc_func = 2\<rparr>]"
  have k: "edit_keys [Char_key 0x6C] new_editor = Some (new_editor\<lparr>before := [0x6C]\<rparr>)" by (simp add: new_editor_def printable_def)
  have t: "\<forall>index\<in>set ?tab. 0 \<notin> set (sc_name index) \<and> length (sc_name index) < 80" by (simp add: chars_def of_char_def)
  have "set (matching ?tab [0x6C]) = {[0x6C, 0x69, 0x73, 0x74], [0x6C, 0x69, 0x73, 0x70]}"
    "matching ?tab [0x6C] \<noteq> []"
    by (simp_all add: matching_def chars_def of_char_def)
  moreover have "Longest_common_prefix {[0x6C, 0x69, 0x73, 0x74 :: u8], [0x6C, 0x69, 0x73, 0x70]} = [0x6C, 0x69, 0x73]"
    by (rule Longest_common_prefix_eq) (auto simp: prefix_Cons)
  ultimately have "completion ?tab [0x6C] = [0x6C, 0x69, 0x73]" by (simp add: completion_def)
  then show ?thesis using tab_completes [OF k _ t] by (auto simp: new_editor_def edits_def holds_line_def)
qed

end
