(* ===== verification/Device.thy ===== *)
theory Device
  imports Kernel_Object
begin

section \<open>The device framework (\<open>rt-thread/src/device.c\<close>)\<close>

text \<open>
  A device: its flags, its count of opens and the state of its driver. The functions of the driver
  are a record, each of them possibly absent. Reading and writing also give the error number that is
  set. The locale \<open>driver\<close> is what the framework relies on: a driver leaves the count of opens alone.
\<close>

abbreviation (input) RT_EBUSY :: rt_err_t where "RT_EBUSY \<equiv> 7"
abbreviation (input) RT_EIO :: rt_err_t where "RT_EIO \<equiv> 8"

definition RT_DEVICE_FLAG_STANDALONE :: u16 where "RT_DEVICE_FLAG_STANDALONE = 0x008"
definition RT_DEVICE_FLAG_ACTIVATED :: u16 where "RT_DEVICE_FLAG_ACTIVATED = 0x010"
definition RT_DEVICE_FLAG_SUSPENDED :: u16 where "RT_DEVICE_FLAG_SUSPENDED = 0x020"
definition RT_DEVICE_FLAG_STREAM :: u16 where "RT_DEVICE_FLAG_STREAM = 0x040"
definition RT_DEVICE_FLAG_INT_RX :: u16 where "RT_DEVICE_FLAG_INT_RX = 0x100"
definition RT_DEVICE_FLAG_DMA_RX :: u16 where "RT_DEVICE_FLAG_DMA_RX = 0x200"
definition RT_DEVICE_FLAG_INT_TX :: u16 where "RT_DEVICE_FLAG_INT_TX = 0x400"
definition RT_DEVICE_FLAG_DMA_TX :: u16 where "RT_DEVICE_FLAG_DMA_TX = 0x800"
definition RT_DEVICE_OFLAG_CLOSE :: u16 where "RT_DEVICE_OFLAG_CLOSE = 0x000"
definition RT_DEVICE_OFLAG_OPEN :: u16 where "RT_DEVICE_OFLAG_OPEN = 0x008"
definition RT_DEVICE_OFLAG_MASK :: u16 where "RT_DEVICE_OFLAG_MASK = 0xf0f"

record 's rt_device =
  dev_flag :: u16
  dev_open_flag :: u16
  dev_ref_count :: u8
  dev_rx_indicate :: "nat option"
  dev_tx_complete :: "nat option"
  dev_data :: 's

record ('s, 'a) rt_device_ops =
  op_init :: "('s rt_device \<Rightarrow> rt_err_t \<times> 's rt_device) option"
  op_open :: "(u16 \<Rightarrow> 's rt_device \<Rightarrow> rt_err_t \<times> 's rt_device) option"
  op_close :: "('s rt_device \<Rightarrow> rt_err_t \<times> 's rt_device) option"
  op_read :: "(int \<Rightarrow> nat \<Rightarrow> 's rt_device \<Rightarrow> u8 list \<times> 's rt_device) option"
  op_write :: "(int \<Rightarrow> u8 list \<Rightarrow> 's rt_device \<Rightarrow> nat \<times> 's rt_device) option"
  op_control :: "(int \<Rightarrow> 'a \<Rightarrow> 's rt_device \<Rightarrow> rt_err_t \<times> 's rt_device) option"

definition rt_device_find :: "string \<Rightarrow> kernel \<Rightarrow> objref option \<times> kernel" where
  "rt_device_find name k = rt_object_find name RT_Object_Class_Device k"

definition rt_device_register :: "nat \<Rightarrow> string \<Rightarrow> u16 \<Rightarrow> 's rt_device \<Rightarrow> kernel \<Rightarrow> rt_err_t \<times> 's rt_device \<times> kernel" where
  "rt_device_register d name flags dev k =
    (case rt_device_find name k of
       (Some _, k) \<Rightarrow> (- RT_ERROR, dev, k)
     | (None, k) \<Rightarrow>
        let k = rt_object_init (ODevice d) RT_Object_Class_Device name k
        in (RT_EOK, dev\<lparr>dev_flag := flags, dev_ref_count := 0, dev_open_flag := 0\<rparr>, k))"

definition rt_device_unregister :: "nat \<Rightarrow> kernel \<Rightarrow> rt_err_t \<times> kernel" where
  "rt_device_unregister d k = (RT_EOK, rt_object_detach (ODevice d) k)"

definition rt_device_init :: "('s, 'a) rt_device_ops \<Rightarrow> 's rt_device \<Rightarrow> rt_err_t \<times> 's rt_device" where
  "rt_device_init ops dev =
    (case op_init ops of
       None \<Rightarrow> (RT_EOK, dev)
     | Some device_init \<Rightarrow>
        if dev_flag dev AND RT_DEVICE_FLAG_ACTIVATED = 0 then
          (case device_init dev of (result, dev) \<Rightarrow>
             if result \<noteq> RT_EOK then (result, dev)
             else (result, dev\<lparr>dev_flag := dev_flag dev OR RT_DEVICE_FLAG_ACTIVATED\<rparr>))
        else (RT_EOK, dev))"

text \<open>The first part of \<open>rt_device_open\<close>: a device that is not active is initialised.\<close>

definition device_activate :: "('s, 'a) rt_device_ops \<Rightarrow> 's rt_device \<Rightarrow> rt_err_t \<times> 's rt_device" where
  "device_activate ops dev =
    (if dev_flag dev AND RT_DEVICE_FLAG_ACTIVATED = 0 then
       (case (case op_init ops of None \<Rightarrow> (RT_EOK, dev) | Some device_init \<Rightarrow> device_init dev) of (result, dev) \<Rightarrow>
          if result \<noteq> RT_EOK then (result, dev)
          else (RT_EOK, dev\<lparr>dev_flag := dev_flag dev OR RT_DEVICE_FLAG_ACTIVATED\<rparr>))
     else (RT_EOK, dev))"

definition rt_device_open :: "('s, 'a) rt_device_ops \<Rightarrow> u16 \<Rightarrow> 's rt_device \<Rightarrow> rt_err_t \<times> 's rt_device" where
  "rt_device_open ops oflag dev =
    (case device_activate ops dev of (result, dev) \<Rightarrow>
       if result \<noteq> RT_EOK then (result, dev)
       else if dev_flag dev AND RT_DEVICE_FLAG_STANDALONE \<noteq> 0 \<and> dev_open_flag dev AND RT_DEVICE_OFLAG_OPEN \<noteq> 0
       then (- RT_EBUSY, dev)
       else
         (case (case op_open ops of
                  Some device_open \<Rightarrow> device_open oflag dev
                | None \<Rightarrow> (RT_EOK, dev\<lparr>dev_open_flag := oflag AND RT_DEVICE_OFLAG_MASK\<rparr>)) of (result, dev) \<Rightarrow>
            if result = RT_EOK \<or> result = - RT_ENOSYS
            then (result, dev\<lparr>dev_open_flag := dev_open_flag dev OR RT_DEVICE_OFLAG_OPEN, dev_ref_count := dev_ref_count dev + 1\<rparr>)
            else (result, dev)))"

definition rt_device_close :: "('s, 'a) rt_device_ops \<Rightarrow> 's rt_device \<Rightarrow> rt_err_t \<times> 's rt_device" where
  "rt_device_close ops dev =
    (if dev_ref_count dev = 0 then (- RT_ERROR, dev)
     else
       let dev = dev\<lparr>dev_ref_count := dev_ref_count dev - 1\<rparr>
       in if dev_ref_count dev \<noteq> 0 then (RT_EOK, dev)
          else
            (case (case op_close ops of Some device_close \<Rightarrow> device_close dev | None \<Rightarrow> (RT_EOK, dev)) of (result, dev) \<Rightarrow>
               if result = RT_EOK \<or> result = - RT_ENOSYS
               then (result, dev\<lparr>dev_open_flag := RT_DEVICE_OFLAG_CLOSE\<rparr>)
               else (result, dev)))"

definition rt_device_read :: "('s, 'a) rt_device_ops \<Rightarrow> int \<Rightarrow> nat \<Rightarrow> 's rt_device \<Rightarrow> rt_err_t option \<times> u8 list \<times> 's rt_device" where
  "rt_device_read ops pos n dev =
    (if dev_ref_count dev = 0 then (Some (- RT_ERROR), [], dev)
     else
       (case op_read ops of
          Some device_read \<Rightarrow> (None, device_read pos n dev)
        | None \<Rightarrow> (Some (- RT_ENOSYS), [], dev)))"

definition rt_device_write :: "('s, 'a) rt_device_ops \<Rightarrow> int \<Rightarrow> u8 list \<Rightarrow> 's rt_device \<Rightarrow> rt_err_t option \<times> nat \<times> 's rt_device" where
  "rt_device_write ops pos buffer dev =
    (if dev_ref_count dev = 0 then (Some (- RT_ERROR), 0, dev)
     else
       (case op_write ops of
          Some device_write \<Rightarrow> (None, device_write pos buffer dev)
        | None \<Rightarrow> (Some (- RT_ENOSYS), 0, dev)))"

definition rt_device_control :: "('s, 'a) rt_device_ops \<Rightarrow> int \<Rightarrow> 'a \<Rightarrow> 's rt_device \<Rightarrow> rt_err_t \<times> 's rt_device" where
  "rt_device_control ops cmd arg dev =
    (case op_control ops of Some device_control \<Rightarrow> device_control cmd arg dev | None \<Rightarrow> (- RT_ENOSYS, dev))"

definition rt_device_set_rx_indicate :: "nat option \<Rightarrow> 's rt_device \<Rightarrow> rt_err_t \<times> 's rt_device" where
  "rt_device_set_rx_indicate rx_ind dev = (RT_EOK, dev\<lparr>dev_rx_indicate := rx_ind\<rparr>)"

definition rt_device_set_tx_complete :: "nat option \<Rightarrow> 's rt_device \<Rightarrow> rt_err_t \<times> 's rt_device" where
  "rt_device_set_tx_complete tx_done dev = (RT_EOK, dev\<lparr>dev_tx_complete := tx_done\<rparr>)"

subsection \<open>The contract of a driver\<close>

locale driver =
  fixes ops :: "('s, 'a) rt_device_ops"
  assumes init_count: "op_init ops = Some f \<Longrightarrow> dev_ref_count (snd (f dev)) = dev_ref_count dev"
    and open_count: "op_open ops = Some h \<Longrightarrow> dev_ref_count (snd (h oflag dev)) = dev_ref_count dev"
    and close_count: "op_close ops = Some f \<Longrightarrow> dev_ref_count (snd (f dev)) = dev_ref_count dev"
begin

lemma activate_count: "dev_ref_count (snd (device_activate ops dev)) = dev_ref_count dev"
  using init_count by (simp add: device_activate_def split: option.split prod.split) (metis snd_conv)

text \<open>An open that succeeds adds one to the count, one that fails leaves it.\<close>

lemma open_counts:
  assumes "rt_device_open ops oflag dev = (result, dev')"
  shows "dev_ref_count dev' = dev_ref_count dev + 1 \<and> dev_open_flag dev' AND RT_DEVICE_OFLAG_OPEN \<noteq> 0 \<and> result \<in> {RT_EOK, - RT_ENOSYS}
    \<or> dev_ref_count dev' = dev_ref_count dev \<and> result \<noteq> RT_EOK"
proof -
  obtain r d where act: "device_activate ops dev = (r, d)" by fastforce
  have c: "dev_ref_count d = dev_ref_count dev" using activate_count [of dev] act by simp
  have o: "(x OR RT_DEVICE_OFLAG_OPEN) AND RT_DEVICE_OFLAG_OPEN \<noteq> 0" for x
  proof -
    have "(x OR RT_DEVICE_OFLAG_OPEN) AND RT_DEVICE_OFLAG_OPEN = RT_DEVICE_OFLAG_OPEN" by (simp add: bit_eq_iff bit_simps)
    then show ?thesis by (simp add: RT_DEVICE_OFLAG_OPEN_def)
  qed
  obtain r' d' where op: "(case op_open ops of Some device_open \<Rightarrow> device_open oflag d
      | None \<Rightarrow> (RT_EOK, d\<lparr>dev_open_flag := oflag AND RT_DEVICE_OFLAG_MASK\<rparr>)) = (r', d')" by fastforce
  then have c': "dev_ref_count d' = dev_ref_count dev"
    using open_count [of _ oflag d] c by (auto split: option.split_asm)
  show ?thesis
    using assms c c' o unfolding rt_device_open_def act prod.case op by (auto split: if_split_asm)
qed

text \<open>A close of a device that is open takes one from the count; only the last one reaches the driver.\<close>

lemma close_counts:
  "dev_ref_count dev \<noteq> 0 \<Longrightarrow> dev_ref_count (snd (rt_device_close ops dev)) = dev_ref_count dev - 1"
  "dev_ref_count dev \<noteq> 0 \<Longrightarrow> dev_ref_count dev \<noteq> 1 \<Longrightarrow> rt_device_close ops dev = (RT_EOK, dev\<lparr>dev_ref_count := dev_ref_count dev - 1\<rparr>)"
  using close_count [of _ "dev\<lparr>dev_ref_count := dev_ref_count dev - 1\<rparr>"]
  by (auto simp: rt_device_close_def Let_def split: option.split prod.split)

end

end
