(* ===== verification/Serial.thy ===== *)
theory Serial
  imports Device Ring
begin

section \<open>Serial lines (\<open>components/drivers/serial/serial.c\<close>)\<close>

text \<open>
  The driver of a serial line on top of the device framework, in the configuration without DMA: a ring of received bytes that
  the interrupt fills and \<open>rt_device_read\<close> empties. The hardware is what it was told (\<open>uart_log\<close>), the
  bytes that have arrived (\<open>uart_in\<close>), and the result of configuring it. Transmission by interrupt waits
  for a completion and is an argument.
\<close>

datatype uart_event = Uart_configure | Uart_control int "u16 option" | Uart_putc u8

abbreviation (input) RT_DEVICE_CTRL_RESUME :: int where "RT_DEVICE_CTRL_RESUME \<equiv> 0x01"
abbreviation (input) RT_DEVICE_CTRL_SUSPEND :: int where "RT_DEVICE_CTRL_SUSPEND \<equiv> 0x02"
abbreviation (input) RT_DEVICE_CTRL_CONFIG :: int where "RT_DEVICE_CTRL_CONFIG \<equiv> 0x03"
abbreviation (input) RT_DEVICE_CTRL_CLOSE :: int where "RT_DEVICE_CTRL_CLOSE \<equiv> 0x04"
abbreviation (input) RT_DEVICE_CTRL_SET_INT :: int where "RT_DEVICE_CTRL_SET_INT \<equiv> 0x10"
abbreviation (input) RT_DEVICE_CTRL_CLR_INT :: int where "RT_DEVICE_CTRL_CLR_INT \<equiv> 0x11"

record rt_serial_rx_fifo =
  fifo_buffer :: "u8 list"
  fifo_put_index :: u16
  fifo_get_index :: u16
  fifo_is_full :: bool

record rt_serial_device =
  serial_bufsz :: u16
  serial_rx :: "rt_serial_rx_fifo option"
  serial_tx :: bool
  uart_configured :: rt_err_t
  uart_in :: "u8 list"
  uart_log :: "uart_event list"

type_synonym serial = "rt_serial_device rt_device"

definition on_serial :: "(rt_serial_device \<Rightarrow> rt_serial_device) \<Rightarrow> serial \<Rightarrow> serial" where
  "on_serial f dev = dev\<lparr>dev_data := f (dev_data dev)\<rparr>"

definition uart_do :: "uart_event \<Rightarrow> serial \<Rightarrow> serial" where
  "uart_do e = on_serial (\<lambda>s. s\<lparr>uart_log := uart_log s @ [e]\<rparr>)"

subsection \<open>The ring of received bytes\<close>

text \<open>One byte taken by \<open>_serial_int_rx\<close>, and one put by the interrupt.\<close>

definition fifo_get :: "u16 \<Rightarrow> rt_serial_rx_fifo \<Rightarrow> (u8 \<times> rt_serial_rx_fifo) option" where
  "fifo_get bufsz f =
    (if fifo_get_index f = fifo_put_index f \<and> \<not> fifo_is_full f then None
     else
       let ch = fifo_buffer f ! unat (fifo_get_index f);
           g = fifo_get_index f + 1;
           g = (if bufsz \<le> g then 0 else g)
       in Some (ch, f\<lparr>fifo_get_index := g, fifo_is_full := False\<rparr>))"

definition fifo_put :: "u16 \<Rightarrow> u8 \<Rightarrow> rt_serial_rx_fifo \<Rightarrow> rt_serial_rx_fifo" where
  "fifo_put bufsz ch f =
    (let f = f\<lparr>fifo_buffer := (fifo_buffer f)[unat (fifo_put_index f) := ch]\<rparr>;
         p = fifo_put_index f + 1;
         p = (if bufsz \<le> p then 0 else p);
         f = f\<lparr>fifo_put_index := p\<rparr>
     in if fifo_put_index f = fifo_get_index f then
          let g = fifo_get_index f + 1;
              g = (if bufsz \<le> g then 0 else g)
          in f\<lparr>fifo_get_index := g, fifo_is_full := True\<rparr>
        else f)"

primrec serial_int_rx :: "nat \<Rightarrow> u16 \<Rightarrow> rt_serial_rx_fifo \<Rightarrow> u8 list \<times> rt_serial_rx_fifo" where
  "serial_int_rx 0 bufsz f = ([], f)"
| "serial_int_rx (Suc n) bufsz f =
    (case fifo_get bufsz f of
       None \<Rightarrow> ([], f)
     | Some (ch, f) \<Rightarrow> (case serial_int_rx n bufsz f of (data, f) \<Rightarrow> (ch # data, f)))"

definition fifo_length :: "u16 \<Rightarrow> rt_serial_rx_fifo \<Rightarrow> u16" where
  "fifo_length bufsz f =
    (if fifo_get_index f \<le> fifo_put_index f then fifo_put_index f - fifo_get_index f
     else bufsz - (fifo_get_index f - fifo_put_index f))"

text \<open>The receive interrupt: every byte that has arrived is put; the result is the argument of the call of
  \<open>rx_indicate\<close>, when it is called.\<close>

definition serial_isr_rx :: "serial \<Rightarrow> (nat \<times> u16) option \<times> serial" where
  "serial_isr_rx dev =
    (let s = dev_data dev;
         f = fold (fifo_put (serial_bufsz s)) (uart_in s) (the (serial_rx s));
         dev = on_serial (\<lambda>s. s\<lparr>uart_in := [], serial_rx := Some f\<rparr>) dev
     in case dev_rx_indicate dev of
          None \<Rightarrow> (None, dev)
        | Some fn \<Rightarrow>
           let rx_length = fifo_length (serial_bufsz s) f
           in (if rx_length \<noteq> 0 then Some (fn, rx_length) else None, dev))"

subsection \<open>Polling\<close>

fun serial_poll_rx :: "nat \<Rightarrow> bool \<Rightarrow> u8 list \<Rightarrow> u8 list \<times> u8 list" where
  "serial_poll_rx 0 stream inp = ([], inp)"
| "serial_poll_rx (Suc n) stream [] = ([], [])"
| "serial_poll_rx (Suc n) stream (ch # inp) =
    (if stream \<and> ch = 0x0A then ([ch], inp)
     else (case serial_poll_rx n stream inp of (data, inp) \<Rightarrow> (ch # data, inp)))"

definition serial_poll_tx :: "bool \<Rightarrow> u8 list \<Rightarrow> uart_event list" where
  "serial_poll_tx stream data =
    concat (map (\<lambda>c. if c = 0x0A \<and> stream then [Uart_putc 0x0D, Uart_putc c] else [Uart_putc c]) data)"

subsection \<open>The operations of the driver\<close>

definition rt_serial_init :: "serial \<Rightarrow> rt_err_t \<times> serial" where
  "rt_serial_init dev =
    (let dev = on_serial (\<lambda>s. s\<lparr>serial_rx := None, serial_tx := False\<rparr>) dev
     in (uart_configured (dev_data dev), uart_do Uart_configure dev))"

definition set_open_flag :: "u16 \<Rightarrow> serial \<Rightarrow> serial" where
  "set_open_flag fl dev = dev\<lparr>dev_open_flag := dev_open_flag dev OR fl\<rparr>"

definition rt_serial_open :: "u16 \<Rightarrow> serial \<Rightarrow> rt_err_t \<times> serial" where
  "rt_serial_open oflag dev =
    (if oflag AND RT_DEVICE_FLAG_DMA_RX \<noteq> 0 \<and> dev_flag dev AND RT_DEVICE_FLAG_DMA_RX = 0
       \<or> oflag AND RT_DEVICE_FLAG_DMA_TX \<noteq> 0 \<and> dev_flag dev AND RT_DEVICE_FLAG_DMA_TX = 0
       \<or> oflag AND RT_DEVICE_FLAG_INT_RX \<noteq> 0 \<and> dev_flag dev AND RT_DEVICE_FLAG_INT_RX = 0
       \<or> oflag AND RT_DEVICE_FLAG_INT_TX \<noteq> 0 \<and> dev_flag dev AND RT_DEVICE_FLAG_INT_TX = 0
     then (- RT_EIO, dev)
     else
       let stream_flag = (if oflag AND RT_DEVICE_FLAG_STREAM \<noteq> 0 \<or> dev_open_flag dev AND RT_DEVICE_FLAG_STREAM \<noteq> 0
                          then RT_DEVICE_FLAG_STREAM else 0);
           dev = dev\<lparr>dev_open_flag := oflag AND 0xff\<rparr>;
           dev = (if serial_rx (dev_data dev) = None then
                    (if oflag AND RT_DEVICE_FLAG_INT_RX \<noteq> 0 then
                       let fifo = \<lparr>fifo_buffer = replicate (unat (serial_bufsz (dev_data dev))) 0,
                                   fifo_put_index = 0, fifo_get_index = 0, fifo_is_full = False\<rparr>;
                           dev = on_serial (\<lambda>s. s\<lparr>serial_rx := Some fifo\<rparr>) dev;
                           dev = set_open_flag RT_DEVICE_FLAG_INT_RX dev
                       in uart_do (Uart_control RT_DEVICE_CTRL_SET_INT (Some RT_DEVICE_FLAG_INT_RX)) dev
                     else dev)
                  else if oflag AND RT_DEVICE_FLAG_INT_RX \<noteq> 0 then set_open_flag RT_DEVICE_FLAG_INT_RX dev
                  else dev);
           dev = (if \<not> serial_tx (dev_data dev) then
                    (if oflag AND RT_DEVICE_FLAG_INT_TX \<noteq> 0 then
                       let dev = on_serial (\<lambda>s. s\<lparr>serial_tx := True\<rparr>) dev;
                           dev = set_open_flag RT_DEVICE_FLAG_INT_TX dev
                       in uart_do (Uart_control RT_DEVICE_CTRL_SET_INT (Some RT_DEVICE_FLAG_INT_TX)) dev
                     else dev)
                  else if oflag AND RT_DEVICE_FLAG_INT_TX \<noteq> 0 then set_open_flag RT_DEVICE_FLAG_INT_TX dev
                  else dev)
       in (RT_EOK, set_open_flag stream_flag dev))"

definition rt_serial_close :: "serial \<Rightarrow> rt_err_t \<times> serial" where
  "rt_serial_close dev =
    (if 1 < dev_ref_count dev then (RT_EOK, dev)
     else
       let dev = (if dev_open_flag dev AND RT_DEVICE_FLAG_INT_RX \<noteq> 0 then
                    let dev = uart_do (Uart_control RT_DEVICE_CTRL_CLR_INT (Some RT_DEVICE_FLAG_INT_RX)) dev;
                        dev = dev\<lparr>dev_open_flag := dev_open_flag dev AND NOT RT_DEVICE_FLAG_INT_RX\<rparr>
                    in on_serial (\<lambda>s. s\<lparr>serial_rx := None\<rparr>) dev
                  else dev);
           dev = (if dev_open_flag dev AND RT_DEVICE_FLAG_INT_TX \<noteq> 0 then
                    let dev = uart_do (Uart_control RT_DEVICE_CTRL_CLR_INT (Some RT_DEVICE_FLAG_INT_TX)) dev;
                        dev = dev\<lparr>dev_open_flag := dev_open_flag dev AND NOT RT_DEVICE_FLAG_INT_TX\<rparr>
                    in on_serial (\<lambda>s. s\<lparr>serial_tx := False\<rparr>) dev
                  else dev);
           dev = uart_do (Uart_control RT_DEVICE_CTRL_CLOSE None) dev
       in (RT_EOK, dev\<lparr>dev_flag := dev_flag dev AND NOT RT_DEVICE_FLAG_ACTIVATED\<rparr>))"

definition rt_serial_read :: "int \<Rightarrow> nat \<Rightarrow> serial \<Rightarrow> u8 list \<times> serial" where
  "rt_serial_read pos n dev =
    (if n = 0 then ([], dev)
     else if dev_open_flag dev AND RT_DEVICE_FLAG_INT_RX \<noteq> 0 then
       (case serial_int_rx n (serial_bufsz (dev_data dev)) (the (serial_rx (dev_data dev))) of
          (data, f) \<Rightarrow> (data, on_serial (\<lambda>s. s\<lparr>serial_rx := Some f\<rparr>) dev))
     else
       (case serial_poll_rx n (dev_open_flag dev AND RT_DEVICE_FLAG_STREAM \<noteq> 0) (uart_in (dev_data dev)) of
          (data, inp) \<Rightarrow> (data, on_serial (\<lambda>s. s\<lparr>uart_in := inp\<rparr>) dev)))"

definition rt_serial_write ::
  "(u8 list \<Rightarrow> serial \<Rightarrow> nat \<times> serial) \<Rightarrow> int \<Rightarrow> u8 list \<Rightarrow> serial \<Rightarrow> nat \<times> serial" where
  "rt_serial_write serial_int_tx pos buffer dev =
    (if length buffer = 0 then (0, dev)
     else if dev_open_flag dev AND RT_DEVICE_FLAG_INT_TX \<noteq> 0 then serial_int_tx buffer dev
     else (length buffer,
           on_serial (\<lambda>s. s\<lparr>uart_log := uart_log s @ serial_poll_tx (dev_open_flag dev AND RT_DEVICE_FLAG_STREAM \<noteq> 0) buffer\<rparr>) dev))"

text \<open>Of a new configuration only the size of the ring is the driver's own; the rest is for the hardware.\<close>

definition rt_serial_control :: "int \<Rightarrow> u16 option \<Rightarrow> serial \<Rightarrow> rt_err_t \<times> serial" where
  "rt_serial_control cmd args dev =
    (if cmd = RT_DEVICE_CTRL_SUSPEND then (RT_EOK, dev\<lparr>dev_flag := dev_flag dev OR RT_DEVICE_FLAG_SUSPENDED\<rparr>)
     else if cmd = RT_DEVICE_CTRL_RESUME then (RT_EOK, dev\<lparr>dev_flag := dev_flag dev AND NOT RT_DEVICE_FLAG_SUSPENDED\<rparr>)
     else if cmd = RT_DEVICE_CTRL_CONFIG then
       (case args of
          None \<Rightarrow> (RT_EOK, dev)
        | Some bufsz \<Rightarrow>
           if bufsz \<noteq> serial_bufsz (dev_data dev) \<and> dev_ref_count dev \<noteq> 0 then (RT_EBUSY, dev)
           else
             let dev = on_serial (\<lambda>s. s\<lparr>serial_bufsz := bufsz\<rparr>) dev
             in (RT_EOK, if dev_ref_count dev \<noteq> 0 then uart_do Uart_configure dev else dev))
     else (RT_EOK, uart_do (Uart_control cmd args) dev))"

definition serial_ops :: "(u8 list \<Rightarrow> serial \<Rightarrow> nat \<times> serial) \<Rightarrow> (rt_serial_device, u16 option) rt_device_ops" where
  "serial_ops serial_int_tx = \<lparr>op_init = Some rt_serial_init, op_open = Some rt_serial_open, op_close = Some rt_serial_close,
     op_read = Some rt_serial_read, op_write = Some (rt_serial_write serial_int_tx), op_control = Some rt_serial_control\<rparr>"

definition rt_hw_serial_register :: "nat \<Rightarrow> string \<Rightarrow> u16 \<Rightarrow> serial \<Rightarrow> kernel \<Rightarrow> rt_err_t \<times> serial \<times> kernel" where
  "rt_hw_serial_register d name flag dev k =
    rt_device_register d name flag (dev\<lparr>dev_rx_indicate := None, dev_tx_complete := None\<rparr>) k"

subsection \<open>The ring is a queue that keeps the newest bytes\<close>

definition fifo_ok :: "u16 \<Rightarrow> rt_serial_rx_fifo \<Rightarrow> bool" where
  "fifo_ok n f \<longleftrightarrow> 2 \<le> n \<and> length (fifo_buffer f) = unat n \<and> fifo_put_index f < n \<and> fifo_get_index f < n
     \<and> (fifo_is_full f \<longrightarrow> fifo_get_index f \<noteq> fifo_put_index f)"

definition fifo_count :: "u16 \<Rightarrow> rt_serial_rx_fifo \<Rightarrow> nat" where
  "fifo_count n f = (unat (fifo_put_index f) + unat n - unat (fifo_get_index f)) mod unat n"

definition fifo_elems :: "u16 \<Rightarrow> rt_serial_rx_fifo \<Rightarrow> u8 list" where
  "fifo_elems n f = ring_list (fifo_buffer f) (unat (fifo_get_index f)) (fifo_count n f)"

lemma length_fifo_elems [simp]: "length (fifo_elems n f) = fifo_count n f"
  by (simp add: fifo_elems_def)

lemma ring_count:
  fixes P G N :: nat
  assumes "P < N" "G < N"
  shows "(P + N - G) mod N = (if G \<le> P then P - G else P + N - G)"
  using assms by (auto simp: not_le) (metis add_diff_assoc2 less_imp_diff_less mod_add_self2 mod_less)

lemma ring_distance:
  fixes P G N :: nat
  assumes "P < N" "G < N"
  shows "(G + (P + N - G) mod N) mod N = P" "(P + N - G) mod N = 0 \<longleftrightarrow> P = G"
    "(P + N - G) mod N + 1 < N \<Longrightarrow> (P + 1) mod N \<noteq> G \<and> ((P + 1) mod N + N - G) mod N = (P + N - G) mod N + 1"
    "(P + N - G) mod N + 1 = N \<Longrightarrow> (P + 1) mod N = G \<and> (G + N - (G + 1) mod N) mod N = (P + N - G) mod N"
    "0 < (P + N - G) mod N \<Longrightarrow> (P + N - (G + 1) mod N) mod N = (P + N - G) mod N - 1"
proof -
  note d = ring_count [OF assms]
  have s: "(x + 1) mod N = (if x + 1 = N then 0 else x + 1)" if "x < N" for x using that by auto
  have lt: "(P + 1) mod N < N" "(G + 1) mod N < N" using assms by simp_all
  note d1 = ring_count [OF lt(1) assms(2)] and d2 = ring_count [OF assms(2) lt(2)] and d3 = ring_count [OF assms(1) lt(2)]
  show "(G + (P + N - G) mod N) mod N = P" "(P + N - G) mod N = 0 \<longleftrightarrow> P = G" using assms unfolding d by auto
  show "(P + N - G) mod N + 1 < N \<Longrightarrow> (P + 1) mod N \<noteq> G \<and> ((P + 1) mod N + N - G) mod N = (P + N - G) mod N + 1"
    using assms unfolding d d1 unfolding s [OF assms(1)] by (cases "P + 1 = N") (auto split: if_split_asm)
  show "(P + N - G) mod N + 1 = N \<Longrightarrow> (P + 1) mod N = G \<and> (G + N - (G + 1) mod N) mod N = (P + N - G) mod N"
    using assms unfolding d d2 unfolding s [OF assms(1)] s [OF assms(2)] by (cases "P + 1 = N") (auto split: if_split_asm)
  show "0 < (P + N - G) mod N \<Longrightarrow> (P + N - (G + 1) mod N) mod N = (P + N - G) mod N - 1"
    using assms unfolding d d3 unfolding s [OF assms(2)] by (cases "G + 1 = N") (auto split: if_split_asm)
qed

lemma fifo_put:
  assumes ok: "fifo_ok n f"
  shows "fifo_ok n (fifo_put n ch f)"
    and "fifo_elems n (fifo_put n ch f) =
      (if fifo_count n f + 1 < unat n then fifo_elems n f @ [ch] else tl (fifo_elems n f) @ [ch])"
proof -
  define N P G where "N = unat n" and "P = unat (fifo_put_index f)" and "G = unat (fifo_get_index f)"
  define p where "p = (if n \<le> fifo_put_index f + 1 then 0 else fifo_put_index f + 1)"
  define g where "g = (if n \<le> fifo_get_index f + 1 then 0 else fifo_get_index f + 1)"
  define buf where "buf = (fifo_buffer f)[P := ch]"
  define c where "c = (P + N - G) mod N"
  have lt: "P < N" "G < N" "length (fifo_buffer f) = N" "2 \<le> N"
    using ok by (simp_all add: fifo_ok_def N_def P_def G_def word_less_nat_alt word_le_nat_alt)
  have pg: "unat p = (P + 1) mod N" "unat g = (G + 1) mod N"
    using ok unfolding p_def g_def P_def G_def N_def by (simp_all add: fifo_ok_def ring_step16)
  have cN: "c < N" using lt by (simp add: c_def)
  note D = ring_distance [OF lt(1,2), folded c_def]
  have put: "fifo_put n ch f = (if p = fifo_get_index f then f\<lparr>fifo_buffer := buf, fifo_put_index := p, fifo_get_index := g, fifo_is_full := True\<rparr>
      else f\<lparr>fifo_buffer := buf, fifo_put_index := p\<rparr>)"
    by (simp add: fifo_put_def Let_def p_def g_def buf_def P_def)
  have len: "length buf = N" using lt by (simp add: buf_def)
  have el: "fifo_elems n f = ring_list (fifo_buffer f) G c" by (simp add: fifo_elems_def fifo_count_def N_def P_def G_def c_def)
  have app: "ring_list buf G (c + 1) = ring_list (fifo_buffer f) G c @ [ch]"
    using ring_put [of c "fifo_buffer f" G ch] cN D(1) lt(3) by (simp add: buf_def)
  have peq: "p = fifo_get_index f \<longleftrightarrow> (P + 1) mod N = G" using pg(1) by (simp add: word_unat_eq_iff G_def)
  have small: "unat p < N" "unat g < N" using lt by (simp_all add: pg)
  show "fifo_elems n (fifo_put n ch f) =
      (if fifo_count n f + 1 < unat n then fifo_elems n f @ [ch] else tl (fifo_elems n f) @ [ch])"
  proof (cases "c + 1 < N")
    case True
    then have "p \<noteq> fifo_get_index f" "((P + 1) mod N + N - G) mod N = c + 1" using D(3) peq by simp_all
    then show ?thesis using True app
      by (simp add: put fifo_elems_def fifo_count_def pg N_def [symmetric] G_def [symmetric] P_def [symmetric] c_def [symmetric])
  next
    case False
    then have cc: "c + 1 = N" using cN by simp
    then have "p = fifo_get_index f" "(P + 1) mod N = G" "(G + N - (G + 1) mod N) mod N = c" using D(4) peq by simp_all
    moreover have "ring_list buf ((G + 1) mod N) c = tl (ring_list (fifo_buffer f) G c) @ [ch]"
      using ring_get [of "c + 1" G buf] len lt app cc by (cases "ring_list (fifo_buffer f) G c") (auto simp: ring_list_def)
    ultimately show ?thesis using False
      by (simp add: put fifo_elems_def fifo_count_def pg N_def [symmetric] G_def [symmetric] P_def [symmetric] c_def [symmetric])
  qed
  have "(G + 1) mod N \<noteq> G" using lt by (cases "G + 1 = N") auto
  then have "g \<noteq> fifo_get_index f" using pg(2) by (auto simp: word_unat_eq_iff G_def)
  then show "fifo_ok n (fifo_put n ch f)"
    using ok small len unfolding put fifo_ok_def
    by (auto simp: word_less_nat_alt N_def)
qed

lemma fifo_get:
  assumes ok: "fifo_ok n f"
  shows "fifo_elems n f = [] \<Longrightarrow> fifo_get n f = None"
    and "fifo_elems n f = x # xs \<Longrightarrow> \<exists>f'. fifo_get n f = Some (x, f') \<and> fifo_ok n f' \<and> fifo_elems n f' = xs"
proof -
  define N P G where "N = unat n" and "P = unat (fifo_put_index f)" and "G = unat (fifo_get_index f)"
  define g where "g = (if n \<le> fifo_get_index f + 1 then 0 else fifo_get_index f + 1)"
  define c where "c = (P + N - G) mod N"
  have lt: "P < N" "G < N" "length (fifo_buffer f) = N" "2 \<le> N"
    using ok by (simp_all add: fifo_ok_def N_def P_def G_def word_less_nat_alt word_le_nat_alt)
  have g: "unat g = (G + 1) mod N" using ok unfolding g_def G_def N_def by (simp add: fifo_ok_def ring_step16)
  note D = ring_distance [OF lt(1,2), folded c_def]
  have el: "fifo_elems n f = ring_list (fifo_buffer f) G c" by (simp add: fifo_elems_def fifo_count_def N_def P_def G_def c_def)
  have eq: "fifo_get_index f = fifo_put_index f \<longleftrightarrow> c = 0" unfolding D(2) by (auto simp: word_unat_eq_iff P_def G_def)
  show "fifo_elems n f = [] \<Longrightarrow> fifo_get n f = None"
  proof -
    assume "fifo_elems n f = []"
    then have "c = 0" using el length_ring_list by (metis list.size(3))
    then show ?thesis using eq ok by (simp add: fifo_get_def fifo_ok_def)
  qed
  assume e: "fifo_elems n f = x # xs"
  then have c: "0 < c" using el by (cases c) simp_all
  then have r: "x = fifo_buffer f ! G" "xs = ring_list (fifo_buffer f) ((G + 1) mod N) (c - 1)"
    using e el ring_get [OF c, of G "fifo_buffer f"] lt by simp_all
  define f' where "f' = f\<lparr>fifo_get_index := g, fifo_is_full := False\<rparr>"
  have get: "fifo_get n f = Some (x, f')"
    using eq c by (simp add: fifo_get_def Let_def f'_def g_def r(1) G_def)
  have gN: "unat g < N" using lt by (simp add: g)
  then have ok': "fifo_ok n f'" using ok by (auto simp: fifo_ok_def f'_def word_less_nat_alt N_def)
  have "(P + N - (G + 1) mod N) mod N = c - 1" using D(5) c by simp
  then have "fifo_elems n f' = xs"
    by (simp add: fifo_elems_def fifo_count_def f'_def g r(2) N_def [symmetric] P_def [symmetric])
  then show "\<exists>f'. fifo_get n f = Some (x, f') \<and> fifo_ok n f' \<and> fifo_elems n f' = xs" using get ok' by blast
qed

lemma fifo_count_bound: "fifo_ok n f \<Longrightarrow> fifo_count n f < unat n"
  unfolding fifo_ok_def fifo_count_def word_le_nat_alt by (intro mod_less_divisor) simp

lemma fifo_length: "fifo_ok n f \<Longrightarrow> unat (fifo_length n f) = length (fifo_elems n f)"
  using unsigned_less [of n, where 'a = nat]
  by (auto simp: fifo_ok_def fifo_length_def fifo_count_def ring_count word_less_nat_alt word_le_nat_alt unat_sub word_le_sub1)

text \<open>A queue of \<open>n - 1\<close> bytes, as long as it is not full.\<close>

interpretation serial_fifo: bounded_queue "fifo_ok n" "fifo_elems n" "\<lambda>_. unat n - 1" "fifo_put n" "\<lambda>f. the (fifo_get n f)" for n
proof
  fix f x xs
  show "fifo_ok n f \<Longrightarrow> length (fifo_elems n f) \<le> unat n - 1" using fifo_count_bound [of n f] by simp
  show "fifo_ok n f \<Longrightarrow> length (fifo_elems n f) < unat n - 1 \<Longrightarrow>
      fifo_ok n (fifo_put n x f) \<and> fifo_elems n (fifo_put n x f) = fifo_elems n f @ [x] \<and> unat n - 1 = unat n - 1"
    using fifo_put [of n f x] by auto
  show "fifo_ok n f \<Longrightarrow> fifo_elems n f = x # xs \<Longrightarrow>
      fst (the (fifo_get n f)) = x \<and> fifo_ok n (snd (the (fifo_get n f))) \<and> fifo_elems n (snd (the (fifo_get n f))) = xs
      \<and> unat n - 1 = unat n - 1"
    using fifo_get(2) [of n f x xs] by auto
qed

text \<open>When it is full the oldest byte gives way: of all that came in, the newest \<open>n - 1\<close> bytes are kept.\<close>

lemma fifo_put_newest:
  assumes ok: "fifo_ok n f"
  shows "fifo_elems n (fifo_put n ch f) = newest (unat n - 1) (fifo_elems n f @ [ch])"
proof (cases "fifo_count n f + 1 < unat n")
  case True
  then show ?thesis using fifo_put(2) [OF ok] by simp
next
  case False
  moreover have n: "2 \<le> unat n" using ok by (simp add: fifo_ok_def word_le_nat_alt)
  ultimately have "fifo_count n f = unat n - 1" "fifo_elems n f \<noteq> []"
    using fifo_count_bound [OF ok] length_fifo_elems [of n f] by (auto simp del: length_fifo_elems)
  then show ?thesis using fifo_put(2) [OF ok, of ch] False n by (simp add: newest_def drop_Suc)
qed

lemma fifo_puts:
  "fifo_ok n f \<Longrightarrow> fifo_ok n (fold (fifo_put n) bs f) \<and>
     fifo_elems n (fold (fifo_put n) bs f) = newest (unat n - 1) (fifo_elems n f @ bs)"
proof (induction bs arbitrary: f)
  case Nil
  then show ?case using fifo_count_bound [of n f] by simp
next
  case (Cons b bs)
  then show ?case using Cons.IH [OF fifo_put(1) [OF Cons.prems, of b]]
    by (simp add: fifo_put_newest newest_newest_append)
qed

lemma serial_int_rx:
  "fifo_ok n f \<Longrightarrow> \<exists>f'. serial_int_rx k n f = (take k (fifo_elems n f), f') \<and> fifo_ok n f' \<and> fifo_elems n f' = drop k (fifo_elems n f)"
proof (induction k arbitrary: f)
  case (Suc k)
  show ?case
  proof (cases "fifo_elems n f")
    case Nil
    then show ?thesis using fifo_get(1) [OF Suc.prems] Suc.prems by simp
  next
    case (Cons x xs)
    then obtain f1 where "fifo_get n f = Some (x, f1)" "fifo_ok n f1" "fifo_elems n f1 = xs"
      using fifo_get(2) [OF Suc.prems] by blast
    then show ?thesis using Suc.IH [of f1] Cons by auto
  qed
qed simp

interpretation serial_driver: driver "serial_ops tx" for tx
proof
  fix f :: "serial \<Rightarrow> rt_err_t \<times> serial" and h oflag dev
  show "op_init (serial_ops tx) = Some f \<Longrightarrow> dev_ref_count (snd (f dev)) = dev_ref_count dev"
    by (auto simp: serial_ops_def rt_serial_init_def on_serial_def uart_do_def Let_def)
  show "op_close (serial_ops tx) = Some f \<Longrightarrow> dev_ref_count (snd (f dev)) = dev_ref_count dev"
    by (auto simp: serial_ops_def rt_serial_close_def on_serial_def uart_do_def Let_def)
  show "op_open (serial_ops tx) = Some h \<Longrightarrow> dev_ref_count (snd (h oflag dev)) = dev_ref_count dev"
    unfolding serial_ops_def by (auto simp: rt_serial_open_def on_serial_def uart_do_def set_open_flag_def Let_def)
qed

text \<open>C33. What has arrived at a serial line open for interrupt reception is handed to its readers in
  order: after the interrupt the unread bytes are the newest \<open>bufsz - 1\<close> of what was unread
  before and what arrived, the indication tells their number, and is not called when there is none; a read of the device
  takes from their front and leaves the rest.\<close>

theorem serial_keeps_newest:
  assumes dev: "dev_ref_count dev \<noteq> 0" "dev_open_flag dev AND RT_DEVICE_FLAG_INT_RX \<noteq> 0" "dev_rx_indicate dev = Some fn"
    and ring: "serial_rx (dev_data dev) = Some f" "fifo_ok (serial_bufsz (dev_data dev)) f"
  defines "n \<equiv> serial_bufsz (dev_data dev)"
  defines "unread \<equiv> newest (unat n - 1) (fifo_elems n f @ uart_in (dev_data dev))"
  shows "fst (serial_isr_rx dev) = (if unread = [] then None else Some (fn, of_nat (length unread))) \<and>
    (\<exists>f' dev'. rt_device_read (serial_ops tx) pos k (snd (serial_isr_rx dev)) = (None, take k unread, dev')
       \<and> serial_rx (dev_data dev') = Some f' \<and> fifo_ok n f' \<and> fifo_elems n f' = drop k unread
       \<and> uart_in (dev_data dev') = [])"
proof -
  define f1 where "f1 = fold (fifo_put n) (uart_in (dev_data dev)) f"
  define dev1 where "dev1 = on_serial (\<lambda>s. s\<lparr>uart_in := [], serial_rx := Some f1\<rparr>) dev"
  have f1: "fifo_ok n f1" "fifo_elems n f1 = unread" using fifo_puts ring unfolding f1_def unread_def n_def by auto
  have len: "fifo_length n f1 = of_nat (length unread)"
    using fifo_length [OF f1(1)] f1(2) by (metis ucast_id of_nat_unat)
  then have len0: "fifo_length n f1 = 0 \<longleftrightarrow> unread = []"
    using fifo_length [OF f1(1)] f1(2) by (metis length_0_conv unat_eq_zero)
  have isr: "serial_isr_rx dev = (if unread = [] then None else Some (fn, of_nat (length unread)), dev1)"
    using dev(3) ring len len0 by (simp add: serial_isr_rx_def Let_def f1_def dev1_def n_def on_serial_def)
  obtain f' where rx: "serial_int_rx k n f1 = (take k unread, f')" "fifo_ok n f'" "fifo_elems n f' = drop k unread"
    using serial_int_rx [OF f1(1), of k] f1(2) by auto
  have dev1: "serial_rx (dev_data dev1) = Some f1" "serial_bufsz (dev_data dev1) = n" "uart_in (dev_data dev1) = []"
    "dev_ref_count dev1 = dev_ref_count dev" "dev_open_flag dev1 = dev_open_flag dev"
    by (simp_all add: dev1_def on_serial_def n_def)
  have "\<exists>f' dev'. rt_device_read (serial_ops tx) pos k dev1 = (None, take k unread, dev')
       \<and> serial_rx (dev_data dev') = Some f' \<and> fifo_ok n f' \<and> fifo_elems n f' = drop k unread \<and> uart_in (dev_data dev') = []"
  proof (cases "k = 0")
    case True
    then show ?thesis using dev dev1 f1 by (simp add: rt_device_read_def serial_ops_def rt_serial_read_def)
  next
    case False
    then show ?thesis using dev dev1 rx
      by (simp add: rt_device_read_def serial_ops_def rt_serial_read_def on_serial_def)
  qed
  then show ?thesis by (simp add: isr)
qed


text \<open>A ring of four bytes holding two: of the three that arrive only the last three of the five are kept.\<close>

definition serial_example :: serial where
  "serial_example =
    \<lparr>dev_flag = RT_DEVICE_FLAG_INT_RX, dev_open_flag = RT_DEVICE_FLAG_INT_RX OR RT_DEVICE_OFLAG_OPEN, dev_ref_count = 1,
     dev_rx_indicate = Some 7, dev_tx_complete = None,
     dev_data = \<lparr>serial_bufsz = 4,
       serial_rx = Some \<lparr>fifo_buffer = [1, 2, 3, 4], fifo_put_index = 1, fifo_get_index = 3, fifo_is_full = False\<rparr>,
       serial_tx = False, uart_configured = RT_EOK, uart_in = [5, 6, 7], uart_log = []\<rparr>\<rparr>"

theorem serial_keeps_newest_witness:
  "fst (serial_isr_rx serial_example) = Some (7, 3) \<and>
   (\<exists>dev'. rt_device_read (serial_ops (\<lambda>b d. (0, d))) 0 2 (snd (serial_isr_rx serial_example)) = (None, [5, 6], dev'))"
proof -
  have elems: "newest (unat (4 :: u16) - 1) (fifo_elems 4 \<lparr>fifo_buffer = [1, 2, 3, 4], fifo_put_index = 1,
      fifo_get_index = 3, fifo_is_full = False\<rparr> @ [5, 6, 7]) = [5, 6, 7]"
    by (simp add: fifo_elems_def fifo_count_def newest_def)
  have "dev_ref_count serial_example \<noteq> 0" "dev_open_flag serial_example AND RT_DEVICE_FLAG_INT_RX \<noteq> 0"
    "dev_rx_indicate serial_example = Some 7"
    "serial_rx (dev_data serial_example) = Some \<lparr>fifo_buffer = [1, 2, 3, 4], fifo_put_index = 1, fifo_get_index = 3, fifo_is_full = False\<rparr>"
    "fifo_ok (serial_bufsz (dev_data serial_example)) \<lparr>fifo_buffer = [1, 2, 3, 4], fifo_put_index = 1, fifo_get_index = 3, fifo_is_full = False\<rparr>"
    by (simp_all add: serial_example_def fifo_ok_def RT_DEVICE_FLAG_INT_RX_def RT_DEVICE_OFLAG_OPEN_def)
  from serial_keeps_newest [OF this, where tx = "\<lambda>b d. (0, d)" and pos = 0 and k = 2] show ?thesis
    using elems by (auto simp: serial_example_def)
qed

text \<open>A second open that does not ask for interrupt reception takes it away from the first: it clears the
  flag, so that reads poll, and the last close, which looks at the flag, leaves the interrupt on.\<close>

lemma reopen_loses_interrupt:
  assumes "dev_flag dev AND RT_DEVICE_FLAG_ACTIVATED \<noteq> 0" "dev_flag dev AND RT_DEVICE_FLAG_STANDALONE = 0"
    "serial_rx (dev_data dev) = Some f" "\<not> serial_tx (dev_data dev)" "dev_open_flag dev AND RT_DEVICE_FLAG_STREAM = 0"
  shows "rt_device_open (serial_ops tx) 0 dev =
    (RT_EOK, dev\<lparr>dev_open_flag := RT_DEVICE_OFLAG_OPEN, dev_ref_count := dev_ref_count dev + 1\<rparr>)"
  using assms by (simp add: rt_device_open_def device_activate_def serial_ops_def rt_serial_open_def set_open_flag_def Let_def)

end
