(* ===== verification/Watch_Start.thy ===== *)
theory Watch_Start
  imports Mutex Semaphore Sample Serial
begin

section \<open>Starting the threads of the watch (\<open>applications/watch.c\<close>)\<close>

text \<open>
  \<open>Main_Threads\<close> over the kernel and the serial device: the mutex, the semaphore, the serial line with its callback and the
  three threads. The results of the allocations are arguments. Functions given to threads and devices are numbers.
\<close>

definition THREAD_PRIORITY_LOW :: u8 where "THREAD_PRIORITY_LOW = 30"
definition THREAD_PRIORITY_MED :: u8 where "THREAD_PRIORITY_MED = 25"
definition THREAD_PRIORITY_HIGH :: u8 where "THREAD_PRIORITY_HIGH = 20"
definition THREAD_STACK_SIZE :: u32 where "THREAD_STACK_SIZE = 1024"
definition THREAD_TIMESLICE :: u32 where "THREAD_TIMESLICE = 5"
definition THREAD_TIMESLICE_UART :: u32 where "THREAD_TIMESLICE_UART = 10"

definition serial_thread_entry :: nat where "serial_thread_entry = 10"
definition getValues_entry :: nat where "getValues_entry = 11"
definition showValues_entry :: nat where "showValues_entry = 12"
definition uart_input_callback :: nat where "uart_input_callback = 13"

text \<open>Creating a thread and starting it when it could be created.\<close>

definition start_thread :: "nat option \<times> nat option \<Rightarrow> string \<Rightarrow> nat \<Rightarrow> nat \<Rightarrow> u8 \<Rightarrow> u32 \<Rightarrow> kernel \<Rightarrow> kernel" where
  "start_thread mem name entry parameter priority tick k =
    (case rt_thread_create (fst mem) (snd mem) name entry parameter THREAD_STACK_SIZE priority tick k of
       (None, k) \<Rightarrow> k
     | (Some t, k) \<Rightarrow> snd (rt_thread_startup t k))"

definition hello_message :: "u8 list" where
  "hello_message = map of_char ''hello RT-Thread!'' @ [0x0D, 0x0A]"

definition Main_Threads ::
  "(u8 list \<Rightarrow> serial \<Rightarrow> nat \<times> serial) \<Rightarrow> nat option \<Rightarrow> nat option \<Rightarrow> nat option \<times> nat option \<Rightarrow> nat option \<times> nat option \<Rightarrow> nat option \<times> nat option
   \<Rightarrow> serial \<Rightarrow> kernel \<Rightarrow> rt_err_t \<times> nat option \<times> nat option \<times> serial \<times> kernel" where
  "Main_Threads serial_int_tx mutex_mem sem_mem uart_mem get_mem show_mem dev k =
    (case rt_device_find ''uart1'' k of
       (None, k) \<Rightarrow> (RT_ERROR, None, None, dev, k)
     | (Some _, k) \<Rightarrow>
       (case rt_mutex_create mutex_mem ''dmutex'' RT_IPC_FLAG_FIFO k of
          (None, k) \<Rightarrow> (- 1, None, None, dev, k)
        | (Some mutex, k) \<Rightarrow>
           (case rt_sem_create sem_mem ''dsem'' 0 RT_IPC_FLAG_FIFO k of
              (None, k) \<Rightarrow> (- 1, Some mutex, None, dev, k)
            | (Some sem, k) \<Rightarrow>
               let ops = serial_ops serial_int_tx;
                   dev = snd (rt_device_open ops RT_DEVICE_FLAG_INT_RX dev);
                   dev = snd (rt_device_set_rx_indicate (Some uart_input_callback) dev);
                   dev = snd (snd (rt_device_write ops 0 hello_message dev));
                   k = start_thread uart_mem ''serial'' serial_thread_entry 0 THREAD_PRIORITY_LOW THREAD_TIMESLICE_UART k;
                   k = start_thread get_mem ''Get'' getValues_entry 1 THREAD_PRIORITY_MED THREAD_TIMESLICE k;
                   k = start_thread show_mem ''Show'' showValues_entry 2 THREAD_PRIORITY_HIGH THREAD_TIMESLICE k
               in (0, Some mutex, Some sem, dev, k))))"

subsection \<open>A thread that leads\<close>

text \<open>Thread \<open>m\<close> runs, and every ready thread is less urgent: whatever it starts, it goes on.\<close>

definition leads :: "nat \<Rightarrow> u8 \<Rightarrow> kernel \<Rightarrow> bool" where
  "leads m p k \<longleftrightarrow> kinv k \<and> rt_current_thread k = Some m \<and> rt_scheduler_lock_nest k = 0
     \<and> th_state (threads k m) = RT_THREAD_RUNNING \<and> th_current_priority (threads k m) = p
     \<and> (\<forall>i\<le>unat p. tq k (ReadyQ i) = [])"

lemma leads_keeps: "leads m p k \<Longrightarrow> keeps_cpu k m"
  by (simp add: leads_def keeps_cpu_def)

lemma leads_schedule:
  assumes "leads m p k"
  shows "leads m p (rt_schedule k)" "tq (rt_schedule k) = tq k" "s \<noteq> m \<Longrightarrow> threads (rt_schedule k) s = threads k s"
proof -
  have l: "kinv k" "rt_current_thread k = Some m" "rt_scheduler_lock_nest k = 0" "th_current_priority (threads k m) = p"
    using assms by (simp_all add: leads_def)
  note keep = rt_schedule_keep [OF l(1-3) leads_keeps [OF assms]]
  show "tq (rt_schedule k) = tq k" "s \<noteq> m \<Longrightarrow> threads (rt_schedule k) s = threads k s" using keep by simp_all
  have "th_current_priority (threads (rt_schedule k) m) = p"
    using rt_schedule_keep_eq [OF l(1-3) _ leads_keeps [OF assms]] rt_schedule_idle [of k] l(4)
    by (cases "rt_thread_ready_priority_group k = 0") simp_all
  then show "leads m p (rt_schedule k)" using assms keep by (simp add: leads_def kinv_rt_schedule)
qed

lemma leads_cong:
  "leads m p k \<Longrightarrow> threads k' = threads k \<Longrightarrow> tq k' = tq k \<Longrightarrow> rt_thread_ready_priority_group k' = rt_thread_ready_priority_group k
   \<Longrightarrow> rt_current_thread k' = rt_current_thread k \<Longrightarrow> rt_scheduler_lock_nest k' = rt_scheduler_lock_nest k \<Longrightarrow> leads m p k'"
  using kinv_cong [of k' k] by (simp add: leads_def)

lemma leads_object_init:
  assumes "leads m p k"
  shows "leads m p (rt_object_init ob ty name k)" "tq (rt_object_init ob ty name k) = tq k"
    "s \<noteq> m \<Longrightarrow> threads (rt_object_init ob ty name k) s = threads k s"
proof -
  have k: "k\<lparr>rt_scheduler_lock_nest := 0\<rparr> = k" using assms by (cases k) (simp add: leads_def)
  have e: "rt_exit_critical (rt_enter_critical k) = rt_schedule k"
    using assms unfolding exit_enter_critical Let_def k by (simp add: leads_def)
  show "tq (rt_object_init ob ty name k) = tq k" "s \<noteq> m \<Longrightarrow> threads (rt_object_init ob ty name k) s = threads k s"
    using leads_schedule(2,3) [OF assms] by (simp_all add: rt_object_init_def Let_def e)
  show "leads m p (rt_object_init ob ty name k)"
    by (rule leads_cong [OF leads_schedule(1) [OF assms]]) (simp_all add: rt_object_init_def Let_def e)
qed

lemma leads_object_find:
  assumes "leads m p k"
  shows "leads m p (snd (rt_object_find name ty k))" "tq (snd (rt_object_find name ty k)) = tq k"
    "s \<noteq> m \<Longrightarrow> threads (snd (rt_object_find name ty k)) s = threads k s"
proof -
  have k: "k\<lparr>rt_scheduler_lock_nest := 0\<rparr> = k" using assms by (cases k) (simp add: leads_def)
  have e: "rt_exit_critical (rt_enter_critical k) = rt_schedule k"
    using assms unfolding exit_enter_critical Let_def k by (simp add: leads_def)
  have "snd (rt_object_find name ty k) \<in> {k, rt_schedule k}"
    by (simp add: rt_object_find_def Let_def e split: option.split)
  then show "leads m p (snd (rt_object_find name ty k))" "tq (snd (rt_object_find name ty k)) = tq k"
    "s \<noteq> m \<Longrightarrow> threads (snd (rt_object_find name ty k)) s = threads k s"
    using leads_schedule [OF assms] assms by auto
qed

text \<open>The state of a thread about to be started.\<close>

abbreviation prepared :: "nat \<Rightarrow> kernel \<Rightarrow> kernel" where
  "prepared t k \<equiv> set_thread t (th_stat_update (\<lambda>_. RT_THREAD_SUSPEND))
     (set_thread t (\<lambda>th. th\<lparr>th_number_mask := push_bit (unat (th_current_priority th)) 1\<rparr>)
       (set_thread t (\<lambda>th. th\<lparr>th_current_priority := th_init_priority th\<rparr>) k))"

lemma kinv_prepared:
  assumes inv: "kinv k" and st: "th_state (threads k t) = RT_THREAD_INIT"
    and prio: "unat (th_init_priority (threads k t)) < RT_THREAD_PRIORITY_MAX"
  shows "kinv (prepared t k)"
proof -
  have th: "threads (prepared t k) t = (threads k t)\<lparr>th_current_priority := th_init_priority (threads k t),
      th_number_mask := push_bit (unat (th_init_priority (threads k t))) 1, th_stat := RT_THREAD_SUSPEND\<rparr>"
    by simp
  have "kinv_but {t} k"
    using inv idle_no_queue [OF _ st] by (blast intro: kinv_but_insert)
  then have "kinv_but {t} (prepared t k)" by simp
  then have "kinv_but {} (prepared t k)"
    by (rule kinv_settle) (use prio in \<open>simp_all add: th prio_ok_def\<close>)
  then show ?thesis
    using kinv_current_not_ready [OF inv] by (auto split: if_splits intro!: kinv_move)
qed

lemma leads_startup:
  assumes lead: "leads m p k" and t: "t \<noteq> m" and st: "th_state (threads k t) = RT_THREAD_INIT"
    and q: "q = th_init_priority (threads k t)" "p < q" "unat q < 32"
  shows "leads m p (snd (rt_thread_startup t k))"
    and "tq (snd (rt_thread_startup t k)) = (tq k)(ReadyQ (unat q) := tq k (ReadyQ (unat q)) @ [t])"
    and "th_state (threads (snd (rt_thread_startup t k)) t) = RT_THREAD_READY
       \<and> th_current_priority (threads (snd (rt_thread_startup t k)) t) = q"
    and "s \<noteq> m \<Longrightarrow> s \<noteq> t \<Longrightarrow> threads (snd (rt_thread_startup t k)) s = threads k s"
proof -
  have l: "kinv k" "rt_current_thread k = Some m" "rt_scheduler_lock_nest k = 0" using lead by (simp_all add: leads_def)
  define k2 where "k2 = snd (rt_thread_resume t (prepared t k))"
  have eq: "snd (rt_thread_startup t k) = rt_schedule k2"
    using l(2) by (simp add: rt_thread_startup_def Let_def rt_thread_self_def k2_def)
  have out: "removeAll t (tq k q) = tq k q" for q
    using idle_no_queue [OF kinvD [OF l(1)] st] by (simp add: removeAll_id_iff)
  have tq2: "tq k2 = (tq k)(ReadyQ (unat q) := tq k (ReadyQ (unat q)) @ [t])"
    using l(2) t q by (simp add: k2_def rt_thread_resume_def Let_def rt_schedule_insert_thread_def out)
  have th2: "threads k2 s = threads k s" if "s \<noteq> t" for s
    using l(2) t q that by (simp add: k2_def rt_thread_resume_def Let_def threads_insert_thread)
  have tt: "th_state (threads k2 t) = RT_THREAD_READY" "th_current_priority (threads k2 t) = q"
    using l(2) t q by (simp_all add: k2_def rt_thread_resume_def Let_def rt_schedule_insert_thread_def)
  have fr: "rt_current_thread k2 = Some m" "rt_scheduler_lock_nest k2 = 0" using l by (simp_all add: k2_def)
  have "unat p < unat q" using q(2) by (simp add: word_less_nat_alt)
  moreover have "kinv k2"
    unfolding k2_def using q by (intro kinv_thread_resume kinv_prepared [OF l(1) st]) (simp add: RT_THREAD_PRIORITY_MAX_def)
  ultimately have k2: "leads m p k2" using lead t fr by (simp add: leads_def tq2 th2)
  show "leads m p (snd (rt_thread_startup t k))" unfolding eq by (rule leads_schedule(1) [OF k2])
  show "tq (snd (rt_thread_startup t k)) = (tq k)(ReadyQ (unat q) := tq k (ReadyQ (unat q)) @ [t])"
    unfolding eq leads_schedule(2) [OF k2] by (rule tq2)
  show "th_state (threads (snd (rt_thread_startup t k)) t) = RT_THREAD_READY
       \<and> th_current_priority (threads (snd (rt_thread_startup t k)) t) = q"
    unfolding eq leads_schedule(3) [OF k2 t] using tt by simp
  show "s \<noteq> m \<Longrightarrow> s \<noteq> t \<Longrightarrow> threads (snd (rt_thread_startup t k)) s = threads k s"
    unfolding eq using leads_schedule(3) [OF k2] th2 by simp
qed

lemma leads_set_idle_thread:
  assumes lead: "leads m p k" and t: "t \<noteq> m" and st: "th_state (threads k t) = RT_THREAD_INIT"
    and f: "th_state (f (threads k t)) = RT_THREAD_INIT"
  shows "leads m p (set_thread t f k)"
proof -
  have inv: "kinv k" using lead by (simp add: leads_def)
  have "kinv_but {t} k" using inv idle_no_queue [OF _ st] by (blast intro: kinv_but_insert)
  then have "kinv_but {} (set_thread t f k)"
    by (intro kinv_set_stat_out) (simp_all add: f is_active_def)
  then have "kinv (set_thread t f k)"
    using kinv_current_not_ready [OF inv] by (auto simp: f split: if_splits intro!: kinv_move)
  then show ?thesis using lead t by (simp add: leads_def)
qed

lemma start_thread:
  fixes name :: string and par entry stk :: nat and tick :: u32
  assumes lead: "leads m p k" and t: "t \<noteq> m" and st: "th_state (threads k t) = RT_THREAD_INIT" and q: "p < q" "unat q < 32"
  defines "k' \<equiv> start_thread (Some t, Some stk) name entry par q tick k"
  shows "leads m p k'" "tq k' = (tq k)(ReadyQ (unat q) := tq k (ReadyQ (unat q)) @ [t])"
    "th_state (threads k' t) = RT_THREAD_READY" "th_current_priority (threads k' t) = q"
    "s \<noteq> m \<Longrightarrow> s \<noteq> t \<Longrightarrow> threads k' s = threads k s"
    "mutexes k' = mutexes k" "semaphores k' = semaphores k"
proof -
  let ?k1 = "snd (rt_object_allocate (Some (OThread t)) RT_Object_Class_Thread name k)"
  let ?k2 = "set_thread t (\<lambda>_. zero_thread) ?k1"
  let ?f = "\<lambda>th. th\<lparr>th_entry := entry, th_parameter := par, th_stack_addr := stk, th_stack_size := THREAD_STACK_SIZE,
     th_init_priority := q, th_current_priority := q, th_number_mask := 0, th_init_tick := tick,
     th_remaining_tick := tick, th_error := RT_EOK, th_stat := RT_THREAD_INIT, th_cleanup := None,
     th_user_data := 0\<rparr>"
  let ?k3 = "set_thread t ?f ?k2"
  let ?k4 = "rt_object_init (OTimer (ThreadTimer t)) RT_Object_Class_Timer (obj_name (objects ?k3 (OThread t))) ?k3"
  let ?k5 = "rt_timer_init_fields (ThreadTimer t) (Thread_timeout t) 0 RT_TIMER_FLAG_ONE_SHOT ?k4"
  have k': "k' = snd (rt_thread_startup t ?k5)"
    by (simp add: k'_def start_thread_def rt_thread_create_def rt_thread_init_fields_def rt_timer_init_def Let_def)
  have th1: "threads ?k1 = threads k" "tq ?k1 = tq k" by (simp_all add: rt_object_allocate_def Let_def)
  have "leads m p ?k1" by (rule leads_cong [OF lead]) (simp_all add: rt_object_allocate_def Let_def)
  then have k2: "leads m p ?k2" using t st by (intro leads_set_idle_thread) (simp_all add: th1)
  have k3: "leads m p ?k3"
    by (rule leads_set_idle_thread [OF k2 t]) (simp_all add: th_state_def stat_defs zero_thread_def)
  note k4 = leads_object_init [OF k3]
  have th5: "threads ?k5 = threads ?k4" "tq ?k5 = tq ?k4" by (simp_all add: rt_timer_init_fields_def)
  have k5: "leads m p ?k5" by (rule leads_cong [OF k4(1)]) (simp_all add: rt_timer_init_fields_def)
  have t5: "th_state (threads ?k5 t) = RT_THREAD_INIT" "q = th_init_priority (threads ?k5 t)"
    using k4(3) [OF t] by (simp_all add: th5 th_state_def stat_defs)
  note st = leads_startup [OF k5 t t5 q]
  show "leads m p k'" unfolding k' by (rule st(1))
  show "tq k' = (tq k)(ReadyQ (unat q) := tq k (ReadyQ (unat q)) @ [t])"
    unfolding k' st(2) th5 k4(2) by (simp add: th1)
  show "th_state (threads k' t) = RT_THREAD_READY" "th_current_priority (threads k' t) = q"
    unfolding k' using st(3) by simp_all
  show "s \<noteq> m \<Longrightarrow> s \<noteq> t \<Longrightarrow> threads k' s = threads k s"
    unfolding k' using st(4) k4(3) by (simp add: th5 th1)
  show "mutexes k' = mutexes k" "semaphores k' = semaphores k"
    by (simp_all add: k' rt_thread_startup_def rt_thread_resume_def Let_def rt_timer_init_fields_def rt_object_init_def
        rt_object_allocate_def)
qed

text \<open>When the main thread, which is more urgent than they are and than anything ready, has made the mutex, the semaphore and the three threads,
  the mutex is free, the semaphore is 0, and the threads are ready at the end of the lists of their
  priorities. The main thread has gone on all the time and the invariant of the scheduler holds; the thread that will run
  first of the three, once main is done, is the one that draws.\<close>

theorem main_threads_ready:
  assumes lead: "leads m p k" "p < 20"
    and found: "fst (rt_device_find ''uart1'' k) = Some d"
    and free: "tq k (MutexQ mx) = []" "tq k (SemQ sm) = []" "\<forall>i\<le>20. tq k (ReadyQ i) = []"
    and new: "distinct [m, u, g, s]" "\<forall>t\<in>{u, g, s}. th_state (threads k t) = RT_THREAD_INIT"
  shows "\<exists>dev' k'. Main_Threads tx (Some mx) (Some sm) (Some u, Some us) (Some g, Some gs) (Some s, Some ss) dev k = (0, Some mx, Some sm, dev', k')
    \<and> kinv k' \<and> rt_current_thread k' = Some m \<and> th_state (threads k' m) = RT_THREAD_RUNNING
    \<and> mutexes k' mx = free_mutex \<and> sem_abs sm k' = (0, [])
    \<and> tq k' = (tq k)(ReadyQ 30 := tq k (ReadyQ 30) @ [u], ReadyQ 25 := tq k (ReadyQ 25) @ [g], ReadyQ 20 := [s])
    \<and> (\<forall>t\<in>{u, g, s}. th_state (threads k' t) = RT_THREAD_READY)
    \<and> get_highest_priority_thread k' = (s, 20)"
proof -
  define k0 where "k0 = snd (rt_device_find ''uart1'' k)"
  define k1 where "k1 = snd (rt_mutex_create (Some mx) ''dmutex'' RT_IPC_FLAG_FIFO k0)"
  define k2 where "k2 = snd (rt_sem_create (Some sm) ''dsem'' 0 RT_IPC_FLAG_FIFO k1)"
  define k3 where "k3 = start_thread (Some u, Some us) ''serial'' serial_thread_entry 0 THREAD_PRIORITY_LOW THREAD_TIMESLICE_UART k2"
  define k4 where "k4 = start_thread (Some g, Some gs) ''Get'' getValues_entry 1 THREAD_PRIORITY_MED THREAD_TIMESLICE k3"
  define k5 where "k5 = start_thread (Some s, Some ss) ''Show'' showValues_entry 2 THREAD_PRIORITY_HIGH THREAD_TIMESLICE k4"
  have e: "(tq k)(MutexQ mx := []) = tq k" "(tq k)(SemQ sm := []) = tq k" using free by (auto simp: fun_eq_iff)
  have l0: "leads m p k0" "tq k0 = tq k" "\<And>t. t \<noteq> m \<Longrightarrow> threads k0 t = threads k t"
    using leads_object_find [OF lead(1)] by (simp_all add: k0_def rt_device_find_def)
  have f1: "threads k1 = threads k0" "tq k1 = tq k" "mutexes k1 mx = free_mutex"
    by (simp_all add: l0(2) k1_def rt_mutex_create_def rt_object_allocate_def rt_ipc_object_init_def Let_def e)
  have l1: "leads m p k1"
    by (rule leads_cong [OF l0(1)]) (simp_all add: f1 l0(2), simp_all add: k1_def rt_mutex_create_def rt_object_allocate_def rt_ipc_object_init_def Let_def)
  have f2: "threads k2 = threads k0" "tq k2 = tq k" "mutexes k2 mx = free_mutex" "sem_value (semaphores k2 sm) = 0"
    using f1 by (simp_all add: k2_def rt_sem_create_def rt_object_allocate_def rt_ipc_object_init_def Let_def e)
  have l2: "leads m p k2"
    by (rule leads_cong [OF l1]) (simp_all add: f1 f2, simp_all add: k2_def rt_sem_create_def rt_object_allocate_def rt_ipc_object_init_def Let_def)
  have ne: "u \<noteq> m" "g \<noteq> m" "s \<noteq> m" "u \<noteq> g" "u \<noteq> s" "g \<noteq> s" using new(1) by auto
  have p: "p < THREAD_PRIORITY_LOW" "p < THREAD_PRIORITY_MED" "p < THREAD_PRIORITY_HIGH"
    using lead(2) by (auto simp: THREAD_PRIORITY_LOW_def THREAD_PRIORITY_MED_def THREAD_PRIORITY_HIGH_def word_less_nat_alt)
  have pr: "unat THREAD_PRIORITY_LOW = 30" "unat THREAD_PRIORITY_MED = 25" "unat THREAD_PRIORITY_HIGH = 20"
    by (simp_all add: THREAD_PRIORITY_LOW_def THREAD_PRIORITY_MED_def THREAD_PRIORITY_HIGH_def)
  have i2: "th_state (threads k2 u) = RT_THREAD_INIT" using new(2) ne l0(3) by (simp add: f2)
  note s3 = start_thread [OF l2 ne(1) i2 p(1), where stk = us and name = "''serial''" and entry = serial_thread_entry and par = 0 and tick = THREAD_TIMESLICE_UART, folded k3_def, unfolded pr]
  have i3: "th_state (threads k3 g) = RT_THREAD_INIT" using new(2) s3(5) [of g] ne l0(3) by (simp add: f2)
  note s4 = start_thread [OF s3(1) ne(2) i3 p(2), where stk = gs and name = "''Get''" and entry = getValues_entry and par = 1 and tick = THREAD_TIMESLICE, folded k4_def, unfolded pr]
  have i4: "th_state (threads k4 s) = RT_THREAD_INIT" using new(2) s3(5) [of s] s4(5) [of s] ne l0(3) by (simp add: f2)
  note s5 = start_thread [OF s4(1) ne(3) i4 p(3), where stk = ss and name = "''Show''" and entry = showValues_entry and par = 2 and tick = THREAD_TIMESLICE, folded k5_def, unfolded pr]
  have fk: "rt_device_find ''uart1'' k = (Some d, k0)" using found by (simp add: k0_def prod_eq_iff)
  obtain dev' where eq: "Main_Threads tx (Some mx) (Some sm) (Some u, Some us) (Some g, Some gs) (Some s, Some ss) dev k = (0, Some mx, Some sm, dev', k5)"
    by (simp add: Main_Threads_def fk k1_def k2_def k3_def k4_def k5_def Let_def rt_mutex_create_def rt_sem_create_def)
  have tq: "tq k5 = (tq k)(ReadyQ 30 := tq k (ReadyQ 30) @ [u], ReadyQ 25 := tq k (ReadyQ 25) @ [g], ReadyQ 20 := [s])"
    using free(3) by (simp add: s5(2) s4(2) s3(2) f2)
  have ready: "th_state (threads k5 t) = RT_THREAD_READY" if "t \<in> {u, g, s}" for t
    using that s5(3) s5(5) [of g] s4(3) s5(5) [of u] s4(5) [of u] s3(3) ne by auto
  have inv: "kinv k5" using s5(1) by (simp add: leads_def)
  have "bit (rt_thread_ready_priority_group k5) 20" using kinv_group [OF kinvD [OF inv], of 20] by (simp add: tq)
  then have gr: "rt_thread_ready_priority_group k5 \<noteq> 0" by auto
  obtain t q where hp: "get_highest_priority_thread k5 = (t, q)" by fastforce
  have h: "tq k5 (ReadyQ q) \<noteq> []" "t = hd (tq k5 (ReadyQ q))" "\<forall>i<q. tq k5 (ReadyQ i) = []"
    using highest_ready [OF kinvD [OF inv] gr hp] by blast+
  have "q = 20"
  proof (rule linorder_cases [of q 20])
    assume "20 < q" then show ?thesis using h(3) by (auto simp: tq)
  next
    assume "q < 20" then show ?thesis using h(1) free(3) by (simp add: tq)
  qed
  then have hp: "get_highest_priority_thread k5 = (s, 20)" using hp h(2) by (simp add: tq)
  have "mutexes k5 mx = free_mutex" "sem_abs sm k5 = (0, [])"
    using s5(6,7) s4(6,7) s3(6,7) f2 free(2) by (simp_all add: sem_abs_def tq)
  then show ?thesis using eq inv hp tq ready s5(1) by (auto simp: leads_def)
qed


text \<open>A main thread alone, with a device.\<close>

definition alone :: kernel where
  "alone = reset_kernel\<lparr>threads := (\<lambda>_. zero_thread)(1 := sample_thread RT_THREAD_RUNNING 5), tq := (\<lambda>_. []),
     rt_thread_ready_priority_group := 0, rt_current_thread := Some 1,
     objects := (objects reset_kernel)(ODevice 0 := \<lparr>obj_name = ''uart1'', obj_type = 0x89, obj_flag = 0\<rparr>),
     object_list := (\<lambda>_. [])(RT_Object_Class_Device := [ODevice 0])\<rparr>"

lemma leads_alone: "leads 1 5 alone"
  by (auto simp: leads_def alone_def kinv_def kinv_but_def thread_ok_def is_active_def reset_kernel_def)

lemma alone_device: "fst (rt_device_find ''uart1'' alone) = Some (ODevice 0)"
proof -
  have "rt_scheduler_lock_nest alone = 0" "alone\<lparr>rt_scheduler_lock_nest := 0\<rparr> = alone" by (simp_all add: alone_def reset_kernel_def)
  then have "rt_enter_critical alone = alone\<lparr>rt_scheduler_lock_nest := 1\<rparr>" by (simp add: rt_enter_critical_def)
  moreover have "rt_object_get_information RT_Object_Class_Device = Some RT_Object_Class_Device"
    by (simp add: rt_object_get_information_def rt_object_container_def)
  ultimately show ?thesis
    by (simp add: rt_device_find_def rt_object_find_def Let_def alone_def RT_NAME_MAX_def)
qed

theorem main_threads_ready_witness:
  "\<exists>dev' k'. Main_Threads (\<lambda>b d. (0, d)) (Some 0) (Some 0) (Some 2, Some 0) (Some 3, Some 0) (Some 4, Some 0) serial_example alone
      = (0, Some 0, Some 0, dev', k')
    \<and> get_highest_priority_thread k' = (4, 20)"
proof -
  have "tq alone q = []" "th_state (threads alone 2) = RT_THREAD_INIT" "th_state (threads alone 3) = RT_THREAD_INIT"
    "th_state (threads alone 4) = RT_THREAD_INIT" for q by (simp_all add: alone_def)
  then show ?thesis
    using main_threads_ready [OF leads_alone _ alone_device, of 0 0 2 3 4 "\<lambda>b d. (0, d)" 0 0 0 serial_example]
    by (fastforce simp: word_less_nat_alt)
qed

end
