(* ===== verification/Console.thy ===== *)
theory Console
  imports Watch_Start Shell
begin

section \<open>The console, the shell and the watch on one serial line\<close>

text \<open>
  The console functions of \<open>src/kservice.c\<close> and the device functions of \<open>components/finsh/shell.c\<close>, over the
  table of the serial devices. Board, shell and watch all open the device \<open>uart1\<close>, one after the other.
\<close>

record console =
  console_device :: "nat option"
  dev_table :: "nat \<Rightarrow> serial"


definition on_device :: "nat \<Rightarrow> (serial \<Rightarrow> serial) \<Rightarrow> console \<Rightarrow> console" where
  "on_device d f c = c\<lparr>dev_table := (dev_table c)(d := f (dev_table c d))\<rparr>"

type_synonym int_tx = "u8 list \<Rightarrow> serial \<Rightarrow> nat \<times> serial"




definition rt_kputs :: "int_tx \<Rightarrow> u8 list \<Rightarrow> console \<Rightarrow> console" where
  "rt_kputs tx str c =
    (case console_device c of
       None \<Rightarrow> c
     | Some d \<Rightarrow> on_device d (\<lambda>dev. snd (snd (rt_device_write (serial_ops tx) 0 str dev))) c)"


text \<open>Released by the callback, taken while there is nothing to read.\<close>

definition finsh_rx_release :: "nat \<Rightarrow> kernel \<Rightarrow> rt_err_t \<times> kernel" where
  "finsh_rx_release rx_sem k = (RT_EOK, snd (rt_sem_release rx_sem k))"

definition finsh_getchar_read :: "int_tx \<Rightarrow> finsh_shell \<Rightarrow> console \<Rightarrow> u8 option \<times> console" where
  "finsh_getchar_read tx sh c =
    (case sh_device sh of
       None \<Rightarrow> (None, c)
     | Some d \<Rightarrow>
        (case rt_device_read (serial_ops tx) (- 1) 1 (dev_table c d) of
           (_, data, dev) \<Rightarrow> (if length data = 1 then Some (hd data) else None, on_device d (\<lambda>_. dev) c)))"


definition finsh_get_device :: "finsh_shell \<Rightarrow> nat option" where
  "finsh_get_device = sh_device"



definition finsh_thread_entry :: nat where "finsh_thread_entry = 15"

definition finsh_system_init :: "bool \<Rightarrow> nat option \<Rightarrow> nat option \<Rightarrow> nat \<Rightarrow> kernel \<Rightarrow> int \<times> finsh_shell option \<times> kernel" where
  "finsh_system_init shell_mem thread_mem stack_mem rx_sem k =
    (if \<not> shell_mem then (- 1, None, k)
     else
       (case rt_thread_create thread_mem stack_mem ''tshell'' finsh_thread_entry 0 2048 11 10 k of (tid, k) \<Rightarrow>
          let k = snd (rt_sem_init rx_sem ''shrx'' 0 0 k)
          in (0, Some new_shell, (case tid of None \<Rightarrow> k | Some t \<Rightarrow> snd (rt_thread_startup t k)))))"

subsection \<open>The line after each open\<close>














end
