(* ===== verification/Data_Queue.thy ===== *)
theory Data_Queue
  imports Ipc_Theorems
begin

section \<open>Completions and data queues (\<open>rt-thread/components/drivers/src\<close>)\<close>

definition RT_UNCOMPLETED :: u32 where "RT_UNCOMPLETED = 0"
definition DATAQUEUE_MAGIC :: u32 where "DATAQUEUE_MAGIC = 0xbead0e0e"
definition RT_DATAQUEUE_EVENT_POP :: u32 where "RT_DATAQUEUE_EVENT_POP = 1"
definition RT_DATAQUEUE_EVENT_PUSH :: u32 where "RT_DATAQUEUE_EVENT_PUSH = 2"
definition RT_DATAQUEUE_EVENT_LWM :: u32 where "RT_DATAQUEUE_EVENT_LWM = 3"

record rt_completion =
  cp_flag :: u32

record rt_data_item =
  data_ptr :: u32
  data_size :: u32

record rt_data_queue =
  dq_magic :: u32
  dq_size :: u16
  dq_lwm :: u16
  dq_get_index :: "15 word"
  dq_is_empty :: bool
  dq_put_index :: "15 word"
  dq_is_full :: bool
  dq_items :: "rt_data_item list"
  dq_notify :: bool

record device_ipc =
  ipc_kernel :: kernel
  completions :: "nat \<Rightarrow> rt_completion"
  data_queues :: "nat \<Rightarrow> rt_data_queue"
  evt_notified :: "(nat \<times> u32) list"

datatype 'a ipc_outcome = Finished 'a device_ipc | Waiting device_ipc

definition on_kernel :: "(kernel \<Rightarrow> kernel) \<Rightarrow> device_ipc \<Rightarrow> device_ipc" where
  "on_kernel f s = s\<lparr>ipc_kernel := f (ipc_kernel s)\<rparr>"

definition set_completion :: "nat \<Rightarrow> u32 \<Rightarrow> device_ipc \<Rightarrow> device_ipc" where
  "set_completion c flag s = s\<lparr>completions := (completions s)(c := (completions s c)\<lparr>cp_flag := flag\<rparr>)\<rparr>"

definition set_queue :: "nat \<Rightarrow> (rt_data_queue \<Rightarrow> rt_data_queue) \<Rightarrow> device_ipc \<Rightarrow> device_ipc" where
  "set_queue d f s = s\<lparr>data_queues := (data_queues s)(d := f (data_queues s d))\<rparr>"

definition evt_notify :: "nat \<Rightarrow> u32 \<Rightarrow> device_ipc \<Rightarrow> device_ipc" where
  "evt_notify d event s =
    (if dq_notify (data_queues s d) then s\<lparr>evt_notified := (d, event) # evt_notified s\<rparr> else s)"

text \<open>Suspending the thread at the end of a list; has the CPU gone to another thread?\<close>

definition suspend_on :: "tqueue \<Rightarrow> nat \<Rightarrow> 32 word \<Rightarrow> device_ipc \<Rightarrow> device_ipc" where
  "suspend_on q thread timeout =
     on_kernel (\<lambda>k. rt_schedule (wait_on q thread RT_IPC_FLAG_FIFO timeout
                      (set_thread thread (th_error_update (\<lambda>_. RT_EOK)) k)))"

definition switched :: "nat \<Rightarrow> device_ipc \<Rightarrow> bool" where
  "switched thread s \<longleftrightarrow>
     rt_interrupt_nest (ipc_kernel s) = 0 \<and> rt_current_thread (ipc_kernel s) \<noteq> Some thread"

definition ipc_self :: "device_ipc \<Rightarrow> nat" where
  "ipc_self s = the (rt_thread_self (ipc_kernel s))"

definition ipc_error :: "nat \<Rightarrow> device_ipc \<Rightarrow> rt_err_t" where
  "ipc_error thread s = th_error (threads (ipc_kernel s) thread)"

definition wake :: "tqueue \<Rightarrow> device_ipc \<Rightarrow> device_ipc" where
  "wake q = on_kernel (\<lambda>k. rt_schedule (rt_ipc_list_resume q k))"

subsection \<open>Completions\<close>

definition rt_completion_init :: "nat \<Rightarrow> device_ipc \<Rightarrow> device_ipc" where
  "rt_completion_init c s =
     on_kernel (rt_ipc_object_init (CompletionQ c)) (set_completion c RT_UNCOMPLETED s)"




subsection \<open>Data queues\<close>

text \<open>The memory for the items is an argument, \<open>None\<close> when there is none.\<close>

definition rt_data_queue_init ::
  "nat \<Rightarrow> u16 \<Rightarrow> u16 \<Rightarrow> bool \<Rightarrow> rt_data_item list option \<Rightarrow> device_ipc \<Rightarrow> rt_err_t \<times> device_ipc" where
  "rt_data_queue_init d size0 lwm notify mem s =
    (let s = set_queue d (\<lambda>q. q\<lparr>dq_notify := notify, dq_magic := DATAQUEUE_MAGIC, dq_size := size0,
               dq_lwm := lwm, dq_get_index := 0, dq_put_index := 0, dq_is_empty := True,
               dq_is_full := False\<rparr>) s;
         s = on_kernel (rt_ipc_object_init (DataPushQ d)) s;
         s = on_kernel (rt_ipc_object_init (DataPopQ d)) s
     in (case mem of
           None \<Rightarrow> (- RT_ENOMEM, s)
         | Some items \<Rightarrow> (RT_EOK, set_queue d (dq_items_update (\<lambda>_. items)) s)))"

definition dq_write :: "rt_data_item \<Rightarrow> rt_data_queue \<Rightarrow> rt_data_queue" where
  "dq_write item q =
    (let q = q\<lparr>dq_items := (dq_items q)[unat (dq_put_index q) := item]\<rparr>;
         q = q\<lparr>dq_put_index := dq_put_index q + 1\<rparr>;
         q = (if unat (dq_put_index q) = unat (dq_size q) then q\<lparr>dq_put_index := 0\<rparr> else q);
         q = q\<lparr>dq_is_empty := False\<rparr>
     in if dq_put_index q = dq_get_index q then q\<lparr>dq_is_full := True\<rparr> else q)"

definition data_queue_push_put :: "nat \<Rightarrow> rt_data_item \<Rightarrow> device_ipc \<Rightarrow> rt_err_t ipc_outcome" where
  "data_queue_push_put d item s =
    (let s = set_queue d (dq_write item) s
     in if tq (ipc_kernel s) (DataPopQ d) \<noteq> [] then Finished RT_EOK (wake (DataPopQ d) s)
        else Finished RT_EOK (evt_notify d RT_DATAQUEUE_EVENT_PUSH s))"

partial_function (option) data_queue_push_loop ::
  "nat \<Rightarrow> nat \<Rightarrow> rt_data_item \<Rightarrow> 32 word \<Rightarrow> device_ipc \<Rightarrow> rt_err_t ipc_outcome option" where
  "data_queue_push_loop thread d item timeout s =
    (if dq_is_full (data_queues s d) then
       if timeout = 0 then Some (Finished (- RT_ETIMEOUT) s)
       else
         let s = suspend_on (DataPushQ d) thread timeout s
         in if switched thread s then Some (Waiting s)
            else if ipc_error thread s \<noteq> RT_EOK then Some (Finished (ipc_error thread s) s)
            else data_queue_push_loop thread d item timeout s
     else Some (data_queue_push_put d item s))"

definition data_queue_push_resume ::
  "nat \<Rightarrow> nat \<Rightarrow> rt_data_item \<Rightarrow> 32 word \<Rightarrow> device_ipc \<Rightarrow> rt_err_t ipc_outcome option" where
  "data_queue_push_resume thread d item timeout s =
    (if ipc_error thread s \<noteq> RT_EOK then Some (Finished (ipc_error thread s) s)
     else data_queue_push_loop thread d item timeout s)"

definition rt_data_queue_push ::
  "nat \<Rightarrow> rt_data_item \<Rightarrow> 32 word \<Rightarrow> device_ipc \<Rightarrow> rt_err_t ipc_outcome option" where
  "rt_data_queue_push d item timeout s = data_queue_push_loop (ipc_self s) d item timeout s"

text \<open>The difference of the indices is computed in \<open>int\<close> and cut to 16 bits, as is the result.\<close>

definition rt_data_queue_len :: "rt_data_queue \<Rightarrow> u16" where
  "rt_data_queue_len q =
    (if dq_is_empty q then 0
     else if dq_put_index q > dq_get_index q then ucast (dq_put_index q) - ucast (dq_get_index q)
     else dq_size q + ucast (dq_put_index q) - ucast (dq_get_index q))"

definition dq_read :: "rt_data_queue \<Rightarrow> rt_data_item \<times> rt_data_queue" where
  "dq_read q =
    (let item = dq_items q ! unat (dq_get_index q);
         q = q\<lparr>dq_get_index := dq_get_index q + 1\<rparr>;
         q = (if unat (dq_get_index q) = unat (dq_size q) then q\<lparr>dq_get_index := 0\<rparr> else q);
         q = q\<lparr>dq_is_full := False\<rparr>
     in (item, if dq_put_index q = dq_get_index q then q\<lparr>dq_is_empty := True\<rparr> else q))"

text \<open>The last call of a pop at the low-water mark, after the thread it has woken.\<close>

definition data_queue_pop_end ::
  "nat \<Rightarrow> rt_data_item \<Rightarrow> device_ipc \<Rightarrow> (rt_err_t \<times> rt_data_item option) ipc_outcome" where
  "data_queue_pop_end d item s = Finished (RT_EOK, Some item) (evt_notify d RT_DATAQUEUE_EVENT_LWM s)"

definition data_queue_pop_get ::
  "nat \<Rightarrow> nat \<Rightarrow> device_ipc \<Rightarrow> (rt_err_t \<times> rt_data_item option) ipc_outcome" where
  "data_queue_pop_get thread d s =
    (let item = fst (dq_read (data_queues s d));
         s = set_queue d (\<lambda>q. snd (dq_read q)) s
     in if rt_data_queue_len (data_queues s d) \<le> dq_lwm (data_queues s d) then
          if tq (ipc_kernel s) (DataPushQ d) \<noteq> [] then
            let s = wake (DataPushQ d) s
            in if switched thread s then Waiting s else data_queue_pop_end d item s
          else data_queue_pop_end d item s
        else Finished (RT_EOK, Some item) (evt_notify d RT_DATAQUEUE_EVENT_POP s))"

partial_function (option) data_queue_pop_loop ::
  "nat \<Rightarrow> nat \<Rightarrow> 32 word \<Rightarrow> device_ipc \<Rightarrow> (rt_err_t \<times> rt_data_item option) ipc_outcome option" where
  "data_queue_pop_loop thread d timeout s =
    (if dq_is_empty (data_queues s d) then
       if timeout = 0 then Some (Finished (- RT_ETIMEOUT, None) s)
       else
         let s = suspend_on (DataPopQ d) thread timeout s
         in if switched thread s then Some (Waiting s)
            else if ipc_error thread s \<noteq> RT_EOK then Some (Finished (ipc_error thread s, None) s)
            else data_queue_pop_loop thread d timeout s
     else Some (data_queue_pop_get thread d s))"

definition data_queue_pop_resume ::
  "nat \<Rightarrow> nat \<Rightarrow> 32 word \<Rightarrow> device_ipc \<Rightarrow> (rt_err_t \<times> rt_data_item option) ipc_outcome option" where
  "data_queue_pop_resume thread d timeout s =
    (if ipc_error thread s \<noteq> RT_EOK then Some (Finished (ipc_error thread s, None) s)
     else data_queue_pop_loop thread d timeout s)"

definition rt_data_queue_pop ::
  "nat \<Rightarrow> 32 word \<Rightarrow> device_ipc \<Rightarrow> (rt_err_t \<times> rt_data_item option) ipc_outcome option" where
  "rt_data_queue_pop d timeout s = data_queue_pop_loop (ipc_self s) d timeout s"

definition rt_data_queue_peek :: "rt_data_queue \<Rightarrow> rt_err_t \<times> rt_data_item option" where
  "rt_data_queue_peek q =
    (if dq_is_empty q then (- RT_EEMPTY, None)
     else (RT_EOK, Some (dq_items q ! unat (dq_get_index q))))"

definition rt_data_queue_reset :: "nat \<Rightarrow> device_ipc \<Rightarrow> device_ipc option" where
  "rt_data_queue_reset d s =
    (let s = set_queue d (\<lambda>q. q\<lparr>dq_get_index := 0, dq_put_index := 0, dq_is_empty := True,
                                dq_is_full := False\<rparr>) s
     in (case rt_ipc_list_resume_all (DataPopQ d) (rt_enter_critical (ipc_kernel s)) of
           None \<Rightarrow> None
         | Some k \<Rightarrow>
            (case rt_ipc_list_resume_all (DataPushQ d) k of
               None \<Rightarrow> None
             | Some k \<Rightarrow> Some (s\<lparr>ipc_kernel := rt_schedule (rt_exit_critical k)\<rparr>))))"

definition rt_data_queue_deinit :: "nat \<Rightarrow> device_ipc \<Rightarrow> (rt_err_t \<times> device_ipc) option" where
  "rt_data_queue_deinit d s =
    (case rt_data_queue_reset d s of
       None \<Rightarrow> None
     | Some s \<Rightarrow> Some (RT_EOK, set_queue d (\<lambda>q. q\<lparr>dq_magic := 0, dq_items := []\<rparr>) s))"

subsection \<open>Frames\<close>

lemma ipc_frame [simp]:
  "ipc_kernel (on_kernel f s) = f (ipc_kernel s)" "completions (on_kernel f s) = completions s"
  "data_queues (on_kernel f s) = data_queues s" "evt_notified (on_kernel f s) = evt_notified s"
  "ipc_kernel (set_completion c v s) = ipc_kernel s" "data_queues (set_completion c v s) = data_queues s"
  "completions (set_completion c v s) = (completions s)(c := (completions s c)\<lparr>cp_flag := v\<rparr>)"
  "ipc_kernel (set_queue d g s) = ipc_kernel s" "completions (set_queue d g s) = completions s"
  "data_queues (set_queue d g s) = (data_queues s)(d := g (data_queues s d))"
  "ipc_kernel (evt_notify d e s) = ipc_kernel s" "completions (evt_notify d e s) = completions s"
  "data_queues (evt_notify d e s) = data_queues s"
  by (simp_all add: on_kernel_def set_completion_def set_queue_def evt_notify_def)

lemma ipc_kernel_frame [simp]:
  "completions (suspend_on q t n s) = completions s" "data_queues (suspend_on q t n s) = data_queues s"
  "completions (wake q s) = completions s" "data_queues (wake q s) = data_queues s"
  by (simp_all add: suspend_on_def wake_def)

lemma ipc_error_frame [simp]:
  "ipc_error t (set_queue d g s) = ipc_error t s" "ipc_error t (set_completion c v s) = ipc_error t s"
  "ipc_error t (evt_notify d e s) = ipc_error t s"
  by (simp_all add: ipc_error_def)

interpretation datapushq: wait_list "DataPushQ d" for d by unfold_locales simp
interpretation datapopq: wait_list "DataPopQ d" for d by unfold_locales simp


subsection \<open>The ring of a data queue\<close>

definition dq_count :: "rt_data_queue \<Rightarrow> nat" where
  "dq_count q =
    (if dq_is_empty q then 0
     else if unat (dq_get_index q) < unat (dq_put_index q) then unat (dq_put_index q) - unat (dq_get_index q)
     else unat (dq_size q) + unat (dq_put_index q) - unat (dq_get_index q))"

definition dq_list :: "rt_data_queue \<Rightarrow> rt_data_item list" where
  "dq_list q = ring_list (dq_items q) (unat (dq_get_index q)) (dq_count q)"

definition dq_ok :: "rt_data_queue \<Rightarrow> bool" where
  "dq_ok q \<longleftrightarrow> unat (dq_size q) \<le> 32768 \<and> length (dq_items q) = unat (dq_size q)
     \<and> unat (dq_get_index q) < unat (dq_size q) \<and> unat (dq_put_index q) < unat (dq_size q)
     \<and> (dq_put_index q = dq_get_index q \<longleftrightarrow> dq_is_empty q \<or> dq_is_full q) \<and> \<not> (dq_is_empty q \<and> dq_is_full q)"

definition index_step :: "u16 \<Rightarrow> 15 word \<Rightarrow> 15 word" where
  "index_step n i = (if unat (i + 1) = unat n then 0 else i + 1)"

lemma index_step:
  assumes "unat i < unat n" "unat n \<le> 32768"
  shows "unat (index_step n i) = (if unat i + 1 = unat n then 0 else unat i + 1)"
proof (cases "unat i + 1 = 32768")
  case True
  then have "unat (i + 1) = 0" by (simp add: unat_word_ariths)
  then show ?thesis using assms True by (simp add: index_step_def)
next
  case False
  then have "unat (i + 1) = unat i + 1" using assms by (simp add: unat_word_ariths)
  then show ?thesis by (simp add: index_step_def)
qed

lemma dq_write_fields:
  "dq_write item q = q\<lparr>dq_items := (dq_items q)[unat (dq_put_index q) := item],
     dq_put_index := index_step (dq_size q) (dq_put_index q), dq_is_empty := False,
     dq_is_full := (index_step (dq_size q) (dq_put_index q) = dq_get_index q \<or> dq_is_full q)\<rparr>"
  by (cases q) (auto simp: dq_write_def index_step_def Let_def)

lemma dq_read_fields:
  "dq_read q = (dq_items q ! unat (dq_get_index q),
     q\<lparr>dq_get_index := index_step (dq_size q) (dq_get_index q), dq_is_full := False,
       dq_is_empty := (dq_put_index q = index_step (dq_size q) (dq_get_index q) \<or> dq_is_empty q)\<rparr>)"
  by (cases q) (auto simp: dq_read_def index_step_def Let_def)

lemma dq_count_bounds:
  assumes "dq_ok q"
  shows "dq_count q \<le> unat (dq_size q)" "dq_is_empty q \<longleftrightarrow> dq_count q = 0"
    "dq_is_full q \<longleftrightarrow> dq_count q = unat (dq_size q)"
    "unat (dq_put_index q) = (unat (dq_get_index q) + dq_count q) mod unat (dq_size q)"
proof -
  have "dq_put_index q = dq_get_index q \<longleftrightarrow> unat (dq_put_index q) = unat (dq_get_index q)"
    by (rule word_unat_eq_iff)
  then have e: "unat (dq_put_index q) = unat (dq_get_index q) \<longleftrightarrow> dq_is_empty q \<or> dq_is_full q"
    and bd: "unat (dq_get_index q) < unat (dq_size q)" "unat (dq_put_index q) < unat (dq_size q)"
      "\<not> (dq_is_empty q \<and> dq_is_full q)"
    using assms by (simp_all add: dq_ok_def)
  show "dq_count q \<le> unat (dq_size q)" "dq_is_empty q \<longleftrightarrow> dq_count q = 0"
    "dq_is_full q \<longleftrightarrow> dq_count q = unat (dq_size q)"
    "unat (dq_put_index q) = (unat (dq_get_index q) + dq_count q) mod unat (dq_size q)"
    using e bd unfolding dq_count_def by (auto simp: mod_if)
qed

lemma dq_write:
  assumes ok: "dq_ok q" and room: "\<not> dq_is_full q"
  shows "dq_ok (dq_write x q)" "dq_list (dq_write x q) = dq_list q @ [x]" "dq_size (dq_write x q) = dq_size q"
    "dq_lwm (dq_write x q) = dq_lwm q"
proof -
  let ?n = "unat (dq_size q)" and ?g = "unat (dq_get_index q)" and ?p = "unat (dq_put_index q)"
  define p' where "p' = index_step (dq_size q) (dq_put_index q)"
  have e: "?p = ?g \<longleftrightarrow> dq_is_empty q" and bd: "?g < ?n" "?p < ?n" "?n \<le> 32768"
    using ok room word_unat_eq_iff [of "dq_put_index q" "dq_get_index q"] by (simp_all add: dq_ok_def)
  have p': "unat p' = (if ?p + 1 = ?n then 0 else ?p + 1)"
    unfolding p'_def using bd by (intro index_step) simp_all
  have w: "dq_write x q = q\<lparr>dq_items := (dq_items q)[?p := x], dq_put_index := p', dq_is_empty := False,
      dq_is_full := (p' = dq_get_index q)\<rparr>"
    using room by (simp add: dq_write_fields p'_def)
  show "dq_size (dq_write x q) = dq_size q" "dq_lwm (dq_write x q) = dq_lwm q" by (simp_all add: w)
  show "dq_ok (dq_write x q)" using ok bd p' by (simp add: dq_ok_def w)
  have c: "dq_count (dq_write x q) = dq_count q + 1"
    using e bd p' by (auto simp: dq_count_def w)
  have "dq_count q < length (dq_items q)"
    using dq_count_bounds(1,3) [OF ok] room ok by (auto simp: dq_ok_def)
  from ring_put [OF this, of ?g x] show "dq_list (dq_write x q) = dq_list q @ [x]"
    using dq_count_bounds(4) [OF ok] ok by (simp add: dq_list_def c) (simp add: w dq_ok_def)
qed

lemma dq_read:
  assumes ok: "dq_ok q" and some: "dq_list q = x # xs"
  shows "fst (dq_read q) = x" "dq_ok (snd (dq_read q))" "dq_list (snd (dq_read q)) = xs"
    "dq_size (snd (dq_read q)) = dq_size q" "dq_lwm (snd (dq_read q)) = dq_lwm q"
proof -
  let ?n = "unat (dq_size q)" and ?g = "unat (dq_get_index q)" and ?p = "unat (dq_put_index q)"
  define g' where "g' = index_step (dq_size q) (dq_get_index q)"
  have cnt: "dq_count q = Suc (length xs)" using some length_ring_list unfolding dq_list_def by (metis length_Cons)
  then have ne: "\<not> dq_is_empty q" using dq_count_bounds(2) [OF ok] by simp
  have e: "?p = ?g \<longleftrightarrow> dq_is_full q" and bd: "?g < ?n" "?p < ?n" "?n \<le> 32768"
    using ok ne word_unat_eq_iff [of "dq_put_index q" "dq_get_index q"] by (simp_all add: dq_ok_def)
  have g': "unat g' = (if ?g + 1 = ?n then 0 else ?g + 1)"
    unfolding g'_def using bd by (intro index_step) simp_all
  have r: "dq_read q = (dq_items q ! ?g, q\<lparr>dq_get_index := g', dq_is_full := False,
       dq_is_empty := (dq_put_index q = g')\<rparr>)"
    using ne by (simp add: dq_read_fields g'_def)
  show "dq_size (snd (dq_read q)) = dq_size q" "dq_lwm (snd (dq_read q)) = dq_lwm q" by (simp_all add: r)
  show "dq_ok (snd (dq_read q))" using ok bd g' by (simp add: dq_ok_def r)
  have "dq_put_index q = g' \<longleftrightarrow> ?p = unat g'" by (rule word_unat_eq_iff)
  then have c: "dq_count (snd (dq_read q)) = dq_count q - 1"
    using e bd g' ne by (auto simp: dq_count_def r)
  have "(?g + 1) mod ?n = unat g'" using bd g' by simp
  then have "dq_list q = dq_items q ! ?g # ring_list (dq_items q) (unat g') (dq_count q - 1)"
    using ring_get [of "dq_count q" ?g "dq_items q"] ok bd cnt by (simp add: dq_list_def dq_ok_def)
  then show "fst (dq_read q) = x" "dq_list (snd (dq_read q)) = xs"
    using some c by (simp_all add: r dq_list_def)
qed

lemma dq_len: "dq_ok q \<Longrightarrow> unat (rt_data_queue_len q) = length (dq_list q)"
proof -
  assume ok: "dq_ok q"
  let ?n = "unat (dq_size q)" and ?g = "unat (dq_get_index q)" and ?p = "unat (dq_put_index q)"
  have b: "dq_count q \<le> ?n" "?n \<le> 32768" "?g < ?n" "?p < ?n"
    using dq_count_bounds(1) [OF ok] ok by (simp_all add: dq_ok_def)
  have u: "unat (ucast i :: u16) = unat i" for i :: "15 word"
    using unsigned_less [of i, where 'a = nat] by (simp add: unsigned_ucast_eq take_bit_nat_eq_self)
  consider "dq_is_empty q" | "\<not> dq_is_empty q" "dq_get_index q < dq_put_index q"
    | "\<not> dq_is_empty q" "\<not> dq_get_index q < dq_put_index q" by blast
  then show ?thesis
  proof cases
    case 2
    then have "(ucast (dq_get_index q) :: u16) \<le> ucast (dq_put_index q)"
      by (simp add: word_le_nat_alt word_less_nat_alt u)
    then show ?thesis using 2 by (simp add: rt_data_queue_len_def dq_list_def dq_count_def unat_sub u word_less_nat_alt)
  next
    case 3
    have s: "unat (dq_size q + ucast (dq_put_index q)) = ?n + ?p"
      using b by (simp add: unat_word_ariths u)
    then have "ucast (dq_get_index q) \<le> dq_size q + ucast (dq_put_index q)"
      using b by (simp add: word_le_nat_alt u)
    then show ?thesis using 3 s
      by (simp add: rt_data_queue_len_def dq_list_def dq_count_def unat_sub u word_less_nat_alt)
  qed (simp add: rt_data_queue_len_def dq_list_def dq_count_def)
qed

interpretation dqq: bounded_queue dq_ok dq_list "\<lambda>q. unat (dq_size q)" dq_write dq_read
proof
  show "length (dq_list q) \<le> unat (dq_size q)" if "dq_ok q" for q
    using dq_count_bounds(1) [OF that] by (simp add: dq_list_def)
  show "dq_ok (dq_write x q) \<and> dq_list (dq_write x q) = dq_list q @ [x] \<and> unat (dq_size (dq_write x q)) = unat (dq_size q)"
    if "dq_ok q" "length (dq_list q) < unat (dq_size q)" for q x
    using dq_write [of q x] dq_count_bounds(3) [OF that(1)] that by (simp add: dq_list_def)
  show "fst (dq_read q) = x \<and> dq_ok (snd (dq_read q)) \<and> dq_list (snd (dq_read q)) = xs
      \<and> unat (dq_size (snd (dq_read q))) = unat (dq_size q)"
    if "dq_ok q" "dq_list q = x # xs" for q x xs
    using dq_read [OF that] by simp
qed


subsection \<open>Waking and waiting\<close>

abbreviation ipc_waiting :: "tqueue \<Rightarrow> device_ipc \<Rightarrow> nat list" where
  "ipc_waiting q s \<equiv> tq (ipc_kernel s) q"

abbreviation ipc_ok :: "device_ipc \<Rightarrow> bool" where "ipc_ok s \<equiv> system_ok (ipc_kernel s)"

text \<open>A thread that can be made to wait: it runs, outside critical sections and interrupts, and
  another thread is ready.\<close>

definition may_wait :: "nat \<Rightarrow> device_ipc \<Rightarrow> bool" where
  "may_wait t s \<longleftrightarrow> rt_current_thread (ipc_kernel s) = Some t
     \<and> th_state (threads (ipc_kernel s) t) = RT_THREAD_RUNNING
     \<and> rt_scheduler_lock_nest (ipc_kernel s) = 0 \<and> rt_interrupt_nest (ipc_kernel s) = 0
     \<and> rt_thread_ready_priority_group (ipc_kernel s) \<noteq> 0"

context wait_list
begin

lemma wake_one:
  assumes ok: "ipc_ok s" and w: "ipc_waiting q s = w # ws"
  shows "ipc_ok (wake q s)" "ipc_waiting q (wake q s) = ws"
    and "is_runnable (threads (ipc_kernel (wake q s)) w)" "ipc_error w (wake q s) = ipc_error w s"
    and "(\<And>p. q' \<noteq> ReadyQ p) \<Longrightarrow> q' \<noteq> q \<Longrightarrow> ipc_waiting q' (wake q s) = ipc_waiting q' s"
  using wake_first(1,2) [OF ok] wake_first(3) [OF ok w] wake_first(4) [OF ok, of q'] w
  by (simp_all add: wake_def ipc_error_def)

lemma suspend_one:
  assumes ok: "ipc_ok s" and t: "may_wait t s" and time: "timeout \<noteq> 0x7fffffff"
  shows "ipc_ok (suspend_on q t timeout s)" "switched t (suspend_on q t timeout s)"
    and "ipc_waiting q (suspend_on q t timeout s) = ipc_waiting q s @ [t]"
    and "ipc_error t (suspend_on q t timeout s) = RT_EOK"
    and "th_state (threads (ipc_kernel (suspend_on q t timeout s)) t) = RT_THREAD_SUSPEND"
    and "0 < sint timeout \<longrightarrow> ticks_left (ipc_kernel (suspend_on q t timeout s)) (ThreadTimer t) = unat timeout"
proof -
  have m: "rt_current_thread (ipc_kernel s) = Some t" "th_state (threads (ipc_kernel s) t) = RT_THREAD_RUNNING"
    "rt_scheduler_lock_nest (ipc_kernel s) = 0" "rt_interrupt_nest (ipc_kernel s) = 0"
    "rt_thread_ready_priority_group (ipc_kernel s) \<noteq> 0"
    using t by (simp_all add: may_wait_def)
  have inv: "kinv_but {} (ipc_kernel s)" using system_okD(1) [OF ok] by blast
  obtain u p where u: "u \<in> set (tq (ipc_kernel s) (ReadyQ p))"
    using highest_ready [OF inv m(5)] by (cases "get_highest_priority_thread (ipc_kernel s)") blast
  note w = wait_step [OF ok m(1,2) _ time m(3,4) u, of RT_IPC_FLAG_FIFO]
  show "ipc_ok (suspend_on q t timeout s)" "switched t (suspend_on q t timeout s)"
    "ipc_waiting q (suspend_on q t timeout s) = ipc_waiting q s @ [t]"
    "ipc_error t (suspend_on q t timeout s) = RT_EOK"
    "th_state (threads (ipc_kernel (suspend_on q t timeout s)) t) = RT_THREAD_SUSPEND"
    "0 < sint timeout \<longrightarrow> ticks_left (ipc_kernel (suspend_on q t timeout s)) (ThreadTimer t) = unat timeout"
    using w by (simp_all add: suspend_on_def switched_def ipc_error_def)
qed

end


subsection \<open>What the operations do\<close>

primrec ipc_state :: "'a ipc_outcome \<Rightarrow> device_ipc" where
  "ipc_state (Finished r s) = s"
| "ipc_state (Waiting s) = s"

lemma data_queue_push_put:
  fixes x :: rt_data_item
  assumes ok: "ipc_ok s" and q: "dq_ok (data_queues s d)" "\<not> dq_is_full (data_queues s d)"
  defines "s' \<equiv> ipc_state (data_queue_push_put d x s)"
  shows "data_queue_push_put d x s = Finished RT_EOK s'" "ipc_ok s'" "dq_ok (data_queues s' d)"
    and "dq_list (data_queues s' d) = dq_list (data_queues s d) @ [x]"
    and "ipc_waiting (DataPopQ d) s' = tl (ipc_waiting (DataPopQ d) s)"
    and "ipc_waiting (DataPushQ d) s' = ipc_waiting (DataPushQ d) s"
    and "ipc_waiting (DataPopQ d) s = w # ws \<Longrightarrow> is_runnable (threads (ipc_kernel s') w) \<and> ipc_error w s' = ipc_error w s"
    and "dq_size (data_queues s' d) = dq_size (data_queues s d)" "dq_lwm (data_queues s' d) = dq_lwm (data_queues s d)"
proof -
  define j where "j = set_queue d (dq_write x) s"
  have j: "ipc_ok j" "ipc_kernel j = ipc_kernel s" "data_queues j d = dq_write x (data_queues s d)"
    "ipc_error u j = ipc_error u s" for u
    using ok by (simp_all add: j_def)
  have put: "data_queue_push_put d x s = Finished RT_EOK
      (if ipc_waiting (DataPopQ d) j \<noteq> [] then wake (DataPopQ d) j else evt_notify d RT_DATAQUEUE_EVENT_PUSH j)"
    by (simp add: data_queue_push_put_def Let_def j_def)
  then have s': "s' = (if ipc_waiting (DataPopQ d) j \<noteq> [] then wake (DataPopQ d) j
      else evt_notify d RT_DATAQUEUE_EVENT_PUSH j)" by (simp add: s'_def)
  show "data_queue_push_put d x s = Finished RT_EOK s'" using put s' by simp
  have dq: "data_queues s' d = dq_write x (data_queues s d)" by (simp add: s' j(3))
  show "dq_ok (data_queues s' d)" "dq_list (data_queues s' d) = dq_list (data_queues s d) @ [x]"
    "dq_size (data_queues s' d) = dq_size (data_queues s d)" "dq_lwm (data_queues s' d) = dq_lwm (data_queues s d)"
    using dq_write [OF q] by (simp_all add: dq)
  show "ipc_ok s'" "ipc_waiting (DataPopQ d) s' = tl (ipc_waiting (DataPopQ d) s)"
    "ipc_waiting (DataPushQ d) s' = ipc_waiting (DataPushQ d) s"
    "ipc_waiting (DataPopQ d) s = w # ws \<Longrightarrow> is_runnable (threads (ipc_kernel s') w) \<and> ipc_error w s' = ipc_error w s"
    using datapopq.wake_one(1,2,5) [OF j(1), of d] datapopq.wake_one(3,4) [OF j(1), of d w ws] j(1,2,4) unfolding s'
    by (cases "ipc_waiting (DataPopQ d) s"; simp)+
qed

lemma data_queue_pop_get:
  fixes t :: nat
  assumes ok: "ipc_ok s" and q: "dq_ok (data_queues s d)" "dq_list (data_queues s d) = x # xs"
  defines "out \<equiv> data_queue_pop_get t d s" and "s' \<equiv> ipc_state (data_queue_pop_get t d s)"
  shows "out = Finished (RT_EOK, Some x) s' \<or>
      out = Waiting s' \<and> switched t s' \<and> length xs \<le> unat (dq_lwm (data_queues s d))"
    and "ipc_ok s'" "dq_ok (data_queues s' d)" "dq_list (data_queues s' d) = xs"
    and "ipc_waiting (DataPushQ d) s' = (if length xs \<le> unat (dq_lwm (data_queues s d))
           then tl (ipc_waiting (DataPushQ d) s) else ipc_waiting (DataPushQ d) s)"
    and "ipc_waiting (DataPopQ d) s' = ipc_waiting (DataPopQ d) s"
    and "ipc_waiting (DataPushQ d) s = w # ws \<Longrightarrow> length xs \<le> unat (dq_lwm (data_queues s d)) \<Longrightarrow>
           is_runnable (threads (ipc_kernel s') w) \<and> ipc_error w s' = ipc_error w s"
    and "dq_size (data_queues s' d) = dq_size (data_queues s d)"
proof -
  define j where "j = set_queue d (\<lambda>q. snd (dq_read q)) s"
  note r = dq_read [OF q]
  have j: "ipc_ok j" "ipc_kernel j = ipc_kernel s" "data_queues j d = snd (dq_read (data_queues s d))"
    "ipc_error u j = ipc_error u s" for u
    using ok by (simp_all add: j_def)
  define low where "low \<longleftrightarrow> length xs \<le> unat (dq_lwm (data_queues s d))"
  have len: "rt_data_queue_len (data_queues j d) \<le> dq_lwm (data_queues j d) \<longleftrightarrow> low"
    using dq_len [OF r(2)] r(3,5) by (simp add: word_le_nat_alt j(3) low_def)
  have get: "data_queue_pop_get t d s = (if low then
       if ipc_waiting (DataPushQ d) j \<noteq> [] then
         if switched t (wake (DataPushQ d) j) then Waiting (wake (DataPushQ d) j)
         else data_queue_pop_end d x (wake (DataPushQ d) j)
       else data_queue_pop_end d x j
     else Finished (RT_EOK, Some x) (evt_notify d RT_DATAQUEUE_EVENT_POP j))"
    unfolding data_queue_pop_get_def Let_def r(1) j_def [symmetric] len ..
  have sw: "switched t (evt_notify d e u) = switched t u" for e u by (simp add: switched_def)
  consider "low" "ipc_waiting (DataPushQ d) j \<noteq> []" "switched t (wake (DataPushQ d) j)"
      "out = Waiting (wake (DataPushQ d) j)" "s' = wake (DataPushQ d) j"
    | "low" "ipc_waiting (DataPushQ d) j \<noteq> []" "s' = evt_notify d RT_DATAQUEUE_EVENT_LWM (wake (DataPushQ d) j)"
      "out = Finished (RT_EOK, Some x) s'"
    | "low \<longrightarrow> ipc_waiting (DataPushQ d) j = []"
      "s' = evt_notify d (if low then RT_DATAQUEUE_EVENT_LWM else RT_DATAQUEUE_EVENT_POP) j"
      "out = Finished (RT_EOK, Some x) s'"
    unfolding out_def s'_def get data_queue_pop_end_def
    by (cases low; cases "ipc_waiting (DataPushQ d) j = []"; cases "switched t (wake (DataPushQ d) j)") simp_all
  then have "(out = Finished (RT_EOK, Some x) s' \<or> out = Waiting s' \<and> switched t s' \<and> low)
    \<and> ipc_ok s' \<and> data_queues s' d = snd (dq_read (data_queues s d))
    \<and> ipc_waiting (DataPushQ d) s' = (if low then tl (ipc_waiting (DataPushQ d) s) else ipc_waiting (DataPushQ d) s)
    \<and> ipc_waiting (DataPopQ d) s' = ipc_waiting (DataPopQ d) s
    \<and> (ipc_waiting (DataPushQ d) s = w # ws \<longrightarrow> low \<longrightarrow>
         is_runnable (threads (ipc_kernel s') w) \<and> ipc_error w s' = ipc_error w s)"
    using datapushq.wake_one(1,2,5) [OF j(1), of d] datapushq.wake_one(3,4) [OF j(1), of d w ws] j
    by cases (cases "ipc_waiting (DataPushQ d) s"; simp)+
  then show "out = Finished (RT_EOK, Some x) s' \<or>
      out = Waiting s' \<and> switched t s' \<and> length xs \<le> unat (dq_lwm (data_queues s d))"
    "ipc_ok s'" "dq_ok (data_queues s' d)" "dq_list (data_queues s' d) = xs"
    "ipc_waiting (DataPushQ d) s' = (if length xs \<le> unat (dq_lwm (data_queues s d))
           then tl (ipc_waiting (DataPushQ d) s) else ipc_waiting (DataPushQ d) s)"
    "ipc_waiting (DataPopQ d) s' = ipc_waiting (DataPopQ d) s"
    "ipc_waiting (DataPushQ d) s = w # ws \<Longrightarrow> length xs \<le> unat (dq_lwm (data_queues s d)) \<Longrightarrow>
           is_runnable (threads (ipc_kernel s') w) \<and> ipc_error w s' = ipc_error w s"
    "dq_size (data_queues s' d) = dq_size (data_queues s d)"
    using r(2,3,4) unfolding low_def by simp_all
qed

text \<open>The loops, where they need not wait and where they do.\<close>

lemma push_loop:
  "\<not> dq_is_full (data_queues s d) \<Longrightarrow> data_queue_push_loop t d x timeout s = Some (data_queue_push_put d x s)"
  "dq_is_full (data_queues s d) \<Longrightarrow> data_queue_push_loop t d x 0 s = Some (Finished (- RT_ETIMEOUT) s)"
  "dq_is_full (data_queues s d) \<Longrightarrow> timeout \<noteq> 0 \<Longrightarrow> switched t (suspend_on (DataPushQ d) t timeout s) \<Longrightarrow>
     data_queue_push_loop t d x timeout s = Some (Waiting (suspend_on (DataPushQ d) t timeout s))"
  by (subst data_queue_push_loop.simps, simp add: Let_def)+

lemma pop_loop:
  "\<not> dq_is_empty (data_queues s d) \<Longrightarrow> data_queue_pop_loop t d timeout s = Some (data_queue_pop_get t d s)"
  "dq_is_empty (data_queues s d) \<Longrightarrow> data_queue_pop_loop t d 0 s = Some (Finished (- RT_ETIMEOUT, None) s)"
  "dq_is_empty (data_queues s d) \<Longrightarrow> timeout \<noteq> 0 \<Longrightarrow> switched t (suspend_on (DataPopQ d) t timeout s) \<Longrightarrow>
     data_queue_pop_loop t d timeout s = Some (Waiting (suspend_on (DataPopQ d) t timeout s))"
  by (subst data_queue_pop_loop.simps, simp add: Let_def)+

lemma dq_full: "dq_ok q \<Longrightarrow> dq_is_full q \<longleftrightarrow> length (dq_list q) = unat (dq_size q)"
  by (simp add: dq_list_def dq_count_bounds)

lemma dq_empty: "dq_ok q \<Longrightarrow> dq_is_empty q \<longleftrightarrow> dq_list q = []"
  using dq_count_bounds(2) [of q] by (simp add: dq_list_def flip: length_0_conv)

lemma may_wait_self: "may_wait t s \<Longrightarrow> ipc_self s = t"
  by (simp add: may_wait_def ipc_self_def rt_thread_self_def)


subsection \<open>Starting and resetting a queue\<close>

lemma data_queue_init:
  assumes "0 < unat n" "unat n \<le> 32768" "length items = unat n"
  shows "fst (rt_data_queue_init d n lwm notify (Some items) s) = RT_EOK"
    and "dq_ok (data_queues (snd (rt_data_queue_init d n lwm notify (Some items) s)) d)"
    and "dq_list (data_queues (snd (rt_data_queue_init d n lwm notify (Some items) s)) d) = []"
  using assms by (simp_all add: rt_data_queue_init_def Let_def dq_ok_def dq_list_def dq_count_def)

lemma system_ok_lock [simp]: "system_ok (k\<lparr>rt_scheduler_lock_nest := n\<rparr>) = system_ok k"
  by (rule system_ok_cong) (simp_all add: timer_flag_def)

lemma exit_critical_effect:
  assumes ok: "system_ok k"
  shows "system_ok (rt_exit_critical k)"
    and "(\<And>p. q \<noteq> ReadyQ p) \<Longrightarrow> tq (rt_exit_critical k) q = tq k q"
    and "is_runnable (threads k t) \<Longrightarrow> is_runnable (threads (rt_exit_critical k) t)
           \<and> th_error (threads (rt_exit_critical k) t) = th_error (threads k t)"
proof -
  define n where "n = (if sint (rt_scheduler_lock_nest k - 1) \<le> 0 then 0 else rt_scheduler_lock_nest k - 1)"
  have n: "rt_exit_critical k = k\<lparr>rt_scheduler_lock_nest := n\<rparr>
      \<or> rt_exit_critical k = rt_schedule (k\<lparr>rt_scheduler_lock_nest := n\<rparr>)"
    by (simp add: rt_exit_critical_def n_def Let_def)
  let ?j = "k\<lparr>rt_scheduler_lock_nest := n\<rparr>"
  have j: "system_ok ?j" using ok by simp
  show "system_ok (rt_exit_critical k)" using n j system_ok_schedule [OF j] by auto
  show "tq (rt_exit_critical k) q = tq k q" if "\<And>p. q \<noteq> ReadyQ p"
    using n rt_schedule_tq [OF system_okD(1) [OF j], of q] that by auto
  show "is_runnable (threads (rt_exit_critical k) t) \<and> th_error (threads (rt_exit_critical k) t) = th_error (threads k t)"
    if "is_runnable (threads k t)"
    using n rt_schedule_runnable [OF system_okD(1) [OF j], of t] that by auto
qed

text \<open>A reset empties the queue; every thread that waited is runnable again with the error \<open>-RT_ERROR\<close>.\<close>

lemma data_queue_reset:
  assumes ok: "ipc_ok s" and q: "dq_ok (data_queues s d)"
  shows "\<exists>s'. rt_data_queue_reset d s = Some s' \<and> ipc_ok s' \<and> dq_ok (data_queues s' d)
    \<and> dq_list (data_queues s' d) = [] \<and> ipc_waiting (DataPopQ d) s' = [] \<and> ipc_waiting (DataPushQ d) s' = []
    \<and> (\<forall>t \<in> set (ipc_waiting (DataPopQ d) s) \<union> set (ipc_waiting (DataPushQ d) s).
         is_runnable (threads (ipc_kernel s') t) \<and> ipc_error t s' = - RT_ERROR)"
proof -
  let ?k = "rt_enter_critical (ipc_kernel s)" and ?Q = "\<lambda>k t. is_runnable (threads k t) \<and> th_error (threads k t) = - RT_ERROR"
  have k: "system_ok ?k" using ok by (simp add: rt_enter_critical_def)
  obtain k1 where k1: "rt_ipc_list_resume_all (DataPopQ d) ?k = Some k1" "system_ok k1" "tq k1 (DataPopQ d) = []"
    "\<forall>t. t \<in> set (ipc_waiting (DataPopQ d) s) \<longrightarrow> ?Q k1 t" "tq k1 (DataPushQ d) = ipc_waiting (DataPushQ d) s"
    using datapopq.resume_all [OF k, of d] by auto
  obtain k2 where k2: "rt_ipc_list_resume_all (DataPushQ d) k1 = Some k2" "system_ok k2" "tq k2 (DataPushQ d) = []"
    "\<forall>t. t \<in> set (ipc_waiting (DataPushQ d) s) \<or> ?Q k1 t \<longrightarrow> ?Q k2 t" "tq k2 (DataPopQ d) = []"
    using datapushq.resume_all [OF k1(2), of d] k1(3,5) by auto
  let ?e = "rt_exit_critical k2" and ?r = "rt_schedule (rt_exit_critical k2)"
  note e = exit_critical_effect [OF k2(2)]
  have r: "system_ok ?r" using e(1) by (rule system_ok_schedule)
  have keep: "?Q k2 t \<Longrightarrow> ?Q ?r t" for t
    using e(3) [of t] rt_schedule_runnable [OF system_okD(1) [OF e(1)], of t] by auto
  have "rt_data_queue_reset d s = Some ((set_queue d (\<lambda>q. q\<lparr>dq_get_index := 0, dq_put_index := 0,
      dq_is_empty := True, dq_is_full := False\<rparr>) s)\<lparr>ipc_kernel := ?r\<rparr>)"
    using k1(1) k2(1) by (simp add: rt_data_queue_reset_def)
  moreover have "tq ?r (DataPopQ d) = []" "tq ?r (DataPushQ d) = []"
    using e(2) k2(3,5) datapopq.schedule_same [OF e(1), of d] datapushq.schedule_same [OF e(1), of d] by simp_all
  moreover have "?Q ?r t" if "t \<in> set (ipc_waiting (DataPopQ d) s) \<union> set (ipc_waiting (DataPushQ d) s)" for t
    using that k1(4) k2(4) by (intro keep) blast
  ultimately show ?thesis using r q by (auto simp: ipc_error_def dq_ok_def dq_list_def dq_count_def)
qed

subsection \<open>The properties\<close>

text \<open>
  C35. A data queue is a bounded queue of at most \<open>size\<close> items (\<open>size\<close> up to 32768, where its
  15-bit indices still reach). A push appends and wakes the first thread that waits to pop; a pop
  takes the oldest item and wakes one thread that waits to push, but only when no more items are
  left than the low-water mark. On a full (empty) queue a push (a pop) fails at once without a time
  to wait, and otherwise the thread gives the CPU away and stands last in its list. The length the
  queue computes from its two indices and flags is the number of its items.
\<close>

theorem data_queue_is_a_queue:
  assumes ok: "ipc_ok s" and q: "dq_ok (data_queues s d)"
  shows "(length (dq_list (data_queues s d)) < unat (dq_size (data_queues s d)) \<longrightarrow>
      (\<exists>s'. rt_data_queue_push d x timeout s = Some (Finished RT_EOK s') \<and> ipc_ok s' \<and> dq_ok (data_queues s' d)
        \<and> dq_list (data_queues s' d) = dq_list (data_queues s d) @ [x]
        \<and> ipc_waiting (DataPopQ d) s' = tl (ipc_waiting (DataPopQ d) s)
        \<and> (\<forall>w ws. ipc_waiting (DataPopQ d) s = w # ws \<longrightarrow> is_runnable (threads (ipc_kernel s') w))))
    \<and> (length (dq_list (data_queues s d)) = unat (dq_size (data_queues s d)) \<longrightarrow>
        rt_data_queue_push d x 0 s = Some (Finished (- RT_ETIMEOUT) s)
        \<and> (timeout \<noteq> 0 \<and> timeout \<noteq> 0x7fffffff \<and> may_wait t s \<longrightarrow>
            (\<exists>s'. rt_data_queue_push d x timeout s = Some (Waiting s') \<and> ipc_ok s' \<and> switched t s'
              \<and> data_queues s' = data_queues s \<and> ipc_waiting (DataPushQ d) s' = ipc_waiting (DataPushQ d) s @ [t])))
    \<and> (\<forall>y ys. dq_list (data_queues s d) = y # ys \<longrightarrow>
        rt_data_queue_peek (data_queues s d) = (RT_EOK, Some y)
        \<and> (\<exists>s'. (rt_data_queue_pop d timeout s = Some (Finished (RT_EOK, Some y) s')
                \<or> rt_data_queue_pop d timeout s = Some (Waiting s') \<and> length ys \<le> unat (dq_lwm (data_queues s d)))
          \<and> ipc_ok s' \<and> dq_ok (data_queues s' d) \<and> dq_list (data_queues s' d) = ys
          \<and> ipc_waiting (DataPushQ d) s' = (if length ys \<le> unat (dq_lwm (data_queues s d))
              then tl (ipc_waiting (DataPushQ d) s) else ipc_waiting (DataPushQ d) s)))
    \<and> (dq_list (data_queues s d) = [] \<longrightarrow>
        rt_data_queue_peek (data_queues s d) = (- RT_EEMPTY, None)
        \<and> rt_data_queue_pop d 0 s = Some (Finished (- RT_ETIMEOUT, None) s)
        \<and> (timeout \<noteq> 0 \<and> timeout \<noteq> 0x7fffffff \<and> may_wait t s \<longrightarrow>
            (\<exists>s'. rt_data_queue_pop d timeout s = Some (Waiting s') \<and> ipc_ok s' \<and> switched t s'
              \<and> data_queues s' = data_queues s \<and> ipc_waiting (DataPopQ d) s' = ipc_waiting (DataPopQ d) s @ [t])))
    \<and> unat (rt_data_queue_len (data_queues s d)) = length (dq_list (data_queues s d))"
    (is "?push \<and> ?full \<and> ?pop \<and> ?empty \<and> ?len")
proof (intro conjI)
  show ?len by (rule dq_len [OF q])
  show ?push
  proof
    assume "length (dq_list (data_queues s d)) < unat (dq_size (data_queues s d))"
    then have room: "\<not> dq_is_full (data_queues s d)" using dq_full [OF q] by simp
    note p = data_queue_push_put [OF ok q room, where x = x]
    show "\<exists>s'. rt_data_queue_push d x timeout s = Some (Finished RT_EOK s') \<and> ipc_ok s' \<and> dq_ok (data_queues s' d)
        \<and> dq_list (data_queues s' d) = dq_list (data_queues s d) @ [x]
        \<and> ipc_waiting (DataPopQ d) s' = tl (ipc_waiting (DataPopQ d) s)
        \<and> (\<forall>w ws. ipc_waiting (DataPopQ d) s = w # ws \<longrightarrow> is_runnable (threads (ipc_kernel s') w))"
      using push_loop(1) [OF room] p(1-5,7) unfolding rt_data_queue_push_def by metis
  qed
  show ?full
    using push_loop(3) [of s d timeout "ipc_self s" x] datapushq.suspend_one [OF ok, of t timeout d] dq_full [OF q]
      may_wait_self [of t s] push_loop(2) [of s d "ipc_self s" x]
    by (auto simp: rt_data_queue_push_def)
  show ?pop
  proof (intro allI impI)
    fix y ys assume l: "dq_list (data_queues s d) = y # ys"
    then have ne: "\<not> dq_is_empty (data_queues s d)" using dq_empty [OF q] by simp
    note p = data_queue_pop_get [OF ok q l, of "ipc_self s"]
    have "fst (dq_read (data_queues s d)) = y" by (rule dq_read(1) [OF q l])
    then have "rt_data_queue_peek (data_queues s d) = (RT_EOK, Some y)"
      using ne by (simp add: rt_data_queue_peek_def dq_read_fields)
    moreover have "rt_data_queue_pop d timeout s = Some (data_queue_pop_get (ipc_self s) d s)"
      using pop_loop(1) [OF ne] by (simp add: rt_data_queue_pop_def)
    ultimately show "rt_data_queue_peek (data_queues s d) = (RT_EOK, Some y)
        \<and> (\<exists>s'. (rt_data_queue_pop d timeout s = Some (Finished (RT_EOK, Some y) s')
                \<or> rt_data_queue_pop d timeout s = Some (Waiting s') \<and> length ys \<le> unat (dq_lwm (data_queues s d)))
          \<and> ipc_ok s' \<and> dq_ok (data_queues s' d) \<and> dq_list (data_queues s' d) = ys
          \<and> ipc_waiting (DataPushQ d) s' = (if length ys \<le> unat (dq_lwm (data_queues s d))
              then tl (ipc_waiting (DataPushQ d) s) else ipc_waiting (DataPushQ d) s))"
      using p(1-5) by metis
  qed
  show ?empty
    using pop_loop(2) [of s d "ipc_self s"] pop_loop(3) [of s d timeout "ipc_self s"]
      datapopq.suspend_one [OF ok, of t timeout d] dq_empty [OF q] may_wait_self [of t s]
    by (auto simp: rt_data_queue_pop_def rt_data_queue_peek_def)
qed

text \<open>
  Handing over: the item pushed into an empty queue is the one the thread it wakes returns with.
\<close>

theorem data_queue_hands_item_over:
  assumes ok: "ipc_ok s" and q: "dq_ok (data_queues s d)" "dq_list (data_queues s d) = []"
    and w: "ipc_waiting (DataPopQ d) s = w # ws" "ipc_error w s = RT_EOK"
  shows "\<exists>s1 s2. rt_data_queue_push d x timeout s = Some (Finished RT_EOK s1)
    \<and> is_runnable (threads (ipc_kernel s1) w) \<and> ipc_waiting (DataPopQ d) s1 = ws
    \<and> (data_queue_pop_resume w d timeout' s1 = Some (Finished (RT_EOK, Some x) s2)
       \<or> data_queue_pop_resume w d timeout' s1 = Some (Waiting s2)
         \<and> data_queue_pop_end d x s2 = Finished (RT_EOK, Some x) (evt_notify d RT_DATAQUEUE_EVENT_LWM s2))
    \<and> ipc_ok s2 \<and> dq_ok (data_queues s2 d) \<and> dq_list (data_queues s2 d) = []"
proof -
  have "0 < unat (dq_size (data_queues s d))" using q(1) by (auto simp: dq_ok_def)
  then have room: "\<not> dq_is_full (data_queues s d)" using dq_full [OF q(1)] q(2) by simp
  note p = data_queue_push_put [OF ok q(1) room, where x = x]
  define s1 where "s1 = ipc_state (data_queue_push_put d x s)"
  note p = p [folded s1_def]
  have l: "dq_list (data_queues s1 d) = [x]" using p(4) q(2) by simp
  note g = data_queue_pop_get [OF p(2,3) l, of w]
  have "\<not> dq_is_empty (data_queues s1 d)" using dq_empty [OF p(3)] l by simp
  moreover have "ipc_error w s1 = RT_EOK" using p(7) [OF w(1)] w(2) by simp
  ultimately have "data_queue_pop_resume w d timeout' s1 = Some (data_queue_pop_get w d s1)"
    by (simp add: data_queue_pop_resume_def pop_loop(1))
  moreover have "rt_data_queue_push d x timeout s = Some (Finished RT_EOK s1)"
    using push_loop(1) [OF room] p(1) by (simp add: rt_data_queue_push_def)
  moreover have "is_runnable (threads (ipc_kernel s1) w)" using p(7) [OF w(1)] by simp
  moreover have "ipc_waiting (DataPopQ d) s1 = ws" using p(5) w(1) by simp
  ultimately show ?thesis using g(1-4) unfolding data_queue_pop_end_def by metis
qed



definition sample_queue :: "15 word \<Rightarrow> 15 word \<Rightarrow> bool \<Rightarrow> bool \<Rightarrow> rt_data_queue" where
  "sample_queue get_ix put_ix none full =
     \<lparr>dq_magic = DATAQUEUE_MAGIC, dq_size = 2, dq_lwm = 0, dq_get_index = get_ix, dq_is_empty = none,
      dq_put_index = put_ix, dq_is_full = full,
      dq_items = [\<lparr>data_ptr = 0x100, data_size = 8\<rparr>, \<lparr>data_ptr = 0x200, data_size = 4\<rparr>], dq_notify = False\<rparr>"

definition sample_ipc :: "tqueue \<Rightarrow> rt_data_queue \<Rightarrow> device_ipc" where
  "sample_ipc w q = \<lparr>ipc_kernel = waiting_at w, completions = (\<lambda>_. \<lparr>cp_flag = RT_UNCOMPLETED\<rparr>),
     data_queues = (\<lambda>_. q), evt_notified = []\<rparr>"

lemma sample_ipc_fields [simp]:
  "ipc_kernel (sample_ipc w q) = waiting_at w" "completions (sample_ipc w q) c = \<lparr>cp_flag = RT_UNCOMPLETED\<rparr>"
  "data_queues (sample_ipc w q) d = q" "ipc_error 3 (sample_ipc w q) = RT_EOK"
  by (simp_all add: sample_ipc_def ipc_error_def)

lemma sample_may_wait: "may_wait 1 (sample_ipc w q)"
  using sample_group_nonzero by (simp add: may_wait_def)

theorem data_queue_is_a_queue_witness:
  "(\<exists>s'. rt_data_queue_push 0 \<lparr>data_ptr = 0x300, data_size = 6\<rparr> 5 (sample_ipc (DataPopQ 0) (sample_queue 1 0 False False))
        = Some (Finished RT_EOK s') \<and> map data_size (dq_list (data_queues s' 0)) = [4, 6]
      \<and> is_runnable (threads (ipc_kernel s') 3))
   \<and> (\<exists>s'. rt_data_queue_pop 0 5 (sample_ipc (DataPopQ 0) (sample_queue 0 0 True False)) = Some (Waiting s')
      \<and> ipc_waiting (DataPopQ 0) s' = [3, 1])
   \<and> rt_data_queue_len (sample_queue 1 0 False False) = 1"
proof -
  let ?x = "\<lparr>data_ptr = 0x300, data_size = 6\<rparr> :: rt_data_item"
  let ?one = "sample_queue 1 0 False False" and ?none = "sample_queue 0 0 True False"
  have ok: "ipc_ok (sample_ipc (DataPopQ 0) q)" for q by (simp add: system_ok_waiting_at)
  have q: "dq_ok ?one" "dq_ok ?none" by (simp_all add: dq_ok_def sample_queue_def)
  have l: "map data_size (dq_list ?one) = [4]" "length (dq_list ?one) = 1" "dq_list ?none = []" "dq_size ?one = 2"
    by (simp_all add: dq_list_def ring_list_def dq_count_def sample_queue_def)
  note one = data_queue_is_a_queue [of "sample_ipc (DataPopQ 0) ?one" 0 ?x 5 1, OF ok]
  note none = data_queue_is_a_queue [of "sample_ipc (DataPopQ 0) ?none" 0 ?x 5 1, OF ok]
  have "unat (rt_data_queue_len ?one) = 1" using one q(1) l(2) by simp
  then have "rt_data_queue_len ?one = 1" by (metis unat_1 word_unat_eq_iff)
  moreover have "\<exists>s'. rt_data_queue_push 0 ?x 5 (sample_ipc (DataPopQ 0) ?one) = Some (Finished RT_EOK s')
      \<and> dq_list (data_queues s' 0) = dq_list ?one @ [?x] \<and> is_runnable (threads (ipc_kernel s') 3)"
    using one q(1) l(2,4) by auto
  moreover have "\<exists>s'. rt_data_queue_pop 0 5 (sample_ipc (DataPopQ 0) ?none) = Some (Waiting s')
      \<and> ipc_waiting (DataPopQ 0) s' = [3, 1]"
    using none q(2) l(3) sample_may_wait by auto
  ultimately show ?thesis using l(1) by auto
qed

theorem data_queue_hands_item_over_witness:
  "\<exists>s1 s2. rt_data_queue_push 0 \<lparr>data_ptr = 0x300, data_size = 6\<rparr> 5
       (sample_ipc (DataPopQ 0) (sample_queue 1 1 True False)) = Some (Finished RT_EOK s1)
     \<and> (data_queue_pop_resume 3 0 7 s1 = Some (Finished (RT_EOK, Some \<lparr>data_ptr = 0x300, data_size = 6\<rparr>) s2)
        \<or> data_queue_pop_resume 3 0 7 s1 = Some (Waiting s2))
     \<and> dq_list (data_queues s2 0) = []"
proof -
  let ?s = "sample_ipc (DataPopQ 0) (sample_queue 1 1 True False)"
  have "ipc_ok ?s" by (simp add: system_ok_waiting_at)
  moreover have "dq_ok (data_queues ?s 0)" "dq_list (data_queues ?s 0) = []"
    by (simp_all add: dq_ok_def dq_list_def dq_count_def sample_queue_def)
  moreover have "ipc_waiting (DataPopQ 0) ?s = [3]" "ipc_error 3 ?s = RT_EOK" by simp_all
  ultimately show ?thesis
    using data_queue_hands_item_over [of ?s 0 3 "[]" "\<lparr>data_ptr = 0x300, data_size = 6\<rparr>" 5 7] by blast
qed


end
