(* ===== verification/Block_Ring.thy ===== *)
theory Block_Ring
  imports Prelude
begin

section \<open>Block rings (\<open>rt-thread/components/drivers/src/ringblk_buf.c\<close>)\<close>

text \<open>
  A buffer that is given out in blocks of any size, in the order of a ring, for writers that fill a
  block in place and readers that take it without copying. The descriptors of the blocks are an
  array; a pointer to one is its number, the list of blocks in use a list of numbers. The memory of
  \<open>rt_rbb_create\<close> is an argument. The contents of the buffer are the business of the users.
\<close>

datatype rt_rbb_status = RT_RBB_BLK_UNUSED | RT_RBB_BLK_INITED | RT_RBB_BLK_PUT | RT_RBB_BLK_GET

record rt_rbb_blk =
  blk_status :: rt_rbb_status
  blk_size :: "24 word"
  blk_buf :: u32

record rt_rbb_blk_queue =
  queue_blocks :: nat
  queue_blk_num :: u32

record rt_rbb =
  rbb_buf :: u32
  rbb_buf_size :: u32
  rbb_blk_set :: "rt_rbb_blk list"
  rbb_blk_max_num :: u32
  rbb_blk_list :: "nat list"

definition rt_rbb_init :: "u32 \<Rightarrow> u32 \<Rightarrow> rt_rbb_blk list \<Rightarrow> u32 \<Rightarrow> rt_rbb" where
  "rt_rbb_init buf buf_size block_set blk_max_num =
     \<lparr>rbb_buf = buf, rbb_buf_size = buf_size,
      rbb_blk_set = fold (\<lambda>i set0. set0[i := (set0 ! i)\<lparr>blk_status := RT_RBB_BLK_UNUSED\<rparr>])
                      [0..<unat blk_max_num] block_set,
      rbb_blk_max_num = blk_max_num, rbb_blk_list = []\<rparr>"

definition rt_rbb_create ::
  "bool \<Rightarrow> u32 option \<Rightarrow> rt_rbb_blk list option \<Rightarrow> u32 \<Rightarrow> u32 \<Rightarrow> rt_rbb option" where
  "rt_rbb_create rbb mem set_mem buf_size blk_max_num =
    (if \<not> rbb then None
     else (case mem of
             None \<Rightarrow> None
           | Some buf \<Rightarrow>
              (case set_mem of
                 None \<Rightarrow> None
               | Some blk_set \<Rightarrow> Some (rt_rbb_init buf buf_size blk_set blk_max_num))))"

abbreviation the_blk :: "rt_rbb \<Rightarrow> nat \<Rightarrow> rt_rbb_blk" where
  "the_blk rbb n \<equiv> rbb_blk_set rbb ! n"

definition set_blk :: "nat \<Rightarrow> (rt_rbb_blk \<Rightarrow> rt_rbb_blk) \<Rightarrow> rt_rbb \<Rightarrow> rt_rbb" where
  "set_blk n f rbb = rbb\<lparr>rbb_blk_set := (rbb_blk_set rbb)[n := f (the_blk rbb n)]\<rparr>"

definition blk_end :: "rt_rbb_blk \<Rightarrow> u32" where
  "blk_end b = blk_buf b + ucast (blk_size b)"

definition find_empty_blk_in_set :: "rt_rbb \<Rightarrow> nat option" where
  "find_empty_blk_in_set rbb =
     find (\<lambda>i. blk_status (the_blk rbb i) = RT_RBB_BLK_UNUSED) [0..<unat (rbb_blk_max_num rbb)]"

definition append_blk :: "nat \<Rightarrow> u32 \<Rightarrow> u32 \<Rightarrow> rt_rbb \<Rightarrow> rt_rbb" where
  "append_blk n buf size0 rbb =
    (let rbb = rbb\<lparr>rbb_blk_list := rbb_blk_list rbb @ [n]\<rparr>
     in set_blk n (\<lambda>b. b\<lparr>blk_status := RT_RBB_BLK_INITED, blk_buf := buf, blk_size := ucast size0\<rparr>) rbb)"

definition rt_rbb_blk_alloc :: "u32 \<Rightarrow> rt_rbb \<Rightarrow> nat option \<times> rt_rbb" where
  "rt_rbb_blk_alloc size0 rbb =
    (case find_empty_blk_in_set rbb of
       None \<Rightarrow> (None, rbb)
     | Some new_rbb \<Rightarrow>
        if length (rbb_blk_list rbb) < unat (rbb_blk_max_num rbb) then
          if 0 < length (rbb_blk_list rbb) then
            let head = the_blk rbb (hd (rbb_blk_list rbb));
                tail = the_blk rbb (last (rbb_blk_list rbb))
            in if blk_buf head \<le> blk_buf tail then
                 let empty1 = (rbb_buf rbb + rbb_buf_size rbb) - blk_end tail;
                     empty2 = blk_buf head - rbb_buf rbb
                 in if empty1 \<ge> size0 then (Some new_rbb, append_blk new_rbb (blk_end tail) size0 rbb)
                    else if empty2 \<ge> size0 then (Some new_rbb, append_blk new_rbb (rbb_buf rbb) size0 rbb)
                    else (None, rbb)
               else
                 let empty1 = blk_buf head - blk_end tail
                 in if empty1 \<ge> size0 then (Some new_rbb, append_blk new_rbb (blk_end tail) size0 rbb)
                    else (None, rbb)
          else (Some new_rbb, append_blk new_rbb (rbb_buf rbb) size0 rbb)
        else (None, rbb))"

definition rt_rbb_blk_put :: "nat \<Rightarrow> rt_rbb \<Rightarrow> rt_rbb" where
  "rt_rbb_blk_put block = set_blk block (blk_status_update (\<lambda>_. RT_RBB_BLK_PUT))"

definition rt_rbb_blk_get :: "rt_rbb \<Rightarrow> nat option \<times> rt_rbb" where
  "rt_rbb_blk_get rbb =
    (case find (\<lambda>n. blk_status (the_blk rbb n) = RT_RBB_BLK_PUT) (rbb_blk_list rbb) of
       None \<Rightarrow> (None, rbb)
     | Some block \<Rightarrow> (Some block, set_blk block (blk_status_update (\<lambda>_. RT_RBB_BLK_GET)) rbb))"

definition rt_rbb_blk_free :: "nat \<Rightarrow> rt_rbb \<Rightarrow> rt_rbb" where
  "rt_rbb_blk_free block rbb =
    set_blk block (blk_status_update (\<lambda>_. RT_RBB_BLK_UNUSED))
      (rbb\<lparr>rbb_blk_list := remove1 block (rbb_blk_list rbb)\<rparr>)"

subsection \<open>Queues of blocks\<close>

text \<open>The loop over the list: \<open>last_block\<close>, the sum so far and the queue of the caller.\<close>

definition take_blk :: "nat \<Rightarrow> rt_rbb \<Rightarrow> rt_rbb" where
  "take_blk n rbb =
    set_blk n (blk_status_update (\<lambda>_. RT_RBB_BLK_GET))
      (rbb\<lparr>rbb_blk_list := remove1 n (rbb_blk_list rbb)\<rparr>)"

fun blk_queue_loop ::
  "u32 \<Rightarrow> nat list \<Rightarrow> nat option \<Rightarrow> u32 \<Rightarrow> rt_rbb_blk_queue \<Rightarrow> rt_rbb \<Rightarrow> u32 \<times> rt_rbb_blk_queue \<times> rt_rbb" where
  "blk_queue_loop len [] last_block total0 q rbb = (total0, q, rbb)"
| "blk_queue_loop len (node # nodes) None total0 q rbb =
    (if blk_status (the_blk rbb node) = RT_RBB_BLK_PUT then
       blk_queue_loop len nodes (Some node) (total0 + ucast (blk_size (the_blk rbb node)))
         \<lparr>queue_blocks = node, queue_blk_num = 1\<rparr> (take_blk node rbb)
     else blk_queue_loop len nodes None total0 q rbb)"
| "blk_queue_loop len (node # nodes) (Some last_block) total0 q rbb =
    (let block = the_blk rbb node
     in if blk_status block \<noteq> RT_RBB_BLK_PUT \<or> blk_buf (the_blk rbb last_block) > blk_buf block
          \<or> total0 + ucast (blk_size block) > len
        then (total0, q, rbb)
        else blk_queue_loop len nodes (Some node) (total0 + ucast (blk_size block))
               (q\<lparr>queue_blk_num := queue_blk_num q + 1\<rparr>) (take_blk node rbb))"

definition rt_rbb_blk_queue_get ::
  "u32 \<Rightarrow> rt_rbb_blk_queue \<Rightarrow> rt_rbb \<Rightarrow> u32 \<times> rt_rbb_blk_queue \<times> rt_rbb" where
  "rt_rbb_blk_queue_get len q rbb =
    (if rbb_blk_list rbb = [] then (0, q, rbb) else blk_queue_loop len (rbb_blk_list rbb) None 0 q rbb)"

definition queue_slots :: "rt_rbb_blk_queue \<Rightarrow> nat list" where
  "queue_slots q = [queue_blocks q..<queue_blocks q + unat (queue_blk_num q)]"

definition rt_rbb_blk_queue_len :: "rt_rbb_blk_queue \<Rightarrow> rt_rbb \<Rightarrow> u32" where
  "rt_rbb_blk_queue_len q rbb = fold (\<lambda>i total0. total0 + ucast (blk_size (the_blk rbb i))) (queue_slots q) 0"

definition rt_rbb_blk_queue_buf :: "rt_rbb_blk_queue \<Rightarrow> rt_rbb \<Rightarrow> u32" where
  "rt_rbb_blk_queue_buf q rbb = blk_buf (the_blk rbb (queue_blocks q))"

definition rt_rbb_blk_queue_free :: "rt_rbb_blk_queue \<Rightarrow> rt_rbb \<Rightarrow> rt_rbb" where
  "rt_rbb_blk_queue_free q = fold rt_rbb_blk_free (queue_slots q)"

fun next_queue_loop :: "rt_rbb \<Rightarrow> nat list \<Rightarrow> nat option \<Rightarrow> u32 \<Rightarrow> u32" where
  "next_queue_loop rbb [] last_block len = len"
| "next_queue_loop rbb (node # nodes) None len =
    (if blk_status (the_blk rbb node) \<noteq> RT_RBB_BLK_PUT then next_queue_loop rbb nodes None len
     else next_queue_loop rbb nodes (Some node) (len + ucast (blk_size (the_blk rbb node))))"
| "next_queue_loop rbb (node # nodes) (Some last_block) len =
    (if blk_status (the_blk rbb node) \<noteq> RT_RBB_BLK_PUT
        \<or> blk_buf (the_blk rbb last_block) > blk_buf (the_blk rbb node) then len
     else next_queue_loop rbb nodes (Some node) (len + ucast (blk_size (the_blk rbb node))))"

definition rt_rbb_next_blk_queue_len :: "rt_rbb \<Rightarrow> u32" where
  "rt_rbb_next_blk_queue_len rbb =
    (if rbb_blk_list rbb = [] then 0 else next_queue_loop rbb (rbb_blk_list rbb) None 0)"

definition rt_rbb_get_buf_size :: "rt_rbb \<Rightarrow> u32" where
  "rt_rbb_get_buf_size rbb = rbb_buf_size rbb"

definition rt_rbb_blk_size :: "nat \<Rightarrow> rt_rbb \<Rightarrow> u32" where
  "rt_rbb_blk_size block rbb = ucast (blk_size (the_blk rbb block))"

definition rt_rbb_blk_buf :: "nat \<Rightarrow> rt_rbb \<Rightarrow> u32" where
  "rt_rbb_blk_buf block rbb = blk_buf (the_blk rbb block)"


subsection \<open>The blocks of a ring\<close>






















subsection \<open>The invariant\<close>

definition blk_span :: "rt_rbb_blk \<Rightarrow> nat \<times> nat" where
  "blk_span b = (unat (blk_buf b), unat (blk_size b))"

definition ring_spans :: "rt_rbb \<Rightarrow> (nat \<times> nat) list" where
  "ring_spans r = map (\<lambda>n. blk_span (the_blk r n)) (rbb_blk_list r)"



lemma set_blk_frame [simp]:
  "rbb_buf (set_blk n f r) = rbb_buf r" "rbb_buf_size (set_blk n f r) = rbb_buf_size r"
  "rbb_blk_list (set_blk n f r) = rbb_blk_list r" "rbb_blk_max_num (set_blk n f r) = rbb_blk_max_num r"
  "length (rbb_blk_set (set_blk n f r)) = length (rbb_blk_set r)"
  "n < length (rbb_blk_set r) \<Longrightarrow> the_blk (set_blk n f r) m = (if m = n then f (the_blk r n) else the_blk r m)"
  by (simp_all add: set_blk_def)

















subsection \<open>The properties\<close>

datatype rbb_op = Rbb_alloc u32 | Rbb_put nat | Rbb_get | Rbb_free nat
  | Rbb_queue_get u32 rt_rbb_blk_queue | Rbb_queue_free rt_rbb_blk_queue

fun rbb_step :: "rbb_op \<Rightarrow> rt_rbb \<Rightarrow> rt_rbb" where
  "rbb_step (Rbb_alloc n) r = snd (rt_rbb_blk_alloc n r)"
| "rbb_step (Rbb_put b) r = rt_rbb_blk_put b r"
| "rbb_step Rbb_get r = snd (rt_rbb_blk_get r)"
| "rbb_step (Rbb_free b) r = rt_rbb_blk_free b r"
| "rbb_step (Rbb_queue_get len q) r = snd (snd (rt_rbb_blk_queue_get len q r))"
| "rbb_step (Rbb_queue_free q) r = rt_rbb_blk_queue_free q r"



lemma take_blk_size [simp]: "rbb_buf_size (take_blk n r) = rbb_buf_size r" "rbb_buf (take_blk n r) = rbb_buf r"
  by (simp_all add: take_blk_def)

lemma queue_loop_size [simp]:
  "rbb_buf_size (snd (snd (blk_queue_loop len nodes lst acc q r))) = rbb_buf_size r"
  "rbb_buf (snd (snd (blk_queue_loop len nodes lst acc q r))) = rbb_buf r"
  by (induction len nodes lst acc q r rule: blk_queue_loop.induct) (simp_all add: Let_def)

lemma fold_free_size [simp]:
  "rbb_buf_size (fold rt_rbb_blk_free ns r) = rbb_buf_size r" "rbb_buf (fold rt_rbb_blk_free ns r) = rbb_buf r"
  by (induction ns arbitrary: r) (simp_all add: rt_rbb_blk_free_def)

lemma append_blk_size [simp]:
  "rbb_buf_size (append_blk n b s r) = rbb_buf_size r" "rbb_buf (append_blk n b s r) = rbb_buf r"
  by (simp_all add: append_blk_def Let_def)

lemma alloc_size [simp]:
  "rbb_buf_size (snd (rt_rbb_blk_alloc n r)) = rbb_buf_size r" "rbb_buf (snd (rt_rbb_blk_alloc n r)) = rbb_buf r"
  by (simp_all add: rt_rbb_blk_alloc_def Let_def split: option.split)





definition sample_ring :: rt_rbb where
  "sample_ring = rt_rbb_init 0x1000 16 (replicate 4 \<lparr>blk_status = RT_RBB_BLK_UNUSED, blk_size = 0, blk_buf = 0\<rparr>) 4"


text \<open>
  What the conditions keep out, and what a queue of blocks gets wrong, on a ring of 16 bytes. A
  block larger than an empty ring is handed out all the same. An empty block at the address of the
  first one makes the ring look as if it had not come round: the next block covers the first. After \<open>rt_rbb_blk_queue_get\<close> the
  blocks of the queue are off the list and their memory is handed out again while the reader still
  has them. And a queue is a first descriptor and a number: when its blocks are not neighbours in the
  array its length and its \<open>free\<close> go to other descriptors.
\<close>

theorem block_queue_breaks:
  "map (\<lambda>n. blk_span (the_blk (snd (rt_rbb_blk_alloc 100 sample_ring)) n)) (rbb_blk_list (snd (rt_rbb_blk_alloc 100 sample_ring)))
     = [(0x1000, 100)]
   \<and> ring_spans (fold rbb_step [Rbb_alloc 8, Rbb_alloc 4, Rbb_free 0, Rbb_alloc 8, Rbb_alloc 0, Rbb_alloc 4] sample_ring)
     = [(0x1008, 4), (0x1000, 8), (0x1008, 0), (0x1008, 4)]
   \<and> (let r = snd (snd (rt_rbb_blk_queue_get 16 q (fold rbb_step [Rbb_alloc 8, Rbb_put 0] sample_ring)));
          r = snd (rt_rbb_blk_alloc 8 r)
      in map blk_status (rbb_blk_set r) = [RT_RBB_BLK_GET, RT_RBB_BLK_INITED, RT_RBB_BLK_UNUSED, RT_RBB_BLK_UNUSED]
         \<and> blk_span (the_blk r 0) = (0x1000, 8) \<and> blk_span (the_blk r 1) = (0x1000, 8))
   \<and> (let g = rt_rbb_blk_queue_get 16 q (fold rbb_step
                [Rbb_alloc 4, Rbb_alloc 4, Rbb_free 0, Rbb_alloc 6, Rbb_put 1, Rbb_put 0] sample_ring)
      in fst g = 10 \<and> fst (snd g) = \<lparr>queue_blocks = 1, queue_blk_num = 2\<rparr>
         \<and> rt_rbb_blk_queue_len (fst (snd g)) (snd (snd g)) = 4
         \<and> blk_status (the_blk (rt_rbb_blk_queue_free (fst (snd g)) (snd (snd g))) 0) = RT_RBB_BLK_GET)"
  by code_simp

end
