(* ===== verification/Text_Format.thy ===== *)
theory Text_Format
  imports Prelude
begin

section \<open>Formatted printing (\<open>rt_vsnprintf\<close> of \<open>rt-thread/src/kservice.c\<close>)\<close>

text \<open>
  The printer behind \<^verbatim>\<open>rt_kprintf\<close> and \<^verbatim>\<open>rt_snprintf\<close>, in the configuration with precisions and
  without \<^verbatim>\<open>long long\<close> and the prefix of \<^verbatim>\<open>#\<close>. It writes bytes to memory, a function from
  addresses; the format and the strings among the arguments are lists of bytes up to the zero.
  An argument that is missing or of the other kind is undefined in C: no result. \<open>int\<close> and
  \<open>long\<close> have 32 bits, \<open>char\<close> has no sign.
\<close>

datatype varg = Int_arg u32 | Str_arg "u8 list option"

record fmt_out =
  fo_mem :: "u32 \<Rightarrow> u8"
  fo_str :: u32

abbreviation (input) ZEROPAD :: u8 where "ZEROPAD \<equiv> 0x01"
abbreviation (input) SIGN :: u8 where "SIGN \<equiv> 0x02"
abbreviation (input) PLUS :: u8 where "PLUS \<equiv> 0x04"
abbreviation (input) SPACE :: u8 where "SPACE \<equiv> 0x08"
abbreviation (input) LEFT :: u8 where "LEFT \<equiv> 0x10"
abbreviation (input) SPECIAL :: u8 where "SPECIAL \<equiv> 0x20"
abbreviation (input) LARGE :: u8 where "LARGE \<equiv> 0x40"

unbundle bit_operations_syntax

definition has_flag :: "u8 \<Rightarrow> u8 \<Rightarrow> bool" where
  "has_flag flags m \<longleftrightarrow> flags AND m \<noteq> 0"

abbreviation byte :: "char \<Rightarrow> u8" where "byte c \<equiv> of_char c"

subsection \<open>Writing below the end\<close>

definition put_char :: "u32 \<Rightarrow> u8 \<Rightarrow> fmt_out \<Rightarrow> fmt_out" where
  "put_char lim c o1 =
     o1\<lparr>fo_mem := (if fo_str o1 < lim then (fo_mem o1)(fo_str o1 := c) else fo_mem o1),
        fo_str := fo_str o1 + 1\<rparr>"

definition put_text :: "u32 \<Rightarrow> u8 list \<Rightarrow> fmt_out \<Rightarrow> fmt_out" where
  "put_text lim t = fold (put_char lim) t"

text \<open>The loops \<open>while (lo < w--)\<close> and \<open>while (--w > 0)\<close>.\<close>

function pad_while :: "u32 \<Rightarrow> int \<Rightarrow> u8 \<Rightarrow> int \<Rightarrow> fmt_out \<Rightarrow> int \<times> fmt_out" where
  "pad_while lim lo c w o1 =
    (if lo < w then pad_while lim lo c (w - 1) (put_char lim c o1) else (w - 1, o1))"
  by pat_completeness auto
termination by (relation "measure (\<lambda>(lim, lo, c, w, o1). nat (w - lo))") auto

function pad_dec :: "u32 \<Rightarrow> int \<Rightarrow> fmt_out \<Rightarrow> int \<times> fmt_out" where
  "pad_dec lim w o1 =
    (if 0 < w - 1 then pad_dec lim (w - 1) (put_char lim (byte CHR '' '') o1) else (w - 1, o1))"
  by pat_completeness auto
termination by (relation "measure (\<lambda>(lim, w, o1). nat w)") auto

declare pad_while.simps [simp del] pad_dec.simps [simp del]

subsection \<open>Numbers\<close>

definition small_digits :: string where "small_digits = ''0123456789abcdef''"
definition large_digits :: string where "large_digits = ''0123456789ABCDEF''"

definition divide :: "u32 \<Rightarrow> nat \<Rightarrow> u32 \<times> u32" where
  "divide n base = (if base = 10 then (n mod 10, n div 10) else (n mod 16, n div 16))"

lemma divide_less: "n \<noteq> 0 \<Longrightarrow> unat (snd (divide n base)) < unat n"
  by (simp add: divide_def unat_div word_neq_0_conv word_less_nat_alt)

function number_digits :: "string \<Rightarrow> nat \<Rightarrow> u32 \<Rightarrow> u8 list" where
  "number_digits digits base num =
    (if num = 0 then []
     else byte (digits ! unat (fst (divide num base))) # number_digits digits base (snd (divide num base)))"
  by pat_completeness auto
termination by (relation "measure (\<lambda>(digits, base, num). unat num)") (auto dest: divide_less)

declare number_digits.simps [simp del]

definition number_sign :: "u8 \<Rightarrow> u32 \<Rightarrow> u8 \<times> u32" where
  "number_sign type num =
    (if has_flag type SIGN then
       if sint num < 0 then (byte CHR ''-'', - num)
       else if has_flag type PLUS then (byte CHR ''+'', num)
       else if has_flag type SPACE then (byte CHR '' '', num)
       else (0, num)
     else (0, num))"

definition number_tmp :: "u8 \<Rightarrow> nat \<Rightarrow> u32 \<Rightarrow> u8 list" where
  "number_tmp type base num =
    (if num = 0 then [byte CHR ''0'']
     else number_digits (if has_flag type LARGE then large_digits else small_digits) base num)"

definition print_number :: "u32 \<Rightarrow> u32 \<Rightarrow> nat \<Rightarrow> int \<Rightarrow> int \<Rightarrow> u8 \<Rightarrow> fmt_out \<Rightarrow> fmt_out" where
  "print_number lim num base s precision type o1 =
    (let precision_bak = precision;
         type = (if has_flag type LEFT then type AND NOT ZEROPAD else type);
         c = (if has_flag type ZEROPAD then byte CHR ''0'' else byte CHR '' '')
     in case number_sign type num of (sign, num) \<Rightarrow>
        let tmp = number_tmp type base num;
            i = int (length tmp);
            precision = (if i > precision then i else precision);
            size0 = s - precision
        in case (if \<not> has_flag type (ZEROPAD OR LEFT)
                 then pad_while lim 0 (byte CHR '' '') (if sign \<noteq> 0 \<and> size0 > 0 then size0 - 1 else size0) o1
                 else (size0, o1)) of (size0, o1) \<Rightarrow>
           case (if sign \<noteq> 0 then (size0 - 1, put_char lim sign o1) else (size0, o1)) of (size0, o1) \<Rightarrow>
           case (if \<not> has_flag type LEFT then pad_while lim 0 c size0 o1 else (size0, o1)) of (size0, o1) \<Rightarrow>
           case pad_while lim i (byte CHR ''0'') precision o1 of (precision, o1) \<Rightarrow>
           let o1 = (if precision_bak \<noteq> 0 then put_text lim (rev tmp) o1 else o1)
           in snd (pad_while lim 0 (byte CHR '' '') size0 o1))"

subsection \<open>The parts of a conversion\<close>

fun parse_flags :: "u8 \<Rightarrow> string \<Rightarrow> u8 \<times> string" where
  "parse_flags flags [] = (flags, [])"
| "parse_flags flags (c # fmt) =
    (if c = CHR ''-'' then parse_flags (flags OR LEFT) fmt
     else if c = CHR ''+'' then parse_flags (flags OR PLUS) fmt
     else if c = CHR '' '' then parse_flags (flags OR SPACE) fmt
     else if c = CHR ''#'' then parse_flags (flags OR SPECIAL) fmt
     else if c = CHR ''0'' then parse_flags (flags OR ZEROPAD) fmt
     else (flags, c # fmt))"

definition is_digit :: "char \<Rightarrow> bool" where
  "is_digit c \<longleftrightarrow> (of_char c :: u32) - of_char CHR ''0'' < 10"

fun skip_atoi :: "u32 \<Rightarrow> string \<Rightarrow> u32 \<times> string" where
  "skip_atoi i [] = (i, [])"
| "skip_atoi i (c # fmt) =
    (if is_digit c then skip_atoi (i * 10 + of_char c - of_char CHR ''0'') fmt else (i, c # fmt))"

fun next_char :: "string \<Rightarrow> char option" where
  "next_char [] = None"
| "next_char (c # fmt) = Some c"

definition at_digit :: "string \<Rightarrow> bool" where
  "at_digit fmt \<longleftrightarrow> (case next_char fmt of None \<Rightarrow> False | Some c \<Rightarrow> is_digit c)"

fun int_arg :: "varg list \<Rightarrow> (u32 \<times> varg list) option" where
  "int_arg (Int_arg n # args) = Some (n, args)"
| "int_arg args = None"

fun str_arg :: "varg list \<Rightarrow> (u8 list option \<times> varg list) option" where
  "str_arg (Str_arg s # args) = Some (s, args)"
| "str_arg args = None"

definition parse_width :: "u8 \<Rightarrow> string \<Rightarrow> varg list \<Rightarrow> (int \<times> u8 \<times> string \<times> varg list) option" where
  "parse_width flags fmt args =
    (if at_digit fmt then (case skip_atoi 0 fmt of (w, fmt) \<Rightarrow> Some (sint w, flags, fmt, args))
     else if next_char fmt = Some CHR ''*'' then
       (case int_arg args of
          None \<Rightarrow> None
        | Some (w, args) \<Rightarrow>
           if sint w < 0 then Some (sint (- w), flags OR LEFT, tl fmt, args)
           else Some (sint w, flags, tl fmt, args))
     else Some (- 1, flags, fmt, args))"

definition parse_precision :: "string \<Rightarrow> varg list \<Rightarrow> (int \<times> string \<times> varg list) option" where
  "parse_precision fmt args =
    (if next_char fmt = Some CHR ''.'' then
       let fmt = tl fmt
       in case (if at_digit fmt then (case skip_atoi 0 fmt of (p, fmt) \<Rightarrow> Some (sint p, fmt, args))
                else if next_char fmt = Some CHR ''*'' then
                  (case int_arg args of None \<Rightarrow> None | Some (p, args) \<Rightarrow> Some (sint p, tl fmt, args))
                else Some (- 1, fmt, args)) of
            None \<Rightarrow> None
          | Some (precision, fmt, args) \<Rightarrow> Some (if precision < 0 then 0 else precision, fmt, args)
     else Some (- 1, fmt, args))"

definition parse_qualifier :: "string \<Rightarrow> char option \<times> string" where
  "parse_qualifier fmt =
    (if next_char fmt = Some CHR ''h'' \<or> next_char fmt = Some CHR ''l'' then (next_char fmt, tl fmt) else (None, fmt))"

subsection \<open>The conversions\<close>

fun s_len :: "int \<Rightarrow> int \<Rightarrow> u8 list \<Rightarrow> int" where
  "s_len w len [] = len"
| "s_len w len (c # s) = (if len \<noteq> w \<and> c \<noteq> 0 then s_len w (len + 1) s else len)"

definition chars_null :: "u8 list" where "chars_null = map of_char ''(NULL)''"

definition print_char :: "u32 \<Rightarrow> u8 \<Rightarrow> int \<Rightarrow> u32 \<Rightarrow> fmt_out \<Rightarrow> fmt_out" where
  "print_char lim flags w c o1 =
    (case (if \<not> has_flag flags LEFT then pad_dec lim w o1 else (w, o1)) of (w, o1) \<Rightarrow>
       snd (pad_dec lim w (put_char lim (ucast c) o1)))"

definition print_string :: "u32 \<Rightarrow> u8 \<Rightarrow> int \<Rightarrow> int \<Rightarrow> u8 list option \<Rightarrow> fmt_out \<Rightarrow> fmt_out" where
  "print_string lim flags w precision s o1 =
    (let s = (case s of None \<Rightarrow> chars_null | Some s \<Rightarrow> s);
         len = s_len w 0 s;
         len = (if precision > 0 \<and> len > precision then precision else len)
     in case (if \<not> has_flag flags LEFT then pad_while lim len (byte CHR '' '') w o1 else (w, o1)) of (w, o1) \<Rightarrow>
        let o1 = put_text lim (take (nat len) s) o1
        in snd (pad_while lim len (byte CHR '' '') w o1))"

text \<open>The flags and the base of the integer conversions; \<open>None\<close> for other letters.\<close>

definition integer_conv :: "char \<Rightarrow> u8 \<Rightarrow> (nat \<times> u8) option" where
  "integer_conv c flags =
    (if c = CHR ''o'' then Some (8, flags)
     else if c = CHR ''X'' then Some (16, flags OR LARGE)
     else if c = CHR ''x'' then Some (16, flags)
     else if c = CHR ''d'' \<or> c = CHR ''i'' then Some (10, flags OR SIGN)
     else if c = CHR ''u'' then Some (10, flags)
     else None)"

definition integer_value :: "char option \<Rightarrow> u8 \<Rightarrow> u32 \<Rightarrow> u32" where
  "integer_value qualifier flags n =
    (if qualifier = Some CHR ''h'' then
       if has_flag flags SIGN then scast (ucast n :: u16) else ucast (ucast n :: u16)
     else n)"

definition convert ::
  "u32 \<Rightarrow> u8 \<Rightarrow> int \<Rightarrow> int \<Rightarrow> char option \<Rightarrow> string \<Rightarrow> varg list \<Rightarrow> fmt_out \<Rightarrow> (string \<times> varg list \<times> fmt_out) option" where
  "convert lim flags w precision qualifier fmt args o1 =
    (case next_char fmt of
       None \<Rightarrow> Some ([], args, put_char lim (byte CHR ''%'') o1)
     | Some c \<Rightarrow>
        if c = CHR ''c'' then
          (case int_arg args of None \<Rightarrow> None
           | Some (n, args) \<Rightarrow> Some (tl fmt, args, print_char lim flags w n o1))
        else if c = CHR ''s'' then
          (case str_arg args of None \<Rightarrow> None
           | Some (s, args) \<Rightarrow> Some (tl fmt, args, print_string lim flags w precision s o1))
        else if c = CHR ''p'' then
          (case int_arg args of None \<Rightarrow> None
           | Some (n, args) \<Rightarrow>
              Some (tl fmt, args, if w = - 1 then print_number lim n 16 8 precision (flags OR ZEROPAD) o1
                                  else print_number lim n 16 w precision flags o1))
        else if c = CHR ''%'' then Some (tl fmt, args, put_char lim (byte CHR ''%'') o1)
        else
          (case integer_conv c flags of
             None \<Rightarrow> Some (tl fmt, args, put_char lim (byte c) (put_char lim (byte CHR ''%'') o1))
           | Some (base, flags) \<Rightarrow>
              (case int_arg args of None \<Rightarrow> None
               | Some (n, args) \<Rightarrow>
                  Some (tl fmt, args, print_number lim (integer_value qualifier flags n) base w precision flags o1))))"

text \<open>Each part leaves no more of the format than it was given.\<close>

lemma parse_flags_shorter: "length (snd (parse_flags flags fmt)) \<le> length fmt"
  by (induction flags fmt rule: parse_flags.induct) (auto simp: le_SucI)

lemma skip_atoi_shorter: "length (snd (skip_atoi i fmt)) \<le> length fmt"
  by (induction i fmt rule: skip_atoi.induct) (auto simp: le_SucI)

lemma parse_width_shorter: "parse_width flags fmt args = Some (w, flags', fmt', args') \<Longrightarrow> length fmt' \<le> length fmt"
  using skip_atoi_shorter [of 0 fmt]
  by (auto simp: parse_width_def split: if_splits prod.splits option.splits)

lemma parse_precision_shorter: "parse_precision fmt args = Some (p, fmt', args') \<Longrightarrow> length fmt' \<le> length fmt"
  using skip_atoi_shorter [of 0 "tl fmt"]
  by (auto simp: parse_precision_def Let_def split: if_splits prod.splits option.splits)

lemma parse_qualifier_shorter: "length (snd (parse_qualifier fmt)) \<le> length fmt"
  by (simp add: parse_qualifier_def)

lemma convert_shorter: "convert lim flags w p ql fmt args o1 = Some (fmt', args', o2) \<Longrightarrow> length fmt' \<le> length fmt"
  by (cases fmt) (auto simp: convert_def split: if_splits option.splits)

text \<open>One conversion, after its percent sign.\<close>

definition conversion :: "u32 \<Rightarrow> string \<Rightarrow> varg list \<Rightarrow> fmt_out \<Rightarrow> (string \<times> varg list \<times> fmt_out) option" where
  "conversion lim fmt args o1 =
    (case parse_flags 0 fmt of (flags, fmt) \<Rightarrow>
       (case parse_width flags fmt args of
          None \<Rightarrow> None
        | Some (w, flags, fmt, args) \<Rightarrow>
           (case parse_precision fmt args of
              None \<Rightarrow> None
            | Some (precision, fmt, args) \<Rightarrow>
               (case parse_qualifier fmt of (qualifier, fmt) \<Rightarrow>
                  convert lim flags w precision qualifier fmt args o1))))"

lemma conversion_shorter: "conversion lim fmt args o1 = Some (fmt', args', o2) \<Longrightarrow> length fmt' \<le> length fmt"
  unfolding conversion_def using parse_flags_shorter [of 0 fmt]
  by (auto split: prod.splits option.splits dest!: convert_shorter parse_width_shorter parse_precision_shorter)
    (metis (no_types, opaque_lifting) le_trans parse_qualifier_shorter snd_conv)+

function vsnprintf_loop :: "u32 \<Rightarrow> string \<Rightarrow> varg list \<Rightarrow> fmt_out \<Rightarrow> fmt_out option" where
  "vsnprintf_loop lim [] args o1 = Some o1"
| "vsnprintf_loop lim (c # fmt) args o1 =
    (if c \<noteq> CHR ''%'' then vsnprintf_loop lim fmt args (put_char lim (byte c) o1)
     else
       (case conversion lim fmt args o1 of
          None \<Rightarrow> None
        | Some (fmt, args, o1) \<Rightarrow> vsnprintf_loop lim fmt args o1))"
  by pat_completeness auto
termination
  by (relation "measure (\<lambda>(lim, fmt, args, o1). length fmt)") (auto dest: conversion_shorter)

definition rt_vsnprintf ::
  "u32 \<Rightarrow> u32 \<Rightarrow> string \<Rightarrow> varg list \<Rightarrow> (u32 \<Rightarrow> u8) \<Rightarrow> (int \<times> (u32 \<Rightarrow> u8)) option" where
  "rt_vsnprintf buf size0 fmt args mem =
    (let lim = buf + size0;
         (lim, size0) = (if lim < buf then (0xffffffff, 0xffffffff - buf) else (lim, size0))
     in case vsnprintf_loop lim fmt args \<lparr>fo_mem = mem, fo_str = buf\<rparr> of
          None \<Rightarrow> None
        | Some o1 \<Rightarrow>
           let mem = (if 0 < size0 then
                        if fo_str o1 < lim then (fo_mem o1)(fo_str o1 := 0) else (fo_mem o1)(lim - 1 := 0)
                      else fo_mem o1)
           in Some (sint (fo_str o1 - buf), mem))"

definition rt_snprintf ::
  "u32 \<Rightarrow> u32 \<Rightarrow> string \<Rightarrow> varg list \<Rightarrow> (u32 \<Rightarrow> u8) \<Rightarrow> (int \<times> (u32 \<Rightarrow> u8)) option" where
  "rt_snprintf buf size0 fmt args mem = rt_vsnprintf buf size0 fmt args mem"

definition rt_vsprintf :: "u32 \<Rightarrow> string \<Rightarrow> varg list \<Rightarrow> (u32 \<Rightarrow> u8) \<Rightarrow> (int \<times> (u32 \<Rightarrow> u8)) option" where
  "rt_vsprintf buf fmt args mem = rt_vsnprintf buf (- 1) fmt args mem"

definition rt_sprintf :: "u32 \<Rightarrow> string \<Rightarrow> varg list \<Rightarrow> (u32 \<Rightarrow> u8) \<Rightarrow> (int \<times> (u32 \<Rightarrow> u8)) option" where
  "rt_sprintf buf fmt args mem = rt_vsprintf buf fmt args mem"

subsection \<open>The text of a format\<close>

text \<open>
  What the printer should write, as a list of bytes: a number is padding, sign, zeros up to the
  precision and digits; a string is padded to its width.
\<close>

definition blanks :: "int \<Rightarrow> u8 list" where "blanks n = replicate (nat n) (byte CHR '' '')"
definition zeros :: "int \<Rightarrow> u8 list" where "zeros n = replicate (nat n) (byte CHR ''0'')"

definition number_text :: "u32 \<Rightarrow> nat \<Rightarrow> int \<Rightarrow> int \<Rightarrow> u8 \<Rightarrow> u8 list" where
  "number_text num base s precision type =
    (case number_sign type num of (sign, num) \<Rightarrow>
       let tmp = number_tmp type base num;
           sg = (if sign \<noteq> 0 then [sign] else []);
           body = zeros (precision - int (length tmp)) @ (if precision \<noteq> 0 then rev tmp else []);
           pad = s - max precision (int (length tmp)) - int (length sg)
       in if has_flag type LEFT then sg @ body @ blanks pad
          else if has_flag type ZEROPAD then sg @ zeros pad @ body
          else blanks pad @ sg @ body)"

definition char_text :: "u8 \<Rightarrow> int \<Rightarrow> u32 \<Rightarrow> u8 list" where
  "char_text flags w c =
    (if has_flag flags LEFT then ucast c # blanks (w - 1) else blanks (w - 1) @ [ucast c])"

definition string_text :: "u8 \<Rightarrow> int \<Rightarrow> int \<Rightarrow> u8 list option \<Rightarrow> u8 list" where
  "string_text flags w precision s =
    (let s = (case s of None \<Rightarrow> chars_null | Some s \<Rightarrow> s);
         len = s_len w 0 s;
         len = (if precision > 0 \<and> len > precision then precision else len)
     in if has_flag flags LEFT then take (nat len) s @ blanks (w - len) else blanks (w - len) @ take (nat len) s)"

definition convert_text ::
  "u8 \<Rightarrow> int \<Rightarrow> int \<Rightarrow> char option \<Rightarrow> string \<Rightarrow> varg list \<Rightarrow> (string \<times> varg list \<times> u8 list) option" where
  "convert_text flags w precision qualifier fmt args =
    (case next_char fmt of
       None \<Rightarrow> Some ([], args, [byte CHR ''%''])
     | Some c \<Rightarrow>
        if c = CHR ''c'' then map_option (\<lambda>(n, args). (tl fmt, args, char_text flags w n)) (int_arg args)
        else if c = CHR ''s'' then map_option (\<lambda>(s, args). (tl fmt, args, string_text flags w precision s)) (str_arg args)
        else if c = CHR ''p'' then
          map_option (\<lambda>(n, args). (tl fmt, args,
            if w = - 1 then number_text n 16 8 precision (flags OR ZEROPAD) else number_text n 16 w precision flags)) (int_arg args)
        else if c = CHR ''%'' then Some (tl fmt, args, [byte CHR ''%''])
        else
          (case integer_conv c flags of
             None \<Rightarrow> Some (tl fmt, args, [byte CHR ''%'', byte c])
           | Some (base, flags) \<Rightarrow>
              map_option (\<lambda>(n, args). (tl fmt, args, number_text (integer_value qualifier flags n) base w precision flags))
                (int_arg args)))"

definition conversion_text :: "string \<Rightarrow> varg list \<Rightarrow> (string \<times> varg list \<times> u8 list) option" where
  "conversion_text fmt args =
    (case parse_flags 0 fmt of (flags, fmt) \<Rightarrow>
       (case parse_width flags fmt args of
          None \<Rightarrow> None
        | Some (w, flags, fmt, args) \<Rightarrow>
           (case parse_precision fmt args of
              None \<Rightarrow> None
            | Some (precision, fmt, args) \<Rightarrow>
               (case parse_qualifier fmt of (qualifier, fmt) \<Rightarrow>
                  convert_text flags w precision qualifier fmt args))))"

lemma convert_text_shorter: "convert_text flags w p ql fmt args = Some (fmt', args', t) \<Longrightarrow> length fmt' \<le> length fmt"
  by (cases fmt) (auto simp: convert_text_def split: if_splits option.splits)

lemma conversion_text_shorter: "conversion_text fmt args = Some (fmt', args', t) \<Longrightarrow> length fmt' \<le> length fmt"
  unfolding conversion_text_def using parse_flags_shorter [of 0 fmt]
  by (auto split: prod.splits option.splits dest!: convert_text_shorter parse_width_shorter parse_precision_shorter)
    (metis (no_types, opaque_lifting) le_trans parse_qualifier_shorter snd_conv)+

function format_text :: "string \<Rightarrow> varg list \<Rightarrow> u8 list option" where
  "format_text [] args = Some []"
| "format_text (c # fmt) args =
    (if c \<noteq> CHR ''%'' then map_option ((#) (byte c)) (format_text fmt args)
     else
       (case conversion_text fmt args of
          None \<Rightarrow> None
        | Some (fmt, args, t) \<Rightarrow> map_option ((@) t) (format_text fmt args)))"
  by pat_completeness auto
termination
  by (relation "measure (\<lambda>(fmt, args). length fmt)") (auto dest: conversion_text_shorter)


subsection \<open>The printer writes the text\<close>

lemma put_text_Nil [simp]: "put_text lim [] o1 = o1"
  by (simp add: put_text_def)

lemma put_text_Cons: "put_text lim (c # t) o1 = put_text lim t (put_char lim c o1)"
  by (simp add: put_text_def)

lemma put_text_put_text [simp]: "put_text lim t (put_text lim u o1) = put_text lim (u @ t) o1"
  by (simp add: put_text_def)

lemma put_char_text: "put_char lim c o1 = put_text lim [c] o1"
  by (simp add: put_text_def)

lemma blanks_le [simp]: "n \<le> 0 \<Longrightarrow> blanks n = []" "n \<le> 0 \<Longrightarrow> zeros n = []"
  by (simp_all add: blanks_def zeros_def)

lemma pad_while:
  "pad_while lim lo c w o1 = (if lo < w then lo - 1 else w - 1, put_text lim (replicate (nat (w - lo)) c) o1)"
proof (induction lim lo c w o1 rule: pad_while.induct)
  case (1 lim lo c w o1)
  show ?case
  proof (cases "lo < w")
    case True
    then have "replicate (nat (w - lo)) c = c # replicate (nat (w - 1 - lo)) c"
      by (simp flip: replicate_Suc)
    then show ?thesis using 1 True by (subst pad_while.simps) (auto simp: put_text_Cons)
  qed (subst pad_while.simps, simp)
qed

lemma pad_dec: "pad_dec lim w o1 = (if 0 < w - 1 then 0 else w - 1, put_text lim (blanks (w - 1)) o1)"
proof (induction lim w o1 rule: pad_dec.induct)
  case (1 lim w o1)
  show ?case
  proof (cases "0 < w - 1")
    case True
    then have "blanks (w - 1) = byte CHR '' '' # blanks (w - 1 - 1)"
      unfolding blanks_def by (simp flip: replicate_Suc)
    then show ?thesis using 1 True by (subst pad_dec.simps) (auto simp: put_text_Cons)
  qed (subst pad_dec.simps, simp)
qed

lemma print_char: "print_char lim flags w c o1 = put_text lim (char_text flags w c) o1"
  by (auto simp: print_char_def char_text_def pad_dec put_char_text)

lemma print_string: "print_string lim flags w precision s o1 = put_text lim (string_text flags w precision s) o1"
  by (simp add: print_string_def string_text_def pad_while Let_def blanks_def)


lemma has_flag_bit: "k < 8 \<Longrightarrow> has_flag t (2 ^ k) \<longleftrightarrow> bit t k"
  by (simp add: has_flag_def and_exp_eq_0_iff_not_bit)

lemma has_flag_bits:
  "has_flag t 0x01 \<longleftrightarrow> bit t 0" "has_flag t 0x02 \<longleftrightarrow> bit t 1" "has_flag t 0x04 \<longleftrightarrow> bit t 2"
  "has_flag t 0x08 \<longleftrightarrow> bit t 3" "has_flag t 0x10 \<longleftrightarrow> bit t 4" "has_flag t 0x40 \<longleftrightarrow> bit t 6"
  using has_flag_bit [of 0 t] has_flag_bit [of 1 t] has_flag_bit [of 2 t] has_flag_bit [of 3 t] has_flag_bit [of 4 t]
    has_flag_bit [of 6 t] by simp_all

lemma has_flag_or: "has_flag t (a OR b) \<longleftrightarrow> has_flag t a \<or> has_flag t b"
  by (simp add: has_flag_def bit.conj_disj_distrib or_eq_0_iff)

lemma has_flag_clear:
  "has_flag (t AND NOT 0x01) 0x01 = False" "has_flag (t AND NOT 0x01) 0x02 = has_flag t 0x02"
  "has_flag (t AND NOT 0x01) 0x04 = has_flag t 0x04" "has_flag (t AND NOT 0x01) 0x08 = has_flag t 0x08"
  "has_flag (t AND NOT 0x01) 0x10 = has_flag t 0x10" "has_flag (t AND NOT 0x01) 0x40 = has_flag t 0x40"
  unfolding has_flag_bits by (simp_all add: bit_and_iff bit_not_iff bit_1_iff)

lemma print_number: "print_number lim num base s precision type o1 = put_text lim (number_text num base s precision type) o1"
proof -
  let ?t = "if has_flag type LEFT then type AND NOT ZEROPAD else type"
  have f: "has_flag ?t LEFT = has_flag type LEFT" "has_flag ?t ZEROPAD = (has_flag type ZEROPAD \<and> \<not> has_flag type LEFT)"
    "number_sign ?t num = number_sign type num" "number_tmp ?t base n = number_tmp type base n" for n
    by (simp_all add: has_flag_clear [simplified] number_sign_def number_tmp_def)
  obtain sign n where sn: "number_sign type num = (sign, n)" by fastforce
  define tmp where "tmp = number_tmp type base n"
  define i where "i = int (length tmp)"
  define P where "P = (if i > precision then i else precision)"
  have P: "P = max precision i" "nat (P - i) = nat (precision - i)" by (auto simp: P_def)
  show ?thesis
    unfolding print_number_def number_text_def Let_def f has_flag_or sn prod.case tmp_def [symmetric] i_def [symmetric] P_def [symmetric]
    by (cases "sign = 0"; cases "has_flag type LEFT"; cases "has_flag type ZEROPAD")
      (simp_all add: pad_while put_char_text P blanks_def zeros_def, auto simp: max_def intro!: arg_cong [where f = "\<lambda>n. put_text lim (replicate n _ @ _) o1"])
qed


lemma convert:
  "convert lim flags w p ql fmt args o1 =
     map_option (\<lambda>(fmt, args, t). (fmt, args, put_text lim t o1)) (convert_text flags w p ql fmt args)"
  by (auto simp: convert_def convert_text_def print_char print_string print_number put_char_text split: option.split)

lemma conversion:
  "conversion lim fmt args o1 =
     map_option (\<lambda>(fmt, args, t). (fmt, args, put_text lim t o1)) (conversion_text fmt args)"
  by (auto simp: conversion_def conversion_text_def convert split: option.split prod.split)

lemma vsnprintf_loop: "vsnprintf_loop lim fmt args o1 = map_option (\<lambda>t. put_text lim t o1) (format_text fmt args)"
proof (induction lim fmt args o1 rule: vsnprintf_loop.induct)
  case (2 lim c fmt args o1)
  show ?case
  proof (cases "c = CHR ''%''")
    case True
    show ?thesis
    proof (cases "conversion_text fmt args")
      case (Some r)
      obtain fmt' args' t where r: "r = (fmt', args', t)" by (cases r) auto
      have "conversion lim fmt args o1 = Some (fmt', args', put_text lim t o1)" by (simp add: conversion Some r)
      then show ?thesis using 2(2) True Some r by (simp add: option.map_comp comp_def)
    qed (use True in \<open>simp add: conversion\<close>)
  next
    case False
    then show ?thesis using 2(1) by (simp add: option.map_comp comp_def put_text_Cons)
  qed
qed simp

lemma put_text_effect:
  assumes "unat (fo_str o1) + length t < 2 ^ 32"
  shows "unat (fo_str (put_text lim t o1)) = unat (fo_str o1) + length t"
    and "fo_mem (put_text lim t o1) a =
      (if unat (fo_str o1) \<le> unat a \<and> unat a < unat (fo_str o1) + length t \<and> a < lim
       then t ! (unat a - unat (fo_str o1)) else fo_mem o1 a)"
proof -
  have "unat (fo_str (put_text lim t o1)) = unat (fo_str o1) + length t
    \<and> fo_mem (put_text lim t o1) a =
      (if unat (fo_str o1) \<le> unat a \<and> unat a < unat (fo_str o1) + length t \<and> a < lim
       then t ! (unat a - unat (fo_str o1)) else fo_mem o1 a)"
    using assms
  proof (induction t arbitrary: o1)
    case (Cons c t)
    let ?p = "put_char lim c o1"
    have s: "unat (fo_str ?p) = Suc (unat (fo_str o1))"
      using Cons.prems by (simp add: put_char_def unat_word_ariths)
    have ih: "unat (fo_str (put_text lim t ?p)) = unat (fo_str ?p) + length t
      \<and> fo_mem (put_text lim t ?p) a =
      (if unat (fo_str ?p) \<le> unat a \<and> unat a < unat (fo_str ?p) + length t \<and> a < lim
       then t ! (unat a - unat (fo_str ?p)) else fo_mem ?p a)"
      using Cons.prems s by (intro Cons.IH) simp
    have "unat a = unat (fo_str o1) \<longleftrightarrow> a = fo_str o1" by (simp add: word_unat_eq_iff)
    then have m: "fo_mem ?p a = (if unat a = unat (fo_str o1) \<and> a < lim then c else fo_mem o1 a)"
      by (auto simp: put_char_def)
    have "(c # t) ! (unat a - unat (fo_str o1)) = t ! (unat a - Suc (unat (fo_str o1)))" if "unat (fo_str o1) < unat a"
      using that by (simp add: nth_Cons' Suc_diff_Suc flip: diff_Suc_eq_diff_pred)
    then show ?case using ih s m by (auto simp: put_text_Cons)
  qed auto
  then show "unat (fo_str (put_text lim t o1)) = unat (fo_str o1) + length t"
    "fo_mem (put_text lim t o1) a =
      (if unat (fo_str o1) \<le> unat a \<and> unat a < unat (fo_str o1) + length t \<and> a < lim
       then t ! (unat a - unat (fo_str o1)) else fo_mem o1 a)" by blast+
qed

lemma vsnprintf_text:
  assumes t: "format_text fmt args = Some t" and buf: "unat buf + unat size0 < 2 ^ 32"
    and len: "unat buf + length t < 2 ^ 32" "length t < 2 ^ 31"
  defines "n \<equiv> min (length t) (unat size0 - 1)"
  shows "\<exists>mem'. rt_vsnprintf buf size0 fmt args mem = Some (int (length t), mem')
    \<and> (\<forall>a. unat a < unat buf \<or> unat buf + unat size0 \<le> unat a \<longrightarrow> mem' a = mem a)
    \<and> (0 < size0 \<longrightarrow> map (\<lambda>i. mem' (buf + of_nat i)) [0..<n + 1] = take n t @ [0])"
proof -
  define lim where "lim = buf + size0"
  have lim: "unat lim = unat buf + unat size0" "\<not> lim < buf"
    using buf by (simp_all add: lim_def unat_word_ariths word_less_nat_alt)
  define o1 where "o1 = put_text lim t \<lparr>fo_mem = mem, fo_str = buf\<rparr>"
  have s: "unat (fo_str o1) = unat buf + length t"
    and m: "fo_mem o1 a = (if unat buf \<le> unat a \<and> unat a < unat buf + length t \<and> a < lim
      then t ! (unat a - unat buf) else mem a)" for a
    using put_text_effect [of "\<lparr>fo_mem = mem, fo_str = buf\<rparr>" t lim] len(1) by (simp_all add: o1_def)
  define mem' where "mem' = (if 0 < size0 then
      if fo_str o1 < lim then (fo_mem o1)(fo_str o1 := 0) else (fo_mem o1)(lim - 1 := 0) else fo_mem o1)"
  have "unat (fo_str o1 - buf) = length t" using s by (subst unat_sub) (simp_all add: word_le_nat_alt)
  then have "sint (fo_str o1 - buf) = int (length t)" 
    using len(2) by (simp add: sint_uint signed_take_bit_int_eq_self flip: uint_nat)
      (simp add: uint_nat signed_take_bit_int_eq_self)
  then have r: "rt_vsnprintf buf size0 fmt args mem = Some (int (length t), mem')"
    using lim(2) by (simp add: rt_vsnprintf_def vsnprintf_loop t mem'_def o1_def lim_def Let_def)
  have l1: "0 < size0 \<Longrightarrow> unat (lim - 1) = unat buf + unat size0 - 1"
    using lim(1) by (subst unat_minus_one) (auto simp: word_less_nat_alt)
  have out: "mem' a = mem a" if "unat a < unat buf \<or> unat buf + unat size0 \<le> unat a" for a
    using that s m [of a] lim(1) l1 by (auto simp: mem'_def word_less_nat_alt)
  have "map (\<lambda>i. mem' (buf + of_nat i)) [0..<n + 1] = take n t @ [0]" if pos: "0 < size0"
  proof (rule nth_equalityI)
    have p: "0 < unat size0" using pos by (simp add: word_less_nat_alt)
    show "length (map (\<lambda>i. mem' (buf + of_nat i)) [0..<n + 1]) = length (take n t @ [0])" by (simp add: n_def)
    fix i assume "i < length (map (\<lambda>i. mem' (buf + of_nat i)) [0..<n + 1])"
    then have i: "i \<le> n" by simp
    have a: "unat (buf + of_nat i) = unat buf + i" 
    proof -
      have "unat buf + i < 2 ^ 32" using i buf p by (simp add: n_def) linarith
      then show ?thesis by (simp add: unat_word_ariths unat_of_nat)
    qed
    define zpos where "zpos = (if fo_str o1 < lim then fo_str o1 else lim - 1)"
    have "unat zpos = unat buf + n"
      using s lim(1) l1 pos p by (auto simp: zpos_def n_def word_less_nat_alt)
    then have "buf + of_nat i = zpos \<longleftrightarrow> i = n" using a by (metis add_left_cancel word_unat_eq_iff)
    moreover have "mem' = (fo_mem o1)(zpos := 0)" using pos by (simp add: mem'_def zpos_def)
    ultimately have "mem' (buf + of_nat i) = (if i = n then 0 else fo_mem o1 (buf + of_nat i))" by auto
    also have "\<dots> = (take n t @ [0]) ! i"
      using m [of "buf + of_nat i"] a i p lim(1) by (auto simp: n_def nth_append word_less_nat_alt)
    finally show "map (\<lambda>i. mem' (buf + of_nat i)) [0..<n + 1] ! i = (take n t @ [0]) ! i" using i by (simp del: upt_Suc)
  qed
  then show ?thesis using r out by blast
qed

text \<open>
  C37. \<open>rt_vsnprintf\<close> puts the text of its format into the buffer: as much of it as fits, always with a
  zero behind it, and not a byte outside the buffer, whatever the format and the arguments are. It
  returns the length of the whole text, also when only a part of it fits.
\<close>

theorem vsnprintf_writes_the_text:
  assumes t: "format_text fmt args = Some t" and buf: "unat buf + unat size0 < 2 ^ 32"
    and len: "unat buf + length t < 2 ^ 32" "length t < 2 ^ 31"
  defines "n \<equiv> min (length t) (unat size0 - 1)"
  shows "\<exists>mem'. rt_vsnprintf buf size0 fmt args mem = Some (int (length t), mem')
    \<and> (\<forall>a. unat a < unat buf \<or> unat buf + unat size0 \<le> unat a \<longrightarrow> mem' a = mem a)
    \<and> (0 < size0 \<longrightarrow> map (\<lambda>i. mem' (buf + of_nat i)) [0..<n + 1] = take n t @ [0])"
  using vsnprintf_text [OF assms(1-4), of mem] unfolding n_def by blast


subsection \<open>Reading numbers back\<close>

definition digit_value :: "u8 \<Rightarrow> nat" where
  "digit_value c = (if c < 0x3A then unat c - 0x30 else if c < 0x47 then unat c - 55 else unat c - 87)"

definition read_number :: "nat \<Rightarrow> u8 list \<Rightarrow> nat" where
  "read_number base t = foldl (\<lambda>n c. n * base + digit_value c) 0 t"

fun read_int :: "nat \<Rightarrow> u8 list \<Rightarrow> int" where
  "read_int base [] = 0"
| "read_int base (c # t) =
    (if c = byte CHR ''-'' then - int (read_number base t)
     else if c = byte CHR ''+'' then int (read_number base t)
     else int (read_number base (c # t)))"

definition no_blanks :: "u8 list \<Rightarrow> u8 list" where
  "no_blanks = filter (\<lambda>c. c \<noteq> byte CHR '' '')"

lemma digit_tables:
  "k < 16 \<Longrightarrow> digit_value (byte (small_digits ! k)) = k \<and> digit_value (byte (large_digits ! k)) = k
     \<and> byte (small_digits ! k) \<notin> {0x20, 0x2B, 0x2D} \<and> byte (large_digits ! k) \<notin> {0x20, 0x2B, 0x2D}"
proof -
  have "list_all (\<lambda>k. digit_value (byte (small_digits ! k)) = k \<and> digit_value (byte (large_digits ! k)) = k
     \<and> byte (small_digits ! k) \<notin> {0x20, 0x2B, 0x2D} \<and> byte (large_digits ! k) \<notin> {0x20, 0x2B, 0x2D}) [0..<16]"
    by code_simp
  then show "k < 16 \<Longrightarrow> ?thesis" by (simp add: list_all_iff)
qed

lemma divide_parts:
  "base = 10 \<or> base = 16 \<Longrightarrow> unat (fst (divide n base)) = unat n mod base \<and> unat (snd (divide n base)) = unat n div base"
  by (auto simp: divide_def unat_mod unat_div)

lemma number_digits_read:
  assumes "base = 10 \<or> base = 16" "digits = small_digits \<or> digits = large_digits"
  shows "read_number base (rev (number_digits digits base num)) = unat num
    \<and> set (number_digits digits base num) \<inter> {0x20, 0x2B, 0x2D} = {}"
  using assms
proof (induction digits base num rule: number_digits.induct)
  case (1 digits base num)
  show ?case
  proof (cases "num = 0")
    case False
    have k: "unat (fst (divide num base)) < 16" using divide_parts [OF 1(2)] 1(2) by auto
    then have d: "digit_value (byte (digits ! unat (fst (divide num base)))) = unat num mod base"
      "byte (digits ! unat (fst (divide num base))) \<notin> {0x20, 0x2B, 0x2D}"
      using digit_tables [OF k] 1(3) divide_parts [OF 1(2)] by auto
    have "read_number base (rev (number_digits digits base (snd (divide num base)))) = unat num div base"
      "set (number_digits digits base (snd (divide num base))) \<inter> {0x20, 0x2B, 0x2D} = {}"
      using 1(1) [OF False 1(2,3)] divide_parts [OF 1(2)] by auto
    then show ?thesis using False d
      by (subst (1 2) number_digits.simps) (simp add: read_number_def div_mult_mod_eq)
  qed (simp add: number_digits.simps read_number_def)
qed

lemma number_tmp_read:
  assumes "base = 10 \<or> base = 16"
  shows "read_number base (rev (number_tmp type base num)) = unat num"
    and "set (number_tmp type base num) \<inter> {0x20, 0x2B, 0x2D} = {}" "number_tmp type base num \<noteq> []"
proof -
  show "read_number base (rev (number_tmp type base num)) = unat num"
    "set (number_tmp type base num) \<inter> {0x20, 0x2B, 0x2D} = {}"
    using number_digits_read [OF assms, of _ num] by (auto simp: number_tmp_def read_number_def digit_value_def)
  show "number_tmp type base num \<noteq> []" by (auto simp: number_tmp_def number_digits.simps)
qed

lemma read_number_zeros: "read_number base (zeros n @ t) = read_number base t"
proof -
  have "foldl (\<lambda>n c. n * base + digit_value c) 0 (replicate m (byte CHR ''0'') @ t) = foldl (\<lambda>n c. n * base + digit_value c) 0 t" for m
    by (induction m) (simp_all add: digit_value_def)
  then show ?thesis by (simp add: read_number_def zeros_def)
qed

lemma no_blanks_text:
  "no_blanks (blanks n) = []" "no_blanks (zeros n) = zeros n" "no_blanks (xs @ ys) = no_blanks xs @ no_blanks ys"
  "set t \<inter> {0x20, 0x2B, 0x2D} = {} \<Longrightarrow> no_blanks t = t"
  by (auto simp: no_blanks_def blanks_def zeros_def filter_id_conv)

lemma sint_negative:
  assumes "sint (n :: u32) < 0"
  shows "int (unat (- n)) = - sint n"
proof -
  have "uint (- n) = (- sint n) mod 2 ^ 32"
  proof -
    have "uint (- n) = (- uint n) mod 2 ^ 32" by (simp add: uint_word_ariths)
    moreover have "uint n = sint n mod 2 ^ 32" by (simp add: uint_sint take_bit_eq_mod)
    ultimately show ?thesis by (simp add: mod_minus_eq)
  qed
  moreover have "- (2 ^ 31) \<le> sint n" using sint_ge [of n] by simp
  ultimately show ?thesis using assms by (simp add: uint_nat [symmetric])
qed

lemma read_int_digits:
  assumes "t \<noteq> []" "set t \<inter> {0x20, 0x2B, 0x2D} = {}"
  shows "read_int base t = int (read_number base t)"
  using assms by (cases t) auto

lemma number_text_reads_back:
  assumes base: "base = 10 \<or> base = 16" and p: "precision \<noteq> 0"
  shows "read_int base (no_blanks (number_text n base width precision type))
    = (if has_flag type SIGN then sint n else uint n)"
proof -
  obtain sign m where sm: "number_sign type n = (sign, m)" by fastforce
  define ds where "ds = rev (number_tmp type base m)"
  have ds: "read_number base ds = unat m" "set ds \<inter> {0x20, 0x2B, 0x2D} = {}" "ds \<noteq> []"
    using number_tmp_read [OF base] by (simp_all add: ds_def)
  define sg where "sg = (if sign \<noteq> 0 then [sign] else [])"
  define b where "b = precision - int (length (number_tmp type base m))"
  define pad where "pad = width - max precision (int (length (number_tmp type base m))) - int (length sg)"
  define k where "k = (if \<not> has_flag type LEFT \<and> has_flag type ZEROPAD then max 0 pad + max 0 b else b)"
  have zz: "zeros (max 0 pad + max 0 b) = zeros pad @ zeros b"
    by (cases "0 \<le> pad"; cases "0 \<le> b") (simp_all add: zeros_def nat_add_distrib replicate_add max_def)
  have "number_text n base width precision type =
      (if has_flag type LEFT then sg @ (zeros b @ ds) @ blanks pad
       else if has_flag type ZEROPAD then sg @ zeros pad @ zeros b @ ds else blanks pad @ sg @ zeros b @ ds)"
    using p by (simp add: number_text_def sm Let_def sg_def b_def pad_def ds_def)
  then have k: "no_blanks (number_text n base width precision type) = no_blanks sg @ zeros k @ ds"
    using ds(2) zz by (simp add: no_blanks_text k_def)
  have zs: "zeros k @ ds \<noteq> []" "set (zeros k @ ds) \<inter> {0x20, 0x2B, 0x2D} = {}"
    using ds(2,3) by (auto simp: zeros_def)
  have plain: "read_int base (zeros k @ ds) = int (unat m)"
    using read_int_digits [OF zs] ds(1) by (simp add: read_number_zeros)
  have num: "read_number base (zeros k @ ds) = unat m" using ds(1) by (simp add: read_number_zeros)
  consider "has_flag type SIGN" "sint n < 0" "sign = byte CHR ''-''" "m = - n"
    | "\<not> (has_flag type SIGN \<and> sint n < 0)" "sign \<in> {0, byte CHR ''+'', byte CHR '' ''}" "m = n"
    using sm by (auto simp: number_sign_def split: if_splits)
  then show ?thesis
  proof cases
    case 1
    then show ?thesis using k num sint_negative [of n] by (simp add: sg_def no_blanks_def)
  next
    case 2
    then have "read_int base (no_blanks (number_text n base width precision type)) = int (unat n)"
      using k num plain by (auto simp: sg_def no_blanks_def)
    moreover have "uint n = sint n" if "has_flag type SIGN" using 2(1) that by (simp add: uint_nonneg)
    ultimately show ?thesis by (simp add: uint_nat [symmetric])
  qed
qed

text \<open>
  C38. A number that is printed in decimal or hexadecimal reads back as the number, whatever the width,
  the precision (but 0) and the flags: as the signed number of \<^verbatim>\<open>%d\<close>, also the smallest, and as the
  unsigned one of \<^verbatim>\<open>%u\<close> and \<^verbatim>\<open>%x\<close>.
\<close>

theorem printed_numbers_read_back:
  assumes "base = 10 \<or> base = 16" and "precision \<noteq> 0"
  shows "\<exists>t. print_number lim n base width precision type o1 = put_text lim t o1
    \<and> read_int base (no_blanks t) = (if has_flag type SIGN then sint n else uint n)"
  using number_text_reads_back [OF assms] print_number by blast


subsection \<open>Where the printer differs from the C library\<close>

lemma octal_digits: "number_digits digits 8 num = number_digits digits 16 num"
proof (induction digits "16 :: nat" num rule: number_digits.induct)
  case (1 digits num)
  have "divide num 8 = divide num 16" by (simp add: divide_def)
  then show ?case using 1 by (subst (1 2) number_digits.simps) simp
qed

lemma s_len: "0 \<notin> set s \<Longrightarrow> s_len w len s = (if len \<le> w then min (len + int (length s)) w else len + int (length s))"
  by (induction w len s rule: s_len.induct) (auto simp: min_def)

lemma plain_conversions:
  "format_text [CHR ''%'', CHR ''d''] [Int_arg n] = Some (number_text n 10 (- 1) (- 1) SIGN)"
  "format_text [CHR ''%'', CHR ''o''] [Int_arg n] = Some (number_text n 8 (- 1) (- 1) 0)"
  "format_text [CHR ''%'', CHR ''x''] [Int_arg n] = Some (number_text n 16 (- 1) (- 1) 0)"
  "format_text [CHR ''%'', CHR ''s''] [Str_arg p] = Some (string_text 0 (- 1) (- 1) p)"
  "format_text [CHR ''%'', CHR ''2'', CHR ''s''] [Str_arg p] = Some (string_text 0 2 (- 1) p)"
  "format_text [CHR ''%'', CHR ''.'', CHR ''0'', CHR ''s''] [Str_arg p] = Some (string_text 0 (- 1) 0 p)"
  "format_text [CHR ''%'', CHR ''.'', CHR ''0'', CHR ''u''] [Int_arg n] = Some (number_text n 10 (- 1) 0 0)"
  by (simp_all add: conversion_text_def parse_width_def at_digit_def is_digit_def parse_precision_def
      parse_qualifier_def convert_text_def integer_conv_def integer_value_def)

text \<open>
  Four conversions that do not mean what they mean in C, on every argument: \<^verbatim>\<open>%o\<close> prints
  hexadecimal digits, the precision 0 suppresses any number and is ignored for strings, and a field
  width cuts a longer string off. (The plain \<^verbatim>\<open>%s\<close> prints the string.)
\<close>

theorem format_departures:
  assumes s: "0 \<notin> set s"
  shows "format_text ''%o'' [Int_arg n] = format_text ''%x'' [Int_arg n]
    \<and> format_text ''%.0u'' [Int_arg n] = Some []
    \<and> format_text ''%.0s'' [Str_arg (Some s)] = Some s
    \<and> format_text ''%2s'' [Str_arg (Some s)] = Some (if length s < 2 then blanks (2 - int (length s)) @ s else take 2 s)
    \<and> format_text ''%s'' [Str_arg (Some s)] = Some s"
proof (intro conjI)
  have "number_tmp t 8 n = number_tmp t 16 n" for t by (simp add: number_tmp_def octal_digits)
  then show "format_text ''%o'' [Int_arg n] = format_text ''%x'' [Int_arg n]"
    unfolding plain_conversions by (simp add: number_text_def number_sign_def has_flag_def)
  have "number_tmp 0 10 n \<noteq> []" by (rule number_tmp_read) simp
  then show "format_text ''%.0u'' [Int_arg n] = Some []"
    unfolding plain_conversions by (simp add: number_text_def number_sign_def has_flag_def)
  show "format_text ''%.0s'' [Str_arg (Some s)] = Some s" "format_text ''%s'' [Str_arg (Some s)] = Some s"
    using s unfolding plain_conversions by (simp_all add: string_text_def s_len has_flag_def)
  show "format_text ''%2s'' [Str_arg (Some s)] = Some (if length s < 2 then blanks (2 - int (length s)) @ s else take 2 s)"
    using s unfolding plain_conversions by (auto simp: string_text_def s_len has_flag_def min_def)
qed

theorem format_departures_witness:
  "format_text ''%o'' [Int_arg 64] = Some (map of_char ''40'')
   \<and> format_text ''%2s'' [Str_arg (Some (map of_char ''abc''))] = Some (map of_char ''ab'')"
proof -
  have "format_text ''%x'' [Int_arg 64] = Some (map of_char ''40'')" by code_simp
  then show ?thesis using format_departures [of "map of_char ''abc''" 64] by simp
qed

theorem printed_numbers_read_back_witness:
  "\<exists>t. print_number 0x200 0x80000000 10 15 (- 1) (SIGN OR PLUS) \<lparr>fo_mem = \<lambda>_. 0, fo_str = 0x100\<rparr> = put_text 0x200 t \<lparr>fo_mem = \<lambda>_. 0, fo_str = 0x100\<rparr>
    \<and> read_int 10 (no_blanks t) = - 2147483648"
proof -
  have "has_flag (SIGN OR PLUS) SIGN" "sint (0x80000000 :: u32) = - 2147483648" by (simp_all add: has_flag_def)
  then show ?thesis using printed_numbers_read_back [of 10 "- 1" "0x200" "0x80000000" 15 "SIGN OR PLUS"] by simp
qed

theorem vsnprintf_writes_the_text_witness:
  "\<exists>mem'. rt_vsnprintf 0x100 6 ''t=%d C'' [Int_arg (- 12)] (\<lambda>_. 0xFF) = Some (7, mem')
     \<and> map (\<lambda>i. mem' (0x100 + of_nat i)) [0..<6] = map of_char ''t=-12'' @ [0] \<and> mem' 0x106 = 0xFF"
proof -
  let ?t = "map of_char ''t=-12 C'' :: u8 list"
  have t: "format_text ''t=%d C'' [Int_arg (- 12)] = Some ?t" by code_simp
  obtain mem' where m: "rt_vsnprintf 0x100 6 ''t=%d C'' [Int_arg (- 12)] (\<lambda>_. 0xFF) = Some (int (length ?t), mem')"
    "\<forall>a. unat a < unat (0x100 :: u32) \<or> unat (0x100 :: u32) + unat (6 :: u32) \<le> unat a \<longrightarrow> mem' a = 0xFF"
    "map (\<lambda>i. mem' (0x100 + of_nat i)) [0..<min (length ?t) (unat (6 :: u32) - 1) + 1]
       = take (min (length ?t) (unat (6 :: u32) - 1)) ?t @ [0]"
    using vsnprintf_writes_the_text [OF t, of "0x100" 6 "\<lambda>_. 0xFF"] by auto
  have n: "min (length ?t) (unat (6 :: u32) - 1) = 5" by simp
  have "map (\<lambda>i. mem' (0x100 + of_nat i)) [0..<6] = map of_char ''t=-12'' @ [0]"
    using m(3) unfolding n by simp
  moreover have "mem' 0x106 = 0xFF" using m(2) by simp
  ultimately show ?thesis using m(1) by simp
qed

end
