(* ===== verification/Kernel_Print.thy ===== *)
theory Kernel_Print
  imports Console Text_Format
begin

section \<open>Printing on the console (\<open>rt_kprintf\<close> of \<open>rt-thread/src/kservice.c\<close>)\<close>

text \<open>
  The kernel's print function: the text of the format goes through a static buffer of 128 bytes to the
  console's device. Without a console there is no output: the board keeps the empty
  \<^verbatim>\<open>rt_hw_console_output\<close>.
\<close>

abbreviation (input) RT_CONSOLEBUF_SIZE :: u32 where "RT_CONSOLEBUF_SIZE \<equiv> 128"

definition mem_bytes :: "(u32 \<Rightarrow> u8) \<Rightarrow> u32 \<Rightarrow> nat \<Rightarrow> u8 list" where
  "mem_bytes mem a n = map (\<lambda>i. mem (a + of_nat i)) [0..<n]"

definition rt_kprintf ::
  "int_tx \<Rightarrow> u32 \<Rightarrow> string \<Rightarrow> varg list \<Rightarrow> (u32 \<Rightarrow> u8) \<Rightarrow> console \<Rightarrow> ((u32 \<Rightarrow> u8) \<times> console) option" where
  "rt_kprintf tx rt_log_buf fmt args mem c =
    (case rt_vsnprintf rt_log_buf (RT_CONSOLEBUF_SIZE - 1) fmt args mem of
       None \<Rightarrow> None
     | Some (n, mem) \<Rightarrow>
        let len = (word_of_int n :: u32);
            len = (if len > RT_CONSOLEBUF_SIZE - 1 then RT_CONSOLEBUF_SIZE - 1 else len)
        in Some (mem,
             case console_device c of
               None \<Rightarrow> c
             | Some d \<Rightarrow>
                on_device d (\<lambda>dev. snd (snd (rt_device_write (serial_ops tx) 0 (mem_bytes mem rt_log_buf (unat len)) dev))) c))"

definition rt_show_version ::
  "int_tx \<Rightarrow> u32 \<Rightarrow> u8 list \<Rightarrow> (u32 \<Rightarrow> u8) \<Rightarrow> console \<Rightarrow> ((u32 \<Rightarrow> u8) \<times> console) option" where
  "rt_show_version tx rt_log_buf build_date mem c =
    (let nl = [CHR 0x0A]
     in Option.bind (rt_kprintf tx rt_log_buf (nl @ [CHR 0x20, CHR 0x5C] @ '' | /'' @ nl) [] mem c) (\<lambda>(mem, c).
        Option.bind (rt_kprintf tx rt_log_buf (''- RT -     Thread Operating System'' @ nl) [] mem c) (\<lambda>(mem, c).
        Option.bind (rt_kprintf tx rt_log_buf ('' / | '' @ [CHR 0x5C] @ ''     %d.%d.%d build %s'' @ nl)
            [Int_arg 4, Int_arg 0, Int_arg 4, Str_arg (Some build_date)] mem c) (\<lambda>(mem, c).
        rt_kprintf tx rt_log_buf ('' 2006 - 2021 Copyright by rt-thread team'' @ nl) [] mem c))))"










subsection \<open>The error number\<close>

text \<open>One error number per thread, and one for the interrupts and the time before the first thread.\<close>

type_synonym errno_state = "rt_err_t \<times> kernel"

definition rt_set_errno :: "rt_err_t \<Rightarrow> errno_state \<Rightarrow> errno_state" where
  "rt_set_errno err s =
    (case s of (global, k) \<Rightarrow>
       if rt_interrupt_get_nest k \<noteq> 0 then (err, k)
       else (case rt_thread_self k of
               None \<Rightarrow> (err, k)
             | Some tid \<Rightarrow> (global, set_thread tid (th_error_update (\<lambda>_. err)) k)))"

definition rt_errno :: "errno_state \<Rightarrow> rt_err_t" where
  "rt_errno s =
    (case s of (global, k) \<Rightarrow>
       if rt_interrupt_get_nest k \<noteq> 0 then global
       else (case rt_thread_self k of Some tid \<Rightarrow> th_error (threads k tid) | None \<Rightarrow> global))"

text \<open>What is set is read back, and an interrupt does not disturb the number of the thread it interrupts.\<close>

theorem errno_of_its_own:
  "rt_errno (rt_set_errno err s) = err"
  "rt_interrupt_nest k = 0 \<Longrightarrow> rt_thread_self k = Some t
    \<Longrightarrow> rt_errno (map_prod id rt_interrupt_leave (rt_set_errno err (map_prod id rt_interrupt_enter (global, k)))) = rt_errno (global, k)"
  by (cases s; auto simp: rt_errno_def rt_set_errno_def rt_interrupt_get_nest_def rt_thread_self_def set_thread_def split: option.splits)
    (simp add: rt_errno_def rt_set_errno_def rt_interrupt_get_nest_def rt_thread_self_def rt_interrupt_enter_def rt_interrupt_leave_def)

end
