(* ===== verification/Memory_Services.thy ===== *)
theory Memory_Services
  imports Prelude
begin

section \<open>Memory and strings (\<open>rt-thread/src/kservice.c\<close>)\<close>

text \<open>
  The kernel's own \<^verbatim>\<open>memset\<close>, \<^verbatim>\<open>memcpy\<close> and \<^verbatim>\<open>memmove\<close>, which work by words where they can, and
  its string functions. Memory is a function from addresses to bytes, little-endian; addresses wrap. A
  loop that looks for the zero of a string may not end: no result.
\<close>

unbundle bit_operations_syntax

type_synonym mem = "u32 \<Rightarrow> u8"

subsection \<open>Filling\<close>

definition write_word :: "u32 \<Rightarrow> u32 \<Rightarrow> mem \<Rightarrow> mem" where
  "write_word a w mem =
    mem(a := ucast w, a + 1 := ucast (drop_bit 8 w), a + 2 := ucast (drop_bit 16 w), a + 3 := ucast (drop_bit 24 w))"

fun memset_bytes :: "nat \<Rightarrow> u32 \<Rightarrow> u8 \<Rightarrow> mem \<Rightarrow> mem" where
  "memset_bytes 0 m d mem = mem"
| "memset_bytes (Suc count) m d mem = memset_bytes count (m + 1) d (mem(m := d))"

function memset_words :: "nat \<Rightarrow> u32 \<Rightarrow> u32 \<Rightarrow> mem \<Rightarrow> nat \<times> u32 \<times> mem" where
  "memset_words count a buffer mem =
    (if count \<ge> 4 then memset_words (count - 4) (a + 4) buffer (write_word a buffer mem) else (count, a, mem))"
  by pat_completeness auto
termination by (relation "measure (\<lambda>(count, a, buffer, mem). count)") auto

function memset_blocks :: "nat \<Rightarrow> u32 \<Rightarrow> u32 \<Rightarrow> mem \<Rightarrow> nat \<times> u32 \<times> mem" where
  "memset_blocks count a buffer mem =
    (if count \<ge> 16 then
       memset_blocks (count - 16) (a + 16) buffer
         (write_word (a + 12) buffer (write_word (a + 8) buffer (write_word (a + 4) buffer (write_word a buffer mem))))
     else (count, a, mem))"
  by pat_completeness auto
termination by (relation "measure (\<lambda>(count, a, buffer, mem). count)") auto

definition memset_buffer :: "u32 \<Rightarrow> u32" where
  "memset_buffer c =
    (let d = c AND 0xff; buffer = push_bit 8 d OR d in buffer OR push_bit 16 buffer)"

definition rt_memset :: "u32 \<Rightarrow> u32 \<Rightarrow> u32 \<Rightarrow> mem \<Rightarrow> mem" where
  "rt_memset s c count mem =
    (let d = ucast (c AND 0xff)
     in if \<not> count < 4 \<and> s AND 3 = 0 then
          (case memset_blocks (unat count) s (memset_buffer c) mem of (n, a, mem) \<Rightarrow>
             (case memset_words n a (memset_buffer c) mem of (n, m, mem) \<Rightarrow> memset_bytes n m d mem))
        else memset_bytes (unat count) s d mem)"

subsection \<open>Copying\<close>

definition read_word :: "u32 \<Rightarrow> mem \<Rightarrow> u32" where
  "read_word a mem =
    ucast (mem a) OR push_bit 8 (ucast (mem (a + 1))) OR push_bit 16 (ucast (mem (a + 2))) OR push_bit 24 (ucast (mem (a + 3)))"

definition copy_word :: "u32 \<Rightarrow> u32 \<Rightarrow> mem \<Rightarrow> mem" where
  "copy_word d s mem = write_word d (read_word s mem) mem"

fun memcpy_bytes :: "nat \<Rightarrow> u32 \<Rightarrow> u32 \<Rightarrow> mem \<Rightarrow> mem" where
  "memcpy_bytes 0 d s mem = mem"
| "memcpy_bytes (Suc len) d s mem = memcpy_bytes len (d + 1) (s + 1) (mem(d := mem s))"

function memcpy_words :: "nat \<Rightarrow> u32 \<Rightarrow> u32 \<Rightarrow> mem \<Rightarrow> nat \<times> u32 \<times> u32 \<times> mem" where
  "memcpy_words len d s mem =
    (if len \<ge> 4 then memcpy_words (len - 4) (d + 4) (s + 4) (copy_word d s mem) else (len, d, s, mem))"
  by pat_completeness auto
termination by (relation "measure (\<lambda>(len, d, s, mem). len)") auto

function memcpy_blocks :: "nat \<Rightarrow> u32 \<Rightarrow> u32 \<Rightarrow> mem \<Rightarrow> nat \<times> u32 \<times> u32 \<times> mem" where
  "memcpy_blocks len d s mem =
    (if len \<ge> 16 then
       memcpy_blocks (len - 16) (d + 16) (s + 16)
         (copy_word (d + 12) (s + 12) (copy_word (d + 8) (s + 8) (copy_word (d + 4) (s + 4) (copy_word d s mem))))
     else (len, d, s, mem))"
  by pat_completeness auto
termination by (relation "measure (\<lambda>(len, d, s, mem). len)") auto

declare memset_words.simps [simp del] memset_blocks.simps [simp del]
  memcpy_words.simps [simp del] memcpy_blocks.simps [simp del]

definition rt_memcpy :: "u32 \<Rightarrow> u32 \<Rightarrow> u32 \<Rightarrow> mem \<Rightarrow> mem" where
  "rt_memcpy dst src count mem =
    (if \<not> count < 16 \<and> (src AND 3) OR (dst AND 3) = 0 then
       (case memcpy_blocks (unat count) dst src mem of (n, d, s, mem) \<Rightarrow>
          (case memcpy_words n d s mem of (n, d, s, mem) \<Rightarrow> memcpy_bytes n d s mem))
     else memcpy_bytes (unat count) dst src mem)"

fun memmove_down :: "nat \<Rightarrow> u32 \<Rightarrow> u32 \<Rightarrow> mem \<Rightarrow> mem" where
  "memmove_down 0 tmp s mem = mem"
| "memmove_down (Suc n) tmp s mem = memmove_down n (tmp - 1) (s - 1) (mem(tmp - 1 := mem (s - 1)))"

definition rt_memmove :: "u32 \<Rightarrow> u32 \<Rightarrow> u32 \<Rightarrow> mem \<Rightarrow> mem" where
  "rt_memmove dest src n mem =
    (if src < dest \<and> dest < src + n then memmove_down (unat n) (dest + n) (src + n) mem
     else memcpy_bytes (unat n) dest src mem)"

fun memcmp_loop :: "nat \<Rightarrow> u32 \<Rightarrow> u32 \<Rightarrow> mem \<Rightarrow> int" where
  "memcmp_loop 0 cs ct mem = 0"
| "memcmp_loop (Suc count) cs ct mem =
    (let res = uint (mem cs) - uint (mem ct) in if res \<noteq> 0 then res else memcmp_loop count (cs + 1) (ct + 1) mem)"

definition rt_memcmp :: "u32 \<Rightarrow> u32 \<Rightarrow> u32 \<Rightarrow> mem \<Rightarrow> int" where
  "rt_memcmp cs ct count mem = memcmp_loop (unat count) cs ct mem"

subsection \<open>Strings\<close>

partial_function (option) find_zero :: "u32 \<Rightarrow> mem \<Rightarrow> u32 option" where
  "find_zero sc mem = (if mem sc \<noteq> 0 then find_zero (sc + 1) mem else Some sc)"

definition rt_strlen :: "u32 \<Rightarrow> mem \<Rightarrow> u32 option" where
  "rt_strlen s mem = map_option (\<lambda>sc. sc - s) (find_zero s mem)"

function strnlen_loop :: "u32 \<Rightarrow> u32 \<Rightarrow> u32 \<Rightarrow> mem \<Rightarrow> u32" where
  "strnlen_loop sc s maxlen mem =
    (if mem sc \<noteq> 0 \<and> sc - s < maxlen then strnlen_loop (sc + 1) s maxlen mem else sc - s)"
  by pat_completeness auto
termination
proof (relation "measure (\<lambda>(sc, s, maxlen, mem). unat maxlen - unat (sc - s))", goal_cases)
  case (2 sc s maxlen mem)
  then have lt: "unat (sc - s) < unat maxlen" by (simp add: word_less_nat_alt)
  then have "unat (sc - s + 1) = unat (sc - s) + 1"
    using unsigned_less [of maxlen, where 'a = nat] by (simp add: unat_word_ariths)
  then show ?case using lt by (simp add: algebra_simps)
qed simp

definition rt_strnlen :: "u32 \<Rightarrow> u32 \<Rightarrow> mem \<Rightarrow> u32" where
  "rt_strnlen s maxlen mem = strnlen_loop s s maxlen mem"

partial_function (option) rt_strcmp :: "u32 \<Rightarrow> u32 \<Rightarrow> mem \<Rightarrow> int option" where
  "rt_strcmp cs ct mem =
    (if mem cs \<noteq> 0 \<and> mem cs = mem ct then rt_strcmp (cs + 1) (ct + 1) mem
     else Some (uint (mem cs) - uint (mem ct)))"

text \<open>The result of \<open>rt_strncmp\<close> is kept in a \<^verbatim>\<open>signed char\<close>.\<close>

fun strncmp_loop :: "nat \<Rightarrow> u32 \<Rightarrow> u32 \<Rightarrow> 8 word \<Rightarrow> mem \<Rightarrow> 8 word" where
  "strncmp_loop 0 cs ct res mem = res"
| "strncmp_loop (Suc count) cs ct res mem =
    (let res = mem cs - mem ct
     in if res \<noteq> 0 \<or> mem cs = 0 then res else strncmp_loop count (cs + 1) (ct + 1) res mem)"

definition rt_strncmp :: "u32 \<Rightarrow> u32 \<Rightarrow> u32 \<Rightarrow> mem \<Rightarrow> int" where
  "rt_strncmp cs ct count mem = sint (strncmp_loop (unat count) cs ct 0 mem)"

definition lower :: "u8 \<Rightarrow> int" where
  "lower c = (if 0x41 \<le> c \<and> c \<le> 0x5A then uint c + 32 else uint c)"

partial_function (option) rt_strcasecmp :: "u32 \<Rightarrow> u32 \<Rightarrow> mem \<Rightarrow> int option" where
  "rt_strcasecmp a b mem =
    (let ca = lower (mem a); cb = lower (mem b)
     in if ca = cb \<and> ca \<noteq> 0 then rt_strcasecmp (a + 1) (b + 1) mem else Some (ca - cb))"

fun strncpy_zeros :: "nat \<Rightarrow> u32 \<Rightarrow> mem \<Rightarrow> mem" where
  "strncpy_zeros 0 d mem = mem"
| "strncpy_zeros (Suc n) d mem = strncpy_zeros n (d + 1) (mem(d := 0))"

fun strncpy_loop :: "nat \<Rightarrow> u32 \<Rightarrow> u32 \<Rightarrow> mem \<Rightarrow> mem" where
  "strncpy_loop 0 d s mem = mem"
| "strncpy_loop (Suc n) d s mem =
    (let c = mem s; mem = mem(d := c)
     in if c = 0 then strncpy_zeros n (d + 1) mem else strncpy_loop n (d + 1) (s + 1) mem)"

definition rt_strncpy :: "u32 \<Rightarrow> u32 \<Rightarrow> u32 \<Rightarrow> mem \<Rightarrow> mem" where
  "rt_strncpy dst src n mem = (if n \<noteq> 0 then strncpy_loop (unat n) dst src mem else mem)"

fun strstr_loop :: "nat \<Rightarrow> u32 \<Rightarrow> u32 \<Rightarrow> u32 \<Rightarrow> mem \<Rightarrow> u32 option" where
  "strstr_loop 0 s1 s2 l2 mem = None"
| "strstr_loop (Suc l1) s1 s2 l2 mem =
    (if Suc l1 \<ge> unat l2 then
       if rt_memcmp s1 s2 l2 mem = 0 then Some s1 else strstr_loop l1 (s1 + 1) s2 l2 mem
     else None)"

definition rt_strstr :: "u32 \<Rightarrow> u32 \<Rightarrow> mem \<Rightarrow> u32 option option" where
  "rt_strstr s1 s2 mem =
    (case rt_strlen s2 mem of
       None \<Rightarrow> None
     | Some l2 \<Rightarrow>
        if l2 = 0 then Some (Some s1)
        else (case rt_strlen s1 mem of None \<Rightarrow> None | Some l1 \<Rightarrow> Some (strstr_loop (unat l1) s1 s2 l2 mem)))"

text \<open>The memory of \<open>rt_strdup\<close> is an argument.\<close>

definition rt_strdup :: "u32 option \<Rightarrow> u32 \<Rightarrow> mem \<Rightarrow> (u32 option \<times> mem) option" where
  "rt_strdup tmp s mem =
    (case rt_strlen s mem of
       None \<Rightarrow> None
     | Some l \<Rightarrow>
        (case tmp of None \<Rightarrow> Some (None, mem) | Some t \<Rightarrow> Some (Some t, rt_memcpy t s (l + 1) mem)))"


subsection \<open>What filling and copying should do\<close>

definition filled :: "u32 \<Rightarrow> nat \<Rightarrow> u8 \<Rightarrow> mem \<Rightarrow> mem" where
  "filled s n c mem = (\<lambda>a. if unat (a - s) < n then c else mem a)"

definition copied :: "u32 \<Rightarrow> u32 \<Rightarrow> nat \<Rightarrow> mem \<Rightarrow> mem" where
  "copied d s n mem = (\<lambda>a. if unat (a - d) < n then mem (s + (a - d)) else mem a)"

text \<open>Offsets from an address, around the end of the memory.\<close>

lemma offset_less: "unat (a - d :: u32) < 2 ^ 32"
  using unsigned_less [of "a - d", where 'a = nat] by simp

lemma offset_split:
  fixes a d :: u32
  assumes "n + m \<le> 2 ^ 32"
  shows "unat (a - d) < n + m \<longleftrightarrow> unat (a - d) < n \<or> unat (a - (d + of_nat n)) < m"
    and "\<not> unat (a - d) < n \<Longrightarrow> unat (a - (d + of_nat n)) = unat (a - d) - n"
proof -
  have "unat (a - d - of_nat n) = unat (a - d) - n" if "n \<le> unat (a - d)"
    using that offset_less [of a d] by (subst unat_sub) (simp_all add: word_le_nat_alt unat_of_nat)
  then have ge: "unat (a - (d + of_nat n)) = unat (a - d) - n" if "n \<le> unat (a - d)"
    using that by (simp add: diff_diff_eq)
  then show "\<not> unat (a - d) < n \<Longrightarrow> unat (a - (d + of_nat n)) = unat (a - d) - n" by simp
  show "unat (a - d) < n + m \<longleftrightarrow> unat (a - d) < n \<or> unat (a - (d + of_nat n)) < m"
  proof (cases "unat (a - d) < n")
    case False
    then show ?thesis using ge by auto
  qed simp
qed

lemma offset_below:
  fixes a d :: u32
  assumes "n + m \<le> 2 ^ 32" "unat (a - d) < n"
  shows "m \<le> unat (a - (d + of_nat n))"
proof (rule ccontr)
  define b where "b = a - (d + of_nat n)"
  have ad: "a - d = b + of_nat n" by (simp add: b_def)
  assume "\<not> m \<le> unat (a - (d + of_nat n))"
  then have "unat b + n < 2 ^ 32" using assms(1) by (simp add: b_def)
  then have "unat (b + of_nat n) = unat b + n" by (simp add: unat_word_ariths unat_of_nat)
  then show False using assms(2) by (simp add: ad)
qed

lemma offset_0 [simp]: "unat (a - d) = 0 \<longleftrightarrow> a = (d :: u32)"
  by (metis unat_eq_0 right_minus_eq)

lemma filled_filled: "n + m \<le> 2 ^ 32 \<Longrightarrow> filled (s + of_nat n) m c (filled s n c mem) = filled s (n + m) c mem"
  by (auto simp: filled_def fun_eq_iff offset_split(1))

lemma filled_byte: "mem(m := d) = filled m 1 d mem"
  by (auto simp: filled_def fun_eq_iff)

lemma memset_bytes: "n \<le> 2 ^ 32 \<Longrightarrow> memset_bytes n m d mem = filled m n d mem"
proof (induction n m d mem rule: memset_bytes.induct)
  case (2 n m d mem)
  then show ?case using filled_filled [of 1 n m d mem] by (simp add: filled_byte)
qed (simp add: filled_def)

lemma memset_buffer_bytes:
  "ucast (memset_buffer c) = (ucast (c AND 0xff) :: u8)" "ucast (drop_bit 8 (memset_buffer c)) = (ucast (c AND 0xff) :: u8)"
  "ucast (drop_bit 16 (memset_buffer c)) = (ucast (c AND 0xff) :: u8)" "ucast (drop_bit 24 (memset_buffer c)) = (ucast (c AND 0xff) :: u8)"
  unfolding memset_buffer_def Let_def
  by (rule bit_word_eqI; auto simp: bit_simps)+


definition all_bytes :: "u8 \<Rightarrow> u32 \<Rightarrow> bool" where
  "all_bytes c w \<longleftrightarrow> ucast w = c \<and> ucast (drop_bit 8 w) = c \<and> ucast (drop_bit 16 w) = c \<and> ucast (drop_bit 24 w) = c"

lemma write_word_filled:
  assumes "all_bytes c w"
  shows "write_word a w mem = filled a 4 c mem"
proof -
  have "write_word a w mem = filled (a + 3) 1 c (filled (a + 2) 1 c (filled (a + 1) 1 c (filled a 1 c mem)))"
    using assms by (simp add: write_word_def all_bytes_def filled_byte del: One_nat_def)
  also have "filled (a + 1) 1 c (filled a 1 c mem) = filled a 2 c mem"
    using filled_filled [of 1 1 a c mem] by (simp only: one_add_one of_nat_1) simp
  also have "filled (a + 2) 1 c (filled a 2 c mem) = filled a 3 c mem"
    using filled_filled [of 2 1 a c mem] by simp
  also have "filled (a + 3) 1 c (filled a 3 c mem) = filled a 4 c mem"
    using filled_filled [of 3 1 a c mem] by simp
  finally show ?thesis .
qed

lemma memset_words:
  assumes "all_bytes c w" "n \<le> 2 ^ 32"
  shows "\<exists>n' \<le> n. memset_words n a w mem = (n', a + of_nat (n - n'), filled a (n - n') c mem)"
  using assms
proof (induction n a w mem rule: memset_words.induct)
  case (1 n a w mem)
  show ?case
  proof (cases "4 \<le> n")
    case True
    obtain n' where n': "n' \<le> n - 4"
      "memset_words (n - 4) (a + 4) w (filled a 4 c mem) = (n', a + 4 + of_nat (n - 4 - n'), filled (a + 4) (n - 4 - n') c (filled a 4 c mem))"
      using 1(1) [OF True 1(2)] 1(3) unfolding write_word_filled [OF 1(2)] by (meson diff_le_self le_trans)
    have "filled (a + 4) (n - 4 - n') c (filled a 4 c mem) = filled a (n - n') c mem"
      using filled_filled [of 4 "n - 4 - n'" a c mem] True n'(1) 1(3) by simp
    moreover have "a + 4 + of_nat (n - 4 - n') = a + of_nat (n - n')" using n'(1) True by (simp add: of_nat_diff)
    ultimately show ?thesis using True n' 1(2)
      by (intro exI [of _ n']) (simp add: memset_words.simps [of n] write_word_filled)
  qed (auto simp: memset_words.simps [of n] filled_def intro!: exI [of _ n])
qed

lemma memset_blocks:
  assumes "all_bytes c w" "n \<le> 2 ^ 32"
  shows "\<exists>n' \<le> n. memset_blocks n a w mem = (n', a + of_nat (n - n'), filled a (n - n') c mem)"
  using assms
proof (induction n a w mem rule: memset_blocks.induct)
  case (1 n a w mem)
  have step: "write_word (a + 12) w (write_word (a + 8) w (write_word (a + 4) w (write_word a w mem))) = filled a 16 c mem"
    using filled_filled [of 4 4 a c mem] filled_filled [of 8 4 a c mem] filled_filled [of 12 4 a c mem] 1(2)
    by (simp add: write_word_filled)
  show ?case
  proof (cases "16 \<le> n")
    case True
    obtain n' where n': "n' \<le> n - 16"
      "memset_blocks (n - 16) (a + 16) w (filled a 16 c mem) = (n', a + 16 + of_nat (n - 16 - n'), filled (a + 16) (n - 16 - n') c (filled a 16 c mem))"
      using 1(1) [OF True 1(2)] 1(3) unfolding step by (meson diff_le_self le_trans)
    have "filled (a + 16) (n - 16 - n') c (filled a 16 c mem) = filled a (n - n') c mem"
      using filled_filled [of 16 "n - 16 - n'" a c mem] True n'(1) 1(3) by simp
    moreover have "a + 16 + of_nat (n - 16 - n') = a + of_nat (n - n')" using n'(1) True by (simp add: of_nat_diff)
    ultimately show ?thesis using True n' by (intro exI [of _ n']) (simp add: memset_blocks.simps [of n] step)
  qed (auto simp: memset_blocks.simps [of n] filled_def intro!: exI [of _ n])
qed

lemma memset_filled: "rt_memset s c count mem = filled s (unat count) (ucast (c AND 0xff)) mem"
proof -
  define n where "n = unat count"
  define b where "b = (ucast (c AND 0xff) :: u8)"
  have n: "n \<le> 2 ^ 32" using unsigned_less [of count, where 'a = nat] by (simp add: n_def)
  have all: "all_bytes b (memset_buffer c)" by (simp add: all_bytes_def memset_buffer_bytes b_def)
  obtain n1 where n1: "n1 \<le> n" "memset_blocks n s (memset_buffer c) mem = (n1, s + of_nat (n - n1), filled s (n - n1) b mem)"
    using memset_blocks [OF all n] by blast
  have "n1 \<le> 2 ^ 32" using n1(1) n by simp
  then obtain n2 where n2: "n2 \<le> n1" "memset_words n1 (s + of_nat (n - n1)) (memset_buffer c) (filled s (n - n1) b mem)
      = (n2, s + of_nat (n - n1) + of_nat (n1 - n2), filled (s + of_nat (n - n1)) (n1 - n2) b (filled s (n - n1) b mem))"
    using memset_words [OF all] by blast
  have a2: "s + of_nat (n - n1) + of_nat (n1 - n2) = s + of_nat (n - n2)" using n1(1) n2(1) by (simp add: of_nat_diff)
  have f2: "filled (s + of_nat (n - n1)) (n1 - n2) b (filled s (n - n1) b mem) = filled s (n - n2) b mem"
    using filled_filled [of "n - n1" "n1 - n2" s b mem] n n1(1) n2(1) by simp
  have "memset_bytes n2 (s + of_nat (n - n2)) b (filled s (n - n2) b mem) = filled s n b mem"
    using memset_bytes [of n2] filled_filled [of "n - n2" n2 s b mem] n n1(1) n2(1) by simp
  then show ?thesis
    using n1(2) n2(2) a2 f2 memset_bytes [OF n] by (simp add: rt_memset_def Let_def n_def [symmetric] b_def [symmetric])
qed

subsection \<open>Copying, up and down\<close>

text \<open>No byte of the source is written before it is read when going up, or is not written at all.\<close>

definition up_safe :: "u32 \<Rightarrow> u32 \<Rightarrow> nat \<Rightarrow> bool" where
  "up_safe d s n \<longleftrightarrow> (\<forall>x. unat (x - s) < n \<longrightarrow> unat (x - s) \<le> unat (x - d))"

definition separate :: "u32 \<Rightarrow> u32 \<Rightarrow> nat \<Rightarrow> bool" where
  "separate d s n \<longleftrightarrow> (\<forall>x. unat (x - s) < n \<longrightarrow> n \<le> unat (x - d))"

lemma copied_copied:
  assumes "n + m \<le> 2 ^ 32" "\<And>x. n \<le> unat (x - s) \<Longrightarrow> unat (x - s) < n + m \<Longrightarrow> n \<le> unat (x - d)"
  shows "copied (d + of_nat n) (s + of_nat n) m (copied d s n mem) = copied d s (n + m) mem"
proof
  fix a
  show "copied (d + of_nat n) (s + of_nat n) m (copied d s n mem) a = copied d s (n + m) mem a"
  proof (cases "unat (a - d) < n")
    case True
    then show ?thesis using offset_below [OF assms(1), of a d] by (simp add: copied_def)
  next
    case False
    note o1 = offset_split [OF assms(1), of a d]
    have eq: "s + of_nat n + (a - (d + of_nat n)) = s + (a - d)" by simp
    show ?thesis
    proof (cases "unat (a - d) < n + m")
      case True
      have "n \<le> unat (s + (a - d) - d)" using assms(2) [of "s + (a - d)"] False True by simp
      then show ?thesis using True False o1 eq by (simp add: copied_def)
    next
      case F2: False
      then show ?thesis using False o1 by (simp add: copied_def)
    qed
  qed
qed


lemma separate_up: "separate d s n \<Longrightarrow> up_safe d s n"
  unfolding separate_def up_safe_def by (meson less_imp_le less_le_trans)

lemma offset_next:
  fixes x s :: u32
  assumes "k + n \<le> 2 ^ 32" "unat (x - (s + of_nat k)) < n"
  shows "unat (x - s) = unat (x - (s + of_nat k)) + k"
proof -
  have "\<not> unat (x - s) < k" using offset_below [of k n x s] assms by (metis linorder_not_less)
  then show ?thesis using offset_split(2) [OF assms(1), of x s] by simp
qed

lemma separate_next:
  assumes sep: "separate d s n" and k: "k \<le> n" "n \<le> 2 ^ 32"
  shows "separate (d + of_nat k) (s + of_nat k) (n - k)"
  unfolding separate_def
proof (intro allI impI)
  fix x assume x: "unat (x - (s + of_nat k)) < n - k"
  then have "unat (x - s) = unat (x - (s + of_nat k)) + k" using k by (intro offset_next [of k "n - k"]) simp_all
  then have "n \<le> unat (x - d)" using sep x by (simp add: separate_def)
  then show "n - k \<le> unat (x - (d + of_nat k))"
    using offset_split(2) [of k "n - k" x d] k by simp
qed

lemma up_safe_next:
  assumes up: "up_safe d s (Suc n)" and n: "Suc n \<le> 2 ^ 32"
  shows "up_safe (d + 1) (s + 1) n"
  unfolding up_safe_def
proof (intro allI impI)
  fix x assume x: "unat (x - (s + 1)) < n"
  then have e: "unat (x - s) = unat (x - (s + 1)) + 1" using offset_next [of 1 n x s] n by simp
  then have le: "unat (x - s) \<le> unat (x - d)" using up [unfolded up_safe_def, rule_format, of x] x by simp
  then have "\<not> unat (x - d) < 1" using e by linarith
  then have "unat (x - (d + of_nat 1)) = unat (x - d) - 1" using offset_split(2) [of 1 n x d] n by linarith
  then have "unat (x - (d + 1)) = unat (x - d) - 1" by simp
  then show "unat (x - (s + 1)) \<le> unat (x - (d + 1))" using le e by simp
qed

lemma copied_byte: "mem(d := mem s) = copied d s 1 mem"
  by (auto simp: copied_def fun_eq_iff)

lemma memcpy_bytes: "up_safe d s n \<Longrightarrow> n \<le> 2 ^ 32 \<Longrightarrow> memcpy_bytes n d s mem = copied d s n mem"
proof (induction n d s mem rule: memcpy_bytes.induct)
  case (2 n d s mem)
  have "copied (d + 1) (s + 1) n (copied d s 1 mem) = copied d s (1 + n) mem"
    using copied_copied [of 1 n s d mem] 2(2,3) by (force simp: up_safe_def)
  then show ?case using 2 up_safe_next [OF 2(2,3)] by (simp add: copied_byte)
qed (simp add: copied_def)

lemma read_word_bytes:
  "ucast (read_word a mem) = mem a" "ucast (drop_bit 8 (read_word a mem)) = mem (a + 1)"
  "ucast (drop_bit 16 (read_word a mem)) = mem (a + 2)" "ucast (drop_bit 24 (read_word a mem)) = mem (a + 3)"
  unfolding read_word_def by (rule bit_word_eqI, auto simp: bit_simps dest: bit_imp_le_length)+

lemma copy_word: "copy_word d s mem = copied d s 4 mem"
proof
  fix a
  have at: "a = d + of_nat k \<longleftrightarrow> unat (a - d) = k" if "k < 4" for k
  proof -
    have "unat (of_nat k :: u32) = k" using that by (simp add: unat_of_nat)
    then have "a - d = of_nat k \<longleftrightarrow> unat (a - d) = k" by (metis word_unat_eq_iff)
    then show ?thesis by (auto simp: algebra_simps)
  qed
  have w: "copy_word d s mem a = (if a = d + of_nat 3 then mem (s + 3) else if a = d + of_nat 2 then mem (s + 2)
      else if a = d + of_nat 1 then mem (s + 1) else if a = d + of_nat 0 then mem s else mem a)"
    by (simp add: copy_word_def write_word_def read_word_bytes)
  show "copy_word d s mem a = copied d s 4 mem a"
  proof (cases "unat (a - d) < 4")
    case True
    then consider "unat (a - d) = 0" | "unat (a - d) = 1" | "unat (a - d) = 2" | "unat (a - d) = 3" by linarith
    then show ?thesis
    proof cases
      case 1
      then have "a = d + of_nat 0" using at [of 0] by simp
      then show ?thesis unfolding w by (simp add: copied_def)
    next
      case 2
      then have "a = d + of_nat 1" using at [of 1] by simp
      then show ?thesis unfolding w by (simp add: copied_def)
    next
      case 3
      then have "a = d + of_nat 2" using at [of 2] by simp
      then show ?thesis unfolding w by (simp add: copied_def)
    next
      case 4
      then have "a = d + of_nat 3" using at [of 3] by simp
      then show ?thesis unfolding w by (simp add: copied_def)
    qed
  next
    case False
    then have "a \<noteq> d" by auto
    then show ?thesis using False unfolding w using at [of 1] at [of 2] at [of 3] by (simp add: copied_def)
  qed
qed


lemma copied_separate:
  assumes "separate d s N" "n + m \<le> N" "N \<le> 2 ^ 32"
  shows "copied (d + of_nat n) (s + of_nat n) m (copied d s n mem) = copied d s (n + m) mem"
proof (rule copied_copied)
  show "n + m \<le> 2 ^ 32" using assms(2,3) by simp
  show "n \<le> unat (x - d)" if "n \<le> unat (x - s)" "unat (x - s) < n + m" for x
    using assms(1) [unfolded separate_def, rule_format, of x] assms(2) that by simp
qed

lemma memcpy_words:
  assumes "separate d s n" "n \<le> 2 ^ 32"
  shows "\<exists>n' \<le> n. memcpy_words n d s mem = (n', d + of_nat (n - n'), s + of_nat (n - n'), copied d s (n - n') mem)"
  using assms
proof (induction n d s mem rule: memcpy_words.induct)
  case (1 n d s mem)
  show ?case
  proof (cases "4 \<le> n")
    case True
    have sep: "separate (d + 4) (s + 4) (n - 4)" using separate_next [OF 1(2) True 1(3)] by simp
    obtain n' where n': "n' \<le> n - 4" "memcpy_words (n - 4) (d + 4) (s + 4) (copied d s 4 mem)
        = (n', d + 4 + of_nat (n - 4 - n'), s + 4 + of_nat (n - 4 - n'), copied (d + 4) (s + 4) (n - 4 - n') (copied d s 4 mem))"
      using 1(1) [OF True sep] 1(3) unfolding copy_word by (meson diff_le_self le_trans)
    have "copied (d + 4) (s + 4) (n - 4 - n') (copied d s 4 mem) = copied d s (n - n') mem"
      using copied_separate [OF 1(2) _ 1(3), of 4 "n - 4 - n'" mem] True n'(1) by simp
    moreover have "x + 4 + of_nat (n - 4 - n') = x + of_nat (n - n')" for x :: u32 using n'(1) True by (simp add: of_nat_diff)
    ultimately show ?thesis using True n' by (intro exI [of _ n']) (simp add: memcpy_words.simps [of n] copy_word)
  qed (auto simp: memcpy_words.simps [of n] copied_def intro!: exI [of _ n])
qed

lemma memcpy_blocks:
  assumes "separate d s n" "n \<le> 2 ^ 32"
  shows "\<exists>n' \<le> n. memcpy_blocks n d s mem = (n', d + of_nat (n - n'), s + of_nat (n - n'), copied d s (n - n') mem)"
  using assms
proof (induction n d s mem rule: memcpy_blocks.induct)
  case (1 n d s mem)
  show ?case
  proof (cases "16 \<le> n")
    case True
    have step: "copy_word (d + 12) (s + 12) (copy_word (d + 8) (s + 8) (copy_word (d + 4) (s + 4) (copy_word d s mem))) = copied d s 16 mem"
      using copied_separate [OF 1(2) _ 1(3), of 4 4 mem] copied_separate [OF 1(2) _ 1(3), of 8 4 mem]
        copied_separate [OF 1(2) _ 1(3), of 12 4 mem] True by (simp add: copy_word)
    have sep: "separate (d + 16) (s + 16) (n - 16)" using separate_next [OF 1(2) True 1(3)] by simp
    obtain n' where n': "n' \<le> n - 16" "memcpy_blocks (n - 16) (d + 16) (s + 16) (copied d s 16 mem)
        = (n', d + 16 + of_nat (n - 16 - n'), s + 16 + of_nat (n - 16 - n'), copied (d + 16) (s + 16) (n - 16 - n') (copied d s 16 mem))"
      using 1(1) [OF True sep] 1(3) unfolding step by (meson diff_le_self le_trans)
    have "copied (d + 16) (s + 16) (n - 16 - n') (copied d s 16 mem) = copied d s (n - n') mem"
      using copied_separate [OF 1(2) _ 1(3), of 16 "n - 16 - n'" mem] True n'(1) by simp
    moreover have "x + 16 + of_nat (n - 16 - n') = x + of_nat (n - n')" for x :: u32 using n'(1) True by (simp add: of_nat_diff)
    ultimately show ?thesis using True n' by (intro exI [of _ n']) (simp add: memcpy_blocks.simps [of n] step)
  qed (auto simp: memcpy_blocks.simps [of n] copied_def intro!: exI [of _ n])
qed

lemma memcpy_copied:
  assumes sep: "separate d s (unat count)"
  shows "rt_memcpy d s count mem = copied d s (unat count) mem"
proof -
  define n where "n = unat count"
  have n: "n \<le> 2 ^ 32" using unsigned_less [of count, where 'a = nat] by (simp add: n_def)
  note sep = sep [folded n_def]
  obtain n1 where n1: "n1 \<le> n" "memcpy_blocks n d s mem = (n1, d + of_nat (n - n1), s + of_nat (n - n1), copied d s (n - n1) mem)"
    using memcpy_blocks [OF sep n] by blast
  have sep1: "separate (d + of_nat (n - n1)) (s + of_nat (n - n1)) n1"
    using separate_next [OF sep, of "n - n1"] n n1(1) by simp
  have "n1 \<le> 2 ^ 32" using n1(1) n by simp
  then obtain n2 where n2: "n2 \<le> n1" "memcpy_words n1 (d + of_nat (n - n1)) (s + of_nat (n - n1)) (copied d s (n - n1) mem)
      = (n2, d + of_nat (n - n1) + of_nat (n1 - n2), s + of_nat (n - n1) + of_nat (n1 - n2),
         copied (d + of_nat (n - n1)) (s + of_nat (n - n1)) (n1 - n2) (copied d s (n - n1) mem))"
    using memcpy_words [OF sep1] by blast
  have a2: "x + of_nat (n - n1) + of_nat (n1 - n2) = x + of_nat (n - n2)" for x :: u32
    using n1(1) n2(1) by (simp add: of_nat_diff)
  have f2: "copied (d + of_nat (n - n1)) (s + of_nat (n - n1)) (n1 - n2) (copied d s (n - n1) mem) = copied d s (n - n2) mem"
    using copied_separate [OF sep _ n, of "n - n1" "n1 - n2" mem] n1(1) n2(1) by simp
  have sep2: "separate (d + of_nat (n - n2)) (s + of_nat (n - n2)) n2"
    using separate_next [OF sep, of "n - n2"] n n1(1) n2(1) by simp
  have "memcpy_bytes n2 (d + of_nat (n - n2)) (s + of_nat (n - n2)) (copied d s (n - n2) mem) = copied d s n mem"
    using memcpy_bytes [OF separate_up [OF sep2]] copied_separate [OF sep _ n, of "n - n2" n2 mem] n n1(1) n2(1) by simp
  then show ?thesis
    using n1(2) n2(2) a2 f2 memcpy_bytes [OF separate_up [OF sep] n] by (simp add: rt_memcpy_def n_def [symmetric])
qed

text \<open>Going down from the end of both blocks.\<close>

lemma memmove_down:
  assumes "unat d + n < 2 ^ 32" "unat s + n < 2 ^ 32" "s < d"
  shows "memmove_down n (d + of_nat n) (s + of_nat n) mem = copied d s n mem"
  using assms
proof (induction n arbitrary: mem)
  case (Suc n)
  let ?m = "mem(d + of_nat n := mem (s + of_nat n))"
  have u: "unat (d + of_nat n) = unat d + n" using Suc.prems(1) by (simp add: unat_word_ariths unat_of_nat)
  have "memmove_down (Suc n) (d + of_nat (Suc n)) (s + of_nat (Suc n)) mem = memmove_down n (d + of_nat n) (s + of_nat n) ?m"
    by (simp add: add.commute add.left_commute)
  also have "\<dots> = copied d s n ?m" using Suc by simp
  also have "\<dots> = copied d s (Suc n) mem"
  proof
    fix a
    have k: "a = d + of_nat n \<longleftrightarrow> unat (a - d) = n"
    proof -
      have "unat (of_nat n :: u32) = n" using Suc.prems(1) by (simp add: unat_of_nat)
      then have "a - d = of_nat n \<longleftrightarrow> unat (a - d) = n" by (metis word_unat_eq_iff)
      then show ?thesis by (auto simp: algebra_simps)
    qed
    have src: "s + (a - d) \<noteq> d + of_nat n" if "unat (a - d) < n"
    proof
      assume e: "s + (a - d) = d + of_nat n"
      have "unat (s + (a - d)) = unat s + unat (a - d)" using that Suc.prems(2) by (simp add: unat_word_ariths)
      then have "unat s + unat (a - d) = unat d + n" using e u by simp
      then show False using that Suc.prems(3) by (simp add: word_less_nat_alt)
    qed
    show "copied d s n ?m a = copied d s (Suc n) mem a"
      using k src by (auto simp: copied_def less_Suc_eq)
  qed
  finally show ?case .
qed (simp add: copied_def)

lemma memmove_copied:
  assumes "unat d + unat n < 2 ^ 32" "unat s + unat n < 2 ^ 32"
  shows "rt_memmove d s n mem = copied d s (unat n) mem"
proof (cases "s < d \<and> d < s + n")
  case True
  then show ?thesis using memmove_down [OF assms] by (simp add: rt_memmove_def)
next
  case False
  have e: "unat (s + n) = unat s + unat n" using assms(2) by (simp add: unat_word_ariths)
  have "up_safe d s (unat n)"
    unfolding up_safe_def
  proof (intro allI impI)
    fix x assume x: "unat (x - s) < unat n"
    define k where "k = x - s"
    have "unat (s + k) = unat s + unat k" using x assms(2) by (simp add: k_def [symmetric] unat_word_ariths)
    then have xs: "unat x = unat s + unat (x - s)" by (simp add: k_def)
    show "unat (x - s) \<le> unat (x - d)"
    proof (cases "d \<le> x")
      case True
      then have m1: "unat (x - d) = unat x - unat d" "unat d \<le> unat x" by (simp_all add: unat_sub word_le_nat_alt)
      moreover have "unat d \<le> unat s \<or> unat s + unat n \<le> unat d" using False e by (auto simp: word_less_nat_alt)
      ultimately show ?thesis using xs x by auto
    next
      case False
      then have lt: "unat x < unat d" by (simp add: word_le_nat_alt)
      have "unat (x - d) = 2 ^ 32 + unat x - unat d"
        using lt by (simp add: unat_sub_if' )
      then show ?thesis using xs unsigned_less [of d, where 'a = nat] by simp
    qed
  qed
  then show ?thesis using memcpy_bytes [of d s "unat n" mem] assms unfolding rt_memmove_def if_not_P [OF False] by simp
qed


subsection \<open>Strings as lists\<close>

fun string_at :: "mem \<Rightarrow> u32 \<Rightarrow> u8 list \<Rightarrow> bool" where
  "string_at mem s [] \<longleftrightarrow> mem s = 0"
| "string_at mem s (c # cs) \<longleftrightarrow> mem s = c \<and> c \<noteq> 0 \<and> string_at mem (s + 1) cs"

text \<open>The difference of the first bytes that differ; the end of a list counts as zero.\<close>

fun str_diff :: "int list \<Rightarrow> int list \<Rightarrow> int" where
  "str_diff [] [] = 0"
| "str_diff [] (b # bs) = - b"
| "str_diff (a # as) [] = a"
| "str_diff (a # as) (b # bs) = (if a = b then str_diff as bs else a - b)"

definition first_match :: "u8 list \<Rightarrow> u8 list \<Rightarrow> nat option" where
  "first_match ys xs = find (\<lambda>i. take (length ys) (drop i xs) = ys) [0..<Suc (length xs)]"

lemma find_zero_string: "string_at mem s cs \<Longrightarrow> find_zero s mem = Some (s + of_nat (length cs))"
  by (induction cs arbitrary: s) (simp_all add: find_zero.simps algebra_simps)

lemma strlen_string: "string_at mem s cs \<Longrightarrow> rt_strlen s mem = Some (of_nat (length cs))"
  by (simp add: rt_strlen_def find_zero_string)

lemma uint_inj: "uint a = uint (b :: u8) \<longleftrightarrow> a = b"
  by (simp add: word_uint_eq_iff)

lemma strcmp_string:
  "string_at mem a xs \<Longrightarrow> string_at mem b ys \<Longrightarrow> rt_strcmp a b mem = Some (str_diff (map uint xs) (map uint ys))"
proof (induction xs arbitrary: a b ys)
  case Nil
  then show ?case by (cases ys) (simp_all add: rt_strcmp.simps [of a b])
next
  case (Cons x xs)
  then show ?case by (cases ys) (auto simp: rt_strcmp.simps [of a b] uint_inj)
qed

lemma lower_zero: "lower c = 0 \<longleftrightarrow> c = 0"
  by (auto simp: lower_def word_le_def uint_0_iff)

lemma lower_0 [simp]: "lower 0 = 0"
  by (simp add: lower_zero)

lemma strcasecmp_string:
  "string_at mem a xs \<Longrightarrow> string_at mem b ys \<Longrightarrow> rt_strcasecmp a b mem = Some (str_diff (map lower xs) (map lower ys))"
proof (induction xs arbitrary: a b ys)
  case Nil
  then show ?case by (cases ys) (auto simp: rt_strcasecmp.simps [of a b] lower_zero)
next
  case (Cons x xs)
  then show ?case by (cases ys) (auto simp: rt_strcasecmp.simps [of a b] lower_zero)
qed

lemma strncmp_string:
  "string_at mem a xs \<Longrightarrow> string_at mem b ys
    \<Longrightarrow> strncmp_loop n a b 0 mem = word_of_int (str_diff (map uint (take n xs)) (map uint (take n ys)))"
proof (induction n arbitrary: a b xs ys)
  case (Suc n)
  show ?case
  proof (cases xs)
    case Nil
    then show ?thesis using Suc.prems by (cases ys) (simp_all add: Let_def)
  next
    case (Cons x xs')
    then show ?thesis using Suc by (cases ys) (auto simp: Let_def uint_inj)
  qed
qed simp

lemma memcmp_string:
  "string_at mem a xs \<Longrightarrow> string_at mem b ys \<Longrightarrow> n \<le> length ys \<Longrightarrow> length ys \<le> length xs
    \<Longrightarrow> memcmp_loop n a b mem = 0 \<longleftrightarrow> take n xs = take n ys"
proof (induction n arbitrary: a b xs ys)
  case (Suc n)
  then show ?case by (cases xs; cases ys) (auto simp: Let_def uint_inj)
qed simp

lemma find_upt_Suc:
  "find P [0..<Suc n] = (if P 0 then Some 0 else map_option Suc (find (\<lambda>i. P (Suc i)) [0..<n]))"
proof -
  have "[0..<Suc n] = 0 # map Suc [0..<n]" by (simp add: upt_conv_Cons map_Suc_upt del: upt_Suc)
  moreover have "find P (map Suc is) = map_option Suc (find (\<lambda>i. P (Suc i)) is)" for "is" by (induction "is") simp_all
  ultimately show ?thesis by (simp del: upt_Suc)
qed

lemma first_match_Cons:
  "first_match ys (x # xs) = (if take (length ys) (x # xs) = ys then Some 0 else map_option Suc (first_match ys xs))"
  unfolding first_match_def by (subst find_upt_Suc) simp

lemma strstr_string:
  assumes "string_at mem b ys" "ys \<noteq> []" "length ys < 2 ^ 32"
  shows "string_at mem a xs \<Longrightarrow> strstr_loop (length xs) a b (of_nat (length ys)) mem
    = map_option (\<lambda>i. a + of_nat i) (first_match ys xs)"
proof (induction xs arbitrary: a)
  case Nil
  then show ?case using assms(2) by (simp add: first_match_def)
next
  case (Cons x xs)
  have u: "unat (of_nat (length ys) :: u32) = length ys" using assms(3) by (simp add: unat_of_nat)
  show ?case
  proof (cases "length ys \<le> Suc (length xs)")
    case True
    have m: "rt_memcmp a b (of_nat (length ys)) mem = 0 \<longleftrightarrow> take (length ys) (x # xs) = ys"
      using memcmp_string [OF Cons.prems assms(1), of "length ys"] True by (simp add: rt_memcmp_def u)
    have s: "strstr_loop (Suc (length xs)) a b (of_nat (length ys)) mem
      = (if take (length ys) (x # xs) = ys then Some a else strstr_loop (length xs) (a + 1) b (of_nat (length ys)) mem)"
      unfolding strstr_loop.simps u m using True by simp
    show ?thesis
    proof (cases "take (length ys) (x # xs) = ys")
      case True
      then show ?thesis using s unfolding first_match_Cons if_P [OF True] by simp
    next
      case False
      have "strstr_loop (length xs) (a + 1) b (of_nat (length ys)) mem = map_option (\<lambda>i. a + 1 + of_nat i) (first_match ys xs)"
        using Cons by simp
      then show ?thesis using s False unfolding first_match_Cons if_not_P [OF False]
        by (cases "first_match ys xs") (simp_all add: add.assoc)
    qed
  next
    case False
    have "take (length ys) (drop i (x # xs)) \<noteq> ys" for i
    proof
      assume "take (length ys) (drop i (x # xs)) = ys"
      then have "length (take (length ys) (drop i (x # xs))) = length ys" by (rule arg_cong)
      then have "min (length ys) (Suc (length xs) - i) = length ys" unfolding length_take length_drop list.size by simp
      then show False using False by simp
    qed
    then have "first_match ys (x # xs) = None" unfolding first_match_def find_None_iff by blast
    moreover have "strstr_loop (Suc (length xs)) a b (of_nat (length ys)) mem = None"
      unfolding strstr_loop.simps u using False by simp
    ultimately show ?thesis by simp
  qed
qed

lemma strstr_first:
  assumes "string_at mem a xs" "string_at mem b ys" "length xs < 2 ^ 31" "length ys < 2 ^ 31"
  shows "rt_strstr a b mem = Some (map_option (\<lambda>i. a + of_nat i) (first_match ys xs))"
proof (cases "ys = []")
  case True
  then show ?thesis using assms(2) strlen_string [OF assms(2)]
    by (simp add: rt_strstr_def first_match_def upt_conv_Cons del: upt_Suc)
next
  case False
  have u: "unat (of_nat (length zs) :: u32) = length zs" if "length zs < 2 ^ 31" for zs :: "u8 list"
    using that by (simp add: unat_of_nat)
  then have "(of_nat (length ys) :: u32) \<noteq> 0" using False assms(4) by (metis length_0_conv unsigned_0)
  then show ?thesis
    using strlen_string [OF assms(1)] strlen_string [OF assms(2)] strstr_string [OF assms(2) False _ assms(1)] assms(4) u [OF assms(3)]
    by (simp add: rt_strstr_def)
qed


lemma string_at_iff:
  "string_at mem s cs \<longleftrightarrow> (\<forall>i < length cs. mem (s + of_nat i) = cs ! i \<and> cs ! i \<noteq> 0) \<and> mem (s + of_nat (length cs)) = 0"
  by (induction cs arbitrary: s) (auto simp: All_less_Suc2 add.assoc)

definition written :: "u32 \<Rightarrow> u8 list \<Rightarrow> mem \<Rightarrow> mem" where
  "written d bs mem = (\<lambda>a. if unat (a - d) < length bs then bs ! unat (a - d) else mem a)"

lemma written_Nil [simp]: "written d [] mem = mem"
  by (simp add: written_def)

lemma written_Cons:
  assumes "length bs < 2 ^ 32"
  shows "written (d + 1) bs (mem(d := c)) = written d (c # bs) mem"
proof
  fix a
  show "written (d + 1) bs (mem(d := c)) a = written d (c # bs) mem a"
  proof (cases "a = d")
    case True
    then show ?thesis using offset_below [of 1 "length bs" a d] assms by (simp add: written_def)
  next
    case False
    then have "\<not> unat (a - d) < 1" by simp
    then have "unat (a - (d + 1)) = unat (a - d) - 1" using offset_split(2) [of 1 0 a d] by simp
    moreover have "0 < unat (a - d)" using False by (metis offset_0 gr0I)
    ultimately show ?thesis using False by (auto simp: written_def nth_Cons' )
  qed
qed

lemma strncpy_zeros: "n < 2 ^ 32 \<Longrightarrow> strncpy_zeros n d mem = written d (replicate n 0) mem"
  by (induction n arbitrary: d mem) (simp_all add: written_Cons)

text \<open>The bytes of the string are none of the \<open>n\<close> bytes from \<open>d\<close> on.\<close>

definition outside :: "u32 \<Rightarrow> u32 \<Rightarrow> nat \<Rightarrow> nat \<Rightarrow> bool" where
  "outside d s l n \<longleftrightarrow> l < 2 ^ 32 \<and> (\<forall>x. unat (x - s) < l \<longrightarrow> n \<le> unat (x - d))"

lemma outside_nth: "outside d s l n \<Longrightarrow> i < l \<Longrightarrow> n \<le> unat (s + of_nat i - d)"
  by (simp add: outside_def unat_of_nat)

lemma outside_next:
  assumes "outside d s (Suc l) (Suc n)" "Suc n < 2 ^ 32"
  shows "outside (d + 1) (s + 1) l n"
  unfolding outside_def
proof (intro conjI allI impI)
  show "l < 2 ^ 32" using assms(1) by (simp add: outside_def)
  fix x assume x: "unat (x - (s + 1)) < l"
  then have "unat (x - s) < Suc l" using offset_next [of 1 l x s] assms(1) by (simp add: outside_def)
  then have le: "Suc n \<le> unat (x - d)" using assms(1) by (simp add: outside_def)
  then have "\<not> unat (x - d) < 1" by linarith
  then have "unat (x - (d + of_nat 1)) = unat (x - d) - 1"
    using assms(2) offset_split(2) [of 1 n x d] by linarith
  then show "n \<le> unat (x - (d + 1))" using le by simp
qed

lemma string_at_outside:
  assumes "string_at mem s cs" "outside d s (Suc (length cs)) n" "0 < n"
  shows "string_at (mem(d := c)) s cs"
proof -
  have "s + of_nat i \<noteq> d" if "i < Suc (length cs)" for i
    using outside_nth [OF assms(2) that] assms(3) by auto
  then show ?thesis using assms(1) by (auto simp: string_at_iff)
qed

lemma strncpy_string:
  "string_at mem s cs \<Longrightarrow> outside d s (Suc (length cs)) n \<Longrightarrow> n < 2 ^ 32
    \<Longrightarrow> strncpy_loop n d s mem = written d (take n (cs @ replicate n 0)) mem"
proof (induction n arbitrary: d s cs mem)
  case (Suc n)
  show ?case
  proof (cases cs)
    case Nil
    then show ?thesis using Suc.prems by (simp add: Let_def strncpy_zeros written_Cons del: fun_upd_apply)
  next
    case (Cons c cs')
    have "string_at (mem(d := c)) s (c # cs')" using string_at_outside [OF Suc.prems(1,2)] Cons by simp
    then have cs: "string_at (mem(d := c)) (s + 1) cs'" by simp
    have out: "outside (d + 1) (s + 1) (Suc (length cs')) n" using outside_next [of d s "Suc (length cs')" n] Suc.prems Cons by simp
    have t: "take n (cs' @ replicate (Suc n) 0) = take n (cs' @ replicate n (0 :: u8))"
      by (simp add: replicate_append_same [symmetric] del: replicate_append_same)
    have "strncpy_loop (Suc n) d s mem = strncpy_loop n (d + 1) (s + 1) (mem(d := c))"
      using Suc.prems(1) Cons by (simp add: Let_def)
    also have "\<dots> = written (d + 1) (take n (cs' @ replicate n 0)) (mem(d := c))"
      by (rule Suc.IH [OF cs out]) (use Suc.prems(3) in simp)
    also have "\<dots> = written d (take (Suc n) (cs @ replicate (Suc n) 0)) mem"
      using Suc.prems(3) t Cons by (subst written_Cons) simp_all
    finally show ?thesis .
  qed
qed simp

lemma strncpy_written:
  "string_at mem s cs \<Longrightarrow> outside d s (Suc (length cs)) (unat n)
    \<Longrightarrow> rt_strncpy d s n mem = written d (take (unat n) (cs @ replicate (unat n) 0)) mem"
  using strncpy_string [of mem s cs d "unat n"] unsigned_less [of n, where 'a = nat]
  by (auto simp: rt_strncpy_def)

lemma strdup_copies:
  assumes "string_at mem s cs" "length cs + 1 < 2 ^ 32" "separate t s (length cs + 1)"
  shows "\<exists>mem'. rt_strdup (Some t) s mem = Some (Some t, mem') \<and> string_at mem' t cs
    \<and> (\<forall>a. length cs + 1 \<le> unat (a - t) \<longrightarrow> mem' a = mem a)"
proof -
  have u: "unat (of_nat (length cs) + 1 :: u32) = length cs + 1"
    using assms(2) by (simp add: unat_word_ariths unat_of_nat)
  have c: "rt_memcpy t s (of_nat (length cs) + 1) mem = copied t s (length cs + 1) mem"
    using memcpy_copied [of t s "of_nat (length cs) + 1" mem] assms(3) unfolding u by simp
  have at: "copied t s (length cs + 1) mem (t + of_nat i) = mem (s + of_nat i)" if "i < length cs + 1" for i
    using that assms(2) by (simp add: copied_def unat_of_nat)
  have "string_at (copied t s (length cs + 1) mem) t cs"
    using assms(1) at by (simp add: string_at_iff)
  moreover have "\<forall>a. length cs + 1 \<le> unat (a - t) \<longrightarrow> copied t s (length cs + 1) mem a = mem a"
    by (auto simp: copied_def)
  ultimately show ?thesis using strlen_string [OF assms(1)] c by (simp add: rt_strdup_def)
qed


subsection \<open>Memory and string calls as a whole\<close>

lemma separate_blocks:
  assumes "unat d + n < 2 ^ 32" "unat s + n < 2 ^ 32" "unat s + n \<le> unat d \<or> unat d + n \<le> unat s"
  shows "separate d s n"
  unfolding separate_def
proof (intro allI impI)
  fix x assume x: "unat (x - s) < n"
  define k where "k = x - s"
  have "unat (s + k) = unat s + unat k" using x assms(2) by (simp add: k_def [symmetric] unat_word_ariths)
  then have xs: "unat x = unat s + unat (x - s)" by (simp add: k_def)
  show "n \<le> unat (x - d)"
  proof (cases "d \<le> x")
    case True
    then have "unat (x - d) = unat x - unat d" "unat d \<le> unat x" by (simp_all add: unat_sub word_le_nat_alt)
    then show ?thesis using xs x assms(3) by auto
  next
    case False
    then have "unat (x - d) = 2 ^ 32 + unat x - unat d" by (simp add: word_le_nat_alt unat_sub_if')
    then show ?thesis using xs x assms by simp
  qed
qed

text \<open>C39. \<open>rt_memset\<close> and \<open>rt_memcpy\<close>, which go by words where both addresses are aligned, and
  \<open>rt_memmove\<close>, which goes down where the blocks overlap, do what a byte-wise definition says:
  \<open>rt_memset\<close> fills exactly the \<open>n\<close> bytes with the low byte of \<open>c\<close>, \<open>rt_memmove\<close> copies the \<open>n\<close> bytes
  as they were before the call, and \<open>rt_memcpy\<close> does so where the blocks are apart. Nothing else changes.\<close>

theorem memory_calls_fill_and_copy:
  assumes "unat d + unat n < 2 ^ 32" "unat s + unat n < 2 ^ 32"
  shows "rt_memset d c n mem = filled d (unat n) (ucast (c AND 0xff)) mem
    \<and> rt_memmove d s n mem = copied d s (unat n) mem
    \<and> (unat s + unat n \<le> unat d \<or> unat d + unat n \<le> unat s \<longrightarrow> rt_memcpy d s n mem = copied d s (unat n) mem)"
  using assms by (simp_all add: memset_filled memmove_copied memcpy_copied separate_blocks)

definition sample_mem :: mem where
  "sample_mem a = (if a < 40 then ucast a else 0)"

lemma memory_calls_fill_and_copy_witness:
  "rt_memmove 0x102 0x100 3 sample_mem = copied 0x102 0x100 3 sample_mem
    \<and> rt_memcpy 0x200 0x100 20 sample_mem = copied 0x200 0x100 20 sample_mem"
  using memory_calls_fill_and_copy [of "0x102" 3 "0x100" 0 sample_mem]
    memory_calls_fill_and_copy [of "0x200" 20 "0x100" 0 sample_mem] by simp

text \<open>The string functions see lists of bytes: for strings shorter than 2 GB \<open>rt_strlen\<close> returns the
  length, \<open>rt_strcmp\<close> and \<open>rt_strcasecmp\<close> the difference of the first bytes that differ, \<open>rt_strncmp\<close>
  the same over at most \<open>n\<close> bytes but cut to a signed byte, and \<open>rt_strstr\<close> the address of the first
  occurrence, or none.\<close>

theorem strings_compared_and_found:
  assumes "string_at mem a xs" "string_at mem b ys" "length xs < 2 ^ 31" "length ys < 2 ^ 31"
  shows "rt_strlen a mem = Some (of_nat (length xs))
    \<and> rt_strcmp a b mem = Some (str_diff (map uint xs) (map uint ys))
    \<and> rt_strcasecmp a b mem = Some (str_diff (map lower xs) (map lower ys))
    \<and> rt_strncmp a b n mem
        = signed_take_bit 7 (str_diff (map uint (take (unat n) xs)) (map uint (take (unat n) ys)))
    \<and> rt_strstr a b mem = Some (map_option (\<lambda>i. a + of_nat i) (first_match ys xs))"
  using strlen_string [OF assms(1)] strcmp_string [OF assms(1,2)] strcasecmp_string [OF assms(1,2)]
    strncmp_string [OF assms(1,2), of "unat n"] strstr_first [OF assms]
  by (simp add: rt_strncmp_def sint_sbintrunc')

definition sample_strings :: mem where
  "sample_strings a = (if a = 0 then 0x61 else if a = 1 then 0xC8 else if a = 3 then 0xC8 else 0)"

lemma strings_compared_and_found_witness:
  "rt_strlen 0 sample_strings = Some 2 \<and> rt_strstr 0 3 sample_strings = Some (Some 1)"
  using strings_compared_and_found [of sample_strings 0 "[0x61, 0xC8]" 3 "[0xC8]" 0]
  by (simp add: sample_strings_def first_match_def)

text \<open>\<open>rt_strncmp\<close> keeps its result in a signed char, so bytes that are more than 127 apart compare the
  wrong way round; it is zero only for equal bytes all the same.\<close>

theorem strncmp_turns_the_order:
  "rt_strcmp 3 4 sample_strings = Some 200 \<and> rt_strncmp 3 4 1 sample_strings = - 56"
  by (simp add: rt_strcmp.simps rt_strncmp_def sample_strings_def Let_def)

end
