(* ===== verification/Heap_Align.thy ===== *)
theory Heap_Align
  imports Heap_Theorems
begin

section \<open>Aligned blocks (\<open>rt_malloc_align\<close> of \<open>rt-thread/src/kservice.c\<close>)\<close>

text \<open>
  Blocks on larger boundaries: a block of the heap with room for the boundary, in which the word before
  the address that is returned keeps the address of the block. Words lie in the bytes of the heap, low
  byte first.
\<close>

definition write_int :: "int \<Rightarrow> int \<Rightarrow> heap \<Rightarrow> heap" where
  "write_int a v h =
    h\<lparr>heap_byte := (heap_byte h)(a := word_of_int v, a + 1 := word_of_int (drop_bit 8 v),
        a + 2 := word_of_int (drop_bit 16 v), a + 3 := word_of_int (drop_bit 24 v))\<rparr>"

definition read_int32 :: "int \<Rightarrow> heap \<Rightarrow> int" where
  "read_int32 a h = uint (heap_byte h a) OR push_bit 8 (uint (heap_byte h (a + 1)))
     OR push_bit 16 (uint (heap_byte h (a + 2))) OR push_bit 24 (uint (heap_byte h (a + 3)))"

text \<open>The address on the boundary, the next one where the block is on it already.\<close>

definition next_boundary :: "int \<Rightarrow> int \<Rightarrow> int" where
  "next_boundary ptr align =
    (if ptr AND (align - 1) = 0 then (ptr + align) mod 2 ^ 32
     else ((ptr + (align - 1)) mod 2 ^ 32) AND NOT (align - 1))"

definition rt_malloc_align :: "int \<Rightarrow> int \<Rightarrow> heap \<Rightarrow> kernel \<Rightarrow> (int option \<times> heap) outcome option" where
  "rt_malloc_align size0 align h k =
    (let align = align_up align;
         align_size = (align_up size0 + align) mod 2 ^ 32
     in then_heap (rt_malloc align_size h k) (\<lambda>ptr h k.
          case ptr of
            None \<Rightarrow> Some (Returned (None, h) k)
          | Some ptr \<Rightarrow>
             let align_ptr = next_boundary ptr align
             in Some (Returned (Some align_ptr, write_int (align_ptr - 4) ptr h) k)))"

definition rt_free_align :: "int \<Rightarrow> heap \<Rightarrow> kernel \<Rightarrow> (unit \<times> heap) outcome option" where
  "rt_free_align ptr h k =
    (let real_ptr = read_int32 (ptr - 4) h in rt_free (if real_ptr = 0 then None else Some real_ptr) h k)"

lemma and_less_mask: "(x :: int) AND (2 ^ j - 1) = x mod 2 ^ j" "x AND NOT (2 ^ j - 1) = x - x mod 2 ^ j"
proof -
  show "x AND (2 ^ j - 1) = x mod 2 ^ j" using take_bit_eq_mask [of j x] by (simp add: take_bit_eq_mod mask_eq_exp_minus_1)
  have "x - take_bit j x = x AND NOT (take_bit j x)" by (rule disjunctive_diff) (simp add: bit_take_bit_iff)
  also have "\<dots> = x AND NOT (mask j)"
    by (rule bit_eqI) (auto simp: bit_and_iff bit_not_iff bit_take_bit_iff bit_mask_iff)
  finally show "x AND NOT (2 ^ j - 1) = x - x mod 2 ^ j" by (simp add: take_bit_eq_mod mask_eq_exp_minus_1)
qed

lemma next_boundary:
  assumes "2 \<le> j" "4 dvd q" "0 \<le> q" "q + 2 ^ j < 2 ^ 32"
  shows "2 ^ j dvd next_boundary q (2 ^ j)" "q + 4 \<le> next_boundary q (2 ^ j)" "next_boundary q (2 ^ j) \<le> q + 2 ^ j"
proof -
  define b :: int where "b = 2 ^ j"
  have b: "4 dvd b" "0 < b" using assms(1) le_imp_power_dvd [of 2 j "2 :: int"] by (simp_all add: b_def)
  have r: "0 \<le> q mod b" "q mod b < b" using b(2) by simp_all
  have p: "next_boundary q b = q - q mod b + b"
  proof (cases "q mod b = 0")
    case True
    then show ?thesis using assms(3,4) by (simp add: b_def next_boundary_def and_less_mask)
  next
    case False
    have "(q + (b - 1)) mod b = (q mod b + (b - 1)) mod b" by (simp only: mod_add_left_eq)
    also have "q mod b + (b - 1) = q mod b - 1 + b" by simp
    also have "(q mod b - 1 + b) mod b = q mod b - 1" unfolding mod_add_self2 using False r by (intro mod_pos_pos_trivial) linarith+
    finally have m: "(q + (b - 1)) mod b = q mod b - 1" .
    have "(q + (b - 1)) mod 2 ^ 32 = q + (b - 1)" using assms(3,4) b(2) by (intro mod_pos_pos_trivial) (simp_all add: b_def)
    then show ?thesis using False m unfolding next_boundary_def b_def and_less_mask by simp
  qed
  have "4 dvd b - q mod b" using b(1) assms(2) by (simp add: dvd_mod)
  then have "4 \<le> b - q mod b" using r by (simp add: zdvd_imp_le)
  moreover have "b dvd q - q mod b" by (simp add: dvd_minus_mod)
  ultimately show "2 ^ j dvd next_boundary q (2 ^ j)" "q + 4 \<le> next_boundary q (2 ^ j)" "next_boundary q (2 ^ j) \<le> q + 2 ^ j"
    using p r(1) unfolding b_def [symmetric] by simp_all
qed

lemma read_write_int:
  assumes "0 \<le> v" "v < 2 ^ 32"
  shows "read_int32 a (write_int a v h) = v"
proof -
  have v: "take_bit 32 v = v" using assms by (simp add: take_bit_eq_mod)
  have "bit (read_int32 a (write_int a v h)) n = bit (take_bit 32 v) n" for n
    unfolding read_int32_def write_int_def
    by (cases "24 \<le> n"; cases "16 \<le> n"; cases "8 \<le> n") (auto simp: uint_word_of_int_eq bit_simps)
  then have "read_int32 a (write_int a v h) = take_bit 32 v" by (rule bit_eqI)
  then show ?thesis by (simp add: v)
qed

lemma write_int_simps [simp]:
  "heap_hdr (write_int a v h) = heap_hdr h" "heap_ptr (write_int a v h) = heap_ptr h"
  "heap_end (write_int a v h) = heap_end h" "lfree (write_int a v h) = lfree h"
  "mem_size_aligned (write_int a v h) = mem_size_aligned h" "used_mem (write_int a v h) = used_mem h"
  "max_mem (write_int a v h) = max_mem h"
  by (simp_all add: write_int_def)

lemma heap_ok_write [simp]: "heap_ok (write_int a v h) = heap_ok h"
  by (rule ext) (simp add: heap_ok_def heap_tiles_def heap_counts_def)

lemma heap_live_write [simp]: "heap_live (write_int a v h) = heap_live h"
  by (simp add: heap_live_def)

lemma align_up_dvd: "0 \<le> n \<Longrightarrow> n \<le> 2 ^ 32 - 4 \<Longrightarrow> 4 dvd n \<Longrightarrow> align_up n = n"
  by (simp add: align_up_eq dvd_minus_iff)

lemma malloc_align:
  assumes ok: "heap_ok h bs" "12 \<le> mem_size_aligned h" "heap_sem_free k"
    and size: "0 \<le> size0" "2 \<le> j" "size0 + 2 ^ j \<le> 2 ^ 32 - 8"
  shows "\<exists>r h'. rt_malloc_align size0 (2 ^ j) h k = Some (Returned (r, h') k) \<and>
    (case r of
       None \<Rightarrow> h' = h
     | Some p \<Rightarrow> 2 ^ j dvd p \<and> (\<exists>bs'. heap_ok h' bs') \<and> (\<exists>q n. heap_live h' = insert (q, n) (heap_live h)
         \<and> (\<forall>(q', m) \<in> heap_live h. q + n \<le> q' \<or> q' + m \<le> q)
         \<and> q + 4 \<le> p \<and> p + size0 \<le> q + n \<and> q \<noteq> 0
         \<and> read_int32 (p - 4) h' = q
         \<and> (\<forall>a. a < q \<or> p \<le> a \<longrightarrow> heap_byte h' a = heap_byte h a)))"
proof -
  define b :: int where "b = 2 ^ j"
  have b: "4 dvd b" "4 \<le> b" using size(2) le_imp_power_dvd [of 2 j "2 :: int"] zdvd_imp_le [of 4 b] by (simp_all add: b_def)
  have sz: "size0 \<le> 2 ^ 32 - 4" "b \<le> 2 ^ 32 - 4" using size(1,3) b(2) by (simp_all add: b_def)
  note al = align_up [OF size(1) sz(1)]
  define s where "s = align_up size0 + b"
  have s: "0 < s" "s \<le> 2 ^ 32 - 4" "4 dvd s" using al b size by (simp_all add: s_def b_def)
  have as: "align_up b = b" "align_up s = s" "s mod 2 ^ 32 = s"
    using align_up_dvd s b sz(2) by simp_all
  have eq: "rt_malloc_align size0 (2 ^ j) h k = then_heap (rt_malloc s h k) (\<lambda>ptr h k.
      case ptr of None \<Rightarrow> Some (Returned (None, h) k)
      | Some ptr \<Rightarrow> Some (Returned (Some (next_boundary ptr b), write_int (next_boundary ptr b - 4) ptr h) k))"
    unfolding rt_malloc_align_def Let_def b_def [symmetric] as(1) s_def [symmetric] as(3) ..
  show ?thesis
  proof (rule heap_malloc_live [OF ok(1,2) s(1,2)])
    assume "heap_malloc s h = Some (None, h)"
    then show ?thesis unfolding eq by (simp add: rt_malloc_free_sem [OF ok(3)] then_heap_def)
  next
    fix q n h' bs'
    assume m: "heap_malloc s h = Some (Some q, h')" "heap_ok h' bs'" "align_up s \<le> n"
      "heap_live h' = insert (q, n) (heap_live h)" "\<And>q' m. (q', m) \<in> heap_live h \<Longrightarrow> q + n \<le> q' \<or> q' + m \<le> q"
      "heap_byte h' = heap_byte h"
    have q: "heap_ptr h' + 12 \<le> q" "q + n \<le> heap_ptr h' + heap_end h'" "4 dvd q"
      using live_range [OF m(2), of q n] m(4) by simp_all
    note hd = heap_okD [OF m(2)]
    have q0: "0 < q" "q + n < 2 ^ 32" using q hd by linarith+
    then have "q + b < 2 ^ 32" using m(3) as(2) al size(1) by (simp add: s_def)
    note nb = next_boundary [OF size(2) q(3), folded b_def, OF less_imp_le [OF q0(1)] this]
    define p where "p = next_boundary q b"
    have p: "b dvd p" "q + 4 \<le> p" "p \<le> q + b" using nb by (simp_all add: p_def)
    have fits: "p + size0 \<le> q + n" using p(3) m(3) as(2) al by (simp add: s_def)
    have r: "read_int32 (p - 4) (write_int (p - 4) q h') = q"
      using q0 m(3) as(2) s(1) by (intro read_write_int) simp_all
    have o: "heap_byte (write_int (p - 4) q h') a = heap_byte h a" if "a < q \<or> p \<le> a" for a
      using that p(2) m(6) by (auto simp: write_int_def)
    have "rt_malloc_align size0 (2 ^ j) h k = Some (Returned (Some p, write_int (p - 4) q h') k)"
      unfolding eq by (simp add: rt_malloc_free_sem [OF ok(3)] then_heap_def m(1) p_def)
    then show ?thesis
      using p(1,2) m(2,4,5) fits r o q0(1) unfolding b_def
      by (intro exI [of _ "Some p"] exI [of _ "write_int (p - 4) q h'"]) auto
  qed
qed

text \<open>\<open>rt_malloc_align\<close> on a boundary of a power of two gives an address on the boundary with the bytes asked for
  inside a new block of the heap, which overlaps no other block; the word before the address, the only one that is
  written, lies in the block too. As long as it stays, \<open>rt_free_align\<close> gives the block back.\<close>

theorem aligned_blocks_fit:
  assumes "heap_ok h bs" "12 \<le> mem_size_aligned h" "heap_sem_free k" "0 \<le> size0" "2 \<le> j" "size0 + 2 ^ j \<le> 2 ^ 32 - 8"
    and "rt_malloc_align size0 (2 ^ j) h k = Some (Returned (Some p, h') k')"
  shows "\<exists>q n. 2 ^ j dvd p \<and> heap_live h' = insert (q, n) (heap_live h) \<and> q + 4 \<le> p \<and> p + size0 \<le> q + n
    \<and> (\<forall>(q', m) \<in> heap_live h. (q + n \<le> q' \<or> q' + m \<le> q) \<and> (\<forall>a. q' \<le> a \<and> a < q' + m \<longrightarrow> heap_byte h' a = heap_byte h a))
    \<and> (\<forall>h2. (\<forall>a. p - 4 \<le> a \<and> a < p \<longrightarrow> heap_byte h2 a = heap_byte h' a) \<longrightarrow> rt_free_align p h2 k = rt_free (Some q) h2 k)"
proof -
  obtain q n where q: "2 ^ j dvd p" "heap_live h' = insert (q, n) (heap_live h)" "\<forall>(q', m) \<in> heap_live h. q + n \<le> q' \<or> q' + m \<le> q"
    "q + 4 \<le> p" "p + size0 \<le> q + n" "q \<noteq> 0" "read_int32 (p - 4) h' = q" "\<forall>a. a < q \<or> p \<le> a \<longrightarrow> heap_byte h' a = heap_byte h a"
    using malloc_align [OF assms(1-6)] assms(7) by auto
  have "heap_byte h' a = heap_byte h a" if "(q', m) \<in> heap_live h" "q' \<le> a" "a < q' + m" for q' m a
  proof -
    have "q + n \<le> q' \<or> q' + m \<le> q" using q(3) that(1) by blast
    then have "a < q \<or> p \<le> a" using q(5) assms(4) that(2,3) by linarith
    then show ?thesis using q(8) by blast
  qed
  then have "\<forall>(q', m) \<in> heap_live h. (q + n \<le> q' \<or> q' + m \<le> q) \<and> (\<forall>a. q' \<le> a \<and> a < q' + m \<longrightarrow> heap_byte h' a = heap_byte h a)"
    using q(3) by auto
  moreover have "rt_free_align p h2 k = rt_free (Some q) h2 k"
    if same: "\<forall>a. p - 4 \<le> a \<and> a < p \<longrightarrow> heap_byte h2 a = heap_byte h' a" for h2
  proof -
    have "read_int32 (p - 4) h2 = read_int32 (p - 4) h'" using same by (simp add: read_int32_def)
    then show ?thesis using q(6,7) by (simp add: rt_free_align_def)
  qed
  ultimately show ?thesis using q(1,2,4,5) by (intro exI [of _ q] exI [of _ n] conjI allI impI)
qed

text \<open>The sum of size and boundary wraps: a request for almost all of the memory is given a small block.\<close>

lemma aligned_size_wraps:
  "rt_malloc_align 0xfffffff0 32 h k = then_heap (rt_malloc 16 h k) (\<lambda>ptr h k.
     case ptr of None \<Rightarrow> Some (Returned (None, h) k)
     | Some ptr \<Rightarrow> Some (Returned (Some (next_boundary ptr 32), write_int (next_boundary ptr 32 - 4) ptr h) k))"
proof -
  have a: "align_up 32 = 32" "align_up 0xfffffff0 = 0xfffffff0" by (simp_all add: align_up_eq)
  show ?thesis unfolding rt_malloc_align_def Let_def a by simp
qed

end
