(* ===== verification/Spec2Isabelle.thy ===== *)
theory Spec2Isabelle
  imports Ipc_Theorems Heap_Theorems Ringbuffer Display_Theorems Watch_Theorems Sensor Shell_Theorems Console
    Data_Queue Block_Ring Kernel_Print Memory_Services Heap_Align
begin

text \<open>
  \<^bold>\<open>The CH32V307 smartwatch: the watch, its clock and display, and the kernel it runs on.\<close>

  The program is a watch (\<^verbatim>\<open>SmartWatch_V_1/applications\<close>) on the RT-Thread 4.0.4 kernel
  (\<^verbatim>\<open>SmartWatch_V_1/rt-thread\<close>) for one RISC-V core. Three buttons change the menu, whose last
  step sets the clock; one thread reads clock and sensors and releases a semaphore, one takes it and draws the screen, and one
  reads the colour from a serial line. What the watch shows and when it shows it
  rests on the kernel's scheduling, timers and blocking objects, and on the C library's calendar;
  these are the parts modelled. The configuration is that of \<^verbatim>\<open>rtconfig.h\<close>: 32 priorities, 1000
  ticks a second, one core, no debug checks (\<^verbatim>\<open>RT_ASSERT\<close> and \<^verbatim>\<open>RT_DEBUG_*\<close> compile to
  nothing), hooks not used, object names of 8 characters. In what follows \<^verbatim>\<open>src/*.c\<close> is
  \<^verbatim>\<open>rt-thread/src\<close>.

  \<^bold>\<open>State.\<close> Pointers are numbers: a thread, a timer, a semaphore is an index into a field of the record
  \<open>kernel\<close> (\<open>Kernel_State\<close>), which holds every structure of \<^verbatim>\<open>rtdef.h\<close> and the global variables of
  \<^verbatim>\<open>scheduler.c\<close>, \<^verbatim>\<open>timer.c\<close>, \<^verbatim>\<open>thread.c\<close>, \<^verbatim>\<open>object.c\<close>, \<^verbatim>\<open>irq.c\<close> and \<^verbatim>\<open>clock.c\<close>. The doubly
  linked lists of threads are one function \<open>tq\<close> from the list heads to lists of threads, so that
  \<^verbatim>\<open>rt_list_remove\<close> of the thread's own node is the removal of the thread from every list. Integers
  that the code counts with or compares keep their width (\<open>u8\<close>, \<open>u16\<close>, \<open>u32\<close>, the 15-bit indices
  of the ring): ticks wrap, semaphores and mailboxes count to 65535. Result codes are \<open>int\<close>.

  \<^bold>\<open>Control.\<close> Every operation is a function from the state to its result and the new state. A call
  that may give up the processor ends in an \<open>outcome\<close>: \<open>Returned r k\<close>, or \<open>Blocked k\<close> when the thread
  was switched away; what it does when it runs again is the function \<open>*_resume\<close> of that call
  (\<open>rt_thread_sleep_resume\<close>, \<open>wait_result\<close>, \<open>mb_recv_resume\<close>, \<open>mq_send_resume\<close> and so on). Masking of
  interrupts delimits what is one step; interrupts arrive between steps. What is called through a
  pointer (timer functions of users) or stands outside the repository (the
  cleanup function, board initialisation), and the result of an allocation where an object is created, is an argument of the definitions, or is
  recorded in the list of calls \<open>kernel_calls\<close>.

  \<^bold>\<open>Theories\<close>, in the order of the code:
  \<^item> \<open>Prelude\<close>: integer types, error codes, the collections \<open>kfield\<close> and \<open>kframe\<close>, lemmas on lists and
    words. \<open>Bitmap\<close>: \<^verbatim>\<open>__rt_ffs\<close> of \<^verbatim>\<open>src/kservice.c\<close>, equal to the first set bit for every word.
  \<^item> \<open>Kernel_State\<close>: the structures and list primitives. \<open>Scheduler\<close>: \<^verbatim>\<open>src/scheduler.c\<close>, with the
    invariant \<open>kinv\<close> (every thread is in exactly the list its state says, the ready bitmap
    describes the ready table, the current thread is running) and its
    preservation. \<open>Kernel_Object\<close>: \<^verbatim>\<open>src/object.c\<close>.
  \<^item> \<open>Timer\<close>: \<^verbatim>\<open>src/timer.c\<close>, the list of active timers sorted in the order of the wrapping tick
    counter. \<open>Thread\<close>: \<^verbatim>\<open>src/thread.c\<close>. \<open>Clock\<close>: \<^verbatim>\<open>src/clock.c\<close>, \<^verbatim>\<open>src/irq.c\<close>, the expiry loop of
    \<^verbatim>\<open>rt_timer_check\<close> and the collection of closed threads of \<^verbatim>\<open>src/idle.c\<close>. \<open>Startup\<close>:
    \<^verbatim>\<open>src/components.c\<close>. \<open>Expiry\<close>: the invariant \<open>system_ok\<close> of the whole system and what a tick
    does to it. \<open>Sleeping\<close>: a thread that sleeps, tick by tick. \<open>Sample\<close>: the state the witnesses use.
    \<open>Kernel_Theorems\<close>: the properties of these parts.
  \<^item> \<open>Wait_List\<close>: the lists of waiting threads of \<^verbatim>\<open>src/ipc.c\<close>, with the locale \<open>wait_list\<close> of what an
    object with such a list needs, interpreted by \<open>Semaphore\<close>, \<open>Mutex\<close>, \<open>Event\<close>, \<open>Mailbox\<close> and
    \<open>MessageQueue\<close>, one per section of \<^verbatim>\<open>src/ipc.c\<close>, and by \<open>Data_Queue\<close>. \<open>Ipc_Theorems\<close>: their properties.
  \<^item> \<open>Heap\<close>: \<^verbatim>\<open>src/mem.c\<close>. The headers in memory are a chain \<open>seg\<close> that a list of blocks describes; each step
    (cutting, freeing, joining) is proved as a change of that list. \<open>Heap_Theorems\<close>: the locale \<open>allocator\<close>,
    its interpretation by the heap, and the properties.
  \<^item> \<open>Ring\<close>: arrays used as rings, and the locale \<open>bounded_queue\<close> that mailboxes, byte rings
    and data queues interpret. \<open>Ringbuffer\<close>: \<^verbatim>\<open>components/drivers/src/ringbuffer.c\<close> and its properties.
  \<^item> \<open>Data_Queue\<close>: \<^verbatim>\<open>completion.c\<close> and \<^verbatim>\<open>dataqueue.c\<close> of \<^verbatim>\<open>components/drivers/src\<close>, with the kernel and the lists of
    \<open>Wait_List\<close> under them. \<open>Block_Ring\<close>: \<^verbatim>\<open>ringblk_buf.c\<close> there, blocks of one buffer in the order of a ring.
  \<^item> \<open>Calendar\<close>, \<open>Calendar_Theorems\<close>: \<^verbatim>\<open>components/libc/compilers/common/time.c\<close>. \<open>Rtc\<close>: the software clock,
    \<^verbatim>\<open>components/drivers/rtc\<close>, and the functions of \<^verbatim>\<open>time.c\<close> that read and set it.
  \<^item> \<open>Display\<close>: \<^verbatim>\<open>applications/ST7789.c\<close> as the events on the wires of the panel, \<open>Fonts\<close>: the tables of
    \<^verbatim>\<open>applications/fonts.c\<close>, \<open>Display_Theorems\<close>: where characters and rectangles are drawn. \<open>Sensor\<close>:
    \<^verbatim>\<open>applications/MPU6050.c\<close> as the events on its bus.
  \<^item> \<open>Watch\<close>: \<^verbatim>\<open>applications/watch.c\<close>, its global variables as the record \<open>watch\<close>, one function for each button,
    for a character of the serial line and for a round of each of the two threads, and their interleaving as the step relation
    \<open>watch_step\<close>. \<open>Watch_Clock\<close>: the buttons and the clock. \<open>Watch_Screen\<close>: the texts and the invariant.
    \<open>Watch_Theorems\<close>: the properties. \<open>Watch_Start\<close>: \<^verbatim>\<open>Main_Threads\<close>, which creates what the watch needs in the kernel.
  \<^item> \<open>Device\<close>: \<^verbatim>\<open>src/device.c\<close>, with the locale \<open>driver\<close> of what it relies on. \<open>Serial\<close>:
    \<^verbatim>\<open>components/drivers/serial/serial.c\<close>, which interprets it, and its ring of received bytes, another \<open>bounded_queue\<close>.
  \<^item> \<open>Msh\<close>, \<open>Shell\<close>: \<^verbatim>\<open>components/finsh/msh.c\<close> and \<^verbatim>\<open>shell.c\<close>, the commands and the line editor, one character at a time;
    what the C code would read or write outside an array has no result. \<open>Shell_Safety\<close>: when there is one. \<open>Shell_Editor\<close>: an
    abstract editor and the simulation. \<open>Shell_Theorems\<close>: the properties. \<open>Console\<close>: the console of \<^verbatim>\<open>src/kservice.c\<close>, and the line
    that board, shell and watch share.
  \<^item> The rest of \<^verbatim>\<open>src/kservice.c\<close>. \<open>Text_Format\<close>: \<^verbatim>\<open>rt_vsnprintf\<close>, against the text of a format as a list of bytes.
    \<open>Kernel_Print\<close>: \<^verbatim>\<open>rt_kprintf\<close> on the console, and the error numbers. \<open>Memory_Services\<close>: the functions on memory and
    strings, memory being a function from addresses to bytes. \<open>Heap_Align\<close>: blocks on larger boundaries, over \<open>Heap\<close>.

  \<^bold>\<open>Properties.\<close> The variables of the watch stay in range whatever is pressed; its last menu sets the clock to
  the chosen date; every round of the screen stays on the screen and in the fonts. From reset the system starts the main thread; the running thread has the highest
  priority; equal threads take turns; a tick fires exactly the due timers; a sleeping thread becomes
  runnable after the ticks it asked for. The blocking objects refine their abstract
  counterparts: a counter with a queue of waiting threads, a bounded queue of words or messages, a set
  of flags with a pass over the waiting threads; mutexes hand over their owner and inherit
  priorities. The heap is first fit, its live blocks never overlap, freeing undoes allocating. Dates and seconds correspond one to one from 1970 on. A byte ring and a data queue are bounded queues, a completion hands over to the thread that waits, the blocks of a block ring stay apart; a serial line keeps the newest
  bytes; the shell is a line editor that runs the words of a line, completes names, and stays in its arrays but for one sequence of keys;
  the watch takes the line away from it. Printing stays in its buffer and
  numbers read back; filling and copying by words is filling and copying by bytes. Where the code does not do what it means to, the
  property says what it does: month 0, the buffers of two bytes, the battery below its range, the time of day in the date
  line, the serial thread that never sleeps, the text too long for the print buffer, the clock that falls back when the tick counter comes round.

  \<^bold>\<open>Loops.\<close> The loops of the code end by a decreasing measure, except the retry loops of the mailbox,
  the message queue and the data queue, the expiry loop, the two walks of the heap and the search for the zero of a string, which are partial functions with
  \<open>None\<close> for not returning; their properties prove the value, and \<open>mailbox_recv_locked_never_returns\<close> that there is none.

  \<^bold>\<open>Not modelled\<close>: the contents of stacks and the context switch itself (assembly), registers of the
  peripherals and the drivers over them but for the serial line, the commands of the shell, file systems and network
  stacks (third-party code, or not configured), work queues and pipes. Of the watch: the
  settings of pins and of the converter, and the moment inside a round at which a button is
  pressed (a round is one step; a press in the middle of it shows a number in the old and its digits in the new form until the next
  round). Floating point is used once, for a square root whose integer part is exact.
\<close>

end
